(* ===== verification/Bytes.thy ===== *)
theory Bytes
  imports Prelude
begin

text \<open>
  Integers as byte strings, the two ways the libraries write them: fixed width with the
  least significant byte first, and base-128 varints. The nanopb and the LevelDB components
  are both measured against the functions of this theory.
\<close>

section \<open>Little-endian integers\<close>

primrec le_bytes :: "nat \<Rightarrow> 'a::len word \<Rightarrow> byte list" where
  "le_bytes 0 w = []"
| "le_bytes (Suc n) w = ucast w # le_bytes n (drop_bit 8 w)"

primrec le_word :: "byte list \<Rightarrow> 'a::len word" where
  "le_word [] = 0"
| "le_word (b # bs) = ucast b OR push_bit 8 (le_word bs)"

lemma length_le_bytes [simp]: "length (le_bytes n w) = n"
  by (induction n arbitrary: w) auto

lemma le_word_le_bytes: "le_word (le_bytes n w) = take_bit (8 * n) w"
proof (induction n arbitrary: w)
  case 0
  then show ?case by simp
next
  case (Suc n)
  show ?case
    by (rule bit_word_eqI) (auto simp: Suc bit_simps)
qed

lemma le_bytes_cong:
  "(\<And>i. i < 8 * n \<Longrightarrow> bit v i = bit w i) \<Longrightarrow> le_bytes n v = le_bytes n w"
proof (induction n arbitrary: v w)
  case 0
  then show ?case by simp
next
  case (Suc n)
  have "ucast v = (ucast w :: byte)"
    by (rule bit_word_eqI) (auto simp: bit_simps Suc.prems dest: bit_imp_le_length)
  moreover have "le_bytes n (drop_bit 8 v) = le_bytes n (drop_bit 8 w)"
    by (rule Suc.IH) (simp add: bit_simps Suc.prems)
  ultimately show ?case by simp
qed

lemma le_bytes_le_word:
  "8 * length bs \<le> LENGTH('a) \<Longrightarrow> le_bytes (length bs) (le_word bs :: 'a::len word) = bs"
proof (induction bs)
  case Nil
  then show ?case by simp
next
  case (Cons b bs)
  have "ucast (ucast b OR push_bit 8 (le_word bs :: 'a word)) = b"
    using Cons.prems by (intro bit_word_eqI) (auto simp: bit_simps)
  moreover have "le_bytes (length bs) (drop_bit 8 (ucast b OR push_bit 8 (le_word bs :: 'a word)))
      = le_bytes (length bs) (le_word bs :: 'a word)"
    by (rule le_bytes_cong) (use Cons.prems in \<open>auto simp: bit_simps dest: bit_imp_le_length\<close>)
  ultimately show ?case using Cons by simp
qed

lemma le_word_8 [simp]: "le_word (le_bytes 8 w) = (w :: u64)"
  by (simp add: le_word_le_bytes take_bit_word_eq_self)

lemma le_word_4 [simp]: "le_word (le_bytes 4 w) = (w :: u32)"
  by (simp add: le_word_le_bytes take_bit_word_eq_self)

lemma le_word_2 [simp]: "le_word (le_bytes 2 w) = (w :: u16)"
  by (simp add: le_word_le_bytes take_bit_word_eq_self)

lemma le_bytes_4:
  "le_bytes 4 w = [ucast w, ucast (drop_bit 8 w), ucast (drop_bit 16 w), ucast (drop_bit 24 w)]"
proof -
  have n: "4 = Suc (Suc (Suc (Suc 0)))" by simp
  show ?thesis by (simp only: n le_bytes.simps drop_bit_drop_bit) simp
qed

lemma le_bytes_8:
  "le_bytes 8 w = [ucast w, ucast (drop_bit 8 w), ucast (drop_bit 16 w), ucast (drop_bit 24 w),
     ucast (drop_bit 32 w), ucast (drop_bit 40 w), ucast (drop_bit 48 w), ucast (drop_bit 56 w)]"
proof -
  have n: "le_bytes 8 w = le_bytes (Suc (Suc (Suc (Suc 4)))) w" by simp
  show ?thesis by (simp only: n le_bytes.simps le_bytes_4 drop_bit_drop_bit) simp
qed

lemma ucast_and_FF: "ucast (w AND 0xFF) = (ucast w :: byte)"
proof -
  have "w AND 0xFF = take_bit 8 w" by (simp add: take_bit_eq_mask mask_eq_exp_minus_1)
  then show ?thesis by (auto intro!: bit_word_eqI simp: bit_simps dest: bit_imp_le_length)
qed

lemma bit_le_word: "bit (le_word bs :: 'a::len word) i \<Longrightarrow> i < 8 * length bs"
proof (induction bs arbitrary: i)
  case Nil
  then show ?case by simp
next
  case (Cons b bs)
  show ?case
  proof (cases "i < 8")
    case False
    then have "bit (le_word bs :: 'a word) (i - 8)"
      using Cons.prems by (auto simp: bit_simps dest: bit_imp_le_length)
    then show ?thesis using Cons.IH [of "i - 8"] by simp
  qed simp
qed

lemma take_bit_le_word:
  "8 * length bs \<le> n \<Longrightarrow> take_bit n (le_word bs) = (le_word bs :: 'a::len word)"
  by (rule bit_word_eqI) (auto simp: bit_simps dest: bit_le_word)

section \<open>Base-128 varints\<close>

text \<open>The reference: base-128 digits, the top bit on every byte but the last.\<close>

fun varint :: "nat \<Rightarrow> byte list" where
  "varint n = (if n < 128 then [of_nat n] else of_nat (n mod 128 + 128) # varint (n div 128))"

declare varint.simps [simp del]

lemma varint_small: "n < 128 \<Longrightarrow> varint n = [of_nat n]"
  by (simp add: varint.simps [of n])

lemma varint_not_Nil [simp]: "varint n \<noteq> []"
  by (simp add: varint.simps [of n])

lemma cont_byte: "ucast (v AND 0x7F) OR 0x80 = (of_nat (unat v mod 128 + 128) :: byte)"
  for v :: u64
proof -
  have "ucast (take_bit 7 v) AND 0x80 = (0 :: byte)"
    by (rule bit_word_eqI) (auto simp: bit_simps)
  then have "ucast (v AND 0x7F) OR 0x80 = ucast (take_bit 7 v) + (0x80 :: byte)"
    by (simp add: and_7F or_disjoint_add)
  also have "\<dots> = of_nat (unat (take_bit 7 v)) + 0x80" by simp
  also have "\<dots> = of_nat (unat v mod 128 + 128)" by (simp add: word_nat)
  finally show ?thesis .
qed

lemma last_byte: "(of_nat (n mod 128 + 128) :: byte) AND 0x7F = of_nat (n mod 128)"
proof -
  have "n mod 128 < 128" by simp
  then have "take_bit 7 (n mod 128 + 128) = n mod 128"
    by (simp add: take_bit_eq_mod)
  then have "take_bit 7 (of_nat (n mod 128 + 128) :: byte) = of_nat (n mod 128)"
    by (simp only: take_bit_of_nat)
  then show ?thesis by (simp only: and_7F)
qed

lemma length_varint: "n < 128 ^ k \<Longrightarrow> 0 < k \<Longrightarrow> length (varint n) \<le> k"
proof (induction k arbitrary: n)
  case 0
  then show ?case by simp
next
  case (Suc k)
  show ?case
  proof (cases "n < 128")
    case True
    then show ?thesis by (simp add: varint.simps [of n])
  next
    case False
    then have "0 < k" using Suc.prems by (cases k) auto
    moreover have "n div 128 < 128 ^ k"
      using Suc.prems by (simp add: div_less_iff_less_mult mult.commute)
    ultimately show ?thesis using Suc.IH False by (simp add: varint.simps [of n])
  qed
qed

lemma length_varint_u64: "length (varint (unat (v :: u64))) \<le> 10"
  by (rule length_varint) (auto intro: less_trans [OF unat_lt_64])

lemma length_varint_u32: "length (varint (unat (v :: u32))) \<le> 5"
  by (rule length_varint) (auto intro: less_trans [OF unat_lt_32])

text \<open>The reference decoder of varints and the round trip.\<close>

fun unvarint :: "byte list \<Rightarrow> (nat \<times> byte list) option" where
  "unvarint [] = None"
| "unvarint (b # bs) =
     (if unat b < 128 then Some (unat b, bs)
      else map_option (\<lambda>(n, rest). (unat b mod 128 + 128 * n, rest)) (unvarint bs))"

lemma unat_byte_of_nat [simp]: "n < 256 \<Longrightarrow> unat (of_nat n :: byte) = n"
  by (simp add: unat_of_nat)

lemma unvarint_varint: "unvarint (varint n @ rest) = Some (n, rest)"
proof (induction n rule: varint.induct)
  case (1 n)
  have "n mod 128 < 128" by simp
  then have "n mod 128 + 128 < 256" by simp
  then have "unat (of_nat (n mod 128 + 128) :: byte) = n mod 128 + 128" by (rule unat_byte_of_nat)
  then show ?case using 1 by (simp add: varint.simps [of n])
qed

lemma varint_inj: "varint m = varint n \<Longrightarrow> m = n"
  using unvarint_varint [of m "[]"] unvarint_varint [of n "[]"] by simp

section \<open>Bytes of a varint\<close>

lemma and_80: "(b AND 0x80 = 0) \<longleftrightarrow> unat b < 128" for b :: byte
proof -
  have "(b AND 2 ^ 7 = 0) \<longleftrightarrow> \<not> bit (unat b) 7"
    by (simp only: and_exp_eq_0_iff_not_bit bit_unsigned_iff) simp
  moreover have "unat b < 256" using unsigned_less [of b, where ?'a = nat] by simp
  moreover have "odd (n div 128) \<longleftrightarrow> 128 \<le> n" if "n < 256" for n :: nat
    using that by (cases "n < 128") (auto simp: div_if)
  ultimately show ?thesis by (auto simp: bit_iff_odd not_less)
qed

lemma and_70: "unat b < 128 \<Longrightarrow> b AND 0x70 = 0 \<longleftrightarrow> unat b < 16" for b :: byte
proof -
  assume b: "unat b < 128"
  have "list_all (\<lambda>n. (of_nat n AND (0x70 :: byte) = 0) = (n < 16)) [0..<128]" by code_simp
  then have "\<forall>n\<in>{0..<128}. (of_nat n AND (0x70 :: byte) = 0) = (n < 16)"
    by (simp only: list_all_iff set_upt)
  from bspec [OF this, of "unat b"] show ?thesis using b by simp
qed

lemma and_7F_byte: "ucast (b AND 0x7F) = (of_nat (unat b mod 128) :: 'a::len word)" for b :: byte
proof -
  have "ucast (b AND 0x7F) = (of_nat (unat (take_bit 7 b)) :: 'a word)"
    by (simp add: and_7F)
  then show ?thesis by (simp add: word_nat)
qed

lemma unvarint_shorter: "unvarint bs = Some (n, rest) \<Longrightarrow> length rest < length bs"
  by (induction bs arbitrary: n) (fastforce split: if_splits)+

lemma or_push_add:
  "take_bit n r = r \<Longrightarrow> r OR push_bit n x = r + x * 2 ^ n" for r x :: "'a::len word"
proof -
  assume r: "take_bit n r = r"
  have low: "bit r i \<Longrightarrow> i < n" for i by (metis r bit_take_bit_iff)
  have "r AND push_bit n x = 0" by (rule bit_word_eqI) (auto simp: bit_simps dest: low)
  then show ?thesis by (simp add: or_disjoint_add push_bit_eq_mult)
qed

lemma take_bit_or_push:
  fixes r x :: "'a::len word"
  assumes "take_bit n r = r" and "take_bit m x = x"
  shows "take_bit (n + m) (r OR push_bit n x) = r OR push_bit n x"
proof -
  have low: "bit r i \<Longrightarrow> i < n" "bit x i \<Longrightarrow> i < m" for i
    by (metis assms(1) bit_take_bit_iff) (metis assms(2) bit_take_bit_iff)
  show ?thesis
    by (rule bit_word_eqI) (auto simp: bit_simps dest: low)
qed

lemma take_bit_7_ucast: "take_bit 7 (ucast (b AND 0x7F) :: 'a::len word) = ucast (b AND 0x7F)" for b :: byte
  by (rule bit_word_eqI) (auto simp: and_7F bit_simps)

lemma length_varint_div: "128 ^ k \<le> n \<Longrightarrow> length (varint n) = k + length (varint (n div 128 ^ k))"
proof (induction k arbitrary: n)
  case 0
  then show ?case by simp
next
  case (Suc k)
  have "128 ^ k \<le> n div 128" using Suc.prems by (simp add: less_eq_div_iff_mult_less_eq mult.commute)
  moreover have "128 \<le> n" using Suc.prems by (simp add: order.trans [OF _ Suc.prems])
  ultimately show ?case using Suc.IH [of "n div 128"]
    by (simp add: varint.simps [of n] div_mult2_eq)
qed

end
