(* ===== verification/Memory.thy ===== *)
theory Memory
  imports Bytes
begin

text \<open>
  The memory a C program of this repository sees: a flat array of bytes at 64-bit
  addresses, the heap blocks \<^verbatim>\<open>realloc\<close> and \<^verbatim>\<open>free\<close> manage, and a stack of local
  counters whose address the decoder takes. An address outside every live object holds
  no byte; reading or writing it is undefined behaviour, \<^const>\<open>None\<close>. Multi-byte
  values are little endian.
\<close>

section \<open>Memory and its state\<close>

record mem =
  mem_data :: "addr \<Rightarrow> byte option"
  mem_blocks :: "addr \<Rightarrow> size_t option"
  mem_brk :: nat
  mem_limit :: nat
  mem_junk :: "addr \<Rightarrow> byte"
  mem_locals :: "u32 list"

definition NULL :: addr where
  "NULL = 0"

text \<open>The bytes \<open>[p, p + n)\<close>, with the wrap-around of address arithmetic.\<close>

definition in_range :: "addr \<Rightarrow> addr \<Rightarrow> nat \<Rightarrow> bool" where
  "in_range a p n \<longleftrightarrow> unat (a - p) < n"

primrec load_bytes :: "mem \<Rightarrow> addr \<Rightarrow> nat \<Rightarrow> byte list option" where
  "load_bytes m a 0 = Some []"
| "load_bytes m a (Suc n) =
     do { b \<leftarrow> mem_data m a; bs \<leftarrow> load_bytes m (a + 1) n; Some (b # bs) }"

primrec store_bytes :: "mem \<Rightarrow> addr \<Rightarrow> byte list \<Rightarrow> mem option" where
  "store_bytes m a [] = Some m"
| "store_bytes m a (b # bs) =
     (if mem_data m a = None then None
      else store_bytes (m\<lparr>mem_data := (mem_data m)(a \<mapsto> b)\<rparr>) (a + 1) bs)"

definition load_u8 :: "mem \<Rightarrow> addr \<Rightarrow> byte option" where
  "load_u8 m a = mem_data m a"

definition load_bool :: "mem \<Rightarrow> addr \<Rightarrow> bool option" where
  "load_bool m a = map_option (\<lambda>b. b \<noteq> 0) (mem_data m a)"

definition load_u16 :: "mem \<Rightarrow> addr \<Rightarrow> u16 option" where
  "load_u16 m a = map_option le_word (load_bytes m a 2)"

definition load_u32 :: "mem \<Rightarrow> addr \<Rightarrow> u32 option" where
  "load_u32 m a = map_option le_word (load_bytes m a 4)"

definition load_u64 :: "mem \<Rightarrow> addr \<Rightarrow> u64 option" where
  "load_u64 m a = map_option le_word (load_bytes m a 8)"

definition load_ptr :: "mem \<Rightarrow> addr \<Rightarrow> addr option" where
  "load_ptr m a = load_u64 m a"

definition store_u8 :: "mem \<Rightarrow> addr \<Rightarrow> byte \<Rightarrow> mem option" where
  "store_u8 m a w = store_bytes m a [w]"

definition store_bool :: "mem \<Rightarrow> addr \<Rightarrow> bool \<Rightarrow> mem option" where
  "store_bool m a b = store_bytes m a [if b then 1 else 0]"

definition store_u16 :: "mem \<Rightarrow> addr \<Rightarrow> u16 \<Rightarrow> mem option" where
  "store_u16 m a w = store_bytes m a (le_bytes 2 w)"

definition store_u32 :: "mem \<Rightarrow> addr \<Rightarrow> u32 \<Rightarrow> mem option" where
  "store_u32 m a w = store_bytes m a (le_bytes 4 w)"

definition store_u64 :: "mem \<Rightarrow> addr \<Rightarrow> u64 \<Rightarrow> mem option" where
  "store_u64 m a w = store_bytes m a (le_bytes 8 w)"

definition store_ptr :: "mem \<Rightarrow> addr \<Rightarrow> addr \<Rightarrow> mem option" where
  "store_ptr m a w = store_u64 m a w"

definition memset :: "mem \<Rightarrow> addr \<Rightarrow> byte \<Rightarrow> nat \<Rightarrow> mem option" where
  "memset m a b n = store_bytes m a (replicate n b)"

section \<open>The allocator\<close>

text \<open>
  \<^verbatim>\<open>free(p)\<close>: nothing for NULL, otherwise \<open>p\<close> must be a live block, whose bytes
  cease to exist.
\<close>

definition free :: "mem \<Rightarrow> addr \<Rightarrow> mem option" where
  "free m p =
     (if p = NULL then Some m
      else case mem_blocks m p of
        None \<Rightarrow> None
      | Some k \<Rightarrow> Some (m\<lparr>mem_data := (\<lambda>a. if in_range a p (unat k) then None else mem_data m a),
                         mem_blocks := (mem_blocks m)(p := None)\<rparr>))"

text \<open>
  \<^verbatim>\<open>realloc(p, n)\<close>: a fresh block at the break, the old content copied and the old
  block released, the rest of the new block indeterminate (\<open>mem_junk\<close> gives its bytes and
  nothing is assumed of it); NULL and no change when the heap limit would be passed.
\<close>

definition realloc :: "mem \<Rightarrow> addr \<Rightarrow> size_t \<Rightarrow> (mem \<times> addr) option" where
  "realloc m p n =
     (if p \<noteq> NULL \<and> mem_blocks m p = None then None
      else if mem_limit m < mem_brk m + unat n then Some (m, NULL)
      else let q = of_nat (mem_brk m);
               k = (case mem_blocks m p of None \<Rightarrow> 0 | Some k \<Rightarrow> if p = NULL then 0 else unat k);
               fresh = (\<lambda>a. if unat (a - q) < k then mem_data m (p + (a - q))
                            else Some (mem_junk m a))
           in Some (m\<lparr>mem_data := (\<lambda>a. if in_range a q (unat n) then fresh a
                                      else if in_range a p k then None
                                      else mem_data m a),
                      mem_blocks := (mem_blocks m)(p := None, q := Some n),
                      mem_brk := mem_brk m + unat n\<rparr>, q))"

section \<open>Facts on loads and stores\<close>

definition valid :: "mem \<Rightarrow> addr \<Rightarrow> nat \<Rightarrow> bool" where
  "valid m a n \<longleftrightarrow> (\<forall>x. in_range x a n \<longrightarrow> mem_data m x \<noteq> None)"

lemma in_range_0 [simp]: "\<not> in_range x a 0"
  by (simp add: in_range_def)

lemma unat_offset_Suc: "x \<noteq> a \<Longrightarrow> unat (x - a) = Suc (unat (x - (a + 1)))" for x a :: addr
proof -
  assume "x \<noteq> a"
  then have "x - a \<noteq> 0" by simp
  then have "unat (x - a - 1) = unat (x - a) - 1" and "0 < unat (x - a)"
    by (auto simp: unat_minus_one unat_gt_0)
  then show ?thesis by (simp only: diff_diff_eq)
qed

lemma in_range_Suc:
  "in_range x a (Suc n) \<longleftrightarrow> x = a \<or> (x \<noteq> a \<and> in_range x (a + 1) n)"
  using unat_offset_Suc [of x a] by (cases "x = a") (auto simp: in_range_def)

lemma valid_0 [simp]: "valid m a 0"
  by (simp add: valid_def)

lemma not_in_range_next: "n < 18446744073709551616 \<Longrightarrow> \<not> in_range a (a + 1) n"
proof -
  assume "n < 18446744073709551616"
  moreover have "unat (a - (a + 1)) = 18446744073709551615"
    by (simp add: unsigned_minus_1_eq_mask mask_eq_exp_minus_1)
  ultimately show ?thesis by (simp add: in_range_def)
qed

lemma valid_Suc:
  "n < 18446744073709551616 \<Longrightarrow>
   valid m a (Suc n) \<longleftrightarrow> mem_data m a \<noteq> None \<and> valid m (a + 1) n"
  using not_in_range_next [of n a] by (auto simp: valid_def in_range_Suc)

lemma load_bytes_eq:
  "n \<le> 18446744073709551616 \<Longrightarrow> load_bytes m a n =
     (if valid m a n then Some (map (\<lambda>i. the (mem_data m (a + of_nat i))) [0..<n]) else None)"
proof (induction n arbitrary: a)
  case 0
  then show ?case by simp
next
  case (Suc n)
  have "map (\<lambda>i. the (mem_data m (a + of_nat i))) [0..<Suc n]
     = the (mem_data m a) # map (\<lambda>i. the (mem_data m (a + 1 + of_nat i))) [0..<n]"
    by (simp add: map_upt_Suc algebra_simps del: upt_Suc)
  with Suc show ?case by (auto simp: valid_Suc)
qed

lemma store_bytes_eq:
  "length bs \<le> 18446744073709551616 \<Longrightarrow> store_bytes m a bs =
     (if valid m a (length bs)
      then Some (m\<lparr>mem_data := \<lambda>x. if in_range x a (length bs) then Some (bs ! unat (x - a))
                                else mem_data m x\<rparr>)
      else None)"
proof (induction bs arbitrary: m a)
  case Nil
  then show ?case by simp
next
  case (Cons b bs)
  let ?m = "m\<lparr>mem_data := (mem_data m)(a \<mapsto> b)\<rparr>"
  have valid: "valid ?m (a + 1) (length bs) = valid m (a + 1) (length bs)" if "mem_data m a \<noteq> None"
    using that by (auto simp: valid_def)
  have "(\<lambda>x. if in_range x (a + 1) (length bs) then Some (bs ! unat (x - (a + 1)))
             else mem_data ?m x)
      = (\<lambda>x. if in_range x a (length (b # bs)) then Some ((b # bs) ! unat (x - a))
             else mem_data m x)"
  proof
    fix x
    show "(if in_range x (a + 1) (length bs) then Some (bs ! unat (x - (a + 1)))
             else mem_data ?m x)
      = (if in_range x a (length (b # bs)) then Some ((b # bs) ! unat (x - a)) else mem_data m x)"
      using Cons.prems unat_offset_Suc [of x a]
      by (cases "x = a") (auto simp: in_range_Suc not_in_range_next)
  qed
  then show ?case using Cons valid by (auto simp: valid_Suc)
qed

end
