(* ===== verification/PB_Types.thy ===== *)
theory PB_Types
  imports Memory
begin

text \<open>
  \<^verbatim>\<open>src/MovieDBApp/Pods/nanopb/pb.h\<close>: the type byte of a field descriptor and its three
  parts, the descriptor \<^verbatim>\<open>pb_field_t\<close>, the layout of the C structures the macros ask
  for (\<^verbatim>\<open>sizeof\<close>, \<^verbatim>\<open>offsetof\<close>), the macros that build descriptors, and the error
  helper. The build sets PB_FIELD_32BIT, PB_NO_PACKED_STRUCTS and PB_ENABLE_MALLOC
  (\<^verbatim>\<open>nanopb.xcconfig\<close>); the other options keep their defaults. So \<^verbatim>\<open>pb_size_t\<close> is a
  32-bit word and \<^verbatim>\<open>pb_ssize_t\<close> a 32-bit word read as two's complement.
\<close>

section \<open>The type byte\<close>

type_synonym pb_type_t = "8 word"
type_synonym pb_size_t = "32 word"
type_synonym pb_ssize_t = "32 word"
type_synonym pb_wire_type_t = "32 word"

abbreviation (input) PB_LTYPE_VARINT :: pb_type_t where "PB_LTYPE_VARINT \<equiv> 0x00"
abbreviation (input) PB_LTYPE_UVARINT :: pb_type_t where "PB_LTYPE_UVARINT \<equiv> 0x01"
abbreviation (input) PB_LTYPE_SVARINT :: pb_type_t where "PB_LTYPE_SVARINT \<equiv> 0x02"
abbreviation (input) PB_LTYPE_FIXED32 :: pb_type_t where "PB_LTYPE_FIXED32 \<equiv> 0x03"
abbreviation (input) PB_LTYPE_FIXED64 :: pb_type_t where "PB_LTYPE_FIXED64 \<equiv> 0x04"
abbreviation (input) PB_LTYPE_LAST_PACKABLE :: pb_type_t where "PB_LTYPE_LAST_PACKABLE \<equiv> 0x04"
abbreviation (input) PB_LTYPE_BYTES :: pb_type_t where "PB_LTYPE_BYTES \<equiv> 0x05"
abbreviation (input) PB_LTYPE_STRING :: pb_type_t where "PB_LTYPE_STRING \<equiv> 0x06"
abbreviation (input) PB_LTYPE_SUBMESSAGE :: pb_type_t where "PB_LTYPE_SUBMESSAGE \<equiv> 0x07"
abbreviation (input) PB_LTYPE_EXTENSION :: pb_type_t where "PB_LTYPE_EXTENSION \<equiv> 0x08"
abbreviation (input) PB_LTYPE_FIXED_LENGTH_BYTES :: pb_type_t where
  "PB_LTYPE_FIXED_LENGTH_BYTES \<equiv> 0x09"
abbreviation (input) PB_LTYPE_MASK :: pb_type_t where "PB_LTYPE_MASK \<equiv> 0x0F"

abbreviation (input) PB_HTYPE_REQUIRED :: pb_type_t where "PB_HTYPE_REQUIRED \<equiv> 0x00"
abbreviation (input) PB_HTYPE_OPTIONAL :: pb_type_t where "PB_HTYPE_OPTIONAL \<equiv> 0x10"
abbreviation (input) PB_HTYPE_REPEATED :: pb_type_t where "PB_HTYPE_REPEATED \<equiv> 0x20"
abbreviation (input) PB_HTYPE_ONEOF :: pb_type_t where "PB_HTYPE_ONEOF \<equiv> 0x30"
abbreviation (input) PB_HTYPE_MASK :: pb_type_t where "PB_HTYPE_MASK \<equiv> 0x30"

abbreviation (input) PB_ATYPE_STATIC :: pb_type_t where "PB_ATYPE_STATIC \<equiv> 0x00"
abbreviation (input) PB_ATYPE_POINTER :: pb_type_t where "PB_ATYPE_POINTER \<equiv> 0x80"
abbreviation (input) PB_ATYPE_CALLBACK :: pb_type_t where "PB_ATYPE_CALLBACK \<equiv> 0x40"
abbreviation (input) PB_ATYPE_MASK :: pb_type_t where "PB_ATYPE_MASK \<equiv> 0xC0"

definition PB_ATYPE :: "pb_type_t \<Rightarrow> pb_type_t" where
  "PB_ATYPE x = x AND PB_ATYPE_MASK"

definition PB_HTYPE :: "pb_type_t \<Rightarrow> pb_type_t" where
  "PB_HTYPE x = x AND PB_HTYPE_MASK"

definition PB_LTYPE :: "pb_type_t \<Rightarrow> pb_type_t" where
  "PB_LTYPE x = x AND PB_LTYPE_MASK"

abbreviation (input) PB_SIZE_MAX :: pb_size_t where "PB_SIZE_MAX \<equiv> - 1"

abbreviation (input) PB_WT_VARINT :: pb_wire_type_t where "PB_WT_VARINT \<equiv> 0"
abbreviation (input) PB_WT_64BIT :: pb_wire_type_t where "PB_WT_64BIT \<equiv> 1"
abbreviation (input) PB_WT_STRING :: pb_wire_type_t where "PB_WT_STRING \<equiv> 2"
abbreviation (input) PB_WT_32BIT :: pb_wire_type_t where "PB_WT_32BIT \<equiv> 5"

abbreviation (input) PB_MAX_REQUIRED_FIELDS :: nat where "PB_MAX_REQUIRED_FIELDS \<equiv> 64"

section \<open>Field descriptors\<close>

text \<open>
  \<^verbatim>\<open>struct pb_field_s\<close>. Its member \<^verbatim>\<open>ptr\<close> is a \<^verbatim>\<open>const void *\<close> that points to the
  constant descriptors of the submessage, to a constant default value, or to nothing; it
  is modelled by what it points to. An array of descriptors is the list of its elements;
  the terminator \<^verbatim>\<open>PB_LAST_FIELD\<close> may be written out, and a read at or after the end of
  the list reads it.
\<close>

datatype pb_ptr =
    PB_NULL
  | PB_FIELDS "pb_field_t list"
  | PB_DEFAULT "byte list"
and pb_field_t =
  pb_field_s (pf_tag: pb_size_t) (pf_type: pb_type_t) (pf_data_offset: pb_size_t)
    (pf_size_offset: pb_ssize_t) (pf_data_size: pb_size_t) (pf_array_size: pb_size_t)
    (pf_ptr: pb_ptr)

definition PB_LAST_FIELD :: pb_field_t where
  "PB_LAST_FIELD = pb_field_s 0 0 0 0 0 0 PB_NULL"

definition field_at :: "pb_field_t list \<Rightarrow> nat \<Rightarrow> pb_field_t" where
  "field_at fs i = (if i < length fs then fs ! i else PB_LAST_FIELD)"

abbreviation (input) atype :: "pb_field_t \<Rightarrow> pb_type_t" where "atype f \<equiv> PB_ATYPE (pf_type f)"
abbreviation (input) htype :: "pb_field_t \<Rightarrow> pb_type_t" where "htype f \<equiv> PB_HTYPE (pf_type f)"
abbreviation (input) ltype :: "pb_field_t \<Rightarrow> pb_type_t" where "ltype f \<equiv> PB_LTYPE (pf_type f)"

section \<open>C structures\<close>

text \<open>
  The types the message structures are made of. \<open>C_ptr n\<close> is a pointer to an object of
  \<open>n\<close> bytes. \<open>sizeof\<close> and \<open>alignof\<close> follow the 64-bit ARM ABI: every member
  at the next multiple of its alignment, the size rounded up to the structure's alignment.
\<close>

datatype ctype =
    C_bool
  | C_uint8
  | C_int32
  | C_enum
  | C_int64
  | C_size
  | C_ptr nat
  | C_callback
  | C_array ctype nat
  | C_struct "(string \<times> ctype) list"
  | C_union "(string \<times> ctype) list"

definition round_up :: "nat \<Rightarrow> nat \<Rightarrow> nat" where
  "round_up n a = (n + (a - 1)) div a * a"

fun alignof :: "ctype \<Rightarrow> nat" and alignof_members :: "(string \<times> ctype) list \<Rightarrow> nat" where
  "alignof C_bool = 1"
| "alignof C_uint8 = 1"
| "alignof C_int32 = 4"
| "alignof C_enum = 4"
| "alignof C_int64 = 8"
| "alignof C_size = 4"
| "alignof (C_ptr n) = 8"
| "alignof C_callback = 8"
| "alignof (C_array t n) = alignof t"
| "alignof (C_struct ms) = alignof_members ms"
| "alignof (C_union ms) = alignof_members ms"
| "alignof_members [] = 1"
| "alignof_members ((m, t) # ms) = max (alignof t) (alignof_members ms)"

fun sizeof :: "ctype \<Rightarrow> nat" and struct_end :: "(string \<times> ctype) list \<Rightarrow> nat \<Rightarrow> nat"
  and union_end :: "(string \<times> ctype) list \<Rightarrow> nat" where
  "sizeof C_bool = 1"
| "sizeof C_uint8 = 1"
| "sizeof C_int32 = 4"
| "sizeof C_enum = 4"
| "sizeof C_int64 = 8"
| "sizeof C_size = 4"
| "sizeof (C_ptr n) = 8"
| "sizeof C_callback = 16"
| "sizeof (C_array t n) = n * sizeof t"
| "sizeof (C_struct ms) = round_up (struct_end ms 0) (alignof_members ms)"
| "sizeof (C_union ms) = round_up (union_end ms) (alignof_members ms)"
| "struct_end [] off = off"
| "struct_end ((m, t) # ms) off = struct_end ms (round_up off (alignof t) + sizeof t)"
| "union_end [] = 0"
| "union_end ((m, t) # ms) = max (sizeof t) (union_end ms)"

text \<open>
  \<^verbatim>\<open>offsetof(st, m)\<close> and the type of a member, which may be a path \<^verbatim>\<open>u.m\<close> into a union.
  A member the structure does not have is an error of the compiler; here it has offset 0
  and the type \<open>C_bool\<close>.
\<close>

fun member_offset :: "(string \<times> ctype) list \<Rightarrow> nat \<Rightarrow> string \<Rightarrow> nat \<times> ctype" where
  "member_offset [] off n = (0, C_bool)"
| "member_offset ((m, t) # ms) off n =
     (let o1 = round_up off (alignof t)
      in if m = n then (o1, t) else member_offset ms (o1 + sizeof t) n)"

fun member :: "ctype \<Rightarrow> string \<Rightarrow> nat \<times> ctype" where
  "member (C_struct ms) n = member_offset ms 0 n"
| "member (C_union ms) n = (case map_of ms n of Some t \<Rightarrow> (0, t) | None \<Rightarrow> (0, C_bool))"
| "member _ n = (0, C_bool)"

fun member_path :: "ctype \<Rightarrow> string list \<Rightarrow> nat \<times> ctype" where
  "member_path t [] = (0, t)"
| "member_path t (n # ns) =
     (let (o1, t1) = member t n; (o2, t2) = member_path t1 ns in (o1 + o2, t2))"

definition offsetof :: "ctype \<Rightarrow> string list \<Rightarrow> nat" where
  "offsetof st m = fst (member_path st m)"

fun elem_size :: "ctype \<Rightarrow> nat" where
  "elem_size (C_ptr n) = n"
| "elem_size (C_array t n) = sizeof t"
| "elem_size _ = 0"

definition pb_membersize :: "ctype \<Rightarrow> string list \<Rightarrow> nat" where
  "pb_membersize st m = sizeof (snd (member_path st m))"

definition pb_membersize0 :: "ctype \<Rightarrow> string list \<Rightarrow> nat" where
  "pb_membersize0 st m = elem_size (snd (member_path st m))"

definition pb_arraysize :: "ctype \<Rightarrow> string list \<Rightarrow> nat" where
  "pb_arraysize st m = pb_membersize st m div pb_membersize0 st m"

definition pb_delta :: "ctype \<Rightarrow> string list \<Rightarrow> string list \<Rightarrow> int" where
  "pb_delta st m1 m2 = int (offsetof st m1) - int (offsetof st m2)"

text \<open>
  The structures of \<^verbatim>\<open>pb.h\<close> the code reads and writes through pointers, and the offsets
  of their members.
\<close>

definition pb_bytes_array_s :: ctype where
  "pb_bytes_array_s = C_struct [(''size'', C_size), (''bytes'', C_array C_uint8 1)]"

definition PB_BYTES_ARRAY_T_ALLOCSIZE :: "u32 \<Rightarrow> size_t" where
  "PB_BYTES_ARRAY_T_ALLOCSIZE n = ucast n + of_nat (offsetof pb_bytes_array_s [''bytes''])"

definition pb_callback_s :: ctype where
  "pb_callback_s = C_struct [(''funcs'', C_ptr 0), (''arg'', C_ptr 0)]"

definition pb_extension_s :: ctype where
  "pb_extension_s =
     C_struct [(''type'', C_ptr 24), (''dest'', C_ptr 0), (''next'', C_ptr 32), (''found'', C_bool)]"

text \<open>
  \<^verbatim>\<open>pb_extension_type_t\<close>: a constant the program provides. \<open>xt_decode\<close> and
  \<open>xt_encode\<close> are the addresses of the handlers, NULL for the default handler; \<open>xt_arg\<close>
  is the descriptor its \<^verbatim>\<open>arg\<close> points to.
\<close>

record pb_extension_type_t =
  xt_decode :: addr
  xt_encode :: addr
  xt_arg :: pb_field_t

section \<open>The descriptor macros\<close>

definition PB_DATAOFFSET_FIRST :: "ctype \<Rightarrow> string list \<Rightarrow> string list \<Rightarrow> pb_size_t" where
  "PB_DATAOFFSET_FIRST st m1 m2 = of_nat (offsetof st m1)"

definition PB_DATAOFFSET_OTHER :: "ctype \<Rightarrow> string list \<Rightarrow> string list \<Rightarrow> pb_size_t" where
  "PB_DATAOFFSET_OTHER st m1 m2 =
     of_nat (offsetof st m1) - of_nat (offsetof st m2) - of_nat (pb_membersize st m2)"

definition PB_DATAOFFSET_UNION :: "ctype \<Rightarrow> string list \<Rightarrow> string list \<Rightarrow> pb_size_t" where
  "PB_DATAOFFSET_UNION st m1 m2 = PB_SIZE_MAX"

definition PB_DATAOFFSET_CHOOSE :: "ctype \<Rightarrow> string list \<Rightarrow> string list \<Rightarrow> pb_size_t" where
  "PB_DATAOFFSET_CHOOSE st m1 m2 =
     (if offsetof st m1 = offsetof st m2 then PB_DATAOFFSET_FIRST st m1 m2
      else PB_DATAOFFSET_OTHER st m1 m2)"

datatype pb_placement = FIRST | OTHER | UNION

fun PB_DATAOFFSET :: "pb_placement \<Rightarrow> ctype \<Rightarrow> string list \<Rightarrow> string list \<Rightarrow> pb_size_t" where
  "PB_DATAOFFSET FIRST st m1 m2 = PB_DATAOFFSET_FIRST st m1 m2"
| "PB_DATAOFFSET OTHER st m1 m2 = PB_DATAOFFSET_OTHER st m1 m2"
| "PB_DATAOFFSET UNION st m1 m2 = PB_DATAOFFSET_UNION st m1 m2"

definition PB_REQUIRED_STATIC ::
  "pb_size_t \<Rightarrow> ctype \<Rightarrow> string \<Rightarrow> pb_size_t \<Rightarrow> pb_type_t \<Rightarrow> pb_ptr \<Rightarrow> pb_field_t" where
  "PB_REQUIRED_STATIC tag st m fd lt ptr =
     pb_field_s tag (PB_ATYPE_STATIC OR PB_HTYPE_REQUIRED OR lt)
       fd 0 (of_nat (pb_membersize st [m])) 0 ptr"

definition PB_OPTIONAL_STATIC ::
  "pb_size_t \<Rightarrow> ctype \<Rightarrow> string \<Rightarrow> pb_size_t \<Rightarrow> pb_type_t \<Rightarrow> pb_ptr \<Rightarrow> pb_field_t" where
  "PB_OPTIONAL_STATIC tag st m fd lt ptr =
     pb_field_s tag (PB_ATYPE_STATIC OR PB_HTYPE_OPTIONAL OR lt)
       fd (word_of_int (pb_delta st [''has_'' @ m] [m])) (of_nat (pb_membersize st [m])) 0 ptr"

definition PB_SINGULAR_STATIC ::
  "pb_size_t \<Rightarrow> ctype \<Rightarrow> string \<Rightarrow> pb_size_t \<Rightarrow> pb_type_t \<Rightarrow> pb_ptr \<Rightarrow> pb_field_t" where
  "PB_SINGULAR_STATIC tag st m fd lt ptr =
     pb_field_s tag (PB_ATYPE_STATIC OR PB_HTYPE_OPTIONAL OR lt)
       fd 0 (of_nat (pb_membersize st [m])) 0 ptr"

definition PB_REPEATED_STATIC ::
  "pb_size_t \<Rightarrow> ctype \<Rightarrow> string \<Rightarrow> pb_size_t \<Rightarrow> pb_type_t \<Rightarrow> pb_ptr \<Rightarrow> pb_field_t" where
  "PB_REPEATED_STATIC tag st m fd lt ptr =
     pb_field_s tag (PB_ATYPE_STATIC OR PB_HTYPE_REPEATED OR lt)
       fd (word_of_int (pb_delta st [m @ ''_count''] [m])) (of_nat (pb_membersize0 st [m]))
       (of_nat (pb_arraysize st [m])) ptr"

definition PB_REQUIRED_POINTER ::
  "pb_size_t \<Rightarrow> ctype \<Rightarrow> string \<Rightarrow> pb_size_t \<Rightarrow> pb_type_t \<Rightarrow> pb_ptr \<Rightarrow> pb_field_t" where
  "PB_REQUIRED_POINTER tag st m fd lt ptr =
     pb_field_s tag (PB_ATYPE_POINTER OR PB_HTYPE_REQUIRED OR lt)
       fd 0 (of_nat (pb_membersize0 st [m])) 0 ptr"

definition PB_OPTIONAL_POINTER ::
  "pb_size_t \<Rightarrow> ctype \<Rightarrow> string \<Rightarrow> pb_size_t \<Rightarrow> pb_type_t \<Rightarrow> pb_ptr \<Rightarrow> pb_field_t" where
  "PB_OPTIONAL_POINTER tag st m fd lt ptr =
     pb_field_s tag (PB_ATYPE_POINTER OR PB_HTYPE_OPTIONAL OR lt)
       fd 0 (of_nat (pb_membersize0 st [m])) 0 ptr"

definition PB_SINGULAR_POINTER ::
  "pb_size_t \<Rightarrow> ctype \<Rightarrow> string \<Rightarrow> pb_size_t \<Rightarrow> pb_type_t \<Rightarrow> pb_ptr \<Rightarrow> pb_field_t" where
  "PB_SINGULAR_POINTER tag st m fd lt ptr =
     pb_field_s tag (PB_ATYPE_POINTER OR PB_HTYPE_OPTIONAL OR lt)
       fd 0 (of_nat (pb_membersize0 st [m])) 0 ptr"

definition PB_REPEATED_POINTER ::
  "pb_size_t \<Rightarrow> ctype \<Rightarrow> string \<Rightarrow> pb_size_t \<Rightarrow> pb_type_t \<Rightarrow> pb_ptr \<Rightarrow> pb_field_t" where
  "PB_REPEATED_POINTER tag st m fd lt ptr =
     pb_field_s tag (PB_ATYPE_POINTER OR PB_HTYPE_REPEATED OR lt)
       fd (word_of_int (pb_delta st [m @ ''_count''] [m])) (of_nat (pb_membersize0 st [m])) 0 ptr"

definition PB_REQUIRED_CALLBACK ::
  "pb_size_t \<Rightarrow> ctype \<Rightarrow> string \<Rightarrow> pb_size_t \<Rightarrow> pb_type_t \<Rightarrow> pb_ptr \<Rightarrow> pb_field_t" where
  "PB_REQUIRED_CALLBACK tag st m fd lt ptr =
     pb_field_s tag (PB_ATYPE_CALLBACK OR PB_HTYPE_REQUIRED OR lt)
       fd 0 (of_nat (pb_membersize st [m])) 0 ptr"

definition PB_OPTIONAL_CALLBACK ::
  "pb_size_t \<Rightarrow> ctype \<Rightarrow> string \<Rightarrow> pb_size_t \<Rightarrow> pb_type_t \<Rightarrow> pb_ptr \<Rightarrow> pb_field_t" where
  "PB_OPTIONAL_CALLBACK tag st m fd lt ptr =
     pb_field_s tag (PB_ATYPE_CALLBACK OR PB_HTYPE_OPTIONAL OR lt)
       fd 0 (of_nat (pb_membersize st [m])) 0 ptr"

definition PB_SINGULAR_CALLBACK ::
  "pb_size_t \<Rightarrow> ctype \<Rightarrow> string \<Rightarrow> pb_size_t \<Rightarrow> pb_type_t \<Rightarrow> pb_ptr \<Rightarrow> pb_field_t" where
  "PB_SINGULAR_CALLBACK tag st m fd lt ptr =
     pb_field_s tag (PB_ATYPE_CALLBACK OR PB_HTYPE_OPTIONAL OR lt)
       fd 0 (of_nat (pb_membersize st [m])) 0 ptr"

definition PB_REPEATED_CALLBACK ::
  "pb_size_t \<Rightarrow> ctype \<Rightarrow> string \<Rightarrow> pb_size_t \<Rightarrow> pb_type_t \<Rightarrow> pb_ptr \<Rightarrow> pb_field_t" where
  "PB_REPEATED_CALLBACK tag st m fd lt ptr =
     pb_field_s tag (PB_ATYPE_CALLBACK OR PB_HTYPE_REPEATED OR lt)
       fd 0 (of_nat (pb_membersize st [m])) 0 ptr"

definition PB_OPTEXT_STATIC ::
  "pb_size_t \<Rightarrow> ctype \<Rightarrow> string \<Rightarrow> pb_size_t \<Rightarrow> pb_type_t \<Rightarrow> pb_ptr \<Rightarrow> pb_field_t" where
  "PB_OPTEXT_STATIC tag st m fd lt ptr =
     pb_field_s tag (PB_ATYPE_STATIC OR PB_HTYPE_REQUIRED OR lt)
       0 0 (of_nat (pb_membersize st [m])) 0 ptr"

definition PB_OPTEXT_POINTER ::
  "pb_size_t \<Rightarrow> ctype \<Rightarrow> string \<Rightarrow> pb_size_t \<Rightarrow> pb_type_t \<Rightarrow> pb_ptr \<Rightarrow> pb_field_t" where
  "PB_OPTEXT_POINTER tag st m fd lt ptr = PB_OPTIONAL_POINTER tag st m fd lt ptr"

definition PB_OPTEXT_CALLBACK ::
  "pb_size_t \<Rightarrow> ctype \<Rightarrow> string \<Rightarrow> pb_size_t \<Rightarrow> pb_type_t \<Rightarrow> pb_ptr \<Rightarrow> pb_field_t" where
  "PB_OPTEXT_CALLBACK tag st m fd lt ptr = PB_OPTIONAL_CALLBACK tag st m fd lt ptr"

datatype pb_proto_type =
    BOOL | BYTES | DOUBLE | ENUM | UENUM | FIXED32 | FIXED64 | FLOAT | INT32 | INT64
  | MESSAGE | SFIXED32 | SFIXED64 | SINT32 | SINT64 | STRING | UINT32 | UINT64
  | EXTENSION | FIXED_LENGTH_BYTES

fun PB_LTYPE_MAP :: "pb_proto_type \<Rightarrow> pb_type_t" where
  "PB_LTYPE_MAP BOOL = PB_LTYPE_VARINT"
| "PB_LTYPE_MAP BYTES = PB_LTYPE_BYTES"
| "PB_LTYPE_MAP DOUBLE = PB_LTYPE_FIXED64"
| "PB_LTYPE_MAP ENUM = PB_LTYPE_VARINT"
| "PB_LTYPE_MAP UENUM = PB_LTYPE_UVARINT"
| "PB_LTYPE_MAP FIXED32 = PB_LTYPE_FIXED32"
| "PB_LTYPE_MAP FIXED64 = PB_LTYPE_FIXED64"
| "PB_LTYPE_MAP FLOAT = PB_LTYPE_FIXED32"
| "PB_LTYPE_MAP INT32 = PB_LTYPE_VARINT"
| "PB_LTYPE_MAP INT64 = PB_LTYPE_VARINT"
| "PB_LTYPE_MAP MESSAGE = PB_LTYPE_SUBMESSAGE"
| "PB_LTYPE_MAP SFIXED32 = PB_LTYPE_FIXED32"
| "PB_LTYPE_MAP SFIXED64 = PB_LTYPE_FIXED64"
| "PB_LTYPE_MAP SINT32 = PB_LTYPE_SVARINT"
| "PB_LTYPE_MAP SINT64 = PB_LTYPE_SVARINT"
| "PB_LTYPE_MAP STRING = PB_LTYPE_STRING"
| "PB_LTYPE_MAP UINT32 = PB_LTYPE_UVARINT"
| "PB_LTYPE_MAP UINT64 = PB_LTYPE_UVARINT"
| "PB_LTYPE_MAP EXTENSION = PB_LTYPE_EXTENSION"
| "PB_LTYPE_MAP FIXED_LENGTH_BYTES = PB_LTYPE_FIXED_LENGTH_BYTES"

datatype pb_rules = REQUIRED | OPTIONAL | SINGULAR | REPEATED | OPTEXT
datatype pb_allocation = STATIC | POINTER | CALLBACK

text \<open>\<^verbatim>\<open>PB_FIELD\<close> pastes the names of the rules and of the allocation into a macro name.\<close>

fun PB_RULES_ALLOCATION :: "pb_rules \<Rightarrow> pb_allocation \<Rightarrow>
    pb_size_t \<Rightarrow> ctype \<Rightarrow> string \<Rightarrow> pb_size_t \<Rightarrow> pb_type_t \<Rightarrow> pb_ptr \<Rightarrow> pb_field_t" where
  "PB_RULES_ALLOCATION REQUIRED STATIC = PB_REQUIRED_STATIC"
| "PB_RULES_ALLOCATION OPTIONAL STATIC = PB_OPTIONAL_STATIC"
| "PB_RULES_ALLOCATION SINGULAR STATIC = PB_SINGULAR_STATIC"
| "PB_RULES_ALLOCATION REPEATED STATIC = PB_REPEATED_STATIC"
| "PB_RULES_ALLOCATION OPTEXT STATIC = PB_OPTEXT_STATIC"
| "PB_RULES_ALLOCATION REQUIRED POINTER = PB_REQUIRED_POINTER"
| "PB_RULES_ALLOCATION OPTIONAL POINTER = PB_OPTIONAL_POINTER"
| "PB_RULES_ALLOCATION SINGULAR POINTER = PB_SINGULAR_POINTER"
| "PB_RULES_ALLOCATION REPEATED POINTER = PB_REPEATED_POINTER"
| "PB_RULES_ALLOCATION OPTEXT POINTER = PB_OPTEXT_POINTER"
| "PB_RULES_ALLOCATION REQUIRED CALLBACK = PB_REQUIRED_CALLBACK"
| "PB_RULES_ALLOCATION OPTIONAL CALLBACK = PB_OPTIONAL_CALLBACK"
| "PB_RULES_ALLOCATION SINGULAR CALLBACK = PB_SINGULAR_CALLBACK"
| "PB_RULES_ALLOCATION REPEATED CALLBACK = PB_REPEATED_CALLBACK"
| "PB_RULES_ALLOCATION OPTEXT CALLBACK = PB_OPTEXT_CALLBACK"

definition PB_FIELD :: "pb_size_t \<Rightarrow> pb_proto_type \<Rightarrow> pb_rules \<Rightarrow> pb_allocation \<Rightarrow> pb_placement \<Rightarrow>
    ctype \<Rightarrow> string \<Rightarrow> string \<Rightarrow> pb_ptr \<Rightarrow> pb_field_t" where
  "PB_FIELD tag type rules allocation placement message field prevfield ptr =
     PB_RULES_ALLOCATION rules allocation tag message field
       (PB_DATAOFFSET placement message [field] [prevfield]) (PB_LTYPE_MAP type) ptr"

definition PB_REPEATED_FIXED_COUNT :: "pb_size_t \<Rightarrow> pb_proto_type \<Rightarrow> pb_placement \<Rightarrow>
    ctype \<Rightarrow> string \<Rightarrow> string \<Rightarrow> pb_ptr \<Rightarrow> pb_field_t" where
  "PB_REPEATED_FIXED_COUNT tag type placement message field prevfield ptr =
     pb_field_s tag (PB_ATYPE_STATIC OR PB_HTYPE_REPEATED OR PB_LTYPE_MAP type)
       (PB_DATAOFFSET placement message [field] [prevfield]) 0
       (of_nat (pb_membersize0 message [field])) (of_nat (pb_arraysize message [field])) ptr"

definition PB_ONEOF_STATIC ::
  "string \<Rightarrow> pb_size_t \<Rightarrow> ctype \<Rightarrow> string \<Rightarrow> pb_size_t \<Rightarrow> pb_type_t \<Rightarrow> pb_ptr \<Rightarrow> pb_field_t" where
  "PB_ONEOF_STATIC u tag st m fd lt ptr =
     pb_field_s tag (PB_ATYPE_STATIC OR PB_HTYPE_ONEOF OR lt)
       fd (word_of_int (pb_delta st [''which_'' @ u] [u, m])) (of_nat (pb_membersize st [u, m])) 0 ptr"

definition PB_ONEOF_POINTER ::
  "string \<Rightarrow> pb_size_t \<Rightarrow> ctype \<Rightarrow> string \<Rightarrow> pb_size_t \<Rightarrow> pb_type_t \<Rightarrow> pb_ptr \<Rightarrow> pb_field_t" where
  "PB_ONEOF_POINTER u tag st m fd lt ptr =
     pb_field_s tag (PB_ATYPE_POINTER OR PB_HTYPE_ONEOF OR lt)
       fd (word_of_int (pb_delta st [''which_'' @ u] [u, m])) (of_nat (pb_membersize0 st [u, m])) 0 ptr"

fun PB_ONEOF_FIELD :: "string \<Rightarrow> pb_size_t \<Rightarrow> pb_proto_type \<Rightarrow> pb_allocation \<Rightarrow> pb_placement \<Rightarrow>
    ctype \<Rightarrow> string \<Rightarrow> string list \<Rightarrow> pb_ptr \<Rightarrow> pb_field_t option" where
  "PB_ONEOF_FIELD u tag type STATIC placement message field prevfield ptr =
     Some (PB_ONEOF_STATIC u tag message field
       (PB_DATAOFFSET placement message [u, field] prevfield) (PB_LTYPE_MAP type) ptr)"
| "PB_ONEOF_FIELD u tag type POINTER placement message field prevfield ptr =
     Some (PB_ONEOF_POINTER u tag message field
       (PB_DATAOFFSET placement message [u, field] prevfield) (PB_LTYPE_MAP type) ptr)"
| "PB_ONEOF_FIELD u tag type CALLBACK placement message field prevfield ptr = None"

definition PB_ANONYMOUS_ONEOF_STATIC ::
  "string \<Rightarrow> pb_size_t \<Rightarrow> ctype \<Rightarrow> string \<Rightarrow> pb_size_t \<Rightarrow> pb_type_t \<Rightarrow> pb_ptr \<Rightarrow> pb_field_t" where
  "PB_ANONYMOUS_ONEOF_STATIC u tag st m fd lt ptr =
     pb_field_s tag (PB_ATYPE_STATIC OR PB_HTYPE_ONEOF OR lt)
       fd (word_of_int (pb_delta st [''which_'' @ u] [m])) (of_nat (pb_membersize st [m])) 0 ptr"

definition PB_ANONYMOUS_ONEOF_POINTER ::
  "string \<Rightarrow> pb_size_t \<Rightarrow> ctype \<Rightarrow> string \<Rightarrow> pb_size_t \<Rightarrow> pb_type_t \<Rightarrow> pb_ptr \<Rightarrow> pb_field_t" where
  "PB_ANONYMOUS_ONEOF_POINTER u tag st m fd lt ptr =
     pb_field_s tag (PB_ATYPE_POINTER OR PB_HTYPE_ONEOF OR lt)
       fd (word_of_int (pb_delta st [''which_'' @ u] [m])) (of_nat (pb_membersize0 st [m])) 0 ptr"

fun PB_ANONYMOUS_ONEOF_FIELD :: "string \<Rightarrow> pb_size_t \<Rightarrow> pb_proto_type \<Rightarrow> pb_allocation \<Rightarrow> pb_placement \<Rightarrow>
    ctype \<Rightarrow> string \<Rightarrow> string list \<Rightarrow> pb_ptr \<Rightarrow> pb_field_t option" where
  "PB_ANONYMOUS_ONEOF_FIELD u tag type STATIC placement message field prevfield ptr =
     Some (PB_ANONYMOUS_ONEOF_STATIC u tag message field
       (PB_DATAOFFSET placement message [field] prevfield) (PB_LTYPE_MAP type) ptr)"
| "PB_ANONYMOUS_ONEOF_FIELD u tag type POINTER placement message field prevfield ptr =
     Some (PB_ANONYMOUS_ONEOF_POINTER u tag message field
       (PB_DATAOFFSET placement message [field] prevfield) (PB_LTYPE_MAP type) ptr)"
| "PB_ANONYMOUS_ONEOF_FIELD u tag type CALLBACK placement message field prevfield ptr = None"

section \<open>Error messages\<close>

text \<open>
  \<^verbatim>\<open>PB_SET_ERROR\<close> on the \<^verbatim>\<open>errmsg\<close> member of a stream: the first message stays.
\<close>

definition PB_SET_ERROR :: "string option \<Rightarrow> string \<Rightarrow> string option" where
  "PB_SET_ERROR errmsg msg = (case errmsg of Some e \<Rightarrow> Some e | None \<Rightarrow> Some msg)"

definition PB_GET_ERROR :: "string option \<Rightarrow> string" where
  "PB_GET_ERROR errmsg = (case errmsg of Some e \<Rightarrow> e | None \<Rightarrow> ''(none)'')"

section \<open>Facts on the type byte\<close>

lemma type_split: "PB_ATYPE t OR PB_HTYPE t OR PB_LTYPE t = t"
proof -
  have "(t AND 0xC0) OR (t AND 0x30) OR (t AND 0x0F) = t AND 0xFF"
    by (simp flip: bit.conj_disj_distrib)
  also have "\<dots> = t"
    using take_bit_word_eq_self [of 8 t] by (simp add: take_bit_eq_mask mask_eq_exp_minus_1)
  finally show ?thesis by (simp add: PB_ATYPE_def PB_HTYPE_def PB_LTYPE_def)
qed

lemma PB_SET_ERROR_not_None [simp]: "PB_SET_ERROR e msg \<noteq> None"
  by (simp add: PB_SET_ERROR_def split: option.split)

section \<open>The offsets of the library's own structures\<close>

lemma offsetof_pb [simp]:
  "offsetof pb_bytes_array_s [''bytes''] = 4"
  "offsetof pb_callback_s [''funcs''] = 0"
  "offsetof pb_callback_s [''arg''] = 8"
  "offsetof pb_extension_s [''type''] = 0"
  "offsetof pb_extension_s [''dest''] = 8"
  "offsetof pb_extension_s [''next''] = 16"
  "offsetof pb_extension_s [''found''] = 24"
  by (simp_all add: offsetof_def pb_bytes_array_s_def pb_callback_s_def pb_extension_s_def round_up_def)

lemma unat_ALLOCSIZE [word_nat]: "unat (PB_BYTES_ARRAY_T_ALLOCSIZE n) = unat n + 4"
proof -
  have "unat (ucast n :: u64) + unat (4 :: u64) < 18446744073709551616"
    using unat_lt_32 [of n] by (simp del: unat_lt_32)
  then show ?thesis by (simp add: PB_BYTES_ARRAY_T_ALLOCSIZE_def unat_add_no_overflow)
qed

end
