(* ===== verification/PB_Istream.thy ===== *)
theory PB_Istream
  imports PB_Types
begin

text \<open>
  The input side of nanopb up to single values: \<^verbatim>\<open>pb_istream_t\<close> of
  \<^verbatim>\<open>src/MovieDBApp/Pods/nanopb/pb_decode.h\<close> and, from \<^verbatim>\<open>pb_decode.c\<close>, the stream
  functions, the decoders of varints and tags, the functions that skip a field, and
  substreams.

  A stream reads from a buffer (\<open>Buf_read\<close>, its state the bytes from the pointer to the
  buffer's end; the buffer is constant) or through a callback of the program, a function of
  its own state that returns whether it succeeded, the bytes it stored, and the new state.
  A read past the buffer's end is undefined, \<^const>\<open>None\<close>.

  A function that stores a value through a pointer returns it as an option beside the
  stream: \<^term>\<open>Some v\<close> when the C function returns \<^verbatim>\<open>true\<close> and has stored \<open>v\<close>, \<^const>\<open>None\<close>
  when it returns \<^verbatim>\<open>false\<close>.
\<close>

section \<open>Input streams\<close>

datatype 's pb_istream_callback =
    Buf_read
  | Custom "'s \<Rightarrow> size_t \<Rightarrow> (bool \<times> byte list \<times> 's) option"

datatype 's pb_istream_state = Bufptr "byte list" | Ustate 's

record 's pb_istream_t =
  is_callback :: "'s pb_istream_callback"
  is_state :: "'s pb_istream_state"
  is_bytes_left :: size_t
  is_errmsg :: "string option"

definition set_errmsg :: "'s pb_istream_t \<Rightarrow> string \<Rightarrow> 's pb_istream_t" where
  "set_errmsg s msg = s\<lparr>is_errmsg := PB_SET_ERROR (is_errmsg s) msg\<rparr>"

definition pb_istream_from_buffer :: "byte list \<Rightarrow> size_t \<Rightarrow> 's pb_istream_t" where
  "pb_istream_from_buffer buf bufsize =
     \<lparr>is_callback = Buf_read, is_state = Bufptr buf, is_bytes_left = bufsize, is_errmsg = None\<rparr>"

text \<open>\<open>null\<close> says that the destination is NULL.\<close>

fun buf_read :: "'s pb_istream_state \<Rightarrow> bool \<Rightarrow> size_t \<Rightarrow> (bool \<times> byte list \<times> 's pb_istream_state) option" where
  "buf_read (Bufptr source) null count =
     (if unat count \<le> length source
      then Some (True, if null then [] else take (unat count) source, Bufptr (drop (unat count) source))
      else None)"
| "buf_read (Ustate st) null count = None"

text \<open>\<^verbatim>\<open>stream->callback(stream, buf, count)\<close>; storing more than was asked for is undefined.\<close>

fun call_callback :: "'s pb_istream_callback \<Rightarrow> 's pb_istream_state \<Rightarrow> bool \<Rightarrow> size_t \<Rightarrow>
    (bool \<times> byte list \<times> 's pb_istream_state) option" where
  "call_callback Buf_read st null count = buf_read st null count"
| "call_callback (Custom f) (Ustate st) null count =
     do {
       (ok, bs, st) \<leftarrow> f st count;
       if length bs > unat count then None else Some (ok, bs, Ustate st)
     }"
| "call_callback (Custom f) (Bufptr source) null count = None"

text \<open>The part of \<^verbatim>\<open>pb_read\<close> after the test for skipping.\<close>

definition pb_read_to :: "'s pb_istream_t \<Rightarrow> bool \<Rightarrow> size_t \<Rightarrow> (bool \<times> byte list \<times> 's pb_istream_t) option" where
  "pb_read_to s null count =
     (if is_bytes_left s < count then Some (False, [], set_errmsg s ''end-of-stream'')
      else do {
        (ok, bs, st) \<leftarrow> call_callback (is_callback s) (is_state s) null count;
        let s = s\<lparr>is_state := st\<rparr>;
        if \<not> ok then Some (False, bs, set_errmsg s ''io error'')
        else Some (True, bs, s\<lparr>is_bytes_left := is_bytes_left s - count\<rparr>)
      })"

text \<open>\<^verbatim>\<open>while (count > 16)\<close> and the read after it, into the scratch array \<^verbatim>\<open>tmp\<close>.\<close>

function pb_read_skip :: "'s pb_istream_t \<Rightarrow> size_t \<Rightarrow> (bool \<times> byte list \<times> 's pb_istream_t) option" where
  "pb_read_skip s count =
     (if count > 16
      then do {
        (ok, bs, s) \<leftarrow> pb_read_to s False 16;
        if \<not> ok then Some (False, [], s) else pb_read_skip s (count - 16)
      }
      else do { (ok, bs, s) \<leftarrow> pb_read_to s False count; Some (ok, [], s) })"
  by pat_completeness auto
termination
proof (relation "measure (\<lambda>(s, count). unat count)", goal_cases)
  case 1
  show ?case by simp
next
  case (2 s count)
  then show ?case by (simp add: word_less_nat_alt unat_diff_le word_le_nat_alt)
qed

declare pb_read_skip.simps [simp del]

definition pb_read :: "'s pb_istream_t \<Rightarrow> bool \<Rightarrow> size_t \<Rightarrow> (bool \<times> byte list \<times> 's pb_istream_t) option" where
  "pb_read s null count =
     (if null \<and> (case is_callback s of Buf_read \<Rightarrow> False | Custom _ \<Rightarrow> True)
      then pb_read_skip s count else pb_read_to s null count)"

text \<open>
  The byte is a local variable: a callback that reports success without storing it leaves
  it indeterminate.
\<close>

definition pb_readbyte :: "'s pb_istream_t \<Rightarrow> (byte option \<times> 's pb_istream_t) option" where
  "pb_readbyte s =
     (if is_bytes_left s = 0 then Some (None, set_errmsg s ''end-of-stream'')
      else do {
        (ok, bs, st) \<leftarrow> call_callback (is_callback s) (is_state s) False 1;
        let s = s\<lparr>is_state := st\<rparr>;
        if \<not> ok then Some (None, set_errmsg s ''io error'')
        else case bs of
          [] \<Rightarrow> None
        | b # _ \<Rightarrow> Some (Some b, s\<lparr>is_bytes_left := is_bytes_left s - 1\<rparr>)
      })"

lemma pb_readbyte_left:
  "pb_readbyte s = Some (Some b, s') \<Longrightarrow> unat (is_bytes_left s) = Suc (unat (is_bytes_left s'))"
proof -
  assume read: "pb_readbyte s = Some (Some b, s')"
  then have "is_bytes_left s \<noteq> 0" "is_bytes_left s' = is_bytes_left s - 1"
    by (auto simp: pb_readbyte_def res_simps Let_def split: if_splits list.splits)
  then show ?thesis by (simp add: unat_minus_one unat_gt_0)
qed

section \<open>Varints and tags\<close>

text \<open>\<^verbatim>\<open>uint_fast8_t\<close> has eight bits on the target, so \<open>bitpos\<close> wraps around.\<close>

function varint32_loop :: "'s pb_istream_t \<Rightarrow> u32 \<Rightarrow> byte \<Rightarrow> (u32 option \<times> 's pb_istream_t) option" where
  "varint32_loop s result bitpos =
     do {
       (r, s1) \<leftarrow> pb_readbyte s;
       case r of
         None \<Rightarrow> Some (None, s1)
       | Some byte \<Rightarrow>
           let sign_extension = (if bitpos < 63 then 0xFF else 0x01);
               overflow = (bitpos \<ge> 32 \<and> byte AND 0x7F \<noteq> 0
                           \<and> (drop_bit 31 result = 0 \<or> byte \<noteq> sign_extension));
               result' = (if bitpos \<ge> 32 then result
                          else result OR push_bit (unat bitpos) (ucast (byte AND 0x7F)));
               bitpos' = bitpos + 7
           in if overflow then Some (None, set_errmsg s1 ''varint overflow'')
              else if byte AND 0x80 \<noteq> 0 then varint32_loop s1 result' bitpos'
              else if bitpos' = 35 \<and> byte AND 0x70 \<noteq> 0
              then Some (None, set_errmsg s1 ''varint overflow'')
              else Some (Some result', s1)
     }"
  by pat_completeness auto
termination
  by (relation "measure (\<lambda>(s, result, bitpos). unat (is_bytes_left s))")
     (auto dest: pb_readbyte_left)

declare varint32_loop.simps [simp del]

text \<open>The second component is \<^verbatim>\<open>*eof\<close> after the call, \<^const>\<open>True\<close> when it was set.\<close>

definition pb_decode_varint32_eof :: "'s pb_istream_t \<Rightarrow> (u32 option \<times> bool \<times> 's pb_istream_t) option" where
  "pb_decode_varint32_eof s =
     do {
       (r, s) \<leftarrow> pb_readbyte s;
       case r of
         None \<Rightarrow> Some (None, is_bytes_left s = 0, s)
       | Some byte \<Rightarrow>
           if byte AND 0x80 = 0 then Some (Some (ucast byte), False, s)
           else map_option (\<lambda>(r, s). (r, False, s)) (varint32_loop s (ucast (byte AND 0x7F)) 7)
     }"

definition pb_decode_varint32 :: "'s pb_istream_t \<Rightarrow> (u32 option \<times> 's pb_istream_t) option" where
  "pb_decode_varint32 s = map_option (\<lambda>(r, eof, s). (r, s)) (pb_decode_varint32_eof s)"

function varint64_loop :: "'s pb_istream_t \<Rightarrow> u64 \<Rightarrow> byte \<Rightarrow> (u64 option \<times> 's pb_istream_t) option" where
  "varint64_loop s result bitpos =
     (if bitpos \<ge> 64 then Some (None, set_errmsg s ''varint overflow'')
      else do {
        (r, s1) \<leftarrow> pb_readbyte s;
        case r of
          None \<Rightarrow> Some (None, s1)
        | Some byte \<Rightarrow>
            let result' = result OR push_bit (unat bitpos) (ucast (byte AND 0x7F)) in
            if byte AND 0x80 \<noteq> 0 then varint64_loop s1 result' (bitpos + 7)
            else Some (Some result', s1)
      })"
  by pat_completeness auto
termination
  by (relation "measure (\<lambda>(s, result, bitpos). unat (is_bytes_left s))")
     (auto dest: pb_readbyte_left)

declare varint64_loop.simps [simp del]

definition pb_decode_varint :: "'s pb_istream_t \<Rightarrow> (u64 option \<times> 's pb_istream_t) option" where
  "pb_decode_varint s = varint64_loop s 0 0"

definition pb_decode_svarint :: "'s pb_istream_t \<Rightarrow> (u64 option \<times> 's pb_istream_t) option" where
  "pb_decode_svarint s =
     do {
       (r, s) \<leftarrow> pb_decode_varint s;
       Some (map_option (\<lambda>v. if v AND 1 \<noteq> 0 then NOT (drop_bit 1 v) else drop_bit 1 v) r, s)
     }"

text \<open>The result: the returned flag, \<^verbatim>\<open>*wire_type\<close>, \<^verbatim>\<open>*tag\<close>, \<^verbatim>\<open>*eof\<close> and the stream.\<close>

definition pb_decode_tag ::
  "'s pb_istream_t \<Rightarrow> (bool \<times> pb_wire_type_t \<times> u32 \<times> bool \<times> 's pb_istream_t) option" where
  "pb_decode_tag s =
     do {
       (r, eof, s) \<leftarrow> pb_decode_varint32_eof s;
       Some (case r of
               None \<Rightarrow> (False, 0, 0, eof, s)
             | Some temp \<Rightarrow>
                 if temp = 0 then (False, 0, 0, True, s)
                 else (True, temp AND 7, drop_bit 3 temp, eof, s))
     }"

text \<open>Local arrays that \<^verbatim>\<open>pb_read\<close> fills: all bytes have to be stored.\<close>

definition pb_read_local :: "'s pb_istream_t \<Rightarrow> size_t \<Rightarrow> (byte list option \<times> 's pb_istream_t) option" where
  "pb_read_local s count =
     do {
       (ok, bs, s) \<leftarrow> pb_read s False count;
       if \<not> ok then Some (None, s)
       else if length bs = unat count then Some (Some bs, s)
       else None
     }"

lemma pb_read_to_left:
  assumes "pb_read_to s null count = Some (True, bs, s')"
  shows "count \<le> is_bytes_left s \<and> is_bytes_left s' = is_bytes_left s - count
    \<and> is_callback s' = is_callback s"
  using assms by (auto simp: pb_read_to_def res_simps Let_def not_less split: if_splits)

lemma pb_read_local_left:
  assumes "pb_read_local s count = Some (Some bs, s')"
  shows "count \<le> is_bytes_left s \<and> is_bytes_left s' = is_bytes_left s - count
    \<and> length bs = unat count"
  using assms pb_read_to_left [of s False count]
  by (auto simp: pb_read_local_def pb_read_def res_simps split: if_splits)

lemma pb_read_local_1:
  assumes "pb_read_local s 1 = Some (Some bs, s')"
  shows "unat (is_bytes_left s') < unat (is_bytes_left s)"
proof -
  have "1 \<le> is_bytes_left s" "is_bytes_left s' = is_bytes_left s - 1"
    using pb_read_local_left [OF assms] by auto
  then show ?thesis by (simp add: word_le_nat_alt unat_diff_le)
qed

section \<open>Skipping a field\<close>

function pb_skip_varint :: "'s pb_istream_t \<Rightarrow> (bool \<times> 's pb_istream_t) option" where
  "pb_skip_varint s =
     do {
       (r, s1) \<leftarrow> pb_read_local s 1;
       case r of
         None \<Rightarrow> Some (False, s1)
       | Some bs \<Rightarrow> if hd bs AND 0x80 \<noteq> 0 then pb_skip_varint s1 else Some (True, s1)
     }"
  by pat_completeness auto
termination
  by (relation "measure (\<lambda>s. unat (is_bytes_left s))") (auto dest: pb_read_local_1)

declare pb_skip_varint.simps [simp del]

definition pb_skip_bytes :: "'s pb_istream_t \<Rightarrow> size_t \<Rightarrow> (bool \<times> 's pb_istream_t) option" where
  "pb_skip_bytes s count = map_option (\<lambda>(ok, bs, s). (ok, s)) (pb_read s True count)"

definition pb_skip_string :: "'s pb_istream_t \<Rightarrow> (bool \<times> 's pb_istream_t) option" where
  "pb_skip_string s =
     do {
       (r, s) \<leftarrow> pb_decode_varint32 s;
       case r of None \<Rightarrow> Some (False, s) | Some len \<Rightarrow> pb_skip_bytes s (ucast len)
     }"

definition pb_skip_field :: "'s pb_istream_t \<Rightarrow> pb_wire_type_t \<Rightarrow> (bool \<times> 's pb_istream_t) option" where
  "pb_skip_field s wire_type =
     (if wire_type = PB_WT_VARINT then pb_skip_varint s
      else if wire_type = PB_WT_64BIT then pb_skip_bytes s 8
      else if wire_type = PB_WT_STRING then pb_skip_string s
      else if wire_type = PB_WT_32BIT then pb_skip_bytes s 4
      else Some (False, set_errmsg s ''invalid wire_type''))"

text \<open>
  The bytes of a varint, at most \<open>room\<close> of them; the value is the content of the buffer
  when the function returns \<^verbatim>\<open>true\<close>.
\<close>

primrec raw_varint :: "nat \<Rightarrow> 's pb_istream_t \<Rightarrow> (byte list option \<times> 's pb_istream_t) option" where
  "raw_varint 0 s = Some (None, s)"
| "raw_varint (Suc room) s =
     do {
       (r, s) \<leftarrow> pb_read_local s 1;
       case r of
         None \<Rightarrow> Some (None, s)
       | Some bs \<Rightarrow>
           if hd bs AND 0x80 \<noteq> 0
           then map_option (\<lambda>(r, s). (map_option (\<lambda>cs. hd bs # cs) r, s)) (raw_varint room s)
           else Some (Some [hd bs], s)
     }"

definition read_raw_value ::
  "'s pb_istream_t \<Rightarrow> pb_wire_type_t \<Rightarrow> nat \<Rightarrow> (byte list option \<times> 's pb_istream_t) option" where
  "read_raw_value s wire_type max_size =
     (if wire_type = PB_WT_VARINT then raw_varint max_size s
      else if wire_type = PB_WT_64BIT then pb_read_local s 8
      else if wire_type = PB_WT_32BIT then pb_read_local s 4
      else Some (None, set_errmsg s ''invalid wire_type''))"

section \<open>Substreams\<close>

definition pb_make_string_substream ::
  "'s pb_istream_t \<Rightarrow> ('s pb_istream_t option \<times> 's pb_istream_t) option" where
  "pb_make_string_substream s =
     do {
       (r, s) \<leftarrow> pb_decode_varint32 s;
       case r of
         None \<Rightarrow> Some (None, s)
       | Some sz \<Rightarrow>
           if is_bytes_left s < ucast sz then Some (None, set_errmsg s ''parent stream too short'')
           else Some (Some (s\<lparr>is_bytes_left := ucast sz\<rparr>),
                      s\<lparr>is_bytes_left := is_bytes_left s - ucast sz\<rparr>)
     }"

definition pb_close_string_substream ::
  "'s pb_istream_t \<Rightarrow> 's pb_istream_t \<Rightarrow> (bool \<times> 's pb_istream_t) option" where
  "pb_close_string_substream s substream =
     do {
       (ok, substream) \<leftarrow> (if is_bytes_left substream \<noteq> 0
                          then pb_skip_bytes substream (is_bytes_left substream)
                          else Some (True, substream));
       if \<not> ok then Some (False, s)
       else Some (True, s\<lparr>is_state := is_state substream, is_errmsg := is_errmsg substream\<rparr>)
     }"

end
