(* ===== verification/PB_Common.thy ===== *)
theory PB_Common
  imports PB_Types
begin

text \<open>
  \<^verbatim>\<open>src/MovieDBApp/Pods/nanopb/pb_common.c\<close> and \<^verbatim>\<open>pb_common.h\<close>: the iterator over the
  fields of a message. The iterator walks the descriptor array and, beside it, the
  structure: \<open>it_pData\<close> is the address of the current member and \<open>it_pSize\<close> that of its
  \<^verbatim>\<open>has_\<close> flag, count or \<^verbatim>\<open>which_\<close> tag.

  The main facts: the iterator visits every descriptor once and then wraps
  (\<open>iter_at\<close> says where it stands), and \<open>pb_field_iter_find\<close> always returns, finds the
  field of a tag exactly if the array has one, and leaves the iterator at it.
\<close>

section \<open>Definitions\<close>

text \<open>
  \<^verbatim>\<open>pSize\<close> points into memory, or to the counter \<^verbatim>\<open>fixed_count_size\<close>, a local variable
  of \<^verbatim>\<open>pb_decode_noinit\<close> (the top of \<open>mem_locals\<close>).
\<close>

datatype size_ptr = SizeAt addr | LocalCount

record pb_field_iter_t =
  it_start :: "pb_field_t list"
  it_pos :: nat
  it_required_field_index :: u32
  it_dest_struct :: addr
  it_pData :: addr
  it_pSize :: size_ptr

definition it_field :: "pb_field_iter_t \<Rightarrow> pb_field_t" where
  "it_field it = field_at (it_start it) (it_pos it)"

definition size_at :: "addr \<Rightarrow> pb_field_t \<Rightarrow> addr" where
  "size_at pData f = pData + scast (pf_size_offset f)"

definition pb_field_iter_begin :: "pb_field_t list \<Rightarrow> addr \<Rightarrow> bool \<times> pb_field_iter_t" where
  "pb_field_iter_begin fs dest_struct =
     (let f = field_at fs 0;
          pData = dest_struct + ucast (pf_data_offset f)
      in (pf_tag f \<noteq> 0,
          \<lparr>it_start = fs, it_pos = 0, it_required_field_index = 0,
           it_dest_struct = dest_struct, it_pData = pData,
           it_pSize = SizeAt (size_at pData f)\<rparr>))"

text \<open>The number of bytes a field takes in the structure, \<^verbatim>\<open>prev_size\<close> of the code.\<close>

definition prev_size_of :: "pb_field_t \<Rightarrow> size_t" where
  "prev_size_of f =
     (if atype f = PB_ATYPE_STATIC \<and> htype f = PB_HTYPE_REPEATED
      then ucast (pf_data_size f) * ucast (pf_array_size f)
      else if atype f = PB_ATYPE_POINTER then 8
      else ucast (pf_data_size f))"

definition pb_field_iter_next :: "pb_field_iter_t \<Rightarrow> bool \<times> pb_field_iter_t" where
  "pb_field_iter_next it =
     (let prev = it_field it in
      if pf_tag prev = 0 then (False, it)
      else
        let f = field_at (it_start it) (Suc (it_pos it)) in
        if pf_tag f = 0
        then (False, snd (pb_field_iter_begin (it_start it) (it_dest_struct it)))
        else if htype prev = PB_HTYPE_ONEOF \<and> htype f = PB_HTYPE_ONEOF
                \<and> pf_data_offset f = PB_SIZE_MAX
        then (True, it\<lparr>it_pos := Suc (it_pos it)\<rparr>)
        else
          let pData = it_pData it + prev_size_of prev + ucast (pf_data_offset f) in
          (True, it\<lparr>it_pos := Suc (it_pos it),
                    it_required_field_index := (if htype prev = PB_HTYPE_REQUIRED
                      then it_required_field_index it + 1 else it_required_field_index it),
                    it_pData := pData,
                    it_pSize := SizeAt (size_at pData f)\<rparr>))"

text \<open>
  \<^verbatim>\<open>do ... while (iter->pos != start)\<close>; \<^const>\<open>None\<close> if the loop never ends.
\<close>

partial_function (option) pb_field_iter_find_loop ::
  "nat \<Rightarrow> u32 \<Rightarrow> pb_field_iter_t \<Rightarrow> (bool \<times> pb_field_iter_t) option" where
  "pb_field_iter_find_loop start tag it =
     (if pf_tag (it_field it) = tag \<and> ltype (it_field it) \<noteq> PB_LTYPE_EXTENSION
      then Some (True, it)
      else let it' = snd (pb_field_iter_next it)
           in if it_pos it' \<noteq> start then pb_field_iter_find_loop start tag it'
              else Some (False, it'))"

declare pb_field_iter_find_loop.simps [code]

definition pb_field_iter_find ::
  "pb_field_iter_t \<Rightarrow> u32 \<Rightarrow> (bool \<times> pb_field_iter_t) option" where
  "pb_field_iter_find it tag = pb_field_iter_find_loop (it_pos it) tag it"

section \<open>Where the iterator stands\<close>

text \<open>The number of fields before the terminator.\<close>

definition field_count :: "pb_field_t list \<Rightarrow> nat" where
  "field_count fs = length (takeWhile (\<lambda>f. pf_tag f \<noteq> 0) fs)"

text \<open>The iterator after \<open>i\<close> steps from the beginning.\<close>

primrec iter_nth :: "pb_field_t list \<Rightarrow> addr \<Rightarrow> nat \<Rightarrow> pb_field_iter_t" where
  "iter_nth fs dest 0 = snd (pb_field_iter_begin fs dest)"
| "iter_nth fs dest (Suc i) = snd (pb_field_iter_next (iter_nth fs dest i))"

definition iter_at :: "pb_field_t list \<Rightarrow> addr \<Rightarrow> pb_field_iter_t \<Rightarrow> nat \<Rightarrow> bool" where
  "iter_at fs dest it i \<longleftrightarrow> i < field_count fs \<and> it = iter_nth fs dest i"

lemma tag_last_field [simp]: "pf_tag PB_LAST_FIELD = 0"
  by (simp add: PB_LAST_FIELD_def)

lemma field_at_lt: "i < field_count fs \<Longrightarrow> pf_tag (field_at fs i) \<noteq> 0"
proof -
  assume i: "i < field_count fs"
  then have "takeWhile (\<lambda>f. pf_tag f \<noteq> 0) fs ! i \<in> set (takeWhile (\<lambda>f. pf_tag f \<noteq> 0) fs)"
    by (simp add: field_count_def)
  then have "pf_tag (takeWhile (\<lambda>f. pf_tag f \<noteq> 0) fs ! i) \<noteq> 0"
    by (blast dest: set_takeWhileD)
  moreover have "i < length fs"
    using i length_takeWhile_le [of _ fs] by (auto simp: field_count_def intro: less_le_trans)
  ultimately show ?thesis
    using i by (simp add: field_at_def field_count_def takeWhile_nth)
qed

lemma field_at_count: "pf_tag (field_at fs (field_count fs)) = 0"
  using nth_length_takeWhile [of "\<lambda>f. pf_tag f \<noteq> 0" fs]
  by (auto simp: field_at_def field_count_def)

lemma field_at_within: "pf_tag (field_at fs i) \<noteq> 0 \<Longrightarrow> i < length fs"
  by (simp add: field_at_def split: if_splits)

lemma field_count_le: "field_count fs \<le> length fs"
  by (simp add: field_count_def length_takeWhile_le)

lemma begin_simps [simp]:
  "it_start (snd (pb_field_iter_begin fs dest)) = fs"
  "it_pos (snd (pb_field_iter_begin fs dest)) = 0"
  "it_dest_struct (snd (pb_field_iter_begin fs dest)) = dest"
  "fst (pb_field_iter_begin fs dest) \<longleftrightarrow> pf_tag (field_at fs 0) \<noteq> 0"
  by (simp_all add: pb_field_iter_begin_def Let_def)

lemma begin_True_iff: "fst (pb_field_iter_begin fs dest) \<longleftrightarrow> 0 < field_count fs"
  using field_at_lt [of 0 fs] field_at_count [of fs] by (cases "field_count fs") auto

lemma next_start [simp]: "it_start (snd (pb_field_iter_next it)) = it_start it"
  and next_dest [simp]: "it_dest_struct (snd (pb_field_iter_next it)) = it_dest_struct it"
  by (simp_all add: pb_field_iter_next_def Let_def)

lemma next_True_pos:
  "pb_field_iter_next it = (True, it') \<Longrightarrow> it_pos it' = Suc (it_pos it) \<and> it_pos it' < length (it_start it)"
  using field_at_within [of "it_start it" "Suc (it_pos it)"]
  by (auto simp: pb_field_iter_next_def Let_def split: if_splits)

lemma iter_nth_simps [simp]:
  "it_start (iter_nth fs dest i) = fs" "it_dest_struct (iter_nth fs dest i) = dest"
  by (induction i) simp_all

lemma iter_nth_pos: "i < field_count fs \<Longrightarrow> it_pos (iter_nth fs dest i) = i"
proof (induction i)
  case 0
  then show ?case by simp
next
  case (Suc i)
  then have "it_pos (iter_nth fs dest i) = i" by simp
  moreover have "pf_tag (field_at fs i) \<noteq> 0" "pf_tag (field_at fs (Suc i)) \<noteq> 0"
    using Suc.prems by (simp_all add: field_at_lt)
  ultimately show ?case by (simp add: pb_field_iter_next_def it_field_def Let_def)
qed

lemma iter_at_field: "iter_at fs dest it i \<Longrightarrow> it_field it = field_at fs i"
  by (simp add: iter_at_def it_field_def iter_nth_pos)

lemma iter_at_begin:
  "0 < field_count fs \<Longrightarrow> iter_at fs dest (snd (pb_field_iter_begin fs dest)) 0"
  by (simp add: iter_at_def)

lemma iter_at_next:
  assumes "iter_at fs dest it i"
  shows "if Suc i < field_count fs
         then fst (pb_field_iter_next it) \<and> iter_at fs dest (snd (pb_field_iter_next it)) (Suc i)
         else \<not> fst (pb_field_iter_next it) \<and> iter_at fs dest (snd (pb_field_iter_next it)) 0"
proof -
  have i: "i < field_count fs" "it = iter_nth fs dest i" using assms by (auto simp: iter_at_def)
  have pos: "it_pos it = i" "it_start it = fs" using i by (auto simp: iter_nth_pos)
  have tag: "pf_tag (field_at fs i) \<noteq> 0" using i by (simp add: field_at_lt)
  show ?thesis
  proof (cases "Suc i < field_count fs")
    case True
    then have "pf_tag (field_at fs (Suc i)) \<noteq> 0" by (rule field_at_lt)
    then have "fst (pb_field_iter_next it)"
      using pos tag by (simp add: pb_field_iter_next_def it_field_def Let_def)
    then show ?thesis using True i by (simp add: iter_at_def)
  next
    case False
    then have "field_count fs = Suc i" using i by simp
    then have "pf_tag (field_at fs (Suc i)) = 0" using field_at_count [of fs] by simp
    then have "pb_field_iter_next it = (False, snd (pb_field_iter_begin fs dest))"
      using pos tag i by (simp add: pb_field_iter_next_def it_field_def Let_def)
    then show ?thesis using False i by (simp add: iter_at_def)
  qed
qed

section \<open>Searching a tag\<close>

definition tag_matches :: "u32 \<Rightarrow> pb_field_t \<Rightarrow> bool" where
  "tag_matches tag f \<longleftrightarrow> pf_tag f = tag \<and> ltype f \<noteq> PB_LTYPE_EXTENSION"

text \<open>The first match when the \<open>n\<close> fields are taken in cyclic order from position \<open>i\<close>.\<close>

definition find_index :: "pb_field_t list \<Rightarrow> nat \<Rightarrow> nat \<Rightarrow> u32 \<Rightarrow> nat option" where
  "find_index fs i k tag =
     List.find (\<lambda>j. tag_matches tag (field_at fs j))
       (map (\<lambda>k. (i + k) mod field_count fs) [k..<field_count fs])"

lemma find_index_step:
  "k < field_count fs \<Longrightarrow> find_index fs i k tag =
     (if tag_matches tag (field_at fs ((i + k) mod field_count fs))
      then Some ((i + k) mod field_count fs) else find_index fs i (Suc k) tag)"
  by (simp add: find_index_def upt_conv_Cons)

lemma iter_at_next_mod:
  assumes "iter_at fs dest it (j mod field_count fs)"
  shows "iter_at fs dest (snd (pb_field_iter_next it)) (Suc j mod field_count fs)"
  using iter_at_next [OF assms] assms by (auto simp: mod_Suc iter_at_def split: if_splits)

lemma find_loop_eq:
  "\<lbrakk>k < field_count fs; i < field_count fs; iter_at fs dest it ((i + k) mod field_count fs)\<rbrakk> \<Longrightarrow>
   pb_field_iter_find_loop i tag it =
     (case find_index fs i k tag of
        Some j \<Rightarrow> Some (True, iter_nth fs dest j)
      | None \<Rightarrow> Some (False, iter_nth fs dest i))"
proof (induction "field_count fs - k" arbitrary: k it)
  case 0
  then show ?case by simp
next
  case (Suc d)
  let ?n = "field_count fs" and ?j = "(i + k) mod field_count fs"
  let ?it' = "snd (pb_field_iter_next it)"
  have it: "it = iter_nth fs dest ?j" "it_field it = field_at fs ?j"
    using Suc.prems(3) iter_at_field by (auto simp: iter_at_def)
  show ?case
  proof (cases "tag_matches tag (field_at fs ?j)")
    case True
    then show ?thesis
      using it(1) [symmetric] it(2) Suc.prems(1)
      by (simp add: find_index_step pb_field_iter_find_loop.simps [of i tag it] tag_matches_def)
  next
    case no: False
    have next_at: "iter_at fs dest ?it' ((i + Suc k) mod ?n)"
      using iter_at_next_mod [OF Suc.prems(3)] by simp
    then have next_pos: "it_pos ?it' = (i + Suc k) mod ?n" by (simp add: iter_at_def iter_nth_pos)
    have step: "pb_field_iter_find_loop i tag it =
        (if it_pos ?it' \<noteq> i then pb_field_iter_find_loop i tag ?it' else Some (False, ?it'))"
      using no it(2)
      by (auto simp: pb_field_iter_find_loop.simps [of i tag it] tag_matches_def Let_def)
    have idx: "find_index fs i k tag = find_index fs i (Suc k) tag"
      using no Suc.prems(1) by (simp add: find_index_step)
    show ?thesis
    proof (cases "Suc k = ?n")
      case True
      then have "find_index fs i (Suc k) tag = None" by (simp add: find_index_def)
      moreover have "(i + Suc k) mod ?n = i" using True Suc.prems(2) by simp
      ultimately show ?thesis
        using step idx next_at next_pos by (simp add: iter_at_def)
    next
      case False
      then have k: "Suc k < ?n" using Suc.prems(1) by simp
      then have "(i + Suc k) mod ?n \<noteq> i"
        using Suc.prems(2) by (auto simp: mod_if le_mod_geq)
      moreover have "pb_field_iter_find_loop i tag ?it' =
          (case find_index fs i (Suc k) tag of
            Some j \<Rightarrow> Some (True, iter_nth fs dest j)
          | None \<Rightarrow> Some (False, iter_nth fs dest i))"
        using Suc.hyps(2) k Suc.prems(2) next_at by (intro Suc.hyps(1)) auto
      ultimately show ?thesis using step idx next_pos by simp
    qed
  qed
qed

lemma find_eq:
  assumes "iter_at fs dest it i"
  shows "pb_field_iter_find it tag =
     (case find_index fs i 0 tag of
        Some j \<Rightarrow> Some (True, iter_nth fs dest j)
      | None \<Rightarrow> Some (False, it))"
proof -
  have "i < field_count fs" "it_pos it = i" "it = iter_nth fs dest i"
    using assms by (auto simp: iter_at_def iter_nth_pos)
  then show ?thesis
    using find_loop_eq [of 0 fs i dest it tag] assms
    by (auto simp: pb_field_iter_find_def split: option.splits)
qed

lemma find_index_Some:
  "find_index fs i 0 tag = Some j \<Longrightarrow> 0 < field_count fs \<Longrightarrow>
     j < field_count fs \<and> tag_matches tag (field_at fs j)"
  by (auto simp: find_index_def find_Some_iff)

lemma find_index_None:
  assumes "find_index fs i 0 tag = None" and "j < field_count fs" and "i < field_count fs"
  shows "\<not> tag_matches tag (field_at fs j)"
proof -
  let ?n = "field_count fs"
  have none: "\<And>k. k < ?n \<Longrightarrow> \<not> tag_matches tag (field_at fs ((i + k) mod ?n))"
    using assms(1) by (auto simp: find_index_def find_None_iff)
  have "(i + (j + (?n - i)) mod ?n) mod ?n = (i + (j + (?n - i))) mod ?n"
    by (simp add: mod_add_right_eq)
  also have "\<dots> = j" using assms(2,3) by (simp add: add.left_commute)
  finally have "(i + (j + (?n - i)) mod ?n) mod ?n = j" .
  moreover have "(j + (?n - i)) mod ?n < ?n" using assms(2) by simp
  ultimately show ?thesis using none by metis
qed

section \<open>Properties\<close>

text \<open>
  C5. Searching a tag from any field always returns. If a field of the message has the tag and
  is not an extension range, the search finds such a field and the iterator stands at it,
  with the addresses a walk from the start would give; otherwise it returns \<^verbatim>\<open>false\<close> and
  the iterator is where it was.
\<close>

theorem pb_field_iter_find_correct:
  assumes "iter_at fs dest it i"
  shows "if \<exists>j < field_count fs. tag_matches tag (field_at fs j)
    then \<exists>j it'. pb_field_iter_find it tag = Some (True, it') \<and> iter_at fs dest it' j
           \<and> tag_matches tag (field_at fs j)
    else pb_field_iter_find it tag = Some (False, it)"
proof -
  have i: "i < field_count fs" using assms by (simp add: iter_at_def)
  show ?thesis
  proof (cases "find_index fs i 0 tag")
    case None
    then have "\<not> (\<exists>j < field_count fs. tag_matches tag (field_at fs j))"
      using find_index_None i by blast
    then show ?thesis using None find_eq [OF assms] by simp
  next
    case (Some j)
    then have j: "j < field_count fs \<and> tag_matches tag (field_at fs j)"
      using i by (intro find_index_Some [OF Some]) simp
    then have "iter_at fs dest (iter_nth fs dest j) j" by (simp add: iter_at_def)
    then show ?thesis using Some j find_eq [OF assms] by auto
  qed
qed

theorem pb_field_iter_find_correct_witness:
  "pb_field_iter_find (iter_nth [pb_field_s 1 0 0 0 4 0 PB_NULL, pb_field_s 2 0 0 0 4 0 PB_NULL] 16 1) 7
   = Some (False, iter_nth [pb_field_s 1 0 0 0 4 0 PB_NULL, pb_field_s 2 0 0 0 4 0 PB_NULL] 16 1)"
proof -
  let ?fs = "[pb_field_s 1 0 0 0 4 0 PB_NULL, pb_field_s 2 0 0 0 4 0 PB_NULL]"
  have n: "field_count ?fs = 2" by (simp add: field_count_def)
  then have "iter_at ?fs 16 (iter_nth ?fs 16 1) 1" by (simp add: iter_at_def)
  moreover have "\<not> tag_matches 7 (field_at ?fs j)" if "j < field_count ?fs" for j
  proof -
    have "j = 0 \<or> j = 1" using that n by linarith
    then show ?thesis by (elim disjE) (simp_all add: tag_matches_def field_at_def)
  qed
  ultimately show ?thesis
    using pb_field_iter_find_correct [of ?fs 16 "iter_nth ?fs 16 1" 1 7] by metis
qed

end
