(* ===== verification/PB_Decode_Mem.thy ===== *)
theory PB_Decode_Mem
  imports PB_Common
begin

text \<open>
  The parts of \<^verbatim>\<open>src/MovieDBApp/Pods/nanopb/pb_decode.c\<close> that work on the message structure
  alone: setting it to its default values, and releasing what it owns on the heap
  (\<^verbatim>\<open>pb_release\<close>). Both walk the descriptors, descend into submessages and follow the chain
  of extensions. The number \<open>n\<close> bounds the nesting and the length of a chain; the value
  \<^const>\<open>None\<close> is undefined behaviour or a bound that was too small.
\<close>

section \<open>Counters and flags beside a field\<close>

definition load_size :: "mem \<Rightarrow> size_ptr \<Rightarrow> u32 option" where
  "load_size m sp =
     (case sp of
        SizeAt a \<Rightarrow> load_u32 m a
      | LocalCount \<Rightarrow> (case mem_locals m of [] \<Rightarrow> None | c # _ \<Rightarrow> Some c))"

definition store_size :: "mem \<Rightarrow> size_ptr \<Rightarrow> u32 \<Rightarrow> mem option" where
  "store_size m sp c =
     (case sp of
        SizeAt a \<Rightarrow> store_u32 m a c
      | LocalCount \<Rightarrow> (case mem_locals m of [] \<Rightarrow> None | _ # cs \<Rightarrow> Some (m\<lparr>mem_locals := c # cs\<rparr>)))"

definition store_has :: "mem \<Rightarrow> size_ptr \<Rightarrow> bool \<Rightarrow> mem option" where
  "store_has m sp b = (case sp of SizeAt a \<Rightarrow> store_bool m a b | LocalCount \<Rightarrow> None)"

text \<open>\<^verbatim>\<open>iter->pSize == iter->pData\<close>\<close>

definition no_size :: "pb_field_iter_t \<Rightarrow> bool" where
  "no_size it \<longleftrightarrow> it_pSize it = SizeAt (it_pData it)"

section \<open>Extensions\<close>

text \<open>The extension types behind the pointers to them, constants of the program.\<close>

type_synonym ext_types = "addr \<Rightarrow> pb_extension_type_t option"

definition extension_type :: "ext_types \<Rightarrow> mem \<Rightarrow> addr \<Rightarrow> pb_extension_type_t option" where
  "extension_type types m extension =
     Option.bind (load_ptr m (extension + of_nat (offsetof pb_extension_s [''type'']))) types"

definition iter_from_extension :: "ext_types \<Rightarrow> mem \<Rightarrow> addr \<Rightarrow> pb_field_iter_t option" where
  "iter_from_extension types m extension =
     do {
       xt \<leftarrow> extension_type types m extension;
       let field = xt_arg xt;
       dest \<leftarrow> load_ptr m (extension + of_nat (offsetof pb_extension_s [''dest'']));
       let it = snd (pb_field_iter_begin [field] dest);
       Some (it\<lparr>it_pData := (if atype field = PB_ATYPE_POINTER
                             then extension + of_nat (offsetof pb_extension_s [''dest'']) else dest),
                it_pSize := SizeAt (extension + of_nat (offsetof pb_extension_s [''found'']))\<rparr>)
     }"

text \<open>\<^verbatim>\<open>do step(&iter); while (pb_field_iter_next(&iter))\<close>\<close>

function for_fields :: "(pb_field_iter_t \<Rightarrow> mem \<Rightarrow> mem option) \<Rightarrow> pb_field_iter_t \<Rightarrow> mem \<Rightarrow> mem option" where
  "for_fields step it m =
     do {
       m \<leftarrow> step it m;
       let nx = pb_field_iter_next it;
       if fst nx then for_fields step (snd nx) m else Some m
     }"
  by pat_completeness auto
termination
proof (relation "measure (\<lambda>(step, it, m). length (it_start it) - it_pos it)", goal_cases)
  case 1
  show ?case by simp
next
  case (2 step it)
  then show ?case
    using next_True_pos [of it "snd (pb_field_iter_next it)"] by (auto simp: prod_eq_iff)
qed

declare for_fields.simps [simp del]

section \<open>Default values\<close>

definition for_message ::
  "(pb_field_iter_t \<Rightarrow> mem \<Rightarrow> mem option) \<Rightarrow> pb_ptr \<Rightarrow> addr \<Rightarrow> mem \<Rightarrow> mem option" where
  "for_message step ptr dest m =
     (case ptr of
        PB_FIELDS fs \<Rightarrow>
          let it = pb_field_iter_begin fs dest in
          if \<not> fst it then Some m else for_fields step (snd it) m
      | _ \<Rightarrow> None)"

definition static_default ::
  "(pb_field_iter_t \<Rightarrow> mem \<Rightarrow> mem option) \<Rightarrow> pb_field_iter_t \<Rightarrow> mem \<Rightarrow> mem option" where
  "static_default step it m =
     (let f = it_field it in
      if htype f = PB_HTYPE_REPEATED \<or> htype f = PB_HTYPE_ONEOF then store_size m (it_pSize it) 0
      else do {
        m \<leftarrow> (if htype f = PB_HTYPE_OPTIONAL \<and> \<not> no_size it then store_has m (it_pSize it) False
              else Some m);
        if ltype f = PB_LTYPE_SUBMESSAGE then for_message step (pf_ptr f) (it_pData it) m
        else case pf_ptr f of
            PB_NULL \<Rightarrow> memset m (it_pData it) 0 (unat (pf_data_size f))
          | PB_DEFAULT d \<Rightarrow>
              if length d < unat (pf_data_size f) then None
              else store_bytes m (it_pData it) (take (unat (pf_data_size f)) d)
          | PB_FIELDS _ \<Rightarrow> None
      })"

definition pointer_default :: "pb_field_iter_t \<Rightarrow> mem \<Rightarrow> mem option" where
  "pointer_default it m =
     (let f = it_field it in do {
        m \<leftarrow> store_ptr m (it_pData it) NULL;
        if htype f = PB_HTYPE_REPEATED \<or> htype f = PB_HTYPE_ONEOF then store_size m (it_pSize it) 0
        else Some m
      })"

text \<open>\<^verbatim>\<open>while (ext != NULL)\<close>, for at most \<open>k\<close> extensions.\<close>

primrec extension_defaults ::
  "ext_types \<Rightarrow> (pb_field_iter_t \<Rightarrow> mem \<Rightarrow> mem option) \<Rightarrow> nat \<Rightarrow> addr \<Rightarrow> mem \<Rightarrow> mem option" where
  "extension_defaults types step 0 ext m = (if ext = NULL then Some m else None)"
| "extension_defaults types step (Suc k) ext m =
     (if ext = NULL then Some m
      else do {
        m \<leftarrow> store_bool m (ext + of_nat (offsetof pb_extension_s [''found''])) False;
        it \<leftarrow> iter_from_extension types m ext;
        m \<leftarrow> step it m;
        nx \<leftarrow> load_ptr m (ext + of_nat (offsetof pb_extension_s [''next'']));
        extension_defaults types step k nx m
      })"

primrec pb_field_set_to_default :: "nat \<Rightarrow> ext_types \<Rightarrow> pb_field_iter_t \<Rightarrow> mem \<Rightarrow> mem option" where
  "pb_field_set_to_default 0 types it m = None"
| "pb_field_set_to_default (Suc n) types it m =
     (let f = it_field it; step = pb_field_set_to_default n types in
      if ltype f = PB_LTYPE_EXTENSION
      then do { ext \<leftarrow> load_ptr m (it_pData it); extension_defaults types step n ext m }
      else if atype f = PB_ATYPE_STATIC then static_default step it m
      else if atype f = PB_ATYPE_POINTER then pointer_default it m
      else Some m)"

definition pb_message_set_to_defaults ::
  "nat \<Rightarrow> ext_types \<Rightarrow> pb_ptr \<Rightarrow> addr \<Rightarrow> mem \<Rightarrow> mem option" where
  "pb_message_set_to_defaults n types ptr dest m =
     for_message (pb_field_set_to_default n types) ptr dest m"

section \<open>Releasing\<close>

definition release_message ::
  "(pb_field_iter_t \<Rightarrow> mem \<Rightarrow> mem option) \<Rightarrow> pb_ptr \<Rightarrow> addr \<Rightarrow> mem \<Rightarrow> mem option" where
  "release_message step ptr dest m = (if dest = NULL then Some m else for_message step ptr dest m)"

text \<open>\<^verbatim>\<open>while (count--)\<close> over the items of a submessage field.\<close>

primrec release_items ::
  "(addr \<Rightarrow> mem \<Rightarrow> mem option) \<Rightarrow> size_t \<Rightarrow> nat \<Rightarrow> addr \<Rightarrow> mem \<Rightarrow> mem option" where
  "release_items rel k 0 pItem m = Some m"
| "release_items rel k (Suc count) pItem m =
     do { m \<leftarrow> rel pItem m; release_items rel k count (pItem + k) m }"

text \<open>\<^verbatim>\<open>pb_free(*pItem); *pItem++ = NULL\<close> over an array of strings or bytes.\<close>

primrec free_items :: "nat \<Rightarrow> addr \<Rightarrow> mem \<Rightarrow> mem option" where
  "free_items 0 pItem m = Some m"
| "free_items (Suc count) pItem m =
     do {
       p \<leftarrow> load_ptr m pItem;
       m \<leftarrow> free m p;
       m \<leftarrow> store_ptr m pItem NULL;
       free_items count (pItem + 8) m
     }"

primrec release_extensions ::
  "ext_types \<Rightarrow> (pb_field_iter_t \<Rightarrow> mem \<Rightarrow> mem option) \<Rightarrow> nat \<Rightarrow> addr \<Rightarrow> mem \<Rightarrow> mem option" where
  "release_extensions types step 0 ext m = (if ext = NULL then Some m else None)"
| "release_extensions types step (Suc k) ext m =
     (if ext = NULL then Some m
      else do {
        it \<leftarrow> iter_from_extension types m ext;
        m \<leftarrow> step it m;
        nx \<leftarrow> load_ptr m (ext + of_nat (offsetof pb_extension_s [''next'']));
        release_extensions types step k nx m
      })"

definition release_submessages ::
  "(pb_field_iter_t \<Rightarrow> mem \<Rightarrow> mem option) \<Rightarrow> pb_field_iter_t \<Rightarrow> mem \<Rightarrow> mem option" where
  "release_submessages step it m =
     (let f = it_field it in do {
        pItem \<leftarrow> (if atype f = PB_ATYPE_POINTER then load_ptr m (it_pData it) else Some (it_pData it));
        count \<leftarrow> (if htype f = PB_HTYPE_REPEATED
                  then do {
                    count \<leftarrow> (if atype f = PB_ATYPE_STATIC \<and> no_size it then Some (pf_array_size f)
                              else load_size m (it_pSize it));
                    Some (if atype f = PB_ATYPE_STATIC \<and> count > pf_array_size f
                          then pf_array_size f else count)
                  }
                  else Some 1);
        if pItem \<noteq> NULL
        then release_items (release_message step (pf_ptr f)) (ucast (pf_data_size f)) (unat count) pItem m
        else Some m
      })"

definition release_pointer :: "pb_field_iter_t \<Rightarrow> mem \<Rightarrow> mem option" where
  "release_pointer it m =
     (let f = it_field it in do {
        m \<leftarrow> (if htype f = PB_HTYPE_REPEATED
                \<and> (ltype f = PB_LTYPE_STRING \<or> ltype f = PB_LTYPE_BYTES)
              then do {
                pItem \<leftarrow> load_ptr m (it_pData it);
                count \<leftarrow> load_size m (it_pSize it);
                free_items (unat count) pItem m
              }
              else Some m);
        m \<leftarrow> (if htype f = PB_HTYPE_REPEATED then store_size m (it_pSize it) 0 else Some m);
        p \<leftarrow> load_ptr m (it_pData it);
        m \<leftarrow> free m p;
        store_ptr m (it_pData it) NULL
      })"

primrec pb_release_single_field :: "nat \<Rightarrow> ext_types \<Rightarrow> pb_field_iter_t \<Rightarrow> mem \<Rightarrow> mem option" where
  "pb_release_single_field 0 types it m = None"
| "pb_release_single_field (Suc n) types it m =
     (let f = it_field it; step = pb_release_single_field n types in do {
        current \<leftarrow> (if htype f = PB_HTYPE_ONEOF
                    then map_option (\<lambda>which. which = pf_tag f) (load_size m (it_pSize it))
                    else Some True);
        if \<not> current then Some m
        else do {
          m \<leftarrow> (if ltype f = PB_LTYPE_EXTENSION
                then do { ext \<leftarrow> load_ptr m (it_pData it); release_extensions types step n ext m }
                else if ltype f = PB_LTYPE_SUBMESSAGE then release_submessages step it m
                else Some m);
          if atype f = PB_ATYPE_POINTER then release_pointer it m else Some m
        }
      })"

definition pb_release :: "nat \<Rightarrow> ext_types \<Rightarrow> pb_ptr \<Rightarrow> addr \<Rightarrow> mem \<Rightarrow> mem option" where
  "pb_release n types ptr dest m = release_message (pb_release_single_field n types) ptr dest m"

end
