(* ===== verification/PB_Decode.thy ===== *)
theory PB_Decode
  imports PB_Istream PB_Decode_Mem
begin

text \<open>
  \<^verbatim>\<open>src/MovieDBApp/Pods/nanopb/pb_decode.c\<close>: field decoders, allocation, fields, extensions
  and messages. The functions take the stream and memory and return both with the flag the
  C function returns.

  \<^verbatim>\<open>pb_decode_noinit\<close> calls itself through \<^verbatim>\<open>pb_dec_submessage\<close>; as in the encoder, the
  functions between take the decoders of submessages as an argument and
  \<open>pb_decode_noinit (Suc n)\<close> runs with those of depth \<open>n\<close>. The loops that read items until a
  stream is empty are bounded by the number of bytes in it, since every item takes at least
  one; the loop around a user callback is bounded by \<open>n\<close>.
\<close>

section \<open>Definitions\<close>

type_synonym 's dec_res = "(bool \<times> 's pb_istream_t \<times> mem) option"
type_synonym 's pb_decoder_t = "'s pb_istream_t \<Rightarrow> pb_field_t \<Rightarrow> addr \<Rightarrow> mem \<Rightarrow> 's dec_res"
type_synonym 's msg_decoder = "'s pb_istream_t \<Rightarrow> pb_field_t list \<Rightarrow> addr \<Rightarrow> mem \<Rightarrow> 's dec_res"

text \<open>
  Code of the program that uses nanopb: the functions behind the pointers in
  \<^verbatim>\<open>pb_callback_t\<close> and \<^verbatim>\<open>pb_extension_type_t\<close>, and the extension types.
\<close>

record 's pb_dec_env =
  de_callback :: "addr \<Rightarrow> 's pb_decoder_t"
  de_ext_type :: ext_types
  de_ext_decode :: "addr \<Rightarrow> 's pb_istream_t \<Rightarrow> addr \<Rightarrow> u32 \<Rightarrow> pb_wire_type_t \<Rightarrow> mem \<Rightarrow> 's dec_res"

text \<open>The decoders of submessages: with and without initialisation.\<close>

record 's sub_decoders =
  sd_decode :: "'s msg_decoder"
  sd_noinit :: "'s msg_decoder"

definition dec_error :: "'s pb_istream_t \<Rightarrow> string \<Rightarrow> mem \<Rightarrow> 's dec_res" where
  "dec_error s msg m = Some (False, set_errmsg s msg, m)"

definition pb_read_mem :: "'s pb_istream_t \<Rightarrow> addr \<Rightarrow> size_t \<Rightarrow> mem \<Rightarrow> 's dec_res" where
  "pb_read_mem s dest count m =
     do {
       (ok, bs, s) \<leftarrow> pb_read s (dest = NULL) count;
       m \<leftarrow> store_bytes m dest bs;
       Some (ok, s, m)
     }"

subsection \<open>Allocation\<close>

definition allocate_field ::
  "'s pb_istream_t \<Rightarrow> addr \<Rightarrow> size_t \<Rightarrow> size_t \<Rightarrow> mem \<Rightarrow> 's dec_res" where
  "allocate_field s pData data_size array_size m =
     do {
       ptr \<leftarrow> load_ptr m pData;
       if data_size = 0 \<or> array_size = 0 then dec_error s ''invalid size'' m
       else if (data_size \<ge> push_bit 32 1 \<or> array_size \<ge> push_bit 32 1)
               \<and> - 1 div array_size < data_size
       then dec_error s ''size too large'' m
       else do {
         (m, ptr) \<leftarrow> realloc m ptr (array_size * data_size);
         if ptr = NULL then dec_error s ''realloc failed'' m
         else do { m \<leftarrow> store_ptr m pData ptr; Some (True, s, m) }
       }
     }"

definition initialize_pointer_field ::
  "nat \<Rightarrow> ext_types \<Rightarrow> addr \<Rightarrow> pb_field_t \<Rightarrow> mem \<Rightarrow> mem option" where
  "initialize_pointer_field n types pItem f m =
     (if ltype f = PB_LTYPE_STRING \<or> ltype f = PB_LTYPE_BYTES then store_ptr m pItem NULL
      else if ltype f = PB_LTYPE_SUBMESSAGE then do {
        m \<leftarrow> memset m pItem 0 (unat (pf_data_size f));
        pb_message_set_to_defaults n types (pf_ptr f) pItem m
      }
      else Some m)"

subsection \<open>Field decoders\<close>

definition pb_dec_varint :: "'s pb_decoder_t" where
  "pb_dec_varint s field dest m =
     do {
       (r, s) \<leftarrow> pb_decode_varint s;
       case r of
         None \<Rightarrow> Some (False, s, m)
       | Some v \<Rightarrow>
           let k = pf_data_size field;
               svalue = (if k = 8 then v else scast (ucast v :: u32)) in
           if k = 8 then do { m \<leftarrow> store_u64 m dest svalue; Some (True, s, m) }
           else if k = 4 then do {
             m \<leftarrow> store_u32 m dest (ucast svalue);
             if scast (ucast svalue :: u32) \<noteq> svalue then dec_error s ''integer too large'' m
             else Some (True, s, m)
           }
           else if k = 2 then do {
             m \<leftarrow> store_u16 m dest (ucast svalue);
             if scast (ucast svalue :: u16) \<noteq> svalue then dec_error s ''integer too large'' m
             else Some (True, s, m)
           }
           else if k = 1 then do {
             m \<leftarrow> store_u8 m dest (ucast svalue);
             if scast (ucast svalue :: byte) \<noteq> svalue then dec_error s ''integer too large'' m
             else Some (True, s, m)
           }
           else dec_error s ''invalid data_size'' m
     }"

definition pb_dec_uvarint :: "'s pb_decoder_t" where
  "pb_dec_uvarint s field dest m =
     do {
       (r, s) \<leftarrow> pb_decode_varint s;
       case r of
         None \<Rightarrow> Some (False, s, m)
       | Some v \<Rightarrow>
           let k = pf_data_size field in
           if k = 8 then do { m \<leftarrow> store_u64 m dest v; Some (True, s, m) }
           else if k = 4 then do {
             m \<leftarrow> store_u32 m dest (ucast v);
             if ucast (ucast v :: u32) \<noteq> v then dec_error s ''integer too large'' m
             else Some (True, s, m)
           }
           else if k = 2 then do {
             m \<leftarrow> store_u16 m dest (ucast v);
             if ucast (ucast v :: u16) \<noteq> v then dec_error s ''integer too large'' m
             else Some (True, s, m)
           }
           else if k = 1 then do {
             m \<leftarrow> store_u8 m dest (ucast v);
             if ucast (ucast v :: byte) \<noteq> v then dec_error s ''integer too large'' m
             else Some (True, s, m)
           }
           else dec_error s ''invalid data_size'' m
     }"

definition pb_dec_svarint :: "'s pb_decoder_t" where
  "pb_dec_svarint s field dest m =
     do {
       (r, s) \<leftarrow> pb_decode_svarint s;
       case r of
         None \<Rightarrow> Some (False, s, m)
       | Some v \<Rightarrow>
           let k = pf_data_size field in
           if k = 8 then do { m \<leftarrow> store_u64 m dest v; Some (True, s, m) }
           else if k = 4 then do {
             m \<leftarrow> store_u32 m dest (ucast v);
             if scast (ucast v :: u32) \<noteq> v then dec_error s ''integer too large'' m
             else Some (True, s, m)
           }
           else if k = 2 then do {
             m \<leftarrow> store_u16 m dest (ucast v);
             if scast (ucast v :: u16) \<noteq> v then dec_error s ''integer too large'' m
             else Some (True, s, m)
           }
           else if k = 1 then do {
             m \<leftarrow> store_u8 m dest (ucast v);
             if scast (ucast v :: byte) \<noteq> v then dec_error s ''integer too large'' m
             else Some (True, s, m)
           }
           else dec_error s ''invalid data_size'' m
     }"

definition pb_decode_fixed32 :: "'s pb_istream_t \<Rightarrow> addr \<Rightarrow> mem \<Rightarrow> 's dec_res" where
  "pb_decode_fixed32 s dest m =
     do {
       (r, s) \<leftarrow> pb_read_local s 4;
       case r of
         None \<Rightarrow> Some (False, s, m)
       | Some bytes \<Rightarrow> do {
           m \<leftarrow> store_u32 m dest
             (push_bit 0 (ucast (bytes ! 0)) OR push_bit 8 (ucast (bytes ! 1))
              OR push_bit 16 (ucast (bytes ! 2)) OR push_bit 24 (ucast (bytes ! 3)));
           Some (True, s, m)
         }
     }"

definition pb_decode_fixed64 :: "'s pb_istream_t \<Rightarrow> addr \<Rightarrow> mem \<Rightarrow> 's dec_res" where
  "pb_decode_fixed64 s dest m =
     do {
       (r, s) \<leftarrow> pb_read_local s 8;
       case r of
         None \<Rightarrow> Some (False, s, m)
       | Some bytes \<Rightarrow> do {
           m \<leftarrow> store_u64 m dest
             (push_bit 0 (ucast (bytes ! 0)) OR push_bit 8 (ucast (bytes ! 1))
              OR push_bit 16 (ucast (bytes ! 2)) OR push_bit 24 (ucast (bytes ! 3))
              OR push_bit 32 (ucast (bytes ! 4)) OR push_bit 40 (ucast (bytes ! 5))
              OR push_bit 48 (ucast (bytes ! 6)) OR push_bit 56 (ucast (bytes ! 7)));
           Some (True, s, m)
         }
     }"

definition pb_dec_fixed32 :: "'s pb_decoder_t" where
  "pb_dec_fixed32 s field dest m = pb_decode_fixed32 s dest m"

definition pb_dec_fixed64 :: "'s pb_decoder_t" where
  "pb_dec_fixed64 s field dest m = pb_decode_fixed64 s dest m"

definition pb_dec_bytes :: "'s pb_decoder_t" where
  "pb_dec_bytes s field dest m =
     do {
       (r, s) \<leftarrow> pb_decode_varint32 s;
       case r of
         None \<Rightarrow> Some (False, s, m)
       | Some sz \<Rightarrow>
           if sz > PB_SIZE_MAX then dec_error s ''bytes overflow'' m
           else let alloc_size = PB_BYTES_ARRAY_T_ALLOCSIZE sz in
           if ucast sz > alloc_size then dec_error s ''size too large'' m
           else let into = (\<lambda>bdest s m. do {
                  m \<leftarrow> store_u32 m bdest sz;
                  pb_read_mem s (bdest + of_nat (offsetof pb_bytes_array_s [''bytes''])) (ucast sz) m
                }) in
           if atype field = PB_ATYPE_POINTER then do {
             (ok, s, m) \<leftarrow> allocate_field s dest alloc_size 1 m;
             if \<not> ok then Some (False, s, m)
             else do { bdest \<leftarrow> load_ptr m dest; into bdest s m }
           }
           else if alloc_size > ucast (pf_data_size field) then dec_error s ''bytes overflow'' m
           else into dest s m
     }"

text \<open>\<^verbatim>\<open>alloc_size = size + 1\<close> adds two 32-bit integers before it widens the sum.\<close>

definition pb_dec_string :: "'s pb_decoder_t" where
  "pb_dec_string s field dest m =
     do {
       (r, s) \<leftarrow> pb_decode_varint32 s;
       case r of
         None \<Rightarrow> Some (False, s, m)
       | Some sz \<Rightarrow>
           let alloc_size = ucast (sz + 1) :: size_t;
               into = (\<lambda>dest s m. do {
                  (status, s, m) \<leftarrow> pb_read_mem s dest (ucast sz) m;
                  m \<leftarrow> store_u8 m (dest + ucast sz) 0;
                  Some (status, s, m)
                }) in
           if alloc_size < ucast sz then dec_error s ''size too large'' m
           else if atype field = PB_ATYPE_POINTER then do {
             (ok, s, m) \<leftarrow> allocate_field s dest alloc_size 1 m;
             if \<not> ok then Some (False, s, m)
             else do { dest \<leftarrow> load_ptr m dest; into dest s m }
           }
           else if alloc_size > ucast (pf_data_size field) then dec_error s ''string overflow'' m
           else into dest s m
     }"

definition pb_dec_submessage :: "'s sub_decoders \<Rightarrow> 's pb_decoder_t" where
  "pb_dec_submessage sd s field dest m =
     do {
       (r, s) \<leftarrow> pb_make_string_substream s;
       case r of
         None \<Rightarrow> Some (False, s, m)
       | Some substream \<Rightarrow>
           (case pf_ptr field of
              PB_NULL \<Rightarrow> dec_error s ''invalid field descriptor'' m
            | PB_DEFAULT d \<Rightarrow> None
            | PB_FIELDS fs \<Rightarrow> do {
                (status, substream, m) \<leftarrow>
                  (if htype field = PB_HTYPE_REPEATED then sd_decode sd substream fs dest m
                   else sd_noinit sd substream fs dest m);
                (ok, s) \<leftarrow> pb_close_string_substream s substream;
                Some (if \<not> ok then False else status, s, m)
              })
     }"

definition pb_dec_fixed_length_bytes :: "'s pb_decoder_t" where
  "pb_dec_fixed_length_bytes s field dest m =
     do {
       (r, s) \<leftarrow> pb_decode_varint32 s;
       case r of
         None \<Rightarrow> Some (False, s, m)
       | Some sz \<Rightarrow>
           if sz > PB_SIZE_MAX then dec_error s ''bytes overflow'' m
           else if sz = 0 then do {
             m \<leftarrow> memset m dest 0 (unat (pf_data_size field));
             Some (True, s, m)
           }
           else if sz \<noteq> pf_data_size field then dec_error s ''incorrect fixed length bytes size'' m
           else pb_read_mem s dest (ucast (pf_data_size field)) m
     }"

definition PB_DECODERS :: "'s sub_decoders \<Rightarrow> pb_type_t \<Rightarrow> 's pb_decoder_t" where
  "PB_DECODERS sd lt =
     (if lt = PB_LTYPE_VARINT then pb_dec_varint
      else if lt = PB_LTYPE_UVARINT then pb_dec_uvarint
      else if lt = PB_LTYPE_SVARINT then pb_dec_svarint
      else if lt = PB_LTYPE_FIXED32 then pb_dec_fixed32
      else if lt = PB_LTYPE_FIXED64 then pb_dec_fixed64
      else if lt = PB_LTYPE_BYTES then pb_dec_bytes
      else if lt = PB_LTYPE_STRING then pb_dec_string
      else if lt = PB_LTYPE_SUBMESSAGE then pb_dec_submessage sd
      else if lt = PB_LTYPE_FIXED_LENGTH_BYTES then pb_dec_fixed_length_bytes
      else (\<lambda>s field dest m. None))"

subsection \<open>Static fields\<close>

text \<open>\<^verbatim>\<open>iter->pos->data_size * (*size)\<close> is a product of 32-bit integers.\<close>

definition item_addr :: "addr \<Rightarrow> pb_field_t \<Rightarrow> u32 \<Rightarrow> addr" where
  "item_addr base f i = base + ucast (pf_data_size f * i)"

text \<open>
  The loop over a packed array, \<open>k\<close> the number of bytes in the substream; the result is
  \<^verbatim>\<open>status\<close> with the substream.
\<close>

primrec static_packed_loop :: "'s pb_decoder_t \<Rightarrow> pb_field_iter_t \<Rightarrow> nat \<Rightarrow> 's pb_istream_t \<Rightarrow> mem \<Rightarrow> 's dec_res" where
  "static_packed_loop func it 0 sub m = (if is_bytes_left sub > 0 then None else Some (True, sub, m))"
| "static_packed_loop func it (Suc k) sub m =
     (let f = it_field it in
      if \<not> is_bytes_left sub > 0 then Some (True, sub, m)
      else do {
        i \<leftarrow> load_size m (it_pSize it);
        if i < pf_array_size f
        then do {
          (ok, sub, m) \<leftarrow> func sub f (item_addr (it_pData it) f i) m;
          if \<not> ok then Some (False, sub, m)
          else do {
            i \<leftarrow> load_size m (it_pSize it);
            m \<leftarrow> store_size m (it_pSize it) (i + 1);
            static_packed_loop func it k sub m
          }
        }
        else Some (True, sub, m)
      })"

definition static_packed :: "'s pb_decoder_t \<Rightarrow> pb_field_iter_t \<Rightarrow> 's pb_istream_t \<Rightarrow> mem \<Rightarrow> 's dec_res" where
  "static_packed func it s m =
     do {
       (r, s) \<leftarrow> pb_make_string_substream s;
       case r of
         None \<Rightarrow> Some (False, s, m)
       | Some sub \<Rightarrow> do {
           (status, sub, m) \<leftarrow> static_packed_loop func it (unat (is_bytes_left sub)) sub m;
           if is_bytes_left sub \<noteq> 0 then dec_error s ''array overflow'' m
           else do {
             (ok, s) \<leftarrow> pb_close_string_substream s sub;
             Some (if \<not> ok then False else status, s, m)
           }
         }
     }"

definition decode_static_field ::
  "nat \<Rightarrow> 's pb_dec_env \<Rightarrow> 's sub_decoders \<Rightarrow> 's pb_istream_t \<Rightarrow> pb_wire_type_t \<Rightarrow> pb_field_iter_t \<Rightarrow> mem \<Rightarrow> 's dec_res" where
  "decode_static_field n env sd s wire_type it m =
     (let f = it_field it; func = PB_DECODERS sd (ltype f) in
      if htype f = PB_HTYPE_REQUIRED then func s f (it_pData it) m
      else if htype f = PB_HTYPE_OPTIONAL then do {
        m \<leftarrow> (if \<not> no_size it then store_has m (it_pSize it) True else Some m);
        func s f (it_pData it) m
      }
      else if htype f = PB_HTYPE_REPEATED then
        if wire_type = PB_WT_STRING \<and> ltype f \<le> PB_LTYPE_LAST_PACKABLE
        then static_packed func it s m
        else do {
          i \<leftarrow> load_size m (it_pSize it);
          m \<leftarrow> store_size m (it_pSize it) (i + 1);
          if i \<ge> pf_array_size f then dec_error s ''array overflow'' m
          else func s f (item_addr (it_pData it) f i) m
        }
      else do {
        m \<leftarrow> store_size m (it_pSize it) (pf_tag f);
        m \<leftarrow> (if ltype f = PB_LTYPE_SUBMESSAGE then do {
                m \<leftarrow> memset m (it_pData it) 0 (unat (pf_data_size f));
                pb_message_set_to_defaults n (de_ext_type env) (pf_ptr f) (it_pData it) m
              }
              else Some m);
        func s f (it_pData it) m
      })"

subsection \<open>Pointer fields\<close>

text \<open>
  The loop over a packed array: \<open>msg\<close> is the message it leaves in the stream (not in the
  substream) when there are too many entries.
\<close>

primrec pointer_packed_loop :: "nat \<Rightarrow> ext_types \<Rightarrow> 's pb_decoder_t \<Rightarrow> pb_field_iter_t \<Rightarrow> nat \<Rightarrow> size_t \<Rightarrow>
    's pb_istream_t \<Rightarrow> mem \<Rightarrow> (bool \<times> string option \<times> 's pb_istream_t \<times> mem) option" where
  "pointer_packed_loop n types func it 0 allocated sub m =
     (if is_bytes_left sub > 0 then None else Some (True, None, sub, m))"
| "pointer_packed_loop n types func it (Suc k) allocated sub m =
     (let f = it_field it in
      if is_bytes_left sub = 0 then Some (True, None, sub, m)
      else do {
        i \<leftarrow> load_size m (it_pSize it);
        (ok, allocated, sub, m) \<leftarrow>
          (if ucast i + 1 > allocated
           then if pf_data_size f = 0 then None
           else do {
             let allocated = allocated + ((is_bytes_left sub - 1) div ucast (pf_data_size f) + 1);
             (ok, sub, m) \<leftarrow> allocate_field sub (it_pData it) (ucast (pf_data_size f)) allocated m;
             Some (ok, allocated, sub, m)
           }
           else Some (True, allocated, sub, m));
        if \<not> ok then Some (False, None, sub, m)
        else do {
          base \<leftarrow> load_ptr m (it_pData it);
          i \<leftarrow> load_size m (it_pSize it);
          m \<leftarrow> initialize_pointer_field n types (item_addr base f i) f m;
          (ok, sub, m) \<leftarrow> func sub f (item_addr base f i) m;
          if \<not> ok then Some (False, None, sub, m)
          else do {
            i \<leftarrow> load_size m (it_pSize it);
            if i = PB_SIZE_MAX then Some (False, Some ''too many array entries'', sub, m)
            else do {
              m \<leftarrow> store_size m (it_pSize it) (i + 1);
              pointer_packed_loop n types func it k allocated sub m
            }
          }
        }
      })"

definition pointer_packed ::
  "nat \<Rightarrow> ext_types \<Rightarrow> 's pb_decoder_t \<Rightarrow> pb_field_iter_t \<Rightarrow> 's pb_istream_t \<Rightarrow> mem \<Rightarrow> 's dec_res" where
  "pointer_packed n types func it s m =
     do {
       allocated \<leftarrow> load_size m (it_pSize it);
       (r, s) \<leftarrow> pb_make_string_substream s;
       case r of
         None \<Rightarrow> Some (False, s, m)
       | Some sub \<Rightarrow> do {
           (status, msg, sub, m) \<leftarrow> pointer_packed_loop n types func it (unat (is_bytes_left sub))
                                     (ucast allocated) sub m;
           let s = (case msg of None \<Rightarrow> s | Some e \<Rightarrow> s\<lparr>is_errmsg := Some e\<rparr>);
           (ok, s) \<leftarrow> pb_close_string_substream s sub;
           Some (if \<not> ok then False else status, s, m)
         }
     }"

definition pointer_repeated ::
  "nat \<Rightarrow> ext_types \<Rightarrow> 's pb_decoder_t \<Rightarrow> pb_field_iter_t \<Rightarrow> 's pb_istream_t \<Rightarrow> mem \<Rightarrow> 's dec_res" where
  "pointer_repeated n types func it s m =
     (let f = it_field it in do {
        i \<leftarrow> load_size m (it_pSize it);
        if i = PB_SIZE_MAX then dec_error s ''too many array entries'' m
        else do {
          m \<leftarrow> store_size m (it_pSize it) (i + 1);
          i \<leftarrow> load_size m (it_pSize it);
          (ok, s, m) \<leftarrow> allocate_field s (it_pData it) (ucast (pf_data_size f)) (ucast i) m;
          if \<not> ok then Some (False, s, m)
          else do {
            base \<leftarrow> load_ptr m (it_pData it);
            i \<leftarrow> load_size m (it_pSize it);
            let pItem = item_addr base f (i - 1);
            m \<leftarrow> initialize_pointer_field n types pItem f m;
            func s f pItem m
          }
        }
      })"

definition pointer_single ::
  "nat \<Rightarrow> ext_types \<Rightarrow> 's pb_decoder_t \<Rightarrow> pb_field_iter_t \<Rightarrow> 's pb_istream_t \<Rightarrow> mem \<Rightarrow> 's dec_res" where
  "pointer_single n types func it s m =
     (let f = it_field it in do {
        old \<leftarrow> (if ltype f = PB_LTYPE_SUBMESSAGE then load_ptr m (it_pData it) else Some NULL);
        m \<leftarrow> (if old \<noteq> NULL then pb_release_single_field n types it m else Some m);
        m \<leftarrow> (if htype f = PB_HTYPE_ONEOF then store_size m (it_pSize it) (pf_tag f) else Some m);
        if ltype f = PB_LTYPE_STRING \<or> ltype f = PB_LTYPE_BYTES then func s f (it_pData it) m
        else do {
          (ok, s, m) \<leftarrow> allocate_field s (it_pData it) (ucast (pf_data_size f)) 1 m;
          if \<not> ok then Some (False, s, m)
          else do {
            p \<leftarrow> load_ptr m (it_pData it);
            m \<leftarrow> initialize_pointer_field n types p f m;
            p \<leftarrow> load_ptr m (it_pData it);
            func s f p m
          }
        }
      })"

definition decode_pointer_field ::
  "nat \<Rightarrow> 's pb_dec_env \<Rightarrow> 's sub_decoders \<Rightarrow> 's pb_istream_t \<Rightarrow> pb_wire_type_t \<Rightarrow> pb_field_iter_t \<Rightarrow> mem \<Rightarrow> 's dec_res" where
  "decode_pointer_field n env sd s wire_type it m =
     (let f = it_field it; func = PB_DECODERS sd (ltype f); types = de_ext_type env in
      if htype f = PB_HTYPE_REPEATED then
        if wire_type = PB_WT_STRING \<and> ltype f \<le> PB_LTYPE_LAST_PACKABLE
        then pointer_packed n types func it s m
        else pointer_repeated n types func it s m
      else pointer_single n types func it s m)"

subsection \<open>Callback fields\<close>

text \<open>\<^verbatim>\<open>do ... while (substream.bytes_left)\<close>, at most \<open>k\<close> calls.\<close>

primrec callback_loop :: "('s pb_istream_t \<Rightarrow> mem \<Rightarrow> 's dec_res) \<Rightarrow> nat \<Rightarrow> 's pb_istream_t \<Rightarrow> mem \<Rightarrow> 's dec_res" where
  "callback_loop cb 0 sub m = None"
| "callback_loop cb (Suc k) sub m =
     do {
       (ok, sub, m) \<leftarrow> cb sub m;
       if \<not> ok then Some (False, sub, m)
       else if is_bytes_left sub \<noteq> 0 then callback_loop cb k sub m
       else Some (True, sub, m)
     }"

definition decode_callback_field ::
  "nat \<Rightarrow> 's pb_dec_env \<Rightarrow> 's pb_istream_t \<Rightarrow> pb_wire_type_t \<Rightarrow> pb_field_iter_t \<Rightarrow> mem \<Rightarrow> 's dec_res" where
  "decode_callback_field n env s wire_type it m =
     (let pCallback = it_pData it; f = it_field it in do {
        fn \<leftarrow> (if pCallback = NULL then Some NULL
               else load_ptr m (pCallback + of_nat (offsetof pb_callback_s [''funcs''])));
        let arg = pCallback + of_nat (offsetof pb_callback_s [''arg'']);
        if fn = NULL
        then map_option (\<lambda>(ok, s). (ok, s, m)) (pb_skip_field s wire_type)
        else if wire_type = PB_WT_STRING then do {
          (r, s) \<leftarrow> pb_make_string_substream s;
          case r of
            None \<Rightarrow> Some (False, s, m)
          | Some sub \<Rightarrow> do {
              (ok, sub, m) \<leftarrow> callback_loop (\<lambda>sub m. de_callback env fn sub f arg m) n sub m;
              if \<not> ok then dec_error s ''callback failed'' m
              else map_option (\<lambda>(ok, s). (ok, s, m)) (pb_close_string_substream s sub)
            }
        }
        else do {
          (r, s) \<leftarrow> read_raw_value s wire_type 10;
          case r of
            None \<Rightarrow> Some (False, s, m)
          | Some bs \<Rightarrow> do {
              (ok, sub, m) \<leftarrow> de_callback env fn
                 (pb_istream_from_buffer bs (of_nat (length bs))) f arg m;
              Some (ok, s, m)
            }
        }
      })"

subsection \<open>Any field\<close>

text \<open>The iterator is moved to the old member of the union and back; it is returned.\<close>

definition pb_release_union_field ::
  "nat \<Rightarrow> ext_types \<Rightarrow> 's pb_istream_t \<Rightarrow> pb_field_iter_t \<Rightarrow> mem \<Rightarrow>
   (bool \<times> 's pb_istream_t \<times> pb_field_iter_t \<times> mem) option" where
  "pb_release_union_field n types s it m =
     do {
       old_tag \<leftarrow> load_size m (it_pSize it);
       let new_tag = pf_tag (it_field it);
       if old_tag = 0 then Some (True, s, it, m)
       else if old_tag = new_tag then Some (True, s, it, m)
       else do {
         (found, it) \<leftarrow> pb_field_iter_find it old_tag;
         if \<not> found then Some (False, set_errmsg s ''invalid union tag'', it, m)
         else do {
           m \<leftarrow> pb_release_single_field n types it m;
           (found, it) \<leftarrow> pb_field_iter_find it new_tag;
           if \<not> found then Some (False, set_errmsg s ''iterator error'', it, m)
           else Some (True, s, it, m)
         }
       }
     }"

definition decode_field ::
  "nat \<Rightarrow> 's pb_dec_env \<Rightarrow> 's sub_decoders \<Rightarrow> 's pb_istream_t \<Rightarrow> pb_wire_type_t \<Rightarrow> pb_field_iter_t \<Rightarrow> mem \<Rightarrow>
   (bool \<times> 's pb_istream_t \<times> pb_field_iter_t \<times> mem) option" where
  "decode_field n env sd s wire_type it m =
     do {
       (ok, s, it, m) \<leftarrow> (if htype (it_field it) = PB_HTYPE_ONEOF
                         then pb_release_union_field n (de_ext_type env) s it m
                         else Some (True, s, it, m));
       if \<not> ok then Some (False, s, it, m)
       else let at = atype (it_field it) in do {
         (ok, s, m) \<leftarrow> (if at = PB_ATYPE_STATIC then decode_static_field n env sd s wire_type it m
                       else if at = PB_ATYPE_POINTER then decode_pointer_field n env sd s wire_type it m
                       else if at = PB_ATYPE_CALLBACK then decode_callback_field n env s wire_type it m
                       else dec_error s ''invalid field type'' m);
         Some (ok, s, it, m)
       }
     }"

subsection \<open>Extensions\<close>

definition default_extension_decoder ::
  "nat \<Rightarrow> 's pb_dec_env \<Rightarrow> 's sub_decoders \<Rightarrow> 's pb_istream_t \<Rightarrow> addr \<Rightarrow> u32 \<Rightarrow> pb_wire_type_t \<Rightarrow> mem \<Rightarrow> 's dec_res" where
  "default_extension_decoder n env sd s extension tag wire_type m =
     do {
       xt \<leftarrow> extension_type (de_ext_type env) m extension;
       if pf_tag (xt_arg xt) \<noteq> tag then Some (True, s, m)
       else do {
         it \<leftarrow> iter_from_extension (de_ext_type env) m extension;
         m \<leftarrow> store_bool m (extension + of_nat (offsetof pb_extension_s [''found''])) True;
         (ok, s, it, m) \<leftarrow> decode_field n env sd s wire_type it m;
         Some (ok, s, m)
       }
     }"

text \<open>\<^verbatim>\<open>while (extension != NULL && pos == stream->bytes_left)\<close>, at most \<open>k\<close> extensions.\<close>

primrec decode_extension_loop ::
  "nat \<Rightarrow> 's pb_dec_env \<Rightarrow> 's sub_decoders \<Rightarrow> u32 \<Rightarrow> pb_wire_type_t \<Rightarrow> size_t \<Rightarrow> nat \<Rightarrow> addr \<Rightarrow>
   's pb_istream_t \<Rightarrow> mem \<Rightarrow> 's dec_res" where
  "decode_extension_loop n env sd tag wire_type pos 0 extension s m =
     (if extension \<noteq> NULL \<and> pos = is_bytes_left s then None else Some (True, s, m))"
| "decode_extension_loop n env sd tag wire_type pos (Suc k) extension s m =
     (if extension \<noteq> NULL \<and> pos = is_bytes_left s
      then do {
        xt \<leftarrow> extension_type (de_ext_type env) m extension;
        (status, s, m) \<leftarrow>
          (if xt_decode xt \<noteq> NULL then de_ext_decode env (xt_decode xt) s extension tag wire_type m
           else default_extension_decoder n env sd s extension tag wire_type m);
        if \<not> status then Some (False, s, m)
        else do {
          nx \<leftarrow> load_ptr m (extension + of_nat (offsetof pb_extension_s [''next'']));
          decode_extension_loop n env sd tag wire_type pos k nx s m
        }
      }
      else Some (True, s, m))"

definition decode_extension ::
  "nat \<Rightarrow> 's pb_dec_env \<Rightarrow> 's sub_decoders \<Rightarrow> 's pb_istream_t \<Rightarrow> u32 \<Rightarrow> pb_wire_type_t \<Rightarrow> pb_field_iter_t \<Rightarrow> mem \<Rightarrow> 's dec_res" where
  "decode_extension n env sd s tag wire_type it m =
     do {
       extension \<leftarrow> load_ptr m (it_pData it);
       decode_extension_loop n env sd tag wire_type (is_bytes_left s) n extension s m
     }"

text \<open>\<^verbatim>\<open>do ... while (iter->pos != start)\<close>; \<^const>\<open>None\<close> if the loop never ends.\<close>

partial_function (option) find_extension_loop ::
  "nat \<Rightarrow> pb_field_iter_t \<Rightarrow> (bool \<times> pb_field_iter_t) option" where
  "find_extension_loop start it =
     (if ltype (it_field it) = PB_LTYPE_EXTENSION then Some (True, it)
      else let it' = snd (pb_field_iter_next it)
           in if it_pos it' \<noteq> start then find_extension_loop start it' else Some (False, it'))"

declare find_extension_loop.simps [code]

definition find_extension_field :: "pb_field_iter_t \<Rightarrow> (bool \<times> pb_field_iter_t) option" where
  "find_extension_field it = find_extension_loop (it_pos it) it"

subsection \<open>Messages\<close>

text \<open>
  The local variables of \<^verbatim>\<open>pb_decode_noinit\<close>: the iterator, the position of
  \<^verbatim>\<open>fixed_count_field\<close> if it is not NULL, \<^verbatim>\<open>fields_seen\<close> and \<^verbatim>\<open>extension_range_start\<close>.
  \<^verbatim>\<open>fixed_count_size\<close>, whose address is taken, is the top of \<open>mem_locals\<close>.
\<close>

record noinit_vars =
  nv_iter :: pb_field_iter_t
  nv_fixed_count_field :: "nat option"
  nv_fields_seen :: "u32 list"
  nv_extension_range_start :: u32

text \<open>How one round of the loop ends.\<close>

datatype round_end = Continue | Break | Return_false

type_synonym 's round_res = "(round_end \<times> 's pb_istream_t \<times> noinit_vars \<times> mem) option"

text \<open>A tag that no field has: an extension or a field to skip.\<close>

definition decode_unknown ::
  "nat \<Rightarrow> 's pb_dec_env \<Rightarrow> 's sub_decoders \<Rightarrow> 's pb_istream_t \<Rightarrow> u32 \<Rightarrow> pb_wire_type_t \<Rightarrow> noinit_vars \<Rightarrow> mem \<Rightarrow> 's round_res" where
  "decode_unknown n env sd s tag wire_type nv m =
     (let skip = (\<lambda>nv s m. do {
            (ok, s) \<leftarrow> pb_skip_field s wire_type;
            Some (if ok then Continue else Return_false, s, nv, m)
          }) in
      if tag \<ge> nv_extension_range_start nv then do {
        (found, it) \<leftarrow> find_extension_field (nv_iter nv);
        let nv = nv\<lparr>nv_iter := it,
                    nv_extension_range_start := (if found then pf_tag (it_field it) else - 1)\<rparr>;
        if tag \<ge> nv_extension_range_start nv then do {
          let pos = is_bytes_left s;
          (ok, s, m) \<leftarrow> decode_extension n env sd s tag wire_type it m;
          if \<not> ok then Some (Return_false, s, nv, m)
          else if pos \<noteq> is_bytes_left s then Some (Continue, s, nv, m)
          else skip nv s m
        }
        else skip nv s m
      }
      else skip nv s m)"

definition fixed_count_of :: "noinit_vars \<Rightarrow> pb_size_t option" where
  "fixed_count_of nv =
     map_option (\<lambda>i. pf_array_size (field_at (it_start (nv_iter nv)) i)) (nv_fixed_count_field nv)"

definition fixed_count_unfinished :: "noinit_vars \<Rightarrow> mem \<Rightarrow> bool option" where
  "fixed_count_unfinished nv m =
     (case fixed_count_of nv of
        None \<Rightarrow> Some False
      | Some n \<Rightarrow> map_option (\<lambda>c. c \<noteq> n) (load_size m LocalCount))"

text \<open>A tag of the field at the iterator.\<close>

definition track_fixed_count ::
  "'s pb_istream_t \<Rightarrow> noinit_vars \<Rightarrow> mem \<Rightarrow> 's round_res" where
  "track_fixed_count s nv m =
     (let it = nv_iter nv in
      if htype (it_field it) = PB_HTYPE_REPEATED \<and> no_size it then
        let nv' = nv\<lparr>nv_iter := it\<lparr>it_pSize := LocalCount\<rparr>\<rparr> in
        if nv_fixed_count_field nv \<noteq> Some (it_pos it) then do {
          bad \<leftarrow> fixed_count_unfinished nv m;
          if bad then Some (Return_false, set_errmsg s ''wrong size for fixed count field'', nv, m)
          else do {
            m \<leftarrow> store_size m LocalCount 0;
            Some (Continue, s, nv'\<lparr>nv_fixed_count_field := Some (it_pos it)\<rparr>, m)
          }
        }
        else Some (Continue, s, nv', m)
      else Some (Continue, s, nv, m))"

definition mark_seen :: "noinit_vars \<Rightarrow> noinit_vars" where
  "mark_seen nv =
     (let it = nv_iter nv; i = it_required_field_index it; seen = nv_fields_seen nv in
      if htype (it_field it) = PB_HTYPE_REQUIRED \<and> i < of_nat PB_MAX_REQUIRED_FIELDS
      then nv\<lparr>nv_fields_seen :=
             seen[unat (drop_bit 5 i) := seen ! unat (drop_bit 5 i) OR push_bit (unat (i AND 31)) 1]\<rparr>
      else nv)"

definition decode_known ::
  "nat \<Rightarrow> 's pb_dec_env \<Rightarrow> 's sub_decoders \<Rightarrow> 's pb_istream_t \<Rightarrow> pb_wire_type_t \<Rightarrow> noinit_vars \<Rightarrow> mem \<Rightarrow> 's round_res" where
  "decode_known n env sd s wire_type nv m =
     do {
       (e, s, nv, m) \<leftarrow> track_fixed_count s nv m;
       if e = Return_false then Some (Return_false, s, nv, m)
       else let nv = mark_seen nv in do {
         (ok, s, it, m) \<leftarrow> decode_field n env sd s wire_type (nv_iter nv) m;
         Some (if ok then Continue else Return_false, s, nv\<lparr>nv_iter := it\<rparr>, m)
       }
     }"

definition decode_round ::
  "nat \<Rightarrow> 's pb_dec_env \<Rightarrow> 's sub_decoders \<Rightarrow> 's pb_istream_t \<Rightarrow> noinit_vars \<Rightarrow> mem \<Rightarrow> 's round_res" where
  "decode_round n env sd s nv m =
     do {
       (ok, wire_type, tag, eof, s) \<leftarrow> pb_decode_tag s;
       if \<not> ok then Some (if eof then Break else Return_false, s, nv, m)
       else do {
         (found, it) \<leftarrow> pb_field_iter_find (nv_iter nv) tag;
         let nv = nv\<lparr>nv_iter := it\<rparr>;
         if \<not> found then decode_unknown n env sd s tag wire_type nv m
         else decode_known n env sd s wire_type nv m
       }
     }"

text \<open>\<^verbatim>\<open>while (stream->bytes_left)\<close>, for at most \<open>k\<close> rounds.\<close>

primrec decode_rounds ::
  "nat \<Rightarrow> 's pb_dec_env \<Rightarrow> 's sub_decoders \<Rightarrow> nat \<Rightarrow> 's pb_istream_t \<Rightarrow> noinit_vars \<Rightarrow> mem \<Rightarrow> 's round_res" where
  "decode_rounds n env sd 0 s nv m =
     (if is_bytes_left s = 0 then Some (Break, s, nv, m) else None)"
| "decode_rounds n env sd (Suc k) s nv m =
     (if is_bytes_left s = 0 then Some (Break, s, nv, m)
      else do {
        (e, s, nv, m) \<leftarrow> decode_round n env sd s nv m;
        if e = Continue then decode_rounds n env sd k s nv m else Some (e, s, nv, m)
      })"

text \<open>The number of required fields, counted by walking to the end of the descriptors.\<close>

function req_field_loop :: "pb_field_iter_t \<Rightarrow> u32 \<times> pb_type_t \<times> pb_field_iter_t" where
  "req_field_loop it =
     (let nx = pb_field_iter_next it in
      if fst nx then req_field_loop (snd nx)
      else (it_required_field_index it, pf_type (it_field it), snd nx))"
  by pat_completeness auto
termination
proof (relation "measure (\<lambda>it. length (it_start it) - it_pos it)", goal_cases)
  case 1
  show ?case by simp
next
  case (2 it)
  then show ?case
    using next_True_pos [of it "snd (pb_field_iter_next it)"] by (auto simp: prod_eq_iff)
qed

declare req_field_loop.simps [simp del]

definition req_field_count :: "pb_field_iter_t \<Rightarrow> u32" where
  "req_field_count it =
     (let (c, last_type, it') = req_field_loop it;
          c = (if PB_HTYPE last_type = PB_HTYPE_REQUIRED \<and> pf_tag (it_field it') \<noteq> 0 then c + 1 else c)
      in if c > of_nat PB_MAX_REQUIRED_FIELDS then of_nat PB_MAX_REQUIRED_FIELDS else c)"

text \<open>
  The comparison of \<^verbatim>\<open>fields_seen\<close> with the bits of the \<open>c\<close> required fields: the whole words
  first, then the remaining bits.
\<close>

definition required_seen :: "u32 list \<Rightarrow> u32 \<Rightarrow> bool" where
  "required_seen seen c \<longleftrightarrow>
     (\<forall>i < unat (drop_bit 5 c). seen ! i = - 1)
     \<and> (c AND 31 \<noteq> 0 \<longrightarrow>
          seen ! unat (drop_bit 5 c) = drop_bit (unat (32 - (c AND 31))) (- 1))"

definition noinit_body ::
  "nat \<Rightarrow> 's pb_dec_env \<Rightarrow> 's sub_decoders \<Rightarrow> 's msg_decoder" where
  "noinit_body n env sd s fs dest_struct m =
     (let nv = \<lparr>nv_iter = snd (pb_field_iter_begin fs dest_struct), nv_fixed_count_field = None,
                nv_fields_seen = [0, 0], nv_extension_range_start = 0\<rparr> in do {
        (e, s, nv, m) \<leftarrow> decode_rounds n env sd (unat (is_bytes_left s)) s nv
                           (m\<lparr>mem_locals := 0 # mem_locals m\<rparr>);
        if e = Return_false then Some (False, s, m)
        else do {
          bad \<leftarrow> fixed_count_unfinished nv m;
          if bad then dec_error s ''wrong size for fixed count field'' m
          else let c = req_field_count (nv_iter nv) in
          if c > 0 \<and> \<not> required_seen (nv_fields_seen nv) c
          then dec_error s ''missing required field'' m
          else Some (True, s, m)
        }
      })"

text \<open>The local counter ceases to exist when the function returns.\<close>

definition drop_local :: "'s dec_res \<Rightarrow> 's dec_res" where
  "drop_local r = map_option (\<lambda>(ok, s, m). (ok, s, m\<lparr>mem_locals := tl (mem_locals m)\<rparr>)) r"

text \<open>\<^verbatim>\<open>pb_decode\<close> over a decoder for \<^verbatim>\<open>pb_decode_noinit\<close>.\<close>

definition decode_with :: "nat \<Rightarrow> 's pb_dec_env \<Rightarrow> 's msg_decoder \<Rightarrow> 's msg_decoder" where
  "decode_with n env noinit s fs dest_struct m =
     do {
       m \<leftarrow> pb_message_set_to_defaults n (de_ext_type env) (PB_FIELDS fs) dest_struct m;
       (status, s, m) \<leftarrow> noinit s fs dest_struct m;
       m \<leftarrow> (if \<not> status then pb_release n (de_ext_type env) (PB_FIELDS fs) dest_struct m else Some m);
       Some (status, s, m)
     }"

primrec pb_decode_noinit :: "nat \<Rightarrow> 's pb_dec_env \<Rightarrow> 's msg_decoder" where
  "pb_decode_noinit 0 env s fs dest_struct m = None"
| "pb_decode_noinit (Suc n) env s fs dest_struct m =
     drop_local (noinit_body n env
       \<lparr>sd_decode = decode_with n env (pb_decode_noinit n env), sd_noinit = pb_decode_noinit n env\<rparr>
       s fs dest_struct m)"

definition pb_decode :: "nat \<Rightarrow> 's pb_dec_env \<Rightarrow> 's msg_decoder" where
  "pb_decode n env = decode_with n env (pb_decode_noinit n env)"

definition delimited :: "'s msg_decoder \<Rightarrow> 's msg_decoder" where
  "delimited dec s fs dest_struct m =
     do {
       (r, s) \<leftarrow> pb_make_string_substream s;
       case r of
         None \<Rightarrow> Some (False, s, m)
       | Some sub \<Rightarrow> do {
           (status, sub, m) \<leftarrow> dec sub fs dest_struct m;
           (ok, s) \<leftarrow> pb_close_string_substream s sub;
           Some (if \<not> ok then False else status, s, m)
         }
     }"

definition pb_decode_delimited_noinit :: "nat \<Rightarrow> 's pb_dec_env \<Rightarrow> 's msg_decoder" where
  "pb_decode_delimited_noinit n env = delimited (pb_decode_noinit n env)"

definition pb_decode_delimited :: "nat \<Rightarrow> 's pb_dec_env \<Rightarrow> 's msg_decoder" where
  "pb_decode_delimited n env = delimited (pb_decode n env)"

definition pb_decode_nullterminated :: "nat \<Rightarrow> 's pb_dec_env \<Rightarrow> 's msg_decoder" where
  "pb_decode_nullterminated n env = pb_decode n env"

end
