(* ===== verification/Mem_Frame.thy ===== *)
theory Mem_Frame
  imports Memory
begin

text \<open>
  What a step may change: \<open>frame a S m m'\<close> says that \<open>m'\<close> differs from \<open>m\<close> only in the
  content of the \<open>S\<close> bytes at \<open>a\<close>; no object appears or disappears. Stores within a valid
  region succeed and stay in this frame.
\<close>

lemma unat_u32_lt_64 [simp]: "unat (w :: u32) < 18446744073709551616"
  by (rule less_trans [OF unat_lt_32]) simp

definition frame :: "addr \<Rightarrow> nat \<Rightarrow> mem \<Rightarrow> mem \<Rightarrow> bool" where
  "frame a S m m' \<longleftrightarrow>
     mem_blocks m' = mem_blocks m \<and> mem_brk m' = mem_brk m \<and> mem_limit m' = mem_limit m
     \<and> mem_junk m' = mem_junk m \<and> mem_locals m' = mem_locals m
     \<and> (\<forall>x. (mem_data m' x = None) = (mem_data m x = None))
     \<and> (\<forall>x. \<not> in_range x a S \<longrightarrow> mem_data m' x = mem_data m x)"

lemma frame_refl [simp]: "frame a S m m"
  by (simp add: frame_def)

lemma frame_trans: "frame a S m m' \<Longrightarrow> frame a S m' m'' \<Longrightarrow> frame a S m m''"
  by (auto simp: frame_def)

lemma frame_valid: "frame a S m m' \<Longrightarrow> valid m' p n = valid m p n"
  by (simp add: frame_def valid_def)

lemma frame_locals: "frame a S m m' \<Longrightarrow> mem_locals m' = mem_locals m"
  by (auto simp: frame_def)

lemma frame_push: "frame a S (m\<lparr>mem_locals := ls\<rparr>) m' \<Longrightarrow> frame a S m (m'\<lparr>mem_locals := mem_locals m\<rparr>)"
  by (simp add: frame_def)

text \<open>The region of a member lies in the region of its structure.\<close>

definition part :: "addr \<Rightarrow> nat \<Rightarrow> addr \<Rightarrow> nat \<Rightarrow> bool" where
  "part a S p n \<longleftrightarrow> unat (p - a) + n \<le> S \<and> S < 18446744073709551616"

lemma part_refl: "S < 18446744073709551616 \<Longrightarrow> part a S a S"
  by (simp add: part_def)

lemma part_in_range:
  assumes "part a S p n" and "in_range x p n"
  shows "in_range x a S"
proof -
  have "x - a = (x - p) + (p - a)" by simp
  moreover have "unat (x - p) + unat (p - a) < 18446744073709551616"
    using assms by (auto simp: part_def in_range_def)
  ultimately have "unat (x - a) = unat (x - p) + unat (p - a)"
    by (simp only: unat_add_no_overflow)
  then show ?thesis using assms by (simp add: part_def in_range_def)
qed

lemma part_trans:
  assumes "part a S p n" and "part p n q k"
  shows "part a S q k"
proof -
  have "q - a = (q - p) + (p - a)" by simp
  moreover have "unat (q - p) + unat (p - a) < 18446744073709551616"
    using assms by (auto simp: part_def)
  ultimately have "unat (q - a) = unat (q - p) + unat (p - a)"
    by (simp only: unat_add_no_overflow)
  then show ?thesis using assms by (simp add: part_def)
qed

lemma part_mono: "part a S p n \<Longrightarrow> k \<le> n \<Longrightarrow> part a S p k"
  by (simp add: part_def)

lemma part_offset:
  "k + j \<le> n \<Longrightarrow> n < 18446744073709551616 \<Longrightarrow> part p n (p + of_nat k) j"
  by (simp add: part_def)

lemma part_valid: "part a S p n \<Longrightarrow> valid m a S \<Longrightarrow> valid m p n"
  using part_in_range by (auto simp: valid_def)

lemma part_frame: "part a S p n \<Longrightarrow> frame p n m m' \<Longrightarrow> frame a S m m'"
  using part_in_range unfolding frame_def by blast

section \<open>Stores and loads in a region\<close>

lemma store_bytes_frame:
  assumes "valid m p (length bs)" and "length bs < 18446744073709551616"
  shows "\<exists>m'. store_bytes m p bs = Some m' \<and> frame p (length bs) m m'"
proof -
  let ?d = "\<lambda>x. if in_range x p (length bs) then Some (bs ! unat (x - p)) else mem_data m x"
  have "store_bytes m p bs = Some (m\<lparr>mem_data := ?d\<rparr>)" using assms by (simp add: store_bytes_eq)
  moreover have "frame p (length bs) m (m\<lparr>mem_data := ?d\<rparr>)"
    using assms(1) by (auto simp: frame_def valid_def)
  ultimately show ?thesis by blast
qed

lemma stores_frame:
  "valid m p 1 \<Longrightarrow> \<exists>m'. store_u8 m p w8 = Some m' \<and> frame p 1 m m'"
  "valid m p 1 \<Longrightarrow> \<exists>m'. store_bool m p b = Some m' \<and> frame p 1 m m'"
  "valid m p 2 \<Longrightarrow> \<exists>m'. store_u16 m p w16 = Some m' \<and> frame p 2 m m'"
  "valid m p 4 \<Longrightarrow> \<exists>m'. store_u32 m p w32 = Some m' \<and> frame p 4 m m'"
  "valid m p 8 \<Longrightarrow> \<exists>m'. store_u64 m p w64 = Some m' \<and> frame p 8 m m'"
  "valid m p n \<Longrightarrow> n < 18446744073709551616 \<Longrightarrow> \<exists>m'. memset m p w8 n = Some m' \<and> frame p n m m'"
  using store_bytes_frame [of m p "[w8]"] store_bytes_frame [of m p "[if b then 1 else 0]"]
    store_bytes_frame [of m p "le_bytes 2 w16"] store_bytes_frame [of m p "le_bytes 4 w32"]
    store_bytes_frame [of m p "le_bytes 8 w64"] store_bytes_frame [of m p "replicate n w8"]
  by (simp_all add: store_u8_def store_bool_def store_u16_def store_u32_def store_u64_def memset_def)

lemma loads_valid:
  "valid m p 4 \<Longrightarrow> \<exists>v. load_u32 m p = Some v"
  "valid m p 8 \<Longrightarrow> \<exists>v. load_u64 m p = Some v"
  by (simp_all add: load_u32_def load_u64_def load_bytes_eq)

end
