(* ===== verification/PB_Static.thy ===== *)
theory PB_Static
  imports PB_Decode Mem_Frame
begin

text \<open>
  Descriptors of messages that live in one C structure: every field static, no unions, no
  extensions, no callbacks, arrays with a counter, submessages of the same kind nested to
  depth \<open>n\<close>. \<open>plain n S fs\<close> is a condition a program can check; it says that every member
  and every counter lies within the \<open>S\<close> bytes of the structure.
\<close>

section \<open>Plain descriptors\<close>

text \<open>The offset of a field, as the iterator computes it.\<close>

definition field_off :: "pb_field_t list \<Rightarrow> nat \<Rightarrow> addr" where
  "field_off fs i = it_pData (iter_nth fs 0 i)"

definition static_field :: "(nat \<Rightarrow> pb_field_t list \<Rightarrow> bool) \<Rightarrow> nat \<Rightarrow> pb_field_t \<Rightarrow> addr \<Rightarrow> bool" where
  "static_field sub S f off \<longleftrightarrow>
     atype f = PB_ATYPE_STATIC
     \<and> (htype f = PB_HTYPE_REQUIRED \<or> htype f = PB_HTYPE_OPTIONAL \<or> htype f = PB_HTYPE_REPEATED)
     \<and> ltype f \<noteq> PB_LTYPE_EXTENSION \<and> ltype f \<le> PB_LTYPE_FIXED_LENGTH_BYTES
     \<and> unat off + unat (pf_data_size f) * (if htype f = PB_HTYPE_REPEATED then unat (pf_array_size f) else 1) \<le> S
     \<and> (htype f = PB_HTYPE_OPTIONAL \<and> pf_size_offset f \<noteq> 0 \<longrightarrow> unat (size_at off f) + 1 \<le> S)
     \<and> (htype f = PB_HTYPE_REPEATED \<longrightarrow> pf_size_offset f \<noteq> 0 \<and> unat (size_at off f) + 4 \<le> S)
     \<and> (ltype f = PB_LTYPE_FIXED32 \<longrightarrow> 4 \<le> unat (pf_data_size f))
     \<and> (ltype f = PB_LTYPE_FIXED64 \<longrightarrow> 8 \<le> unat (pf_data_size f))
     \<and> (case pf_ptr f of
          PB_NULL \<Rightarrow> ltype f \<noteq> PB_LTYPE_SUBMESSAGE
        | PB_DEFAULT d \<Rightarrow> ltype f \<noteq> PB_LTYPE_SUBMESSAGE \<and> unat (pf_data_size f) \<le> length d
        | PB_FIELDS fs \<Rightarrow> ltype f = PB_LTYPE_SUBMESSAGE \<and> sub (unat (pf_data_size f)) fs)"

lemma static_fieldD:
  assumes "static_field sub S f off"
  shows "atype f = PB_ATYPE_STATIC" "htype f \<noteq> PB_HTYPE_ONEOF" "ltype f \<noteq> PB_LTYPE_EXTENSION"
    "ltype f \<noteq> PB_LTYPE_SUBMESSAGE \<Longrightarrow> pf_ptr f = PB_NULL
       \<or> (\<exists>d. pf_ptr f = PB_DEFAULT d \<and> unat (pf_data_size f) \<le> length d)"
    "ltype f = PB_LTYPE_SUBMESSAGE \<Longrightarrow> \<exists>fs. pf_ptr f = PB_FIELDS fs \<and> sub (unat (pf_data_size f)) fs"
    "htype f = PB_HTYPE_REPEATED \<Longrightarrow> pf_size_offset f \<noteq> 0
       \<and> unat off + unat (pf_data_size f) * unat (pf_array_size f) \<le> S"
  using assms by (auto simp: static_field_def split: pb_ptr.splits)

primrec plain :: "nat \<Rightarrow> nat \<Rightarrow> pb_field_t list \<Rightarrow> bool" where
  "plain 0 S fs = False"
| "plain (Suc n) S fs \<longleftrightarrow> 0 < field_count fs \<and> int S < 4294967296
     \<and> list_all (\<lambda>i. static_field (plain n) S (field_at fs i) (field_off fs i)) [0..<field_count fs]"

lemma plain_field:
  "plain (Suc n) S fs \<Longrightarrow> i < field_count fs \<Longrightarrow> static_field (plain n) S (field_at fs i) (field_off fs i)"
  by (simp add: list_all_iff)

lemma plain_size: "plain n S fs \<Longrightarrow> S < 4294967296"
  by (cases n) auto

lemma plain_count: "plain n S fs \<Longrightarrow> 0 < field_count fs"
  by (cases n) auto

section \<open>Where the members of a plain message are\<close>

lemma iter_nth_pData_off:
  "it_pData (iter_nth fs dest i) = dest + field_off fs i
   \<and> it_field (iter_nth fs dest i) = it_field (iter_nth fs 0 i)
   \<and> it_pos (iter_nth fs dest i) = it_pos (iter_nth fs 0 i)"
proof (induction i)
  case 0
  then show ?case by (simp add: field_off_def pb_field_iter_begin_def it_field_def Let_def)
next
  case (Suc i)
  have base: "it_pData (snd (pb_field_iter_begin fs dest)) = dest + it_pData (snd (pb_field_iter_begin fs 0))"
    by (simp add: pb_field_iter_begin_def Let_def)
  from Suc show ?case
    by (simp add: field_off_def pb_field_iter_next_def Let_def it_field_def base)
qed

lemma iter_at_off:
  "iter_at fs dest it i \<Longrightarrow> it_pData it = dest + field_off fs i"
  using iter_nth_pData_off by (auto simp: iter_at_def)

lemma iter_nth_pSize:
  assumes "plain (Suc n) S fs" and "i < field_count fs"
  shows "it_pSize (iter_nth fs dest i) = SizeAt (size_at (it_pData (iter_nth fs dest i)) (field_at fs i))"
proof (cases i)
  case 0
  then show ?thesis by (simp add: pb_field_iter_begin_def Let_def)
next
  case (Suc j)
  then have f: "it_field (iter_nth fs dest j) = field_at fs j" "it_pos (iter_nth fs dest j) = j"
    using assms(2) by (auto simp: it_field_def iter_nth_pos)
  have "htype (field_at fs i) \<noteq> PB_HTYPE_ONEOF"
    using plain_field [OF assms] by (auto simp: static_field_def)
  then show ?thesis
    using f Suc assms(2) field_at_lt [of j fs] field_at_lt [of "Suc j" fs]
    by (simp add: pb_field_iter_next_def Let_def)
qed

text \<open>A field of a plain message at an address, with what the code relies on.\<close>

definition plain_at :: "nat \<Rightarrow> addr \<Rightarrow> nat \<Rightarrow> pb_field_iter_t \<Rightarrow> bool" where
  "plain_at n a S it \<longleftrightarrow> S < 4294967296
     \<and> static_field (plain n) S (it_field it) (it_pData it - a)
     \<and> it_pSize it = SizeAt (size_at (it_pData it) (it_field it))"

lemma iter_at_plain:
  assumes "plain (Suc n) S fs" and "iter_at fs a it i"
  shows "plain_at n a S it"
proof -
  have i: "i < field_count fs" "it = iter_nth fs a i" using assms(2) by (auto simp: iter_at_def)
  have "static_field (plain n) S (it_field it) (it_pData it - a)"
    using plain_field [OF assms(1) i(1)] iter_at_field [OF assms(2)] iter_at_off [OF assms(2)] by simp
  then show ?thesis
    using iter_nth_pSize [OF assms(1) i(1), of a] i iter_at_field [OF assms(2)] plain_size [OF assms(1)]
    by (simp add: plain_at_def)
qed

lemma scast_eq_0: "scast (w :: u32) = (0 :: u64) \<longleftrightarrow> w = 0"
proof
  assume "scast w = (0 :: u64)"
  then have no: "\<not> bit (scast w :: u64) i" for i by simp
  have "\<not> bit w i" if "i < 32" for i
    using no [of i] that by (cases "i = 31") (auto simp: bit_signed_iff min_def)
  then show "w = 0" by (intro bit_word_eqI) auto
qed simp

lemma plain_no_size:
  "plain_at n a S it \<Longrightarrow> no_size it \<longleftrightarrow> pf_size_offset (it_field it) = 0"
  by (auto simp: plain_at_def no_size_def size_at_def scast_eq_0)

lemma plain_data:
  assumes "plain_at n a S it" and "htype (it_field it) \<noteq> PB_HTYPE_REPEATED"
  shows "part a S (it_pData it) (unat (pf_data_size (it_field it)))"
  using assms by (simp add: plain_at_def static_field_def part_def)

lemma plain_has:
  assumes "plain_at n a S it" and "htype (it_field it) = PB_HTYPE_OPTIONAL" and "\<not> no_size it"
  shows "\<exists>q. it_pSize it = SizeAt q \<and> part a S q 1"
  using assms plain_no_size [OF assms(1)]
  by (auto simp: plain_at_def static_field_def part_def size_at_def algebra_simps)

lemma plain_counter:
  assumes "plain_at n a S it" and "htype (it_field it) = PB_HTYPE_REPEATED"
  shows "\<exists>q. it_pSize it = SizeAt q \<and> part a S q 4"
  using assms by (auto simp: plain_at_def static_field_def part_def size_at_def algebra_simps)

lemma plain_item:
  assumes "plain_at n a S it" and "htype (it_field it) = PB_HTYPE_REPEATED"
    and "k < pf_array_size (it_field it)"
  shows "part a S (item_addr (it_pData it) (it_field it) k) (unat (pf_data_size (it_field it)))"
proof -
  let ?f = "it_field it" and ?d = "unat (pf_data_size (it_field it))" and ?c = "unat (pf_array_size (it_field it))"
  have k: "Suc (unat k) \<le> ?c" using assms(3) by (simp add: word_less_nat_alt)
  have room: "unat (it_pData it - a) + ?d * ?c \<le> S" "S < 4294967296"
    using assms(1,2) by (simp_all add: plain_at_def static_field_def)
  have items: "?d * unat k + ?d \<le> ?d * ?c" using mult_le_mono2 [OF k, of ?d] by simp
  then have "unat (pf_data_size ?f * k) = ?d * unat k"
    using room by (subst unat_mult_lem [THEN iffD1]) auto
  then have off: "unat (ucast (pf_data_size ?f * k) :: u64) = ?d * unat k" by simp
  have "item_addr (it_pData it) ?f k - a = (it_pData it - a) + ucast (pf_data_size ?f * k)"
    by (simp add: item_addr_def)
  then have "unat (item_addr (it_pData it) ?f k - a) = unat (it_pData it - a) + ?d * unat k"
    using room items off by (simp only:) (subst unat_add_no_overflow; simp)
  then show ?thesis using room items by (simp add: part_def)
qed

section \<open>A plain message has no extension field\<close>

lemma find_extension_none_loop:
  assumes none: "\<And>j. j < field_count fs \<Longrightarrow> ltype (field_at fs j) \<noteq> PB_LTYPE_EXTENSION"
  shows "\<lbrakk>k < field_count fs; i < field_count fs; iter_at fs dest it ((i + k) mod field_count fs)\<rbrakk> \<Longrightarrow>
    find_extension_loop i it = Some (False, iter_nth fs dest i)"
proof (induction "field_count fs - k" arbitrary: k it)
  case 0
  then show ?case by simp
next
  case (Suc d)
  let ?n = "field_count fs" and ?it' = "snd (pb_field_iter_next it)"
  have "(i + k) mod ?n < ?n" using Suc.prems(1) by simp
  then have "ltype (it_field it) \<noteq> PB_LTYPE_EXTENSION"
    using none iter_at_field [OF Suc.prems(3)] by simp
  then have step: "find_extension_loop i it =
      (if it_pos ?it' \<noteq> i then find_extension_loop i ?it' else Some (False, ?it'))"
    by (simp add: find_extension_loop.simps [of i it] Let_def)
  have next_at: "iter_at fs dest ?it' ((i + Suc k) mod ?n)"
    using iter_at_next_mod [OF Suc.prems(3)] by simp
  then have pos: "it_pos ?it' = (i + Suc k) mod ?n" by (simp add: iter_at_def iter_nth_pos)
  show ?case
  proof (cases "Suc k = ?n")
    case True
    then have "(i + Suc k) mod ?n = i" using Suc.prems(2) by simp
    then show ?thesis using step next_at pos by (simp add: iter_at_def)
  next
    case False
    then have k: "Suc k < ?n" using Suc.prems(1) by simp
    then have "(i + Suc k) mod ?n \<noteq> i" using Suc.prems(2) by (auto simp: mod_if le_mod_geq)
    then show ?thesis using step pos Suc.hyps(1) [OF _ k Suc.prems(2) next_at] Suc.hyps(2) by simp
  qed
qed

lemma find_extension_none:
  assumes "plain (Suc n) S fs" and "iter_at fs dest it i"
  shows "find_extension_field it = Some (False, it)"
proof -
  have i: "i < field_count fs" "it = iter_nth fs dest i" "it_pos it = i"
    using assms(2) by (auto simp: iter_at_def iter_nth_pos)
  have "ltype (field_at fs j) \<noteq> PB_LTYPE_EXTENSION" if "j < field_count fs" for j
    using static_fieldD(3) [OF plain_field [OF assms(1) that]] .
  from find_extension_none_loop [OF this, of 0 i dest it] show ?thesis
    using i assms(2) by (simp add: find_extension_field_def)
qed

end
