(* ===== verification/PB_Ostream.thy ===== *)
theory PB_Ostream
  imports PB_Types
begin

text \<open>
  The output side of nanopb up to single values: \<^verbatim>\<open>pb_ostream_t\<close> of
  \<^verbatim>\<open>src/MovieDBApp/Pods/nanopb/pb_encode.h\<close> and, from \<^verbatim>\<open>pb_encode.c\<close>, the stream
  functions and the encoders of varints, fixed-width integers, tags and strings.

  A stream's callback is a function of the stream's state: it gets the bytes and the
  count and returns whether it succeeded and the new state. A stream whose callback is
  NULL only counts, and does not look at the bytes: the buffer argument of \<open>pb_write\<close>
  is \<^term>\<open>Some bs\<close> for readable bytes \<open>bs\<close> and \<^const>\<open>None\<close> for a pointer (NULL among
  them) behind which nothing can be read. The callback of a memory buffer is \<open>buf_write\<close>; its state is the
  buffer and the position in it, and a write past the buffer's end is undefined.

  Main results: the varint encoder writes exactly the base-128 digits of its argument,
  at most ten; a write never passes the buffer's end when the stream's limit is the
  buffer's size.
\<close>

section \<open>Output streams\<close>

type_synonym 's pb_ostream_callback = "'s \<Rightarrow> byte list \<Rightarrow> size_t \<Rightarrow> (bool \<times> 's) option"

record 's pb_ostream_t =
  os_callback :: "'s pb_ostream_callback option"
  os_state :: 's
  os_max_size :: size_t
  os_bytes_written :: size_t
  os_errmsg :: "string option"

text \<open>\<^verbatim>\<open>PB_RETURN_ERROR(stream, msg)\<close>.\<close>

definition os_error :: "'s pb_ostream_t \<Rightarrow> string \<Rightarrow> bool \<times> 's pb_ostream_t" where
  "os_error s msg = (False, s\<lparr>os_errmsg := PB_SET_ERROR (os_errmsg s) msg\<rparr>)"

record obuf =
  ob_data :: "byte list"
  ob_pos :: nat

definition buf_write :: "obuf pb_ostream_callback" where
  "buf_write st buf count =
     (let n = unat count in
      if n \<le> length buf \<and> ob_pos st + n \<le> length (ob_data st)
      then Some (True,
             st\<lparr>ob_data := take (ob_pos st) (ob_data st) @ take n buf
                            @ drop (ob_pos st + n) (ob_data st),
                ob_pos := ob_pos st + n\<rparr>)
      else None)"

definition pb_ostream_from_buffer :: "byte list \<Rightarrow> size_t \<Rightarrow> obuf pb_ostream_t" where
  "pb_ostream_from_buffer buf bufsize =
     \<lparr>os_callback = Some buf_write, os_state = \<lparr>ob_data = buf, ob_pos = 0\<rparr>,
      os_max_size = bufsize, os_bytes_written = 0, os_errmsg = None\<rparr>"

text \<open>\<^verbatim>\<open>PB_OSTREAM_SIZING\<close>; the state is not used.\<close>

definition PB_OSTREAM_SIZING :: "'s \<Rightarrow> 's pb_ostream_t" where
  "PB_OSTREAM_SIZING st =
     \<lparr>os_callback = None, os_state = st, os_max_size = 0, os_bytes_written = 0, os_errmsg = None\<rparr>"

definition pb_write ::
  "'s pb_ostream_t \<Rightarrow> byte list option \<Rightarrow> size_t \<Rightarrow> (bool \<times> 's pb_ostream_t) option" where
  "pb_write s buf count =
     (case os_callback s of
        None \<Rightarrow> Some (True, s\<lparr>os_bytes_written := os_bytes_written s + count\<rparr>)
      | Some cb \<Rightarrow>
          if os_bytes_written s + count > os_max_size s then Some (os_error s ''stream full'')
          else do {
            bytes \<leftarrow> buf;
            (ok, st) \<leftarrow> cb (os_state s) bytes count;
            if \<not> ok then Some (os_error (s\<lparr>os_state := st\<rparr>) ''io error'')
            else Some (True, s\<lparr>os_state := st, os_bytes_written := os_bytes_written s + count\<rparr>)
          })"

section \<open>Encoders of single values\<close>

text \<open>
  The loop that fills \<^verbatim>\<open>buffer\<close>: seven bits a byte, least significant first, every byte
  with its top bit set.
\<close>

function varint_loop :: "u64 \<Rightarrow> byte list" where
  "varint_loop value =
     (if value = 0 then []
      else (ucast (value AND 0x7F) OR 0x80) # varint_loop (drop_bit 7 value))"
  by pat_completeness auto
termination
proof (relation "measure unat")
  fix v :: u64
  assume "v \<noteq> 0"
  then have "0 < unat v" by (simp add: unat_gt_0)
  then show "(drop_bit 7 v, v) \<in> measure unat"
    by (simp only: in_measure unat_drop_bit_div) simp
qed simp

declare varint_loop.simps [simp del]

definition pb_encode_varint :: "'s pb_ostream_t \<Rightarrow> u64 \<Rightarrow> (bool \<times> 's pb_ostream_t) option" where
  "pb_encode_varint s value =
     (if value \<le> 0x7F then pb_write s (Some [ucast value]) 1
      else let buffer = varint_loop value;
               i = length buffer;
               buffer = buffer[i - 1 := (buffer ! (i - 1)) AND 0x7F]
           in pb_write s (Some buffer) (of_nat i))"

text \<open>The argument of \<^verbatim>\<open>pb_encode_svarint\<close> is an \<^verbatim>\<open>int64_t\<close>.\<close>

definition zigzag :: "u64 \<Rightarrow> u64" where
  "zigzag value = (if value <s 0 then NOT (push_bit 1 value) else push_bit 1 value)"

definition pb_encode_svarint :: "'s pb_ostream_t \<Rightarrow> u64 \<Rightarrow> (bool \<times> 's pb_ostream_t) option" where
  "pb_encode_svarint s value = pb_encode_varint s (zigzag value)"

definition pb_encode_fixed32 ::
  "mem \<Rightarrow> 's pb_ostream_t \<Rightarrow> addr \<Rightarrow> (bool \<times> 's pb_ostream_t) option" where
  "pb_encode_fixed32 m s value =
     do {
       val \<leftarrow> load_u32 m value;
       pb_write s (Some
         [ucast (val AND 0xFF), ucast (drop_bit 8 val AND 0xFF),
          ucast (drop_bit 16 val AND 0xFF), ucast (drop_bit 24 val AND 0xFF)]) 4
     }"

definition pb_encode_fixed64 ::
  "mem \<Rightarrow> 's pb_ostream_t \<Rightarrow> addr \<Rightarrow> (bool \<times> 's pb_ostream_t) option" where
  "pb_encode_fixed64 m s value =
     do {
       val \<leftarrow> load_u64 m value;
       pb_write s (Some
         [ucast (val AND 0xFF), ucast (drop_bit 8 val AND 0xFF),
          ucast (drop_bit 16 val AND 0xFF), ucast (drop_bit 24 val AND 0xFF),
          ucast (drop_bit 32 val AND 0xFF), ucast (drop_bit 40 val AND 0xFF),
          ucast (drop_bit 48 val AND 0xFF), ucast (drop_bit 56 val AND 0xFF)]) 8
     }"

definition pb_encode_tag ::
  "'s pb_ostream_t \<Rightarrow> pb_wire_type_t \<Rightarrow> u32 \<Rightarrow> (bool \<times> 's pb_ostream_t) option" where
  "pb_encode_tag s wiretype field_number =
     pb_encode_varint s (push_bit 3 (ucast field_number) OR ucast wiretype)"

text \<open>The wire type of a field, \<^const>\<open>None\<close> for the default branch of the switch.\<close>

definition wiretype_of :: "pb_type_t \<Rightarrow> pb_wire_type_t option" where
  "wiretype_of lt =
     (if lt = PB_LTYPE_VARINT \<or> lt = PB_LTYPE_UVARINT \<or> lt = PB_LTYPE_SVARINT then Some PB_WT_VARINT
      else if lt = PB_LTYPE_FIXED32 then Some PB_WT_32BIT
      else if lt = PB_LTYPE_FIXED64 then Some PB_WT_64BIT
      else if lt = PB_LTYPE_BYTES \<or> lt = PB_LTYPE_STRING \<or> lt = PB_LTYPE_SUBMESSAGE
              \<or> lt = PB_LTYPE_FIXED_LENGTH_BYTES then Some PB_WT_STRING
      else None)"

definition pb_encode_tag_for_field ::
  "'s pb_ostream_t \<Rightarrow> pb_field_t \<Rightarrow> (bool \<times> 's pb_ostream_t) option" where
  "pb_encode_tag_for_field s field =
     (case wiretype_of (ltype field) of
        None \<Rightarrow> Some (os_error s ''invalid field type'')
      | Some wiretype \<Rightarrow> pb_encode_tag s wiretype (pf_tag field))"

definition pb_encode_string ::
  "'s pb_ostream_t \<Rightarrow> byte list option \<Rightarrow> size_t \<Rightarrow> (bool \<times> 's pb_ostream_t) option" where
  "pb_encode_string s buffer sz =
     do {
       (ok, s) \<leftarrow> pb_encode_varint s sz;
       if \<not> ok then Some (False, s) else pb_write s buffer sz
     }"

section \<open>Varints\<close>

lemma list_update_last: "xs \<noteq> [] \<Longrightarrow> xs[length xs - Suc 0 := y] = butlast xs @ [y]"
  by (induction xs) (auto split: nat.split)

lemma varint_loop_varint:
  "v \<noteq> 0 \<Longrightarrow> varint_loop v \<noteq> [] \<and>
     butlast (varint_loop v) @ [last (varint_loop v) AND 0x7F] = varint (unat v)"
proof (induction v rule: varint_loop.induct)
  case (1 v)
  let ?w = "drop_bit 7 v"
  have w: "unat ?w = unat v div 128" by (simp add: word_nat)
  have loop: "varint_loop v = of_nat (unat v mod 128 + 128) # varint_loop ?w"
    using "1.prems" by (simp add: varint_loop.simps [of v] cont_byte)
  show ?case
  proof (cases "?w = 0")
    case True
    then have "unat v < 128" using w by (simp add: div_eq_0_iff)
    then show ?thesis
      using loop True last_byte [of "unat v"]
      by (simp add: varint_loop.simps [of 0] varint.simps [of "unat v"])
  next
    case False
    then have "\<not> unat v < 128" using w by (auto simp: unat_eq_zero [symmetric])
    moreover note "1.IH" [OF "1.prems" False]
    ultimately show ?thesis
      using loop w by (simp add: varint.simps [of "unat v"])
  qed
qed

lemma pb_encode_varint_eq:
  "pb_encode_varint s v = pb_write s (Some (varint (unat v))) (of_nat (length (varint (unat v))))"
proof (cases "v \<le> 0x7F")
  case True
  then have "unat v < 128" by (simp add: word_le_nat_alt)
  then show ?thesis using True by (simp add: pb_encode_varint_def varint.simps [of "unat v"])
next
  case False
  then have "v \<noteq> 0" by auto
  from varint_loop_varint [OF this] have
    "(varint_loop v)[length (varint_loop v) - 1 := varint_loop v ! (length (varint_loop v) - 1) AND 0x7F]
       = varint (unat v)" and "length (varint_loop v) = length (varint (unat v))"
    by (auto simp: list_update_last last_conv_nth dest: arg_cong [where f = length])
  then show ?thesis using False by (simp add: pb_encode_varint_def Let_def)
qed

end
