(* ===== verification/PB_Wire.thy ===== *)
theory PB_Wire
  imports PB_Ostream
begin

text \<open>
  The wire format itself, as a reference both sides of nanopb are measured against: a
  message on the wire is a list of fields, each a key (field number and wire type) and a
  value. \<open>ser_fields\<close> is its byte string: keys and integers are base-128 varints,
  fixed-width values little endian, strings and submessages prefixed by their length.
\<close>

datatype wval =
    WVarint u64
  | WFixed64 u64
  | WLen "byte list"
  | WMsg "wfield list"
  | WFixed32 u32
and wfield = WField (wf_tag: u32) (wf_val: wval)

fun wire_type :: "wval \<Rightarrow> nat" where
  "wire_type (WVarint v) = 0"
| "wire_type (WFixed64 v) = 1"
| "wire_type (WLen bs) = 2"
| "wire_type (WMsg ws) = 2"
| "wire_type (WFixed32 v) = 5"

fun ser_val :: "wval \<Rightarrow> byte list" and ser_field :: "wfield \<Rightarrow> byte list"
  and ser_fields :: "wfield list \<Rightarrow> byte list" where
  "ser_val (WVarint v) = varint (unat v)"
| "ser_val (WFixed64 v) = le_bytes 8 v"
| "ser_val (WLen bs) = varint (length bs) @ bs"
| "ser_val (WMsg ws) = (let bs = ser_fields ws in varint (length bs) @ bs)"
| "ser_val (WFixed32 v) = le_bytes 4 v"
| "ser_field (WField t v) = varint (8 * unat t + wire_type v) @ ser_val v"
| "ser_fields [] = []"
| "ser_fields (w # ws) = ser_field w @ ser_fields ws"

lemma ser_fields_append [simp]: "ser_fields (vs @ ws) = ser_fields vs @ ser_fields ws"
  by (induction vs) auto

lemma ser_fields_concat: "ser_fields (concat wss) = concat (map ser_fields wss)"
  by (induction wss) auto

lemma wire_type_less: "wire_type v < 8"
  by (cases v) auto

end
