(* ===== verification/PB_Source.thy ===== *)
theory PB_Source
  imports PB_Istream PB_Wire
begin

text \<open>
  The contract between the decoder and the source behind an input stream, and what the
  stream functions and the decoders of single values do under it.

  The locale \<open>byte_source\<close> is what the decoder needs of a stream callback: asked for no more
  bytes than are left, it delivers the next ones. \<open>input s\<close> is what a stream may still
  read; \<open>took s s' n\<close> says that a step has read \<open>n\<close> bytes of it and nothing else changed.
  \<open>buf_read\<close>, the callback of a memory buffer, meets the contract (\<open>buf\<close>).
\<close>

lemma unat_add_shifted:
  "unat r + a * 2 ^ j < 4294967296 \<Longrightarrow> unat (r + of_nat a * 2 ^ j) = unat r + a * 2 ^ j" for r :: u32
  using unat_of_nat_32 [of "unat r + a * 2 ^ j"] by simp

lemma sless_0_bit: "v <s 0 \<longleftrightarrow> bit v 63" for v :: u64
  using bit_last_iff [of v] by (simp add: word_sless_alt)

lemma unzigzag: "(if zigzag v AND 1 \<noteq> 0 then NOT (drop_bit 1 (zigzag v)) else drop_bit 1 (zigzag v)) = v"
proof -
  define w where "w = push_bit 1 v"
  have w: "bit w n \<longleftrightarrow> 1 \<le> n \<and> n < 64 \<and> bit v (n - 1)" for n
    unfolding w_def by (simp only: bit_push_bit_iff) (auto dest: bit_imp_le_length)
  have z: "zigzag v = (if bit v 63 then NOT w else w)"
    by (simp add: zigzag_def w_def sless_0_bit)
  have odd: "u AND 1 \<noteq> 0 \<longleftrightarrow> bit u 0" for u :: u64
    by (simp add: and_one_eq odd_iff_mod_2_eq_one [symmetric] bit_0)
  have last: "n < 64 \<Longrightarrow> n < 63 \<or> n = 63" for n :: nat by linarith
  show ?thesis
    by (cases "bit v 63") (auto simp: odd z w bit_simps intro!: bit_word_eqI dest: last)
qed

section \<open>The contract\<close>

locale byte_source =
  fixes cb :: "'s pb_istream_callback"
    and pending :: "'s pb_istream_state \<Rightarrow> byte list"
    and src_ok :: "'s pb_istream_state \<Rightarrow> bool"
  assumes cb_delivers:
    "\<lbrakk>src_ok st; unat count \<le> length (pending st)\<rbrakk> \<Longrightarrow>
       \<exists>st'. call_callback cb st False count = Some (True, take (unat count) (pending st), st')
             \<and> pending st' = drop (unat count) (pending st) \<and> src_ok st'"
    and cb_skips:
    "\<lbrakk>cb = Buf_read; src_ok st; unat count \<le> length (pending st)\<rbrakk> \<Longrightarrow>
       \<exists>st'. call_callback cb st True count = Some (True, [], st')
             \<and> pending st' = drop (unat count) (pending st) \<and> src_ok st'"
begin

definition open_at :: "'s pb_istream_t \<Rightarrow> bool" where
  "open_at s \<longleftrightarrow> is_callback s = cb \<and> src_ok (is_state s)
     \<and> unat (is_bytes_left s) \<le> length (pending (is_state s))"

definition input :: "'s pb_istream_t \<Rightarrow> byte list" where
  "input s = take (unat (is_bytes_left s)) (pending (is_state s))"

text \<open>\<open>n\<close> bytes have been read, and an error message may have been set.\<close>

definition read_by :: "'s pb_istream_t \<Rightarrow> 's pb_istream_t \<Rightarrow> nat \<Rightarrow> bool" where
  "read_by s s' n \<longleftrightarrow> is_callback s' = cb \<and> src_ok (is_state s')
     \<and> n \<le> unat (is_bytes_left s) \<and> unat (is_bytes_left s') = unat (is_bytes_left s) - n
     \<and> pending (is_state s') = drop n (pending (is_state s))"

definition took :: "'s pb_istream_t \<Rightarrow> 's pb_istream_t \<Rightarrow> nat \<Rightarrow> bool" where
  "took s s' n \<longleftrightarrow> read_by s s' n \<and> is_errmsg s' = is_errmsg s"

definition failed :: "'s pb_istream_t \<Rightarrow> 's pb_istream_t \<Rightarrow> bool" where
  "failed s s' \<longleftrightarrow> (\<exists>n. read_by s s' n) \<and> is_errmsg s' \<noteq> None"

lemma length_input: "open_at s \<Longrightarrow> length (input s) = unat (is_bytes_left s)"
  by (simp add: open_at_def input_def)

lemma input_Nil: "open_at s \<Longrightarrow> input s = [] \<longleftrightarrow> is_bytes_left s = 0"
  by (auto simp: length_input unat_eq_zero simp flip: length_0_conv)

lemma read_by_open: "\<lbrakk>open_at s; read_by s s' n\<rbrakk> \<Longrightarrow> open_at s' \<and> input s' = drop n (input s)"
  by (auto simp: open_at_def read_by_def input_def drop_take)

lemma took_open: "\<lbrakk>open_at s; took s s' n\<rbrakk> \<Longrightarrow> open_at s' \<and> input s' = drop n (input s)"
  using read_by_open by (auto simp: took_def)

lemma read_by_0: "open_at s \<Longrightarrow> read_by s s 0"
  by (simp add: open_at_def read_by_def)

lemma took_0: "open_at s \<Longrightarrow> took s s 0"
  by (simp add: took_def read_by_0)

lemma read_by_trans: "\<lbrakk>read_by s s' n; read_by s' s'' k\<rbrakk> \<Longrightarrow> read_by s s'' (n + k)"
  by (auto simp: read_by_def add.commute)

lemma took_trans: "\<lbrakk>took s s' n; took s' s'' k\<rbrakk> \<Longrightarrow> took s s'' (n + k)"
  by (auto simp: took_def intro: read_by_trans)

lemma took_failed: "\<lbrakk>took s s' n; failed s' s''\<rbrakk> \<Longrightarrow> failed s s''"
  by (auto simp: took_def failed_def dest: read_by_trans)

lemma failed_set_errmsg: "read_by s s' n \<Longrightarrow> failed s (set_errmsg s' msg)"
  by (auto simp: failed_def set_errmsg_def read_by_def)

section \<open>Reading\<close>

lemma pb_read_to_ok:
  assumes "open_at s" and "unat count \<le> unat (is_bytes_left s)" and "\<not> null \<or> cb = Buf_read"
  shows "\<exists>bs s'. pb_read_to s null count = Some (True, bs, s') \<and> took s s' (unat count)
           \<and> bs = (if null then [] else take (unat count) (input s))"
proof -
  have s: "is_callback s = cb" "src_ok (is_state s)" "unat count \<le> length (pending (is_state s))"
    using assms by (auto simp: open_at_def)
  have le: "\<not> is_bytes_left s < count" "unat (is_bytes_left s - count) = unat (is_bytes_left s) - unat count"
    using assms(2) by (auto simp: word_less_nat_alt word_le_nat_alt unat_diff_le)
  obtain bs st where "call_callback cb (is_state s) null count = Some (True, bs, st)"
    "pending st = drop (unat count) (pending (is_state s))" "src_ok st"
    "bs = (if null then [] else take (unat count) (pending (is_state s)))"
    using cb_delivers [OF s(2,3)] cb_skips [OF _ s(2,3)] assms(3) by (cases null) auto
  then show ?thesis
    using s le assms(2)
    by (auto simp: pb_read_to_def took_def read_by_def input_def min_def)
qed

lemma pb_read_to_short:
  "unat (is_bytes_left s) < unat count \<Longrightarrow>
     pb_read_to s null count = Some (False, [], set_errmsg s ''end-of-stream'')"
  by (simp add: pb_read_to_def word_less_nat_alt)

lemma pb_read_eq: "\<not> null \<or> cb = Buf_read \<Longrightarrow> is_callback s = cb \<Longrightarrow> pb_read s null count = pb_read_to s null count"
  by (auto simp: pb_read_def)

lemma pb_read_skip_ok:
  "\<lbrakk>open_at s; unat count \<le> unat (is_bytes_left s)\<rbrakk> \<Longrightarrow>
     \<exists>s'. pb_read_skip s count = Some (True, [], s') \<and> took s s' (unat count)"
proof (induction s count rule: pb_read_skip.induct)
  case (1 s count)
  show ?case
  proof (cases "count > 16")
    case False
    then show ?thesis
      using pb_read_to_ok [of s count False] 1(2,3) by (auto simp: pb_read_skip.simps [of s])
  next
    case True
    then have n: "unat (16 :: size_t) \<le> unat count" "unat (count - 16) = unat count - 16"
      by (auto simp: word_less_nat_alt word_le_nat_alt unat_diff_le)
    obtain bs s' where s': "pb_read_to s False 16 = Some (True, bs, s')" "took s s' 16"
      using pb_read_to_ok [of s 16 False] 1(2,3) n by auto
    have "open_at s'" using took_open [OF "1"(2) s'(2)] by simp
    moreover have "unat (count - 16) \<le> unat (is_bytes_left s')"
      using s'(2) 1(3) n by (simp add: took_def read_by_def)
    ultimately obtain s'' where "pb_read_skip s' (count - 16) = Some (True, [], s'')"
      "took s' s'' (unat count - 16)"
      using 1(1) [OF True, of "(True, bs, s')" True "(bs, s')" bs s'] s'(1) n by auto
    then show ?thesis
      using True s' n took_trans [OF s'(2)] by (fastforce simp: pb_read_skip.simps [of s])
  qed
qed

lemma pb_skip_bytes_ok:
  assumes "open_at s" and "unat count \<le> unat (is_bytes_left s)"
  shows "\<exists>s'. pb_skip_bytes s count = Some (True, s') \<and> took s s' (unat count)"
proof (cases "cb = Buf_read")
  case True
  have "pb_read s True count = pb_read_to s True count"
    using assms(1) True pb_read_eq unfolding open_at_def by blast
  then show ?thesis
    using pb_read_to_ok [OF assms, of True] True by (auto simp: pb_skip_bytes_def)
next
  case False
  then have "pb_read s True count = pb_read_skip s count"
    using assms(1) by (auto simp: pb_read_def open_at_def split: pb_istream_callback.splits)
  then show ?thesis using pb_read_skip_ok [OF assms] by (auto simp: pb_skip_bytes_def)
qed

lemma pb_readbyte_Nil:
  "\<lbrakk>open_at s; input s = []\<rbrakk> \<Longrightarrow> pb_readbyte s = Some (None, set_errmsg s ''end-of-stream'')"
  by (simp add: input_Nil pb_readbyte_def)

lemma pb_readbyte_Cons:
  assumes "open_at s" and "input s = b # bs"
  shows "\<exists>s'. pb_readbyte s = Some (Some b, s') \<and> took s s' 1 \<and> open_at s' \<and> input s' = bs"
proof -
  have left: "is_bytes_left s \<noteq> 0" using assms by (auto simp: input_def)
  then have n: "unat (is_bytes_left s) \<noteq> 0" by (simp add: unat_eq_zero)
  have s: "is_callback s = cb" "src_ok (is_state s)" "unat (1 :: size_t) \<le> length (pending (is_state s))"
    using assms(1) n by (auto simp: open_at_def)
  have "take 1 (pending (is_state s)) = [b]"
    using assms(2) n by (cases "pending (is_state s)") (auto simp: input_def take_Cons')
  then obtain st where "call_callback cb (is_state s) False 1 = Some (True, [b], st)"
    "pending st = drop 1 (pending (is_state s))" "src_ok st"
    using cb_delivers [OF s(2,3)] by auto
  then obtain s' where s': "pb_readbyte s = Some (Some b, s')" "took s s' 1"
    using s left n by (auto simp: pb_readbyte_def took_def read_by_def unat_minus_one)
  then show ?thesis using took_open [OF assms(1) s'(2)] assms(2) by auto
qed

lemma pb_read_local_ok:
  assumes "open_at s" and "unat count \<le> unat (is_bytes_left s)"
  shows "\<exists>s'. pb_read_local s count = Some (Some (take (unat count) (input s)), s')
           \<and> took s s' (unat count)"
  using pb_read_to_ok [OF assms, of False] assms length_input [of s]
  by (auto simp: pb_read_local_def pb_read_eq open_at_def)

lemma pb_read_local_short:
  assumes "open_at s" and "unat (is_bytes_left s) < unat count"
  shows "pb_read_local s count = Some (None, set_errmsg s ''end-of-stream'')"
  using assms by (simp add: pb_read_local_def pb_read_eq open_at_def pb_read_to_short)

end

end
