(* ===== verification/PB_Varint.thy ===== *)
theory PB_Varint
  imports PB_Source
begin

text \<open>
  The varint decoders of \<^verbatim>\<open>pb_decode.c\<close> over any source that meets the contract of
  \<open>byte_source\<close>: the 64-bit decoder reads the first ten bytes exactly as the reference
  \<open>unvarint\<close> does; the 32-bit decoder decodes the canonical varint of every 32-bit value and
  of every negative \<^verbatim>\<open>int32\<close> and rejects the values between.
\<close>

context byte_source
begin

section \<open>Varints\<close>

lemma varint64_loop_spec:
  assumes "open_at s" and "k \<le> 10" and "take_bit (7 * k) r = r"
  shows "case unvarint (take (10 - k) (input s)) of
      Some (n, rest) \<Rightarrow> \<exists>s'. varint64_loop s r (of_nat (7 * k)) = Some (Some (r + of_nat n * 2 ^ (7 * k)), s')
        \<and> took s s' (length (take (10 - k) (input s)) - length rest)
    | None \<Rightarrow> \<exists>s'. varint64_loop s r (of_nat (7 * k)) = Some (None, s') \<and> failed s s'"
  using assms
proof (induction "10 - k" arbitrary: s k r)
  case 0
  then have "k = 10" by simp
  then show ?case
    using failed_set_errmsg [OF read_by_0 [OF "0.prems"(1)]] by (simp add: varint64_loop.simps [of s])
next
  case (Suc j)
  let ?bp = "of_nat (7 * k) :: byte"
  have k: "k < 10" using Suc.hyps(2) by simp
  have bp: "unat ?bp = 7 * k" by (rule unat_byte_of_nat) (use k in simp)
  then have bp: "\<not> ?bp \<ge> 64" "unat ?bp = 7 * k" "?bp + 7 = of_nat (7 * Suc k)"
    using k by (simp_all add: word_le_nat_alt del: of_nat_mult)
  show ?case
  proof (cases "input s")
    case Nil
    then show ?thesis
      using bp failed_set_errmsg [OF read_by_0 [OF Suc.prems(1)]] pb_readbyte_Nil [OF Suc.prems(1)]
      by (simp add: varint64_loop.simps [of s] Let_def)
  next
    case (Cons b bs)
    obtain s1 where s1: "pb_readbyte s = Some (Some b, s1)" "took s s1 1" "open_at s1" "input s1 = bs"
      using pb_readbyte_Cons [OF Suc.prems(1) Cons] by auto
    define r1 where "r1 = r + of_nat (unat b mod 128) * 2 ^ (7 * k)"
    have r1: "r OR push_bit (7 * k) (ucast (b AND 0x7F)) = r1"
      using Suc.prems(3) by (simp add: r1_def and_7F_byte or_push_add)
    have r1_low: "take_bit (7 * Suc k) r1 = r1"
    proof -
      have "take_bit 7 (ucast (b AND 0x7F) :: u64) = ucast (b AND 0x7F)"
        by (rule take_bit_7_ucast)
      then show ?thesis
        using take_bit_or_push [OF Suc.prems(3)] r1 by (metis mult_Suc_right add.commute)
    qed
    have j: "10 - k = Suc j" "10 - Suc k = j" using Suc.hyps(2) by simp_all
    show ?thesis
    proof (cases "unat b < 128")
      case True
      then have "varint64_loop s r ?bp = Some (Some r1, s1)"
        using bp s1(1) r1 and_80 [of b] by (simp add: varint64_loop.simps [of s] Let_def)
      then show ?thesis using True s1(2) Cons j by (simp add: r1_def)
    next
      case False
      then have step: "varint64_loop s r ?bp = varint64_loop s1 r1 (of_nat (7 * Suc k))"
        using bp s1(1) r1 and_80 [of b] by (simp add: varint64_loop.simps [of s] Let_def add.commute)
      note ih = Suc.hyps(1) [of "Suc k" s1 r1, unfolded j s1(4), OF refl s1(3) _ r1_low]
      show ?thesis
      proof (cases "unvarint (take j bs)")
        case None
        then show ?thesis
          using ih k step Cons j False took_failed [OF s1(2)] by auto
      next
        case (Some p)
        obtain n rest where p: "p = (n, rest)" by force
        obtain s' where s': "varint64_loop s1 r1 (of_nat (7 * Suc k))
            = Some (Some (r1 + of_nat n * 2 ^ (7 * Suc k)), s')"
          "took s1 s' (length (take j bs) - length rest)"
          using ih k Some p by auto
        have "r1 + of_nat n * 2 ^ (7 * Suc k) = r + of_nat (unat b mod 128 + 128 * n) * 2 ^ (7 * k)"
          by (simp add: r1_def power_add algebra_simps)
        moreover have "length rest \<le> length (take j bs)"
          using Some p unvarint_shorter by fastforce
        then have "took s s' (length (take (Suc j) (b # bs)) - length rest)"
          using took_trans [OF s1(2) s'(2)] by (simp add: Suc_diff_le)
        ultimately show ?thesis using step s'(1) Some p Cons j False by simp
      qed
    qed
  qed
qed

lemma pb_decode_varint_spec:
  assumes "open_at s"
  shows "case unvarint (take 10 (input s)) of
      Some (n, rest) \<Rightarrow> \<exists>s'. pb_decode_varint s = Some (Some (of_nat n), s')
        \<and> took s s' (length (take 10 (input s)) - length rest)
    | None \<Rightarrow> \<exists>s'. pb_decode_varint s = Some (None, s') \<and> failed s s'"
  using varint64_loop_spec [OF assms, of 0 0] unfolding pb_decode_varint_def by (auto split: option.splits)

lemma pb_decode_varint_ok:
  assumes "open_at s" and "input s = varint (unat v) @ rest"
  shows "\<exists>s'. pb_decode_varint s = Some (Some v, s') \<and> took s s' (length (varint (unat v)))"
proof -
  have "take 10 (input s) = varint (unat v) @ take (10 - length (varint (unat v))) rest"
    using assms(2) length_varint_u64 [of v] by simp
  then show ?thesis
    using pb_decode_varint_spec [OF assms(1)] by (simp add: unvarint_varint)
qed

lemma pb_decode_svarint_ok:
  assumes "open_at s" and "input s = varint (unat (zigzag v)) @ rest"
  shows "\<exists>s'. pb_decode_svarint s = Some (Some v, s') \<and> took s s' (length (varint (unat (zigzag v))))"
  using pb_decode_varint_ok [OF assms] unzigzag [of v] by (auto simp: pb_decode_svarint_def)

text \<open>
  The 32-bit decoder on the digits of \<open>n\<close>, with \<open>k\<close> of them read before and \<open>r\<close> their value:
  a value that fits is decoded, a 64-bit value in between is rejected, and the ten digits
  of a negative \<^verbatim>\<open>int32\<close> give its low 32 bits.
\<close>

lemma varint32_step:
  assumes "open_at s" and "input s = varint n @ rest" and "k \<le> 9"
  defines "b \<equiv> of_nat (if n < 128 then n else n mod 128 + 128) :: byte"
    and "bp \<equiv> of_nat (7 * k) :: byte"
  shows "\<exists>s1. took s s1 1 \<and> open_at s1
    \<and> (128 \<le> n \<longrightarrow> input s1 = varint (n div 128) @ rest)
    \<and> varint32_loop s r bp =
       (let overflow = (5 \<le> k \<and> n mod 128 \<noteq> 0
                        \<and> (drop_bit 31 r = 0 \<or> b \<noteq> (if k < 9 then 0xFF else 1)));
            r1 = (if 5 \<le> k then r else r OR push_bit (7 * k) (of_nat (n mod 128)))
        in if overflow then Some (None, set_errmsg s1 ''varint overflow'')
           else if 128 \<le> n then varint32_loop s1 r1 (of_nat (7 * Suc k))
           else if k = 4 \<and> 16 \<le> n then Some (None, set_errmsg s1 ''varint overflow'')
           else Some (Some r1, s1))"
proof -
  have "n mod 128 < 128" by simp
  then have digit: "unat b = (if n < 128 then n else n mod 128 + 128)"
    by (auto simp: b_def intro!: unat_byte_of_nat)
  have low: "unat b mod 128 = n mod 128" "(unat b < 128) = (n < 128)"
    using digit(1) by (auto split: if_splits)
  define bs where "bs = (if n < 128 then rest else varint (n div 128) @ rest)"
  have "input s = b # bs"
    using assms(2) by (simp add: b_def bs_def varint.simps [of n])
  then obtain s1 where s1: "pb_readbyte s = Some (Some b, s1)" "took s s1 1" "open_at s1" "input s1 = bs"
    using pb_readbyte_Cons [OF assms(1)] by blast
  have bp: "unat bp = 7 * k" unfolding bp_def by (rule unat_byte_of_nat) (use assms(3) in simp)
  then have bp_less: "bp \<ge> 32 \<longleftrightarrow> 5 \<le> k" "bp < 63 \<longleftrightarrow> k < 9"
    by (auto simp: word_le_nat_alt word_less_nat_alt)
  have "unat (of_nat (7 * Suc k) :: byte) = 7 * Suc k"
    by (rule unat_byte_of_nat) (use assms(3) in simp)
  then have last: "of_nat (7 * Suc k) = (35 :: byte) \<longleftrightarrow> k = 4"
    by (auto simp: word_unat_eq_iff simp del: of_nat_mult of_nat_Suc)
  have b_1: "128 \<le> n \<Longrightarrow> b \<noteq> 1" using low(2) by auto
  define nb where "nb = bp + 7"
  have nb: "of_nat (7 * Suc k) = nb" by (simp add: nb_def bp_def add.commute)
  have nb_last: "nb = 35 \<longleftrightarrow> k = 4" using last unfolding nb .
  have "unat (b AND 0x7F) = n mod 128" using low by (simp add: and_7F word_nat)
  then have bits: "b AND 0x7F = 0 \<longleftrightarrow> n mod 128 = 0" "b AND 0x80 = 0 \<longleftrightarrow> \<not> 128 \<le> n"
    "\<not> 128 \<le> n \<Longrightarrow> b AND 0x70 = 0 \<longleftrightarrow> \<not> 16 \<le> n"
    using and_80 [of b] low digit and_70 [of b] by (auto simp: unat_eq_zero [symmetric] not_le)
  have r1: "r OR push_bit (unat bp) (ucast (b AND 0x7F)) = r OR push_bit (7 * k) (of_nat (n mod 128))"
    using low by (simp add: bp and_7F_byte)
  have "128 \<le> n \<Longrightarrow> input s1 = varint (n div 128) @ rest"
    using s1(4) by (simp add: bs_def)
  moreover have "varint32_loop s r bp =
       (let overflow = (5 \<le> k \<and> n mod 128 \<noteq> 0
                        \<and> (drop_bit 31 r = 0 \<or> b \<noteq> (if k < 9 then 0xFF else 1)));
            r1 = (if 5 \<le> k then r else r OR push_bit (7 * k) (of_nat (n mod 128)))
        in if overflow then Some (None, set_errmsg s1 ''varint overflow'')
           else if 128 \<le> n then varint32_loop s1 r1 nb
           else if k = 4 \<and> 16 \<le> n then Some (None, set_errmsg s1 ''varint overflow'')
           else Some (Some r1, s1))"
    by (subst varint32_loop.simps [of s r bp, folded nb_def])
      (auto simp: s1(1) Let_def bp_less nb_last bits r1 b_1)
  ultimately show ?thesis unfolding nb using s1(2,3) by blast
qed

lemma varint32_step_low:
  assumes "open_at s" and "input s = varint n @ rest" and "k \<le> 4"
  obtains s1 where "took s s1 1" "open_at s1" "128 \<le> n \<longrightarrow> input s1 = varint (n div 128) @ rest"
    "varint32_loop s r (of_nat (7 * k)) =
       (let r1 = r OR push_bit (7 * k) (of_nat (n mod 128))
        in if 128 \<le> n then varint32_loop s1 r1 (of_nat (7 * Suc k))
           else if k = 4 \<and> 16 \<le> n then Some (None, set_errmsg s1 ''varint overflow'')
           else Some (Some r1, s1))"
  using varint32_step [OF assms(1,2), of k r] assms(3) by auto

text \<open>A value of at most 32 bits.\<close>

lemma varint32_loop_fits:
  assumes "open_at s" and "input s = varint n @ rest" and "k \<le> 4" and "take_bit (7 * k) r = r"
    and "unat r + n * 2 ^ (7 * k) < 4294967296"
  shows "\<exists>s'. varint32_loop s r (of_nat (7 * k)) = Some (Some (r + of_nat n * 2 ^ (7 * k)), s')
           \<and> took s s' (length (varint n))"
  using assms
proof (induction n arbitrary: s k r rule: varint.induct)
  case (1 n)
  obtain s1 where s1: "took s s1 1" "open_at s1" "128 \<le> n \<longrightarrow> input s1 = varint (n div 128) @ rest"
    and step: "varint32_loop s r (of_nat (7 * k)) =
       (let r1 = r OR push_bit (7 * k) (of_nat (n mod 128))
        in if 128 \<le> n then varint32_loop s1 r1 (of_nat (7 * Suc k))
           else if k = 4 \<and> 16 \<le> n then Some (None, set_errmsg s1 ''varint overflow'')
           else Some (Some r1, s1))"
    using varint32_step_low [OF "1.prems"(1-3)] by blast
  define r1 where "r1 = r + of_nat (n mod 128) * 2 ^ (7 * k)"
  have r1: "r OR push_bit (7 * k) (of_nat (n mod 128)) = r1"
    using "1.prems"(4) by (simp add: r1_def or_push_add)
  show ?case
  proof (cases "128 \<le> n")
    case False
    then have "\<not> (k = 4 \<and> 16 \<le> n)" using "1.prems"(5) by auto
    then show ?thesis using False s1(1) step r1 by (auto simp: r1_def varint.simps [of n])
  next
    case True
    have k: "k < 4"
      using True "1.prems"(3,5) by (cases "k = 4") auto
    have "take_bit 7 (of_nat (n mod 128) :: u32) = of_nat (n mod 128)"
      by (simp only: take_bit_of_nat) (simp add: take_bit_eq_mod)
    then have low: "take_bit (7 * Suc k) r1 = r1"
      using take_bit_or_push [OF "1.prems"(4)] r1 by (metis mult_Suc_right add.commute)
    have "n * 2 ^ (7 * k) = (n mod 128 + 128 * (n div 128)) * 2 ^ (7 * k)" by simp
    also have "\<dots> = n mod 128 * 2 ^ (7 * k) + n div 128 * 2 ^ (7 * Suc k)"
      by (simp only: mult_Suc_right power_add distrib_right) simp
    finally have "n * 2 ^ (7 * k) = n mod 128 * 2 ^ (7 * k) + n div 128 * 2 ^ (7 * Suc k)" .
    then have "unat r1 + n div 128 * 2 ^ (7 * Suc k) < 4294967296"
      using "1.prems"(5) unat_add_shifted [of r "n mod 128" "7 * k"] by (simp add: r1_def)
    then obtain s' where s': "varint32_loop s1 r1 (of_nat (7 * Suc k))
        = Some (Some (r1 + of_nat (n div 128) * 2 ^ (7 * Suc k)), s')"
      "took s1 s' (length (varint (n div 128)))"
      using "1.IH" [OF _ s1(2) _ _ low] True s1(3) k by auto
    have "(of_nat n :: u32) = of_nat (n mod 128) + 128 * of_nat (n div 128)"
      by (metis mod_mult_div_eq of_nat_add of_nat_mult of_nat_numeral)
    then have "r1 + of_nat (n div 128) * 2 ^ (7 * Suc k) = r + of_nat n * 2 ^ (7 * k)"
      by (simp add: r1_def power_add algebra_simps)
    then show ?thesis
      using True s' step r1 took_trans [OF s1(1) s'(2)] by (auto simp: varint.simps [of n])
  qed
qed

text \<open>A 64-bit value that is neither a 32-bit value nor negative.\<close>

lemma varint32_loop_high:
  assumes "open_at s" and "input s = varint n @ rest" and "5 \<le> k" and "0 < n" and "n < 2 ^ (63 - 7 * k)"
  shows "\<exists>s'. varint32_loop s r (of_nat (7 * k)) = Some (None, s') \<and> failed s s'"
  using assms
proof (induction n arbitrary: s k r rule: varint.induct)
  case (1 n)
  have k: "k < 9" using "1.prems"(4,5) by (cases "k < 9") auto
  obtain s1 where s1: "took s s1 1" "open_at s1" "128 \<le> n \<longrightarrow> input s1 = varint (n div 128) @ rest"
    and step: "varint32_loop s r (of_nat (7 * k)) =
       (if n mod 128 \<noteq> 0 \<and> (drop_bit 31 r = 0 \<or> (of_nat (if n < 128 then n else n mod 128 + 128) :: byte) \<noteq> 0xFF)
        then Some (None, set_errmsg s1 ''varint overflow'')
        else if 128 \<le> n then varint32_loop s1 r (of_nat (7 * Suc k))
        else Some (Some r, s1))"
    using varint32_step [OF "1.prems"(1,2), of k r] "1.prems"(3) k by auto
  have fail: "failed s (set_errmsg s1 msg)" for msg
    using s1(1) by (auto simp: took_def intro: failed_set_errmsg)
  show ?case
  proof (cases "128 \<le> n")
    case False
    then have "unat (of_nat n :: byte) < 128" by (simp add: unat_byte_of_nat)
    then have "(of_nat n :: byte) \<noteq> 0xFF" by (intro notI) simp
    then show ?thesis using False "1.prems"(4) step fail by auto
  next
    case True
    have "(2 :: nat) ^ 7 < 2 ^ (63 - 7 * k)" using "1.prems"(5) True by simp
    then have "63 - 7 * k = 7 + (63 - 7 * Suc k)" by (subst (asm) power_strict_increasing_iff) auto
    then have "(2 :: nat) ^ (63 - 7 * k) = 128 * 2 ^ (63 - 7 * Suc k)"
      by (simp only: power_add) simp
    then have "n div 128 < 2 ^ (63 - 7 * Suc k)"
      using "1.prems"(5) by (simp add: div_less_iff_less_mult mult.commute)
    then have "\<exists>s'. varint32_loop s1 r (of_nat (7 * Suc k)) = Some (None, s') \<and> failed s1 s'"
      using "1.IH" [OF _ s1(2), of "Suc k" r] True s1(3) "1.prems"(3) by auto
    then show ?thesis using True step fail took_failed [OF s1(1)] by auto
  qed
qed

text \<open>The first five digits of a value that needs more than 32 bits.\<close>

lemma varint32_loop_big:
  assumes "open_at s" and "input s = varint n @ rest" and "k \<le> 4" and "take_bit (7 * k) r = r"
    and "unat r < 2 ^ (7 * k)" and "4294967296 \<le> unat r + n * 2 ^ (7 * k)"
  shows "if n < 2 ^ (7 * (5 - k))
    then \<exists>s'. varint32_loop s r (of_nat (7 * k)) = Some (None, s') \<and> failed s s'
    else \<exists>s1. took s s1 (5 - k) \<and> open_at s1 \<and> input s1 = varint (n div 2 ^ (7 * (5 - k))) @ rest
      \<and> varint32_loop s r (of_nat (7 * k)) = varint32_loop s1 (r + of_nat n * 2 ^ (7 * k)) 35"
  using assms
proof (induction "4 - k" arbitrary: s k r n)
  case 0
  then have k: "k = 4" by simp
  obtain s1 where s1: "took s s1 1" "open_at s1" "128 \<le> n \<longrightarrow> input s1 = varint (n div 128) @ rest"
    and step: "varint32_loop s r (of_nat (7 * k)) =
       (let r1 = r OR push_bit (7 * k) (of_nat (n mod 128))
        in if 128 \<le> n then varint32_loop s1 r1 (of_nat (7 * Suc k))
           else if k = 4 \<and> 16 \<le> n then Some (None, set_errmsg s1 ''varint overflow'')
           else Some (Some r1, s1))"
    using varint32_step_low [OF "0.prems"(1-3)] by blast
  have n: "16 \<le> n" using "0.prems"(5,6) k by simp
  have r1: "r OR push_bit 28 (of_nat (n mod 128)) = r + of_nat n * 2 ^ 28"
  proof -
    have "(of_nat n :: u32) = of_nat (n mod 128) + 128 * of_nat (n div 128)"
      by (metis mod_mult_div_eq of_nat_add of_nat_mult of_nat_numeral)
    then have "of_nat n * 2 ^ 28 = (of_nat (n mod 128) * 2 ^ 28 + of_nat (n div 128) * 34359738368 :: u32)"
      by (simp add: algebra_simps)
    also have "(34359738368 :: u32) = 0" by code_simp
    finally have "of_nat n * 2 ^ 28 = (of_nat (n mod 128) * 2 ^ 28 :: u32)"
      by (simp only: mult_zero_right add_0_right)
    then show ?thesis using "0.prems"(4) k or_push_add [of 28 r] by simp
  qed
  show ?case
  proof (cases "128 \<le> n")
    case False
    then show ?thesis
      using step n k s1(1) failed_set_errmsg by (auto simp: took_def)
  next
    case True
    then show ?thesis using step s1 r1 k by (auto intro!: exI [of _ s1])
  qed
next
  case (Suc j)
  then have k: "k < 4" by simp
  obtain s1 where s1: "took s s1 1" "open_at s1" "128 \<le> n \<longrightarrow> input s1 = varint (n div 128) @ rest"
    and step: "varint32_loop s r (of_nat (7 * k)) =
       (let r1 = r OR push_bit (7 * k) (of_nat (n mod 128))
        in if 128 \<le> n then varint32_loop s1 r1 (of_nat (7 * Suc k))
           else if k = 4 \<and> 16 \<le> n then Some (None, set_errmsg s1 ''varint overflow'')
           else Some (Some r1, s1))"
    using varint32_step_low [OF Suc.prems(1-3)] by blast
  have n: "128 \<le> n"
  proof (rule ccontr)
    assume "\<not> 128 \<le> n"
    then have "n * 2 ^ (7 * k) \<le> 127 * 2 ^ (7 * k)" by (intro mult_right_mono) auto
    moreover have "(2 :: nat) ^ (7 * k) \<le> 2 ^ 21" by (rule power_increasing) (use k in auto)
    then have "(2 :: nat) ^ (7 * k) \<le> 2097152" by simp
    ultimately show False using Suc.prems(5,6) by linarith
  qed
  define r1 where "r1 = r + of_nat (n mod 128) * 2 ^ (7 * k)"
  have r1: "r OR push_bit (7 * k) (of_nat (n mod 128)) = r1"
    using Suc.prems(4) by (simp add: r1_def or_push_add)
  have "take_bit 7 (of_nat (n mod 128) :: u32) = of_nat (n mod 128)"
    by (simp only: take_bit_of_nat) (simp add: take_bit_eq_mod)
  then have low: "take_bit (7 * Suc k) r1 = r1"
    using take_bit_or_push [OF Suc.prems(4)] r1 by (metis mult_Suc_right add.commute)
  then have small: "unat r1 < 2 ^ (7 * Suc k)"
    using unat_take_bit_mod [of "7 * Suc k" r1] by (metis mod_less_divisor zero_less_numeral zero_less_power)
  have "unat r + n mod 128 * 2 ^ (7 * k) < 2 ^ (7 * Suc k)"
  proof -
    have "n mod 128 * 2 ^ (7 * k) \<le> 127 * 2 ^ (7 * k)"
      by (rule mult_right_mono) (use mod_less_divisor [of 128 n] in linarith, simp)
    then have "unat r + n mod 128 * 2 ^ (7 * k) < 128 * 2 ^ (7 * k)" using Suc.prems(5) by linarith
    then show ?thesis by (simp add: power_add)
  qed
  also have "(2 :: nat) ^ (7 * Suc k) \<le> 2 ^ 28" by (rule power_increasing) (use k in auto)
  finally have "unat r1 = unat r + n mod 128 * 2 ^ (7 * k)"
    unfolding r1_def by (intro unat_add_shifted) simp
  moreover have split_n: "n * 2 ^ (7 * k) = n mod 128 * 2 ^ (7 * k) + n div 128 * 2 ^ (7 * Suc k)"
  proof -
    have "n * 2 ^ (7 * k) = (n mod 128 + 128 * (n div 128)) * 2 ^ (7 * k)" by simp
    also have "\<dots> = n mod 128 * 2 ^ (7 * k) + n div 128 * 2 ^ (7 * Suc k)"
      by (simp only: mult_Suc_right power_add distrib_right) simp
    finally show ?thesis .
  qed
  ultimately have big: "4294967296 \<le> unat r1 + n div 128 * 2 ^ (7 * Suc k)"
    using Suc.prems(6) by simp
  have word: "r1 + of_nat (n div 128) * 2 ^ (7 * Suc k) = r + of_nat n * 2 ^ (7 * k)"
    using split_n [THEN arg_cong, of "of_nat :: nat \<Rightarrow> u32"] by (simp add: r1_def del: mult_Suc_right)
  have count: "5 - k = Suc (5 - Suc k)" "7 * (5 - k) = 7 + 7 * (5 - Suc k)" using k by auto
  have five: "(2 :: nat) ^ (7 * (5 - k)) = 128 * 2 ^ (7 * (5 - Suc k))"
    unfolding count(2) power_add by simp
  have less: "(n div 128 < 2 ^ (7 * (5 - Suc k))) = (n < 2 ^ (7 * (5 - k)))"
    unfolding five by (simp only: div_less_iff_less_mult zero_less_numeral mult.commute)
  have divs: "n div 128 div 2 ^ (7 * (5 - Suc k)) = n div 2 ^ (7 * (5 - k))"
    unfolding five by (simp only: div_mult2_eq)
  have loop: "varint32_loop s r (of_nat (7 * k)) = varint32_loop s1 r1 (of_nat (7 * Suc k))"
    using step n r1 by (simp add: Let_def)
  have j: "j = 4 - Suc k" using Suc.hyps(2) by simp
  note ih = Suc.hyps(1) [OF j s1(2) s1(3) [rule_format, OF n] _ low small big, unfolded less divs word]
  show ?case
  proof (cases "n < 2 ^ (7 * (5 - k))")
    case True
    then show ?thesis using ih k loop took_failed [OF s1(1)] by auto
  next
    case False
    then show ?thesis
      using ih k loop took_trans [OF s1(1)] count(1) by auto
  qed
qed

text \<open>The last five digits of a negative \<^verbatim>\<open>int32\<close>: every bit is set.\<close>

lemma varint32_loop_ones:
  assumes "open_at s" and "input s = varint n @ rest" and "5 \<le> k" and "k \<le> 9"
    and "n = 2 ^ (64 - 7 * k) - 1" and "drop_bit 31 r \<noteq> 0"
  shows "\<exists>s'. varint32_loop s r (of_nat (7 * k)) = Some (Some r, s') \<and> took s s' (length (varint n))"
  using assms
proof (induction "9 - k" arbitrary: s k n)
  case 0
  then have k: "k = 9" and n: "n = 1" by simp_all
  then show ?case
    using varint32_step [OF "0.prems"(1,2), of k r] "0.prems"(6) by (auto simp: varint_small)
next
  case (Suc j)
  then have k: "k < 9" by simp
  then have "64 - 7 * k = 8 + (56 - 7 * k)" by simp
  then have pow: "(2 :: nat) ^ (64 - 7 * k) = 256 * 2 ^ (56 - 7 * k)"
    by (simp only: power_add) simp
  have two: "(2 :: nat) ^ (57 - 7 * k) = 2 * 2 ^ (56 - 7 * k)"
    using k by (simp add: Suc_diff_le flip: power_Suc)
  have "1 \<le> e \<Longrightarrow> m = 256 * e - 1 \<Longrightarrow> m = 127 + 128 * (2 * e - 1) \<and> 128 \<le> m" for e m :: nat
    by arith
  from this [of "2 ^ (56 - 7 * k)" n] have split_n: "n = 127 + 128 * (2 ^ (57 - 7 * k) - 1)" "128 \<le> n"
    using Suc.prems(5) pow two by auto
  then have n: "n mod 128 = 127" "n div 128 = 2 ^ (64 - 7 * Suc k) - 1" "(of_nat (n mod 128 + 128) :: byte) = 0xFF"
    by simp_all
  obtain s1 where s1: "took s s1 1" "open_at s1" "input s1 = varint (n div 128) @ rest"
    and step: "varint32_loop s r (of_nat (7 * k)) = varint32_loop s1 r (of_nat (7 * Suc k))"
    using varint32_step [OF Suc.prems(1,2), of k r] Suc.prems(3,6) k n split_n(2) by (auto simp: Let_def)
  have "j = 9 - Suc k" using Suc.hyps(2) by simp
  then show ?case
    using Suc.hyps(1) [OF _ s1(2,3) _ _ n(2) Suc.prems(6)] step Suc.prems(3) k
      took_trans [OF s1(1)] split_n(2) by (auto simp: varint.simps [of n])
qed

lemma pb_decode_varint32_eof_loop:
  assumes "open_at s" and "input s \<noteq> []"
  shows "pb_decode_varint32_eof s = map_option (\<lambda>(r, s). (r, False, s)) (varint32_loop s 0 0)"
proof -
  obtain b bs where "input s = b # bs" using assms(2) by (cases "input s") auto
  then obtain s1 where s1: "pb_readbyte s = Some (Some b, s1)" using pb_readbyte_Cons [OF assms(1)] by blast
  have "b AND 0x80 = 0 \<Longrightarrow> ucast (b AND 0x7F) = (ucast b :: u32)"
    by (simp add: and_80 and_7F_byte)
  then show ?thesis
    using s1 by (auto simp: pb_decode_varint32_eof_def varint32_loop.simps [of s 0 0] Let_def)
qed

lemma pb_decode_varint32_eof_end:
  assumes "open_at s" and "input s = []"
  shows "pb_decode_varint32_eof s = Some (None, True, set_errmsg s ''end-of-stream'')"
  using pb_readbyte_Nil [OF assms] assms input_Nil [of s]
  by (simp add: pb_decode_varint32_eof_def set_errmsg_def)

lemma pb_decode_varint32_eof_ok:
  assumes "open_at s" and "input s = varint n @ rest" and "n < 4294967296"
  shows "\<exists>s'. pb_decode_varint32_eof s = Some (Some (of_nat n), False, s') \<and> took s s' (length (varint n))"
  using varint32_loop_fits [OF assms(1,2), of 0 0] assms(3) pb_decode_varint32_eof_loop [OF assms(1)] assms(2)
  by auto

lemma pb_decode_varint32_ok:
  assumes "open_at s" and "input s = varint n @ rest" and "n < 4294967296"
  shows "\<exists>s'. pb_decode_varint32 s = Some (Some (of_nat n), s') \<and> took s s' (length (varint n))"
  using pb_decode_varint32_eof_ok [OF assms] by (auto simp: pb_decode_varint32_def)

lemma pb_decode_varint32_negative:
  fixes v :: u64
  assumes "open_at s" and "input s = varint (unat v) @ rest" and "18446744071562067968 \<le> v"
  shows "\<exists>s'. pb_decode_varint32 s = Some (Some (ucast v), s') \<and> took s s' (length (varint (unat v)))"
proof -
  have v: "18446744071562067968 \<le> unat v" using assms(3) by (simp add: word_le_nat_alt)
  note big = varint32_loop_big [OF assms(1,2), of 0 0, simplified]
  obtain s1 where s1: "took s s1 5" "open_at s1" "input s1 = varint (unat v div 34359738368) @ rest"
    "varint32_loop s 0 0 = varint32_loop s1 (of_nat (unat v)) 35"
    using big v by auto
  have n: "unat v div 34359738368 = 2 ^ (64 - 7 * 5) - 1"
    using v unat_lt_64 [of v] by (intro div_nat_eqI) auto
  have "unat (ucast v :: u32) = unat v mod 4294967296"
    by (simp add: unsigned_ucast_eq take_bit_eq_mod)
  also have "\<dots> = unat v - 18446744069414584320"
  proof (rule mod_nat_eqI)
    show "unat v - 18446744069414584320 < 4294967296" using unat_lt_64 [of v] by linarith
  qed (use v in auto)
  finally have "unat (drop_bit 31 (ucast v :: u32)) \<noteq> 0"
    using v by (simp add: unat_drop_bit_div div_eq_0_iff)
  then have "drop_bit 31 (ucast v :: u32) \<noteq> 0" by (metis unsigned_0)
  then obtain s' where "varint32_loop s1 (ucast v) 35 = Some (Some (ucast v), s')"
    "took s1 s' (length (varint (unat v div 34359738368)))"
    using varint32_loop_ones [OF s1(2,3) _ _ n, of "ucast v"] by auto
  moreover have "length (varint (unat v)) = 5 + length (varint (unat v div 34359738368))"
    using length_varint_div [of 5 "unat v"] v by simp
  ultimately show ?thesis
    using pb_decode_varint32_eof_loop [OF assms(1)] assms(2) s1(1,4) took_trans [OF s1(1)]
    by (auto simp: pb_decode_varint32_def)
qed

lemma pb_decode_varint32_rejects:
  assumes "open_at s" and "input s = varint n @ rest" and "4294967296 \<le> n" and "n < 9223372036854775808"
  shows "\<exists>s'. pb_decode_varint32 s = Some (None, s') \<and> failed s s'"
proof -
  have eof: "pb_decode_varint32 s = varint32_loop s 0 0"
    using pb_decode_varint32_eof_loop [OF assms(1)] assms(2)
    by (cases "varint32_loop s 0 0") (auto simp: pb_decode_varint32_def)
  note big = varint32_loop_big [OF assms(1,2), of 0 0, simplified, OF assms(3)]
  show ?thesis
  proof (cases "n < 34359738368")
    case True
    then show ?thesis using big eof by simp
  next
    case False
    then obtain s1 where s1: "took s s1 5" "open_at s1" "input s1 = varint (n div 34359738368) @ rest"
      "varint32_loop s 0 0 = varint32_loop s1 (of_nat n) 35"
      using big by auto
    have "n div 34359738368 < 2 ^ (63 - 7 * 5)" using assms(4) by (simp add: div_less_iff_less_mult)
    moreover have "0 < n div 34359738368" using False by (simp add: div_greater_zero_iff)
    ultimately show ?thesis
      using varint32_loop_high [OF s1(2,3), of 5 "of_nat n"] eof s1(4) took_failed [OF s1(1)] by auto
  qed
qed

end

end
