(* ===== verification/PB_Values.thy ===== *)
theory PB_Values
  imports PB_Varint
begin

text \<open>
  Tags, fixed-width values, skipping and substreams over any source that meets the contract of
  \<open>byte_source\<close>, the interpretation of the contract on \<open>buf_read\<close>, and the properties of the
  value decoders on memory buffers.
\<close>

section \<open>Values over a source\<close>

context byte_source
begin

lemma pb_decode_tag_ok:
  assumes "open_at s" and "input s = varint (8 * t + w) @ rest" and "0 < t" and "t < 536870912" and "w < 8"
  shows "\<exists>s'. pb_decode_tag s = Some (True, of_nat w, of_nat t, False, s')
           \<and> took s s' (length (varint (8 * t + w)))"
proof -
  let ?n = "8 * t + w"
  have n: "?n < 4294967296" "0 < ?n" using assms(3-5) by auto
  obtain s' where s': "pb_decode_varint32_eof s = Some (Some (of_nat ?n), False, s')"
    "took s s' (length (varint ?n))"
    using pb_decode_varint32_eof_ok [OF assms(1,2) n(1)] by auto
  have u: "unat (of_nat ?n :: u32) = ?n" using n(1) by (rule unat_of_nat_32)
  have "of_nat ?n \<noteq> (0 :: u32)" using u n(2) by (metis less_numeral_extra(3) unsigned_0)
  moreover have "unat (drop_bit 3 (of_nat ?n :: u32)) = t"
    using assms(5) by (simp only: unat_drop_bit_div u) simp
  then have "drop_bit 3 (of_nat ?n :: u32) = of_nat t" by (metis of_nat_unat ucast_id)
  moreover have "of_nat ?n AND 7 = (take_bit 3 (of_nat ?n) :: u32)"
    by (simp add: take_bit_eq_mask mask_eq_exp_minus_1)
  then have "unat (of_nat ?n AND 7 :: u32) = w"
    using assms(5) by (simp only: unat_take_bit_mod u) simp
  then have "of_nat ?n AND 7 = (of_nat w :: u32)" by (metis of_nat_unat ucast_id)
  ultimately show ?thesis using s' by (auto simp: pb_decode_tag_def)
qed

lemma pb_decode_tag_end:
  assumes "open_at s" and "input s = []"
  shows "pb_decode_tag s = Some (False, 0, 0, True, set_errmsg s ''end-of-stream'')"
  using pb_decode_varint32_eof_end [OF assms] by (simp add: pb_decode_tag_def)

lemma pb_skip_varint_ok:
  assumes "open_at s" and "input s = varint n @ rest"
  shows "\<exists>s'. pb_skip_varint s = Some (True, s') \<and> took s s' (length (varint n))"
  using assms
proof (induction n arbitrary: s rule: varint.induct)
  case (1 n)
  let ?b = "of_nat (if n < 128 then n else n mod 128 + 128) :: byte"
  have "n mod 128 < 128" by simp
  then have b: "unat ?b < 128 \<longleftrightarrow> n < 128" by (auto simp: unat_of_nat)
  have inp: "input s = ?b # (if n < 128 then rest else varint (n div 128) @ rest)"
    using "1.prems"(2) by (simp add: varint.simps [of n])
  have left: "unat (1 :: size_t) \<le> unat (is_bytes_left s)"
    using inp length_input [OF "1.prems"(1)] by (cases "unat (is_bytes_left s)") auto
  obtain s1 where s1: "pb_read_local s 1 = Some (Some [?b], s1)" "took s s1 1"
    using pb_read_local_ok [OF "1.prems"(1) left] inp by auto
  note open1 = took_open [OF "1.prems"(1) s1(2)]
  show ?case
  proof (cases "n < 128")
    case True
    then show ?thesis
      using s1 b and_80 [of ?b] by (auto simp: pb_skip_varint.simps [of s] varint.simps [of n])
  next
    case False
    then obtain s' where "pb_skip_varint s1 = Some (True, s')" "took s1 s' (length (varint (n div 128)))"
      using "1.IH" [of s1] open1 inp by auto
    then show ?thesis
      using False s1 b and_80 [of ?b] took_trans [OF s1(2)]
      by (auto simp: pb_skip_varint.simps [of s] varint.simps [of n])
  qed
qed

lemma pb_skip_string_ok:
  assumes "open_at s" and "input s = varint (length bs) @ bs @ rest" and "length bs < 4294967296"
  shows "\<exists>s'. pb_skip_string s = Some (True, s') \<and> took s s' (length (varint (length bs)) + length bs)"
proof -
  obtain s1 where s1: "pb_decode_varint32 s = Some (Some (of_nat (length bs)), s1)"
    "took s s1 (length (varint (length bs)))"
    using pb_decode_varint32_ok [OF assms] by auto
  note o1 = took_open [OF assms(1) s1(2)]
  have len: "unat (ucast (of_nat (length bs) :: u32) :: size_t) = length bs"
    using assms(3) by simp
  then have "unat (ucast (of_nat (length bs) :: u32) :: size_t) \<le> unat (is_bytes_left s1)"
    using o1 assms(2) length_input [of s1] by simp
  from pb_skip_bytes_ok [OF _ this] o1 len show ?thesis
    using s1 took_trans [OF s1(2)] by (auto simp: pb_skip_string_def)
qed

text \<open>A field that is skipped is skipped exactly.\<close>

lemma pb_skip_field_ok:
  assumes "open_at s" and "input s = ser_val v @ rest"
    and "length (ser_val v) < 4294967296"
  shows "\<exists>s'. pb_skip_field s (of_nat (wire_type v)) = Some (True, s') \<and> took s s' (length (ser_val v))"
proof (cases v)
  case (WVarint w)
  then show ?thesis using pb_skip_varint_ok [OF assms(1)] assms(2) by (simp add: pb_skip_field_def)
next
  case (WFixed64 w)
  then have "unat (8 :: size_t) \<le> unat (is_bytes_left s)"
    using length_input [OF assms(1)] assms(2) by simp
  from pb_skip_bytes_ok [OF assms(1) this] show ?thesis
    using WFixed64 by (simp add: pb_skip_field_def)
next
  case (WFixed32 w)
  then have "unat (4 :: size_t) \<le> unat (is_bytes_left s)"
    using length_input [OF assms(1)] assms(2) by simp
  from pb_skip_bytes_ok [OF assms(1) this] show ?thesis
    using WFixed32 by (simp add: pb_skip_field_def)
next
  case (WLen bs)
  then show ?thesis
    using pb_skip_string_ok [OF assms(1), of bs rest] assms(2,3) by (simp add: pb_skip_field_def)
next
  case (WMsg ws)
  then show ?thesis
    using pb_skip_string_ok [OF assms(1), of "ser_fields ws" rest] assms(2,3)
    by (simp add: pb_skip_field_def Let_def)
qed

section \<open>Any input\<close>

text \<open>
  Whatever the bytes are, a reader has a defined result and stays within the stream's limit.
\<close>

definition stays :: "'s pb_istream_t \<Rightarrow> 's pb_istream_t \<Rightarrow> bool" where
  "stays s s' \<longleftrightarrow> (\<exists>n. read_by s s' n)"

lemma stays_refl: "open_at s \<Longrightarrow> stays s s"
  using read_by_0 by (auto simp: stays_def)

lemma stays_trans: "stays s s' \<Longrightarrow> stays s' s'' \<Longrightarrow> stays s s''"
  by (auto simp: stays_def dest: read_by_trans)

lemma stays_open: "open_at s \<Longrightarrow> stays s s' \<Longrightarrow> open_at s'"
  by (auto simp: stays_def dest: read_by_open)

lemma stays_errmsg [simp]: "stays s (set_errmsg s' msg) = stays s s'"
  by (auto simp: stays_def read_by_def set_errmsg_def)

lemma took_stays: "took s s' n \<Longrightarrow> stays s s'"
  by (auto simp: stays_def took_def)

lemma failed_stays: "failed s s' \<Longrightarrow> stays s s'"
  by (auto simp: stays_def failed_def)

lemma pb_read_skip_any:
  "open_at s \<Longrightarrow> \<exists>ok s'. pb_read_skip s count = Some (ok, [], s') \<and> stays s s'"
proof (induction s count rule: pb_read_skip.induct)
  case (1 s count)
  note step = pb_read_skip.simps [of s count]
  let ?n = "if count > 16 then 16 else count"
  show ?case
  proof (cases "unat ?n \<le> unat (is_bytes_left s)")
    case False
    then show ?thesis
      using pb_read_to_short [of s ?n False] stays_refl [OF "1.prems"] by (auto simp: step)
  next
    case True
    then obtain bs s1 where s1: "pb_read_to s False ?n = Some (True, bs, s1)" "stays s s1"
      using pb_read_to_ok [OF "1.prems", of ?n False] took_stays by blast
    show ?thesis
    proof (cases "count > 16")
      case False
      then show ?thesis using s1 by (auto simp: step)
    next
      case more: True
      then show ?thesis
        using s1 "1.IH" [OF more, of "(True, bs, s1)" True "(bs, s1)" bs s1]
          stays_open [OF "1.prems" s1(2)] stays_trans [OF s1(2)] by (auto simp: step)
    qed
  qed
qed

lemma pb_read_any:
  assumes "open_at s"
  shows "\<exists>ok bs s'. pb_read s null count = Some (ok, bs, s') \<and> stays s s'
    \<and> length bs \<le> unat count \<and> (ok \<and> \<not> null \<longrightarrow> length bs = unat count)"
proof (cases "null \<and> cb \<noteq> Buf_read")
  case True
  then have "pb_read s null count = pb_read_skip s count"
    using assms by (auto simp: pb_read_def open_at_def split: pb_istream_callback.splits)
  then show ?thesis using pb_read_skip_any [OF assms, of count] True by auto
next
  case False
  then have eq: "pb_read s null count = pb_read_to s null count"
    using pb_read_eq assms unfolding open_at_def by blast
  show ?thesis
  proof (cases "unat count \<le> unat (is_bytes_left s)")
    case True
    then show ?thesis
      using eq pb_read_to_ok [OF assms True, of null] False took_stays length_input [OF assms] by auto
  next
    case short: False
    then show ?thesis
      using eq pb_read_to_short [of s count null] stays_refl [OF assms] by auto
  qed
qed

lemma pb_readbyte_any:
  assumes "open_at s"
  shows "\<exists>r s'. pb_readbyte s = Some (r, s') \<and> stays s s'"
proof (cases "input s")
  case Nil
  then show ?thesis using pb_readbyte_Nil [OF assms] stays_refl [OF assms] by simp
next
  case (Cons b bs)
  then show ?thesis using pb_readbyte_Cons [OF assms Cons] took_stays by blast
qed

lemma pb_read_local_any:
  assumes "open_at s"
  shows "\<exists>r s'. pb_read_local s count = Some (r, s') \<and> stays s s'
    \<and> (\<forall>bs. r = Some bs \<longrightarrow> length bs = unat count)"
  using pb_read_any [OF assms, of False count] by (auto simp: pb_read_local_def split: if_splits)

lemma varint32_loop_any: "open_at s \<Longrightarrow> \<exists>r' s'. varint32_loop s r bp = Some (r', s') \<and> stays s s'"
proof (induction s r bp rule: varint32_loop.induct)
  case (1 s r bp)
  obtain b s1 where b: "pb_readbyte s = Some (b, s1)" "stays s s1"
    using pb_readbyte_any [OF "1.prems"] by auto
  note step = varint32_loop.simps [of s r bp]
  show ?case
  proof (cases b)
    case None
    then show ?thesis using b by (auto simp: step)
  next
    case (Some x)
    show ?thesis
    proof (cases "(bp \<ge> 32 \<and> x AND 0x7F \<noteq> 0 \<and> (drop_bit 31 r = 0 \<or> x \<noteq> (if bp < 63 then 0xFF else 0x01)))
        \<or> x AND 0x80 = 0")
      case True
      then show ?thesis using b Some by (auto simp: step Let_def)
    next
      case False
      note ih = "1.IH" [OF b(1) refl Some refl refl refl refl]
      show ?thesis
        using ih False b Some stays_open [OF "1.prems" b(2)] stays_trans [OF b(2)]
        by (cases "bp \<ge> 32") (simp add: step Let_def; blast)+
    qed
  qed
qed

lemma pb_decode_varint32_eof_any:
  assumes "open_at s"
  shows "\<exists>r eof s'. pb_decode_varint32_eof s = Some (r, eof, s') \<and> stays s s'"
proof (cases "input s = []")
  case True
  then show ?thesis using pb_decode_varint32_eof_end [OF assms] stays_refl [OF assms] by auto
next
  case False
  then show ?thesis
    using varint32_loop_any [OF assms, of 0 0] pb_decode_varint32_eof_loop [OF assms] by auto
qed

lemma pb_decode_varint32_any: "open_at s \<Longrightarrow> \<exists>r s'. pb_decode_varint32 s = Some (r, s') \<and> stays s s'"
  using pb_decode_varint32_eof_any [of s] by (auto simp: pb_decode_varint32_def)

lemma stays_left: "stays s s' \<Longrightarrow> unat (is_bytes_left s') \<le> unat (is_bytes_left s)"
  by (auto simp: stays_def read_by_def)

lemma pb_decode_varint32_progress:
  assumes "open_at s" and "pb_decode_varint32 s = Some (Some v, s')"
  shows "unat (is_bytes_left s') < unat (is_bytes_left s)"
proof -
  obtain r s1 where r: "pb_readbyte s = Some (r, s1)" "stays s s1"
    using pb_readbyte_any [OF assms(1)] by blast
  note defs = pb_decode_varint32_def pb_decode_varint32_eof_def
  show ?thesis
  proof (cases r)
    case None
    then show ?thesis using r(1) assms(2) by (simp add: defs)
  next
    case (Some b)
    have "unat (is_bytes_left s') \<le> unat (is_bytes_left s1)"
    proof (cases "b AND 0x80 = 0")
      case True
      then show ?thesis using r(1) Some assms(2) by (simp add: defs)
    next
      case False
      then have "varint32_loop s1 (ucast (b AND 0x7F)) 7 = Some (Some v, s')"
        using r(1) Some assms(2) by (auto simp: defs)
      then show ?thesis
        using varint32_loop_any [OF stays_open [OF assms(1) r(2)], of "ucast (b AND 0x7F)" 7] stays_left
        by auto
    qed
    then show ?thesis using pb_readbyte_left [of s b s1] r(1) Some by simp
  qed
qed

lemma pb_decode_varint_any: "open_at s \<Longrightarrow> \<exists>r s'. pb_decode_varint s = Some (r, s') \<and> stays s s'"
  using pb_decode_varint_spec [of s] took_stays failed_stays by (fastforce split: option.splits)

lemma pb_decode_svarint_any: "open_at s \<Longrightarrow> \<exists>r s'. pb_decode_svarint s = Some (r, s') \<and> stays s s'"
  using pb_decode_varint_any [of s] by (auto simp: pb_decode_svarint_def)

lemma pb_decode_tag_any:
  "open_at s \<Longrightarrow> \<exists>ok wt tag eof s'. pb_decode_tag s = Some (ok, wt, tag, eof, s') \<and> stays s s'"
  using pb_decode_varint32_eof_any [of s] by (auto simp: pb_decode_tag_def split: option.splits)

lemma pb_skip_varint_any: "open_at s \<Longrightarrow> \<exists>ok s'. pb_skip_varint s = Some (ok, s') \<and> stays s s'"
proof (induction s rule: pb_skip_varint.induct)
  case (1 s)
  obtain r s1 where r: "pb_read_local s 1 = Some (r, s1)" "stays s s1"
    using pb_read_local_any [OF "1.prems", of 1] by blast
  show ?case
  proof (cases r)
    case None
    then show ?thesis using r by (auto simp: pb_skip_varint.simps [of s])
  next
    case (Some bs)
    then show ?thesis
      using r "1.IH" [OF r(1) refl Some] stays_open [OF "1.prems" r(2)] stays_trans [OF r(2)]
      by (auto simp: pb_skip_varint.simps [of s])
  qed
qed

lemma pb_skip_bytes_any: "open_at s \<Longrightarrow> \<exists>ok s'. pb_skip_bytes s count = Some (ok, s') \<and> stays s s'"
  using pb_read_any [of s True count] by (auto simp: pb_skip_bytes_def)

lemma pb_skip_string_any:
  assumes "open_at s"
  shows "\<exists>ok s'. pb_skip_string s = Some (ok, s') \<and> stays s s'"
proof -
  obtain r s1 where r: "pb_decode_varint32 s = Some (r, s1)" "stays s s1"
    using pb_decode_varint32_any [OF assms] by blast
  show ?thesis
  proof (cases r)
    case None
    then show ?thesis using r by (auto simp: pb_skip_string_def)
  next
    case (Some len)
    then show ?thesis
      using r pb_skip_bytes_any [OF stays_open [OF assms r(2)], of "ucast len"] stays_trans [OF r(2)]
      by (auto simp: pb_skip_string_def)
  qed
qed

lemma pb_skip_field_any:
  assumes "open_at s"
  shows "\<exists>ok s'. pb_skip_field s wt = Some (ok, s') \<and> stays s s'"
  using pb_skip_varint_any [OF assms] pb_skip_bytes_any [OF assms] pb_skip_string_any [OF assms]
    stays_refl [OF assms]
  by (auto simp: pb_skip_field_def)

lemma raw_varint_any: "open_at s \<Longrightarrow> \<exists>r s'. raw_varint n s = Some (r, s') \<and> stays s s'"
proof (induction n arbitrary: s)
  case 0
  then show ?case using stays_refl by simp
next
  case (Suc n)
  obtain r s1 where r: "pb_read_local s 1 = Some (r, s1)" "stays s s1"
    using pb_read_local_any [OF Suc.prems, of 1] by blast
  then show ?case
    using Suc.IH [OF stays_open [OF Suc.prems r(2)]] stays_trans [OF r(2)]
    by (cases r) auto
qed

lemma read_raw_value_any: "open_at s \<Longrightarrow> \<exists>r s'. read_raw_value s wt n = Some (r, s') \<and> stays s s'"
  using raw_varint_any [of s n] pb_read_local_any [of s 8] pb_read_local_any [of s 4] stays_refl [of s]
  by (auto simp: read_raw_value_def)

section \<open>Substreams\<close>

text \<open>
  The next \<open>w\<close> bytes of a stream as a substream: whatever part of it is read, closing it leaves
  the parent stream behind them.
\<close>

lemma substream_open:
  assumes "open_at s" and "w \<le> is_bytes_left s"
  shows "open_at (s\<lparr>is_bytes_left := w\<rparr>)" "input (s\<lparr>is_bytes_left := w\<rparr>) = take (unat w) (input s)"
  using assms by (auto simp: open_at_def input_def word_le_nat_alt min_def)

lemma substream_close:
  assumes "open_at s" and "w \<le> is_bytes_left s" and "read_by (s\<lparr>is_bytes_left := w\<rparr>) sub' n"
  shows "\<exists>s'. pb_close_string_substream (s\<lparr>is_bytes_left := is_bytes_left s - w\<rparr>) sub' = Some (True, s')
    \<and> read_by s s' (unat w) \<and> is_errmsg s' = is_errmsg sub'"
proof -
  let ?s2 = "s\<lparr>is_bytes_left := is_bytes_left s - w\<rparr>"
  have sub': "open_at sub'" using read_by_open [OF substream_open(1) assms(3)] assms(1,2) by simp
  obtain sub'' where sub'': "took sub' sub'' (unat (is_bytes_left sub'))"
    "(if is_bytes_left sub' \<noteq> 0 then pb_skip_bytes sub' (is_bytes_left sub') else Some (True, sub'))
      = Some (True, sub'')"
    using pb_skip_bytes_ok [OF sub' order.refl] took_0 [OF sub']
    by (cases "is_bytes_left sub' = 0") auto
  let ?s' = "?s2\<lparr>is_state := is_state sub'', is_errmsg := is_errmsg sub''\<rparr>"
  have "read_by (s\<lparr>is_bytes_left := w\<rparr>) sub'' (unat w)"
    using read_by_trans [OF assms(3), of sub'' "unat (is_bytes_left sub')"] sub''(1) assms(3)
    by (simp add: took_def read_by_def)
  then have "read_by s ?s' (unat w)"
    using assms(1,2) by (simp add: read_by_def open_at_def word_le_nat_alt unat_diff_le)
  moreover have "pb_close_string_substream ?s2 sub' = Some (True, ?s')"
    by (simp only: pb_close_string_substream_def sub''(2)) simp
  moreover have "is_errmsg ?s' = is_errmsg sub'" using sub''(1) by (simp add: took_def)
  ultimately show ?thesis by blast
qed

lemma pb_make_string_substream_any:
  assumes "open_at s"
  shows "\<exists>r s2. pb_make_string_substream s = Some (r, s2) \<and>
    (case r of None \<Rightarrow> stays s s2
     | Some sub \<Rightarrow> open_at sub \<and> unat (is_bytes_left sub) < unat (is_bytes_left s)
         \<and> (\<forall>sub'. stays sub sub' \<longrightarrow> (\<exists>s'. pb_close_string_substream s2 sub' = Some (True, s')
              \<and> stays s s' \<and> is_errmsg s' = is_errmsg sub')))"
proof -
  obtain r s1 where r: "pb_decode_varint32 s = Some (r, s1)" "stays s s1"
    using pb_decode_varint32_any [OF assms] by auto
  show ?thesis
  proof (cases "\<exists>sz. r = Some sz \<and> ucast sz \<le> is_bytes_left s1")
    case False
    then show ?thesis using r by (auto simp: pb_make_string_substream_def not_less split: option.splits)
  next
    case True
    then obtain sz where sz: "r = Some sz" "ucast sz \<le> is_bytes_left s1" by blast
    have o1: "open_at s1" by (rule stays_open [OF assms r(2)])
    let ?sub = "s1\<lparr>is_bytes_left := ucast sz\<rparr>"
    have "unat (is_bytes_left s1) < unat (is_bytes_left s)"
      using pb_decode_varint32_progress [OF assms] r(1) sz(1) by blast
    then have "unat (is_bytes_left ?sub) < unat (is_bytes_left s)"
      using sz(2) by (simp add: word_le_nat_alt)
    moreover have "\<exists>s'. pb_close_string_substream (s1\<lparr>is_bytes_left := is_bytes_left s1 - ucast sz\<rparr>) sub'
        = Some (True, s') \<and> stays s s' \<and> is_errmsg s' = is_errmsg sub'" if sub': "stays ?sub sub'" for sub'
    proof -
      obtain n where "read_by ?sub sub' n" using sub' unfolding stays_def by blast
      from substream_close [OF o1 sz(2) this] stays_trans [OF r(2)] show ?thesis
        unfolding stays_def by blast
    qed
    moreover have "pb_make_string_substream s
        = Some (Some ?sub, s1\<lparr>is_bytes_left := is_bytes_left s1 - ucast sz\<rparr>)"
      using r(1) sz by (simp add: pb_make_string_substream_def not_less)
    ultimately show ?thesis using substream_open(1) [OF o1 sz(2)] by simp
  qed
qed

lemma pb_make_string_substream_ok:
  assumes "open_at s" and "input s = varint (length bs) @ bs @ rest" and "length bs < 4294967296"
  shows "\<exists>sub s2. pb_make_string_substream s = Some (Some sub, s2)
    \<and> open_at sub \<and> input sub = bs \<and> is_errmsg sub = is_errmsg s
    \<and> pending (is_state sub) = drop (length (varint (length bs))) (pending (is_state s))
    \<and> (\<forall>sub' n. read_by sub sub' n \<longrightarrow> (\<exists>s'. pb_close_string_substream s2 sub' = Some (True, s')
         \<and> read_by s s' (length (varint (length bs)) + length bs) \<and> is_errmsg s' = is_errmsg sub'))"
proof -
  let ?k = "length (varint (length bs))"
  obtain s1 where s1: "pb_decode_varint32 s = Some (Some (of_nat (length bs)), s1)" "took s s1 ?k"
    using pb_decode_varint32_ok [OF assms] by auto
  have o1: "open_at s1" "input s1 = bs @ rest"
    using took_open [OF assms(1) s1(2)] assms(2) by auto
  define w where "w = (ucast (of_nat (length bs) :: u32) :: size_t)"
  have w: "unat w = length bs" using assms(3) by (simp add: w_def)
  have le: "w \<le> is_bytes_left s1"
    using length_input [OF o1(1)] o1(2) w by (simp add: word_le_nat_alt)
  have "pb_make_string_substream s
      = Some (Some (s1\<lparr>is_bytes_left := w\<rparr>), s1\<lparr>is_bytes_left := is_bytes_left s1 - w\<rparr>)"
    using s1(1) le by (simp add: pb_make_string_substream_def w_def not_less)
  moreover have msg: "is_errmsg s1 = is_errmsg s" "read_by s s1 ?k" using s1(2) by (simp_all add: took_def)
  moreover have "\<exists>s'. pb_close_string_substream (s1\<lparr>is_bytes_left := is_bytes_left s1 - w\<rparr>) sub' = Some (True, s')
      \<and> read_by s s' (?k + length bs) \<and> is_errmsg s' = is_errmsg sub'"
    if "read_by (s1\<lparr>is_bytes_left := w\<rparr>) sub' n" for sub' n
    using substream_close [OF o1(1) le that] read_by_trans [OF msg(2)] w by auto
  moreover have "input (s1\<lparr>is_bytes_left := w\<rparr>) = bs"
    using substream_open(2) [OF o1(1) le] o1(2) w by simp
  moreover have "pending (is_state s1) = drop ?k (pending (is_state s))"
    using msg(2) by (simp add: read_by_def)
  ultimately show ?thesis
    using substream_open(1) [OF o1(1) le] by (intro exI conjI) (assumption | simp)+
qed

text \<open>
  A stream may lag behind its limit: when \<^verbatim>\<open>decode_static_field\<close> returns on an overflow of a
  packed array it has taken the array off \<^verbatim>\<open>bytes_left\<close> but not moved the position. The limit
  still protects the source.
\<close>

definition lags :: "'s pb_istream_t \<Rightarrow> 's pb_istream_t \<Rightarrow> bool" where
  "lags s s' \<longleftrightarrow> is_callback s' = cb \<and> src_ok (is_state s')
     \<and> (\<exists>k. k + unat (is_bytes_left s') \<le> unat (is_bytes_left s)
          \<and> pending (is_state s') = drop k (pending (is_state s)))"

lemma read_by_lags: "read_by s s' n \<Longrightarrow> lags s s'"
  unfolding lags_def read_by_def by (intro conjI exI [of _ n]) auto

lemma stays_lags: "stays s s' \<Longrightarrow> lags s s'"
  by (auto simp: stays_def intro: read_by_lags)

lemma lags_refl: "open_at s \<Longrightarrow> lags s s"
  by (simp add: stays_lags stays_refl)

lemma lags_trans:
  assumes "lags s s'" and "lags s' s''"
  shows "lags s s''"
proof -
  obtain k j where "k + unat (is_bytes_left s') \<le> unat (is_bytes_left s)"
    "pending (is_state s') = drop k (pending (is_state s))"
    "j + unat (is_bytes_left s'') \<le> unat (is_bytes_left s')"
    "pending (is_state s'') = drop j (pending (is_state s'))"
    using assms by (auto simp: lags_def)
  then show ?thesis
    using assms(2) unfolding lags_def by (intro conjI exI [of _ "k + j"]) (auto simp: add.commute)
qed

lemma lags_open: "open_at s \<Longrightarrow> lags s s' \<Longrightarrow> open_at s'"
  by (auto simp: open_at_def lags_def)

lemma lags_errmsg [simp]: "lags s (set_errmsg s' msg) = lags s s'"
  by (simp add: lags_def set_errmsg_def)

lemma lags_left: "lags s s' \<Longrightarrow> unat (is_bytes_left s') \<le> unat (is_bytes_left s)"
  by (auto simp: lags_def)

lemma substream_close_lags:
  assumes "open_at s" and "w \<le> is_bytes_left s" and "lags (s\<lparr>is_bytes_left := w\<rparr>) sub'"
  shows "\<exists>s'. pb_close_string_substream (s\<lparr>is_bytes_left := is_bytes_left s - w\<rparr>) sub' = Some (True, s')
    \<and> lags s s'"
proof -
  let ?s2 = "s\<lparr>is_bytes_left := is_bytes_left s - w\<rparr>"
  have sub': "open_at sub'" using lags_open [OF substream_open(1) assms(3)] assms(1,2) by simp
  obtain sub'' where sub'': "took sub' sub'' (unat (is_bytes_left sub'))"
    "(if is_bytes_left sub' \<noteq> 0 then pb_skip_bytes sub' (is_bytes_left sub') else Some (True, sub'))
      = Some (True, sub'')"
    using pb_skip_bytes_ok [OF sub' order.refl] took_0 [OF sub']
    by (cases "is_bytes_left sub' = 0") auto
  let ?s' = "?s2\<lparr>is_state := is_state sub'', is_errmsg := is_errmsg sub''\<rparr>"
  obtain k where k: "k + unat (is_bytes_left sub') \<le> unat w"
    "pending (is_state sub') = drop k (pending (is_state s))"
    using assms(3) by (auto simp: lags_def)
  have left: "unat (is_bytes_left s - w) = unat (is_bytes_left s) - unat w" "unat w \<le> unat (is_bytes_left s)"
    using assms(2) by (simp_all add: unat_diff_le word_le_nat_alt)
  have "lags s ?s'"
    using sub''(1) k left assms(1) unfolding lags_def open_at_def took_def read_by_def
    by (intro conjI exI [of _ "k + unat (is_bytes_left sub')"]) (auto simp: add.commute)
  moreover have "pb_close_string_substream ?s2 sub' = Some (True, ?s')"
    by (simp only: pb_close_string_substream_def sub''(2)) simp
  ultimately show ?thesis by blast
qed

lemma pb_make_string_substream_lags:
  assumes "open_at s"
  shows "\<exists>r s2. pb_make_string_substream s = Some (r, s2) \<and> lags s s2 \<and>
    (case r of None \<Rightarrow> True
     | Some sub \<Rightarrow> open_at sub \<and> unat (is_bytes_left sub) < unat (is_bytes_left s)
         \<and> (\<forall>sub'. lags sub sub' \<longrightarrow>
              (\<exists>s'. pb_close_string_substream s2 sub' = Some (True, s') \<and> lags s s')))"
proof -
  obtain r s1 where r: "pb_decode_varint32 s = Some (r, s1)" "stays s s1"
    using pb_decode_varint32_any [OF assms] by auto
  note lag = stays_lags [OF r(2)]
  show ?thesis
  proof (cases "\<exists>sz. r = Some sz \<and> ucast sz \<le> is_bytes_left s1")
    case False
    then show ?thesis
      using r lag by (auto simp: pb_make_string_substream_def not_less split: option.splits)
  next
    case True
    then obtain sz where sz: "r = Some sz" "ucast sz \<le> is_bytes_left s1" by blast
    have o1: "open_at s1" by (rule stays_open [OF assms r(2)])
    let ?sub = "s1\<lparr>is_bytes_left := ucast sz\<rparr>" and ?s2 = "s1\<lparr>is_bytes_left := is_bytes_left s1 - ucast sz\<rparr>"
    have "unat (is_bytes_left s1) < unat (is_bytes_left s)"
      using pb_decode_varint32_progress [OF assms] r(1) sz(1) by blast
    then have "unat (is_bytes_left ?sub) < unat (is_bytes_left s)"
      using sz(2) by (simp add: word_le_nat_alt)
    moreover have "\<exists>s'. pb_close_string_substream ?s2 sub' = Some (True, s') \<and> lags s s'"
      if "lags ?sub sub'" for sub'
      using substream_close_lags [OF o1 sz(2) that] lags_trans [OF lag] by blast
    moreover have "lags s1 ?s2"
      using o1 sz(2) unfolding lags_def open_at_def
      by (intro conjI exI [of _ 0]) (auto simp: unat_diff_le word_le_nat_alt)
    then have "lags s ?s2" by (rule lags_trans [OF lag])
    moreover have "pb_make_string_substream s = Some (Some ?sub, ?s2)"
      using r(1) sz by (simp add: pb_make_string_substream_def not_less)
    ultimately show ?thesis using substream_open(1) [OF o1 sz(2)] by simp
  qed
qed

end

section \<open>Memory buffers meet the contract\<close>

fun buf_pending :: "'s pb_istream_state \<Rightarrow> byte list" where
  "buf_pending (Bufptr bs) = bs"
| "buf_pending (Ustate st) = []"

fun on_buffer :: "'s pb_istream_state \<Rightarrow> bool" where
  "on_buffer (Bufptr bs) = True"
| "on_buffer (Ustate st) = False"

interpretation src: byte_source Buf_read buf_pending on_buffer
proof (unfold_locales, goal_cases)
  case (1 st count)
  then show ?case by (cases st) auto
next
  case (2 st count)
  then show ?case by (cases st) auto
qed

text \<open>A stream over the first \<open>n\<close> bytes of a buffer that starts with them.\<close>

lemma src_from_buffer:
  assumes "unat n \<le> length bs"
  shows "src.open_at (pb_istream_from_buffer bs n) \<and> src.input (pb_istream_from_buffer bs n) = take (unat n) bs"
  using assms by (simp add: src.open_at_def src.input_def pb_istream_from_buffer_def)

lemma src_took:
  assumes "src.took (pb_istream_from_buffer bs n) s' k"
  shows "s' = pb_istream_from_buffer (drop k bs) (n - of_nat k)"
proof -
  have s': "is_callback s' = Buf_read" "on_buffer (is_state s')" "k \<le> unat n"
    "unat (is_bytes_left s') = unat n - k" "buf_pending (is_state s') = drop k bs" "is_errmsg s' = None"
    using assms by (auto simp: src.took_def src.read_by_def pb_istream_from_buffer_def)
  have k: "unat (of_nat k :: size_t) = k" using s'(3) unat_lt_64 [of n] by (intro unat_of_nat_64) linarith
  then have "unat (n - of_nat k) = unat n - k"
    using s'(3) by (subst unat_diff_le) (auto simp: word_le_nat_alt)
  then have "is_bytes_left s' = n - of_nat k" using s'(4) by (metis word_unat_eq_iff)
  moreover have "is_state s' = Bufptr (drop k bs)" using s'(2,5) by (cases "is_state s'") auto
  ultimately show ?thesis using s'(1,6) by (simp add: pb_istream_from_buffer_def)
qed

end
