(* ===== verification/PB_Safety.thy ===== *)
theory PB_Safety
  imports PB_Static PB_Values
begin

text \<open>
  The decoder on arbitrary input: for plain descriptors and any source that meets the
  contract of \<open>byte_source\<close>, every function of \<^verbatim>\<open>pb_decode.c\<close> has a defined result, reads
  within the stream's limit and writes within the structure.
\<close>

section \<open>Setting a message to its default values\<close>

text \<open>A step over fields that stays in the structure, and the walk over all fields.\<close>

lemma for_fields_frame:
  assumes step: "\<And>it i m. iter_at fs dest it i \<Longrightarrow> valid m a S \<Longrightarrow> \<exists>m'. step it m = Some m' \<and> frame a S m m'"
    and "iter_at fs dest it i" and "valid m a S"
  shows "\<exists>m'. for_fields step it m = Some m' \<and> frame a S m m'"
  using assms(2,3)
proof (induction "field_count fs - i" arbitrary: it i m rule: less_induct)
  case less
  obtain m1 where m1: "step it m = Some m1" "frame a S m m1" using step [OF less.prems] by blast
  note nx = iter_at_next [OF less.prems(1)]
  have i: "i < field_count fs" using less.prems(1) by (simp add: iter_at_def)
  show ?case
  proof (cases "Suc i < field_count fs")
    case True
    have "field_count fs - Suc i < field_count fs - i" using i by simp
    then obtain m2 where "for_fields step (snd (pb_field_iter_next it)) m1 = Some m2" "frame a S m1 m2"
      using less.hyps [of "Suc i" "snd (pb_field_iter_next it)" m1] True nx i
        frame_valid [OF m1(2)] less.prems(2) by auto
    then show ?thesis
      using True nx m1 frame_trans by (fastforce simp: for_fields.simps [of step it] Let_def)
  next
    case False
    then show ?thesis using nx m1 by (simp add: for_fields.simps [of step it] Let_def)
  qed
qed

lemma for_message_frame:
  assumes "\<And>it i m. iter_at fs dest it i \<Longrightarrow> valid m a S \<Longrightarrow> \<exists>m'. step it m = Some m' \<and> frame a S m m'"
    and "0 < field_count fs" and "valid m a S"
  shows "\<exists>m'. for_message step (PB_FIELDS fs) dest m = Some m' \<and> frame a S m m'"
  using for_fields_frame [OF assms(1) iter_at_begin [OF assms(2)] assms(3)] assms(2)
    begin_True_iff [of fs dest] by (simp add: for_message_def Let_def)

lemma store_counter_frame:
  assumes "plain_at n a S it" and "htype (it_field it) = PB_HTYPE_REPEATED" and "valid m a S"
  shows "\<exists>m'. store_size m (it_pSize it) c = Some m' \<and> frame a S m m'"
    and "\<exists>c. load_size m (it_pSize it) = Some c"
proof -
  obtain q where q: "it_pSize it = SizeAt q" "part a S q 4" using plain_counter [OF assms(1,2)] by blast
  note v = part_valid [OF q(2) assms(3)]
  show "\<exists>m'. store_size m (it_pSize it) c = Some m' \<and> frame a S m m'"
    using stores_frame(4) [OF v, of c] part_frame [OF q(2)] q(1) by (auto simp: store_size_def)
  show "\<exists>c. load_size m (it_pSize it) = Some c"
    using loads_valid(1) [OF v] q(1) by (simp add: load_size_def)
qed

lemma store_has_frame:
  assumes "plain_at n a S it" and "valid m a S"
  shows "\<exists>m'. (if htype (it_field it) = PB_HTYPE_OPTIONAL \<and> \<not> no_size it
      then store_has m (it_pSize it) b else Some m) = Some m' \<and> frame a S m m'"
proof (cases "htype (it_field it) = PB_HTYPE_OPTIONAL \<and> \<not> no_size it")
  case True
  then obtain q where q: "it_pSize it = SizeAt q" "part a S q 1" using plain_has [OF assms(1)] by blast
  show ?thesis
    using stores_frame(2) [OF part_valid [OF q(2) assms(2)], of b] part_frame [OF q(2)] q(1) True
    by (auto simp: store_has_def)
qed auto

lemma static_default_frame:
  assumes at: "plain_at n a S it" and valid: "valid m a S"
    and sub: "\<And>fs p d m. plain n d fs \<Longrightarrow> valid m p d \<Longrightarrow>
      \<exists>m'. for_message step (PB_FIELDS fs) p m = Some m' \<and> frame p d m m'"
  shows "\<exists>m'. static_default step it m = Some m' \<and> frame a S m m'"
proof (cases "htype (it_field it) = PB_HTYPE_REPEATED")
  case True
  then show ?thesis using store_counter_frame(1) [OF at True valid, of 0] by (simp add: static_default_def Let_def)
next
  case False
  let ?f = "it_field it" and ?d = "unat (pf_data_size (it_field it))"
  obtain m1 where m1: "(if htype ?f = PB_HTYPE_OPTIONAL \<and> \<not> no_size it
      then store_has m (it_pSize it) False else Some m) = Some m1" "frame a S m m1"
    using store_has_frame [OF at valid] by blast
  have part: "part a S (it_pData it) ?d" by (rule plain_data [OF at False])
  have v1: "valid m1 (it_pData it) ?d"
    using part_valid [OF part] valid frame_valid [OF m1(2)] by simp
  have f: "static_field (plain n) S ?f (it_pData it - a)" using at by (simp add: plain_at_def)
  note ht = static_fieldD(2) [OF f]
  have "\<exists>m'. (if ltype ?f = PB_LTYPE_SUBMESSAGE then for_message step (pf_ptr ?f) (it_pData it) m1
        else case pf_ptr ?f of
            PB_NULL \<Rightarrow> memset m1 (it_pData it) 0 ?d
          | PB_DEFAULT d \<Rightarrow> if length d < ?d then None else store_bytes m1 (it_pData it) (take ?d d)
          | PB_FIELDS _ \<Rightarrow> None) = Some m' \<and> frame (it_pData it) ?d m1 m'"
  proof (cases "ltype ?f = PB_LTYPE_SUBMESSAGE")
    case True
    then show ?thesis using static_fieldD(5) [OF f] sub [OF _ v1] by auto
  next
    case no_sub: False
    from static_fieldD(4) [OF f this] show ?thesis
    proof (elim disjE exE conjE)
      assume "pf_ptr ?f = PB_NULL"
      then show ?thesis using no_sub stores_frame(6) [OF v1, of 0] by simp
    next
      fix d assume "pf_ptr ?f = PB_DEFAULT d" "?d \<le> length d"
      then show ?thesis
        using no_sub store_bytes_frame [of m1 "it_pData it" "take ?d d"] v1 by simp
    qed
  qed
  then obtain m2 where m2: "(if ltype ?f = PB_LTYPE_SUBMESSAGE then for_message step (pf_ptr ?f) (it_pData it) m1
        else case pf_ptr ?f of
            PB_NULL \<Rightarrow> memset m1 (it_pData it) 0 ?d
          | PB_DEFAULT d \<Rightarrow> if length d < ?d then None else store_bytes m1 (it_pData it) (take ?d d)
          | PB_FIELDS _ \<Rightarrow> None) = Some m2" "frame (it_pData it) ?d m1 m2" by blast
  have "static_default step it m = Some m2"
    using False ht by (simp add: static_default_def Let_def m1(1) m2(1) cong: if_cong)
  then show ?thesis using frame_trans [OF m1(2) part_frame [OF part m2(2)]] by blast
qed

lemma set_to_default_frame:
  "plain (Suc n) S fs \<Longrightarrow> iter_at fs a it i \<Longrightarrow> valid m a S \<Longrightarrow>
     \<exists>m'. pb_field_set_to_default (Suc n) types it m = Some m' \<and> frame a S m m'"
proof (induction n arbitrary: S fs a it i m rule: less_induct)
  case (less n)
  note at = iter_at_plain [OF less.prems(1,2)]
  have f: "static_field (plain n) S (it_field it) (it_pData it - a)" using at by (simp add: plain_at_def)
  have sub: "\<exists>m'. for_message (pb_field_set_to_default n types) (PB_FIELDS fs') p m = Some m' \<and> frame p d m m'"
    if "plain n d fs'" "valid m p d" for fs' p d m
  proof (cases n)
    case 0
    then show ?thesis using that by simp
  next
    case (Suc k)
    then show ?thesis
      using for_message_frame [of fs' p p d "pb_field_set_to_default n types"] less.IH [of k d fs' p]
        that plain_count [OF that(1)] by blast
  qed
  then show ?case
    using static_default_frame [OF at less.prems(3) sub] static_fieldD(1,3) [OF f] by (simp add: Let_def)
qed

lemma message_set_to_defaults_frame:
  assumes "plain n S fs" and "valid m a S"
  shows "\<exists>m'. pb_message_set_to_defaults n types (PB_FIELDS fs) a m = Some m' \<and> frame a S m m'"
proof (cases n)
  case 0
  then show ?thesis using assms by simp
next
  case (Suc k)
  then show ?thesis
    using for_message_frame [of fs a a S "pb_field_set_to_default n types"] set_to_default_frame [of k S fs a]
      assms plain_count [OF assms(1)] unfolding pb_message_set_to_defaults_def by blast
qed

section \<open>Releasing a message\<close>

text \<open>A plain message owns no heap memory: releasing it only walks over it.\<close>

lemma release_items_frame:
  assumes rel: "\<And>p m. part a S p d \<Longrightarrow> valid m a S \<Longrightarrow> \<exists>m'. rel p m = Some m' \<and> frame a S m m'"
    and "valid m a S" and "unat (p - a) + d * c \<le> S" and "S < 4294967296"
  shows "\<exists>m'. release_items rel (of_nat d) c p m = Some m' \<and> frame a S m m'"
  using assms(2,3)
proof (induction c arbitrary: p m)
  case 0
  then show ?case by simp
next
  case (Suc c)
  have "part a S p d" using Suc.prems(2) assms(4) by (simp add: part_def)
  then obtain m1 where m1: "rel p m = Some m1" "frame a S m m1" using rel Suc.prems(1) by blast
  have "p + of_nat d - a = (p - a) + of_nat d" by simp
  then have "unat (p + of_nat d - a) = unat (p - a) + d"
    using Suc.prems(2) assms(4) by (simp only:) (subst unat_add_no_overflow; simp)
  then have "\<exists>m'. release_items rel (of_nat d) c (p + of_nat d) m1 = Some m' \<and> frame a S m1 m'"
    using Suc.IH [of m1 "p + of_nat d"] Suc.prems frame_valid [OF m1(2)] by simp
  then show ?case using m1 frame_trans by fastforce
qed

lemma release_field_frame:
  "plain (Suc n) S fs \<Longrightarrow> iter_at fs a it i \<Longrightarrow> valid m a S \<Longrightarrow>
     \<exists>m'. pb_release_single_field (Suc n) types it m = Some m' \<and> frame a S m m'"
proof (induction n arbitrary: S fs a it i m rule: less_induct)
  case (less n)
  note at = iter_at_plain [OF less.prems(1,2)]
  let ?f = "it_field it" and ?d = "unat (pf_data_size (it_field it))"
  let ?step = "pb_release_single_field n types"
  have f: "static_field (plain n) S ?f (it_pData it - a)" and S: "S < 4294967296"
    using at by (auto simp: plain_at_def)
  have sub: "\<exists>m'. release_message ?step (PB_FIELDS fs') p m = Some m' \<and> frame a S m m'"
    if "plain n ?d fs'" "part a S p ?d" "valid m a S" for fs' p m
  proof (cases n)
    case 0
    then show ?thesis using that by simp
  next
    case (Suc k)
    then have "\<exists>m'. for_message ?step (PB_FIELDS fs') p m = Some m' \<and> frame p ?d m m'"
      using for_message_frame [of fs' p p ?d ?step] less.IH [of k ?d fs' p]
        that(1) plain_count [OF that(1)] part_valid [OF that(2,3)] by blast
    then show ?thesis using part_frame [OF that(2)] by (auto simp: release_message_def)
  qed
  show ?case
  proof (cases "ltype ?f = PB_LTYPE_SUBMESSAGE")
    case False
    then show ?thesis using static_fieldD(1-3) [OF f] by (simp add: Let_def)
  next
    case True
    then obtain fs' where fs': "pf_ptr ?f = PB_FIELDS fs'" "plain n ?d fs'"
      using static_fieldD(5) [OF f] by blast
    have "\<exists>m'. release_submessages ?step it m = Some m' \<and> frame a S m m'"
    proof (cases "htype ?f = PB_HTYPE_REPEATED")
      case rep: True
      obtain c where c: "load_size m (it_pSize it) = Some c"
        using store_counter_frame(2) [OF at rep less.prems(3)] by blast
      have nosize: "\<not> no_size it" using plain_no_size [OF at] static_fieldD(6) [OF f rep] by simp
      define c' where "c' = (if c > pf_array_size ?f then pf_array_size ?f else c)"
      have "unat c' \<le> unat (pf_array_size ?f)" by (auto simp: c'_def word_le_nat_alt not_less)
      then have "?d * unat c' \<le> ?d * unat (pf_array_size ?f)" by (rule mult_le_mono2)
      then have "unat (it_pData it - a) + ?d * unat c' \<le> S" using static_fieldD(6) [OF f rep] by linarith
      from release_items_frame [OF _ less.prems(3) this S, of "release_message ?step (pf_ptr ?f)"]
      show ?thesis
        using sub [OF fs'(2)] fs'(1) static_fieldD(1) [OF f] rep c nosize
        by (auto simp: release_submessages_def Let_def c'_def)
    next
      case False
      have part: "part a S (it_pData it) ?d" by (rule plain_data [OF at False])
      then have "unat (it_pData it - a) + ?d * 1 \<le> S" by (simp add: part_def)
      from release_items_frame [OF _ less.prems(3) this S, of "release_message ?step (pf_ptr ?f)"]
      show ?thesis
        using sub [OF fs'(2)] fs'(1) static_fieldD(1) [OF f] False
        by (auto simp: release_submessages_def Let_def)
    qed
    then show ?thesis using True static_fieldD(1-3) [OF f] by (simp add: Let_def)
  qed
qed

lemma pb_release_frame:
  assumes "plain n S fs" and "valid m a S"
  shows "\<exists>m'. pb_release n types (PB_FIELDS fs) a m = Some m' \<and> frame a S m m'"
proof (cases n)
  case 0
  then show ?thesis using assms by simp
next
  case (Suc k)
  then have "\<exists>m'. for_message (pb_release_single_field n types) (PB_FIELDS fs) a m = Some m' \<and> frame a S m m'"
    using for_message_frame [of fs a a S "pb_release_single_field n types"] release_field_frame [of k S fs a]
      assms plain_count [OF assms(1)] by blast
  then show ?thesis by (auto simp: pb_release_def release_message_def)
qed

section \<open>Field decoders\<close>

context byte_source
begin

definition safe :: "addr \<Rightarrow> nat \<Rightarrow> 's pb_istream_t \<Rightarrow> mem \<Rightarrow> 's dec_res \<Rightarrow> bool" where
  "safe a S s m r \<longleftrightarrow> (\<exists>ok s' m'. r = Some (ok, s', m') \<and> lags s s' \<and> frame a S m m')"

lemma lags_errmsg [simp]: "lags s (set_errmsg s' msg) \<longleftrightarrow> lags s s'"
  by (simp add: lags_def set_errmsg_def)

lemma safeI: "lags s s' \<Longrightarrow> frame a S m m' \<Longrightarrow> safe a S s m (Some (ok, s', m'))"
  by (auto simp: safe_def)

lemma safe_error: "lags s s' \<Longrightarrow> frame a S m m' \<Longrightarrow> safe a S s m (dec_error s' msg m')"
  by (simp add: dec_error_def safeI)

lemma safe_part: "part a S p n \<Longrightarrow> safe p n s m r \<Longrightarrow> safe a S s m r"
  using part_frame by (fastforce simp: safe_def)

lemma safe_bind:
  assumes "safe a S s m r"
    and "\<And>ok s' m'. lags s s' \<Longrightarrow> frame a S m m' \<Longrightarrow> safe a S s' m' (g ok s' m')"
  shows "safe a S s m (Option.bind r (\<lambda>(ok, s', m'). g ok s' m'))"
  using assms lags_trans frame_trans unfolding safe_def by fastforce

lemma safe_after:
  assumes "lags s s'" and "frame a S m m'" and "safe a S s' m' r"
  shows "safe a S s m r"
  using assms lags_trans frame_trans unfolding safe_def by fastforce

lemma store_int_safe:
  assumes "valid m p (unat k)" and "lags s s'"
  shows "safe p (unat (k :: u32)) s m
     (if k = 8 then do { m \<leftarrow> store_u64 m p v8; Some (True, s', m) }
      else if k = 4 then do { m \<leftarrow> store_u32 m p v4; if b4 then dec_error s' e4 m else Some (True, s', m) }
      else if k = 2 then do { m \<leftarrow> store_u16 m p v2; if b2 then dec_error s' e2 m else Some (True, s', m) }
      else if k = 1 then do { m \<leftarrow> store_u8 m p v1; if b1 then dec_error s' e1 m else Some (True, s', m) }
      else dec_error s' e m)"
proof -
  consider "k = 8" | "k = 4" | "k = 2" | "k = 1" | "k \<noteq> 8" "k \<noteq> 4" "k \<noteq> 2" "k \<noteq> 1" by blast
  then show ?thesis
  proof cases
    case 1
    then show ?thesis using stores_frame(5) [of m p v8] assms by (auto intro: safeI)
  next
    case 2
    then show ?thesis using stores_frame(4) [of m p v4] assms by (auto intro: safeI safe_error)
  next
    case 3
    then show ?thesis using stores_frame(3) [of m p v2] assms by (auto intro: safeI safe_error)
  next
    case 4
    then show ?thesis using stores_frame(1) [of m p v1] assms by (auto intro: safeI safe_error)
  next
    case 5
    then show ?thesis using assms by (auto intro: safe_error)
  qed
qed

lemma dec_ints_safe:
  assumes "open_at s" and "valid m p (unat (pf_data_size f))"
  shows "safe p (unat (pf_data_size f)) s m (pb_dec_varint s f p m)"
    and "safe p (unat (pf_data_size f)) s m (pb_dec_uvarint s f p m)"
    and "safe p (unat (pf_data_size f)) s m (pb_dec_svarint s f p m)"
proof -
  obtain r s1 where r: "pb_decode_varint s = Some (r, s1)" "lags s s1"
    using pb_decode_varint_any [OF assms(1)] stays_lags by blast
  obtain r2 s2 where r2: "pb_decode_svarint s = Some (r2, s2)" "lags s s2"
    using pb_decode_svarint_any [OF assms(1)] stays_lags by blast
  show "safe p (unat (pf_data_size f)) s m (pb_dec_varint s f p m)"
    using store_int_safe [OF assms(2) r(2)] r
    by (cases r) (auto simp: pb_dec_varint_def Let_def intro: safeI)
  show "safe p (unat (pf_data_size f)) s m (pb_dec_uvarint s f p m)"
    using store_int_safe [OF assms(2) r(2)] r
    by (cases r) (auto simp: pb_dec_uvarint_def Let_def intro: safeI)
  show "safe p (unat (pf_data_size f)) s m (pb_dec_svarint s f p m)"
    using store_int_safe [OF assms(2) r2(2)] r2
    by (cases r2) (auto simp: pb_dec_svarint_def Let_def intro: safeI)
qed

lemma dec_fixed_safe:
  assumes "open_at s"
  shows "valid m p 4 \<Longrightarrow> safe p 4 s m (pb_dec_fixed32 s f p m)"
    and "valid m p 8 \<Longrightarrow> safe p 8 s m (pb_dec_fixed64 s f p m)"
proof -
  obtain r s1 where r: "pb_read_local s 4 = Some (r, s1)" "lags s s1"
    using pb_read_local_any [OF assms, of 4] stays_lags by blast
  obtain r2 s2 where r2: "pb_read_local s 8 = Some (r2, s2)" "lags s s2"
    using pb_read_local_any [OF assms, of 8] stays_lags by blast
  show "safe p 4 s m (pb_dec_fixed32 s f p m)" if "valid m p 4"
    using stores_frame(4) [OF that] r
    by (cases r) (auto simp: pb_dec_fixed32_def pb_decode_fixed32_def intro: safeI, metis safeI bind.bind_lunit)
  show "safe p 8 s m (pb_dec_fixed64 s f p m)" if "valid m p 8"
    using stores_frame(5) [OF that] r2
    by (cases r2) (auto simp: pb_dec_fixed64_def pb_decode_fixed64_def intro: safeI, metis safeI bind.bind_lunit)
qed

lemma read_mem_safe:
  assumes "open_at s" and "valid m p (unat count)"
  shows "safe p (unat count) s m (pb_read_mem s p count m)"
proof -
  obtain ok bs s1 where r: "pb_read s (p = NULL) count = Some (ok, bs, s1)" "lags s s1"
    "length bs \<le> unat count"
    using pb_read_any [OF assms(1), of "p = NULL" count] stays_lags by blast
  have part: "part p (unat count) p (length bs)" using r(3) by (simp add: part_def)
  have "length bs < 18446744073709551616" using r(3) unat_lt_64 [of count] by linarith
  then obtain m1 where "store_bytes m p bs = Some m1" "frame p (length bs) m m1"
    using store_bytes_frame [OF part_valid [OF part assms(2)]] by blast
  then show ?thesis using r part_frame [OF part] by (auto simp: pb_read_mem_def intro: safeI)
qed

lemma dec_bytes_safe:
  assumes "open_at s" and "atype f = PB_ATYPE_STATIC" and "valid m p (unat (pf_data_size f))"
  shows "safe p (unat (pf_data_size f)) s m (pb_dec_bytes s f p m)"
proof -
  let ?d = "unat (pf_data_size f)"
  obtain r s1 where r: "pb_decode_varint32 s = Some (r, s1)" "lags s s1"
    using pb_decode_varint32_any [OF assms(1)] stays_lags by blast
  show ?thesis
  proof (cases "\<exists>sz. r = Some sz \<and> \<not> PB_BYTES_ARRAY_T_ALLOCSIZE sz > ucast (pf_data_size f)")
    case False
    then show ?thesis
      using r assms(2) by (cases r) (auto simp: pb_dec_bytes_def Let_def intro!: safeI safe_error)
  next
    case True
    then obtain sz where sz: "r = Some sz" "\<not> PB_BYTES_ARRAY_T_ALLOCSIZE sz > ucast (pf_data_size f)" by blast
    then have fits: "unat sz + 4 \<le> ?d" by (simp add: word_less_nat_alt unat_ALLOCSIZE)
    have parts: "part p ?d p 4" "part p ?d (p + 4) (unat sz)"
      using fits part_offset [of 4 "unat sz" ?d p] by (auto simp: part_def)
    obtain m1 where m1: "store_u32 m p sz = Some m1" "frame p 4 m m1"
      using stores_frame(4) [OF part_valid [OF parts(1) assms(3)]] by blast
    have f1: "frame p ?d m m1" by (rule part_frame [OF parts(1) m1(2)])
    have "valid m1 (p + 4) (unat (ucast sz :: size_t))"
      using part_valid [OF parts(2) assms(3)] frame_valid [OF f1] by simp
    from read_mem_safe [OF lags_open [OF assms(1) r(2)] this]
    have "safe p ?d s1 m1 (pb_read_mem s1 (p + 4) (ucast sz) m1)"
      using safe_part [OF parts(2)] by simp
    then have "safe p ?d s m (pb_read_mem s1 (p + 4) (ucast sz) m1)"
      by (rule safe_after [OF r(2) f1])
    moreover have "offsetof pb_bytes_array_s [''bytes''] = 4" by simp
    ultimately show ?thesis
      using r(1) sz m1(1) assms(2) by (auto simp: pb_dec_bytes_def Let_def intro!: safe_error r(2))
  qed
qed

lemma dec_string_safe:
  assumes "open_at s" and "atype f = PB_ATYPE_STATIC" and "valid m p (unat (pf_data_size f))"
  shows "safe p (unat (pf_data_size f)) s m (pb_dec_string s f p m)"
proof -
  let ?d = "unat (pf_data_size f)"
  obtain r s1 where r: "pb_decode_varint32 s = Some (r, s1)" "lags s s1"
    using pb_decode_varint32_any [OF assms(1)] stays_lags by blast
  show ?thesis
  proof (cases "\<exists>sz. r = Some sz \<and> \<not> ucast (sz + 1) < (ucast sz :: size_t)
      \<and> \<not> ucast (sz + 1) > (ucast (pf_data_size f) :: size_t)")
    case False
    then show ?thesis
      using r assms(2) by (cases r) (auto simp: pb_dec_string_def Let_def intro!: safeI safe_error)
  next
    case True
    then obtain sz where sz: "r = Some sz" "\<not> ucast (sz + 1) < (ucast sz :: size_t)"
      "\<not> ucast (sz + 1) > (ucast (pf_data_size f) :: size_t)" by blast
    have "1 + sz \<noteq> 0"
    proof
      assume "1 + sz = 0"
      then have "sz + 1 = 0" by (simp only: add.commute)
      then have "\<not> (0 :: size_t) < ucast sz" using sz(2) by simp
      then have "unat (ucast sz :: size_t) = 0" by (simp add: word_less_nat_alt)
      then have "sz = 0" by (simp add: unat_eq_zero)
      then show False using \<open>sz + 1 = 0\<close> by simp
    qed
    then have "unat (sz + 1) = unat sz + 1" by (simp add: unatSuc add.commute)
    then have fits: "unat sz + 1 \<le> ?d" using sz(3) by (simp add: word_less_nat_alt)
    have parts: "part p ?d p (unat sz)" "part p ?d (p + ucast sz) 1"
      using fits part_offset [of "unat sz" 1 ?d p] by (auto simp: part_def)
    have "valid m p (unat (ucast sz :: size_t))" using part_valid [OF parts(1) assms(3)] by simp
    from read_mem_safe [OF lags_open [OF assms(1) r(2)] this]
    obtain ok s2 m2 where r2: "pb_read_mem s1 p (ucast sz) m = Some (ok, s2, m2)" "lags s1 s2"
      "frame p ?d m m2"
      using part_frame [OF parts(1)] by (auto simp: safe_def)
    obtain m3 where m3: "store_u8 m2 (p + ucast sz) 0 = Some m3" "frame p ?d m2 m3"
      using stores_frame(1) [of m2 "p + ucast sz" 0] part_valid [OF parts(2) assms(3)]
        frame_valid [OF r2(3)] part_frame [OF parts(2)] by auto
    show ?thesis
      using r(1) sz r2(1) m3(1) assms(2) lags_trans [OF r(2) r2(2)] frame_trans [OF r2(3) m3(2)]
      by (auto simp: pb_dec_string_def Let_def intro!: safeI)
  qed
qed

lemma dec_fixed_length_bytes_safe:
  assumes "open_at s" and "valid m p (unat (pf_data_size f))"
  shows "safe p (unat (pf_data_size f)) s m (pb_dec_fixed_length_bytes s f p m)"
proof -
  obtain r s1 where r: "pb_decode_varint32 s = Some (r, s1)" "lags s s1"
    using pb_decode_varint32_any [OF assms(1)] stays_lags by blast
  obtain m1 where m1: "memset m p 0 (unat (pf_data_size f)) = Some m1" "frame p (unat (pf_data_size f)) m m1"
    using stores_frame(6) [OF assms(2), of 0] by auto
  have "valid m p (unat (ucast (pf_data_size f) :: size_t))" using assms(2) by simp
  from read_mem_safe [OF lags_open [OF assms(1) r(2)] this]
  have "safe p (unat (pf_data_size f)) s m (pb_read_mem s1 p (ucast (pf_data_size f)) m)"
    using safe_after [OF r(2) frame_refl] by simp
  then show ?thesis
    using r m1 by (cases r) (auto simp: pb_dec_fixed_length_bytes_def intro!: safeI safe_error)
qed

text \<open>The decoders of submessages, to depth \<open>n\<close>.\<close>

definition subs_safe :: "nat \<Rightarrow> 's sub_decoders \<Rightarrow> bool" where
  "subs_safe n sd \<longleftrightarrow> (\<forall>s fs p d m. open_at s \<longrightarrow> plain n d fs \<longrightarrow> valid m p d \<longrightarrow>
     safe p d s m (sd_decode sd s fs p m) \<and> safe p d s m (sd_noinit sd s fs p m))"

lemma dec_submessage_safe:
  assumes "subs_safe n sd" and "open_at s" and "pf_ptr f = PB_FIELDS fs"
    and "plain n (unat (pf_data_size f)) fs" and "valid m p (unat (pf_data_size f))"
  shows "safe p (unat (pf_data_size f)) s m (pb_dec_submessage sd s f p m)"
proof -
  let ?d = "unat (pf_data_size f)"
  obtain r s2 where r: "pb_make_string_substream s = Some (r, s2)" "lags s s2"
    and sub: "\<And>sub. r = Some sub \<Longrightarrow> open_at sub \<and> (\<forall>sub'. lags sub sub' \<longrightarrow>
      (\<exists>s'. pb_close_string_substream s2 sub' = Some (True, s') \<and> lags s s'))"
    using pb_make_string_substream_lags [OF assms(2)] by (auto split: option.splits)
  show ?thesis
  proof (cases r)
    case None
    then show ?thesis using r by (auto simp: pb_dec_submessage_def intro: safeI)
  next
    case (Some sub)
    define dec where "dec = (if htype f = PB_HTYPE_REPEATED then sd_decode sd sub fs p m
        else sd_noinit sd sub fs p m)"
    have "safe p ?d sub m dec" using assms(1,4,5) sub [OF Some] by (auto simp: subs_safe_def dec_def)
    then obtain ok sub' m' where dec: "dec = Some (ok, sub', m')" "lags sub sub'" "frame p ?d m m'"
      by (auto simp: safe_def)
    obtain s' where "pb_close_string_substream s2 sub' = Some (True, s')" "lags s s'"
      using sub [OF Some] dec(2) by blast
    then show ?thesis
      using r(1) Some dec(1,3) assms(3)
      by (auto simp: pb_dec_submessage_def dec_def [symmetric] intro: safeI)
  qed
qed

lemma ltype_cases:
  "(w :: byte) \<le> 9 \<Longrightarrow> w = 0 \<or> w = 1 \<or> w = 2 \<or> w = 3 \<or> w = 4 \<or> w = 5 \<or> w = 6 \<or> w = 7 \<or> w = 8 \<or> w = 9"
proof -
  assume "w \<le> 9"
  then have "unat w \<le> 9" by (simp add: word_le_nat_alt)
  then have "unat w = 0 \<or> unat w = 1 \<or> unat w = 2 \<or> unat w = 3 \<or> unat w = 4 \<or> unat w = 5
      \<or> unat w = 6 \<or> unat w = 7 \<or> unat w = 8 \<or> unat w = 9" by presburger
  then show ?thesis by (elim disjE) (simp_all add: word_unat_eq_iff)
qed

lemma decoders_safe:
  assumes "subs_safe n sd" and "static_field (plain n) S f off" and "open_at s"
    and "valid m p (unat (pf_data_size f))"
  shows "safe p (unat (pf_data_size f)) s m (PB_DECODERS sd (ltype f) s f p m)"
proof -
  let ?d = "unat (pf_data_size f)"
  note field = static_fieldD [OF assms(2)]
  have lt: "ltype f \<le> PB_LTYPE_FIXED_LENGTH_BYTES"
    and sizes: "ltype f = PB_LTYPE_FIXED32 \<Longrightarrow> 4 \<le> ?d" "ltype f = PB_LTYPE_FIXED64 \<Longrightarrow> 8 \<le> ?d"
    using assms(2) by (auto simp: static_field_def)
  have small: "?d < 18446744073709551616" by simp
  have part: "part p ?d p k" if "k \<le> ?d" for k using that small by (simp add: part_def)
  have fixed: "safe p ?d s m (pb_dec_fixed32 s f p m)" if "4 \<le> ?d"
    using dec_fixed_safe(1) [OF assms(3), of m p f] part_valid [OF part [OF that] assms(4)] safe_part [OF part [OF that]]
    by blast
  have fixed64: "safe p ?d s m (pb_dec_fixed64 s f p m)" if "8 \<le> ?d"
    using dec_fixed_safe(2) [OF assms(3), of m p f] part_valid [OF part [OF that] assms(4)] safe_part [OF part [OF that]]
    by blast
  from ltype_cases [OF lt] show ?thesis
  proof (elim disjE)
    assume "ltype f = 7"
    then show ?thesis
      using field(5) dec_submessage_safe [OF assms(1,3) _ _ assms(4)] by (auto simp: PB_DECODERS_def)
  qed (use field dec_ints_safe [OF assms(3,4)] fixed fixed64 sizes dec_bytes_safe [OF assms(3) field(1) assms(4)]
      dec_string_safe [OF assms(3) field(1) assms(4)] dec_fixed_length_bytes_safe [OF assms(3,4)]
      in \<open>auto simp: PB_DECODERS_def\<close>)
qed

section \<open>Items of a packed array take at least a byte\<close>

lemma pb_decode_varint_progress:
  assumes "open_at s" and "pb_decode_varint s = Some (Some v, s')"
  shows "unat (is_bytes_left s') < unat (is_bytes_left s)"
proof (cases "unvarint (take 10 (input s))")
  case None
  then show ?thesis using pb_decode_varint_spec [OF assms(1)] assms(2) by auto
next
  case (Some p)
  obtain n rest where p: "p = (n, rest)" by force
  then have "took s s' (length (take 10 (input s)) - length rest)"
    using pb_decode_varint_spec [OF assms(1)] assms(2) Some by auto
  then show ?thesis
    using unvarint_shorter [of "take 10 (input s)" n rest] Some p by (auto simp: took_def read_by_def)
qed

lemma packable_progress:
  assumes "open_at s" and "lt \<le> PB_LTYPE_LAST_PACKABLE"
    and "PB_DECODERS sd lt s f p m = Some (True, s', m')"
  shows "unat (is_bytes_left s') < unat (is_bytes_left s)"
proof -
  have ints: "\<exists>v. pb_decode_varint s = Some (Some v, s')"
    if "pb_dec_varint s f p m = Some (True, s', m') \<or> pb_dec_uvarint s f p m = Some (True, s', m')
      \<or> pb_dec_svarint s f p m = Some (True, s', m')"
    using that
    by (elim disjE) (auto simp: pb_dec_varint_def pb_dec_uvarint_def pb_dec_svarint_def pb_decode_svarint_def
        Let_def res_simps dec_error_def split: option.splits if_splits)
  have fixed: "\<exists>bs k. pb_read_local s k = Some (Some bs, s') \<and> k \<noteq> 0"
    if "pb_dec_fixed32 s f p m = Some (True, s', m') \<or> pb_dec_fixed64 s f p m = Some (True, s', m')"
    using that
    by (elim disjE) (fastforce simp: pb_dec_fixed32_def pb_dec_fixed64_def pb_decode_fixed32_def pb_decode_fixed64_def
        res_simps split: option.splits)+
  have "lt = 0 \<or> lt = 1 \<or> lt = 2 \<or> lt = 3 \<or> lt = 4"
  proof -
    have "lt \<le> 9" using assms(2) by (rule order.trans) simp
    from ltype_cases [OF this] assms(2) show ?thesis by (elim disjE) auto
  qed
  then consider "\<exists>v. pb_decode_varint s = Some (Some v, s')"
    | "\<exists>bs k. pb_read_local s k = Some (Some bs, s') \<and> k \<noteq> 0"
    using assms(3) ints fixed by (elim disjE) (auto simp: PB_DECODERS_def)
  then show ?thesis
  proof cases
    case 1
    then show ?thesis using pb_decode_varint_progress [OF assms(1)] by blast
  next
    case 2
    then obtain bs k where k: "pb_read_local s k = Some (Some bs, s')" "k \<noteq> 0" by blast
    have "unat k \<noteq> 0" using k(2) by (simp add: unat_eq_zero)
    moreover have "k \<le> is_bytes_left s" "is_bytes_left s' = is_bytes_left s - k"
      using pb_read_local_left [OF k(1)] by auto
    ultimately show ?thesis by (simp add: unat_diff_le word_le_nat_alt)
  qed
qed

section \<open>Fields\<close>

lemma static_packed_loop_safe:
  assumes "subs_safe n sd" and at: "plain_at n a S it" and rep: "htype (it_field it) = PB_HTYPE_REPEATED"
    and pack: "ltype (it_field it) \<le> PB_LTYPE_LAST_PACKABLE"
    and "open_at sub" and "valid m a S" and "unat (is_bytes_left sub) \<le> k"
  shows "safe a S sub m (static_packed_loop (PB_DECODERS sd (ltype (it_field it))) it k sub m)"
  using assms(5-7)
proof (induction k arbitrary: sub m)
  case 0
  then show ?case using lags_refl by (auto simp: unat_eq_zero intro: safeI)
next
  case (Suc k)
  let ?f = "it_field it" and ?func = "PB_DECODERS sd (ltype (it_field it))"
  have f: "static_field (plain n) S ?f (it_pData it - a)" using at by (simp add: plain_at_def)
  obtain i where i: "load_size m (it_pSize it) = Some i"
    using store_counter_frame(2) [OF at rep Suc.prems(2)] by blast
  show ?case
  proof (cases "is_bytes_left sub > 0 \<and> i < pf_array_size ?f")
    case False
    then show ?thesis using i lags_refl [OF Suc.prems(1)] by (auto simp: Let_def intro: safeI)
  next
    case True
    let ?p = "item_addr (it_pData it) ?f i"
    have part: "part a S ?p (unat (pf_data_size ?f))" using plain_item [OF at rep] True by blast
    have "safe a S sub m (?func sub ?f ?p m)"
      using safe_part [OF part decoders_safe [OF assms(1) f Suc.prems(1) part_valid [OF part Suc.prems(2)]]] .
    then obtain ok sub1 m1 where d: "?func sub ?f ?p m = Some (ok, sub1, m1)" "lags sub sub1" "frame a S m m1"
      by (auto simp: safe_def)
    show ?thesis
    proof (cases ok)
      case no: False
      then show ?thesis using True i d by (auto simp: Let_def intro: safeI)
    next
      case ok: True
      have v1: "valid m1 a S" using Suc.prems(2) frame_valid [OF d(3)] by simp
      obtain j where j: "load_size m1 (it_pSize it) = Some j"
        using store_counter_frame(2) [OF at rep v1] by blast
      obtain m2 where m2: "store_size m1 (it_pSize it) (j + 1) = Some m2" "frame a S m1 m2"
        using store_counter_frame(1) [OF at rep v1] by blast
      have "valid m2 a S" using v1 frame_valid [OF m2(2)] by simp
      moreover have "unat (is_bytes_left sub1) \<le> k"
        using packable_progress [OF Suc.prems(1) pack] d(1) ok Suc.prems(3) by fastforce
      ultimately have "safe a S sub1 m2 (static_packed_loop ?func it k sub1 m2)"
        using Suc.IH lags_open [OF Suc.prems(1) d(2)] by blast
      then have "safe a S sub m (static_packed_loop ?func it k sub1 m2)"
        by (rule safe_after [OF d(2) frame_trans [OF d(3) m2(2)]])
      then show ?thesis using True i d(1) ok j m2(1) by (simp add: Let_def)
    qed
  qed
qed

lemma static_packed_safe:
  assumes "subs_safe n sd" and "plain_at n a S it" and "htype (it_field it) = PB_HTYPE_REPEATED"
    and "ltype (it_field it) \<le> PB_LTYPE_LAST_PACKABLE" and "open_at s" and "valid m a S"
  shows "safe a S s m (static_packed (PB_DECODERS sd (ltype (it_field it))) it s m)"
proof -
  obtain r s2 where r: "pb_make_string_substream s = Some (r, s2)" "lags s s2"
    and sub: "\<And>sub. r = Some sub \<Longrightarrow> open_at sub \<and> (\<forall>sub'. lags sub sub' \<longrightarrow>
      (\<exists>s'. pb_close_string_substream s2 sub' = Some (True, s') \<and> lags s s'))"
    using pb_make_string_substream_lags [OF assms(5)] by (auto split: option.splits)
  show ?thesis
  proof (cases r)
    case None
    then show ?thesis using r by (auto simp: static_packed_def intro: safeI)
  next
    case (Some sub)
    have "safe a S sub m (static_packed_loop (PB_DECODERS sd (ltype (it_field it))) it (unat (is_bytes_left sub)) sub m)"
      using static_packed_loop_safe [OF assms(1-4)] sub [OF Some] assms(6) by simp
    then obtain ok sub' m' where d: "static_packed_loop (PB_DECODERS sd (ltype (it_field it))) it
        (unat (is_bytes_left sub)) sub m = Some (ok, sub', m')" "lags sub sub'" "frame a S m m'"
      by (auto simp: safe_def)
    obtain s' where "pb_close_string_substream s2 sub' = Some (True, s')" "lags s s'"
      using sub [OF Some] d(2) by blast
    then show ?thesis
      using r Some d by (auto simp: static_packed_def intro: safeI safe_error)
  qed
qed

lemma decode_static_field_safe:
  assumes "subs_safe n sd" and at: "plain_at n a S it" and "open_at s" and "valid m a S"
  shows "safe a S s m (decode_static_field n' env sd s wt it m)"
proof -
  let ?f = "it_field it" and ?func = "PB_DECODERS sd (ltype (it_field it))"
  have f: "static_field (plain n) S ?f (it_pData it - a)" using at by (simp add: plain_at_def)
  have func: "safe a S s m1 (?func s ?f p m1)"
    if "part a S p (unat (pf_data_size ?f))" "frame a S m m1" for p m1
    using safe_part [OF that(1) decoders_safe [OF assms(1) f assms(3)]]
      part_valid [OF that(1)] assms(4) frame_valid [OF that(2)] by simp
  show ?thesis
  proof (cases "htype ?f = PB_HTYPE_REPEATED")
    case False
    have part: "part a S (it_pData it) (unat (pf_data_size ?f))" by (rule plain_data [OF at False])
    obtain m1 where m1: "(if htype ?f = PB_HTYPE_OPTIONAL \<and> \<not> no_size it
        then store_has m (it_pSize it) True else Some m) = Some m1" "frame a S m m1"
      using store_has_frame [OF at assms(4)] by blast
    have "htype ?f = PB_HTYPE_REQUIRED \<or> htype ?f = PB_HTYPE_OPTIONAL"
      using f False by (auto simp: static_field_def)
    then have "decode_static_field n' env sd s wt it m = ?func s ?f (it_pData it) m1"
      using m1(1) by (elim disjE) (auto simp: decode_static_field_def Let_def)
    then show ?thesis using safe_after [OF lags_refl [OF assms(3)] m1(2) func [OF part m1(2)]] by simp
  next
    case rep: True
    show ?thesis
    proof (cases "wt = PB_WT_STRING \<and> ltype ?f \<le> PB_LTYPE_LAST_PACKABLE")
      case True
      then show ?thesis
        using static_packed_safe [OF assms(1) at rep _ assms(3,4)] rep
        by (simp add: decode_static_field_def Let_def)
    next
      case False
      obtain i where i: "load_size m (it_pSize it) = Some i"
        using store_counter_frame(2) [OF at rep assms(4)] by blast
      obtain m1 where m1: "store_size m (it_pSize it) (i + 1) = Some m1" "frame a S m m1"
        using store_counter_frame(1) [OF at rep assms(4)] by blast
      have step: "decode_static_field n' env sd s wt it m =
          (if i \<ge> pf_array_size ?f then dec_error s ''array overflow'' m1
           else ?func s ?f (item_addr (it_pData it) ?f i) m1)"
        using False rep i m1(1) by (auto simp: decode_static_field_def Let_def)
      show ?thesis
      proof (cases "i \<ge> pf_array_size ?f")
        case True
        then show ?thesis using step safe_error [OF lags_refl [OF assms(3)] m1(2)] by simp
      next
        case less: False
        then have "part a S (item_addr (it_pData it) ?f i) (unat (pf_data_size ?f))"
          by (intro plain_item [OF at rep]) simp
        then show ?thesis
          using step less safe_after [OF lags_refl [OF assms(3)] m1(2) func [OF _ m1(2)]] by simp
      qed
    qed
  qed
qed

section \<open>Messages\<close>

lemma pb_decode_tag_progress:
  assumes "open_at s" and "pb_decode_tag s = Some (True, wt, tag, eof, s')"
  shows "unat (is_bytes_left s') < unat (is_bytes_left s) \<and> unat tag < 536870912"
proof -
  obtain v where v: "pb_decode_varint32_eof s = Some (Some v, eof, s')" "tag = drop_bit 3 v"
    using assms(2) by (auto simp: pb_decode_tag_def res_simps split: option.splits if_splits)
  have "unat (drop_bit 3 v) < 536870912"
    using unat_lt_32 [of v] by (simp only: unat_drop_bit_div) (simp add: div_less_iff_less_mult)
  then show ?thesis
    using pb_decode_varint32_progress [OF assms(1), of v s'] v by (simp add: pb_decode_varint32_def)
qed

text \<open>What holds between two rounds of the loop.\<close>

definition round_inv :: "pb_field_t list \<Rightarrow> addr \<Rightarrow> noinit_vars \<Rightarrow> bool" where
  "round_inv fs a nv \<longleftrightarrow> (\<exists>i. iter_at fs a (nv_iter nv) i) \<and> nv_fixed_count_field nv = None"

lemma find_at:
  assumes "iter_at fs a it i"
  shows "\<exists>found it' j. pb_field_iter_find it tag = Some (found, it') \<and> iter_at fs a it' j"
  using find_eq [OF assms, of tag] find_index_Some [of fs i tag] assms
  by (fastforce simp: iter_at_def split: option.splits)

lemma decode_field_safe:
  assumes "subs_safe n sd" and "plain_at n a S it" and "open_at s" and "valid m a S"
  shows "\<exists>ok s' m'. decode_field n' env sd s wt it m = Some (ok, s', it, m') \<and> lags s s' \<and> frame a S m m'"
proof -
  have f: "static_field (plain n) S (it_field it) (it_pData it - a)" using assms(2) by (simp add: plain_at_def)
  show ?thesis
    using decode_static_field_safe [OF assms, of n' env wt] static_fieldD(1,2) [OF f]
    by (auto simp: decode_field_def safe_def)
qed

lemma decode_round_safe:
  assumes "subs_safe n sd" and "plain (Suc n) S fs" and "round_inv fs a nv" and "open_at s" and "valid m a S"
  shows "\<exists>e s' nv' m'. decode_round n' env sd s nv m = Some (e, s', nv', m') \<and> lags s s' \<and> frame a S m m'
    \<and> round_inv fs a nv' \<and> (e = Continue \<longrightarrow> unat (is_bytes_left s') < unat (is_bytes_left s))"
proof -
  obtain ok wt tag eof s1 where t: "pb_decode_tag s = Some (ok, wt, tag, eof, s1)" "stays s s1"
    using pb_decode_tag_any [OF assms(4)] by blast
  note lag = stays_lags [OF t(2)] and o1 = stays_open [OF assms(4) t(2)]
  obtain i where i: "iter_at fs a (nv_iter nv) i" using assms(3) by (auto simp: round_inv_def)
  obtain found it j where find: "pb_field_iter_find (nv_iter nv) tag = Some (found, it)" "iter_at fs a it j"
    using find_at [OF i] by blast
  let ?nv = "nv\<lparr>nv_iter := it\<rparr>"
  have inv: "round_inv fs a (?nv\<lparr>nv_fields_seen := seen, nv_extension_range_start := e\<rparr>)" for seen e
    using find(2) assms(3) by (auto simp: round_inv_def)
  show ?thesis
  proof (cases ok)
    case False
    then show ?thesis using t lag assms(3) by (auto simp: decode_round_def)
  next
    case True
    have prog: "unat (is_bytes_left s1) < unat (is_bytes_left s)" "unat tag < 536870912"
      using pb_decode_tag_progress [OF assms(4)] t(1) True by auto
    show ?thesis
    proof (cases found)
      case no: False
      have "unat (- 1 :: u32) = 4294967295" by (simp add: unsigned_minus_1_eq_mask mask_eq_exp_minus_1)
      then have no_ext: "\<not> (- 1 :: u32) \<le> tag" using prog(2) unfolding word_le_nat_alt by simp
      obtain ok2 s2 where skip: "pb_skip_field s1 wt = Some (ok2, s2)" "stays s1 s2"
        using pb_skip_field_any [OF o1] by blast
      have "\<exists>e. decode_unknown n' env sd s1 tag wt ?nv m
          = Some (if ok2 then Continue else Return_false, s2, ?nv\<lparr>nv_extension_range_start := e\<rparr>, m)"
        using find_extension_none [OF assms(2) find(2)] skip(1) no_ext
        by (cases "nv_extension_range_start nv \<le> tag")
          (auto simp: decode_unknown_def Let_def intro: exI [of _ "nv_extension_range_start nv"])
      then show ?thesis
        using True t(1) find(1) no lags_trans [OF lag stays_lags [OF skip(2)]] prog(1)
          stays_left [OF skip(2)] inv [where seen = "nv_fields_seen nv"]
        by (fastforce simp: decode_round_def Let_def)
    next
      case yes: True
      have at: "plain_at n a S it" by (rule iter_at_plain [OF assms(2) find(2)])
      have f: "static_field (plain n) S (it_field it) (it_pData it - a)" using at by (simp add: plain_at_def)
      have no_track: "track_fixed_count s1 ?nv m = Some (Continue, s1, ?nv, m)"
        using plain_no_size [OF at] static_fieldD(6) [OF f] by (auto simp: track_fixed_count_def Let_def)
      obtain seen where seen: "mark_seen ?nv = ?nv\<lparr>nv_fields_seen := seen\<rparr>"
      proof
        show "mark_seen ?nv = ?nv\<lparr>nv_fields_seen := nv_fields_seen (mark_seen ?nv)\<rparr>"
          by (simp add: mark_seen_def Let_def)
      qed
      obtain ok2 s2 m2 where d: "decode_field n' env sd s1 wt it m = Some (ok2, s2, it, m2)" "lags s1 s2" "frame a S m m2"
        using decode_field_safe [OF assms(1) at o1 assms(5)] by blast
      have "decode_known n' env sd s1 wt ?nv m
          = Some (if ok2 then Continue else Return_false, s2, ?nv\<lparr>nv_fields_seen := seen\<rparr>, m2)"
        using d(1) by (simp add: decode_known_def no_track seen Let_def)
      then show ?thesis
        using True t(1) find(1) yes lags_trans [OF lag d(2)] d(3) prog(1) lags_left [OF d(2)]
          inv [where seen = seen and e = "nv_extension_range_start nv"]
        by (fastforce simp: decode_round_def Let_def)
    qed
  qed
qed

lemma decode_rounds_safe:
  assumes "subs_safe n sd" and "plain (Suc n) S fs"
    and "round_inv fs a nv" and "open_at s" and "valid m a S" and "unat (is_bytes_left s) \<le> k"
  shows "\<exists>e s' nv' m'. decode_rounds n' env sd k s nv m = Some (e, s', nv', m') \<and> lags s s' \<and> frame a S m m'
    \<and> round_inv fs a nv' \<and> e \<noteq> Continue"
  using assms(3-6)
proof (induction k arbitrary: s nv m)
  case 0
  then show ?case using lags_refl by (auto simp: unat_eq_zero)
next
  case (Suc k)
  show ?case
  proof (cases "is_bytes_left s = 0")
    case True
    then show ?thesis using Suc.prems lags_refl by auto
  next
    case False
    obtain e s1 nv1 m1 where r: "decode_round n' env sd s nv m = Some (e, s1, nv1, m1)" "lags s s1" "frame a S m m1"
      "round_inv fs a nv1" "e = Continue \<longrightarrow> unat (is_bytes_left s1) < unat (is_bytes_left s)"
      using decode_round_safe [OF assms(1,2) Suc.prems(1-3)] by blast
    show ?thesis
    proof (cases "e = Continue")
      case True
      have "valid m1 a S" using Suc.prems(3) frame_valid [OF r(3)] by simp
      from Suc.IH [OF r(4) lags_open [OF Suc.prems(2) r(2)] this] Suc.prems(4) r(5) True
      show ?thesis using False r lags_trans [OF r(2)] frame_trans [OF r(3)] by fastforce
    next
      case no: False
      then show ?thesis using False r by auto
    qed
  qed
qed

lemma noinit_safe:
  assumes "subs_safe n sd" and "plain (Suc n) S fs" and "open_at s" and "valid m a S"
  shows "safe a S s m (drop_local (noinit_body n' env sd s fs a m))"
proof -
  let ?nv = "\<lparr>nv_iter = snd (pb_field_iter_begin fs a), nv_fixed_count_field = None,
      nv_fields_seen = [0, 0], nv_extension_range_start = 0\<rparr>"
  let ?m = "m\<lparr>mem_locals := 0 # mem_locals m\<rparr>"
  have inv: "round_inv fs a ?nv"
    using iter_at_begin [OF plain_count [OF assms(2)]] by (auto simp: round_inv_def)
  have "valid ?m a S" using assms(4) by (simp add: valid_def)
  then obtain e s1 nv1 m1 where r: "decode_rounds n' env sd (unat (is_bytes_left s)) s ?nv ?m = Some (e, s1, nv1, m1)"
    "lags s s1" "frame a S ?m m1" "round_inv fs a nv1"
    using decode_rounds_safe [OF assms(1,2) inv assms(3)] by blast
  have "fixed_count_unfinished nv1 m1 = Some False"
    using r(4) by (simp add: round_inv_def fixed_count_unfinished_def fixed_count_of_def)
  with r(1) have body: "noinit_body n' env sd s fs a m
      = (if e = Return_false then Some (False, s1, m1)
         else let c = req_field_count (nv_iter nv1) in
           if c > 0 \<and> \<not> required_seen (nv_fields_seen nv1) c
           then dec_error s1 ''missing required field'' m1 else Some (True, s1, m1))"
    by (simp add: noinit_body_def)
  have "\<exists>ok s2. noinit_body n' env sd s fs a m = Some (ok, s2, m1) \<and> lags s s2"
    unfolding body using r(2) by (auto simp: Let_def dec_error_def)
  then obtain ok s2 where body: "noinit_body n' env sd s fs a m = Some (ok, s2, m1)" "lags s s2"
    by blast
  have "frame a S m (m1\<lparr>mem_locals := mem_locals m\<rparr>)" by (rule frame_push [OF r(3)])
  then show ?thesis
    using body frame_locals [OF r(3)] by (auto simp: drop_local_def intro: safeI)
qed

lemma decode_with_safe:
  assumes noinit: "\<And>m. valid m a S \<Longrightarrow> safe a S s m (noinit s fs a m)"
    and "plain n S fs" and "open_at s" and "valid m a S"
  shows "safe a S s m (decode_with n env noinit s fs a m)"
proof -
  obtain m1 where m1: "pb_message_set_to_defaults n (de_ext_type env) (PB_FIELDS fs) a m = Some m1" "frame a S m m1"
    using message_set_to_defaults_frame [OF assms(2,4)] by blast
  have v1: "valid m1 a S" using assms(4) frame_valid [OF m1(2)] by simp
  obtain ok s2 m2 where d: "noinit s fs a m1 = Some (ok, s2, m2)" "lags s s2" "frame a S m1 m2"
    using noinit [OF v1] by (auto simp: safe_def)
  have v2: "valid m2 a S" using v1 frame_valid [OF d(3)] by simp
  obtain m3 where m3: "pb_release n (de_ext_type env) (PB_FIELDS fs) a m2 = Some m3" "frame a S m2 m3"
    using pb_release_frame [OF assms(2) v2] by blast
  show ?thesis
    using m1 d m3 frame_trans [OF m1(2) d(3)] frame_trans [OF frame_trans [OF m1(2) d(3)] m3(2)]
    by (cases ok) (auto simp: decode_with_def intro: safeI)
qed

text \<open>The decoder, at every depth.\<close>

lemma pb_decode_noinit_safe:
  "plain n S fs \<Longrightarrow> open_at s \<Longrightarrow> valid m a S \<Longrightarrow> safe a S s m (pb_decode_noinit n env s fs a m)"
proof (induction n arbitrary: S fs s m a)
  case 0
  then show ?case by simp
next
  case (Suc n)
  have "subs_safe n \<lparr>sd_decode = decode_with n env (pb_decode_noinit n env), sd_noinit = pb_decode_noinit n env\<rparr>"
    unfolding subs_safe_def by (simp add: Suc.IH decode_with_safe)
  from noinit_safe [OF this Suc.prems] show ?case by simp
qed

lemma pb_decode_safe_source:
  assumes "plain n S fs" and "open_at s" and "valid m a S"
  shows "safe a S s m (pb_decode n env s fs a m)"
  unfolding pb_decode_def
  by (rule decode_with_safe [OF _ assms]) (rule pb_decode_noinit_safe [OF assms(1,2)])

end

end
