(* ===== verification/PB_Encode.thy ===== *)
theory PB_Encode
  imports PB_Ostream PB_Common
begin

text \<open>
  \<^verbatim>\<open>src/MovieDBApp/Pods/nanopb/pb_encode.c\<close>: field encoders, arrays, fields, extensions
  and messages. The message lies in memory at the address \<open>src\<close>; the encoder only reads
  it.

  \<^verbatim>\<open>pb_encode\<close> calls itself through \<^verbatim>\<open>pb_enc_submessage\<close>. The functions between the
  two take the encoder for submessages as their argument \<open>enc\<close>, and \<open>pb_encode\<close> ties the
  knot: \<open>pb_encode (Suc n)\<close> runs with \<open>pb_encode n\<close> for the submessages, so \<open>n\<close> bounds the
  nesting depth and the length of a chain of extensions. \<^const>\<open>None\<close> is undefined
  behaviour or a bound that was too small.
\<close>

section \<open>Definitions\<close>

type_synonym 's pb_encoder_t = "'s pb_ostream_t \<Rightarrow> pb_field_t \<Rightarrow> addr \<Rightarrow> (bool \<times> 's pb_ostream_t) option"
type_synonym 's msg_encoder = "'s pb_ostream_t \<Rightarrow> pb_field_t list \<Rightarrow> addr \<Rightarrow> (bool \<times> 's pb_ostream_t) option"

text \<open>
  What the encoder finds around it: memory, the functions behind the function pointers in
  \<^verbatim>\<open>pb_callback_t\<close> and \<^verbatim>\<open>pb_extension_type_t\<close> (code of the program that uses nanopb,
  so a parameter), and the extension types behind the pointers to them.
\<close>

record 's pb_enc_env =
  ee_mem :: mem
  ee_callback :: "addr \<Rightarrow> 's pb_encoder_t"
  ee_ext_type :: "addr \<Rightarrow> pb_extension_type_t option"
  ee_ext_encode :: "addr \<Rightarrow> 's pb_ostream_t \<Rightarrow> addr \<Rightarrow> (bool \<times> 's pb_ostream_t) option"

subsection \<open>Field encoders\<close>

definition pb_enc_varint :: "mem \<Rightarrow> 's pb_encoder_t" where
  "pb_enc_varint m s field src =
     (if pf_data_size field = 1
      then do { v \<leftarrow> load_u8 m src; pb_encode_varint s (scast v) }
      else if pf_data_size field = 2
      then do { v \<leftarrow> load_u16 m src; pb_encode_varint s (scast v) }
      else if pf_data_size field = 4
      then do { v \<leftarrow> load_u32 m src; pb_encode_varint s (scast v) }
      else if pf_data_size field = 8
      then do { v \<leftarrow> load_u64 m src; pb_encode_varint s v }
      else Some (os_error s ''invalid data_size''))"

definition pb_enc_uvarint :: "mem \<Rightarrow> 's pb_encoder_t" where
  "pb_enc_uvarint m s field src =
     (if pf_data_size field = 1
      then do { v \<leftarrow> load_u8 m src; pb_encode_varint s (ucast v) }
      else if pf_data_size field = 2
      then do { v \<leftarrow> load_u16 m src; pb_encode_varint s (ucast v) }
      else if pf_data_size field = 4
      then do { v \<leftarrow> load_u32 m src; pb_encode_varint s (ucast v) }
      else if pf_data_size field = 8
      then do { v \<leftarrow> load_u64 m src; pb_encode_varint s v }
      else Some (os_error s ''invalid data_size''))"

definition pb_enc_svarint :: "mem \<Rightarrow> 's pb_encoder_t" where
  "pb_enc_svarint m s field src =
     (if pf_data_size field = 1
      then do { v \<leftarrow> load_u8 m src; pb_encode_svarint s (scast v) }
      else if pf_data_size field = 2
      then do { v \<leftarrow> load_u16 m src; pb_encode_svarint s (scast v) }
      else if pf_data_size field = 4
      then do { v \<leftarrow> load_u32 m src; pb_encode_svarint s (scast v) }
      else if pf_data_size field = 8
      then do { v \<leftarrow> load_u64 m src; pb_encode_svarint s v }
      else Some (os_error s ''invalid data_size''))"

definition pb_enc_fixed64 :: "mem \<Rightarrow> 's pb_encoder_t" where
  "pb_enc_fixed64 m s field src = pb_encode_fixed64 m s src"

definition pb_enc_fixed32 :: "mem \<Rightarrow> 's pb_encoder_t" where
  "pb_enc_fixed32 m s field src = pb_encode_fixed32 m s src"

definition pb_enc_bytes :: "mem \<Rightarrow> 's pb_encoder_t" where
  "pb_enc_bytes m s field src =
     (if src = NULL then pb_encode_string s (Some []) 0
      else do {
        sz \<leftarrow> load_u32 m src;
        if atype field = PB_ATYPE_STATIC
           \<and> PB_BYTES_ARRAY_T_ALLOCSIZE sz > ucast (pf_data_size field)
        then Some (os_error s ''bytes size exceeded'')
        else pb_encode_string s
               (load_bytes m (src + of_nat (offsetof pb_bytes_array_s [''bytes''])) (unat sz))
               (ucast sz)
      })"

text \<open>\<^verbatim>\<open>while (size < max_size && *p != 0)\<close>: the length of a string of at most \<open>k\<close> bytes.\<close>

primrec c_strnlen :: "mem \<Rightarrow> addr \<Rightarrow> nat \<Rightarrow> nat option" where
  "c_strnlen m p 0 = Some 0"
| "c_strnlen m p (Suc k) =
     do { b \<leftarrow> load_u8 m p;
          if b = 0 then Some 0 else map_option Suc (c_strnlen m (p + 1) k) }"

definition pb_enc_string :: "mem \<Rightarrow> 's pb_encoder_t" where
  "pb_enc_string m s field src =
     (let max_size = (if atype field = PB_ATYPE_POINTER then - 1 else ucast (pf_data_size field) :: size_t)
      in if src = NULL then pb_encode_string s (Some []) 0
         else do {
           n \<leftarrow> c_strnlen m src (unat max_size);
           pb_encode_string s (load_bytes m src n) (of_nat n)
         })"

definition pb_encode_submessage ::
  "'s msg_encoder \<Rightarrow> 's pb_ostream_t \<Rightarrow> pb_field_t list \<Rightarrow> addr \<Rightarrow> (bool \<times> 's pb_ostream_t) option" where
  "pb_encode_submessage enc s fs src =
     do {
       (ok, substream) \<leftarrow> enc (PB_OSTREAM_SIZING (os_state s)) fs src;
       if \<not> ok then Some (False, s\<lparr>os_errmsg := os_errmsg substream\<rparr>)
       else let sz = os_bytes_written substream in do {
         (ok, s) \<leftarrow> pb_encode_varint s sz;
         if \<not> ok then Some (False, s)
         else if os_callback s = None then pb_write s None sz
         else if os_bytes_written s + sz > os_max_size s then Some (os_error s ''stream full'')
         else do {
           (status, substream) \<leftarrow> enc (s\<lparr>os_max_size := sz, os_bytes_written := 0, os_errmsg := None\<rparr>) fs src;
           let s = s\<lparr>os_bytes_written := os_bytes_written s + os_bytes_written substream,
                     os_state := os_state substream, os_errmsg := os_errmsg substream\<rparr>;
           if os_bytes_written substream \<noteq> sz then Some (os_error s ''submsg size changed'')
           else Some (status, s)
         }
       }
     }"

definition pb_enc_submessage :: "'s msg_encoder \<Rightarrow> 's pb_encoder_t" where
  "pb_enc_submessage enc s field src =
     (case pf_ptr field of
        PB_NULL \<Rightarrow> Some (os_error s ''invalid field descriptor'')
      | PB_FIELDS fs \<Rightarrow> pb_encode_submessage enc s fs src
      | PB_DEFAULT d \<Rightarrow> None)"

definition pb_enc_fixed_length_bytes :: "mem \<Rightarrow> 's pb_encoder_t" where
  "pb_enc_fixed_length_bytes m s field src =
     pb_encode_string s (load_bytes m src (unat (pf_data_size field))) (ucast (pf_data_size field))"

text \<open>The table of encoders; the entry for extensions is NULL, and there are ten entries.\<close>

definition PB_ENCODERS :: "'s msg_encoder \<Rightarrow> mem \<Rightarrow> pb_type_t \<Rightarrow> 's pb_encoder_t" where
  "PB_ENCODERS enc m lt =
     (if lt = PB_LTYPE_VARINT then pb_enc_varint m
      else if lt = PB_LTYPE_UVARINT then pb_enc_uvarint m
      else if lt = PB_LTYPE_SVARINT then pb_enc_svarint m
      else if lt = PB_LTYPE_FIXED32 then pb_enc_fixed32 m
      else if lt = PB_LTYPE_FIXED64 then pb_enc_fixed64 m
      else if lt = PB_LTYPE_BYTES then pb_enc_bytes m
      else if lt = PB_LTYPE_STRING then pb_enc_string m
      else if lt = PB_LTYPE_SUBMESSAGE then pb_enc_submessage enc
      else if lt = PB_LTYPE_FIXED_LENGTH_BYTES then pb_enc_fixed_length_bytes m
      else (\<lambda>s field src. None))"

subsection \<open>Arrays\<close>

text \<open>The two loops over the items of a packed array.\<close>

primrec encode_items ::
  "'s pb_encoder_t \<Rightarrow> pb_field_t \<Rightarrow> addr \<Rightarrow> nat \<Rightarrow> 's pb_ostream_t \<Rightarrow> (bool \<times> 's pb_ostream_t) option" where
  "encode_items func field p 0 s = Some (True, s)"
| "encode_items func field p (Suc n) s =
     do {
       (ok, s) \<leftarrow> func s field p;
       if \<not> ok then Some (False, s)
       else encode_items func field (p + ucast (pf_data_size field)) n s
     }"

text \<open>The loop over the entries of an array that is not packed.\<close>

primrec encode_entries ::
  "mem \<Rightarrow> 's pb_encoder_t \<Rightarrow> pb_field_t \<Rightarrow> addr \<Rightarrow> nat \<Rightarrow> 's pb_ostream_t \<Rightarrow> (bool \<times> 's pb_ostream_t) option" where
  "encode_entries m func field p 0 s = Some (True, s)"
| "encode_entries m func field p (Suc n) s =
     do {
       (ok, s) \<leftarrow> pb_encode_tag_for_field s field;
       if \<not> ok then Some (False, s)
       else do {
         item \<leftarrow> (if atype field = PB_ATYPE_POINTER
                     \<and> (ltype field = PB_LTYPE_STRING \<or> ltype field = PB_LTYPE_BYTES)
                  then load_ptr m p else Some p);
         (ok, s) \<leftarrow> func s field item;
         if \<not> ok then Some (False, s)
         else encode_entries m func field (p + ucast (pf_data_size field)) n s
       }
     }"

text \<open>
  The size of a packed array: \<^term>\<open>Some None\<close> when the sizing pass fails.
\<close>

definition packed_size ::
  "'s pb_encoder_t \<Rightarrow> 's \<Rightarrow> pb_field_t \<Rightarrow> addr \<Rightarrow> size_t \<Rightarrow> size_t option option" where
  "packed_size func st field pData count =
     (if ltype field = PB_LTYPE_FIXED32 then Some (Some (4 * count))
      else if ltype field = PB_LTYPE_FIXED64 then Some (Some (8 * count))
      else do {
        (ok, sizestream) \<leftarrow> encode_items func field pData (unat count) (PB_OSTREAM_SIZING st);
        Some (if ok then Some (os_bytes_written sizestream) else None)
      })"

definition encode_array ::
  "mem \<Rightarrow> 's pb_ostream_t \<Rightarrow> pb_field_t \<Rightarrow> addr \<Rightarrow> size_t \<Rightarrow> 's pb_encoder_t \<Rightarrow> (bool \<times> 's pb_ostream_t) option" where
  "encode_array m s field pData count func =
     (if count = 0 then Some (True, s)
      else if atype field \<noteq> PB_ATYPE_POINTER \<and> count > ucast (pf_array_size field)
      then Some (os_error s ''array max size exceeded'')
      else if ltype field \<le> PB_LTYPE_LAST_PACKABLE
      then do {
        (ok, s) \<leftarrow> pb_encode_tag s PB_WT_STRING (pf_tag field);
        if \<not> ok then Some (False, s)
        else do {
          sz \<leftarrow> packed_size func (os_state s) field pData count;
          case sz of
            None \<Rightarrow> Some (False, s)
          | Some sz \<Rightarrow> do {
              (ok, s) \<leftarrow> pb_encode_varint s sz;
              if \<not> ok then Some (False, s)
              else if os_callback s = None then pb_write s None sz
              else encode_items func field pData (unat count) s
            }
        }
      }
      else encode_entries m func field pData (unat count) s)"

subsection \<open>Proto3 default values\<close>

text \<open>The byte-per-byte comparison with zero, which stops at the first byte that is not.\<close>

primrec all_zero :: "mem \<Rightarrow> addr \<Rightarrow> nat \<Rightarrow> bool option" where
  "all_zero m p 0 = Some True"
| "all_zero m p (Suc n) = do { b \<leftarrow> load_u8 m p; if b \<noteq> 0 then Some False else all_zero m (p + 1) n }"

definition ptr_size :: "pb_field_t \<Rightarrow> nat" where
  "ptr_size f = (case pf_ptr f of PB_FIELDS fs \<Rightarrow> size_list size fs + 2 | _ \<Rightarrow> 0)"

lemma ptr_size_field_at: "ptr_size (field_at fs i) < Suc (size_list size fs)"
proof (cases "i < length fs")
  case True
  then have "size (fs ! i) \<le> size_list size fs"
    by (intro size_list_estimation' [where x = "fs ! i"]) auto
  moreover have "ptr_size (fs ! i) \<le> size (fs ! i)"
    by (cases "fs ! i") (simp add: ptr_size_def split: pb_ptr.split)
  ultimately show ?thesis using True by (simp add: field_at_def)
next
  case False
  then show ?thesis by (simp add: field_at_def ptr_size_def PB_LAST_FIELD_def)
qed

function (sequential) pb_check_proto3_default_value :: "mem \<Rightarrow> pb_field_t \<Rightarrow> addr \<Rightarrow> bool option"
  and check_proto3_loop :: "mem \<Rightarrow> pb_field_iter_t \<Rightarrow> bool option" where
  "pb_check_proto3_default_value m field pData =
     (let pSize = size_at pData field in
      if htype field = PB_HTYPE_REQUIRED then Some False
      else if htype field = PB_HTYPE_REPEATED then map_option (\<lambda>n. n = 0) (load_u32 m pSize)
      else if htype field = PB_HTYPE_ONEOF then map_option (\<lambda>n. n = 0) (load_u32 m pSize)
      else if htype field = PB_HTYPE_OPTIONAL \<and> pf_size_offset field \<noteq> 0
      then map_option (\<lambda>b. \<not> b) (load_bool m pSize)
      else if atype field = PB_ATYPE_STATIC \<and> ltype field = PB_LTYPE_BYTES
      then map_option (\<lambda>n. n = 0) (load_u32 m pData)
      else if atype field = PB_ATYPE_STATIC \<and> ltype field = PB_LTYPE_STRING
      then map_option (\<lambda>b. b = 0) (load_u8 m pData)
      else if atype field = PB_ATYPE_STATIC \<and> ltype field = PB_LTYPE_FIXED_LENGTH_BYTES
      then Some (pf_data_size field = 0)
      else if atype field = PB_ATYPE_STATIC \<and> ltype field = PB_LTYPE_SUBMESSAGE
      then (case pf_ptr field of
              PB_FIELDS fs \<Rightarrow>
                let it = pb_field_iter_begin fs pData
                in if fst it then check_proto3_loop m (snd it) else Some True
            | _ \<Rightarrow> None)
      else all_zero m pData (unat (pf_data_size field)))"
| "check_proto3_loop m it =
     do {
       dflt \<leftarrow> pb_check_proto3_default_value m (it_field it) (it_pData it);
       if \<not> dflt then Some False
       else let nx = pb_field_iter_next it
            in if fst nx then check_proto3_loop m (snd nx) else Some True
     }"
  by pat_completeness auto
termination
proof (relation "measures
    [\<lambda>x. case x of Inl (m, field, pData) \<Rightarrow> ptr_size field
             | Inr (m, it) \<Rightarrow> Suc (size_list size (it_start it)),
     \<lambda>x. case x of Inl _ \<Rightarrow> 0 | Inr (m, it) \<Rightarrow> length (it_start it) - it_pos it]", goal_cases)
  case 1
  show ?case by simp
next
  case 2
  then show ?case by (simp add: ptr_size_def)
next
  case (3 m it)
  then show ?case using ptr_size_field_at [of "it_start it" "it_pos it"] by (simp add: it_field_def)
next
  case (4 m it)
  then show ?case
    using next_True_pos [of it "snd (pb_field_iter_next it)"] by (auto simp: prod_eq_iff)
qed

declare pb_check_proto3_default_value.simps [simp del] check_proto3_loop.simps [simp del]

subsection \<open>Fields and messages\<close>

definition encode_basic_field ::
  "'s msg_encoder \<Rightarrow> mem \<Rightarrow> 's pb_encoder_t" where
  "encode_basic_field enc m s field pData =
     (let func = PB_ENCODERS enc m (ltype field);
          pSize = size_at pData field
      in do {
        implicit_has \<leftarrow> (if pf_size_offset field \<noteq> 0 then Some False
                         else if htype field = PB_HTYPE_OPTIONAL
                         then map_option (\<lambda>b. \<not> b) (pb_check_proto3_default_value m field pData)
                         else Some True);
        (pData, implicit_has) \<leftarrow> (if atype field = PB_ATYPE_POINTER
                         then map_option (\<lambda>p. (p, p \<noteq> NULL)) (load_ptr m pData)
                         else Some (pData, implicit_has));
        if htype field = PB_HTYPE_REQUIRED then
          if pData = NULL then Some (os_error s ''missing required field'')
          else do {
            (ok, s) \<leftarrow> pb_encode_tag_for_field s field;
            if \<not> ok then Some (False, s) else func s field pData
          }
        else if htype field = PB_HTYPE_OPTIONAL then do {
          has \<leftarrow> (if pf_size_offset field \<noteq> 0 then load_bool m pSize else Some implicit_has);
          if has then do {
            (ok, s) \<leftarrow> pb_encode_tag_for_field s field;
            if \<not> ok then Some (False, s) else func s field pData
          }
          else Some (True, s)
        }
        else if htype field = PB_HTYPE_REPEATED then do {
          count \<leftarrow> (if pf_size_offset field \<noteq> 0 then load_u32 m pSize
                    else Some (pf_array_size field));
          encode_array m s field pData (ucast count) func
        }
        else do {
          which \<leftarrow> (if pf_size_offset field \<noteq> 0 then load_u32 m pSize else None);
          if which = pf_tag field then do {
            (ok, s) \<leftarrow> pb_encode_tag_for_field s field;
            if \<not> ok then Some (False, s) else func s field pData
          }
          else Some (True, s)
        }
      })"

definition encode_callback_field :: "'s pb_enc_env \<Rightarrow> 's pb_encoder_t" where
  "encode_callback_field env s field pData =
     do {
       fn \<leftarrow> load_ptr (ee_mem env) (pData + of_nat (offsetof pb_callback_s [''funcs'']));
       if fn \<noteq> NULL then do {
         (ok, s) \<leftarrow> ee_callback env fn s field (pData + of_nat (offsetof pb_callback_s [''arg'']));
         if \<not> ok then Some (os_error s ''callback error'') else Some (True, s)
       }
       else Some (True, s)
     }"

definition encode_field :: "'s msg_encoder \<Rightarrow> 's pb_enc_env \<Rightarrow> 's pb_encoder_t" where
  "encode_field enc env s field pData =
     (if atype field = PB_ATYPE_STATIC \<or> atype field = PB_ATYPE_POINTER
      then encode_basic_field enc (ee_mem env) s field pData
      else if atype field = PB_ATYPE_CALLBACK then encode_callback_field env s field pData
      else Some (os_error s ''invalid field type''))"

definition ext_type_at :: "mem \<Rightarrow> (addr \<Rightarrow> pb_extension_type_t option) \<Rightarrow> addr \<Rightarrow> pb_extension_type_t option" where
  "ext_type_at m types extension =
     do { t \<leftarrow> load_ptr m (extension + of_nat (offsetof pb_extension_s [''type''])); types t }"

definition default_extension_encoder ::
  "'s msg_encoder \<Rightarrow> 's pb_enc_env \<Rightarrow> 's pb_ostream_t \<Rightarrow> addr \<Rightarrow> (bool \<times> 's pb_ostream_t) option" where
  "default_extension_encoder enc env s extension =
     do {
       xt \<leftarrow> ext_type_at (ee_mem env) (ee_ext_type env) extension;
       let field = xt_arg xt;
       let dest = extension + of_nat (offsetof pb_extension_s [''dest'']);
       if atype field = PB_ATYPE_POINTER then encode_field enc env s field dest
       else do { d \<leftarrow> load_ptr (ee_mem env) dest; encode_field enc env s field d }
     }"

text \<open>\<^verbatim>\<open>while (extension)\<close>, for at most \<open>n\<close> extensions.\<close>

primrec encode_extension_loop ::
  "'s msg_encoder \<Rightarrow> 's pb_enc_env \<Rightarrow> nat \<Rightarrow> addr \<Rightarrow> 's pb_ostream_t \<Rightarrow> (bool \<times> 's pb_ostream_t) option" where
  "encode_extension_loop enc env 0 extension s = (if extension = NULL then Some (True, s) else None)"
| "encode_extension_loop enc env (Suc n) extension s =
     (if extension = NULL then Some (True, s)
      else do {
        xt \<leftarrow> ext_type_at (ee_mem env) (ee_ext_type env) extension;
        (status, s) \<leftarrow> (if xt_encode xt \<noteq> NULL then ee_ext_encode env (xt_encode xt) s extension
                        else default_extension_encoder enc env s extension);
        if \<not> status then Some (False, s)
        else do {
          next_ext \<leftarrow> load_ptr (ee_mem env) (extension + of_nat (offsetof pb_extension_s [''next'']));
          encode_extension_loop enc env n next_ext s
        }
      })"

definition encode_extension_field :: "'s msg_encoder \<Rightarrow> 's pb_enc_env \<Rightarrow> nat \<Rightarrow> 's pb_encoder_t" where
  "encode_extension_field enc env n s field pData =
     do { extension \<leftarrow> load_ptr (ee_mem env) pData; encode_extension_loop enc env n extension s }"

text \<open>\<^verbatim>\<open>do ... while (pb_field_iter_next(&iter))\<close>; \<open>step\<close> encodes the field at an address.\<close>

function encode_fields_loop ::
  "'s pb_encoder_t \<Rightarrow> pb_field_iter_t \<Rightarrow> 's pb_ostream_t \<Rightarrow> (bool \<times> 's pb_ostream_t) option" where
  "encode_fields_loop step it s =
     do {
       (ok, s) \<leftarrow> step s (it_field it) (it_pData it);
       if \<not> ok then Some (False, s)
       else let nx = pb_field_iter_next it
            in if fst nx then encode_fields_loop step (snd nx) s else Some (True, s)
     }"
  by pat_completeness auto
termination
proof (relation "measure (\<lambda>(step, it, s). length (it_start it) - it_pos it)", goal_cases)
  case 1
  show ?case by simp
next
  case (2 step it)
  then show ?case
    using next_True_pos [of it "snd (pb_field_iter_next it)"] by (auto simp: prod_eq_iff)
qed

declare encode_fields_loop.simps [simp del]

definition encode_any_field :: "'s msg_encoder \<Rightarrow> 's pb_enc_env \<Rightarrow> nat \<Rightarrow> 's pb_encoder_t" where
  "encode_any_field enc env n s field pData =
     (if ltype field = PB_LTYPE_EXTENSION then encode_extension_field enc env n s field pData
      else encode_field enc env s field pData)"

primrec pb_encode :: "nat \<Rightarrow> 's pb_enc_env \<Rightarrow> 's msg_encoder" where
  "pb_encode 0 env s fs src_struct = None"
| "pb_encode (Suc n) env s fs src_struct =
     (let it = pb_field_iter_begin fs src_struct
      in if \<not> fst it then Some (True, s)
         else encode_fields_loop (encode_any_field (pb_encode n env) env n) (snd it) s)"

definition pb_encode_delimited :: "nat \<Rightarrow> 's pb_enc_env \<Rightarrow> 's msg_encoder" where
  "pb_encode_delimited n env s fs src_struct = pb_encode_submessage (pb_encode n env) s fs src_struct"

definition pb_encode_nullterminated :: "nat \<Rightarrow> 's pb_enc_env \<Rightarrow> 's msg_encoder" where
  "pb_encode_nullterminated n env s fs src_struct =
     do {
       (ok, s) \<leftarrow> pb_encode n env s fs src_struct;
       if \<not> ok then Some (False, s) else pb_write s (Some [0]) 1
     }"

text \<open>The result is \<^verbatim>\<open>true\<close> with the size, or \<^verbatim>\<open>false\<close> with \<^verbatim>\<open>*size\<close> unchanged.\<close>

definition pb_get_encoded_size ::
  "nat \<Rightarrow> 's pb_enc_env \<Rightarrow> 's \<Rightarrow> size_t \<Rightarrow> pb_field_t list \<Rightarrow> addr \<Rightarrow> (bool \<times> size_t) option" where
  "pb_get_encoded_size n env st sz fs src_struct =
     do {
       (ok, stream) \<leftarrow> pb_encode n env (PB_OSTREAM_SIZING st) fs src_struct;
       Some (if \<not> ok then (False, sz) else (True, os_bytes_written stream))
     }"

end
