(* ===== verification/PB_Sink.thy ===== *)
theory PB_Sink
  imports PB_Ostream
begin

text \<open>
  The contract between the encoder and the sink behind an output stream, and a calculus
  for the encoder's functions.

  The locale \<open>byte_sink\<close> is what the encoder needs of a stream callback: while there is
  room, it takes the bytes and keeps them in order. \<open>emits f bs\<close> says what a step \<open>f\<close> of the
  encoder does when it means to write the bytes \<open>bs\<close>: a stream that only counts counts
  them; a stream with a sink gets exactly them if its limit allows it, and otherwise the
  step fails and returns \<^verbatim>\<open>false\<close>. Steps in sequence emit their bytes in sequence.
  \<open>buf_write\<close>, the callback of a memory buffer, meets the contract (\<open>buf\<close>).

  Sizes stay below \<open>2^63\<close>, as the size of every C object does; beyond that the
  comparison in \<^verbatim>\<open>pb_write\<close> could wrap around.
\<close>

abbreviation size_bound :: nat where
  "size_bound \<equiv> 9223372036854775808"

locale byte_sink =
  fixes cb :: "'s pb_ostream_callback"
    and out :: "'s \<Rightarrow> byte list"
    and room :: "'s \<Rightarrow> nat"
    and sink_ok :: "'s \<Rightarrow> bool"
  assumes cb_accepts:
    "\<lbrakk>sink_ok st; unat count \<le> length bs; unat count \<le> room st\<rbrakk> \<Longrightarrow>
       \<exists>st'. cb st bs count = Some (True, st') \<and> out st' = out st @ take (unat count) bs
             \<and> room st' = room st - unat count \<and> sink_ok st'"
begin

definition good :: "'s pb_ostream_t \<Rightarrow> bool" where
  "good s \<longleftrightarrow> os_callback s = Some cb \<and> unat (os_max_size s) < size_bound
     \<and> unat (os_bytes_written s) \<le> unat (os_max_size s)
     \<and> unat (os_max_size s) - unat (os_bytes_written s) \<le> room (os_state s)
     \<and> sink_ok (os_state s)"

definition appended :: "'s pb_ostream_t \<Rightarrow> 's pb_ostream_t \<Rightarrow> byte list \<Rightarrow> bool" where
  "appended s s' bs \<longleftrightarrow> os_callback s' = os_callback s \<and> os_max_size s' = os_max_size s
     \<and> unat (os_bytes_written s') = unat (os_bytes_written s) + length bs
     \<and> out (os_state s') = out (os_state s) @ bs
     \<and> room (os_state s') = room (os_state s) - length bs \<and> sink_ok (os_state s')"

definition emits :: "('s pb_ostream_t \<Rightarrow> (bool \<times> 's pb_ostream_t) option) \<Rightarrow> byte list \<Rightarrow> bool" where
  "emits f bs \<longleftrightarrow>
     (\<forall>s. os_callback s = None \<longrightarrow>
        f s = Some (True, s\<lparr>os_bytes_written := os_bytes_written s + of_nat (length bs)\<rparr>)) \<and>
     (\<forall>s. good s \<longrightarrow>
        (if unat (os_bytes_written s) + length bs \<le> unat (os_max_size s)
         then \<exists>s'. f s = Some (True, s') \<and> appended s s' bs
         else \<exists>s'. f s = Some (False, s')))"

lemma emitsI:
  assumes "\<And>s. os_callback s = None \<Longrightarrow>
      f s = Some (True, s\<lparr>os_bytes_written := os_bytes_written s + of_nat (length bs)\<rparr>)"
    and "\<And>s. good s \<Longrightarrow> unat (os_bytes_written s) + length bs \<le> unat (os_max_size s) \<Longrightarrow>
      \<exists>s'. f s = Some (True, s') \<and> appended s s' bs"
    and "\<And>s. good s \<Longrightarrow> \<not> unat (os_bytes_written s) + length bs \<le> unat (os_max_size s) \<Longrightarrow>
      \<exists>s'. f s = Some (False, s')"
  shows "emits f bs"
  using assms by (auto simp: emits_def)

lemma emits_counts:
  "emits f bs \<Longrightarrow> os_callback s = None \<Longrightarrow>
   f s = Some (True, s\<lparr>os_bytes_written := os_bytes_written s + of_nat (length bs)\<rparr>)"
  by (simp add: emits_def)

lemma emits_fits:
  assumes "emits f bs" and "good s"
    and "unat (os_bytes_written s) + length bs \<le> unat (os_max_size s)"
  obtains s' where "f s = Some (True, s')" and "appended s s' bs"
  using assms unfolding emits_def by metis

lemma emits_full:
  assumes "emits f bs" and "good s"
    and "\<not> unat (os_bytes_written s) + length bs \<le> unat (os_max_size s)"
  obtains s' where "f s = Some (False, s')"
  using assms unfolding emits_def by metis

lemma appended_good:
  assumes "good s" and "appended s s' bs"
    and "unat (os_bytes_written s) + length bs \<le> unat (os_max_size s)"
  shows "good s'"
  using assms by (auto simp: good_def appended_def)

lemma appended_trans: "appended s s' bs \<Longrightarrow> appended s' s'' cs \<Longrightarrow> appended s s'' (bs @ cs)"
  by (simp add: appended_def)

lemma appended_Nil: "good s \<Longrightarrow> appended s s []"
  by (simp add: appended_def good_def)

lemma emits_nothing: "emits (\<lambda>s. Some (True, s)) []"
  by (rule emitsI) (auto simp: appended_Nil, auto simp: good_def)

text \<open>A sequence of steps, as \<^verbatim>\<open>if (!f(...)) return false; return g(...);\<close>.\<close>

lemma emits_seq:
  assumes f: "emits f bs" and g: "emits g cs"
  shows "emits (\<lambda>s. do { (ok, s) \<leftarrow> f s; if \<not> ok then Some (False, s) else g s }) (bs @ cs)"
    (is "emits ?h _")
proof (rule emitsI)
  fix s :: "'s pb_ostream_t" assume "os_callback s = None"
  then show "?h s = Some (True, s\<lparr>os_bytes_written := os_bytes_written s + of_nat (length (bs @ cs))\<rparr>)"
    by (simp add: emits_counts [OF f] emits_counts [OF g] algebra_simps)
next
  fix s assume s: "good s" and fits: "unat (os_bytes_written s) + length (bs @ cs) \<le> unat (os_max_size s)"
  from fits obtain s' where s': "f s = Some (True, s')" "appended s s' bs"
    by (auto intro: emits_fits [OF f s])
  then have "good s'" using s fits by (auto intro: appended_good)
  moreover have "unat (os_bytes_written s') + length cs \<le> unat (os_max_size s')"
    using s'(2) fits by (simp add: appended_def)
  ultimately obtain s'' where "g s' = Some (True, s'')" "appended s' s'' cs"
    by (auto intro: emits_fits [OF g])
  with s' show "\<exists>s'. ?h s = Some (True, s') \<and> appended s s' (bs @ cs)"
    by (auto intro: appended_trans)
next
  fix s assume s: "good s" and full: "\<not> unat (os_bytes_written s) + length (bs @ cs) \<le> unat (os_max_size s)"
  show "\<exists>s'. ?h s = Some (False, s')"
  proof (cases "unat (os_bytes_written s) + length bs \<le> unat (os_max_size s)")
    case True
    then obtain s' where s': "f s = Some (True, s')" "appended s s' bs"
      by (auto intro: emits_fits [OF f s])
    then have "good s'" using s True by (auto intro: appended_good)
    moreover have "\<not> unat (os_bytes_written s') + length cs \<le> unat (os_max_size s')"
      using s'(2) full by (simp add: appended_def)
    ultimately obtain s'' where "g s' = Some (False, s'')" by (auto intro: emits_full [OF g])
    with s' show ?thesis by auto
  next
    case False
    then obtain s' where "f s = Some (False, s')" by (auto intro: emits_full [OF f s])
    then show ?thesis by auto
  qed
qed

lemma emits_pb_write:
  assumes "length bs < size_bound"
  shows "emits (\<lambda>s. pb_write s (Some bs) (of_nat (length bs))) bs"
proof (rule emitsI)
  fix s :: "'s pb_ostream_t" assume "os_callback s = None"
  then show "pb_write s (Some bs) (of_nat (length bs))
      = Some (True, s\<lparr>os_bytes_written := os_bytes_written s + of_nat (length bs)\<rparr>)"
    by (simp add: pb_write_def)
next
  fix s assume s: "good s" and fits: "unat (os_bytes_written s) + length bs \<le> unat (os_max_size s)"
  have sum: "unat (os_bytes_written s + of_nat (length bs)) = unat (os_bytes_written s) + length bs"
    using s assms by (subst unat_add_no_overflow) (auto simp: good_def)
  then have "\<not> os_bytes_written s + of_nat (length bs) > os_max_size s"
    using fits by (simp add: word_less_nat_alt)
  moreover have "length bs \<le> room (os_state s)" using s fits by (auto simp: good_def)
  then obtain st where "cb (os_state s) bs (of_nat (length bs)) = Some (True, st)"
      "out st = out (os_state s) @ bs" "room st = room (os_state s) - length bs" "sink_ok st"
    using cb_accepts [of "os_state s" "of_nat (length bs)" bs] assms s by (auto simp: good_def)
  ultimately show "\<exists>s'. pb_write s (Some bs) (of_nat (length bs)) = Some (True, s') \<and> appended s s' bs"
    using s sum by (auto simp: pb_write_def good_def appended_def)
next
  fix s assume s: "good s" and full: "\<not> unat (os_bytes_written s) + length bs \<le> unat (os_max_size s)"
  have "unat (os_bytes_written s + of_nat (length bs)) = unat (os_bytes_written s) + length bs"
    using s assms by (subst unat_add_no_overflow) (auto simp: good_def)
  then have "os_bytes_written s + of_nat (length bs) > os_max_size s"
    using full by (simp add: word_less_nat_alt)
  then show "\<exists>s'. pb_write s (Some bs) (of_nat (length bs)) = Some (False, s')"
    using s by (auto simp: pb_write_def good_def os_error_def)
qed

end

section \<open>The memory buffer meets the contract\<close>

definition obuf_out :: "obuf \<Rightarrow> byte list" where
  "obuf_out st = take (ob_pos st) (ob_data st)"

definition obuf_room :: "obuf \<Rightarrow> nat" where
  "obuf_room st = length (ob_data st) - ob_pos st"

text \<open>The part of the buffer that is not written yet is as it was: \<open>buf\<close> is the buffer at the start.\<close>

definition obuf_ok :: "byte list \<Rightarrow> obuf \<Rightarrow> bool" where
  "obuf_ok buf st \<longleftrightarrow> ob_pos st \<le> length (ob_data st) \<and> length (ob_data st) = length buf
     \<and> drop (ob_pos st) (ob_data st) = drop (ob_pos st) buf"

interpretation buf: byte_sink buf_write obuf_out obuf_room "obuf_ok buf" for buf
proof (unfold_locales, goal_cases)
  case (1 st count bs)
  let ?n = "unat count"
  have "drop ?n (drop (ob_pos st) (ob_data st)) = drop ?n (drop (ob_pos st) buf)"
    using 1(1) by (simp add: obuf_ok_def)
  then have "drop (ob_pos st + ?n) (ob_data st) = drop (ob_pos st + ?n) buf"
    by (simp add: add.commute)
  then show ?case
    using 1 by (auto simp: buf_write_def obuf_room_def obuf_out_def obuf_ok_def Let_def)
qed

lemma good_from_buffer:
  "length buf < size_bound \<Longrightarrow> buf.good buf (pb_ostream_from_buffer buf (of_nat (length buf)))"
  by (simp add: buf.good_def pb_ostream_from_buffer_def obuf_room_def obuf_ok_def)

lemma appended_from_buffer:
  assumes "length buf < size_bound"
    and app: "buf.appended buf (pb_ostream_from_buffer buf (of_nat (length buf))) s bs"
  shows "ob_data (os_state s) = bs @ drop (length bs) buf \<and> unat (os_bytes_written s) = length bs"
proof -
  let ?st = "os_state s"
  have *: "take (ob_pos ?st) (ob_data ?st) = bs" "ob_pos ?st \<le> length (ob_data ?st)"
      "drop (ob_pos ?st) (ob_data ?st) = drop (ob_pos ?st) buf"
    using app by (auto simp: buf.appended_def pb_ostream_from_buffer_def obuf_out_def obuf_ok_def)
  then have "ob_pos ?st = length bs" by auto
  then show ?thesis
    using * app append_take_drop_id [of "ob_pos ?st" "ob_data ?st"]
    by (simp add: buf.appended_def pb_ostream_from_buffer_def)
qed

text \<open>What \<open>emits\<close> says of a step that starts on a fresh memory buffer.\<close>

lemma emits_buffer:
  assumes "buf.emits buf f bs" and "length buf < size_bound" and "length bs \<le> length buf"
  shows "\<exists>s. f (pb_ostream_from_buffer buf (of_nat (length buf))) = Some (True, s)
     \<and> ob_data (os_state s) = bs @ drop (length bs) buf \<and> unat (os_bytes_written s) = length bs"
proof -
  have "unat (os_bytes_written (pb_ostream_from_buffer buf (of_nat (length buf)))) + length bs
      \<le> unat (os_max_size (pb_ostream_from_buffer buf (of_nat (length buf))))"
    using assms by (simp add: pb_ostream_from_buffer_def)
  from buf.emits_fits [OF assms(1) good_from_buffer [OF assms(2)] this] show ?thesis
    using appended_from_buffer [OF assms(2)] by metis
qed

lemma emits_buffer_full:
  assumes "buf.emits buf f bs" and "length buf < size_bound" and "length buf < length bs"
  shows "\<exists>s. f (pb_ostream_from_buffer buf (of_nat (length buf))) = Some (False, s)"
proof -
  have "\<not> unat (os_bytes_written (pb_ostream_from_buffer buf (of_nat (length buf)))) + length bs
      \<le> unat (os_max_size (pb_ostream_from_buffer buf (of_nat (length buf))))"
    using assms by (simp add: pb_ostream_from_buffer_def)
  from buf.emits_full [OF assms(1) good_from_buffer [OF assms(2)] this] show ?thesis by metis
qed

end
