(* ===== verification/PB_Encode_Spec.thy ===== *)
theory PB_Encode_Spec
  imports PB_Encode PB_Sink PB_Wire
begin

text \<open>
  What the encoder promises. \<open>abs_msg\<close> reads the message that a structure in memory
  stands for: which fields are present and their values, as a list of \<open>wfield\<close>. The
  refinement: if there is such a message then \<open>pb_encode\<close> writes exactly its wire format
  \<open>ser_fields\<close>, on any sink that keeps the contract of \<open>byte_sink\<close>; a counting stream
  counts exactly its length; a stream that is too small makes it return \<^verbatim>\<open>false\<close>.
  \<open>abs_msg\<close> is \<^const>\<open>None\<close> where the structure stands for no message: a required
  pointer is NULL, a length or count is beyond its maximum, a read leaves its object, or a
  user callback (code outside the library) decides what is written.
\<close>

section \<open>The message in a structure\<close>

definition read_uint :: "mem \<Rightarrow> u32 \<Rightarrow> addr \<Rightarrow> u64 option" where
  "read_uint m k p =
     (if k = 1 \<or> k = 2 \<or> k = 4 \<or> k = 8 then map_option le_word (load_bytes m p (unat k)) else None)"

definition read_sint :: "mem \<Rightarrow> u32 \<Rightarrow> addr \<Rightarrow> u64 option" where
  "read_sint m k p = map_option (signed_take_bit (8 * unat k - 1)) (read_uint m k p)"

type_synonym msg_reader = "pb_field_t list \<Rightarrow> addr \<Rightarrow> wfield list option"

text \<open>One value of a field, at address \<open>p\<close>.\<close>

definition abs_item :: "msg_reader \<Rightarrow> mem \<Rightarrow> pb_field_t \<Rightarrow> addr \<Rightarrow> wval option" where
  "abs_item rd m f p =
     (let k = pf_data_size f; lt = ltype f in
      if lt = PB_LTYPE_VARINT then map_option WVarint (read_sint m k p)
      else if lt = PB_LTYPE_UVARINT then map_option WVarint (read_uint m k p)
      else if lt = PB_LTYPE_SVARINT then map_option (WVarint \<circ> zigzag) (read_sint m k p)
      else if lt = PB_LTYPE_FIXED32 then map_option WFixed32 (load_u32 m p)
      else if lt = PB_LTYPE_FIXED64 then map_option WFixed64 (load_u64 m p)
      else if lt = PB_LTYPE_BYTES then
        if p = NULL then Some (WLen [])
        else do {
          n \<leftarrow> load_u32 m p;
          if atype f = PB_ATYPE_STATIC \<and> unat n + 4 > unat k then None
          else map_option WLen (load_bytes m (p + 4) (unat n))
        }
      else if lt = PB_LTYPE_STRING then
        if p = NULL then Some (WLen [])
        else do {
          n \<leftarrow> c_strnlen m p (if atype f = PB_ATYPE_POINTER then 18446744073709551615 else unat k);
          map_option WLen (load_bytes m p n)
        }
      else if lt = PB_LTYPE_SUBMESSAGE then
        (case pf_ptr f of PB_FIELDS fs \<Rightarrow> map_option WMsg (rd fs p) | _ \<Rightarrow> None)
      else if lt = PB_LTYPE_FIXED_LENGTH_BYTES then map_option WLen (load_bytes m p (unat k))
      else None)"

text \<open>The \<open>n\<close> values of an array, read through a reader of one value.\<close>

primrec abs_items :: "(addr \<Rightarrow> wval option) \<Rightarrow> size_t \<Rightarrow> addr \<Rightarrow> nat \<Rightarrow> wval list option" where
  "abs_items rd k p 0 = Some []"
| "abs_items rd k p (Suc n) = do { v \<leftarrow> rd p; vs \<leftarrow> abs_items rd k (p + k) n; Some (v # vs) }"

text \<open>Strings and bytes in an array that is behind a pointer are behind pointers themselves.\<close>

definition entry_at :: "mem \<Rightarrow> pb_field_t \<Rightarrow> addr \<Rightarrow> addr option" where
  "entry_at m f q =
     (if atype f = PB_ATYPE_POINTER \<and> (ltype f = PB_LTYPE_STRING \<or> ltype f = PB_LTYPE_BYTES)
      then load_ptr m q else Some q)"

definition abs_array :: "msg_reader \<Rightarrow> mem \<Rightarrow> pb_field_t \<Rightarrow> addr \<Rightarrow> u32 \<Rightarrow> wfield list option" where
  "abs_array rd m f p n =
     (let k = ucast (pf_data_size f); item = abs_item rd m f in
      if n = 0 then Some []
      else if atype f \<noteq> PB_ATYPE_POINTER \<and> n > pf_array_size f then None
      else if ltype f \<le> PB_LTYPE_LAST_PACKABLE
      then map_option (\<lambda>vs. [WField (pf_tag f) (WLen (concat (map ser_val vs)))])
             (abs_items item k p (unat n))
      else map_option (map (WField (pf_tag f)))
             (abs_items (\<lambda>q. Option.bind (entry_at m f q) item) k p (unat n)))"

text \<open>
  Whether an optional field is there: its \<^verbatim>\<open>has_\<close> flag says so, or, without one, the
  pointer is not NULL, or a static value is not the default. For a pointer the code
  compares with the default as well, before it looks at the pointer, so those reads have
  to be defined.
\<close>

definition is_present :: "mem \<Rightarrow> pb_field_t \<Rightarrow> addr \<Rightarrow> addr \<Rightarrow> bool option" where
  "is_present m f pData p =
     (if pf_size_offset f \<noteq> 0 then load_bool m (size_at pData f)
      else do {
        dflt \<leftarrow> pb_check_proto3_default_value m f pData;
        Some (if atype f = PB_ATYPE_POINTER then p \<noteq> NULL else \<not> dflt)
      })"

definition abs_basic :: "msg_reader \<Rightarrow> mem \<Rightarrow> pb_field_t \<Rightarrow> addr \<Rightarrow> wfield list option" where
  "abs_basic rd m f pData =
     do {
       p \<leftarrow> (if atype f = PB_ATYPE_POINTER then load_ptr m pData else Some pData);
       let one = map_option (\<lambda>v. [WField (pf_tag f) v]) (abs_item rd m f p);
       if htype f = PB_HTYPE_REQUIRED then if p = NULL then None else one
       else if htype f = PB_HTYPE_OPTIONAL then do {
         here \<leftarrow> is_present m f pData p;
         if here then one else Some []
       }
       else if htype f = PB_HTYPE_REPEATED then do {
         n \<leftarrow> (if pf_size_offset f \<noteq> 0 then load_u32 m (size_at pData f) else Some (pf_array_size f));
         abs_array rd m f p n
       }
       else do {
         which \<leftarrow> (if pf_size_offset f \<noteq> 0 then load_u32 m (size_at pData f) else None);
         if which = pf_tag f then one else Some []
       }
     }"

definition abs_field :: "msg_reader \<Rightarrow> mem \<Rightarrow> pb_field_t \<Rightarrow> addr \<Rightarrow> wfield list option" where
  "abs_field rd m f pData =
     (if atype f = PB_ATYPE_STATIC \<or> atype f = PB_ATYPE_POINTER then abs_basic rd m f pData
      else if atype f = PB_ATYPE_CALLBACK
      then do { fn \<leftarrow> load_ptr m pData; if fn = NULL then Some [] else None }
      else None)"

text \<open>
  Where the value of an extension is: its \<^verbatim>\<open>dest\<close> member points to it, or is itself the
  pointer of a pointer field.
\<close>

definition ext_data :: "mem \<Rightarrow> pb_field_t \<Rightarrow> addr \<Rightarrow> addr option" where
  "ext_data m f e = (if atype f = PB_ATYPE_POINTER then Some (e + 8) else load_ptr m (e + 8))"

text \<open>The fields of a chain of extensions that use the default handler.\<close>

primrec abs_extensions :: "msg_reader \<Rightarrow> 's pb_enc_env \<Rightarrow> nat \<Rightarrow> addr \<Rightarrow> wfield list option" where
  "abs_extensions rd env 0 e = (if e = NULL then Some [] else None)"
| "abs_extensions rd env (Suc n) e =
     (if e = NULL then Some []
      else do {
        xt \<leftarrow> ext_type_at (ee_mem env) (ee_ext_type env) e;
        let f = xt_arg xt;
        d \<leftarrow> ext_data (ee_mem env) f e;
        ws \<leftarrow> (if xt_encode xt \<noteq> NULL then None else abs_field rd (ee_mem env) f d);
        e' \<leftarrow> load_ptr (ee_mem env) (e + 16);
        map_option (\<lambda>vs. ws @ vs) (abs_extensions rd env n e')
      })"

definition abs_any :: "msg_reader \<Rightarrow> 's pb_enc_env \<Rightarrow> nat \<Rightarrow> pb_field_t \<Rightarrow> addr \<Rightarrow> wfield list option" where
  "abs_any rd env n f pData =
     (if ltype f = PB_LTYPE_EXTENSION
      then Option.bind (load_ptr (ee_mem env) pData) (abs_extensions rd env n)
      else abs_field rd (ee_mem env) f pData)"

primrec collect :: "'a option list \<Rightarrow> 'a list option" where
  "collect [] = Some []"
| "collect (x # xs) = do { y \<leftarrow> x; ys \<leftarrow> collect xs; Some (y # ys) }"

primrec abs_msg :: "nat \<Rightarrow> 's pb_enc_env \<Rightarrow> msg_reader" where
  "abs_msg 0 env fs src = None"
| "abs_msg (Suc n) env fs src =
     map_option concat (collect
       (map (\<lambda>i. abs_any (abs_msg n env) env n (field_at fs i) (it_pData (iter_nth fs src i)))
            [0..<field_count fs]))"

section \<open>Reading integers\<close>

lemma signed_take_bit_le_word:
  fixes bs :: "byte list"
  assumes "length bs * 8 = LENGTH('a)" and "LENGTH('a) \<le> 64"
  shows "scast (le_word bs :: 'a::len word) = (signed_take_bit (LENGTH('a) - 1) (le_word bs) :: u64)"
proof -
  have le: "bit (le_word cs :: 'a word) i \<longleftrightarrow> bit (le_word cs :: u64) i" if "i < LENGTH('a)" for i cs
    using that assms(2)
  proof (induction cs arbitrary: i)
    case Nil
    then show ?case by simp
  next
    case (Cons c cs)
    then show ?case by (auto simp: bit_simps)
  qed
  show ?thesis
    by (rule bit_word_eqI) (use assms in \<open>auto simp: bit_simps le min_def\<close>)
qed

lemma ucast_le_word:
  fixes bs :: "byte list"
  assumes "length bs * 8 \<le> LENGTH('a)" and "LENGTH('a) \<le> 64"
  shows "ucast (le_word bs :: 'a::len word) = (le_word bs :: u64)"
  using assms
proof (induction bs)
  case Nil
  then show ?case by simp
next
  case (Cons b bs)
  then have IH: "ucast (le_word bs :: 'a word) = (le_word bs :: u64)" by simp
  have "bit (le_word bs :: 'a word) i \<longrightarrow> i + 8 < LENGTH('a)" for i
    using bit_le_word [of bs i, where 'a = 'a] Cons.prems by auto
  moreover have "bit b i \<longrightarrow> i < LENGTH('a)" for i
    using bit_imp_le_length [of b i] Cons.prems by auto
  ultimately show ?case
    using Cons.prems by (fastforce intro: bit_word_eqI simp: IH [symmetric] bit_simps)
qed

lemma length_load_bytes: "load_bytes m p n = Some bs \<Longrightarrow> length bs = n"
  by (induction n arbitrary: p bs) (auto simp: res_simps)

lemma read_uint_1: "read_uint m 1 p = map_option ucast (load_u8 m p)"
  by (cases "mem_data m p") (simp_all add: read_uint_def load_u8_def)

lemma read_sint_1: "read_sint m 1 p = map_option scast (load_u8 m p)"
proof (cases "mem_data m p")
  case (Some b)
  have "signed_take_bit 7 (ucast b :: u64) = scast b"
    by (rule bit_word_eqI) (auto simp: bit_simps min_def)
  then show ?thesis using Some by (simp add: read_sint_def read_uint_1 load_u8_def)
qed (simp add: read_sint_def read_uint_1 load_u8_def)

lemma read_uint_word:
  "read_uint m 2 p = map_option ucast (load_u16 m p)"
  "read_uint m 4 p = map_option ucast (load_u32 m p)"
  "read_uint m 8 p = load_u64 m p"
  by (auto simp: read_uint_def load_u16_def load_u32_def load_u64_def option.map_comp o_def
        ucast_le_word dest!: length_load_bytes intro!: map_option_cong)

lemma read_sint_word:
  "read_sint m 2 p = map_option scast (load_u16 m p)"
  "read_sint m 4 p = map_option scast (load_u32 m p)"
  "read_sint m 8 p = load_u64 m p"
  using signed_take_bit_le_word [where 'a = 64]
  by (auto simp: read_sint_def read_uint_def load_u16_def load_u32_def load_u64_def
        option.map_comp o_def signed_take_bit_le_word
        dest!: length_load_bytes intro!: map_option_cong)

lemma read_uint_size: "read_uint m k p = Some v \<Longrightarrow> k = 1 \<or> k = 2 \<or> k = 4 \<or> k = 8"
  by (simp add: read_uint_def split: if_splits)

lemma read_sint_size: "read_sint m k p = Some v \<Longrightarrow> k = 1 \<or> k = 2 \<or> k = 4 \<or> k = 8"
  by (auto simp: read_sint_def dest: read_uint_size)

lemmas read_int = read_uint_1 read_uint_word read_sint_1 read_sint_word

end
