(* ===== verification/PB_Encode_Refine.thy ===== *)
theory PB_Encode_Refine
  imports PB_Encode_Spec
begin

text \<open>
  The encoder refines the wire format. Inside the contract \<open>byte_sink\<close> every function of
  \<^verbatim>\<open>pb_encode.c\<close> is shown to emit the bytes of the value it reads, from single values up
  to whole messages (\<open>encodes_pb_encode\<close>); the theorems at the end state the result for
  the memory buffer of \<^verbatim>\<open>pb_ostream_from_buffer\<close>.
\<close>

lemma unat_key:
  assumes "unat w < 8"
  shows "unat (push_bit 3 (ucast (t :: u32)) OR ucast (w :: u32) :: u64) = 8 * unat t + unat w"
proof -
  have w: "take_bit 3 w = w"
    using assms by (intro word_unat_eq_iff [THEN iffD2]) (simp add: word_nat)
  have "\<not> bit w n" if "3 \<le> n" for n
    using that by (subst w [symmetric]) (simp add: bit_simps)
  then have "push_bit 3 (ucast t) AND ucast w = (0 :: u64)"
    by (intro bit_word_eqI) (auto simp: bit_simps)
  then have "push_bit 3 (ucast t) OR ucast w = (push_bit 3 (ucast t) + ucast w :: u64)"
    by (rule or_disjoint_add)
  moreover have "unat (push_bit 3 (ucast t) :: u64) = 8 * unat t"
  proof -
    have "push_bit 3 (ucast t) = (of_nat (8 * unat t) :: u64)"
      by (simp add: push_bit_eq_mult)
    moreover have "8 * unat t < 18446744073709551616"
      using unat_lt_32 [of t] by linarith
    ultimately show ?thesis by (simp only: unat_of_nat_64)
  qed
  moreover have "8 * unat t + unat w < 18446744073709551616"
    using unat_lt_32 [of t] assms by linarith
  ultimately show ?thesis by (simp add: unat_add_no_overflow)
qed

section \<open>Values\<close>

context byte_sink
begin

lemma emits_varint: "emits (\<lambda>s. pb_encode_varint s v) (varint (unat v))"
  using length_varint_u64 [of v]
  by (simp add: pb_encode_varint_eq) (rule emits_pb_write, simp)

lemma emits_tag:
  "unat w < 8 \<Longrightarrow> emits (\<lambda>s. pb_encode_tag s w t) (varint (8 * unat t + unat w))"
  using emits_varint [of "push_bit 3 (ucast t) OR ucast w"]
  by (simp add: pb_encode_tag_def unat_key)

lemma emits_string:
  assumes "length bs < size_bound"
  shows "emits (\<lambda>s. pb_encode_string s (Some bs) (of_nat (length bs))) (varint (length bs) @ bs)"
  using emits_seq [OF emits_varint [of "of_nat (length bs)"] emits_pb_write [OF assms]] assms
  by (simp add: pb_encode_string_def)

text \<open>The second pass over a length-prefixed part is a mere count on a counting stream.\<close>

lemma emits_sized:
  assumes "\<And>s. good s \<Longrightarrow> unat (os_bytes_written s) + length bs \<le> unat (os_max_size s) \<Longrightarrow>
      \<exists>s'. g s = Some (True, s') \<and> appended s s' bs"
    and "\<And>s. good s \<Longrightarrow> \<not> unat (os_bytes_written s) + length bs \<le> unat (os_max_size s) \<Longrightarrow>
      \<exists>s'. g s = Some (False, s')"
  shows "emits (\<lambda>s. if os_callback s = None then pb_write s None (of_nat (length bs)) else g s) bs"
proof (rule emitsI)
  fix s assume s: "good s" and "unat (os_bytes_written s) + length bs \<le> unat (os_max_size s)"
  from assms(1) [OF this] s
  show "\<exists>s'. (if os_callback s = None then pb_write s None (of_nat (length bs)) else g s)
      = Some (True, s') \<and> appended s s' bs" by (simp add: good_def)
next
  fix s assume s: "good s" and "\<not> unat (os_bytes_written s) + length bs \<le> unat (os_max_size s)"
  from assms(2) [OF this] s
  show "\<exists>s'. (if os_callback s = None then pb_write s None (of_nat (length bs)) else g s)
      = Some (False, s')" by (simp add: good_def)
qed (simp add: pb_write_def)

lemma emits_sized_emits:
  "emits g bs \<Longrightarrow>
   emits (\<lambda>s. if os_callback s = None then pb_write s None (of_nat (length bs)) else g s) bs"
  by (rule emits_sized) (auto elim: emits_fits emits_full)

text \<open>\<open>enc\<close> encodes the messages that \<open>rd\<close> reads.\<close>

definition encodes :: "'s msg_encoder \<Rightarrow> msg_reader \<Rightarrow> bool" where
  "encodes enc rd \<longleftrightarrow> (\<forall>fs p ws. rd fs p = Some ws \<longrightarrow> length (ser_fields ws) < size_bound \<longrightarrow>
     emits (\<lambda>s. enc s fs p) (ser_fields ws))"

text \<open>
  The second pass of \<^verbatim>\<open>pb_encode_submessage\<close>: it runs on a copy of the stream whose limit
  is the size the first pass counted, so it writes exactly that many bytes, and the check
  that the size did not change always passes.
\<close>

definition submessage_body :: "'s msg_encoder \<Rightarrow> size_t \<Rightarrow> pb_field_t list \<Rightarrow> addr \<Rightarrow>
    's pb_ostream_t \<Rightarrow> (bool \<times> 's pb_ostream_t) option" where
  "submessage_body enc sz fs p s =
     (if os_bytes_written s + sz > os_max_size s then Some (os_error s ''stream full'')
      else do {
        (status, substream) \<leftarrow> enc (s\<lparr>os_max_size := sz, os_bytes_written := 0, os_errmsg := None\<rparr>) fs p;
        let s = s\<lparr>os_bytes_written := os_bytes_written s + os_bytes_written substream,
                  os_state := os_state substream, os_errmsg := os_errmsg substream\<rparr>;
        if os_bytes_written substream \<noteq> sz then Some (os_error s ''submsg size changed'')
        else Some (status, s)
      })"

lemma no_wrap:
  "good s \<Longrightarrow> n < size_bound \<Longrightarrow>
   unat (os_bytes_written s + of_nat n) = unat (os_bytes_written s) + n"
  by (subst unat_add_no_overflow) (auto simp: good_def)

lemma submessage_body_fits:
  assumes enc: "emits (\<lambda>s. enc s fs p) bs" and len: "length bs < size_bound" and s: "good s"
    and fits: "unat (os_bytes_written s) + length bs \<le> unat (os_max_size s)"
  shows "\<exists>s'. submessage_body enc (of_nat (length bs)) fs p s = Some (True, s') \<and> appended s s' bs"
proof -
  let ?sub = "s\<lparr>os_max_size := of_nat (length bs), os_bytes_written := 0, os_errmsg := None\<rparr>"
  have "good ?sub" using s len fits by (auto simp: good_def)
  then obtain t where t: "enc ?sub fs p = Some (True, t)" "appended ?sub t bs"
    using len by (auto elim: emits_fits [OF enc])
  have w: "os_bytes_written t = of_nat (length bs)"
    using t(2) len by (simp add: appended_def word_unat_eq_iff)
  have "\<not> os_bytes_written s + of_nat (length bs) > os_max_size s"
    using no_wrap [OF s len] fits by (simp add: word_less_nat_alt)
  then show ?thesis
    using t w no_wrap [OF s len] by (auto simp: submessage_body_def appended_def)
qed

lemma submessage_body_full:
  assumes len: "length bs < size_bound" and s: "good s"
    and full: "\<not> unat (os_bytes_written s) + length bs \<le> unat (os_max_size s)"
  shows "\<exists>s'. submessage_body enc (of_nat (length bs)) fs p s = Some (False, s')"
  using no_wrap [OF s len] full
  by (auto simp: submessage_body_def word_less_nat_alt os_error_def)

lemma emits_submessage:
  assumes enc: "emits (\<lambda>s. enc s fs p) bs" and len: "length bs < size_bound"
  shows "emits (\<lambda>s. pb_encode_submessage enc s fs p) (varint (length bs) @ bs)"
proof -
  have sz: "enc (PB_OSTREAM_SIZING st) fs p
      = Some (True, (PB_OSTREAM_SIZING st)\<lparr>os_bytes_written := of_nat (length bs)\<rparr>)" for st
    using emits_counts [OF enc, of "PB_OSTREAM_SIZING st"] by (simp add: PB_OSTREAM_SIZING_def)
  have "emits (\<lambda>s. if os_callback s = None then pb_write s None (of_nat (length bs))
                   else submessage_body enc (of_nat (length bs)) fs p s) bs"
    by (rule emits_sized) (auto intro: submessage_body_fits submessage_body_full enc len)
  from emits_seq [OF emits_varint [of "of_nat (length bs)"] this] show ?thesis
    using len unfolding pb_encode_submessage_def submessage_body_def Let_def
    by (simp add: sz cong: if_cong)
qed

section \<open>Field encoders\<close>

lemma emits_loaded:
  assumes "load_bytes m p n = Some bs" and "length (ser_val (WLen bs)) < size_bound"
  shows "emits (\<lambda>s. pb_encode_string s (load_bytes m p n) (of_nat n)) (ser_val (WLen bs))"
  using emits_string [of bs] assms by (simp add: length_load_bytes)

lemma emits_enc_varint:
  assumes "read_sint m (pf_data_size f) p = Some v"
  shows "emits (\<lambda>s. pb_enc_varint m s f p) (varint (unat v))"
  using read_sint_size [OF assms] assms
  by (elim disjE) (auto simp: pb_enc_varint_def read_int emits_varint)

lemma emits_enc_uvarint:
  assumes "read_uint m (pf_data_size f) p = Some v"
  shows "emits (\<lambda>s. pb_enc_uvarint m s f p) (varint (unat v))"
  using read_uint_size [OF assms] assms
  by (elim disjE) (auto simp: pb_enc_uvarint_def read_int emits_varint simp del: unat_ucast_32_64)

lemma emits_enc_svarint:
  assumes "read_sint m (pf_data_size f) p = Some v"
  shows "emits (\<lambda>s. pb_enc_svarint m s f p) (varint (unat (zigzag v)))"
  using read_sint_size [OF assms] assms
  by (elim disjE) (auto simp: pb_enc_svarint_def pb_encode_svarint_def read_int emits_varint)

lemma emits_enc_fixed32:
  "load_u32 m p = Some v \<Longrightarrow> emits (\<lambda>s. pb_enc_fixed32 m s f p) (le_bytes 4 v)"
  using emits_pb_write [of "le_bytes 4 v"]
  by (simp add: pb_enc_fixed32_def pb_encode_fixed32_def le_bytes_4 ucast_and_FF)

lemma emits_enc_fixed64:
  "load_u64 m p = Some v \<Longrightarrow> emits (\<lambda>s. pb_enc_fixed64 m s f p) (le_bytes 8 v)"
  using emits_pb_write [of "le_bytes 8 v"]
  by (simp add: pb_enc_fixed64_def pb_encode_fixed64_def le_bytes_8 ucast_and_FF)

lemma emits_enc_bytes:
  assumes "abs_item rd m f p = Some v" and "ltype f = PB_LTYPE_BYTES"
    and "length (ser_val v) < size_bound"
  shows "emits (\<lambda>s. pb_enc_bytes m s f p) (ser_val v)"
proof (cases "p = NULL")
  case True
  then show ?thesis using assms emits_string [of "[]"]
    by (auto simp: pb_enc_bytes_def abs_item_def Let_def)
next
  case False
  then obtain n bs where n: "load_u32 m p = Some n" "load_bytes m (p + 4) (unat n) = Some bs" "v = WLen bs"
      "\<not> (atype f = PB_ATYPE_STATIC \<and> unat n + 4 > unat (pf_data_size f))"
    using assms(1,2) by (auto simp: abs_item_def res_simps split: if_splits)
  then have guard: "\<not> (atype f = PB_ATYPE_STATIC \<and> PB_BYTES_ARRAY_T_ALLOCSIZE n > ucast (pf_data_size f))"
    by (auto simp: word_less_nat_alt word_nat)
  have "emits (\<lambda>s. pb_encode_string s (load_bytes m (p + 4) (unat n)) (ucast n)) (ser_val v)"
    using emits_loaded [OF n(2)] n(3) assms(3) by simp
  then show ?thesis using False n(1) guard
    by (cases "atype f = PB_ATYPE_STATIC") (simp_all add: pb_enc_bytes_def)
qed

lemma emits_enc_string:
  assumes "abs_item rd m f p = Some v" and "ltype f = PB_LTYPE_STRING"
    and "length (ser_val v) < size_bound"
  shows "emits (\<lambda>s. pb_enc_string m s f p) (ser_val v)"
proof (cases "p = NULL")
  case True
  then show ?thesis using assms emits_string [of "[]"]
    by (auto simp: pb_enc_string_def abs_item_def Let_def)
next
  case False
  define k :: size_t where "k = (if atype f = PB_ATYPE_POINTER then - 1 else ucast (pf_data_size f))"
  have k: "unat k = (if atype f = PB_ATYPE_POINTER then 18446744073709551615 else unat (pf_data_size f))"
    by (simp add: k_def unsigned_minus_1_eq_mask mask_eq_exp_minus_1)
  obtain n bs where n: "c_strnlen m p (unat k) = Some n" "load_bytes m p n = Some bs" "v = WLen bs"
    using False assms(1,2) by (auto simp: abs_item_def res_simps k)
  then show ?thesis
    using False emits_loaded [OF n(2)] assms(3) by (simp add: pb_enc_string_def k_def [symmetric])
qed

lemma emits_PB_ENCODERS:
  assumes v: "abs_item rd m f p = Some v" and len: "length (ser_val v) < size_bound"
    and enc: "encodes enc rd"
  shows "emits (\<lambda>s. PB_ENCODERS enc m (ltype f) s f p) (ser_val v)"
proof -
  have sub: "emits (\<lambda>s. pb_enc_submessage enc s f p) (ser_val v)" if lt: "ltype f = PB_LTYPE_SUBMESSAGE"
  proof -
    obtain fs ws where "pf_ptr f = PB_FIELDS fs" "rd fs p = Some ws" "v = WMsg ws"
      using v lt by (auto simp: abs_item_def split: pb_ptr.splits)
    moreover from this have "length (ser_fields ws) < size_bound" using len by (simp add: Let_def)
    ultimately show ?thesis
      using enc by (simp add: pb_enc_submessage_def encodes_def emits_submessage Let_def)
  qed
  have flb: "emits (\<lambda>s. pb_enc_fixed_length_bytes m s f p) (ser_val v)"
    if lt: "ltype f = PB_LTYPE_FIXED_LENGTH_BYTES"
  proof -
    obtain bs where "load_bytes m p (unat (pf_data_size f)) = Some bs" "v = WLen bs"
      using v lt by (auto simp: abs_item_def)
    then show ?thesis using emits_loaded [of m p "unat (pf_data_size f)" bs] len
      by (simp add: pb_enc_fixed_length_bytes_def)
  qed
  show ?thesis
    using v sub flb emits_enc_bytes [OF v _ len] emits_enc_string [OF v _ len]
    unfolding PB_ENCODERS_def
    by (auto simp: abs_item_def emits_enc_varint emits_enc_uvarint emits_enc_svarint
          emits_enc_fixed32 emits_enc_fixed64 Let_def split: if_splits)
qed

lemma emits_tag_for_field:
  assumes "abs_item rd m f p = Some v"
  shows "emits (\<lambda>s. pb_encode_tag_for_field s f) (varint (8 * unat (pf_tag f) + wire_type v))"
proof -
  have "\<exists>w. wiretype_of (ltype f) = Some w \<and> unat w = wire_type v"
    using assms
    by (auto simp: abs_item_def wiretype_of_def res_simps Let_def split: if_splits pb_ptr.splits)
  then obtain w where "wiretype_of (ltype f) = Some w" "unat w = wire_type v" by blast
  then show ?thesis
    using emits_tag [of w "pf_tag f"] wire_type_less [of v]
    by (simp add: pb_encode_tag_for_field_def)
qed

lemma emits_one:
  assumes v: "abs_item rd m f p = Some v" and "length (ser_field (WField (pf_tag f) v)) < size_bound"
    and enc: "encodes enc rd"
  shows "emits (\<lambda>s. do { (ok, s) \<leftarrow> pb_encode_tag_for_field s f;
                      if \<not> ok then Some (False, s) else PB_ENCODERS enc m (ltype f) s f p })
           (ser_field (WField (pf_tag f) v))"
  using emits_seq [OF emits_tag_for_field [OF v] emits_PB_ENCODERS [OF v _ enc]] assms(2) by simp

section \<open>Arrays\<close>

lemma emits_items:
  assumes rd: "\<And>q v. rd q = Some v \<Longrightarrow> length (ser_val v) < size_bound \<Longrightarrow>
      emits (\<lambda>s. func s f q) (ser_val v)"
  shows "abs_items rd (ucast (pf_data_size f)) p n = Some vs \<Longrightarrow>
    length (concat (map ser_val vs)) < size_bound \<Longrightarrow>
    emits (encode_items func f p n) (concat (map ser_val vs))"
proof (induction n arbitrary: p vs)
  case 0
  then show ?case using emits_nothing by simp
next
  case (Suc n)
  then obtain w ws where w: "rd p = Some w" "vs = w # ws"
      "abs_items rd (ucast (pf_data_size f)) (p + ucast (pf_data_size f)) n = Some ws"
    by (auto simp: res_simps)
  have "emits (\<lambda>s. func s f p) (ser_val w)"
    using Suc.prems(2) w(2) by (intro rd w(1)) simp
  from emits_seq [OF this Suc.IH [OF w(3)]] Suc.prems(2) w(2) show ?case by simp
qed

lemma ser_fields_map:
  "ser_fields (map (WField t) vs) = concat (map (\<lambda>v. ser_field (WField t v)) vs)"
  by (induction vs) auto

lemma emits_entries:
  fixes rd :: msg_reader
  assumes enc: "encodes enc rd"
  shows "abs_items (\<lambda>q. Option.bind (entry_at m f q) (abs_item rd m f)) (ucast (pf_data_size f)) p n = Some vs \<Longrightarrow>
    length (ser_fields (map (WField (pf_tag f)) vs)) < size_bound \<Longrightarrow>
    emits (encode_entries m (PB_ENCODERS enc m (ltype f)) f p n)
      (ser_fields (map (WField (pf_tag f)) vs))"
proof (induction n arbitrary: p vs)
  case 0
  then show ?case using emits_nothing by simp
next
  case (Suc n)
  then obtain w ws q where w: "entry_at m f p = Some q" "abs_item rd m f q = Some w" "vs = w # ws"
      "abs_items (\<lambda>q. Option.bind (entry_at m f q) (abs_item rd m f)) (ucast (pf_data_size f))
         (p + ucast (pf_data_size f)) n = Some ws"
    by (auto simp: res_simps)
  have one: "emits (\<lambda>s. PB_ENCODERS enc m (ltype f) s f q) (ser_val w)"
    using Suc.prems(2) w(3) by (intro emits_PB_ENCODERS [OF w(2) _ enc]) simp
  have rest: "emits (encode_entries m (PB_ENCODERS enc m (ltype f)) f (p + ucast (pf_data_size f)) n)
      (ser_fields (map (WField (pf_tag f)) ws))"
    using Suc.prems(2) w(3) by (intro Suc.IH [OF w(4)]) simp
  have "(if atype f = PB_ATYPE_POINTER \<and> (ltype f = PB_LTYPE_STRING \<or> ltype f = PB_LTYPE_BYTES)
         then load_ptr m p else Some p) = Some q"
    using w(1) by (simp add: entry_at_def)
  then show ?case
    using emits_seq [OF emits_tag_for_field [OF w(2)] emits_seq [OF one rest]] w(3)
    by (simp cong: if_cong)
qed

lemma packed_size_eq:
  assumes vs: "abs_items (abs_item rd m f) (ucast (pf_data_size f)) p (unat n) = Some vs"
    and len: "length (concat (map ser_val vs)) < size_bound" and enc: "encodes enc rd"
  shows "packed_size (PB_ENCODERS enc m (ltype f)) st f p n
     = Some (Some (of_nat (length (concat (map ser_val vs)))))"
proof -
  have num: "abs_items (abs_item rd m f) k q i = Some us \<Longrightarrow> length us = i" for k q i us
    by (induction i arbitrary: q us) (auto simp: res_simps)
  have fixd: "abs_items (abs_item rd m f) k q i = Some us \<Longrightarrow> ltype f = PB_LTYPE_FIXED32 \<Longrightarrow>
      length (concat (map ser_val us)) = 4 * i" for k q i us
    by (induction i arbitrary: q us) (auto simp: res_simps abs_item_def)
  have fixd8: "abs_items (abs_item rd m f) k q i = Some us \<Longrightarrow> ltype f = PB_LTYPE_FIXED64 \<Longrightarrow>
      length (concat (map ser_val us)) = 8 * i" for k q i us
    by (induction i arbitrary: q us) (auto simp: res_simps abs_item_def)
  have "emits (encode_items (PB_ENCODERS enc m (ltype f)) f p (unat n)) (concat (map ser_val vs))"
    by (rule emits_items [OF _ vs len]) (auto intro: emits_PB_ENCODERS enc)
  from emits_counts [OF this, of "PB_OSTREAM_SIZING st"]
  show ?thesis
    by (auto simp: packed_size_def PB_OSTREAM_SIZING_def fixd [OF vs] fixd8 [OF vs])
qed

lemma emits_array:
  assumes ws: "abs_array rd m f p n = Some ws" and len: "length (ser_fields ws) < size_bound"
    and enc: "encodes enc rd"
  shows "emits (\<lambda>s. encode_array m s f p (ucast n) (PB_ENCODERS enc m (ltype f))) (ser_fields ws)"
proof (cases "n = 0")
  case True
  then show ?thesis using ws emits_nothing by (simp add: encode_array_def abs_array_def)
next
  case n: False
  let ?func = "PB_ENCODERS enc m (ltype f)"
  have nz: "(ucast n :: size_t) \<noteq> 0" using n by (simp add: word_unat_eq_iff)
  have max: "\<not> (atype f \<noteq> PB_ATYPE_POINTER \<and> (ucast n :: size_t) > ucast (pf_array_size f))"
    using ws n by (auto simp: abs_array_def Let_def word_less_nat_alt split: if_splits)
  show ?thesis
  proof (cases "ltype f \<le> PB_LTYPE_LAST_PACKABLE")
    case True
    then obtain vs where vs: "abs_items (abs_item rd m f) (ucast (pf_data_size f)) p (unat n) = Some vs"
        "ws = [WField (pf_tag f) (WLen (concat (map ser_val vs)))]"
      using ws n by (auto simp: abs_array_def Let_def split: if_splits)
    let ?bs = "concat (map ser_val vs)"
    have bs: "length ?bs < size_bound" using len vs(2) by simp
    have "emits (encode_items ?func f p (unat n)) ?bs"
      by (rule emits_items [OF _ vs(1) bs]) (auto intro: emits_PB_ENCODERS enc)
    from emits_seq [OF emits_tag [of PB_WT_STRING "pf_tag f"]
          emits_seq [OF emits_varint [of "of_nat (length ?bs)"] emits_sized_emits [OF this]]]
    have "emits (\<lambda>s. do {
        (ok, s) \<leftarrow> pb_encode_tag s PB_WT_STRING (pf_tag f);
        if \<not> ok then Some (False, s)
        else do {
          (ok, s) \<leftarrow> pb_encode_varint s (of_nat (length ?bs));
          if \<not> ok then Some (False, s)
          else if os_callback s = None then pb_write s None (of_nat (length ?bs))
          else encode_items ?func f p (unat n) s
        }
      }) (ser_fields ws)"
      using bs vs(2) by (simp add: unat_of_nat_64 [OF less_trans, of _ size_bound])
    then show ?thesis
      using nz max True packed_size_eq [OF _ bs enc, of m f p "ucast n"] vs(1)
      by (auto simp: encode_array_def cong: if_cong)
  next
    case False
    then obtain vs where vs: "abs_items (\<lambda>q. Option.bind (entry_at m f q) (abs_item rd m f))
          (ucast (pf_data_size f)) p (unat n) = Some vs" "ws = map (WField (pf_tag f)) vs"
      using ws n by (auto simp: abs_array_def Let_def split: if_splits)
    then have "emits (encode_entries m ?func f p (unat n)) (ser_fields ws)"
      using emits_entries [OF enc vs(1)] len by simp
    then show ?thesis using nz max False by (auto simp: encode_array_def cong: if_cong)
  qed
qed

section \<open>Fields and messages\<close>

lemma emits_basic_field:
  assumes ws: "abs_basic rd m f pData = Some ws" and len: "length (ser_fields ws) < size_bound"
    and enc: "encodes enc rd"
  shows "emits (\<lambda>s. encode_basic_field enc m s f pData) (ser_fields ws)"
proof -
  obtain p where p: "(if atype f = PB_ATYPE_POINTER then load_ptr m pData else Some pData) = Some p"
    using ws by (auto simp: abs_basic_def res_simps)
  have one: "emits (\<lambda>s. do { (ok, s) \<leftarrow> pb_encode_tag_for_field s f;
                      if \<not> ok then Some (False, s) else PB_ENCODERS enc m (ltype f) s f p }) (ser_fields ws)"
    if "map_option (\<lambda>v. [WField (pf_tag f) v]) (abs_item rd m f p) = Some ws"
    using that len emits_one [OF _ _ enc, of m f p] by auto
  consider "htype f = PB_HTYPE_REQUIRED" | "htype f = PB_HTYPE_OPTIONAL"
    | "htype f = PB_HTYPE_REPEATED"
    | "htype f \<noteq> PB_HTYPE_REQUIRED" "htype f \<noteq> PB_HTYPE_OPTIONAL" "htype f \<noteq> PB_HTYPE_REPEATED"
    by blast
  then show ?thesis
  proof cases
    case 1
    then show ?thesis using ws p one
      by (auto simp: abs_basic_def encode_basic_field_def res_simps Let_def split: if_splits
            cong: if_cong)
  next
    case 2
    then show ?thesis using ws p one emits_nothing
      by (auto simp: abs_basic_def encode_basic_field_def is_present_def res_simps Let_def
            split: if_splits cong: if_cong)
  next
    case 3
    then show ?thesis using ws p emits_array [OF _ len enc]
      by (auto simp: abs_basic_def encode_basic_field_def res_simps Let_def split: if_splits
            cong: if_cong)
  next
    case 4
    then show ?thesis using ws p one emits_nothing
      by (auto simp: abs_basic_def encode_basic_field_def res_simps Let_def split: if_splits
            cong: if_cong)
  qed
qed

lemma emits_field:
  assumes "abs_field rd (ee_mem env) f pData = Some ws" and "length (ser_fields ws) < size_bound"
    and "encodes enc rd"
  shows "emits (\<lambda>s. encode_field enc env s f pData) (ser_fields ws)"
  using assms emits_basic_field emits_nothing
  by (auto simp: abs_field_def encode_field_def encode_callback_field_def res_simps
        split: if_splits)

lemma emits_extensions:
  assumes enc: "encodes enc rd"
  shows "abs_extensions rd env n e = Some ws \<Longrightarrow> length (ser_fields ws) < size_bound \<Longrightarrow>
    emits (encode_extension_loop enc env n e) (ser_fields ws)"
proof (induction n arbitrary: e ws)
  case 0
  then show ?case using emits_nothing by (auto split: if_splits)
next
  case (Suc n)
  show ?case
  proof (cases "e = NULL")
    case True
    then show ?thesis using Suc.prems emits_nothing by simp
  next
    case False
    then obtain xt d vs e' us where
        xt: "ext_type_at (ee_mem env) (ee_ext_type env) e = Some xt" "xt_encode xt = NULL"
      and d: "ext_data (ee_mem env) (xt_arg xt) e = Some d"
      and vs: "abs_field rd (ee_mem env) (xt_arg xt) d = Some vs"
      and e': "load_ptr (ee_mem env) (e + 16) = Some e'"
      and us: "abs_extensions rd env n e' = Some us" and ws: "ws = vs @ us"
      using Suc.prems(1) by (auto simp: res_simps Let_def split: if_splits)
    have "emits (\<lambda>s. encode_field enc env s (xt_arg xt) d) (ser_fields vs)"
      using Suc.prems(2) ws by (intro emits_field [OF vs _ enc]) simp
    then have "emits (\<lambda>s. default_extension_encoder enc env s e) (ser_fields vs)"
      using xt d by (simp add: default_extension_encoder_def ext_data_def Let_def split: if_splits)
    moreover have "emits (encode_extension_loop enc env n e') (ser_fields us)"
      using Suc.prems(2) ws by (intro Suc.IH [OF us]) simp
    ultimately show ?thesis
      using emits_seq False xt e' ws by (simp cong: if_cong)
  qed
qed

lemma emits_any:
  assumes "abs_any rd env n f pData = Some ws" and "length (ser_fields ws) < size_bound"
    and "encodes enc rd"
  shows "emits (\<lambda>s. encode_any_field enc env n s f pData) (ser_fields ws)"
  using assms emits_field emits_extensions
  by (auto simp: abs_any_def encode_any_field_def encode_extension_field_def res_simps
        split: if_splits)

lemma emits_fields_loop:
  assumes any: "\<And>i ws. i < field_count fs \<Longrightarrow> g i = Some ws \<Longrightarrow> length (ser_fields ws) < size_bound \<Longrightarrow>
      emits (\<lambda>s. step s (field_at fs i) (it_pData (iter_nth fs src i))) (ser_fields ws)"
  shows "i < field_count fs \<Longrightarrow> collect (map g [i..<field_count fs]) = Some wss \<Longrightarrow>
    length (ser_fields (concat wss)) < size_bound \<Longrightarrow>
    emits (encode_fields_loop step (iter_nth fs src i)) (ser_fields (concat wss))"
proof (induction "field_count fs - i" arbitrary: i wss)
  case 0
  then show ?case by simp
next
  case (Suc d)
  let ?it = "iter_nth fs src i"
  have at: "iter_at fs src ?it i" using Suc.prems(1) by (simp add: iter_at_def)
  then have fld: "it_field ?it = field_at fs i" by (rule iter_at_field)
  obtain ws wss' where ws: "g i = Some ws" "collect (map g [Suc i..<field_count fs]) = Some wss'"
      "wss = ws # wss'"
    using Suc.prems(1,2) by (auto simp: upt_conv_Cons res_simps)
  have one: "emits (\<lambda>s. step s (field_at fs i) (it_pData ?it)) (ser_fields ws)"
    using Suc.prems ws by (intro any) auto
  show ?case
  proof (cases "Suc i < field_count fs")
    case True
    then have "fst (pb_field_iter_next ?it)" using iter_at_next [OF at] by simp
    moreover have "emits (encode_fields_loop step (iter_nth fs src (Suc i))) (ser_fields (concat wss'))"
      using Suc.hyps(2) Suc.prems(3) True ws(2,3) by (intro Suc.hyps(1)) auto
    ultimately show ?thesis
      using emits_seq [OF one] fld ws(3)
      by (simp add: encode_fields_loop.simps [of step ?it, abs_def] Let_def cong: if_cong)
  next
    case False
    then have "\<not> fst (pb_field_iter_next ?it)" using iter_at_next [OF at] by simp
    moreover have "wss' = []" using False ws(2) by simp
    ultimately show ?thesis
      using emits_seq [OF one emits_nothing] fld ws(3)
      by (simp add: encode_fields_loop.simps [of step ?it, abs_def] Let_def cong: if_cong)
  qed
qed

lemma encodes_pb_encode: "encodes (pb_encode n env) (abs_msg n env)"
proof (induction n)
  case 0
  then show ?case by (simp add: encodes_def)
next
  case (Suc n)
  show ?case unfolding encodes_def
  proof (intro allI impI)
    fix fs src ws
    assume "abs_msg (Suc n) env fs src = Some ws" and len: "length (ser_fields ws) < size_bound"
    then obtain wss where wss: "collect (map (\<lambda>i. abs_any (abs_msg n env) env n (field_at fs i)
          (it_pData (iter_nth fs src i))) [0..<field_count fs]) = Some wss" "ws = concat wss"
      by auto
    show "emits (\<lambda>s. pb_encode (Suc n) env s fs src) (ser_fields ws)"
    proof (cases "field_count fs = 0")
      case True
      then show ?thesis using wss emits_nothing begin_True_iff [of fs src]
        by (simp del: begin_simps)
    next
      case False
      have "emits (encode_fields_loop (encode_any_field (pb_encode n env) env n) (iter_nth fs src 0))
          (ser_fields (concat wss))"
        by (rule emits_fields_loop [OF _ _ wss(1)])
           (use False len wss(2) Suc in \<open>auto intro: emits_any\<close>)
      then show ?thesis using False wss(2) begin_True_iff [of fs src]
        by (simp add: Let_def del: begin_simps)
    qed
  qed
qed

end

section \<open>The encoder on a memory buffer\<close>

lemma emits_pb_encode:
  "abs_msg n env fs src = Some ws \<Longrightarrow> length (ser_fields ws) < size_bound \<Longrightarrow>
   buf.emits buf (\<lambda>s. pb_encode n env s fs src) (ser_fields ws)"
  using buf.encodes_pb_encode [of buf n env] by (simp add: buf.encodes_def)

text \<open>
  A small message for the witnesses: \<^verbatim>\<open>{int32 a = 1; Inner b = {uint32 c = 300}}\<close>, at
  address 16 in a memory that holds nothing else.
\<close>

definition ex_inner :: "pb_field_t list" where
  "ex_inner = [pb_field_s 1 0x01 0 0 4 0 PB_NULL, PB_LAST_FIELD]"

definition ex_outer :: "pb_field_t list" where
  "ex_outer = [pb_field_s 1 0x00 0 0 4 0 PB_NULL, pb_field_s 2 0x07 0 0 4 0 (PB_FIELDS ex_inner),
     PB_LAST_FIELD]"

primrec put_bytes :: "addr \<Rightarrow> byte list \<Rightarrow> (addr \<Rightarrow> byte option) \<Rightarrow> addr \<Rightarrow> byte option" where
  "put_bytes a [] d = d"
| "put_bytes a (b # bs) d = (put_bytes (a + 1) bs d)(a \<mapsto> b)"

definition mem_at :: "addr \<Rightarrow> byte list \<Rightarrow> mem" where
  "mem_at a bs =
     \<lparr>mem_data = put_bytes a bs (\<lambda>_. None), mem_blocks = (\<lambda>_. None), mem_brk = 64,
      mem_limit = 128, mem_junk = (\<lambda>_. 0xAA), mem_locals = []\<rparr>"

definition env_of :: "mem \<Rightarrow> 's pb_enc_env" where
  "env_of m = \<lparr>ee_mem = m, ee_callback = (\<lambda>_ _ _ _. None), ee_ext_type = (\<lambda>_. None),
     ee_ext_encode = (\<lambda>_ _ _. None)\<rparr>"

definition ex_env :: "obuf pb_enc_env" where
  "ex_env = env_of (mem_at 16 [1, 0, 0, 0, 0x2C, 1, 0, 0])"

definition ex_ws :: "wfield list" where
  "ex_ws = [WField 1 (WVarint 1), WField 2 (WMsg [WField 1 (WVarint 300)])]"

lemma ex_abs: "abs_msg 2 ex_env ex_outer 16 = Some ex_ws"
  by code_simp

lemma ex_ser: "ser_fields ex_ws = [0x08, 0x01, 0x12, 0x03, 0x08, 0xAC, 0x02]"
  by (simp add: ex_ws_def varint.simps Let_def)

lemma ex_len: "length (ser_fields ex_ws) = 7"
  by (simp add: ex_ser)

text \<open>
  C1. Encoding a message into a memory buffer that is large enough succeeds and writes exactly
  the wire format of the message the structure stands for, from the start of the buffer;
  the rest of the buffer keeps its content and the stream's count is the message's length.
\<close>

theorem pb_encode_writes_message:
  assumes "abs_msg n env fs src = Some ws" and "length buf < size_bound"
    and "length (ser_fields ws) \<le> length buf"
  shows "\<exists>s. pb_encode n env (pb_ostream_from_buffer buf (of_nat (length buf))) fs src = Some (True, s)
     \<and> ob_data (os_state s) = ser_fields ws @ drop (length (ser_fields ws)) buf
     \<and> unat (os_bytes_written s) = length (ser_fields ws)"
  using assms by (intro emits_buffer emits_pb_encode) auto

theorem pb_encode_writes_message_witness:
  "\<exists>s. pb_encode 2 ex_env (pb_ostream_from_buffer [0, 0, 0, 0, 0, 0, 0, 0, 0] 9) ex_outer 16 = Some (True, s)
     \<and> ob_data (os_state s) = [0x08, 0x01, 0x12, 0x03, 0x08, 0xAC, 0x02, 0, 0]
     \<and> unat (os_bytes_written s) = 7"
  using pb_encode_writes_message [OF ex_abs, of "[0, 0, 0, 0, 0, 0, 0, 0, 0]"]
  unfolding ex_len by (simp add: ex_ser)

text \<open>
  C2. Encoding into a buffer that is too small fails cleanly: \<^verbatim>\<open>pb_encode\<close> returns
  \<^verbatim>\<open>false\<close>, and no write leaves the buffer (that would have no defined result).
\<close>

theorem pb_encode_too_small:
  assumes "abs_msg n env fs src = Some ws" and "length (ser_fields ws) < size_bound"
    and "length buf < length (ser_fields ws)"
  shows "\<exists>s. pb_encode n env (pb_ostream_from_buffer buf (of_nat (length buf))) fs src = Some (False, s)"
  using emits_buffer_full [OF emits_pb_encode [OF assms(1,2)]] assms(2,3) by simp

theorem pb_encode_too_small_witness:
  "\<exists>s. pb_encode 2 ex_env (pb_ostream_from_buffer [0, 0, 0, 0] 4) ex_outer 16 = Some (False, s)"
  using pb_encode_too_small [OF ex_abs, of "[0, 0, 0, 0]"] by (simp add: ex_ser)

text \<open>
  C3. \<^verbatim>\<open>pb_get_encoded_size\<close> returns the exact number of bytes that encoding the message
  writes.
\<close>

theorem pb_get_encoded_size_exact:
  assumes "abs_msg n env fs src = Some ws" and "length (ser_fields ws) < size_bound"
  shows "pb_get_encoded_size n env (st :: obuf) sz fs src
     = Some (True, of_nat (length (ser_fields ws)))"
  using buf.emits_counts [OF emits_pb_encode [OF assms], of "PB_OSTREAM_SIZING st"]
  by (simp add: pb_get_encoded_size_def PB_OSTREAM_SIZING_def)

theorem pb_get_encoded_size_exact_witness:
  "pb_get_encoded_size 2 ex_env \<lparr>ob_data = [], ob_pos = 0\<rparr> 0 ex_outer 16 = Some (True, 7)"
  using pb_get_encoded_size_exact [OF ex_abs] by (simp add: ex_ser)

text \<open>
  C4. \<^verbatim>\<open>pb_encode_delimited\<close> writes the length of the message as a varint and then the
  message, so its two passes over the structure agree: the error
  "submsg size changed" cannot occur.
\<close>

theorem pb_encode_delimited_writes:
  assumes "abs_msg n env fs src = Some ws" and "length buf < size_bound"
    and "bs = varint (length (ser_fields ws)) @ ser_fields ws" and "length bs \<le> length buf"
  shows "\<exists>s. pb_encode_delimited n env (pb_ostream_from_buffer buf (of_nat (length buf))) fs src
       = Some (True, s)
     \<and> ob_data (os_state s) = bs @ drop (length bs) buf \<and> unat (os_bytes_written s) = length bs"
  unfolding pb_encode_delimited_def
  using assms by (intro emits_buffer) (auto intro!: buf.emits_submessage emits_pb_encode)

theorem pb_encode_delimited_writes_witness:
  "\<exists>s. pb_encode_delimited 2 ex_env (pb_ostream_from_buffer [0, 0, 0, 0, 0, 0, 0, 0, 0] 9) ex_outer 16 = Some (True, s)
     \<and> ob_data (os_state s) = [7, 0x08, 0x01, 0x12, 0x03, 0x08, 0xAC, 0x02, 0]
     \<and> unat (os_bytes_written s) = 8"
  using pb_encode_delimited_writes [OF ex_abs, of "[0, 0, 0, 0, 0, 0, 0, 0, 0]", OF _ refl]
  unfolding length_append ex_len by (simp add: ex_ser varint_small)

end
