(* ===== verification/PB_Value_Props.thy ===== *)
theory PB_Value_Props
  imports PB_Values PB_Encode_Refine
begin

text \<open>
  Properties of the stream functions and value decoders of \<^verbatim>\<open>pb_decode.c\<close> on memory buffers:
  round trips with the encoders of \<^verbatim>\<open>pb_encode.c\<close>, exact behaviour on arbitrary bytes, and that
  no reader leaves its buffer.
\<close>

section \<open>Round trips\<close>

text \<open>
  The step from an encoder to a decoder: a reader that takes the bytes an encoder emits, run on
  the buffer the encoder has written.
\<close>

lemma written_then_read:
  assumes "buf.emits buf f bs" and "length buf < size_bound" and "length bs \<le> length buf"
    and read: "\<And>s. src.open_at s \<Longrightarrow> src.input s = bs @ [] \<Longrightarrow>
      \<exists>s'. g s = Some (x s') \<and> src.took s s' (length bs)"
  shows "\<exists>os. f (pb_ostream_from_buffer buf (of_nat (length buf))) = Some (True, os)
    \<and> g (pb_istream_from_buffer (ob_data (os_state os)) (os_bytes_written os))
      = Some (x (pb_istream_from_buffer (drop (unat (os_bytes_written os)) (ob_data (os_state os))) 0))"
proof -
  obtain os where os: "f (pb_ostream_from_buffer buf (of_nat (length buf))) = Some (True, os)"
    "ob_data (os_state os) = bs @ drop (length bs) buf" "unat (os_bytes_written os) = length bs"
    using emits_buffer [OF assms(1-3)] by blast
  let ?s = "pb_istream_from_buffer (ob_data (os_state os)) (os_bytes_written os)"
  have s: "src.open_at ?s" "src.input ?s = bs @ []"
    using src_from_buffer [of "os_bytes_written os" "ob_data (os_state os)"] os(2,3) by auto
  obtain s' where s': "g ?s = Some (x s')" "src.took ?s s' (unat (os_bytes_written os))"
    using read [OF s] unfolding os(3) by blast
  have "s' = pb_istream_from_buffer (drop (unat (os_bytes_written os)) (ob_data (os_state os))) 0"
    using src_took [OF s'(2)] by simp
  then show ?thesis using os(1) s'(1) by blast
qed

text \<open>
  C12. Every 64-bit value survives: \<^verbatim>\<open>pb_encode_varint\<close> into a buffer with room for ten bytes
  succeeds, and \<^verbatim>\<open>pb_decode_varint\<close> on the bytes it wrote gives the value back and reads
  exactly those bytes.
\<close>

theorem pb_varint_roundtrip:
  assumes "length buf < size_bound" and "10 \<le> length buf"
  shows "\<exists>os. pb_encode_varint (pb_ostream_from_buffer buf (of_nat (length buf))) v = Some (True, os)
    \<and> pb_decode_varint (pb_istream_from_buffer (ob_data (os_state os)) (os_bytes_written os))
      = Some (Some v, pb_istream_from_buffer (drop (unat (os_bytes_written os)) (ob_data (os_state os))) 0)"
proof (rule written_then_read [where g = pb_decode_varint and x = "Pair (Some v)", OF buf.emits_varint assms(1)])
  show "length (varint (unat v)) \<le> length buf" using length_varint_u64 [of v] assms(2) by linarith
qed (rule src.pb_decode_varint_ok)

theorem pb_varint_roundtrip_witness:
  "\<exists>os. pb_encode_varint (pb_ostream_from_buffer (replicate 10 0) 10) 300 = Some (True, os)
    \<and> pb_decode_varint (pb_istream_from_buffer (ob_data (os_state os)) (os_bytes_written os) :: unit pb_istream_t)
      = Some (Some 300, pb_istream_from_buffer (drop (unat (os_bytes_written os)) (ob_data (os_state os))) 0)"
  using pb_varint_roundtrip [of "replicate 10 0" 300] by simp

text \<open>
  Every signed 64-bit value survives the zigzag encoding: \<^verbatim>\<open>pb_decode_svarint\<close> on what
  \<^verbatim>\<open>pb_encode_svarint\<close> wrote gives the value back.
\<close>

lemma pb_svarint_roundtrip:
  assumes "length buf < size_bound" and "10 \<le> length buf"
  shows "\<exists>os. pb_encode_svarint (pb_ostream_from_buffer buf (of_nat (length buf))) v = Some (True, os)
    \<and> pb_decode_svarint (pb_istream_from_buffer (ob_data (os_state os)) (os_bytes_written os))
      = Some (Some v, pb_istream_from_buffer (drop (unat (os_bytes_written os)) (ob_data (os_state os))) 0)"
  unfolding pb_encode_svarint_def
proof (rule written_then_read [where g = pb_decode_svarint and x = "Pair (Some v)", OF buf.emits_varint assms(1)])
  show "length (varint (unat (zigzag v))) \<le> length buf"
    using length_varint_u64 [of "zigzag v"] assms(2) by linarith
qed (rule src.pb_decode_svarint_ok)

text \<open>
  Keys survive: \<^verbatim>\<open>pb_decode_tag\<close> on what \<^verbatim>\<open>pb_encode_tag\<close> wrote gives back the wire type
  and the field number, for every field number the format allows.
\<close>

lemma pb_tag_roundtrip:
  assumes "length buf < size_bound" and "10 \<le> length buf"
    and "0 < unat t" and "unat t < 536870912" and "unat w < 8"
  shows "\<exists>os. pb_encode_tag (pb_ostream_from_buffer buf (of_nat (length buf))) w t = Some (True, os)
    \<and> pb_decode_tag (pb_istream_from_buffer (ob_data (os_state os)) (os_bytes_written os))
      = Some (True, w, t, False,
          pb_istream_from_buffer (drop (unat (os_bytes_written os)) (ob_data (os_state os))) 0)"
proof (rule written_then_read [where g = pb_decode_tag and x = "\<lambda>s. (True, w, t, False, s)",
    OF buf.emits_tag [OF assms(5)] assms(1)])
  let ?n = "8 * unat t + unat w"
  have "unat (of_nat ?n :: u32) = ?n" by (rule unat_of_nat_32) (use assms(4,5) in simp)
  then have "length (varint ?n) \<le> 5" using length_varint_u32 [of "of_nat ?n"] by simp
  then show "length (varint ?n) \<le> length buf" using assms(2) by linarith
qed (rule src.pb_decode_tag_ok [OF _ _ assms(3-5), simplified])

section \<open>Arbitrary bytes\<close>

text \<open>
  C13. \<^verbatim>\<open>pb_decode_varint\<close> on any buffer agrees with the reference decoder on the first ten
  bytes: if a varint ends there it is read exactly and its value taken modulo \<open>2^64\<close>,
  otherwise (too long, or the stream ends) the function returns \<^verbatim>\<open>false\<close>.
\<close>

theorem pb_decode_varint_exact:
  assumes "unat n \<le> length bs"
  shows "case unvarint (take 10 (take (unat n) bs)) of
      Some (v, rest) \<Rightarrow>
        (let k = length (take 10 (take (unat n) bs)) - length rest
         in pb_decode_varint (pb_istream_from_buffer bs n)
              = Some (Some (of_nat v), pb_istream_from_buffer (drop k bs) (n - of_nat k)))
    | None \<Rightarrow> \<exists>s'. pb_decode_varint (pb_istream_from_buffer bs n) = Some (None, s') \<and> is_errmsg s' \<noteq> None"
proof (cases "unvarint (take 10 (take (unat n) bs))")
  note spec = src.pb_decode_varint_spec [OF conjunct1 [OF src_from_buffer [OF assms]],
      unfolded conjunct2 [OF src_from_buffer [OF assms]]]
  case None
  then show ?thesis using spec by (auto simp: src.failed_def simp del: take_take)
next
  note spec = src.pb_decode_varint_spec [OF conjunct1 [OF src_from_buffer [OF assms]],
      unfolded conjunct2 [OF src_from_buffer [OF assms]]]
  case (Some p)
  then show ?thesis
    using spec by (auto simp: Let_def simp del: take_take length_take dest!: src_took split: prod.splits)
qed

theorem pb_decode_varint_exact_witness:
  "pb_decode_varint (pb_istream_from_buffer [0xAC, 0x02, 0x05] 3 :: unit pb_istream_t)
     = Some (Some 300, pb_istream_from_buffer [0x05] 1)"
  using pb_decode_varint_exact [of 3 "[0xAC, 0x02, 0x05]"] by simp

text \<open>
  C14. \<^verbatim>\<open>pb_decode_varint32\<close> decodes the varint of every 32-bit value and the ten-byte varint of
  every negative \<^verbatim>\<open>int32\<close>, reading exactly its bytes, and rejects the varint of every value
  between \<open>2^32\<close> and \<open>2^63\<close>.
\<close>

theorem pb_decode_varint32_values:
  assumes "unat n = length (varint (unat v)) + length rest"
  shows "let s = pb_istream_from_buffer (varint (unat (v :: u64)) @ rest) n in
    (if v < 4294967296 \<or> 18446744071562067968 \<le> v
     then pb_decode_varint32 s = Some (Some (ucast v), pb_istream_from_buffer rest (of_nat (length rest)))
     else if v < 9223372036854775808
     then \<exists>s'. pb_decode_varint32 s = Some (None, s') \<and> is_errmsg s' \<noteq> None
     else True)"
proof -
  let ?bs = "varint (unat v) @ rest"
  let ?s = "pb_istream_from_buffer ?bs n"
  have s: "src.open_at ?s" "src.input ?s = ?bs"
    using src_from_buffer [of n ?bs] assms by auto
  have "n - of_nat (length (varint (unat v))) = of_nat (length rest)"
    using arg_cong [OF assms, of "of_nat :: nat \<Rightarrow> size_t"] by simp
  then have took: "s' = pb_istream_from_buffer rest (of_nat (length rest))"
    if "src.took ?s s' (length (varint (unat v)))" for s'
    using src_took [OF that] by simp
  consider "v < 4294967296" | "18446744071562067968 \<le> v"
    | "\<not> v < 4294967296" "\<not> 18446744071562067968 \<le> v" "v < 9223372036854775808"
    | "\<not> v < 9223372036854775808" "\<not> v < 4294967296" "\<not> 18446744071562067968 \<le> v" by blast
  then show ?thesis
  proof cases
    case 1
    then show ?thesis
      using src.pb_decode_varint32_ok [OF s] took by (auto simp: Let_def word_less_nat_alt)
  next
    case 2
    then show ?thesis
      using src.pb_decode_varint32_negative [OF s] took by (auto simp: Let_def)
  next
    case 3
    then have "\<exists>s'. pb_decode_varint32 ?s = Some (None, s') \<and> src.failed ?s s'"
      by (intro src.pb_decode_varint32_rejects [OF s]) (simp_all add: word_less_nat_alt word_le_nat_alt)
    then show ?thesis using 3 by (auto simp: Let_def src.failed_def)
  qed (simp add: Let_def)
qed

theorem pb_decode_varint32_values_witness:
  "pb_decode_varint32 (pb_istream_from_buffer (varint 300 @ [7]) 3 :: unit pb_istream_t)
     = Some (Some 300, pb_istream_from_buffer [7] 1)"
proof -
  have "length (varint 300) = 2" by (simp add: varint.simps)
  then show ?thesis using pb_decode_varint32_values [of 3 300 "[7]"] by (simp add: Let_def)
qed



text \<open>The reader has stopped at or before the \<open>n\<close>-th byte of the buffer.\<close>

definition within_buffer :: "byte list \<Rightarrow> size_t \<Rightarrow> 's pb_istream_t \<Rightarrow> bool" where
  "within_buffer bs n s \<longleftrightarrow> (\<exists>k \<le> unat n. is_callback s = Buf_read \<and> is_state s = Bufptr (drop k bs)
     \<and> unat (is_bytes_left s) = unat n - k)"

lemma stays_within: "src.stays (pb_istream_from_buffer bs n) s' \<Longrightarrow> within_buffer bs n s'"
  by (cases "is_state s'")
    (auto simp: src.stays_def src.read_by_def within_buffer_def pb_istream_from_buffer_def)

text \<open>
  C16. No input makes a reader run outside its buffer: on arbitrary bytes, every function that
  reads a value, a key or a length or skips a field returns, with success or not, and the
  stream stays within its limit.
\<close>

theorem readers_stay_in_buffer:
  assumes "unat n \<le> length bs"
  defines "s \<equiv> pb_istream_from_buffer bs n"
  shows "(\<exists>r s'. pb_decode_varint s = Some (r, s') \<and> within_buffer bs n s')
    \<and> (\<exists>r s'. pb_decode_svarint s = Some (r, s') \<and> within_buffer bs n s')
    \<and> (\<exists>r s'. pb_decode_varint32 s = Some (r, s') \<and> within_buffer bs n s')
    \<and> (\<exists>ok wt tag eof s'. pb_decode_tag s = Some (ok, wt, tag, eof, s') \<and> within_buffer bs n s')
    \<and> (\<exists>ok s'. pb_skip_field s wire = Some (ok, s') \<and> within_buffer bs n s')
    \<and> (\<exists>r s'. read_raw_value s wire room = Some (r, s') \<and> within_buffer bs n s')
    \<and> (\<exists>ok got s'. pb_read s null count = Some (ok, got, s') \<and> within_buffer bs n s')"
proof -
  have o: "src.open_at s"
    unfolding s_def by (rule conjunct1 [OF src_from_buffer [OF assms(1)]])
  have w: "src.stays s s' \<Longrightarrow> within_buffer bs n s'" for s'
    unfolding s_def by (rule stays_within)
  show ?thesis
    using src.pb_decode_varint_any [OF o] src.pb_decode_svarint_any [OF o]
      src.pb_decode_varint32_any [OF o] src.pb_decode_tag_any [OF o]
      src.pb_skip_field_any [OF o, of wire] src.read_raw_value_any [OF o, of wire room]
      src.pb_read_any [OF o, of null count] w
    by (intro conjI) blast+
qed

theorem readers_stay_in_buffer_witness:
  "\<exists>r s'. pb_decode_varint (pb_istream_from_buffer [0x80, 0x80] 2) = Some (r, s')
     \<and> within_buffer [0x80, 0x80] 2 (s' :: unit pb_istream_t)"
  by (rule conjunct1 [OF readers_stay_in_buffer]) simp

text \<open>
  C17. Skipping a field reads exactly its value: for every value of the wire format,
  \<^verbatim>\<open>pb_skip_field\<close> with the value's wire type succeeds and leaves the stream at the byte
  after it.
\<close>

theorem pb_skip_field_exact:
  assumes "length (ser_val v) < 4294967296" and "unat n = length (ser_val v) + length rest"
  shows "pb_skip_field (pb_istream_from_buffer (ser_val v @ rest) n :: 's pb_istream_t) (of_nat (wire_type v))
     = Some (True, pb_istream_from_buffer rest (of_nat (length rest)))"
proof -
  let ?s = "pb_istream_from_buffer (ser_val v @ rest) n :: 's pb_istream_t"
  have "src.open_at ?s" "src.input ?s = ser_val v @ rest"
    using src_from_buffer [of n "ser_val v @ rest"] assms(2) by auto
  from src.pb_skip_field_ok [OF this assms(1)] obtain s' where
    s': "pb_skip_field ?s (of_nat (wire_type v)) = Some (True, s')" "src.took ?s s' (length (ser_val v))"
    by blast
  have "s' = pb_istream_from_buffer rest (n - of_nat (length (ser_val v)))"
    using src_took [OF s'(2)] by simp
  moreover have "n - of_nat (length (ser_val v)) = of_nat (length rest)"
    using arg_cong [OF assms(2), of "of_nat :: nat \<Rightarrow> size_t"] by simp
  ultimately show ?thesis using s'(1) by simp
qed

theorem pb_skip_field_exact_witness:
  "pb_skip_field (pb_istream_from_buffer [0x03, 0x08, 0xAC, 0x02, 0x55] 5 :: unit pb_istream_t) 2
     = Some (True, pb_istream_from_buffer [0x55] 1)"
proof -
  have "ser_val (WMsg [WField 1 (WVarint 300)]) = [0x03, 0x08, 0xAC, 0x02]"
    by (simp add: varint.simps Let_def)
  then show ?thesis
    using pb_skip_field_exact [of "WMsg [WField 1 (WVarint 300)]" 5 "[0x55]"] by simp
qed

text \<open>
  C18. A string as a substream: the substream holds exactly the string's bytes; whatever the
  code that is given the substream reads of it, closing it leaves the parent stream at the
  byte after the string, with the substream's error message.
\<close>

theorem substream_is_the_string:
  assumes "length bs < 4294967296" and "unat n = length (varint (length bs)) + length bs + length rest"
  shows "\<exists>sub s2. pb_make_string_substream
      (pb_istream_from_buffer (varint (length bs) @ bs @ rest) n :: 's pb_istream_t) = Some (Some sub, s2)
    \<and> is_state sub = Bufptr (bs @ rest) \<and> unat (is_bytes_left sub) = length bs
    \<and> (\<forall>k msg. k \<le> length bs \<longrightarrow>
         pb_close_string_substream s2 (sub\<lparr>is_state := Bufptr (drop k (bs @ rest)),
              is_bytes_left := of_nat (length bs - k), is_errmsg := msg\<rparr>)
         = Some (True, (pb_istream_from_buffer rest (of_nat (length rest)))\<lparr>is_errmsg := msg\<rparr>))"
proof -
  let ?bs = "varint (length bs) @ bs @ rest" and ?k = "length (varint (length bs))"
  let ?s = "pb_istream_from_buffer ?bs n :: 's pb_istream_t"
  have s: "src.open_at ?s" "src.input ?s = ?bs"
    using src_from_buffer [of n ?bs] assms(2) by auto
  obtain sub s2 where sub: "pb_make_string_substream ?s = Some (Some sub, s2)"
    "src.open_at sub" "src.input sub = bs"
    and pend: "buf_pending (is_state sub) = drop ?k (buf_pending (is_state ?s))"
    and close: "\<And>sub' n. src.read_by sub sub' n \<Longrightarrow> \<exists>s'. pb_close_string_substream s2 sub' = Some (True, s')
      \<and> src.read_by ?s s' (?k + length bs) \<and> is_errmsg s' = is_errmsg sub'"
    using src.pb_make_string_substream_ok [OF s assms(1)] by blast
  have pend: "buf_pending (is_state sub) = bs @ rest"
    using pend by (simp add: pb_istream_from_buffer_def)
  have st: "is_callback sub = Buf_read" "is_state sub = Bufptr (bs @ rest)" "unat (is_bytes_left sub) = length bs"
    using pend sub(2,3) src.length_input [OF sub(2)] by (cases "is_state sub"; auto simp: src.open_at_def)+
  have "pb_close_string_substream s2 (sub\<lparr>is_state := Bufptr (drop k (bs @ rest)),
              is_bytes_left := of_nat (length bs - k), is_errmsg := msg\<rparr>)
         = Some (True, (pb_istream_from_buffer rest (of_nat (length rest)))\<lparr>is_errmsg := msg\<rparr>)"
    if k: "k \<le> length bs" for k msg
  proof -
    let ?sub' = "sub\<lparr>is_state := Bufptr (drop k (bs @ rest)), is_bytes_left := of_nat (length bs - k),
        is_errmsg := msg\<rparr>"
    have "unat (of_nat (length bs - k) :: size_t) = length bs - k"
      by (rule unat_of_nat_64) (use assms(1) in simp)
    then have "src.read_by sub ?sub' k" using st k by (simp add: src.read_by_def del: of_nat_diff)
    then obtain s' where s': "pb_close_string_substream s2 ?sub' = Some (True, s')"
      "src.read_by ?s s' (?k + length bs)" "is_errmsg s' = msg"
      using close by fastforce
    have st': "is_callback s' = Buf_read" "is_state s' = Bufptr rest" "unat (is_bytes_left s') = length rest"
      using s'(2) assms(2) by (cases "is_state s'"; auto simp: src.read_by_def pb_istream_from_buffer_def)+
    have "of_nat (unat (is_bytes_left s')) = (of_nat (length rest) :: size_t)" by (simp only: st'(3))
    then have "s' = (pb_istream_from_buffer rest (of_nat (length rest)))\<lparr>is_errmsg := msg\<rparr>"
      using s'(3) st'(1,2) by (simp add: pb_istream_from_buffer_def)
    then show ?thesis using s'(1) by simp
  qed
  then show ?thesis using sub(1) st by blast
qed

theorem substream_is_the_string_witness:
  "\<exists>sub s2. pb_make_string_substream (pb_istream_from_buffer [2, 5, 6, 7] 4) = Some (Some sub, s2)
    \<and> is_state sub = Bufptr [5, 6, 7] \<and> unat (is_bytes_left sub) = 2
    \<and> pb_close_string_substream s2 (sub\<lparr>is_state := Bufptr [6, 7], is_bytes_left := 1, is_errmsg := None\<rparr>)
      = Some (True, (pb_istream_from_buffer [7] 1 :: unit pb_istream_t)\<lparr>is_errmsg := None\<rparr>)"
proof -
  let ?bs = "[5, 6] :: byte list" and ?rest = "[7] :: byte list"
  have two: "varint (length ?bs) = [2]" by (simp add: varint_small)
  have prems: "length ?bs < 4294967296" "unat (4 :: size_t) = length (varint (length ?bs)) + length ?bs + length ?rest"
    unfolding two by simp_all
  obtain sub s2 where *: "pb_make_string_substream
        (pb_istream_from_buffer (varint (length ?bs) @ ?bs @ ?rest) 4 :: unit pb_istream_t) = Some (Some sub, s2)"
    "is_state sub = Bufptr (?bs @ ?rest)" "unat (is_bytes_left sub) = length ?bs"
    and close: "\<And>k msg. k \<le> length ?bs \<Longrightarrow>
         pb_close_string_substream s2 (sub\<lparr>is_state := Bufptr (drop k (?bs @ ?rest)),
              is_bytes_left := of_nat (length ?bs - k), is_errmsg := msg\<rparr>)
         = Some (True, (pb_istream_from_buffer ?rest (of_nat (length ?rest)))\<lparr>is_errmsg := msg\<rparr>)"
    using substream_is_the_string [where 's = unit, OF prems] by blast
  from * close [of 1 None] show ?thesis unfolding two by auto
qed

end
