(* ===== verification/PB_Layout.thy ===== *)
theory PB_Layout
  imports PB_Decode_Mem
begin

text \<open>
  How a descriptor table fits the structure it describes. \<open>table_ok\<close> is a condition a
  program can check: the table lists members of the structure in order, every entry built by
  \<^verbatim>\<open>PB_FIELD\<close> from the member and the one before it, without overlap and with increasing
  tags. For such a table the iterator of \<^verbatim>\<open>pb_common.c\<close> visits every member exactly at its
  \<^verbatim>\<open>offsetof\<close>, and a search by tag finds the member of that tag.

  \<open>init_bytes\<close> is what a C initialiser puts into a structure, member by member.
\<close>

section \<open>Tables and members\<close>

definition entry_ok :: "ctype \<Rightarrow> pb_field_t \<Rightarrow> string \<Rightarrow> pb_field_t \<Rightarrow> string \<Rightarrow> bool" where
  "entry_ok st f m f' m' \<longleftrightarrow>
     pf_data_offset f' = PB_DATAOFFSET_OTHER st [m'] [m]
     \<and> unat (prev_size_of f) = pb_membersize st [m]
     \<and> offsetof st [m] + pb_membersize st [m] \<le> offsetof st [m'] \<and> int (offsetof st [m']) < 4294967296
     \<and> \<not> (htype f = PB_HTYPE_ONEOF \<and> htype f' = PB_HTYPE_ONEOF)
     \<and> pf_tag f < pf_tag f'"

fun entries_ok :: "ctype \<Rightarrow> pb_field_t list \<Rightarrow> string list \<Rightarrow> bool" where
  "entries_ok st (f # f' # fs) (m # m' # ms) \<longleftrightarrow>
     pf_tag f \<noteq> 0 \<and> entry_ok st f m f' m' \<and> entries_ok st (f' # fs) (m' # ms)"
| "entries_ok st [f, g] [m] \<longleftrightarrow> pf_tag f \<noteq> 0 \<and> pf_tag g = 0"
| "entries_ok st _ _ \<longleftrightarrow> False"

definition table_ok :: "ctype \<Rightarrow> pb_field_t list \<Rightarrow> string list \<Rightarrow> bool" where
  "table_ok st fs ms \<longleftrightarrow>
     entries_ok st fs ms \<and> pf_data_offset (hd fs) = PB_DATAOFFSET_FIRST st [hd ms] [hd ms]
     \<and> int (offsetof st [hd ms]) < 4294967296"

lemma entries_ok_nth:
  "entries_ok st fs ms \<Longrightarrow> length fs = Suc (length ms) \<and> pf_tag (fs ! length ms) = 0
     \<and> (\<forall>i < length ms. pf_tag (fs ! i) \<noteq> 0)
     \<and> (\<forall>i. Suc i < length ms \<longrightarrow> entry_ok st (fs ! i) (ms ! i) (fs ! Suc i) (ms ! Suc i))"
proof (induction st fs ms rule: entries_ok.induct)
  case (1 st f f' fs m m' ms)
  then have IH: "length (f' # fs) = Suc (length (m' # ms))" "pf_tag ((f' # fs) ! length (m' # ms)) = 0"
      "\<And>i. i < length (m' # ms) \<Longrightarrow> pf_tag ((f' # fs) ! i) \<noteq> 0"
      "\<And>i. Suc i < length (m' # ms) \<Longrightarrow>
         entry_ok st ((f' # fs) ! i) ((m' # ms) ! i) ((f' # fs) ! Suc i) ((m' # ms) ! Suc i)"
    by auto
  show ?case
  proof (intro conjI allI impI)
    fix i assume "i < length (m # m' # ms)"
    then show "pf_tag ((f # f' # fs) ! i) \<noteq> 0" using 1(2) IH(3) by (cases i) auto
  next
    fix i assume "Suc i < length (m # m' # ms)"
    then show "entry_ok st ((f # f' # fs) ! i) ((m # m' # ms) ! i) ((f # f' # fs) ! Suc i) ((m # m' # ms) ! Suc i)"
      using 1(2) IH(4) by (cases i) auto
  qed (use IH in auto)
qed auto

lemma entries_ok_count: "entries_ok st fs ms \<Longrightarrow> field_count fs = length ms"
proof -
  assume ok: "entries_ok st fs ms"
  note nth = entries_ok_nth [OF ok]
  have "takeWhile (\<lambda>f. pf_tag f \<noteq> 0) fs = take (length ms) fs"
    by (rule takeWhile_eq_take_P_nth) (use nth in auto)
  then show ?thesis using nth by (simp add: field_count_def)
qed

section \<open>The iterator visits the members\<close>

text \<open>
  The offset of an entry is the gap after the member before it: the 32-bit differences of
  \<^verbatim>\<open>PB_DATAOFFSET_OTHER\<close> do not wrap.
\<close>

lemma unat_dataoffset_other:
  assumes "offsetof st m2 + pb_membersize st m2 \<le> offsetof st m1" and "offsetof st m1 < 4294967296"
  shows "unat (PB_DATAOFFSET_OTHER st m1 m2) = offsetof st m1 - (offsetof st m2 + pb_membersize st m2)"
proof -
  have "PB_DATAOFFSET_OTHER st m1 m2 = of_nat (offsetof st m1 - (offsetof st m2 + pb_membersize st m2))"
    using assms(1) by (simp add: PB_DATAOFFSET_OTHER_def of_nat_diff)
  moreover have "offsetof st m1 - (offsetof st m2 + pb_membersize st m2) < 4294967296"
    using assms(2) by linarith
  ultimately show ?thesis by (simp only: unat_of_nat_32)
qed

lemma iter_nth_pData:
  assumes ok: "table_ok st fs ms"
  shows "i < length ms \<Longrightarrow> it_pData (iter_nth fs dest i) = dest + of_nat (offsetof st [ms ! i])"
proof (induction i)
  case 0
  have "entries_ok st fs ms" using ok by (simp add: table_ok_def)
  note nth = entries_ok_nth [OF this]
  have "fs \<noteq> []" using nth by auto
  then have "field_at fs 0 = hd fs" by (simp add: field_at_def hd_conv_nth)
  moreover have "ms ! 0 = hd ms" using 0 by (simp add: hd_conv_nth)
  moreover have "ucast (of_nat (offsetof st [hd ms]) :: u32) = (of_nat (offsetof st [hd ms]) :: addr)"
    using ok by (intro word_unat_eq_iff [THEN iffD2]) (simp add: table_ok_def)
  ultimately show ?case
    using ok by (simp add: pb_field_iter_begin_def Let_def table_ok_def PB_DATAOFFSET_FIRST_def)
next
  case (Suc i)
  have "entries_ok st fs ms" using ok by (simp add: table_ok_def)
  note nth = entries_ok_nth [OF this] and cnt = entries_ok_count [OF this]
  let ?it = "iter_nth fs dest i" and ?m = "[ms ! i]" and ?m' = "[ms ! Suc i]"
  have e: "entry_ok st (fs ! i) (ms ! i) (fs ! Suc i) (ms ! Suc i)" using nth Suc.prems by blast
  have at: "field_at fs i = fs ! i" "field_at fs (Suc i) = fs ! Suc i"
    using nth Suc.prems by (auto simp: field_at_def)
  have pos: "it_field ?it = fs ! i" "it_pos ?it = i"
    using Suc.prems cnt at by (auto simp: it_field_def iter_nth_pos)
  have tags: "pf_tag (fs ! i) \<noteq> 0" "pf_tag (fs ! Suc i) \<noteq> 0" using nth Suc.prems by auto
  have step: "it_pData (iter_nth fs dest (Suc i))
      = it_pData ?it + prev_size_of (fs ! i) + ucast (pf_data_offset (fs ! Suc i))"
    using pos at tags e by (auto simp: pb_field_iter_next_def Let_def entry_ok_def)
  define d where "d = offsetof st ?m' - (offsetof st ?m + pb_membersize st ?m)"
  have "unat (pf_data_offset (fs ! Suc i)) = d" "d < 18446744073709551616"
    using e unat_dataoffset_other [of st ?m ?m'] by (auto simp: entry_ok_def d_def)
  then have gap: "ucast (pf_data_offset (fs ! Suc i)) = (of_nat d :: addr)"
    by (intro word_unat_eq_iff [THEN iffD2]) simp
  have "prev_size_of (fs ! i) = of_nat (pb_membersize st ?m)"
    using e by (metis entry_ok_def of_nat_unat ucast_id)
  then have "it_pData (iter_nth fs dest (Suc i))
      = dest + of_nat (offsetof st ?m + pb_membersize st ?m + d)"
    using step gap Suc by simp
  also have "offsetof st ?m + pb_membersize st ?m + d = offsetof st ?m'"
    using e by (simp add: entry_ok_def d_def)
  finally show ?case .
qed

section \<open>C initialisers\<close>

datatype cinit = I_int int | I_null | I_struct "cinit list"

fun init_bytes :: "ctype \<Rightarrow> cinit \<Rightarrow> nat \<Rightarrow> (nat \<times> byte list) list"
  and init_members :: "(string \<times> ctype) list \<Rightarrow> cinit list \<Rightarrow> nat \<Rightarrow> nat \<Rightarrow> (nat \<times> byte list) list" where
  "init_bytes (C_struct ms) (I_struct vs) base = init_members ms vs base 0"
| "init_bytes t (I_int i) base = [(base, le_bytes (sizeof t) (word_of_int i :: u64))]"
| "init_bytes t I_null base = [(base, le_bytes 8 (0 :: u64))]"
| "init_bytes t (I_struct vs) base = []"
| "init_members ((n, t) # ms) (v # vs) base off =
     (let o1 = round_up off (alignof t)
      in init_bytes t v (base + o1) @ init_members ms vs base (o1 + sizeof t))"
| "init_members _ _ base off = []"

text \<open>The content of a structure agrees with an initialiser.\<close>

definition holds_init :: "mem \<Rightarrow> addr \<Rightarrow> ctype \<Rightarrow> cinit \<Rightarrow> bool" where
  "holds_init m dest st v \<longleftrightarrow>
     list_all (\<lambda>(off, bs). load_bytes m (dest + of_nat off) (length bs) = Some bs) (init_bytes st v 0)"

end
