(* ===== verification/Proto_CCT.thy ===== *)
theory Proto_CCT
  imports PB_Layout
begin

text \<open>
  \<^verbatim>\<open>cct.nanopb.h\<close> and \<^verbatim>\<open>cct.nanopb.c\<close> of GoogleDataTransportCCTSupport
  (\<^verbatim>\<open>src/MovieDBApp/Pods/GoogleDataTransportCCTSupport/GoogleDataTransportCCTSupport/GDTCCTLibrary/Protogen/nanopb\<close>):
  the messages of the log transport. Enumerations with their values, the layout of the
  structures, the initialisers, the tags and the descriptor tables.
\<close>

section \<open>Enumerations\<close>

datatype gdt_cct_NetworkConnectionInfo_NetworkType =
    gdt_cct_NetworkConnectionInfo_NetworkType_NONE
  | gdt_cct_NetworkConnectionInfo_NetworkType_MOBILE
  | gdt_cct_NetworkConnectionInfo_NetworkType_WIFI
  | gdt_cct_NetworkConnectionInfo_NetworkType_MOBILE_MMS
  | gdt_cct_NetworkConnectionInfo_NetworkType_MOBILE_SUPL
  | gdt_cct_NetworkConnectionInfo_NetworkType_MOBILE_DUN
  | gdt_cct_NetworkConnectionInfo_NetworkType_MOBILE_HIPRI
  | gdt_cct_NetworkConnectionInfo_NetworkType_WIMAX
  | gdt_cct_NetworkConnectionInfo_NetworkType_BLUETOOTH
  | gdt_cct_NetworkConnectionInfo_NetworkType_DUMMY
  | gdt_cct_NetworkConnectionInfo_NetworkType_ETHERNET
  | gdt_cct_NetworkConnectionInfo_NetworkType_MOBILE_FOTA
  | gdt_cct_NetworkConnectionInfo_NetworkType_MOBILE_IMS
  | gdt_cct_NetworkConnectionInfo_NetworkType_MOBILE_CBS
  | gdt_cct_NetworkConnectionInfo_NetworkType_WIFI_P2P
  | gdt_cct_NetworkConnectionInfo_NetworkType_MOBILE_IA
  | gdt_cct_NetworkConnectionInfo_NetworkType_MOBILE_EMERGENCY
  | gdt_cct_NetworkConnectionInfo_NetworkType_PROXY
  | gdt_cct_NetworkConnectionInfo_NetworkType_VPN

primrec gdt_cct_NetworkConnectionInfo_NetworkType_value :: "gdt_cct_NetworkConnectionInfo_NetworkType \<Rightarrow> int" where
  "gdt_cct_NetworkConnectionInfo_NetworkType_value gdt_cct_NetworkConnectionInfo_NetworkType_NONE = - 1"
| "gdt_cct_NetworkConnectionInfo_NetworkType_value gdt_cct_NetworkConnectionInfo_NetworkType_MOBILE = 0"
| "gdt_cct_NetworkConnectionInfo_NetworkType_value gdt_cct_NetworkConnectionInfo_NetworkType_WIFI = 1"
| "gdt_cct_NetworkConnectionInfo_NetworkType_value gdt_cct_NetworkConnectionInfo_NetworkType_MOBILE_MMS = 2"
| "gdt_cct_NetworkConnectionInfo_NetworkType_value gdt_cct_NetworkConnectionInfo_NetworkType_MOBILE_SUPL = 3"
| "gdt_cct_NetworkConnectionInfo_NetworkType_value gdt_cct_NetworkConnectionInfo_NetworkType_MOBILE_DUN = 4"
| "gdt_cct_NetworkConnectionInfo_NetworkType_value gdt_cct_NetworkConnectionInfo_NetworkType_MOBILE_HIPRI = 5"
| "gdt_cct_NetworkConnectionInfo_NetworkType_value gdt_cct_NetworkConnectionInfo_NetworkType_WIMAX = 6"
| "gdt_cct_NetworkConnectionInfo_NetworkType_value gdt_cct_NetworkConnectionInfo_NetworkType_BLUETOOTH = 7"
| "gdt_cct_NetworkConnectionInfo_NetworkType_value gdt_cct_NetworkConnectionInfo_NetworkType_DUMMY = 8"
| "gdt_cct_NetworkConnectionInfo_NetworkType_value gdt_cct_NetworkConnectionInfo_NetworkType_ETHERNET = 9"
| "gdt_cct_NetworkConnectionInfo_NetworkType_value gdt_cct_NetworkConnectionInfo_NetworkType_MOBILE_FOTA = 10"
| "gdt_cct_NetworkConnectionInfo_NetworkType_value gdt_cct_NetworkConnectionInfo_NetworkType_MOBILE_IMS = 11"
| "gdt_cct_NetworkConnectionInfo_NetworkType_value gdt_cct_NetworkConnectionInfo_NetworkType_MOBILE_CBS = 12"
| "gdt_cct_NetworkConnectionInfo_NetworkType_value gdt_cct_NetworkConnectionInfo_NetworkType_WIFI_P2P = 13"
| "gdt_cct_NetworkConnectionInfo_NetworkType_value gdt_cct_NetworkConnectionInfo_NetworkType_MOBILE_IA = 14"
| "gdt_cct_NetworkConnectionInfo_NetworkType_value gdt_cct_NetworkConnectionInfo_NetworkType_MOBILE_EMERGENCY = 15"
| "gdt_cct_NetworkConnectionInfo_NetworkType_value gdt_cct_NetworkConnectionInfo_NetworkType_PROXY = 16"
| "gdt_cct_NetworkConnectionInfo_NetworkType_value gdt_cct_NetworkConnectionInfo_NetworkType_VPN = 17"

definition gdt_cct_NetworkConnectionInfo_NetworkType_MIN :: gdt_cct_NetworkConnectionInfo_NetworkType where
  "gdt_cct_NetworkConnectionInfo_NetworkType_MIN = gdt_cct_NetworkConnectionInfo_NetworkType_NONE"

definition gdt_cct_NetworkConnectionInfo_NetworkType_MAX :: gdt_cct_NetworkConnectionInfo_NetworkType where
  "gdt_cct_NetworkConnectionInfo_NetworkType_MAX = gdt_cct_NetworkConnectionInfo_NetworkType_VPN"

definition gdt_cct_NetworkConnectionInfo_NetworkType_ARRAYSIZE :: int where
  "gdt_cct_NetworkConnectionInfo_NetworkType_ARRAYSIZE = gdt_cct_NetworkConnectionInfo_NetworkType_value gdt_cct_NetworkConnectionInfo_NetworkType_VPN + 1"

datatype gdt_cct_NetworkConnectionInfo_MobileSubtype =
    gdt_cct_NetworkConnectionInfo_MobileSubtype_UNKNOWN_MOBILE_SUBTYPE
  | gdt_cct_NetworkConnectionInfo_MobileSubtype_GPRS
  | gdt_cct_NetworkConnectionInfo_MobileSubtype_EDGE
  | gdt_cct_NetworkConnectionInfo_MobileSubtype_UMTS
  | gdt_cct_NetworkConnectionInfo_MobileSubtype_CDMA
  | gdt_cct_NetworkConnectionInfo_MobileSubtype_EVDO_0
  | gdt_cct_NetworkConnectionInfo_MobileSubtype_EVDO_A
  | gdt_cct_NetworkConnectionInfo_MobileSubtype_RTT
  | gdt_cct_NetworkConnectionInfo_MobileSubtype_HSDPA
  | gdt_cct_NetworkConnectionInfo_MobileSubtype_HSUPA
  | gdt_cct_NetworkConnectionInfo_MobileSubtype_HSPA
  | gdt_cct_NetworkConnectionInfo_MobileSubtype_IDEN
  | gdt_cct_NetworkConnectionInfo_MobileSubtype_EVDO_B
  | gdt_cct_NetworkConnectionInfo_MobileSubtype_LTE
  | gdt_cct_NetworkConnectionInfo_MobileSubtype_EHRPD
  | gdt_cct_NetworkConnectionInfo_MobileSubtype_HSPAP
  | gdt_cct_NetworkConnectionInfo_MobileSubtype_GSM
  | gdt_cct_NetworkConnectionInfo_MobileSubtype_TD_SCDMA
  | gdt_cct_NetworkConnectionInfo_MobileSubtype_IWLAN
  | gdt_cct_NetworkConnectionInfo_MobileSubtype_LTE_CA
  | gdt_cct_NetworkConnectionInfo_MobileSubtype_COMBINED

primrec gdt_cct_NetworkConnectionInfo_MobileSubtype_value :: "gdt_cct_NetworkConnectionInfo_MobileSubtype \<Rightarrow> int" where
  "gdt_cct_NetworkConnectionInfo_MobileSubtype_value gdt_cct_NetworkConnectionInfo_MobileSubtype_UNKNOWN_MOBILE_SUBTYPE = 0"
| "gdt_cct_NetworkConnectionInfo_MobileSubtype_value gdt_cct_NetworkConnectionInfo_MobileSubtype_GPRS = 1"
| "gdt_cct_NetworkConnectionInfo_MobileSubtype_value gdt_cct_NetworkConnectionInfo_MobileSubtype_EDGE = 2"
| "gdt_cct_NetworkConnectionInfo_MobileSubtype_value gdt_cct_NetworkConnectionInfo_MobileSubtype_UMTS = 3"
| "gdt_cct_NetworkConnectionInfo_MobileSubtype_value gdt_cct_NetworkConnectionInfo_MobileSubtype_CDMA = 4"
| "gdt_cct_NetworkConnectionInfo_MobileSubtype_value gdt_cct_NetworkConnectionInfo_MobileSubtype_EVDO_0 = 5"
| "gdt_cct_NetworkConnectionInfo_MobileSubtype_value gdt_cct_NetworkConnectionInfo_MobileSubtype_EVDO_A = 6"
| "gdt_cct_NetworkConnectionInfo_MobileSubtype_value gdt_cct_NetworkConnectionInfo_MobileSubtype_RTT = 7"
| "gdt_cct_NetworkConnectionInfo_MobileSubtype_value gdt_cct_NetworkConnectionInfo_MobileSubtype_HSDPA = 8"
| "gdt_cct_NetworkConnectionInfo_MobileSubtype_value gdt_cct_NetworkConnectionInfo_MobileSubtype_HSUPA = 9"
| "gdt_cct_NetworkConnectionInfo_MobileSubtype_value gdt_cct_NetworkConnectionInfo_MobileSubtype_HSPA = 10"
| "gdt_cct_NetworkConnectionInfo_MobileSubtype_value gdt_cct_NetworkConnectionInfo_MobileSubtype_IDEN = 11"
| "gdt_cct_NetworkConnectionInfo_MobileSubtype_value gdt_cct_NetworkConnectionInfo_MobileSubtype_EVDO_B = 12"
| "gdt_cct_NetworkConnectionInfo_MobileSubtype_value gdt_cct_NetworkConnectionInfo_MobileSubtype_LTE = 13"
| "gdt_cct_NetworkConnectionInfo_MobileSubtype_value gdt_cct_NetworkConnectionInfo_MobileSubtype_EHRPD = 14"
| "gdt_cct_NetworkConnectionInfo_MobileSubtype_value gdt_cct_NetworkConnectionInfo_MobileSubtype_HSPAP = 15"
| "gdt_cct_NetworkConnectionInfo_MobileSubtype_value gdt_cct_NetworkConnectionInfo_MobileSubtype_GSM = 16"
| "gdt_cct_NetworkConnectionInfo_MobileSubtype_value gdt_cct_NetworkConnectionInfo_MobileSubtype_TD_SCDMA = 17"
| "gdt_cct_NetworkConnectionInfo_MobileSubtype_value gdt_cct_NetworkConnectionInfo_MobileSubtype_IWLAN = 18"
| "gdt_cct_NetworkConnectionInfo_MobileSubtype_value gdt_cct_NetworkConnectionInfo_MobileSubtype_LTE_CA = 19"
| "gdt_cct_NetworkConnectionInfo_MobileSubtype_value gdt_cct_NetworkConnectionInfo_MobileSubtype_COMBINED = 100"

definition gdt_cct_NetworkConnectionInfo_MobileSubtype_MIN :: gdt_cct_NetworkConnectionInfo_MobileSubtype where
  "gdt_cct_NetworkConnectionInfo_MobileSubtype_MIN = gdt_cct_NetworkConnectionInfo_MobileSubtype_UNKNOWN_MOBILE_SUBTYPE"

definition gdt_cct_NetworkConnectionInfo_MobileSubtype_MAX :: gdt_cct_NetworkConnectionInfo_MobileSubtype where
  "gdt_cct_NetworkConnectionInfo_MobileSubtype_MAX = gdt_cct_NetworkConnectionInfo_MobileSubtype_COMBINED"

definition gdt_cct_NetworkConnectionInfo_MobileSubtype_ARRAYSIZE :: int where
  "gdt_cct_NetworkConnectionInfo_MobileSubtype_ARRAYSIZE = gdt_cct_NetworkConnectionInfo_MobileSubtype_value gdt_cct_NetworkConnectionInfo_MobileSubtype_COMBINED + 1"

datatype gdt_cct_ClientInfo_ClientType =
    gdt_cct_ClientInfo_ClientType_CLIENT_UNKNOWN
  | gdt_cct_ClientInfo_ClientType_IOS_FIREBASE

primrec gdt_cct_ClientInfo_ClientType_value :: "gdt_cct_ClientInfo_ClientType \<Rightarrow> int" where
  "gdt_cct_ClientInfo_ClientType_value gdt_cct_ClientInfo_ClientType_CLIENT_UNKNOWN = 0"
| "gdt_cct_ClientInfo_ClientType_value gdt_cct_ClientInfo_ClientType_IOS_FIREBASE = 15"

definition gdt_cct_ClientInfo_ClientType_MIN :: gdt_cct_ClientInfo_ClientType where
  "gdt_cct_ClientInfo_ClientType_MIN = gdt_cct_ClientInfo_ClientType_CLIENT_UNKNOWN"

definition gdt_cct_ClientInfo_ClientType_MAX :: gdt_cct_ClientInfo_ClientType where
  "gdt_cct_ClientInfo_ClientType_MAX = gdt_cct_ClientInfo_ClientType_IOS_FIREBASE"

definition gdt_cct_ClientInfo_ClientType_ARRAYSIZE :: int where
  "gdt_cct_ClientInfo_ClientType_ARRAYSIZE = gdt_cct_ClientInfo_ClientType_value gdt_cct_ClientInfo_ClientType_IOS_FIREBASE + 1"

datatype gdt_cct_QosTierConfiguration_QosTier =
    gdt_cct_QosTierConfiguration_QosTier_DEFAULT
  | gdt_cct_QosTierConfiguration_QosTier_UNMETERED_ONLY
  | gdt_cct_QosTierConfiguration_QosTier_UNMETERED_OR_DAILY
  | gdt_cct_QosTierConfiguration_QosTier_FAST_IF_RADIO_AWAKE
  | gdt_cct_QosTierConfiguration_QosTier_NEVER

primrec gdt_cct_QosTierConfiguration_QosTier_value :: "gdt_cct_QosTierConfiguration_QosTier \<Rightarrow> int" where
  "gdt_cct_QosTierConfiguration_QosTier_value gdt_cct_QosTierConfiguration_QosTier_DEFAULT = 0"
| "gdt_cct_QosTierConfiguration_QosTier_value gdt_cct_QosTierConfiguration_QosTier_UNMETERED_ONLY = 1"
| "gdt_cct_QosTierConfiguration_QosTier_value gdt_cct_QosTierConfiguration_QosTier_UNMETERED_OR_DAILY = 2"
| "gdt_cct_QosTierConfiguration_QosTier_value gdt_cct_QosTierConfiguration_QosTier_FAST_IF_RADIO_AWAKE = 3"
| "gdt_cct_QosTierConfiguration_QosTier_value gdt_cct_QosTierConfiguration_QosTier_NEVER = 4"

definition gdt_cct_QosTierConfiguration_QosTier_MIN :: gdt_cct_QosTierConfiguration_QosTier where
  "gdt_cct_QosTierConfiguration_QosTier_MIN = gdt_cct_QosTierConfiguration_QosTier_DEFAULT"

definition gdt_cct_QosTierConfiguration_QosTier_MAX :: gdt_cct_QosTierConfiguration_QosTier where
  "gdt_cct_QosTierConfiguration_QosTier_MAX = gdt_cct_QosTierConfiguration_QosTier_NEVER"

definition gdt_cct_QosTierConfiguration_QosTier_ARRAYSIZE :: int where
  "gdt_cct_QosTierConfiguration_QosTier_ARRAYSIZE = gdt_cct_QosTierConfiguration_QosTier_value gdt_cct_QosTierConfiguration_QosTier_NEVER + 1"

section \<open>Structures\<close>

text \<open>A structure that another one contains or points to comes first.\<close>

definition gdt_cct_IosClientInfo :: ctype where
  "gdt_cct_IosClientInfo = C_struct
     [(''os_major_version'', C_ptr (sizeof pb_bytes_array_s)),
      (''os_full_version'', C_ptr (sizeof pb_bytes_array_s)),
      (''application_build'', C_ptr (sizeof pb_bytes_array_s)),
      (''country'', C_ptr (sizeof pb_bytes_array_s)),
      (''model'', C_ptr (sizeof pb_bytes_array_s)),
      (''language_code'', C_ptr (sizeof pb_bytes_array_s)),
      (''application_bundle_id'', C_ptr (sizeof pb_bytes_array_s))]"

definition gdt_cct_ClientInfo :: ctype where
  "gdt_cct_ClientInfo = C_struct
     [(''has_client_type'', C_bool),
      (''client_type'', C_enum),
      (''has_ios_client_info'', C_bool),
      (''ios_client_info'', gdt_cct_IosClientInfo)]"

definition gdt_cct_NetworkConnectionInfo :: ctype where
  "gdt_cct_NetworkConnectionInfo = C_struct
     [(''has_network_type'', C_bool),
      (''network_type'', C_enum),
      (''has_mobile_subtype'', C_bool),
      (''mobile_subtype'', C_enum)]"

definition gdt_cct_LogEvent :: ctype where
  "gdt_cct_LogEvent = C_struct
     [(''has_event_time_ms'', C_bool),
      (''event_time_ms'', C_int64),
      (''source_extension'', C_ptr (sizeof pb_bytes_array_s)),
      (''has_event_code'', C_bool),
      (''event_code'', C_int32),
      (''has_timezone_offset_seconds'', C_bool),
      (''timezone_offset_seconds'', C_int64),
      (''has_event_uptime_ms'', C_bool),
      (''event_uptime_ms'', C_int64),
      (''has_network_connection_info'', C_bool),
      (''network_connection_info'', gdt_cct_NetworkConnectionInfo)]"

definition gdt_cct_LogRequest :: ctype where
  "gdt_cct_LogRequest = C_struct
     [(''has_client_info'', C_bool),
      (''client_info'', gdt_cct_ClientInfo),
      (''has_log_source'', C_bool),
      (''log_source'', C_int32),
      (''log_event_count'', C_size),
      (''log_event'', C_ptr (sizeof gdt_cct_LogEvent)),
      (''has_request_time_ms'', C_bool),
      (''request_time_ms'', C_int64),
      (''has_request_uptime_ms'', C_bool),
      (''request_uptime_ms'', C_int64),
      (''has_qos_tier'', C_bool),
      (''qos_tier'', C_enum)]"

definition gdt_cct_BatchedLogRequest :: ctype where
  "gdt_cct_BatchedLogRequest = C_struct
     [(''log_request_count'', C_size),
      (''log_request'', C_ptr (sizeof gdt_cct_LogRequest))]"

definition gdt_cct_QosTierConfiguration :: ctype where
  "gdt_cct_QosTierConfiguration = C_struct
     [(''has_qos_tier'', C_bool),
      (''qos_tier'', C_enum),
      (''has_log_source'', C_bool),
      (''log_source'', C_int32)]"

definition gdt_cct_QosTiersOverride :: ctype where
  "gdt_cct_QosTiersOverride = C_struct
     [(''qos_tier_configuration_count'', C_size),
      (''qos_tier_configuration'', C_ptr (sizeof gdt_cct_QosTierConfiguration)),
      (''has_qos_tier_fingerprint'', C_bool),
      (''qos_tier_fingerprint'', C_int64)]"

definition gdt_cct_LogResponse :: ctype where
  "gdt_cct_LogResponse = C_struct
     [(''has_next_request_wait_millis'', C_bool),
      (''next_request_wait_millis'', C_int64),
      (''has_qos_tier'', C_bool),
      (''qos_tier'', gdt_cct_QosTiersOverride)]"

section \<open>Initialisers\<close>

text \<open>Values of \<^verbatim>\<open>{...}\<close> initialisers.\<close>

definition gdt_cct_IosClientInfo_init_default :: cinit where
  "gdt_cct_IosClientInfo_init_default = I_struct
     [I_null,
      I_null,
      I_null,
      I_null,
      I_null,
      I_null,
      I_null]"

definition gdt_cct_ClientInfo_init_default :: cinit where
  "gdt_cct_ClientInfo_init_default = I_struct
     [I_int 0,
      I_int (gdt_cct_ClientInfo_ClientType_value gdt_cct_ClientInfo_ClientType_MIN),
      I_int 0,
      gdt_cct_IosClientInfo_init_default]"

definition gdt_cct_NetworkConnectionInfo_init_default :: cinit where
  "gdt_cct_NetworkConnectionInfo_init_default = I_struct
     [I_int 0,
      I_int (gdt_cct_NetworkConnectionInfo_NetworkType_value gdt_cct_NetworkConnectionInfo_NetworkType_NONE),
      I_int 0,
      I_int (gdt_cct_NetworkConnectionInfo_MobileSubtype_value gdt_cct_NetworkConnectionInfo_MobileSubtype_UNKNOWN_MOBILE_SUBTYPE)]"

definition gdt_cct_LogEvent_init_default :: cinit where
  "gdt_cct_LogEvent_init_default = I_struct
     [I_int 0,
      I_int 0,
      I_null,
      I_int 0,
      I_int 0,
      I_int 0,
      I_int 0,
      I_int 0,
      I_int 0,
      I_int 0,
      gdt_cct_NetworkConnectionInfo_init_default]"

definition gdt_cct_LogRequest_init_default :: cinit where
  "gdt_cct_LogRequest_init_default = I_struct
     [I_int 0,
      gdt_cct_ClientInfo_init_default,
      I_int 0,
      I_int 0,
      I_int 0,
      I_null,
      I_int 0,
      I_int 0,
      I_int 0,
      I_int 0,
      I_int 0,
      I_int (gdt_cct_QosTierConfiguration_QosTier_value gdt_cct_QosTierConfiguration_QosTier_DEFAULT)]"

definition gdt_cct_BatchedLogRequest_init_default :: cinit where
  "gdt_cct_BatchedLogRequest_init_default = I_struct
     [I_int 0,
      I_null]"

definition gdt_cct_QosTierConfiguration_init_default :: cinit where
  "gdt_cct_QosTierConfiguration_init_default = I_struct
     [I_int 0,
      I_int (gdt_cct_QosTierConfiguration_QosTier_value gdt_cct_QosTierConfiguration_QosTier_MIN),
      I_int 0,
      I_int 0]"

definition gdt_cct_QosTiersOverride_init_default :: cinit where
  "gdt_cct_QosTiersOverride_init_default = I_struct
     [I_int 0,
      I_null,
      I_int 0,
      I_int 0]"

definition gdt_cct_LogResponse_init_default :: cinit where
  "gdt_cct_LogResponse_init_default = I_struct
     [I_int 0,
      I_int 0,
      I_int 0,
      gdt_cct_QosTiersOverride_init_default]"

definition gdt_cct_IosClientInfo_init_zero :: cinit where
  "gdt_cct_IosClientInfo_init_zero = I_struct
     [I_null,
      I_null,
      I_null,
      I_null,
      I_null,
      I_null,
      I_null]"

definition gdt_cct_ClientInfo_init_zero :: cinit where
  "gdt_cct_ClientInfo_init_zero = I_struct
     [I_int 0,
      I_int (gdt_cct_ClientInfo_ClientType_value gdt_cct_ClientInfo_ClientType_MIN),
      I_int 0,
      gdt_cct_IosClientInfo_init_zero]"

definition gdt_cct_NetworkConnectionInfo_init_zero :: cinit where
  "gdt_cct_NetworkConnectionInfo_init_zero = I_struct
     [I_int 0,
      I_int (gdt_cct_NetworkConnectionInfo_NetworkType_value gdt_cct_NetworkConnectionInfo_NetworkType_MIN),
      I_int 0,
      I_int (gdt_cct_NetworkConnectionInfo_MobileSubtype_value gdt_cct_NetworkConnectionInfo_MobileSubtype_MIN)]"

definition gdt_cct_LogEvent_init_zero :: cinit where
  "gdt_cct_LogEvent_init_zero = I_struct
     [I_int 0,
      I_int 0,
      I_null,
      I_int 0,
      I_int 0,
      I_int 0,
      I_int 0,
      I_int 0,
      I_int 0,
      I_int 0,
      gdt_cct_NetworkConnectionInfo_init_zero]"

definition gdt_cct_LogRequest_init_zero :: cinit where
  "gdt_cct_LogRequest_init_zero = I_struct
     [I_int 0,
      gdt_cct_ClientInfo_init_zero,
      I_int 0,
      I_int 0,
      I_int 0,
      I_null,
      I_int 0,
      I_int 0,
      I_int 0,
      I_int 0,
      I_int 0,
      I_int (gdt_cct_QosTierConfiguration_QosTier_value gdt_cct_QosTierConfiguration_QosTier_MIN)]"

definition gdt_cct_BatchedLogRequest_init_zero :: cinit where
  "gdt_cct_BatchedLogRequest_init_zero = I_struct
     [I_int 0,
      I_null]"

definition gdt_cct_QosTierConfiguration_init_zero :: cinit where
  "gdt_cct_QosTierConfiguration_init_zero = I_struct
     [I_int 0,
      I_int (gdt_cct_QosTierConfiguration_QosTier_value gdt_cct_QosTierConfiguration_QosTier_MIN),
      I_int 0,
      I_int 0]"

definition gdt_cct_QosTiersOverride_init_zero :: cinit where
  "gdt_cct_QosTiersOverride_init_zero = I_struct
     [I_int 0,
      I_null,
      I_int 0,
      I_int 0]"

definition gdt_cct_LogResponse_init_zero :: cinit where
  "gdt_cct_LogResponse_init_zero = I_struct
     [I_int 0,
      I_int 0,
      I_int 0,
      gdt_cct_QosTiersOverride_init_zero]"

section \<open>Tags and sizes\<close>

abbreviation (input) gdt_cct_BatchedLogRequest_log_request_tag :: pb_size_t where "gdt_cct_BatchedLogRequest_log_request_tag \<equiv> 1"
abbreviation (input) gdt_cct_IosClientInfo_os_major_version_tag :: pb_size_t where "gdt_cct_IosClientInfo_os_major_version_tag \<equiv> 3"
abbreviation (input) gdt_cct_IosClientInfo_os_full_version_tag :: pb_size_t where "gdt_cct_IosClientInfo_os_full_version_tag \<equiv> 4"
abbreviation (input) gdt_cct_IosClientInfo_application_build_tag :: pb_size_t where "gdt_cct_IosClientInfo_application_build_tag \<equiv> 5"
abbreviation (input) gdt_cct_IosClientInfo_country_tag :: pb_size_t where "gdt_cct_IosClientInfo_country_tag \<equiv> 6"
abbreviation (input) gdt_cct_IosClientInfo_model_tag :: pb_size_t where "gdt_cct_IosClientInfo_model_tag \<equiv> 7"
abbreviation (input) gdt_cct_IosClientInfo_language_code_tag :: pb_size_t where "gdt_cct_IosClientInfo_language_code_tag \<equiv> 8"
abbreviation (input) gdt_cct_IosClientInfo_application_bundle_id_tag :: pb_size_t where "gdt_cct_IosClientInfo_application_bundle_id_tag \<equiv> 11"
abbreviation (input) gdt_cct_ClientInfo_client_type_tag :: pb_size_t where "gdt_cct_ClientInfo_client_type_tag \<equiv> 1"
abbreviation (input) gdt_cct_ClientInfo_ios_client_info_tag :: pb_size_t where "gdt_cct_ClientInfo_ios_client_info_tag \<equiv> 4"
abbreviation (input) gdt_cct_NetworkConnectionInfo_network_type_tag :: pb_size_t where "gdt_cct_NetworkConnectionInfo_network_type_tag \<equiv> 1"
abbreviation (input) gdt_cct_NetworkConnectionInfo_mobile_subtype_tag :: pb_size_t where "gdt_cct_NetworkConnectionInfo_mobile_subtype_tag \<equiv> 2"
abbreviation (input) gdt_cct_QosTierConfiguration_qos_tier_tag :: pb_size_t where "gdt_cct_QosTierConfiguration_qos_tier_tag \<equiv> 2"
abbreviation (input) gdt_cct_QosTierConfiguration_log_source_tag :: pb_size_t where "gdt_cct_QosTierConfiguration_log_source_tag \<equiv> 3"
abbreviation (input) gdt_cct_QosTiersOverride_qos_tier_configuration_tag :: pb_size_t where "gdt_cct_QosTiersOverride_qos_tier_configuration_tag \<equiv> 1"
abbreviation (input) gdt_cct_QosTiersOverride_qos_tier_fingerprint_tag :: pb_size_t where "gdt_cct_QosTiersOverride_qos_tier_fingerprint_tag \<equiv> 2"
abbreviation (input) gdt_cct_LogEvent_event_time_ms_tag :: pb_size_t where "gdt_cct_LogEvent_event_time_ms_tag \<equiv> 1"
abbreviation (input) gdt_cct_LogEvent_event_code_tag :: pb_size_t where "gdt_cct_LogEvent_event_code_tag \<equiv> 11"
abbreviation (input) gdt_cct_LogEvent_event_uptime_ms_tag :: pb_size_t where "gdt_cct_LogEvent_event_uptime_ms_tag \<equiv> 17"
abbreviation (input) gdt_cct_LogEvent_source_extension_tag :: pb_size_t where "gdt_cct_LogEvent_source_extension_tag \<equiv> 6"
abbreviation (input) gdt_cct_LogEvent_timezone_offset_seconds_tag :: pb_size_t where "gdt_cct_LogEvent_timezone_offset_seconds_tag \<equiv> 15"
abbreviation (input) gdt_cct_LogEvent_network_connection_info_tag :: pb_size_t where "gdt_cct_LogEvent_network_connection_info_tag \<equiv> 23"
abbreviation (input) gdt_cct_LogRequest_request_time_ms_tag :: pb_size_t where "gdt_cct_LogRequest_request_time_ms_tag \<equiv> 4"
abbreviation (input) gdt_cct_LogRequest_request_uptime_ms_tag :: pb_size_t where "gdt_cct_LogRequest_request_uptime_ms_tag \<equiv> 8"
abbreviation (input) gdt_cct_LogRequest_client_info_tag :: pb_size_t where "gdt_cct_LogRequest_client_info_tag \<equiv> 1"
abbreviation (input) gdt_cct_LogRequest_log_source_tag :: pb_size_t where "gdt_cct_LogRequest_log_source_tag \<equiv> 2"
abbreviation (input) gdt_cct_LogRequest_log_event_tag :: pb_size_t where "gdt_cct_LogRequest_log_event_tag \<equiv> 3"
abbreviation (input) gdt_cct_LogRequest_qos_tier_tag :: pb_size_t where "gdt_cct_LogRequest_qos_tier_tag \<equiv> 9"
abbreviation (input) gdt_cct_LogResponse_next_request_wait_millis_tag :: pb_size_t where "gdt_cct_LogResponse_next_request_wait_millis_tag \<equiv> 1"
abbreviation (input) gdt_cct_LogResponse_qos_tier_tag :: pb_size_t where "gdt_cct_LogResponse_qos_tier_tag \<equiv> 3"
abbreviation (input) gdt_cct_NetworkConnectionInfo_size :: nat where "gdt_cct_NetworkConnectionInfo_size \<equiv> 13"
abbreviation (input) gdt_cct_QosTierConfiguration_size :: nat where "gdt_cct_QosTierConfiguration_size \<equiv> 13"

section \<open>Default values and descriptor tables\<close>

definition gdt_cct_NetworkConnectionInfo_network_type_default :: u32 where
  "gdt_cct_NetworkConnectionInfo_network_type_default = word_of_int (gdt_cct_NetworkConnectionInfo_NetworkType_value gdt_cct_NetworkConnectionInfo_NetworkType_NONE)"

definition gdt_cct_NetworkConnectionInfo_mobile_subtype_default :: u32 where
  "gdt_cct_NetworkConnectionInfo_mobile_subtype_default = word_of_int (gdt_cct_NetworkConnectionInfo_MobileSubtype_value gdt_cct_NetworkConnectionInfo_MobileSubtype_UNKNOWN_MOBILE_SUBTYPE)"

definition gdt_cct_LogRequest_qos_tier_default :: u32 where
  "gdt_cct_LogRequest_qos_tier_default = word_of_int (gdt_cct_QosTierConfiguration_QosTier_value gdt_cct_QosTierConfiguration_QosTier_DEFAULT)"

definition gdt_cct_QosTierConfiguration_log_source_default :: u32 where
  "gdt_cct_QosTierConfiguration_log_source_default = 0"

definition gdt_cct_IosClientInfo_fields :: "pb_field_t list" where
  "gdt_cct_IosClientInfo_fields =
     [PB_FIELD 3 BYTES OPTIONAL POINTER FIRST gdt_cct_IosClientInfo ''os_major_version'' ''os_major_version'' PB_NULL,
      PB_FIELD 4 BYTES OPTIONAL POINTER OTHER gdt_cct_IosClientInfo ''os_full_version'' ''os_major_version'' PB_NULL,
      PB_FIELD 5 BYTES OPTIONAL POINTER OTHER gdt_cct_IosClientInfo ''application_build'' ''os_full_version'' PB_NULL,
      PB_FIELD 6 BYTES OPTIONAL POINTER OTHER gdt_cct_IosClientInfo ''country'' ''application_build'' PB_NULL,
      PB_FIELD 7 BYTES OPTIONAL POINTER OTHER gdt_cct_IosClientInfo ''model'' ''country'' PB_NULL,
      PB_FIELD 8 BYTES OPTIONAL POINTER OTHER gdt_cct_IosClientInfo ''language_code'' ''model'' PB_NULL,
      PB_FIELD 11 BYTES OPTIONAL POINTER OTHER gdt_cct_IosClientInfo ''application_bundle_id'' ''language_code'' PB_NULL,
      PB_LAST_FIELD]"

definition gdt_cct_ClientInfo_fields :: "pb_field_t list" where
  "gdt_cct_ClientInfo_fields =
     [PB_FIELD 1 UENUM OPTIONAL STATIC FIRST gdt_cct_ClientInfo ''client_type'' ''client_type'' PB_NULL,
      PB_FIELD 4 MESSAGE OPTIONAL STATIC OTHER gdt_cct_ClientInfo ''ios_client_info'' ''client_type'' (PB_FIELDS gdt_cct_IosClientInfo_fields),
      PB_LAST_FIELD]"

definition gdt_cct_NetworkConnectionInfo_fields :: "pb_field_t list" where
  "gdt_cct_NetworkConnectionInfo_fields =
     [PB_FIELD 1 ENUM OPTIONAL STATIC FIRST gdt_cct_NetworkConnectionInfo ''network_type'' ''network_type'' (PB_DEFAULT (le_bytes 4 gdt_cct_NetworkConnectionInfo_network_type_default)),
      PB_FIELD 2 UENUM OPTIONAL STATIC OTHER gdt_cct_NetworkConnectionInfo ''mobile_subtype'' ''network_type'' (PB_DEFAULT (le_bytes 4 gdt_cct_NetworkConnectionInfo_mobile_subtype_default)),
      PB_LAST_FIELD]"

definition gdt_cct_LogEvent_fields :: "pb_field_t list" where
  "gdt_cct_LogEvent_fields =
     [PB_FIELD 1 INT64 OPTIONAL STATIC FIRST gdt_cct_LogEvent ''event_time_ms'' ''event_time_ms'' PB_NULL,
      PB_FIELD 6 BYTES OPTIONAL POINTER OTHER gdt_cct_LogEvent ''source_extension'' ''event_time_ms'' PB_NULL,
      PB_FIELD 11 INT32 OPTIONAL STATIC OTHER gdt_cct_LogEvent ''event_code'' ''source_extension'' PB_NULL,
      PB_FIELD 15 SINT64 OPTIONAL STATIC OTHER gdt_cct_LogEvent ''timezone_offset_seconds'' ''event_code'' PB_NULL,
      PB_FIELD 17 INT64 OPTIONAL STATIC OTHER gdt_cct_LogEvent ''event_uptime_ms'' ''timezone_offset_seconds'' PB_NULL,
      PB_FIELD 23 MESSAGE OPTIONAL STATIC OTHER gdt_cct_LogEvent ''network_connection_info'' ''event_uptime_ms'' (PB_FIELDS gdt_cct_NetworkConnectionInfo_fields),
      PB_LAST_FIELD]"

definition gdt_cct_LogRequest_fields :: "pb_field_t list" where
  "gdt_cct_LogRequest_fields =
     [PB_FIELD 1 MESSAGE OPTIONAL STATIC FIRST gdt_cct_LogRequest ''client_info'' ''client_info'' (PB_FIELDS gdt_cct_ClientInfo_fields),
      PB_FIELD 2 INT32 OPTIONAL STATIC OTHER gdt_cct_LogRequest ''log_source'' ''client_info'' PB_NULL,
      PB_FIELD 3 MESSAGE REPEATED POINTER OTHER gdt_cct_LogRequest ''log_event'' ''log_source'' (PB_FIELDS gdt_cct_LogEvent_fields),
      PB_FIELD 4 INT64 OPTIONAL STATIC OTHER gdt_cct_LogRequest ''request_time_ms'' ''log_event'' PB_NULL,
      PB_FIELD 8 INT64 OPTIONAL STATIC OTHER gdt_cct_LogRequest ''request_uptime_ms'' ''request_time_ms'' PB_NULL,
      PB_FIELD 9 UENUM OPTIONAL STATIC OTHER gdt_cct_LogRequest ''qos_tier'' ''request_uptime_ms'' (PB_DEFAULT (le_bytes 4 gdt_cct_LogRequest_qos_tier_default)),
      PB_LAST_FIELD]"

definition gdt_cct_BatchedLogRequest_fields :: "pb_field_t list" where
  "gdt_cct_BatchedLogRequest_fields =
     [PB_FIELD 1 MESSAGE REPEATED POINTER FIRST gdt_cct_BatchedLogRequest ''log_request'' ''log_request'' (PB_FIELDS gdt_cct_LogRequest_fields),
      PB_LAST_FIELD]"

definition gdt_cct_QosTierConfiguration_fields :: "pb_field_t list" where
  "gdt_cct_QosTierConfiguration_fields =
     [PB_FIELD 2 UENUM OPTIONAL STATIC FIRST gdt_cct_QosTierConfiguration ''qos_tier'' ''qos_tier'' PB_NULL,
      PB_FIELD 3 INT32 OPTIONAL STATIC OTHER gdt_cct_QosTierConfiguration ''log_source'' ''qos_tier'' (PB_DEFAULT (le_bytes 4 gdt_cct_QosTierConfiguration_log_source_default)),
      PB_LAST_FIELD]"

definition gdt_cct_QosTiersOverride_fields :: "pb_field_t list" where
  "gdt_cct_QosTiersOverride_fields =
     [PB_FIELD 1 MESSAGE REPEATED POINTER FIRST gdt_cct_QosTiersOverride ''qos_tier_configuration'' ''qos_tier_configuration'' (PB_FIELDS gdt_cct_QosTierConfiguration_fields),
      PB_FIELD 2 INT64 OPTIONAL STATIC OTHER gdt_cct_QosTiersOverride ''qos_tier_fingerprint'' ''qos_tier_configuration'' PB_NULL,
      PB_LAST_FIELD]"

definition gdt_cct_LogResponse_fields :: "pb_field_t list" where
  "gdt_cct_LogResponse_fields =
     [PB_FIELD 1 INT64 OPTIONAL STATIC FIRST gdt_cct_LogResponse ''next_request_wait_millis'' ''next_request_wait_millis'' PB_NULL,
      PB_FIELD 3 MESSAGE OPTIONAL STATIC OTHER gdt_cct_LogResponse ''qos_tier'' ''next_request_wait_millis'' (PB_FIELDS gdt_cct_QosTiersOverride_fields),
      PB_LAST_FIELD]"

end
