(* ===== verification/PB_Safety_Props.thy ===== *)
theory PB_Safety_Props
  imports PB_Safety PB_Value_Props Proto_CCT
begin

text \<open>
  What the safety lemmas say of \<^verbatim>\<open>pb_decode\<close> on a buffer, for every descriptor table whose
  members are static (\<^const>\<open>plain\<close>), and for the generated tables of that kind.
\<close>




lemma plain_QosTierConfiguration:
  "plain 1 (sizeof gdt_cct_QosTierConfiguration) gdt_cct_QosTierConfiguration_fields"
  by code_simp





end
