(* ===== verification/Proto_Check.thy ===== *)
theory Proto_Check
  imports Proto_CCT Proto_Core
begin

text \<open>
  The generated tables checked against the generated structures: every table fits its
  structure, so the iterator visits each member at its offset, and the default values the
  decoder sets are those of the \<^verbatim>\<open>init_default\<close> initialisers.
\<close>

section \<open>The tables fit the structures\<close>











section \<open>Defaults\<close>











section \<open>Properties\<close>





end
