(* ===== verification/FBase64.thy ===== *)
theory FBase64
  imports Prelude
begin

text \<open>
  \<^verbatim>\<open>src/MovieDBApp/Pods/FirebaseDatabase/Firebase/Database/third_party/SocketRocket/fbase64.c\<close>:
  the base-64 encoder \<^verbatim>\<open>f_b64_ntop\<close> and decoder \<^verbatim>\<open>f_b64_pton\<close> the WebSocket handshake uses.

  A C string is the list of its bytes, its terminating zero among them; the target area is
  the list of its bytes, and an access outside it is undefined, \<^const>\<open>None\<close>. The returned
  \<^verbatim>\<open>int\<close> is a 32-bit word, \<open>-1\<close> on error. \<open>isspace\<close> is that of the C locale.

  Main results: the encoder writes the RFC 1521 digits of its input (\<open>b64\<close>, written with
  numbers instead of shifts) and a zero byte, or fails if they do not fit; the decoder gives
  the input back and leaves the rest of the target alone.
\<close>

section \<open>Definitions\<close>

definition Base64 :: "byte list" where
  "Base64 = map (\<lambda>c. of_nat (of_char c))
     ''ABCDEFGHIJKLMNOPQRSTUVWXYZabcdefghijklmnopqrstuvwxyz0123456789+/''"

definition Pad64 :: byte where
  "Pad64 = 61"

definition isspace :: "byte \<Rightarrow> bool" where
  "isspace ch \<longleftrightarrow> ch = 32 \<or> (9 \<le> ch \<and> ch \<le> 13)"

text \<open>\<^verbatim>\<open>target[i] = v\<close>\<close>

definition put :: "nat \<Rightarrow> byte \<Rightarrow> byte list \<Rightarrow> byte list option" where
  "put i v target = (if i < length target then Some (target[i := v]) else None)"

primrec puts :: "nat \<Rightarrow> byte list \<Rightarrow> byte list \<Rightarrow> byte list option" where
  "puts i [] target = Some target"
| "puts i (v # vs) target = Option.bind (put i v target) (puts (Suc i) vs)"

text \<open>
  The loop over groups of three bytes. The result is \<^term>\<open>Inl target\<close> if it returns \<open>-1\<close>,
  and otherwise what is left of the source, the target and \<^verbatim>\<open>datalength\<close>.
\<close>

fun ntop_loop :: "byte list \<Rightarrow> byte list \<Rightarrow> size_t \<Rightarrow> size_t \<Rightarrow>
    (byte list + byte list \<times> byte list \<times> size_t) option" where
  "ntop_loop (i0 # i1 # i2 # src) target targsize datalength =
     (let o0 = drop_bit 2 i0;
          o1 = push_bit 4 (i0 AND 0x03) + drop_bit 4 i1;
          o2 = push_bit 2 (i1 AND 0x0F) + drop_bit 6 i2;
          o3 = i2 AND 0x3F
      in if datalength + 4 > targsize then Some (Inl target)
         else do {
           target \<leftarrow> puts (unat datalength)
             [Base64 ! unat o0, Base64 ! unat o1, Base64 ! unat o2, Base64 ! unat o3] target;
           ntop_loop src target targsize (datalength + 4)
         })"
| "ntop_loop src target targsize datalength = Some (Inr (src, target, datalength))"

definition ntop_pad :: "byte list \<Rightarrow> byte list \<Rightarrow> size_t \<Rightarrow> size_t \<Rightarrow>
    (byte list + byte list \<times> size_t) option" where
  "ntop_pad src target targsize datalength =
     (if src = [] then Some (Inr (target, datalength))
      else let i0 = src ! 0; i1 = (if length src > 1 then src ! 1 else 0); i2 = 0;
               o0 = drop_bit 2 i0;
               o1 = push_bit 4 (i0 AND 0x03) + drop_bit 4 i1;
               o2 = push_bit 2 (i1 AND 0x0F) + drop_bit 6 i2
           in if datalength + 4 > targsize then Some (Inl target)
              else do {
                target \<leftarrow> puts (unat datalength)
                  [Base64 ! unat o0, Base64 ! unat o1,
                   if length src = 1 then Pad64 else Base64 ! unat o2, Pad64] target;
                Some (Inr (target, datalength + 4))
              })"

definition f_b64_ntop :: "byte list \<Rightarrow> byte list \<Rightarrow> size_t \<Rightarrow> (u32 \<times> byte list) option" where
  "f_b64_ntop src target targsize =
     do {
       r \<leftarrow> ntop_loop src target targsize 0;
       case r of
         Inl target \<Rightarrow> Some (- 1, target)
       | Inr (src, target, datalength) \<Rightarrow> do {
           r \<leftarrow> ntop_pad src target targsize datalength;
           case r of
             Inl target \<Rightarrow> Some (- 1, target)
           | Inr (target, datalength) \<Rightarrow>
               if datalength \<ge> targsize then Some (- 1, target)
               else do {
                 target \<leftarrow> put (unat datalength) 0 target;
                 Some (ucast datalength, target)
               }
         }
     }"

text \<open>\<^verbatim>\<open>strchr(Base64, ch) - Base64\<close>; \<^const>\<open>None\<close> for a NULL result. \<open>ch\<close> is not zero.\<close>

primrec index_of :: "byte list \<Rightarrow> byte \<Rightarrow> nat option" where
  "index_of [] ch = None"
| "index_of (b # bs) ch = (if b = ch then Some 0 else map_option Suc (index_of bs ch))"

text \<open>
  Storing the digit \<open>pos\<close> in state 0 to 3: \<^term>\<open>Some None\<close> if the function returns \<open>-1\<close>.
  \<open>get\<close> reads \<^verbatim>\<open>target[i]\<close>.
\<close>

definition get :: "nat \<Rightarrow> byte list \<Rightarrow> byte option" where
  "get i target = (if i < length target then Some (target ! i) else None)"

definition pton_store :: "nat \<Rightarrow> byte \<Rightarrow> u32 \<Rightarrow> size_t \<Rightarrow> byte list \<Rightarrow> byte list option option" where
  "pton_store state pos tarindex targsize target =
     (let i = unat tarindex; j = unat (tarindex + 1) in
      if state = 0 then
        if ucast tarindex \<ge> targsize then Some None
        else map_option Some (put i (push_bit 2 pos) target)
      else if state = 1 then
        if ucast (tarindex + 1) \<ge> targsize then Some None
        else do {
          t \<leftarrow> get i target;
          target \<leftarrow> put i (t OR drop_bit 4 pos) target;
          map_option Some (put j (push_bit 4 (pos AND 0x0F)) target)
        }
      else if state = 2 then
        if ucast (tarindex + 1) \<ge> targsize then Some None
        else do {
          t \<leftarrow> get i target;
          target \<leftarrow> put i (t OR drop_bit 2 pos) target;
          map_option Some (put j (push_bit 6 (pos AND 0x03)) target)
        }
      else
        if ucast tarindex \<ge> targsize then Some None
        else do {
          t \<leftarrow> get i target;
          map_option Some (put i (t OR pos) target)
        })"

text \<open>
  The main loop: \<^const>\<open>Inl\<close> with the target if it returns \<open>-1\<close>, otherwise the last character
  read, the source after it, the target, \<^verbatim>\<open>tarindex\<close> and \<^verbatim>\<open>state\<close>. The target is
  \<^const>\<open>None\<close> if it is NULL.
\<close>

fun pton_loop :: "byte list \<Rightarrow> byte list option \<Rightarrow> size_t \<Rightarrow> u32 \<Rightarrow> nat \<Rightarrow>
    (byte list option + byte \<times> byte list \<times> byte list option \<times> u32 \<times> nat) option" where
  "pton_loop [] target targsize tarindex state = None"
| "pton_loop (ch # src) target targsize tarindex state =
     (if ch = 0 then Some (Inr (ch, src, target, tarindex, state))
      else if isspace ch then pton_loop src target targsize tarindex state
      else if ch = Pad64 then Some (Inr (ch, src, target, tarindex, state))
      else case index_of Base64 ch of
        None \<Rightarrow> Some (Inl target)
      | Some pos \<Rightarrow> do {
          r \<leftarrow> (case target of
                 None \<Rightarrow> Some (Some None)
               | Some t \<Rightarrow> map_option (map_option Some)
                   (pton_store state (of_nat pos) tarindex targsize t));
          case r of
            None \<Rightarrow> Some (Inl target)
          | Some target \<Rightarrow>
              pton_loop src target targsize (if state = 0 then tarindex else tarindex + 1)
                (if state = 3 then 0 else Suc state)
        })"

text \<open>
  \<^verbatim>\<open>for (; ch != 0; ch = *src++) if (!isspace(ch)) break;\<close>: the character it stops at, zero at
  the end of the string, and the source after it.
\<close>

fun skip_spaces :: "byte \<Rightarrow> byte list \<Rightarrow> (byte \<times> byte list) option" where
  "skip_spaces ch src =
     (if ch = 0 \<or> \<not> isspace ch then Some (ch, src)
      else case src of [] \<Rightarrow> None | ch # src \<Rightarrow> skip_spaces ch src)"

declare skip_spaces.simps [simp del]

definition next_char :: "byte list \<Rightarrow> (byte \<times> byte list) option" where
  "next_char src = (case src of [] \<Rightarrow> None | ch # src \<Rightarrow> Some (ch, src))"

text \<open>What follows the first pad character, in state 2 or 3: \<^const>\<open>False\<close> for \<open>-1\<close>.\<close>

definition pton_trailer :: "byte list \<Rightarrow> byte list option \<Rightarrow> u32 \<Rightarrow> nat \<Rightarrow> bool option" where
  "pton_trailer src target tarindex state =
     do {
       (ch, src) \<leftarrow> next_char src;
       if state = 0 \<or> state = 1 then Some False
       else do {
         (ok, ch, src) \<leftarrow>
           (if state = 2 then do {
              (ch, src) \<leftarrow> skip_spaces ch src;
              if ch \<noteq> Pad64 then Some (False, ch, src)
              else do { (ch, src) \<leftarrow> next_char src; Some (True, ch, src) }
            }
            else Some (True, ch, src));
         if \<not> ok then Some False
         else do {
           (ch, src) \<leftarrow> skip_spaces ch src;
           if ch \<noteq> 0 then Some False
           else case target of
             None \<Rightarrow> Some True
           | Some t \<Rightarrow> map_option (\<lambda>b. b = 0) (get (unat tarindex) t)
         }
       }
     }"

definition f_b64_pton :: "byte list \<Rightarrow> byte list option \<Rightarrow> size_t \<Rightarrow> (u32 \<times> byte list option) option" where
  "f_b64_pton src target targsize =
     do {
       r \<leftarrow> pton_loop src target targsize 0 0;
       case r of
         Inl target \<Rightarrow> Some (- 1, target)
       | Inr (ch, src, target, tarindex, state) \<Rightarrow> do {
           ok \<leftarrow> (if ch = Pad64 then pton_trailer src target tarindex state else Some (state = 0));
           Some (if ok then tarindex else - 1, target)
         }
     }"

section \<open>The reference encoding\<close>

definition digit :: "nat \<Rightarrow> byte" where
  "digit n = Base64 ! n"

fun b64 :: "byte list \<Rightarrow> byte list" where
  "b64 [] = []"
| "b64 [a] =
     (let n = unat a * 65536 in [digit (n div 262144), digit (n div 4096 mod 64), Pad64, Pad64])"
| "b64 [a, b] =
     (let n = unat a * 65536 + unat b * 256
      in [digit (n div 262144), digit (n div 4096 mod 64), digit (n div 64 mod 64), Pad64])"
| "b64 (a # b # c # src) =
     (let n = unat a * 65536 + unat b * 256 + unat c
      in digit (n div 262144) # digit (n div 4096 mod 64) # digit (n div 64 mod 64) # digit (n mod 64)
         # b64 src)"

lemma length_b64: "length (b64 src) = 4 * ((length src + 2) div 3)"
proof (induction src rule: b64.induct)
  case (4 a b c src)
  have "(3 + (length src + 2)) div 3 = Suc ((length src + 2) div 3)"
    by (subst div_add_self1) simp_all
  then show ?case using 4 by (simp add: Let_def)
qed (simp_all add: Let_def)

section \<open>Digits\<close>

declare unat_lt_8 [simp]

lemma byte_and_mask:
  "(b :: byte) AND 0x03 = take_bit 2 b" "b AND 0x0F = take_bit 4 b" "b AND 0x3F = take_bit 6 b"
  by (simp_all add: take_bit_eq_mask mask_eq_exp_minus_1)

lemma unat_add_8: "unat a + unat b < 256 \<Longrightarrow> unat (a + b) = unat a + unat b" for a b :: byte
  using unat_add_lem [of a b] by simp

lemma unat_push_mask:
  assumes "k + n \<le> 8"
  shows "unat (push_bit k (take_bit n (a :: byte))) = unat a mod 2 ^ n * 2 ^ k"
proof -
  have "unat a mod 2 ^ n * 2 ^ k < 2 ^ n * 2 ^ k" by simp
  also have "\<dots> \<le> (2 :: nat) ^ 8"
    using assms by (subst power_add [symmetric]) (rule power_increasing, auto)
  finally have "(unat a mod 2 ^ n * 2 ^ k) mod 2 ^ LENGTH(8) = unat a mod 2 ^ n * 2 ^ k" by simp
  then show ?thesis
    by (simp only: unsigned_push_bit_eq unat_take_bit_mod push_bit_eq_mult [where 'a = nat]
          take_bit_eq_mod [where 'a = nat])
qed

lemma unat_o1: "unat (push_bit 4 (a AND 0x03) + drop_bit 4 b) = unat a mod 4 * 16 + unat b div 16"
  for a b :: byte
proof -
  have "unat b div 16 < 16" using unat_lt_8 [of b] by (simp add: div_less_iff_less_mult del: unat_lt_8)
  moreover have "unat a mod 4 < 4" by simp
  ultimately show ?thesis
    by (subst unat_add_8) (auto simp: byte_and_mask unat_push_mask word_nat)
qed

lemma unat_o2: "unat (push_bit 2 (a AND 0x0F) + drop_bit 6 b) = unat a mod 16 * 4 + unat b div 64"
  for a b :: byte
proof -
  have "unat b div 64 < 4" using unat_lt_8 [of b] by (simp add: div_less_iff_less_mult del: unat_lt_8)
  moreover have "unat a mod 16 < 16" by simp
  ultimately show ?thesis
    by (subst unat_add_8) (auto simp: byte_and_mask unat_push_mask word_nat)
qed

text \<open>The four digits of a 24-bit number made of three bytes.\<close>

lemma digits_of:
  fixes a b c :: nat
  assumes "b < 256" and "c < 256"
  shows "(a * 65536 + b * 256 + c) div 262144 = a div 4"
    and "(a * 65536 + b * 256 + c) div 4096 mod 64 = a mod 4 * 16 + b div 16"
    and "(a * 65536 + b * 256 + c) div 64 mod 64 = b mod 16 * 4 + c div 64"
    and "(a * 65536 + b * 256 + c) mod 64 = c mod 64"
proof -
  let ?n = "a * 65536 + b * 256 + c"
  have "?n = c + 256 * (a * 256 + b)" by simp
  then have div_256: "?n div 256 = a * 256 + b"
    using assms by simp
  have "?n = c + 64 * ((a * 256 + b) * 4)" by simp
  then have div_64: "?n div 64 = (a * 256 + b) * 4 + c div 64"
    by simp
  have div_4096: "?n div 4096 = a * 16 + b div 16"
    using div_256 div_mult2_eq [of ?n 256 16] by simp
  show "?n div 262144 = a div 4"
    using div_4096 div_mult2_eq [of ?n 4096 64] assms by (simp add: div_mult2_eq [of _ 16 4, simplified])
  have "?n = c + 64 * (a * 1024 + b * 4)" by simp
  then show "?n mod 64 = c mod 64" by (simp only: mod_mult_self2)
  have "b div 16 < 16" "c div 64 < 4" using assms by (simp_all add: div_less_iff_less_mult)
  then have small: "a mod 4 * 16 + b div 16 < 64" "b mod 16 * 4 + c div 64 < 64"
    using mod_less_divisor [of 4 a] mod_less_divisor [of 16 b] by linarith+
  have shift: "a * 16 + x = (r * 16 + x) + 64 * q" if "a = 4 * q + r" for q r x
    using that by simp
  have "a * 16 + b div 16 = (a mod 4 * 16 + b div 16) + 64 * (a div 4)"
    by (rule shift) (rule mult_div_mod_eq [symmetric])
  then have "(a * 16 + b div 16) mod 64 = a mod 4 * 16 + b div 16"
    using small(1) by (simp only: mod_mult_self2 mod_less)
  then show "?n div 4096 mod 64 = a mod 4 * 16 + b div 16" by (simp only: div_4096)
  have shift: "(a * 256 + b) * 4 + x = (r * 4 + x) + 64 * (a * 16 + q)" if "b = 16 * q + r" for q r x
    using that by simp
  have "(a * 256 + b) * 4 + c div 64 = (b mod 16 * 4 + c div 64) + 64 * (a * 16 + b div 16)"
    by (rule shift) (rule mult_div_mod_eq [symmetric])
  then have "((a * 256 + b) * 4 + c div 64) mod 64 = b mod 16 * 4 + c div 64"
    using small(2) by (simp only: mod_mult_self2 mod_less)
  then show "?n div 64 mod 64 = b mod 16 * 4 + c div 64" by (simp only: div_64)
qed

text \<open>The quad of four digits as the code computes it.\<close>

definition quad :: "byte \<Rightarrow> byte \<Rightarrow> byte \<Rightarrow> byte list" where
  "quad a b c =
     [Base64 ! unat (drop_bit 2 a), Base64 ! unat (push_bit 4 (a AND 0x03) + drop_bit 4 b),
      Base64 ! unat (push_bit 2 (b AND 0x0F) + drop_bit 6 c), Base64 ! unat (c AND 0x3F)]"

lemma quad_digits:
  "quad a b c =
     (let n = unat a * 65536 + unat b * 256 + unat c
      in [digit (n div 262144), digit (n div 4096 mod 64), digit (n div 64 mod 64), digit (n mod 64)])"
  by (simp only: Let_def digits_of [OF unat_lt_8 unat_lt_8] quad_def digit_def unat_o1 unat_o2
        unat_drop_bit_div byte_and_mask(3) unat_take_bit_mod) simp

lemma b64_quad:
  "b64 (a # b # c # src) = quad a b c @ b64 src"
  "b64 [a, b] = take 3 (quad a b 0) @ [Pad64]"
  "b64 [a] = take 2 (quad a 0 0) @ [Pad64, Pad64]"
  by (simp_all only: quad_digits b64.simps Let_def unsigned_0 mult_zero_left add_0_right
        numeral_3_eq_3 numeral_2_eq_2 take_Suc_Cons take_0 append.simps)

section \<open>The encoder\<close>

lemma puts_eq:
  "i + length vs \<le> length target \<Longrightarrow>
   puts i vs target = Some (take i target @ vs @ drop (i + length vs) target)"
proof (induction vs arbitrary: i target)
  case Nil
  then show ?case by simp
next
  case (Cons v vs)
  then have "puts (Suc i) vs (target[i := v])
     = Some (take (Suc i) (target[i := v]) @ vs @ drop (Suc i + length vs) (target[i := v]))"
    by simp
  then show ?case
    using Cons.prems by (simp add: put_def take_Suc_conv_app_nth drop_update_cancel)
qed

lemma no_wrap_64: "unat (d :: size_t) + k < 18446744073709551616 \<Longrightarrow> unat (d + of_nat k) = unat d + k"
  by (subst unat_add_no_overflow) simp_all

text \<open>What is left to do after the loop, as one function.\<close>

definition ntop_from :: "byte list \<Rightarrow> byte list \<Rightarrow> size_t \<Rightarrow> size_t \<Rightarrow> (u32 \<times> byte list) option" where
  "ntop_from src target targsize d =
     do {
       r \<leftarrow> ntop_loop src target targsize d;
       case r of
         Inl target \<Rightarrow> Some (- 1, target)
       | Inr (src, target, datalength) \<Rightarrow> do {
           r \<leftarrow> ntop_pad src target targsize datalength;
           case r of
             Inl target \<Rightarrow> Some (- 1, target)
           | Inr (target, datalength) \<Rightarrow>
               if datalength \<ge> targsize then Some (- 1, target)
               else do {
                 target \<leftarrow> put (unat datalength) 0 target;
                 Some (ucast datalength, target)
               }
         }
     }"

lemma ntop_from_0: "f_b64_ntop src target targsize = ntop_from src target targsize 0"
  by (simp add: f_b64_ntop_def ntop_from_def)

lemma ntop_from_step:
  "ntop_from (a # b # c # src) target targsize d =
     (if d + 4 > targsize then Some (- 1, target)
      else Option.bind (puts (unat d) (quad a b c) target) (\<lambda>t. ntop_from src t targsize (d + 4)))"
  by (simp add: ntop_from_def quad_def Let_def)

lemma ntop_from_Nil:
  "ntop_from [] target targsize d =
     (if d \<ge> targsize then Some (- 1, target)
      else Option.bind (put (unat d) 0 target) (\<lambda>t. Some (ucast d, t)))"
  by (simp add: ntop_from_def ntop_pad_def)

lemma ntop_from_short:
  assumes "src = [a] \<or> src = [a, b]"
  shows "ntop_from src target targsize d =
    (if d + 4 > targsize then Some (- 1, target)
     else Option.bind (puts (unat d) (b64 src) target)
            (\<lambda>t. if d + 4 \<ge> targsize then Some (- 1, t)
                 else Option.bind (put (unat (d + 4)) 0 t) (\<lambda>t. Some (ucast (d + 4), t))))"
  using assms
proof
  assume "src = [a]"
  then show ?thesis
    by (simp add: ntop_from_def ntop_pad_def b64_quad quad_def numeral_2_eq_2 del: b64.simps cong: if_cong)
next
  assume "src = [a, b]"
  then show ?thesis
    by (simp add: ntop_from_def ntop_pad_def b64_quad quad_def numeral_3_eq_3 del: b64.simps cong: if_cong)
qed

lemma put_eq: "i < length target \<Longrightarrow> put i v target = Some (take i target @ v # drop (Suc i) target)"
  by (simp add: put_def upd_conv_take_nth_drop)

definition ntop_ok :: "byte list \<Rightarrow> byte list \<Rightarrow> size_t \<Rightarrow> bool" where
  "ntop_ok src target d \<longleftrightarrow>
     (if unat d + length (b64 src) < length target
      then ntop_from src target (of_nat (length target)) d
         = Some (of_nat (unat d + length (b64 src)),
                 take (unat d) target @ b64 src @ 0 # drop (Suc (unat d + length (b64 src))) target)
      else \<exists>t. ntop_from src target (of_nat (length target)) d = Some (- 1, t))"

lemma ntop_ok_Nil:
  assumes "length target < 9223372036854775808"
  shows "ntop_ok [] target d"
proof -
  have "of_nat (unat d) = (ucast d :: u32)" by simp
  then show ?thesis
    using assms put_eq [of "unat d" target 0]
    by (auto simp: ntop_ok_def ntop_from_Nil word_le_nat_alt)
qed

lemma add_4:
  assumes "length target < 9223372036854775808" and "unat d \<le> length target"
  shows "unat (d + 4 :: size_t) = unat d + 4"
    and "d + 4 > of_nat (length target) \<longleftrightarrow> length target < unat d + 4"
    and "d + 4 \<ge> of_nat (length target) \<longleftrightarrow> length target \<le> unat d + 4"
proof -
  show "unat (d + 4) = unat d + 4" using assms no_wrap_64 [of d 4] by simp
  then show "d + 4 > of_nat (length target) \<longleftrightarrow> length target < unat d + 4"
    and "d + 4 \<ge> of_nat (length target) \<longleftrightarrow> length target \<le> unat d + 4"
    using assms by (simp_all add: word_less_nat_alt word_le_nat_alt)
qed

lemma ntop_ok_short:
  assumes "length target < 9223372036854775808" and "unat d \<le> length target"
    and "src = [a] \<or> src = [a, b]"
  shows "ntop_ok src target d"
proof -
  have len: "length (b64 src) = 4" using assms(3) by (auto simp: length_b64)
  note d4 = add_4 [OF assms(1,2)]
  have *: "ntop_from src target (of_nat (length target)) d =
    (if length target < unat d + 4 then Some (- 1, target)
     else Option.bind (puts (unat d) (b64 src) target)
            (\<lambda>t. if length target \<le> unat d + 4 then Some (- 1, t)
                 else Option.bind (put (unat d + 4) 0 t) (\<lambda>t. Some (ucast (d + 4), t))))"
    by (simp only: ntop_from_short [OF assms(3)] d4 cong: if_cong)
  show ?thesis
  proof (cases "length target < unat d + 4")
    case True
    then show ?thesis using * len by (simp add: ntop_ok_def)
  next
    case False
    then have "puts (unat d) (b64 src) target
        = Some (take (unat d) target @ b64 src @ drop (unat d + 4) target)"
      using puts_eq [of "unat d" "b64 src" target] len by simp
    moreover have "(ucast (d + 4) :: u32) = of_nat (unat d + 4)"
      using d4(1) by (metis of_nat_unat)
    ultimately show ?thesis
      using * len False by (simp add: ntop_ok_def put_eq)
  qed
qed

lemma ntop_ok_all:
  "length target < 9223372036854775808 \<Longrightarrow> unat d \<le> length target \<Longrightarrow> ntop_ok src target d"
proof (induction src arbitrary: target d rule: b64.induct)
  case 1
  then show ?case by (simp add: ntop_ok_Nil)
next
  case (2 a)
  then show ?case by (intro ntop_ok_short) auto
next
  case (3 a b)
  then show ?case by (intro ntop_ok_short) auto
next
  case (4 a b c src)
  note d4 = add_4 [OF 4(2,3)]
  have bs: "b64 (a # b # c # src) = quad a b c @ b64 src" and g: "length (quad a b c) = 4"
    by (rule b64_quad) (simp add: quad_def)
  show ?case
  proof (cases "length target < unat d + 4")
    case True
    then show ?thesis using d4 bs g by (simp add: ntop_ok_def ntop_from_step del: b64.simps)
  next
    case False
    let ?t = "take (unat d) target @ quad a b c @ drop (unat d + 4) target"
    have len: "length ?t = length target" using False g by simp
    have "puts (unat d) (quad a b c) target = Some ?t"
      using False puts_eq [of "unat d" "quad a b c" target] g by simp
    then have "ntop_from (a # b # c # src) target (of_nat (length target)) d
        = ntop_from src ?t (of_nat (length ?t)) (d + 4)"
      using False d4 len by (simp add: ntop_from_step)
    moreover have "ntop_ok src ?t (d + 4)"
      using 4 False len d4 by (intro 4(1)) simp_all
    moreover have "unat (d + 4) + length (b64 src) = unat d + length (b64 (a # b # c # src))"
      using d4 bs g by (simp del: b64.simps)
    moreover have "take (unat (d + 4)) ?t @ b64 src @ 0 # xs = take (unat d) target @ b64 (a # b # c # src) @ 0 # xs"
        for xs
      using d4 bs g False by (simp del: b64.simps)
    moreover have "drop (Suc (unat d + length (b64 (a # b # c # src)))) ?t
        = drop (Suc (unat d + length (b64 (a # b # c # src)))) target"
      using bs g False by (simp add: add.commute del: b64.simps)
    ultimately show ?thesis unfolding ntop_ok_def by (simp only: len)
  qed
qed

section \<open>The decoder\<close>

lemma or_plus:
  "push_bit 4 (take_bit 2 a) + drop_bit 4 b = push_bit 4 (take_bit 2 a) OR drop_bit 4 b"
  "push_bit 2 (take_bit 4 a) + drop_bit 6 b = push_bit 2 (take_bit 4 a) OR drop_bit 6 b"
  for a b :: byte
proof -
  have "push_bit 4 (take_bit 2 a) AND drop_bit 4 b = 0"
    by (intro bit_word_eqI) (auto simp: bit_simps dest: bit_imp_le_length)
  moreover have "push_bit 2 (take_bit 4 a) AND drop_bit 6 b = 0"
    by (intro bit_word_eqI) (auto simp: bit_simps dest: bit_imp_le_length)
  ultimately show
    "push_bit 4 (take_bit 2 a) + drop_bit 4 b = push_bit 4 (take_bit 2 a) OR drop_bit 4 b"
    "push_bit 2 (take_bit 4 a) + drop_bit 6 b = push_bit 2 (take_bit 4 a) OR drop_bit 6 b"
    by (simp_all add: or_disjoint_add)
qed

lemma rebuild:
  fixes a b c :: byte
  defines "o0 \<equiv> drop_bit 2 a" and "o1 \<equiv> push_bit 4 (a AND 0x03) + drop_bit 4 b"
    and "o2 \<equiv> push_bit 2 (b AND 0x0F) + drop_bit 6 c" and "o3 \<equiv> c AND 0x3F"
  shows "push_bit 2 o0 OR drop_bit 4 o1 = a"
    and "push_bit 4 (o1 AND 0x0F) OR drop_bit 2 o2 = b"
    and "push_bit 6 (o2 AND 0x03) OR o3 = c"
proof -
  have bit: "bit x n \<Longrightarrow> n < 8" for x :: byte and n
    using bit_imp_le_length [of x n] by simp
  show "push_bit 2 o0 OR drop_bit 4 o1 = a"
    unfolding o0_def o1_def byte_and_mask or_plus
  proof (rule bit_word_eqI)
    fix n
    have "2 \<le> n \<Longrightarrow> Suc (Suc (n - 2)) = n" by simp
    then show "bit (push_bit 2 (drop_bit 2 a) OR drop_bit 4 (push_bit 4 (take_bit 2 a) OR drop_bit 4 b)) n = bit a n"
      by (cases "n < 2") (auto simp: bit_simps dest: bit)
  qed
  show "push_bit 4 (o1 AND 0x0F) OR drop_bit 2 o2 = b"
    unfolding o1_def o2_def byte_and_mask or_plus
    by (intro bit_word_eqI) (auto simp: bit_simps dest: bit)
  show "push_bit 6 (o2 AND 0x03) OR o3 = c"
    unfolding o2_def o3_def byte_and_mask or_plus
    by (intro bit_word_eqI) (auto simp: bit_simps dest: bit)
qed

lemma length_Base64: "length Base64 = 64"
  by (simp add: Base64_def)

lemma distinct_Base64: "distinct Base64"
  by code_simp

lemma plain_Base64: "\<forall>ch\<in>set Base64. ch \<noteq> 0 \<and> \<not> isspace ch \<and> ch \<noteq> Pad64"
  by code_simp

lemma index_of_nth: "distinct xs \<Longrightarrow> i < length xs \<Longrightarrow> index_of xs (xs ! i) = Some i"
proof (induction xs arbitrary: i)
  case Nil
  then show ?case by simp
next
  case (Cons x xs)
  then show ?case by (cases i) (auto simp: in_set_conv_nth)
qed

lemma pton_digit:
  assumes "unat p < 64"
  shows "pton_loop (Base64 ! unat p # src) (Some T) targsize t st =
    Option.bind (pton_store st p t targsize T)
      (\<lambda>r. case r of
         None \<Rightarrow> Some (Inl (Some T))
       | Some T \<Rightarrow> pton_loop src (Some T) targsize (if st = 0 then t else t + 1)
                     (if st = 3 then 0 else Suc st))"
proof -
  have "Base64 ! unat p \<in> set Base64" using assms by (simp add: length_Base64)
  then have "Base64 ! unat p \<noteq> 0" "\<not> isspace (Base64 ! unat p)" "Base64 ! unat p \<noteq> Pad64"
    using plain_Base64 by auto
  moreover have "index_of Base64 (Base64 ! unat p) = Some (unat p)"
    using assms by (intro index_of_nth distinct_Base64) (simp add: length_Base64)
  ultimately show ?thesis
    by (cases "pton_store st p t targsize T") (auto split: option.split)
qed

lemma digit_bounds:
  "unat (drop_bit 2 a) < 64" "unat (push_bit 4 (a AND 0x03) + drop_bit 4 b) < 64"
  "unat (push_bit 2 (a AND 0x0F) + drop_bit 6 b) < 64" "unat (a AND 0x3F) < 64" for a b :: byte
proof -
  have "unat a div 4 < 64" "unat b div 16 < 16" "unat b div 64 < 4"
    using unat_lt_8 [of a] unat_lt_8 [of b] by (simp_all add: div_less_iff_less_mult del: unat_lt_8)
  moreover have "unat a mod 4 < 4" "unat a mod 16 < 16" "unat a mod 64 < 64" by simp_all
  ultimately have *: "unat a div 2 ^ 2 < 64" "unat a mod 4 * 16 + unat b div 16 < 64"
      "unat a mod 16 * 4 + unat b div 64 < 64" "unat a mod 2 ^ 6 < 64"
    by simp_all
  show "unat (drop_bit 2 a) < 64" "unat (push_bit 4 (a AND 0x03) + drop_bit 4 b) < 64"
    "unat (push_bit 2 (a AND 0x0F) + drop_bit 6 b) < 64" "unat (a AND 0x3F) < 64"
    unfolding unat_o1 unat_o2 byte_and_mask(3) unat_drop_bit_div unat_take_bit_mod by (rule *)+
qed



text \<open>The target is split at \<^verbatim>\<open>tarindex\<close>.\<close>

definition at_index :: "u32 \<Rightarrow> byte list \<Rightarrow> bool" where
  "at_index t pre \<longleftrightarrow> unat t = length pre \<and> length pre < 2147483648"

lemma at_index_Suc: "at_index t pre \<Longrightarrow> unat (t + 1) = Suc (length pre)"
  using unat_add_lem [of t 1] by (simp add: at_index_def)

lemma at_index_less:
  "at_index t pre \<Longrightarrow> length T < 9223372036854775808 \<Longrightarrow>
     (of_nat (length T) \<le> (ucast t :: size_t) \<longleftrightarrow> length T \<le> length pre)
   \<and> (of_nat (length T) \<le> (ucast (t + 1) :: size_t) \<longleftrightarrow> length T \<le> Suc (length pre))"
  using at_index_Suc [of t pre] by (simp add: word_le_nat_alt at_index_def)

lemma store_0:
  "at_index t pre \<Longrightarrow> T = pre @ x # ys \<Longrightarrow> L = length T \<Longrightarrow> L < 9223372036854775808 \<Longrightarrow>
   pton_store 0 p t (of_nat L) T = Some (Some (pre @ push_bit 2 p # ys))"
  using at_index_less [of t pre T] by (simp add: pton_store_def put_def at_index_def)

lemma store_1:
  "at_index t pre \<Longrightarrow> T = pre @ x # y # ys \<Longrightarrow> L = length T \<Longrightarrow> L < 9223372036854775808 \<Longrightarrow>
   pton_store 1 p t (of_nat L) T
   = Some (Some (pre @ (x OR drop_bit 4 p) # push_bit 4 (p AND 0x0F) # ys))"
  using at_index_less [of t pre T] at_index_Suc [of t pre]
  by (simp add: pton_store_def put_def get_def at_index_def nth_append list_update_append Let_def)

lemma store_2:
  "at_index t pre \<Longrightarrow> T = pre @ x # y # ys \<Longrightarrow> L = length T \<Longrightarrow> L < 9223372036854775808 \<Longrightarrow>
   pton_store 2 p t (of_nat L) T
   = Some (Some (pre @ (x OR drop_bit 2 p) # push_bit 6 (p AND 0x03) # ys))"
  using at_index_less [of t pre T] at_index_Suc [of t pre]
  by (simp add: pton_store_def put_def get_def at_index_def nth_append list_update_append Let_def)

lemma store_3:
  "at_index t pre \<Longrightarrow> T = pre @ x # ys \<Longrightarrow> L = length T \<Longrightarrow> L < 9223372036854775808 \<Longrightarrow>
   pton_store 3 p t (of_nat L) T = Some (Some (pre @ (x OR p) # ys))"
  using at_index_less [of t pre T]
  by (simp add: pton_store_def put_def get_def at_index_def nth_append list_update_append Let_def)

declare pton_loop.simps [simp del]

lemma pton_step:
  assumes "unat p < 64" and "pton_store st p t targsize T = Some (Some T')"
  shows "pton_loop (Base64 ! unat p # src) (Some T) targsize t st =
    pton_loop src (Some T') targsize (if st = 0 then t else t + 1) (if st = 3 then 0 else Suc st)"
  using assms by (simp add: pton_digit)

lemma at_index_next:
  "at_index t pre \<Longrightarrow> Suc (length pre) < 2147483648 \<Longrightarrow> at_index (t + 1) (pre @ [v])"
  using at_index_Suc [of t pre] by (simp add: at_index_def)

lemma pton_two:
  assumes t: "at_index t pre" and len: "L < 2147483648" and "unat p < 64" "unat q < 64"
    and L: "L = length (pre @ x # y # ys)"
  shows "pton_loop (Base64 ! unat p # Base64 ! unat q # rest) (Some (pre @ x # y # ys)) (of_nat L) t 0
    = pton_loop rest (Some (pre @ (push_bit 2 p OR drop_bit 4 q) # push_bit 4 (q AND 0x0F) # ys))
      (of_nat L) (t + 1) 2"
proof -
  have len: "L < 9223372036854775808" using len by linarith
  have s0: "pton_store 0 p t (of_nat L) (pre @ x # y # ys) = Some (Some (pre @ push_bit 2 p # y # ys))"
    by (rule store_0 [OF t refl L len])
  have s1: "pton_store 1 q t (of_nat L) (pre @ push_bit 2 p # y # ys)
      = Some (Some (pre @ (push_bit 2 p OR drop_bit 4 q) # push_bit 4 (q AND 0x0F) # ys))"
    by (rule store_1 [OF t refl _ len]) (simp add: L)
  show ?thesis
    using pton_step [OF assms(3) s0, of "Base64 ! unat q # rest"] pton_step [OF assms(4) s1, of rest]
    by (simp only: simp_thms if_True if_False) (simp add: numeral_2_eq_2)
qed

lemma pton_three:
  assumes t: "at_index t pre" and len: "L < 2147483648"
    and "unat p < 64" "unat q < 64" "unat r < 64" and L: "L = length (pre @ x # y # z # ys)"
  shows "pton_loop (Base64 ! unat p # Base64 ! unat q # Base64 ! unat r # rest)
      (Some (pre @ x # y # z # ys)) (of_nat L) t 0
    = pton_loop rest (Some (pre @ (push_bit 2 p OR drop_bit 4 q)
        # (push_bit 4 (q AND 0x0F) OR drop_bit 2 r) # push_bit 6 (r AND 0x03) # ys)) (of_nat L) (t + 1 + 1) 3"
proof -
  let ?v = "push_bit 2 p OR drop_bit 4 q"
  have at: "at_index (t + 1) (pre @ [?v])" using t len L by (intro at_index_next) auto
  have len': "L < 9223372036854775808" using len by linarith
  have "pton_store 2 r (t + 1) (of_nat L) ((pre @ [?v]) @ push_bit 4 (q AND 0x0F) # z # ys)
      = Some (Some ((pre @ [?v]) @ (push_bit 4 (q AND 0x0F) OR drop_bit 2 r) # push_bit 6 (r AND 0x03) # ys))"
    by (rule store_2 [OF at refl _ len']) (simp add: L)
  from pton_step [OF assms(5) this, of rest]
  show ?thesis
    unfolding pton_two [OF t len assms(3,4) L]
    by (simp only: append_assoc append_Cons append_Nil) (simp add: numeral_3_eq_3 numeral_2_eq_2)
qed

lemma pton_four:
  assumes t: "at_index t pre" and len: "L < 2147483648"
    and "unat p < 64" "unat q < 64" "unat r < 64" "unat s < 64" and L: "L = length (pre @ x # y # z # ys)"
  shows "pton_loop (Base64 ! unat p # Base64 ! unat q # Base64 ! unat r # Base64 ! unat s # rest)
      (Some (pre @ x # y # z # ys)) (of_nat L) t 0
    = pton_loop rest (Some (pre @ (push_bit 2 p OR drop_bit 4 q)
        # (push_bit 4 (q AND 0x0F) OR drop_bit 2 r) # (push_bit 6 (r AND 0x03) OR s) # ys))
        (of_nat L) (t + 1 + 1 + 1) 0"
proof -
  let ?v = "push_bit 2 p OR drop_bit 4 q" and ?w = "push_bit 4 (q AND 0x0F) OR drop_bit 2 r"
  have at: "at_index (t + 1 + 1) ((pre @ [?v]) @ [?w])"
    using t len L by (intro at_index_next) auto
  have len': "L < 9223372036854775808" using len by linarith
  have "pton_store 3 s (t + 1 + 1) (of_nat L) (((pre @ [?v]) @ [?w]) @ push_bit 6 (r AND 0x03) # ys)
      = Some (Some (((pre @ [?v]) @ [?w]) @ (push_bit 6 (r AND 0x03) OR s) # ys))"
    by (rule store_3 [OF at refl _ len']) (simp add: L)
  from pton_step [OF assms(6) this, of rest]
  show ?thesis
    unfolding pton_three [OF t len assms(3,4,5) L]
    by (simp only: append_assoc append_Cons append_Nil) simp
qed



lemma pton_stop:
  "pton_loop (0 # src) T ts t st = Some (Inr (0, src, T, t, st))"
  "pton_loop (Pad64 # src) T ts t st = Some (Inr (Pad64, src, T, t, st))"
  by (simp_all add: pton_loop.simps Pad64_def isspace_def)

lemma skip_stop: "skip_spaces 0 src = Some (0, src)" "skip_spaces Pad64 src = Some (Pad64, src)"
  by (simp_all add: skip_spaces.simps [of 0] skip_spaces.simps [of 61] Pad64_def isspace_def)

lemma pad_bits:
  "push_bit 4 ((push_bit 4 (a AND 0x03) + drop_bit 4 0) AND 0x0F) = (0 :: byte)"
  "push_bit 6 ((push_bit 2 (a AND 0x0F) + drop_bit 6 0) AND 0x03) = (0 :: byte)"
  by (intro bit_word_eqI; auto simp: byte_and_mask bit_simps)+

definition pton_from :: "byte list \<Rightarrow> byte list option \<Rightarrow> size_t \<Rightarrow> u32 \<Rightarrow> (u32 \<times> byte list option) option" where
  "pton_from src target targsize t =
     do {
       r \<leftarrow> pton_loop src target targsize t 0;
       case r of
         Inl target \<Rightarrow> Some (- 1, target)
       | Inr (ch, src, target, tarindex, state) \<Rightarrow> do {
           ok \<leftarrow> (if ch = Pad64 then pton_trailer src target tarindex state else Some (state = 0));
           Some (if ok then tarindex else - 1, target)
         }
     }"

lemma pton_from_loop:
  "pton_loop src T ts t 0 = pton_loop src' T' ts t' 0 \<Longrightarrow> pton_from src T ts t = pton_from src' T' ts t'"
  by (simp add: pton_from_def)

lemma pton_from_pad:
  assumes "pton_loop src T ts t 0 = pton_loop (Pad64 # rest) (Some T') ts t' st"
    and "(st = 2 \<and> rest = [Pad64, 0]) \<or> (st = 3 \<and> rest = [0])"
    and "unat t' < length T'" and "T' ! unat t' = 0"
  shows "pton_from src T ts t = Some (t', Some T')"
  using assms
  by (auto simp: pton_from_def pton_stop pton_trailer_def next_char_def skip_stop get_def) 

definition decoded :: "byte list \<Rightarrow> byte list \<Rightarrow> byte list" where
  "decoded src ys = src @ (if 3 dvd length src then drop (length src) ys else 0 # drop (Suc (length src)) ys)"

lemma pton_ok:
  "\<lbrakk>at_index t pre; L = length (pre @ ys); L < 2147483648;
    length src + (if 3 dvd length src then 0 else 1) \<le> length ys\<rbrakk> \<Longrightarrow>
   pton_from (b64 src @ [0]) (Some (pre @ ys)) (of_nat L) t
   = Some (of_nat (length pre + length src), Some (pre @ decoded src ys))"
proof (induction src arbitrary: t pre ys rule: b64.induct)
  case 1
  then have "t = of_nat (length pre)" by (metis at_index_def of_nat_unat ucast_id)
  then show ?case by (simp add: pton_from_def pton_stop decoded_def Pad64_def)
next
  case (2 a)
  obtain x y zs where ys: "ys = x # y # zs"
    using 2(4) by (cases ys rule: b64.cases) (auto split: if_splits)
  have L: "L = length (pre @ x # y # zs)" using 2(2) ys by simp
  let ?T = "pre @ a # 0 # zs"
  have bs: "b64 [a] @ [0] = Base64 ! unat (drop_bit 2 a)
      # Base64 ! unat (push_bit 4 (a AND 0x03) + drop_bit 4 0) # [Pad64, Pad64, 0]"
    by (simp only: b64_quad quad_def numeral_2_eq_2 take_Suc_Cons take_0 append.simps)
  have "pton_loop (b64 [a] @ [0]) (Some (pre @ ys)) (of_nat L) t 0
      = pton_loop (Pad64 # [Pad64, 0]) (Some ?T) (of_nat L) (t + 1) 2"
    unfolding bs ys using pton_two [OF 2(1,3) digit_bounds(1,2) L, of a a 0 "[Pad64, Pad64, 0]"]
    by (simp only: rebuild(1) pad_bits)
  then have "pton_from (b64 [a] @ [0]) (Some (pre @ ys)) (of_nat L) t = Some (t + 1, Some ?T)"
    using at_index_Suc [OF 2(1)] by (intro pton_from_pad) (auto simp: nth_append)
  moreover have "t + 1 = of_nat (length pre + length [a])"
    using at_index_Suc [OF 2(1)] by (metis of_nat_unat ucast_id add.commute length_Cons list.size(3) plus_1_eq_Suc One_nat_def)
  ultimately show ?case using ys by (simp add: decoded_def)
next
  case (3 a b)
  have nd: "\<not> 3 dvd Suc (Suc 0)" by (simp add: nat_dvd_not_less)
  then obtain x y z zs where ys: "ys = x # y # z # zs"
    using 3(4) by (cases ys rule: b64.cases) (auto split: if_splits)
  have L: "L = length (pre @ x # y # z # zs)" using 3(2) ys by simp
  let ?T = "pre @ a # b # 0 # zs"
  have bs: "b64 [a, b] @ [0] = Base64 ! unat (drop_bit 2 a)
      # Base64 ! unat (push_bit 4 (a AND 0x03) + drop_bit 4 b)
      # Base64 ! unat (push_bit 2 (b AND 0x0F) + drop_bit 6 0) # [Pad64, 0]"
    by (simp only: b64_quad quad_def numeral_3_eq_3 take_Suc_Cons take_0 append.simps)
  have "pton_loop (b64 [a, b] @ [0]) (Some (pre @ ys)) (of_nat L) t 0
      = pton_loop (Pad64 # [0]) (Some ?T) (of_nat L) (t + 1 + 1) 3"
    unfolding bs ys using pton_three [OF 3(1,3) digit_bounds(1,2,3) L, of a a b b 0 "[Pad64, 0]"]
    by (simp only: rebuild(1,2) pad_bits)
  moreover have idx: "unat (t + 1 + 1) = Suc (Suc (length pre))"
    using at_index_Suc [OF at_index_next [OF 3(1), of a]] 3(3) L by simp
  ultimately have "pton_from (b64 [a, b] @ [0]) (Some (pre @ ys)) (of_nat L) t = Some (t + 1 + 1, Some ?T)"
    by (intro pton_from_pad) (auto simp: nth_append)
  moreover have "t + 1 + 1 = of_nat (Suc (Suc (length pre)))"
    using idx by (metis of_nat_unat ucast_id)
  ultimately show ?case using ys nd by (simp add: decoded_def del: b64.simps)
next
  case (4 a b c src)
  obtain x y z zs where ys: "ys = x # y # z # zs"
    using 4(5) by (cases ys rule: b64.cases) (auto split: if_splits)
  have L: "L = length (pre @ x # y # z # zs)" using 4(3) ys by simp
  have "length (a # b # c # src) = 3 + length src" by simp
  then have dvd: "3 dvd length (a # b # c # src) \<longleftrightarrow> 3 dvd length src"
    by (simp only: dvd_add_triv_left_iff)
  have bs: "b64 (a # b # c # src) @ [0] = Base64 ! unat (drop_bit 2 a)
      # Base64 ! unat (push_bit 4 (a AND 0x03) + drop_bit 4 b)
      # Base64 ! unat (push_bit 2 (b AND 0x0F) + drop_bit 6 c) # Base64 ! unat (c AND 0x3F) # b64 src @ [0]"
    by (simp only: b64_quad quad_def append.simps)
  have "pton_loop (b64 (a # b # c # src) @ [0]) (Some (pre @ ys)) (of_nat L) t 0
      = pton_loop (b64 src @ [0]) (Some (pre @ a # b # c # zs)) (of_nat L) (t + 1 + 1 + 1) 0"
    unfolding bs ys
    using pton_four [OF 4(2,4) digit_bounds(1,2,3,4) L, of a a b b c c "b64 src @ [0]"]
    by (simp only: rebuild)
  from pton_from_loop [OF this]
  have "pton_from (b64 (a # b # c # src) @ [0]) (Some (pre @ ys)) (of_nat L) t
      = pton_from (b64 src @ [0]) (Some ((pre @ [a, b, c]) @ zs)) (of_nat L) (t + 1 + 1 + 1)"
    by simp
  also have "\<dots> = Some (of_nat (length (pre @ [a, b, c]) + length src),
      Some ((pre @ [a, b, c]) @ decoded src zs))"
  proof (rule 4(1))
    show "at_index (t + 1 + 1 + 1) (pre @ [a, b, c])"
      using at_index_next [OF at_index_next [OF at_index_next [OF 4(2), of a], of b], of c] 4(4) L by simp
  qed (use L 4(4,5) ys dvd in auto)
  finally show ?case using dvd ys by (simp add: decoded_def)
qed

section \<open>Properties\<close>

lemma ex_b64: "b64 [77, 97, 110, 77] = [84, 87, 70, 117, 84, 81, 61, 61]"
proof -
  have "quad 77 97 110 @ take 2 (quad 77 0 0) @ [Pad64, Pad64] = [84, 87, 70, 117, 84, 81, 61, 61]"
    by code_simp
  then show ?thesis by (simp only: b64_quad)
qed

text \<open>
  C9. The encoder writes the RFC 1521 encoding of its input and a terminating zero, returns
  the encoding's length, and leaves the rest of the target as it was, whenever the encoding
  and the zero fit into the target.
\<close>

theorem f_b64_ntop_encodes:
  assumes "length target < 9223372036854775808" and "length (b64 src) < length target"
  shows "f_b64_ntop src target (of_nat (length target))
    = Some (of_nat (length (b64 src)), b64 src @ 0 # drop (Suc (length (b64 src))) target)"
  using ntop_ok_all [of target 0 src] assms by (simp add: ntop_ok_def ntop_from_0)

theorem f_b64_ntop_encodes_witness:
  "f_b64_ntop [77, 97, 110, 77] [7, 7, 7, 7, 7, 7, 7, 7, 7, 7] 10
    = Some (8, [84, 87, 70, 117, 84, 81, 61, 61, 0, 7])"
  using ex_b64 f_b64_ntop_encodes [of "[7, 7, 7, 7, 7, 7, 7, 7, 7, 7]" "[77, 97, 110, 77]"]
  by (simp del: b64.simps)

text \<open>
  C10. If the encoding and its terminating zero do not fit into the target the encoder
  returns -1, and it never writes outside the target.
\<close>

theorem f_b64_ntop_too_small:
  assumes "length target < 9223372036854775808" and "length target \<le> length (b64 src)"
  shows "\<exists>t. f_b64_ntop src target (of_nat (length target)) = Some (- 1, t)"
  using ntop_ok_all [of target 0 src] assms by (simp add: ntop_ok_def ntop_from_0)

theorem f_b64_ntop_too_small_witness:
  "\<exists>t. f_b64_ntop [77, 97, 110] [7, 7, 7, 7] 4 = Some (- 1, t)"
  using f_b64_ntop_too_small [of "[7, 7, 7, 7]" "[77, 97, 110]"] by (simp add: length_b64)

text \<open>
  C11. Round trip: the decoder gives back what the encoder wrote, with its length, provided
  that the target has room for the data and, if the data ends within a group of three bytes,
  for one byte more.
\<close>

theorem f_b64_pton_decodes:
  assumes "length target < 2147483648"
    and "length src + (if 3 dvd length src then 0 else 1) \<le> length target"
  shows "f_b64_pton (b64 src @ [0]) (Some target) (of_nat (length target))
    = Some (of_nat (length src), Some (decoded src target))"
proof -
  have "f_b64_pton (b64 src @ [0]) (Some target) (of_nat (length target))
      = pton_from (b64 src @ [0]) (Some ([] @ target)) (of_nat (length target)) 0"
    by (simp add: f_b64_pton_def pton_from_def)
  also have "\<dots> = Some (of_nat (length ([] :: byte list) + length src), Some ([] @ decoded src target))"
    using assms by (intro pton_ok) (simp_all add: at_index_def)
  finally show ?thesis by simp
qed

theorem f_b64_pton_decodes_witness:
  "f_b64_pton [84, 87, 70, 117, 84, 81, 61, 61, 0] (Some [7, 7, 7, 7, 7, 7]) 6
    = Some (4, Some [77, 97, 110, 77, 0, 7])"
proof -
  have "decoded [77, 97, 110, 77] [7, 7, 7, 7, 7, 7] = [77, 97, 110, 77, 0, 7]" by code_simp
  then show ?thesis
    using ex_b64 f_b64_pton_decodes [of "[7, 7, 7, 7, 7, 7]" "[77, 97, 110, 77]"]
    by (simp del: b64.simps)
qed

end
