(* ===== verification/LDB_Coding.thy ===== *)
theory LDB_Coding
  imports Bytes
begin

text \<open>
  \<^verbatim>\<open>util/coding.h\<close> and \<^verbatim>\<open>util/coding.cc\<close> of
  \<^verbatim>\<open>src/MovieDBApp/Pods/leveldb-library\<close>: integers and length-prefixed strings in byte
  strings.

  A \<^verbatim>\<open>std::string\<close> or a \<^verbatim>\<open>Slice\<close> is the list of its bytes. A pair of pointers \<open>p\<close>,
  \<open>limit\<close> is the list of the bytes between them; a pointer function returns \<^const>\<open>None\<close>
  for \<^verbatim>\<open>nullptr\<close>, otherwise the value and the bytes from the returned pointer on. The
  functions on \<^verbatim>\<open>Slice*\<close> return the value, if there is one, and the slice afterwards.

  The encoders are shown to write the reference encodings of the theory on byte strings,
  and the decoders to agree with the reference decoder on arbitrary input.
\<close>

section \<open>Fixed width\<close>

definition kLittleEndian :: bool where
  "kLittleEndian = True"

definition EncodeFixed32 :: "u32 \<Rightarrow> byte list" where
  "EncodeFixed32 value =
     (if kLittleEndian then le_bytes 4 value
      else [ucast (value AND 0xff), ucast (drop_bit 8 value AND 0xff),
            ucast (drop_bit 16 value AND 0xff), ucast (drop_bit 24 value AND 0xff)])"

definition EncodeFixed64 :: "u64 \<Rightarrow> byte list" where
  "EncodeFixed64 value =
     (if kLittleEndian then le_bytes 8 value
      else [ucast (value AND 0xff), ucast (drop_bit 8 value AND 0xff),
            ucast (drop_bit 16 value AND 0xff), ucast (drop_bit 24 value AND 0xff),
            ucast (drop_bit 32 value AND 0xff), ucast (drop_bit 40 value AND 0xff),
            ucast (drop_bit 48 value AND 0xff), ucast (drop_bit 56 value AND 0xff)])"

definition PutFixed32 :: "byte list \<Rightarrow> u32 \<Rightarrow> byte list" where
  "PutFixed32 dst value = dst @ EncodeFixed32 value"

definition PutFixed64 :: "byte list \<Rightarrow> u64 \<Rightarrow> byte list" where
  "PutFixed64 dst value = dst @ EncodeFixed64 value"

text \<open>The decoders do no bounds check: fewer bytes than they read are undefined behaviour.\<close>

definition DecodeFixed32 :: "byte list \<Rightarrow> u32 option" where
  "DecodeFixed32 p =
     (if length p < 4 then None
      else if kLittleEndian then Some (le_word (take 4 p))
      else Some (ucast (p ! 0) OR push_bit 8 (ucast (p ! 1)) OR push_bit 16 (ucast (p ! 2))
                 OR push_bit 24 (ucast (p ! 3))))"

definition DecodeFixed64 :: "byte list \<Rightarrow> u64 option" where
  "DecodeFixed64 p =
     (if length p < 8 then None
      else if kLittleEndian then Some (le_word (take 8 p))
      else do {
        lo \<leftarrow> DecodeFixed32 p;
        hi \<leftarrow> DecodeFixed32 (drop 4 p);
        Some (push_bit 32 (ucast hi) OR ucast lo)
      })"

section \<open>Varints\<close>

text \<open>The assignments to \<^verbatim>\<open>*(ptr++)\<close> keep the low eight bits.\<close>

definition EncodeVarint32 :: "u32 \<Rightarrow> byte list" where
  "EncodeVarint32 v =
     (let B = 128 in
      if v < push_bit 7 1 then [ucast v]
      else if v < push_bit 14 1 then [ucast (v OR B), ucast (drop_bit 7 v)]
      else if v < push_bit 21 1 then
        [ucast (v OR B), ucast (drop_bit 7 v OR B), ucast (drop_bit 14 v)]
      else if v < push_bit 28 1 then
        [ucast (v OR B), ucast (drop_bit 7 v OR B), ucast (drop_bit 14 v OR B),
         ucast (drop_bit 21 v)]
      else
        [ucast (v OR B), ucast (drop_bit 7 v OR B), ucast (drop_bit 14 v OR B),
         ucast (drop_bit 21 v OR B), ucast (drop_bit 28 v)])"

definition PutVarint32 :: "byte list \<Rightarrow> u32 \<Rightarrow> byte list" where
  "PutVarint32 dst v = dst @ EncodeVarint32 v"

lemma drop_7_less: "128 \<le> v \<Longrightarrow> unat (drop_bit 7 v) < unat v" for v :: u64
  by (simp add: unat_drop_bit_div word_le_nat_alt)

function EncodeVarint64 :: "u64 \<Rightarrow> byte list" where
  "EncodeVarint64 v =
     (if v \<ge> 128 then ucast (v OR 128) # EncodeVarint64 (drop_bit 7 v) else [ucast v])"
  by pat_completeness auto
termination
  by (relation "measure unat") (simp_all add: drop_7_less)

declare EncodeVarint64.simps [simp del]

definition PutVarint64 :: "byte list \<Rightarrow> u64 \<Rightarrow> byte list" where
  "PutVarint64 dst v = dst @ EncodeVarint64 v"

text \<open>\<^verbatim>\<open>PutVarint32(dst, value.size())\<close> passes a \<^verbatim>\<open>size_t\<close> as a \<^verbatim>\<open>uint32_t\<close>.\<close>

definition PutLengthPrefixedSlice :: "byte list \<Rightarrow> byte list \<Rightarrow> byte list" where
  "PutLengthPrefixedSlice dst value = PutVarint32 dst (ucast (of_nat (length value) :: size_t)) @ value"

function VarintLength_loop :: "u64 \<Rightarrow> int \<Rightarrow> int" where
  "VarintLength_loop v len = (if v \<ge> 128 then VarintLength_loop (drop_bit 7 v) (len + 1) else len)"
  by pat_completeness auto
termination
  by (relation "measure (\<lambda>(v, len). unat v)") (simp_all add: drop_7_less)

declare VarintLength_loop.simps [simp del]

definition VarintLength :: "u64 \<Rightarrow> int" where
  "VarintLength v = VarintLength_loop v 1"

text \<open>
  The loop the two decoders have, for a result of either width: \<open>limit\<close> is the largest
  shift the loop condition allows.
\<close>

primrec varint_ptr_loop :: "nat \<Rightarrow> byte list \<Rightarrow> 'a::len word \<Rightarrow> nat \<Rightarrow> ('a word \<times> byte list) option" where
  "varint_ptr_loop limit [] result shift = None"
| "varint_ptr_loop limit (b # p) result shift =
     (if \<not> shift \<le> limit then None
      else let byte = ucast b :: 'a word in
        if byte AND 128 \<noteq> 0
        then varint_ptr_loop limit p (result OR push_bit shift (byte AND 127)) (shift + 7)
        else Some (result OR push_bit shift byte, p))"

definition GetVarint32PtrFallback :: "byte list \<Rightarrow> (u32 \<times> byte list) option" where
  "GetVarint32PtrFallback p = varint_ptr_loop 28 p 0 0"

definition GetVarint32Ptr :: "byte list \<Rightarrow> (u32 \<times> byte list) option" where
  "GetVarint32Ptr p =
     (case p of
        b # p' \<Rightarrow> let result = ucast b :: u32 in
          if result AND 128 = 0 then Some (result, p') else GetVarint32PtrFallback p
      | [] \<Rightarrow> GetVarint32PtrFallback p)"

definition GetVarint64Ptr :: "byte list \<Rightarrow> (u64 \<times> byte list) option" where
  "GetVarint64Ptr p = varint_ptr_loop 63 p 0 0"

definition GetVarint32 :: "byte list \<Rightarrow> u32 option \<times> byte list" where
  "GetVarint32 input =
     (case GetVarint32Ptr input of None \<Rightarrow> (None, input) | Some (value, q) \<Rightarrow> (Some value, q))"

definition GetVarint64 :: "byte list \<Rightarrow> u64 option \<times> byte list" where
  "GetVarint64 input =
     (case GetVarint64Ptr input of None \<Rightarrow> (None, input) | Some (value, q) \<Rightarrow> (Some value, q))"

section \<open>Length-prefixed strings\<close>

definition GetLengthPrefixedSlicePtr :: "byte list \<Rightarrow> (byte list \<times> byte list) option" where
  "GetLengthPrefixedSlicePtr p =
     (case GetVarint32Ptr p of
        None \<Rightarrow> None
      | Some (len, p) \<Rightarrow>
          if unat len > length p then None else Some (take (unat len) p, drop (unat len) p))"

text \<open>When the length is there but the bytes are not, the length has been consumed.\<close>

definition GetLengthPrefixedSlice :: "byte list \<Rightarrow> byte list option \<times> byte list" where
  "GetLengthPrefixedSlice input =
     (case GetVarint32 input of
        (None, input) \<Rightarrow> (None, input)
      | (Some len, input) \<Rightarrow>
          if length input \<ge> unat len then (Some (take (unat len) input), drop (unat len) input)
          else (None, input))"

section \<open>Agreement with the reference encodings\<close>

lemma EncodeFixed32_eq [simp]: "EncodeFixed32 v = le_bytes 4 v"
  by (simp add: EncodeFixed32_def kLittleEndian_def)

lemma EncodeFixed64_eq [simp]: "EncodeFixed64 v = le_bytes 8 v"
  by (simp add: EncodeFixed64_def kLittleEndian_def)

lemma DecodeFixed32_le_bytes [simp]: "DecodeFixed32 (le_bytes 4 v @ rest) = Some v"
  by (simp add: DecodeFixed32_def kLittleEndian_def)

lemma DecodeFixed64_le_bytes [simp]: "DecodeFixed64 (le_bytes 8 v @ rest) = Some v"
  by (simp add: DecodeFixed64_def kLittleEndian_def)

text \<open>An array of fixed-width numbers, as filter blocks and data blocks have at their end.\<close>

definition fixed32_array :: "u32 list \<Rightarrow> byte list" where
  "fixed32_array ws = concat (map (le_bytes 4) ws)"

lemma fixed32_array_simps [simp]:
  "fixed32_array [] = []" "fixed32_array (w # ws) = le_bytes 4 w @ fixed32_array ws"
  "fixed32_array (vs @ ws) = fixed32_array vs @ fixed32_array ws"
  by (simp_all add: fixed32_array_def)

lemma length_fixed32_array [simp]: "length (fixed32_array ws) = 4 * length ws"
  by (induction ws) simp_all

lemma fold_PutFixed32: "fold (\<lambda>w dst. PutFixed32 dst w) ws dst = dst @ fixed32_array ws"
  by (induction ws arbitrary: dst) (simp_all add: PutFixed32_def)

lemma DecodeFixed32_array:
  "i < length ws \<Longrightarrow> DecodeFixed32 (drop (length pre + 4 * i) (pre @ fixed32_array ws @ rest)) = Some (ws ! i)"
proof -
  assume i: "i < length ws"
  have "fixed32_array ws = fixed32_array (take i ws) @ le_bytes 4 (ws ! i) @ fixed32_array (drop (Suc i) ws)"
    using id_take_nth_drop [OF i] by (metis append_Cons append_Nil fixed32_array_simps(2,3))
  moreover have "length (fixed32_array (take i ws)) = 4 * i" using i by simp
  ultimately show ?thesis by (simp del: length_fixed32_array fixed32_array_simps(3))
qed

lemma bit_128: "bit (128 :: 'a::len word) n \<longleftrightarrow> n = 7 \<and> n < LENGTH('a)"
proof -
  have "(128 :: 'a word) = 2 ^ 7" by simp
  then show ?thesis by (simp only: bit_exp_iff possible_bit_word) auto
qed

lemma bit_127: "bit (127 :: 'a::len word) n \<longleftrightarrow> n < 7 \<and> n < LENGTH('a)"
proof -
  have "(127 :: 'a word) = mask 7" by (simp add: mask_eq_exp_minus_1)
  then show ?thesis by (simp only: bit_mask_iff possible_bit_word) auto
qed

lemma or_128: "8 \<le> LENGTH('a) \<Longrightarrow> of_nat (unat v mod 128 + 128) = (ucast (v OR 128) :: byte)"
  for v :: "'a::len word"
proof -
  assume len: "8 \<le> LENGTH('a)"
  have "ucast (v OR 128) = (ucast (take_bit 7 v) OR 128 :: byte)"
    using len by (intro bit_word_eqI) (auto simp: bit_simps bit_128)
  moreover have "ucast (take_bit 7 v) AND (128 :: byte) = 0"
    by (rule bit_word_eqI) (auto simp: bit_simps bit_128)
  moreover have "of_nat (unat (take_bit 7 v)) = (of_nat (unat v mod 128) :: byte)"
    by (simp only: unat_take_bit_mod) simp
  ultimately show ?thesis by (simp add: or_disjoint_add)
qed

text \<open>The reference, read on words.\<close>

lemma varint_word:
  fixes v :: "'a::len word"
  assumes "8 \<le> LENGTH('a)"
  shows "varint (unat v)
    = (if v < 128 then [ucast v] else ucast (v OR 128) # varint (unat (drop_bit 7 v)))"
proof -
  have "(2 :: nat) ^ 8 \<le> 2 ^ LENGTH('a)" using assms by (rule power_increasing) simp
  then have "unat (of_nat 128 :: 'a word) = 128" by (simp only: unat_of_nat) simp
  then show ?thesis
    using or_128 [OF assms, of v]
    by (simp add: varint.simps [of "unat v"] word_less_nat_alt unat_drop_bit_div)
qed

lemma EncodeVarint32_eq [simp]: "EncodeVarint32 v = varint (unat v)"
proof -
  have less: "drop_bit k v < 128 \<longleftrightarrow> v < 2 ^ (k + 7)" if "k + 7 < 32" for k
  proof -
    have "(2 :: nat) ^ (k + 7) < 2 ^ 32" using that by (intro power_strict_increasing) auto
    then have "unat (of_nat (2 ^ (k + 7)) :: u32) = 2 ^ (k + 7)" by (intro unat_of_nat_32) simp
    then have "unat (2 ^ (k + 7) :: u32) = 2 ^ k * 128" by (simp add: power_add)
    then show ?thesis
      by (simp add: word_less_nat_alt unat_drop_bit_div div_less_iff_less_mult mult.commute)
  qed
  have last: "drop_bit 28 v < 128"
    using unat_lt_32 [of v] by (simp add: word_less_nat_alt unat_drop_bit_div div_less_iff_less_mult del: unat_lt_32)
  show ?thesis
    using less [of 7] less [of 14] less [of 21] last
    by (simp add: EncodeVarint32_def Let_def varint_word [of v] varint_word [of "drop_bit 7 v"]
        varint_word [of "drop_bit 14 v"] varint_word [of "drop_bit 21 v"] varint_word [of "drop_bit 28 v"])
qed

lemma EncodeVarint64_eq [simp]: "EncodeVarint64 v = varint (unat v)"
proof (induction v rule: EncodeVarint64.induct)
  case (1 v)
  then show ?case
    by (cases "128 \<le> v") (simp_all add: EncodeVarint64.simps [of v] varint_word [of v] not_less [symmetric])
qed

lemma VarintLength_loop_eq:
  "VarintLength_loop v len = len + int (length (varint (unat v))) - 1"
proof (induction v len rule: VarintLength_loop.induct)
  case (1 v len)
  then show ?case
    by (cases "128 \<le> v") (simp_all add: VarintLength_loop.simps [of v] varint_word [of v] not_less [symmetric])
qed

lemma VarintLength_eq [simp]: "VarintLength v = int (length (varint (unat v)))"
  by (simp add: VarintLength_def VarintLength_loop_eq)

text \<open>The decoders read what the reference decoder reads from the bytes the loop allows.\<close>

lemma ucast_and_127: "ucast b AND 127 = (ucast (b AND 0x7F) :: 'a::len word)"
  for b :: byte
  by (rule bit_word_eqI) (auto simp: bit_simps bit_127 dest: bit_imp_le_length)

lemma ucast_and_128: "8 \<le> LENGTH('a) \<Longrightarrow> (ucast b AND 128 = (0 :: 'a::len word)) \<longleftrightarrow> unat b < 128"
  for b :: byte
proof -
  assume len: "8 \<le> LENGTH('a)"
  have exp: "(128 :: 'b::len word) = 2 ^ 7" by simp
  have "ucast b AND 128 = (0 :: 'a word) \<longleftrightarrow> b AND 128 = 0"
    unfolding exp and_exp_eq_0_iff_not_bit using len by (auto simp: bit_simps)
  then show ?thesis by (simp add: and_80)
qed

lemma varint_ptr_loop_spec:
  fixes r :: "'a::len word"
  assumes "8 \<le> LENGTH('a)" and "take_bit (7 * j) r = r" and "j \<le> Suc m"
  shows "varint_ptr_loop (7 * m) bs r (7 * j)
    = map_option (\<lambda>(n, rest). (r + of_nat n * 2 ^ (7 * j), rest @ drop (Suc m - j) bs))
        (unvarint (take (Suc m - j) bs))"
  using assms(2,3)
proof (induction bs arbitrary: r j)
  case Nil
  then show ?case by simp
next
  case (Cons b bs)
  show ?case
  proof (cases "j \<le> m")
    case False
    then show ?thesis using Cons.prems by simp
  next
    case True
    then have take: "take (Suc m - j) (b # bs) = b # take (m - j) bs"
      "drop (Suc m - j) (b # bs) = drop (m - j) bs"
      by (simp_all add: Suc_diff_le)
    show ?thesis
    proof (cases "unat b < 128")
      case small: True
      then show ?thesis
        using True take or_push_add [OF Cons.prems(1), of "ucast b"]
        by (simp add: ucast_and_128 assms(1))
    next
      case False
      let ?r = "r OR push_bit (7 * j) (ucast (b AND 0x7F))"
      have fixed: "take_bit (7 * Suc j) ?r = ?r"
        using take_bit_or_push [OF Cons.prems(1) take_bit_7_ucast [of b]] by (simp add: add.commute)
      have r: "?r = r + of_nat (unat b mod 128) * 2 ^ (7 * j)"
        using or_push_add [OF Cons.prems(1), of "ucast (b AND 0x7F)"] by (simp only: and_7F_byte)
      have sum: "?r + of_nat n * 2 ^ (7 * Suc j) = r + of_nat (unat b mod 128 + 128 * n) * 2 ^ (7 * j)" for n
        unfolding r by (simp add: power_add distrib_right)
      have "varint_ptr_loop (7 * m) bs ?r (7 * Suc j)
          = map_option (\<lambda>(n, rest). (r + of_nat (unat b mod 128 + 128 * n) * 2 ^ (7 * j), rest @ drop (m - j) bs))
              (unvarint (take (m - j) bs))"
        using Cons.IH [OF fixed] True by (simp only: sum Suc_le_mono diff_Suc_Suc)
      then show ?thesis
        using True False take
        by (simp add: ucast_and_128 ucast_and_127 assms(1) option.map_comp o_def split_def add.commute)
    qed
  qed
qed

lemma GetVarint32PtrFallback_spec:
  "GetVarint32PtrFallback p
     = map_option (\<lambda>(n, rest). (of_nat n, rest @ drop 5 p)) (unvarint (take 5 p))"
  using varint_ptr_loop_spec [of 0 "0 :: u32" 4 p] by (simp add: GetVarint32PtrFallback_def)

lemma GetVarint64Ptr_spec:
  "GetVarint64Ptr p = map_option (\<lambda>(n, rest). (of_nat n, rest @ drop 10 p)) (unvarint (take 10 p))"
  using varint_ptr_loop_spec [of 0 "0 :: u64" 9 p] by (simp add: GetVarint64Ptr_def)

lemma GetVarint32Ptr_eq: "GetVarint32Ptr p = GetVarint32PtrFallback p"
  by (cases p) (auto simp: GetVarint32Ptr_def GetVarint32PtrFallback_def Let_def)

text \<open>What the readers leave is not longer, and a varint takes a byte at least.\<close>

lemma GetVarint32_shorter: "GetVarint32 input = (Some v, rest) \<Longrightarrow> length rest < length input"
  using unvarint_shorter [of "take 5 input"]
  by (auto simp: GetVarint32_def GetVarint32Ptr_eq GetVarint32PtrFallback_spec split: option.splits)

lemma GetVarint32_le: "length (snd (GetVarint32 input)) \<le> length input"
  using GetVarint32_shorter [of input] by (cases "GetVarint32 input") (auto simp: GetVarint32_def less_imp_le split: option.splits)

lemma GetVarint64_le: "length (snd (GetVarint64 input)) \<le> length input"
proof -
  have "length rest + (length input - 10) \<le> length input" if "unvarint (take 10 input) = Some (n, rest)" for n rest
    using unvarint_shorter [OF that] by (cases "length input \<le> 10") simp_all
  then show ?thesis by (auto simp: GetVarint64_def GetVarint64Ptr_spec split: option.splits)
qed

lemma GetLengthPrefixedSlice_le: "length (snd (GetLengthPrefixedSlice input)) \<le> length input"
  using GetVarint32_le [of input] by (cases "GetVarint32 input") (auto simp: GetLengthPrefixedSlice_def split: option.splits)

lemmas readers_le = GetVarint32_le GetVarint64_le GetLengthPrefixedSlice_le

section \<open>Round trips\<close>

lemma unvarint_take: "length (varint n) \<le> k \<Longrightarrow> unvarint (take k (varint n @ rest))
    = Some (n, take (k - length (varint n)) rest)"
  by (simp add: unvarint_varint)

lemma GetVarint32Ptr_varint [simp]: "GetVarint32Ptr (varint (unat v) @ rest) = Some (v, rest)"
  using length_varint_u32 [of v]
  by (simp add: GetVarint32Ptr_eq GetVarint32PtrFallback_spec unvarint_varint)

lemma GetVarint64Ptr_varint [simp]: "GetVarint64Ptr (varint (unat v) @ rest) = Some (v, rest)"
  using length_varint_u64 [of v] by (simp add: GetVarint64Ptr_spec unvarint_varint)

lemma GetVarint32_varint [simp]: "GetVarint32 (varint (unat v) @ rest) = (Some v, rest)"
  by (simp add: GetVarint32_def)

lemma GetVarint64_varint [simp]: "GetVarint64 (varint (unat v) @ rest) = (Some v, rest)"
  by (simp add: GetVarint64_def)

lemma ucast_of_nat_64_32: "n < 4294967296 \<Longrightarrow> ucast (of_nat n :: u64) = (of_nat n :: u32)"
  by (simp add: unsigned_of_nat take_bit_nat_eq_self)

lemma PutLengthPrefixedSlice_eq:
  "length s < 4294967296 \<Longrightarrow> PutLengthPrefixedSlice dst s = dst @ varint (length s) @ s"
  by (simp add: PutLengthPrefixedSlice_def PutVarint32_def ucast_of_nat_64_32)

lemma GetVarint32_length:
  "n < 4294967296 \<Longrightarrow> GetVarint32 (varint n @ rest) = (Some (of_nat n), rest)"
  "n < 4294967296 \<Longrightarrow> GetVarint32Ptr (varint n @ rest) = Some (of_nat n, rest)"
  using GetVarint32_varint [of "of_nat n" rest] GetVarint32Ptr_varint [of "of_nat n" rest] by simp_all

lemma GetLengthPrefixedSlice_varint [simp]:
  "length s < 4294967296 \<Longrightarrow> GetLengthPrefixedSlice (varint (length s) @ s @ rest) = (Some s, rest)"
  by (simp add: GetLengthPrefixedSlice_def GetVarint32_length)

lemma GetLengthPrefixedSlicePtr_varint [simp]:
  "length s < 4294967296 \<Longrightarrow> GetLengthPrefixedSlicePtr (varint (length s) @ s @ rest) = Some (s, rest)"
  by (simp add: GetLengthPrefixedSlicePtr_def GetVarint32_length)

text \<open>
  C30. What the encoders append the decoders read back, whatever follows: fixed-width integers,
  varints of both widths and length-prefixed strings; and \<^verbatim>\<open>VarintLength\<close> is the number of
  bytes of the varint.
\<close>

theorem coding_roundtrip:
  assumes "length s < 4294967296"
  shows "DecodeFixed32 (PutFixed32 [] v @ rest) = Some v
    \<and> DecodeFixed64 (PutFixed64 [] w @ rest) = Some w
    \<and> GetVarint32 (PutVarint32 [] v @ rest) = (Some v, rest)
    \<and> GetVarint64 (PutVarint64 [] w @ rest) = (Some w, rest)
    \<and> GetLengthPrefixedSlice (PutLengthPrefixedSlice [] s @ rest) = (Some s, rest)
    \<and> VarintLength w = int (length (PutVarint64 [] w))"
  using assms
  by (simp add: PutFixed32_def PutFixed64_def PutVarint32_def PutVarint64_def PutLengthPrefixedSlice_eq)

theorem coding_roundtrip_witness:
  "GetLengthPrefixedSlice (PutLengthPrefixedSlice [] [7, 8, 9] @ [1]) = (Some [7, 8, 9], [1])"
  using coding_roundtrip [of "[7, 8, 9]" 0 "[1]" 0] by simp

text \<open>
  C31. On arbitrary bytes the varint decoders are the reference decoder on the first five or
  ten bytes, its value taken modulo the width: they accept a varint exactly if it ends within
  those bytes, read nothing after it, and on failure leave the slice as it was.
\<close>

theorem varint_decoders_exact:
  "GetVarint32 input = (case unvarint (take 5 input) of
       None \<Rightarrow> (None, input) | Some (n, rest) \<Rightarrow> (Some (of_nat n), rest @ drop 5 input))
   \<and> GetVarint64 input = (case unvarint (take 10 input) of
       None \<Rightarrow> (None, input) | Some (n, rest) \<Rightarrow> (Some (of_nat n), rest @ drop 10 input))"
  by (auto simp: GetVarint32_def GetVarint64_def GetVarint32Ptr_eq GetVarint32PtrFallback_spec
      GetVarint64Ptr_spec split: option.splits)

end
