(* ===== verification/LDB_Slice.thy ===== *)
theory LDB_Slice
  imports LDB_Coding
begin

text \<open>
  \<^verbatim>\<open>include/leveldb/slice.h\<close>, \<^verbatim>\<open>include/leveldb/status.h\<close> and
  \<^verbatim>\<open>util/status.cc\<close> of \<^verbatim>\<open>src/MovieDBApp/Pods/leveldb-library\<close>: byte strings with their
  order, and the result type of every operation that can fail.

  A slice is the list of its bytes; a status is its \<^verbatim>\<open>state_\<close>, \<^const>\<open>None\<close> for the null
  pointer of success and otherwise the array of length, code and message. Messages are
  taken to be shorter than four gigabytes altogether.
\<close>

section \<open>Slices\<close>

text \<open>A string literal, and \<^verbatim>\<open>memcmp\<close>, of which only the sign is specified.\<close>

definition cstr :: "string \<Rightarrow> byte list" where
  "cstr s = map of_char s"

fun memcmp :: "byte list \<Rightarrow> byte list \<Rightarrow> nat \<Rightarrow> int" where
  "memcmp (a # as) (b # bs) (Suc n) = (if a = b then memcmp as bs n else uint a - uint b)"
| "memcmp as bs n = 0"

definition remove_prefix :: "nat \<Rightarrow> byte list \<Rightarrow> byte list" where
  "remove_prefix n s = drop n s"

definition starts_with :: "byte list \<Rightarrow> byte list \<Rightarrow> bool" where
  "starts_with s x \<longleftrightarrow> length s \<ge> length x \<and> memcmp s x (length x) = 0"

definition slice_eq :: "byte list \<Rightarrow> byte list \<Rightarrow> bool" where
  "slice_eq x y \<longleftrightarrow> length x = length y \<and> memcmp x y (length x) = 0"

definition slice_compare :: "byte list \<Rightarrow> byte list \<Rightarrow> int" where
  "slice_compare a b =
     (let min_len = (if length a < length b then length a else length b);
          r = memcmp a b min_len
      in if r = 0 then if length a < length b then - 1 else if length a > length b then 1 else r
         else r)"

section \<open>Status\<close>

type_synonym Status = "byte list option"

definition kOk :: byte where "kOk = 0"
definition kNotFound :: byte where "kNotFound = 1"
definition kCorruption :: byte where "kCorruption = 2"
definition kNotSupported :: byte where "kNotSupported = 3"
definition kInvalidArgument :: byte where "kInvalidArgument = 4"
definition kIOError :: byte where "kIOError = 5"

definition Status_OK :: Status where
  "Status_OK = None"

definition Status_new :: "byte \<Rightarrow> byte list \<Rightarrow> byte list \<Rightarrow> Status" where
  "Status_new code msg msg2 =
     (let len1 = of_nat (length msg) :: u32; len2 = of_nat (length msg2) :: u32;
          size = len1 + (if len2 \<noteq> 0 then 2 + len2 else 0)
      in Some (le_bytes 4 size @ [code] @ take (unat len1) msg
           @ (if len2 \<noteq> 0 then cstr '': '' @ take (unat len2) msg2 else [])))"

definition NotFound :: "byte list \<Rightarrow> byte list \<Rightarrow> Status" where
  "NotFound msg msg2 = Status_new kNotFound msg msg2"

definition Corruption :: "byte list \<Rightarrow> byte list \<Rightarrow> Status" where
  "Corruption msg msg2 = Status_new kCorruption msg msg2"

definition NotSupported :: "byte list \<Rightarrow> byte list \<Rightarrow> Status" where
  "NotSupported msg msg2 = Status_new kNotSupported msg msg2"

definition InvalidArgument :: "byte list \<Rightarrow> byte list \<Rightarrow> Status" where
  "InvalidArgument msg msg2 = Status_new kInvalidArgument msg msg2"

definition IOError :: "byte list \<Rightarrow> byte list \<Rightarrow> Status" where
  "IOError msg msg2 = Status_new kIOError msg msg2"

definition ok :: "Status \<Rightarrow> bool" where
  "ok s \<longleftrightarrow> s = None"

definition Status_code :: "Status \<Rightarrow> byte" where
  "Status_code s = (case s of None \<Rightarrow> kOk | Some state \<Rightarrow> state ! 4)"

definition IsNotFound :: "Status \<Rightarrow> bool" where
  "IsNotFound s \<longleftrightarrow> Status_code s = kNotFound"

definition IsCorruption :: "Status \<Rightarrow> bool" where
  "IsCorruption s \<longleftrightarrow> Status_code s = kCorruption"

definition IsIOError :: "Status \<Rightarrow> bool" where
  "IsIOError s \<longleftrightarrow> Status_code s = kIOError"

definition IsNotSupportedError :: "Status \<Rightarrow> bool" where
  "IsNotSupportedError s \<longleftrightarrow> Status_code s = kNotSupported"

definition IsInvalidArgument :: "Status \<Rightarrow> bool" where
  "IsInvalidArgument s \<longleftrightarrow> Status_code s = kInvalidArgument"

text \<open>\<^verbatim>\<open>CopyState\<close> copies as many bytes as the length at the front says.\<close>

definition CopyState :: "byte list \<Rightarrow> byte list" where
  "CopyState state = take (unat (le_word (take 4 state) + 5 :: u32)) state"

definition Status_copy :: "Status \<Rightarrow> Status" where
  "Status_copy rhs = (case rhs of None \<Rightarrow> None | Some state \<Rightarrow> Some (CopyState state))"

text \<open>\<^verbatim>\<open>%d\<close> of a number that is not negative.\<close>

fun decimal :: "nat \<Rightarrow> byte list" where
  "decimal n = (if n < 10 then [of_nat (48 + n)] else decimal (n div 10) @ [of_nat (48 + n mod 10)])"

declare decimal.simps [simp del]

definition Status_ToString :: "Status \<Rightarrow> byte list" where
  "Status_ToString s =
     (case s of
        None \<Rightarrow> cstr ''OK''
      | Some state \<Rightarrow>
          let code = Status_code s;
              type = (if code = kOk then cstr ''OK''
                      else if code = kNotFound then cstr ''NotFound: ''
                      else if code = kCorruption then cstr ''Corruption: ''
                      else if code = kNotSupported then cstr ''Not implemented: ''
                      else if code = kInvalidArgument then cstr ''Invalid argument: ''
                      else if code = kIOError then cstr ''IO error: ''
                      else cstr ''Unknown code('' @ decimal (unat code) @ cstr ''): '');
              length = le_word (take 4 state) :: u32
          in type @ take (unat length) (drop 5 state))"

section \<open>Facts on slices\<close>

text \<open>The reference order: lexicographic by unsigned bytes, a prefix before its extensions.\<close>

fun bytes_less :: "byte list \<Rightarrow> byte list \<Rightarrow> bool" where
  "bytes_less [] (b # bs) = True"
| "bytes_less as [] = False"
| "bytes_less (a # as) (b # bs) = (a < b \<or> a = b \<and> bytes_less as bs)"

lemma memcmp_0 [simp]: "memcmp as bs 0 = 0"
  by (cases as; cases bs) auto

lemma slice_compare_Cons:
  "slice_compare (a # as) (b # bs) = (if a = b then slice_compare as bs else uint a - uint b)"
  by (simp add: slice_compare_def Let_def word_uint_eq_iff)

lemma slice_compare_less: "slice_compare a b < 0 \<longleftrightarrow> bytes_less a b"
  and slice_compare_greater: "slice_compare a b > 0 \<longleftrightarrow> bytes_less b a"
  and slice_compare_eq: "slice_compare a b = 0 \<longleftrightarrow> a = b"
proof (induction a b rule: bytes_less.induct)
  case (3 a as b bs)
  {
    case 1
    then show ?case using 3 by (simp add: slice_compare_Cons word_less_def)
  next
    case 2
    then show ?case using 3 by (auto simp: slice_compare_Cons word_less_def)
  next
    case 3
    then show ?case using "3.IH" by (simp add: slice_compare_Cons word_uint_eq_iff)
  }
next
  case (2 as)
  case 1
  then show ?case by (cases as) (simp_all add: slice_compare_def)
next
  case (2 as)
  case 2
  then show ?case by (cases as) (simp_all add: slice_compare_def)
next
  case (2 as)
  case 3
  then show ?case by (cases as) (simp_all add: slice_compare_def)
qed (simp_all add: slice_compare_def)

lemma bytes_less_irrefl [simp]: "\<not> bytes_less a a"
  by (induction a) auto

lemma bytes_less_trans: "bytes_less a b \<Longrightarrow> bytes_less b c \<Longrightarrow> bytes_less a c"
proof (induction a b arbitrary: c rule: bytes_less.induct)
  case (1 b bs)
  then show ?case by (cases c) auto
next
  case (3 a as b bs)
  then show ?case by (cases c) auto
qed simp

lemma bytes_less_total: "bytes_less a b \<or> a = b \<or> bytes_less b a"
proof (induction a b rule: bytes_less.induct)
  case (2 as)
  then show ?case by (cases as) auto
qed auto

lemma memcmp_take: "memcmp as bs n = 0 \<longleftrightarrow> take n as = take n bs" if "n \<le> length as" "n \<le> length bs"
  using that by (induction as bs n rule: memcmp.induct) (auto simp: word_uint_eq_iff)

lemma starts_with_eq: "starts_with s x \<longleftrightarrow> take (length x) s = x"
proof -
  have "take (length x) s = x \<Longrightarrow> length x \<le> length s"
    using length_take [of "length x" s] by (metis min.cobounded1)
  then show ?thesis by (auto simp: starts_with_def memcmp_take)
qed

lemma slice_eq_eq: "slice_eq x y \<longleftrightarrow> x = y"
  by (auto simp: slice_eq_def memcmp_take)

lemma ok_OK [simp]: "ok Status_OK"
  by (simp add: ok_def Status_OK_def)

lemma not_ok_new [simp]: "\<not> ok (Status_new code msg msg2)"
  by (simp add: ok_def Status_new_def Let_def)

lemma length_cstr [simp]: "length (cstr s) = length s"
  by (simp add: cstr_def)

end
