(* ===== verification/LDB_Logging.thy ===== *)
theory LDB_Logging
  imports LDB_Slice
begin

text \<open>
  \<^verbatim>\<open>util/logging.cc\<close> of \<^verbatim>\<open>src/MovieDBApp/Pods/leveldb-library\<close>: numbers and printable
  strings in file names and messages.

  Parsing a number is the inverse of printing it, stops at the first byte that is not a
  digit and rejects exactly the numbers of more than 64 bits.
\<close>

definition AppendNumberTo :: "byte list \<Rightarrow> u64 \<Rightarrow> byte list" where
  "AppendNumberTo str num = str @ decimal (unat num)"

definition hex_digit :: "nat \<Rightarrow> byte" where
  "hex_digit n = (if n < 10 then of_nat (48 + n) else of_nat (87 + n))"

text \<open>One round of the loop; the comparisons are of signed characters.\<close>

definition escape_char :: "byte \<Rightarrow> byte list" where
  "escape_char c =
     (if sint c \<ge> 32 \<and> sint c \<le> 126 then [c]
      else [92, 120, hex_digit (unat c div 16), hex_digit (unat c mod 16)])"

definition AppendEscapedStringTo :: "byte list \<Rightarrow> byte list \<Rightarrow> byte list" where
  "AppendEscapedStringTo str value = fold (\<lambda>c str. str @ escape_char c) value str"

definition NumberToString :: "u64 \<Rightarrow> byte list" where
  "NumberToString num = AppendNumberTo [] num"

definition EscapeString :: "byte list \<Rightarrow> byte list" where
  "EscapeString value = AppendEscapedStringTo [] value"

definition kMaxUint64 :: u64 where "kMaxUint64 = - 1"
definition kLastDigitOfMaxUint64 :: byte where "kLastDigitOfMaxUint64 = 48 + ucast (kMaxUint64 mod 10)"

text \<open>The loop: \<^const>\<open>None\<close> for the early return, else the value and the digits consumed.\<close>

fun consume_loop :: "byte list \<Rightarrow> u64 \<Rightarrow> nat \<Rightarrow> (u64 \<times> nat) option" where
  "consume_loop [] value consumed = Some (value, consumed)"
| "consume_loop (ch # s) value consumed =
     (if ch < 48 \<or> ch > 57 then Some (value, consumed)
      else if value > kMaxUint64 div 10 \<or> (value = kMaxUint64 div 10 \<and> ch > kLastDigitOfMaxUint64) then None
      else consume_loop s (value * 10 + ucast (ch - 48)) (Suc consumed))"

text \<open>
  The result of the function, the value it stores if it does, and the slice afterwards. On
  overflow nothing is stored and the slice stays.
\<close>

definition ConsumeDecimalNumber :: "byte list \<Rightarrow> bool \<times> u64 option \<times> byte list" where
  "ConsumeDecimalNumber s =
     (case consume_loop s 0 0 of
        None \<Rightarrow> (False, None, s)
      | Some (value, digits_consumed) \<Rightarrow>
          (digits_consumed \<noteq> 0, Some value, remove_prefix digits_consumed s))"

section \<open>Digits\<close>

definition is_digit :: "byte \<Rightarrow> bool" where
  "is_digit b \<longleftrightarrow> 48 \<le> b \<and> b \<le> 57"

definition digits_value :: "nat \<Rightarrow> byte list \<Rightarrow> nat" where
  "digits_value n bs = foldl (\<lambda>n b. n * 10 + (unat b - 48)) n bs"

lemma digits_value_simps [simp]:
  "digits_value n [] = n" "digits_value n (b # bs) = digits_value (n * 10 + (unat b - 48)) bs"
  "digits_value n (as @ bs) = digits_value (digits_value n as) bs"
  by (simp_all add: digits_value_def)

lemma digits_value_mono: "n \<le> digits_value n bs"
proof (induction bs arbitrary: n)
  case (Cons b bs)
  show ?case using Cons [of "n * 10 + (unat b - 48)"] by simp
qed simp

lemma is_digit_of_nat: "d < 10 \<Longrightarrow> is_digit (of_nat (48 + d))"
proof -
  assume "d < 10"
  then have "unat (of_nat (48 + d) :: byte) = 48 + d" by (simp only: unat_byte_of_nat)
  then show ?thesis using \<open>d < 10\<close> by (simp only: is_digit_def word_le_nat_alt) simp
qed

lemma decimal_digits: "\<forall>b\<in>set (decimal n). is_digit b"
proof (induction n rule: decimal.induct)
  case (1 n)
  then show ?case
    using is_digit_of_nat [of n] is_digit_of_nat [of "n mod 10"] by (subst decimal.simps) auto
qed

lemma decimal_value: "digits_value 0 (decimal n) = n"
proof (induction n rule: decimal.induct)
  case (1 n)
  then show ?case
    using unat_byte_of_nat [of "48 + n"] unat_byte_of_nat [of "48 + n mod 10"]
    by (subst decimal.simps) (auto simp del: of_nat_add)
qed

lemma decimal_not_Nil [simp]: "decimal n \<noteq> []"
  by (subst decimal.simps) simp

lemma digit_word: "is_digit b \<Longrightarrow> unat (ucast (b - 48) :: u64) = unat b - 48"
proof -
  assume b: "is_digit b"
  then have "unat (b - 48) = unat b - 48" by (simp add: is_digit_def unat_sub)
  moreover have "unat b < 2 ^ 8" using b by (simp add: is_digit_def word_le_nat_alt)
  ultimately show ?thesis by (simp add: unsigned_ucast_eq take_bit_nat_eq_self)
qed

text \<open>The overflow test, on numbers.\<close>

lemma overflow_test:
  fixes v :: u64
  assumes "is_digit b"
  shows "(v > kMaxUint64 div 10 \<or> (v = kMaxUint64 div 10 \<and> b > kLastDigitOfMaxUint64))
    \<longleftrightarrow> \<not> unat v * 10 + (unat b - 48) < 18446744073709551616"
proof -
  have "kMaxUint64 div 10 = 1844674407370955161" "kLastDigitOfMaxUint64 = 53"
    by (simp_all add: kMaxUint64_def kLastDigitOfMaxUint64_def)
  then show ?thesis
    using assms by (auto simp: is_digit_def word_less_nat_alt word_le_nat_alt word_unat_eq_iff)
qed

lemma consume_loop_eq:
  assumes "\<forall>b\<in>set ds. is_digit b" and "rest = [] \<or> \<not> is_digit (hd rest)"
  shows "consume_loop (ds @ rest) v k =
    (if digits_value (unat v) ds < 18446744073709551616
     then Some (of_nat (digits_value (unat v) ds), k + length ds) else None)"
  using assms(1)
proof (induction ds arbitrary: v k)
  case Nil
  show ?case using assms(2) by (cases rest) (auto simp: is_digit_def not_le)
next
  case (Cons b ds)
  let ?n = "unat v * 10 + (unat b - 48)"
  have b: "\<not> (b < 48 \<or> b > 57)" using Cons.prems by (auto simp: is_digit_def not_less)
  have d: "is_digit b" using Cons.prems by simp
  show ?case
  proof (cases "?n < 18446744073709551616")
    case True
    have n: "unat (v * 10 + ucast (b - 48)) = ?n"
      using True by (simp add: unat_word_ariths digit_word [OF d])
    show ?thesis
      using True Cons.IH [of "v * 10 + ucast (b - 48)" "Suc k"] Cons.prems
      by (simp add: b overflow_test [OF d] n)
  next
    case False
    then show ?thesis
      using digits_value_mono [of ?n ds] by (simp add: b overflow_test [OF d])
  qed
qed

lemma ConsumeDecimalNumber_digits:
  assumes "\<forall>b\<in>set ds. is_digit b" and "rest = [] \<or> \<not> is_digit (hd rest)"
  shows "ConsumeDecimalNumber (ds @ rest) =
    (if digits_value 0 ds < 18446744073709551616 then (ds \<noteq> [], Some (of_nat (digits_value 0 ds)), rest)
     else (False, None, ds @ rest))"
  using consume_loop_eq [OF assms, of 0 0] by (simp add: ConsumeDecimalNumber_def remove_prefix_def)

lemma ConsumeDecimalNumber_decimal:
  assumes "rest = [] \<or> \<not> is_digit (hd rest)"
  shows "ConsumeDecimalNumber (decimal (unat num) @ rest) = (True, Some num, rest)"
  using ConsumeDecimalNumber_digits [OF decimal_digits assms, of "unat num"] by (simp add: decimal_value)

text \<open>
  Reading a decimal number: of any byte string the digits at the front are taken; their
  value is stored if there is at least one and the value fits into 64 bits, otherwise the
  result is false, and on overflow the slice is left alone. A number that was printed is
  read back.
\<close>

lemma ConsumeDecimalNumber_exact:
  "ConsumeDecimalNumber s =
     (let ds = takeWhile is_digit s in
      if digits_value 0 ds < 2 ^ 64 then (ds \<noteq> [], Some (of_nat (digits_value 0 ds)), dropWhile is_digit s)
      else (False, None, s))
   \<and> fst (snd (ConsumeDecimalNumber (NumberToString num))) = Some num"
proof
  have "dropWhile is_digit s = [] \<or> \<not> is_digit (hd (dropWhile is_digit s))"
    by (metis hd_dropWhile)
  then show "ConsumeDecimalNumber s =
     (let ds = takeWhile is_digit s in
      if digits_value 0 ds < 2 ^ 64 then (ds \<noteq> [], Some (of_nat (digits_value 0 ds)), dropWhile is_digit s)
      else (False, None, s))"
    using ConsumeDecimalNumber_digits [of "takeWhile is_digit s" "dropWhile is_digit s"] set_takeWhileD [of _ is_digit s]
    by (simp add: Let_def)
  show "fst (snd (ConsumeDecimalNumber (NumberToString num))) = Some num"
    using ConsumeDecimalNumber_decimal [of "[]" num] by (simp add: NumberToString_def AppendNumberTo_def)
qed

end
