(* ===== verification/LDB_Filename.thy ===== *)
theory LDB_Filename
  imports LDB_Logging
begin


text \<open>\<^verbatim>\<open>%06llu\<close>, and \<^verbatim>\<open>snprintf\<close> into 100 bytes.\<close>

definition decimal6 :: "u64 \<Rightarrow> byte list" where
  "decimal6 number = (let ds = decimal (unat number) in replicate (6 - length ds) 48 @ ds)"












section \<open>Names are recognised\<close>




lemma decimal6_not_Nil [simp]: "decimal6 n \<noteq> []"
  by (simp add: decimal6_def Let_def)




lemma cstr_not_digit: "is_digit (of_char c) \<longleftrightarrow> of_char c \<in> {48..57::byte}"
  by (simp add: is_digit_def)







end
