(* ===== verification/LDB_Comparator.thy ===== *)
theory LDB_Comparator
  imports LDB_Slice
begin

text \<open>
  \<^verbatim>\<open>include/leveldb/comparator.h\<close> and \<^verbatim>\<open>util/comparator.cc\<close> of
  \<^verbatim>\<open>src/MovieDBApp/Pods/leveldb-library\<close>: the order of keys as an interface, and the
  bytewise order.

  A comparator is the record of its virtual functions; those that change a string return
  it, and \<^const>\<open>None\<close> is a key the comparator has no meaning for (an assertion fails). The
  locale is what the header asks of a comparator: a total order of the keys it is for, and
  separators that lie between.
\<close>

record Comparator =
  cmp_Name :: "byte list"
  cmp_Compare :: "byte list \<Rightarrow> byte list \<Rightarrow> int option"
  cmp_FindShortestSeparator :: "byte list \<Rightarrow> byte list \<Rightarrow> byte list option"
  cmp_FindShortSuccessor :: "byte list \<Rightarrow> byte list option"

locale comparator =
  fixes cmp :: Comparator and key_ok :: "byte list \<Rightarrow> bool" and lt :: "byte list \<Rightarrow> byte list \<Rightarrow> bool"
  assumes Compare_total: "key_ok a \<Longrightarrow> key_ok b \<Longrightarrow>
      \<exists>r. cmp_Compare cmp a b = Some r \<and> (r < 0 \<longleftrightarrow> lt a b) \<and> (r = 0 \<longleftrightarrow> a = b) \<and> (r > 0 \<longleftrightarrow> lt b a)"
    and less_trans: "key_ok a \<Longrightarrow> key_ok b \<Longrightarrow> key_ok c \<Longrightarrow> lt a b \<Longrightarrow> lt b c \<Longrightarrow> lt a c"
    and separator: "key_ok start \<Longrightarrow> key_ok limit \<Longrightarrow>
      \<exists>s. cmp_FindShortestSeparator cmp start limit = Some s \<and> key_ok s
        \<and> (if lt start limit then \<not> lt s start \<and> lt s limit else s = start)"
    and successor: "key_ok key \<Longrightarrow> \<exists>s. cmp_FindShortSuccessor cmp key = Some s \<and> key_ok s \<and> \<not> lt s key"
begin

lemma less_irrefl: "key_ok a \<Longrightarrow> \<not> lt a a"
  using Compare_total [of a a] by auto

lemma less_asym: "key_ok a \<Longrightarrow> key_ok b \<Longrightarrow> lt a b \<Longrightarrow> \<not> lt b a"
  using Compare_total [of a b] by auto

lemma less_linear: "key_ok a \<Longrightarrow> key_ok b \<Longrightarrow> lt a b \<or> a = b \<or> lt b a"
  using Compare_total [of a b] by auto

lemma less_le_trans: "key_ok a \<Longrightarrow> key_ok b \<Longrightarrow> key_ok c \<Longrightarrow> lt a b \<Longrightarrow> \<not> lt c b \<Longrightarrow> lt a c"
  using less_linear [of b c] less_trans [of a b c] by auto

lemma le_less_trans: "key_ok a \<Longrightarrow> key_ok b \<Longrightarrow> key_ok c \<Longrightarrow> \<not> lt b a \<Longrightarrow> lt b c \<Longrightarrow> lt a c"
  using less_linear [of a b] less_trans [of a b c] by auto

end

section \<open>The bytewise comparator\<close>

definition Bytewise_Name :: "byte list" where
  "Bytewise_Name = cstr ''leveldb.BytewiseComparator''"

definition Bytewise_Compare :: "byte list \<Rightarrow> byte list \<Rightarrow> int option" where
  "Bytewise_Compare a b = Some (slice_compare a b)"

text \<open>The length of the common prefix, up to \<open>min_length\<close>.\<close>

fun common_prefix :: "nat \<Rightarrow> byte list \<Rightarrow> byte list \<Rightarrow> nat" where
  "common_prefix (Suc n) (a # as) (b # bs) = (if a = b then Suc (common_prefix n as bs) else 0)"
| "common_prefix n as bs = 0"

text \<open>The sum \<^verbatim>\<open>diff_byte + 1\<close> is of \<^verbatim>\<open>int\<close>s.\<close>

definition Bytewise_FindShortestSeparator :: "byte list \<Rightarrow> byte list \<Rightarrow> byte list option" where
  "Bytewise_FindShortestSeparator start limit =
     (let min_length = min (length start) (length limit);
          diff_index = common_prefix min_length start limit
      in if diff_index \<ge> min_length then Some start
         else let diff_byte = start ! diff_index in
           if diff_byte < 0xff \<and> uint diff_byte + 1 < uint (limit ! diff_index)
           then Some (take (diff_index + 1) (start[diff_index := start ! diff_index + 1]))
           else Some start)"

fun successor_loop :: "byte list \<Rightarrow> byte list" where
  "successor_loop [] = []"
| "successor_loop (byte # key) = (if byte \<noteq> 0xff then [byte + 1] else byte # successor_loop key)"

definition Bytewise_FindShortSuccessor :: "byte list \<Rightarrow> byte list option" where
  "Bytewise_FindShortSuccessor key = Some (successor_loop key)"

definition BytewiseComparator :: Comparator where
  "BytewiseComparator =
     \<lparr>cmp_Name = Bytewise_Name, cmp_Compare = Bytewise_Compare,
      cmp_FindShortestSeparator = Bytewise_FindShortestSeparator,
      cmp_FindShortSuccessor = Bytewise_FindShortSuccessor\<rparr>"

section \<open>The contract\<close>

lemma separator_Cons:
  "Bytewise_FindShortestSeparator (a # as) (b # bs) =
     (if a = b then map_option (Cons a) (Bytewise_FindShortestSeparator as bs)
      else if a < 0xff \<and> uint a + 1 < uint b then Some [a + 1] else Some (a # as))"
  by (simp add: Bytewise_FindShortestSeparator_def Let_def)

lemma byte_Suc: "uint (a::byte) + 1 < uint b \<Longrightarrow> a < a + 1 \<and> a + 1 < b"
proof -
  assume "uint a + 1 < uint b"
  then have "int (unat a) + 1 < int (unat b)" by (simp only: uint_nat)
  then have "unat a + 1 < unat b" by linarith
  moreover have "unat b < 256" by (rule unat_lt_8)
  ultimately show ?thesis by (simp add: word_less_nat_alt unat_word_ariths)
qed

lemma separator_between:
  "\<exists>s. Bytewise_FindShortestSeparator start limit = Some s
    \<and> (if bytes_less start limit then \<not> bytes_less s start \<and> bytes_less s limit \<and> length s \<le> length start else s = start)"
proof (induction start limit rule: bytes_less.induct)
  case (3 a as b bs)
  show ?case
  proof (cases "a = b")
    case True
    then show ?thesis using 3 by (auto simp: separator_Cons)
  next
    case False
    have "\<not> (uint a + 1 < uint b) \<or> a < a + 1 \<and> a + 1 < b" using byte_Suc by blast
    then show ?thesis using False by (auto simp: separator_Cons)
  qed
qed (auto simp: Bytewise_FindShortestSeparator_def Let_def elim: bytes_less.elims)

lemma successor_above: "\<not> bytes_less (successor_loop key) key \<and> length (successor_loop key) \<le> length key"
proof (induction key)
  case (Cons a key)
  have "a \<noteq> 0xff \<Longrightarrow> \<not> a + 1 < a \<and> a + 1 \<noteq> a"
    using unat_lt_8 [of a] by (auto simp: word_less_nat_alt unat_word_ariths word_unat_eq_iff)
  then show ?case using Cons by auto
qed simp

interpretation bytewise: comparator BytewiseComparator "\<lambda>_. True" bytes_less
proof
  show "bytes_less a b \<Longrightarrow> bytes_less b c \<Longrightarrow> bytes_less a c" for a b c by (rule bytes_less_trans)
  show "\<exists>r. cmp_Compare BytewiseComparator a b = Some r \<and> (r < 0) = bytes_less a b \<and> (r = 0) = (a = b) \<and> (0 < r) = bytes_less b a" for a b
    by (simp add: BytewiseComparator_def Bytewise_Compare_def slice_compare_less slice_compare_eq slice_compare_greater)
  show "\<exists>s. cmp_FindShortestSeparator BytewiseComparator start limit = Some s \<and> True \<and>
      (if bytes_less start limit then \<not> bytes_less s start \<and> bytes_less s limit else s = start)" for start limit
    using separator_between [of start limit] by (auto simp: BytewiseComparator_def split: if_splits)
  show "\<exists>s. cmp_FindShortSuccessor BytewiseComparator key = Some s \<and> True \<and> \<not> bytes_less s key" for key
    using successor_above [of key] by (simp add: BytewiseComparator_def Bytewise_FindShortSuccessor_def)
qed

end
