(* ===== verification/LDB_Filter_Policy.thy ===== *)
theory LDB_Filter_Policy
  imports LDB_Slice
begin

text \<open>
  \<^verbatim>\<open>include/leveldb/filter_policy.h\<close>: the interface of a filter policy. An object is the
  record of its virtual functions; the locale is what the header asks of them. \<open>most\<close> is
  the largest number of keys for which the policy keeps its promise.
\<close>

record FilterPolicy =
  fp_Name :: "byte list"
  fp_CreateFilter :: "byte list list \<Rightarrow> byte list \<Rightarrow> byte list"
  fp_KeyMayMatch :: "byte list \<Rightarrow> byte list \<Rightarrow> bool"

locale filter_policy =
  fixes policy :: FilterPolicy and most :: nat
  assumes CreateFilter_appends: "fp_CreateFilter policy keys dst = dst @ fp_CreateFilter policy keys []"
    and KeyMayMatch_created: "key \<in> set keys \<Longrightarrow> length keys \<le> most
      \<Longrightarrow> fp_KeyMayMatch policy key (fp_CreateFilter policy keys [])"

end
