(* ===== verification/LDB_Options.thy ===== *)
theory LDB_Options
  imports LDB_Comparator LDB_Filter_Policy
begin

text \<open>
  \<^verbatim>\<open>include/leveldb/options.h\<close> and \<^verbatim>\<open>util/options.cc\<close> of
  \<^verbatim>\<open>src/MovieDBApp/Pods/leveldb-library\<close>: the options the modelled parts read, with their
  defaults. An \<^verbatim>\<open>int\<close> that is a count is an integer.
\<close>

definition kNoCompression :: byte where "kNoCompression = 0x0"
definition kSnappyCompression :: byte where "kSnappyCompression = 0x1"

record Options =
  opt_comparator :: Comparator
  opt_create_if_missing :: bool
  opt_error_if_exists :: bool
  opt_paranoid_checks :: bool
  opt_write_buffer_size :: nat
  opt_max_open_files :: int
  opt_block_size :: nat
  opt_block_restart_interval :: int
  opt_max_file_size :: nat
  opt_compression :: byte
  opt_reuse_logs :: bool
  opt_filter_policy :: "FilterPolicy option"

definition Options_new :: Options where
  "Options_new =
     \<lparr>opt_comparator = BytewiseComparator, opt_create_if_missing = False, opt_error_if_exists = False,
      opt_paranoid_checks = False, opt_write_buffer_size = 4 * 1024 * 1024, opt_max_open_files = 1000,
      opt_block_size = 4 * 1024, opt_block_restart_interval = 16, opt_max_file_size = 2 * 1024 * 1024,
      opt_compression = kSnappyCompression, opt_reuse_logs = False, opt_filter_policy = None\<rparr>"

record ReadOptions =
  ro_verify_checksums :: bool
  ro_fill_cache :: bool

definition ReadOptions_new :: ReadOptions where
  "ReadOptions_new = \<lparr>ro_verify_checksums = False, ro_fill_cache = True\<rparr>"

end
