(* ===== verification/LDB_Iterator.thy ===== *)
theory LDB_Iterator
  imports LDB_Comparator
begin

text \<open>
  \<^verbatim>\<open>include/leveldb/iterator.h\<close> and \<^verbatim>\<open>table/iterator.cc\<close> of
  \<^verbatim>\<open>src/MovieDBApp/Pods/leveldb-library\<close>: iterators over sorted sequences of entries.

  A class of iterators is the record of its virtual functions on the state of an iterator;
  \<^const>\<open>None\<close> is undefined behaviour, a failed assertion or a call that does not return. The
  locale says what it is to iterate over a list of entries: \<open>stands it p\<close> relates a state
  to a position, the length of the list standing for an iterator that is not valid.
\<close>

record 'i Iterator =
  i_Valid :: "'i \<Rightarrow> bool"
  i_SeekToFirst :: "'i \<Rightarrow> 'i option"
  i_SeekToLast :: "'i \<Rightarrow> 'i option"
  i_Seek :: "'i \<Rightarrow> byte list \<Rightarrow> 'i option"
  i_Next :: "'i \<Rightarrow> 'i option"
  i_Prev :: "'i \<Rightarrow> 'i option"
  i_key :: "'i \<Rightarrow> byte list option"
  i_value :: "'i \<Rightarrow> byte list option"
  i_status :: "'i \<Rightarrow> Status"

type_synonym entry = "byte list \<times> byte list"

definition first_ge :: "(byte list \<Rightarrow> byte list \<Rightarrow> bool) \<Rightarrow> byte list \<Rightarrow> entry list \<Rightarrow> nat" where
  "first_ge lt target es = length (takeWhile (\<lambda>e. lt (fst e) target) es)"

locale iterator =
  fixes ops :: "'i Iterator" and es :: "entry list" and stands :: "'i \<Rightarrow> nat \<Rightarrow> bool"
    and key_ok :: "byte list \<Rightarrow> bool" and lt :: "byte list \<Rightarrow> byte list \<Rightarrow> bool"
  assumes Valid_iff: "stands it p \<Longrightarrow> i_Valid ops it \<longleftrightarrow> p < length es"
    and key_eq: "stands it p \<Longrightarrow> p < length es \<Longrightarrow> i_key ops it = Some (fst (es ! p))"
    and value_eq: "stands it p \<Longrightarrow> p < length es \<Longrightarrow> i_value ops it = Some (snd (es ! p))"
    and status_ok: "stands it p \<Longrightarrow> ok (i_status ops it)"
    and SeekToFirst_stands: "stands it p \<Longrightarrow> \<exists>it'. i_SeekToFirst ops it = Some it' \<and> stands it' 0"
    and SeekToLast_stands: "stands it p \<Longrightarrow> \<exists>it'. i_SeekToLast ops it = Some it' \<and> stands it' (length es - 1)"
    and Seek_stands: "stands it p \<Longrightarrow> key_ok target \<Longrightarrow>
      \<exists>it'. i_Seek ops it target = Some it' \<and> stands it' (first_ge lt target es)"
    and Next_stands: "stands it p \<Longrightarrow> p < length es \<Longrightarrow> \<exists>it'. i_Next ops it = Some it' \<and> stands it' (Suc p)"
    and Prev_stands: "stands it p \<Longrightarrow> p < length es \<Longrightarrow>
      \<exists>it'. i_Prev ops it = Some it' \<and> stands it' (if p = 0 then length es else p - 1)"

section \<open>Empty iterators\<close>

record EmptyIterator =
  ei_status :: Status

definition EmptyIterator_ops :: "EmptyIterator Iterator" where
  "EmptyIterator_ops =
     \<lparr>i_Valid = (\<lambda>it. False), i_SeekToFirst = (\<lambda>it. Some it), i_SeekToLast = (\<lambda>it. Some it),
      i_Seek = (\<lambda>it target. Some it), i_Next = (\<lambda>it. None), i_Prev = (\<lambda>it. None), i_key = (\<lambda>it. None),
      i_value = (\<lambda>it. None), i_status = ei_status\<rparr>"

definition NewEmptyIterator :: EmptyIterator where
  "NewEmptyIterator = \<lparr>ei_status = Status_OK\<rparr>"

definition NewErrorIterator :: "Status \<Rightarrow> EmptyIterator" where
  "NewErrorIterator status = \<lparr>ei_status = status\<rparr>"

interpretation empty: iterator EmptyIterator_ops "[]" "\<lambda>it p. it = NewEmptyIterator \<and> p = 0" "\<lambda>_. True" bytes_less
  by unfold_locales (auto simp: EmptyIterator_ops_def NewEmptyIterator_def first_ge_def)

section \<open>Cleanup\<close>

text \<open>
  The functions registered with an iterator: the head, then the others, the newest first.
  The destructor runs them in that order on what they act on.
\<close>

record ('i, 'k) CleanupIterator =
  ci_iter :: 'i
  ci_cleanup :: "'k list"

definition RegisterCleanup :: "('i, 'k) CleanupIterator \<Rightarrow> 'k \<Rightarrow> ('i, 'k) CleanupIterator" where
  "RegisterCleanup it c =
     (case ci_cleanup it of [] \<Rightarrow> it\<lparr>ci_cleanup := [c]\<rparr> | head # nodes \<Rightarrow> it\<lparr>ci_cleanup := head # c # nodes\<rparr>)"

fun run_cleanups :: "('k \<Rightarrow> 'e \<Rightarrow> 'e option) \<Rightarrow> 'k list \<Rightarrow> 'e \<Rightarrow> 'e option" where
  "run_cleanups run [] e = Some e"
| "run_cleanups run (c # cs) e = do { e \<leftarrow> run c e; run_cleanups run cs e }"

definition Iterator_delete :: "('k \<Rightarrow> 'e \<Rightarrow> 'e option) \<Rightarrow> ('i, 'k) CleanupIterator \<Rightarrow> 'e \<Rightarrow> 'e option" where
  "Iterator_delete run it e = run_cleanups run (ci_cleanup it) e"

text \<open>The other operations are those of the iterator.\<close>

definition ci_move :: "('i \<Rightarrow> 'i option) \<Rightarrow> ('i, 'k) CleanupIterator \<Rightarrow> ('i, 'k) CleanupIterator option" where
  "ci_move f it = map_option (\<lambda>i. it\<lparr>ci_iter := i\<rparr>) (f (ci_iter it))"

definition CleanupIterator_ops :: "'i Iterator \<Rightarrow> ('i, 'k) CleanupIterator Iterator" where
  "CleanupIterator_ops ops =
     \<lparr>i_Valid = i_Valid ops \<circ> ci_iter, i_SeekToFirst = ci_move (i_SeekToFirst ops),
      i_SeekToLast = ci_move (i_SeekToLast ops), i_Seek = (\<lambda>it target. ci_move (\<lambda>i. i_Seek ops i target) it),
      i_Next = ci_move (i_Next ops), i_Prev = ci_move (i_Prev ops), i_key = i_key ops \<circ> ci_iter,
      i_value = i_value ops \<circ> ci_iter, i_status = i_status ops \<circ> ci_iter\<rparr>"

text \<open>A pointer to an iterator of either of two classes.\<close>

definition either_move :: "('i \<Rightarrow> 'i option) \<Rightarrow> ('j \<Rightarrow> 'j option) \<Rightarrow> 'i + 'j \<Rightarrow> ('i + 'j) option" where
  "either_move f g it = (case it of Inl i \<Rightarrow> map_option Inl (f i) | Inr j \<Rightarrow> map_option Inr (g j))"

definition Either_ops :: "'i Iterator \<Rightarrow> 'j Iterator \<Rightarrow> ('i + 'j) Iterator" where
  "Either_ops a b =
     \<lparr>i_Valid = case_sum (i_Valid a) (i_Valid b), i_SeekToFirst = either_move (i_SeekToFirst a) (i_SeekToFirst b),
      i_SeekToLast = either_move (i_SeekToLast a) (i_SeekToLast b),
      i_Seek = (\<lambda>it target. either_move (\<lambda>i. i_Seek a i target) (\<lambda>j. i_Seek b j target) it),
      i_Next = either_move (i_Next a) (i_Next b), i_Prev = either_move (i_Prev a) (i_Prev b),
      i_key = case_sum (i_key a) (i_key b), i_value = case_sum (i_value a) (i_value b),
      i_status = case_sum (i_status a) (i_status b)\<rparr>"

context iterator begin

lemma cleanup_iterator:
  "iterator (CleanupIterator_ops ops) es (\<lambda>it p. stands (ci_iter it) p \<and> ci_cleanup it = cs) key_ok lt"
proof (unfold_locales, goal_cases)
  case (5 it p)
  then show ?case using SeekToFirst_stands [of "ci_iter it"] by (fastforce simp: CleanupIterator_ops_def ci_move_def)
next
  case (6 it p)
  then show ?case using SeekToLast_stands [of "ci_iter it"] by (fastforce simp: CleanupIterator_ops_def ci_move_def)
next
  case (7 it p target)
  then show ?case using Seek_stands [of "ci_iter it"] by (fastforce simp: CleanupIterator_ops_def ci_move_def)
next
  case (8 it p)
  then show ?case using Next_stands [of "ci_iter it"] by (fastforce simp: CleanupIterator_ops_def ci_move_def)
next
  case (9 it p)
  then show ?case using Prev_stands [of "ci_iter it" p] by (auto simp: CleanupIterator_ops_def ci_move_def)
qed (auto simp: CleanupIterator_ops_def Valid_iff key_eq value_eq status_ok)

lemma either_iterator:
  "iterator (Either_ops other ops) es (\<lambda>it p. \<exists>j. it = Inr j \<and> stands j p) key_ok lt"
proof (unfold_locales, goal_cases)
  case (5 it p)
  then show ?case using SeekToFirst_stands by (fastforce simp: Either_ops_def either_move_def)
next
  case (6 it p)
  then show ?case using SeekToLast_stands by (fastforce simp: Either_ops_def either_move_def)
next
  case (7 it p target)
  then show ?case using Seek_stands by (fastforce simp: Either_ops_def either_move_def)
next
  case (8 it p)
  then show ?case using Next_stands by (fastforce simp: Either_ops_def either_move_def)
next
  case (9 it p)
  then obtain j where "it = Inr j" "stands j p" by blast
  then show ?case using Prev_stands [of j p] 9(2) by (auto simp: Either_ops_def either_move_def)
qed (auto simp: Either_ops_def Valid_iff key_eq value_eq status_ok)

end

end
