(* ===== verification/LDB_Block.thy ===== *)
theory LDB_Block
  imports LDB_Options LDB_Iterator
begin

text \<open>
  \<^verbatim>\<open>table/block_builder.h\<close>, \<^verbatim>\<open>table/block_builder.cc\<close>, \<^verbatim>\<open>table/block.h\<close> and
  \<^verbatim>\<open>table/block.cc\<close> of \<^verbatim>\<open>src/MovieDBApp/Pods/leveldb-library\<close>: blocks of sorted entries
  with prefix compression and restart points.

  A pointer into a block is an offset of its data. Assertions of the iterator and reads
  outside the data are \<^const>\<open>None\<close>; the assertions of the builder (sorted keys, at least one
  entry between restarts) are hypotheses of its theorems.
\<close>

section \<open>Builder\<close>

record BlockBuilder =
  bb_options :: Options
  bb_buffer :: "byte list"
  bb_restarts :: "u32 list"
  bb_counter :: int
  bb_finished :: bool
  bb_last_key :: "byte list"

definition BlockBuilder_new :: "Options \<Rightarrow> BlockBuilder" where
  "BlockBuilder_new options =
     \<lparr>bb_options = options, bb_buffer = [], bb_restarts = [0], bb_counter = 0, bb_finished = False, bb_last_key = []\<rparr>"

definition BlockBuilder_Reset :: "BlockBuilder \<Rightarrow> BlockBuilder" where
  "BlockBuilder_Reset b =
     b\<lparr>bb_buffer := [], bb_restarts := [0], bb_counter := 0, bb_finished := False, bb_last_key := []\<rparr>"

definition BlockBuilder_empty :: "BlockBuilder \<Rightarrow> bool" where
  "BlockBuilder_empty b \<longleftrightarrow> bb_buffer b = []"

definition CurrentSizeEstimate :: "BlockBuilder \<Rightarrow> nat" where
  "CurrentSizeEstimate b = length (bb_buffer b) + length (bb_restarts b) * 4 + 4"

definition BlockBuilder_Finish :: "BlockBuilder \<Rightarrow> byte list \<times> BlockBuilder" where
  "BlockBuilder_Finish b =
     (let buffer = fold (\<lambda>w dst. PutFixed32 dst w) (bb_restarts b) (bb_buffer b);
          buffer = PutFixed32 buffer (of_nat (length (bb_restarts b)))
      in (buffer, b\<lparr>bb_buffer := buffer, bb_finished := True\<rparr>))"

definition Add_bytes :: "nat \<Rightarrow> byte list \<Rightarrow> byte list \<Rightarrow> byte list \<Rightarrow> byte list" where
  "Add_bytes shared key val buffer =
     (let non_shared = length key - shared;
          buffer = PutVarint32 buffer (of_nat shared);
          buffer = PutVarint32 buffer (of_nat non_shared);
          buffer = PutVarint32 buffer (of_nat (length val));
          buffer = buffer @ take non_shared (drop shared key)
      in buffer @ val)"

definition BlockBuilder_Add :: "BlockBuilder \<Rightarrow> byte list \<Rightarrow> byte list \<Rightarrow> BlockBuilder" where
  "BlockBuilder_Add b key val =
     (let last_key_piece = bb_last_key b;
          (shared, b) =
            (if bb_counter b < opt_block_restart_interval (bb_options b)
             then (common_prefix (min (length last_key_piece) (length key)) last_key_piece key, b)
             else (0, b\<lparr>bb_restarts := bb_restarts b @ [of_nat (length (bb_buffer b))], bb_counter := 0\<rparr>))
      in b\<lparr>bb_buffer := Add_bytes shared key val (bb_buffer b),
           bb_last_key := take shared (bb_last_key b) @ drop shared key,
           bb_counter := bb_counter b + 1\<rparr>)"

section \<open>Blocks\<close>

text \<open>The offset of the restart array is left unset in a block with an error; zero here.\<close>

record Block =
  blk_data :: "byte list"
  blk_size :: nat
  blk_restart_offset :: u32

definition NumRestarts :: "Block \<Rightarrow> u32 option" where
  "NumRestarts b = DecodeFixed32 (drop (blk_size b - 4) (blk_data b))"

definition Block_new :: "byte list \<Rightarrow> Block option" where
  "Block_new contents =
     (let b = \<lparr>blk_data = contents, blk_size = length contents, blk_restart_offset = 0\<rparr> in
      if blk_size b < 4 then Some (b\<lparr>blk_size := 0\<rparr>)
      else let max_restarts_allowed = (blk_size b - 4) div 4 in do {
        n \<leftarrow> NumRestarts b;
        if unat n > max_restarts_allowed then Some (b\<lparr>blk_size := 0\<rparr>)
        else Some (b\<lparr>blk_restart_offset := ucast ((of_nat (blk_size b) :: size_t) - ucast (1 + n) * 4)\<rparr>)
      })"

text \<open>
  The bytes between \<open>p\<close> and the limit; a pointer behind the limit gives a negative
  difference, for which the test on three bytes answers as for none. The sum of the two
  lengths is of 32 bits.
\<close>

definition DecodeEntry :: "byte list \<Rightarrow> (u32 \<times> u32 \<times> u32 \<times> byte list) option" where
  "DecodeEntry p =
     (if length p < 3 then None
      else let shared = ucast (p ! 0) :: u32; non_shared = ucast (p ! 1) :: u32; value_length = ucast (p ! 2) :: u32 in do {
        (shared, non_shared, value_length, p) \<leftarrow>
          (if shared OR non_shared OR value_length < 128 then Some (shared, non_shared, value_length, drop 3 p)
           else do {
             (shared, p) \<leftarrow> GetVarint32Ptr p;
             (non_shared, p) \<leftarrow> GetVarint32Ptr p;
             (value_length, p) \<leftarrow> GetVarint32Ptr p;
             Some (shared, non_shared, value_length, p)
           });
        if (of_nat (length p) :: u32) < non_shared + value_length then None
        else Some (shared, non_shared, value_length, p)
      })"

section \<open>Iterator\<close>

text \<open>
  \<open>bi_value\<close> is the offset and the length of the slice \<^verbatim>\<open>value_\<close>, \<^const>\<open>None\<close> when it does
  not point into the block (a default or a cleared slice).
\<close>

record BlockIter =
  bi_comparator :: Comparator
  bi_data :: "byte list"
  bi_restarts :: u32
  bi_num_restarts :: u32
  bi_current :: u32
  bi_restart_index :: u32
  bi_key :: "byte list"
  bi_value :: "(nat \<times> nat) option"
  bi_status :: Status

definition BlockIter_new :: "Comparator \<Rightarrow> byte list \<Rightarrow> u32 \<Rightarrow> u32 \<Rightarrow> BlockIter" where
  "BlockIter_new cmp data restarts num_restarts =
     \<lparr>bi_comparator = cmp, bi_data = data, bi_restarts = restarts, bi_num_restarts = num_restarts,
      bi_current = restarts, bi_restart_index = num_restarts, bi_key = [], bi_value = None, bi_status = Status_OK\<rparr>"

definition BlockIter_Valid :: "BlockIter \<Rightarrow> bool" where
  "BlockIter_Valid it \<longleftrightarrow> bi_current it < bi_restarts it"

definition BlockIter_key :: "BlockIter \<Rightarrow> byte list option" where
  "BlockIter_key it = (if BlockIter_Valid it then Some (bi_key it) else None)"

definition bytes_at :: "byte list \<Rightarrow> nat \<Rightarrow> nat \<Rightarrow> byte list option" where
  "bytes_at data pos n = (if pos + n \<le> length data then Some (take n (drop pos data)) else None)"

definition BlockIter_value :: "BlockIter \<Rightarrow> byte list option" where
  "BlockIter_value it =
     (if BlockIter_Valid it then do { (pos, n) \<leftarrow> bi_value it; bytes_at (bi_data it) pos n } else None)"

definition NextEntryOffset :: "BlockIter \<Rightarrow> u32 option" where
  "NextEntryOffset it = do { (pos, n) \<leftarrow> bi_value it; Some (of_nat (pos + n)) }"

definition GetRestartPoint :: "BlockIter \<Rightarrow> u32 \<Rightarrow> u32 option" where
  "GetRestartPoint it index =
     (if index < bi_num_restarts it then DecodeFixed32 (drop (unat (bi_restarts it) + unat index * 4) (bi_data it))
      else None)"

definition SeekToRestartPoint :: "BlockIter \<Rightarrow> u32 \<Rightarrow> BlockIter option" where
  "SeekToRestartPoint it index = do {
     let it = it\<lparr>bi_key := [], bi_restart_index := index\<rparr>;
     p \<leftarrow> GetRestartPoint it index;
     Some (it\<lparr>bi_value := Some (unat p, 0)\<rparr>)
   }"

definition CorruptionError :: "BlockIter \<Rightarrow> BlockIter" where
  "CorruptionError it =
     it\<lparr>bi_current := bi_restarts it, bi_restart_index := bi_num_restarts it,
        bi_status := Corruption (cstr ''bad entry in block'') [], bi_key := [], bi_value := None\<rparr>"

text \<open>The loop at the end of \<^verbatim>\<open>ParseNextKey\<close>.\<close>

partial_function (option) skip_restarts :: "BlockIter \<Rightarrow> BlockIter option" where
  "skip_restarts it =
     (if bi_restart_index it + 1 < bi_num_restarts it then do {
        r \<leftarrow> GetRestartPoint it (bi_restart_index it + 1);
        if r < bi_current it then skip_restarts (it\<lparr>bi_restart_index := bi_restart_index it + 1\<rparr>) else Some it
      }
      else Some it)"

definition ParseNextKey :: "BlockIter \<Rightarrow> (bool \<times> BlockIter) option" where
  "ParseNextKey it = do {
     current \<leftarrow> NextEntryOffset it;
     let it = it\<lparr>bi_current := current\<rparr>;
     let limit = unat (bi_restarts it);
     if unat current \<ge> limit
     then Some (False, it\<lparr>bi_current := bi_restarts it, bi_restart_index := bi_num_restarts it\<rparr>)
     else
       case DecodeEntry (take (limit - unat current) (drop (unat current) (bi_data it))) of
         None \<Rightarrow> Some (False, CorruptionError it)
       | Some (shared, non_shared, value_length, p) \<Rightarrow>
           if length (bi_key it) < unat shared then Some (False, CorruptionError it)
           else do {
             let pos = limit - length p;
             delta \<leftarrow> bytes_at (bi_data it) pos (unat non_shared);
             it \<leftarrow> skip_restarts (it\<lparr>bi_key := take (unat shared) (bi_key it) @ delta,
                                    bi_value := Some (pos + unat non_shared, unat value_length)\<rparr>);
             Some (True, it)
           }
   }"

definition BlockIter_Next :: "BlockIter \<Rightarrow> BlockIter option" where
  "BlockIter_Next it = (if BlockIter_Valid it then do { (more, it) \<leftarrow> ParseNextKey it; Some it } else None)"

text \<open>The first loop of \<^verbatim>\<open>Prev\<close>: whether there is a restart point before \<open>original\<close>.\<close>

partial_function (option) prev_restart :: "u32 \<Rightarrow> BlockIter \<Rightarrow> (bool \<times> BlockIter) option" where
  "prev_restart original it = do {
     r \<leftarrow> GetRestartPoint it (bi_restart_index it);
     if r \<ge> original then
       if bi_restart_index it = 0
       then Some (False, it\<lparr>bi_current := bi_restarts it, bi_restart_index := bi_num_restarts it\<rparr>)
       else prev_restart original (it\<lparr>bi_restart_index := bi_restart_index it - 1\<rparr>)
     else Some (True, it)
   }"

text \<open>The loop of \<^verbatim>\<open>Prev\<close> and of \<^verbatim>\<open>SeekToLast\<close>: parse until the end of the entry reaches \<open>stop\<close>.\<close>

partial_function (option) parse_until :: "u32 \<Rightarrow> BlockIter \<Rightarrow> BlockIter option" where
  "parse_until stop it = do {
     (more, it) \<leftarrow> ParseNextKey it;
     if more then do {
       next \<leftarrow> NextEntryOffset it;
       if next < stop then parse_until stop it else Some it
     }
     else Some it
   }"

definition BlockIter_Prev :: "BlockIter \<Rightarrow> BlockIter option" where
  "BlockIter_Prev it =
     (if BlockIter_Valid it then do {
        let original = bi_current it;
        (found, it) \<leftarrow> prev_restart original it;
        if \<not> found then Some it
        else do {
          it \<leftarrow> SeekToRestartPoint it (bi_restart_index it);
          parse_until original it
        }
      }
      else None)"

text \<open>The binary search: the restart point to start from, or \<^const>\<open>None\<close> inside for corruption.\<close>

partial_function (option) seek_binary :: "BlockIter \<Rightarrow> byte list \<Rightarrow> u32 \<Rightarrow> u32 \<Rightarrow> u32 option option" where
  "seek_binary it target left right =
     (if left < right then do {
        let mid = (left + right + 1) div 2;
        region_offset \<leftarrow> GetRestartPoint it mid;
        let limit = unat (bi_restarts it);
        case DecodeEntry (take (limit - unat region_offset) (drop (unat region_offset) (bi_data it))) of
          None \<Rightarrow> Some None
        | Some (shared, non_shared, value_length, key_ptr) \<Rightarrow>
            if shared \<noteq> 0 then Some None
            else do {
              mid_key \<leftarrow> bytes_at (bi_data it) (limit - length key_ptr) (unat non_shared);
              r \<leftarrow> cmp_Compare (bi_comparator it) mid_key target;
              if r < 0 then seek_binary it target mid right else seek_binary it target left (mid - 1)
            }
      }
      else Some (Some left))"

partial_function (option) seek_linear :: "byte list \<Rightarrow> BlockIter \<Rightarrow> BlockIter option" where
  "seek_linear target it = do {
     (more, it) \<leftarrow> ParseNextKey it;
     if \<not> more then Some it
     else do {
       r \<leftarrow> cmp_Compare (bi_comparator it) (bi_key it) target;
       if r \<ge> 0 then Some it else seek_linear target it
     }
   }"

definition BlockIter_Seek :: "BlockIter \<Rightarrow> byte list \<Rightarrow> BlockIter option" where
  "BlockIter_Seek it target = do {
     res \<leftarrow> seek_binary it target 0 (bi_num_restarts it - 1);
     case res of
       None \<Rightarrow> Some (CorruptionError it)
     | Some left \<Rightarrow> do { it \<leftarrow> SeekToRestartPoint it left; seek_linear target it }
   }"

definition BlockIter_SeekToFirst :: "BlockIter \<Rightarrow> BlockIter option" where
  "BlockIter_SeekToFirst it = do { it \<leftarrow> SeekToRestartPoint it 0; (more, it) \<leftarrow> ParseNextKey it; Some it }"

definition BlockIter_SeekToLast :: "BlockIter \<Rightarrow> BlockIter option" where
  "BlockIter_SeekToLast it = do {
     it \<leftarrow> SeekToRestartPoint it (bi_num_restarts it - 1);
     parse_until (bi_restarts it) it
   }"

definition BlockIter_ops :: "BlockIter Iterator" where
  "BlockIter_ops =
     \<lparr>i_Valid = BlockIter_Valid, i_SeekToFirst = BlockIter_SeekToFirst, i_SeekToLast = BlockIter_SeekToLast,
      i_Seek = BlockIter_Seek, i_Next = BlockIter_Next, i_Prev = BlockIter_Prev, i_key = BlockIter_key,
      i_value = BlockIter_value, i_status = bi_status\<rparr>"

text \<open>\<^verbatim>\<open>NewIterator\<close> makes an empty iterator with a status or an iterator of the block.\<close>

definition Block_NewIterator :: "Block \<Rightarrow> Comparator \<Rightarrow> (EmptyIterator + BlockIter) option" where
  "Block_NewIterator b cmp =
     (if blk_size b < 4 then Some (Inl (NewErrorIterator (Corruption (cstr ''bad block contents'') [])))
      else do {
        num_restarts \<leftarrow> NumRestarts b;
        if num_restarts = 0 then Some (Inl NewEmptyIterator)
        else Some (Inr (BlockIter_new cmp (blk_data b) (blk_restart_offset b) num_restarts))
      })"

end
