(* ===== verification/LDB_Bloom.thy ===== *)
theory LDB_Bloom
  imports LDB_Filter_Policy
begin

text \<open>
  \<^verbatim>\<open>util/hash.cc\<close> and \<^verbatim>\<open>util/bloom.cc\<close> of
  \<^verbatim>\<open>src/MovieDBApp/Pods/leveldb-library\<close>: the hash function of LevelDB and the Bloom
  filter built with it.

  Sizes are 64-bit words and the arithmetic wraps as in the code. A filter never denies a
  key it was built from.
\<close>

section \<open>Hash\<close>

definition hash_m :: u32 where "hash_m = 0xc6a4a793"
definition hash_r :: nat where "hash_r = 24"

text \<open>\<^verbatim>\<open>while (data + 4 <= limit)\<close>, four bytes at a time.\<close>

fun hash_words :: "u32 \<Rightarrow> byte list \<Rightarrow> u32 \<times> byte list" where
  "hash_words h (b0 # b1 # b2 # b3 # data) =
     (let w = the (DecodeFixed32 [b0, b1, b2, b3]);
          h = h + w;
          h = h * hash_m;
          h = h XOR drop_bit 16 h
      in hash_words h data)"
| "hash_words h data = (h, data)"

text \<open>The \<^verbatim>\<open>switch\<close> on what remains, with its fall-through.\<close>

definition hash_tail :: "u32 \<Rightarrow> byte list \<Rightarrow> u32" where
  "hash_tail h data =
     (let n = length data;
          h = (if n = 3 then h + push_bit 16 (ucast (data ! 2)) else h);
          h = (if n = 3 \<or> n = 2 then h + push_bit 8 (ucast (data ! 1)) else h)
      in if n = 3 \<or> n = 2 \<or> n = 1
         then let h = h + ucast (data ! 0); h = h * hash_m in h XOR drop_bit hash_r h
         else h)"

definition Hash :: "byte list \<Rightarrow> u32 \<Rightarrow> u32" where
  "Hash data seed =
     (let h = ucast (ucast seed XOR (of_nat (length data) * ucast hash_m :: size_t));
          (h, data) = hash_words h data
      in hash_tail h data)"

section \<open>Bloom filter\<close>

definition BloomHash :: "byte list \<Rightarrow> u32" where
  "BloomHash key = Hash key 0xbc9f1d34"

record BloomFilterPolicy =
  bf_bits_per_key :: size_t
  bf_k :: size_t

text \<open>
  \<^verbatim>\<open>static_cast<size_t>(bits_per_key * 0.69)\<close> for a \<open>bits_per_key\<close> that is not negative: the
  double product and 69 percent of the number have the same integer part up to 44, and from
  there on the result is cut to 30.
\<close>

definition BloomFilterPolicy_new :: "nat \<Rightarrow> BloomFilterPolicy" where
  "BloomFilterPolicy_new bits_per_key =
     (let k = bits_per_key * 69 div 100;
          k = (if k < 1 then 1 else k);
          k = (if k > 30 then 30 else k)
      in \<lparr>bf_bits_per_key = of_nat bits_per_key, bf_k = of_nat k\<rparr>)"

definition NewBloomFilterPolicy :: "nat \<Rightarrow> BloomFilterPolicy" where
  "NewBloomFilterPolicy bits_per_key = BloomFilterPolicy_new bits_per_key"

definition rotate_delta :: "u32 \<Rightarrow> u32" where
  "rotate_delta h = drop_bit 17 h OR push_bit 15 h"

definition bit_position :: "u32 \<Rightarrow> size_t \<Rightarrow> u32" where
  "bit_position h bits = ucast (ucast h mod bits)"

definition set_filter_bit :: "byte list \<Rightarrow> u32 \<Rightarrow> byte list" where
  "set_filter_bit array bitpos =
     array[unat (bitpos div 8) :=
       array ! unat (bitpos div 8) OR ucast (push_bit (unat (bitpos mod 8)) 1 :: u32)]"

text \<open>The inner loop of \<^verbatim>\<open>CreateFilter\<close>, \<open>k\<close> probes from \<open>h\<close>.\<close>

primrec add_probes :: "nat \<Rightarrow> size_t \<Rightarrow> u32 \<Rightarrow> u32 \<Rightarrow> byte list \<Rightarrow> byte list" where
  "add_probes 0 bits delta h array = array"
| "add_probes (Suc k) bits delta h array =
     add_probes k bits delta (h + delta) (set_filter_bit array (bit_position h bits))"

definition add_key :: "size_t \<Rightarrow> size_t \<Rightarrow> byte list \<Rightarrow> byte list \<Rightarrow> byte list" where
  "add_key k bits key array =
     (let h = BloomHash key in add_probes (unat k) bits (rotate_delta h) h array)"

definition Bloom_CreateFilter :: "BloomFilterPolicy \<Rightarrow> byte list list \<Rightarrow> byte list \<Rightarrow> byte list" where
  "Bloom_CreateFilter p keys dst =
     (let bits = of_nat (length keys) * bf_bits_per_key p;
          bits = (if bits < 64 then 64 else bits);
          bytes = (bits + 7) div 8;
          bits = bytes * 8;
          array = fold (add_key (bf_k p) bits) keys (replicate (unat bytes) 0)
      in dst @ array @ [ucast (bf_k p)])"

primrec probes_match :: "nat \<Rightarrow> size_t \<Rightarrow> u32 \<Rightarrow> u32 \<Rightarrow> byte list \<Rightarrow> bool" where
  "probes_match 0 bits delta h array = True"
| "probes_match (Suc k) bits delta h array =
     (let bitpos = bit_position h bits in
      if scast (array ! unat (bitpos div 8)) AND (push_bit (unat (bitpos mod 8)) 1 :: u32) = 0 then False
      else probes_match k bits delta (h + delta) array)"

text \<open>The number of probes is a \<^verbatim>\<open>char\<close>; those with the top bit set become large when widened.\<close>

definition Bloom_KeyMayMatch :: "BloomFilterPolicy \<Rightarrow> byte list \<Rightarrow> byte list \<Rightarrow> bool" where
  "Bloom_KeyMayMatch p key bloom_filter =
     (let len = length bloom_filter in
      if len < 2 then False
      else let bits = of_nat ((len - 1) * 8) :: size_t; k = scast (bloom_filter ! (len - 1)) :: size_t in
        if k > 30 then True
        else let h = BloomHash key in probes_match (unat k) bits (rotate_delta h) h bloom_filter)"

section \<open>No false negatives\<close>

definition bit_set :: "byte list \<Rightarrow> u32 \<Rightarrow> bool" where
  "bit_set array b \<longleftrightarrow> bit (array ! unat (b div 8)) (unat (b mod 8))"

lemma unat_mod_8: "unat (b mod 8) < 8" for b :: u32
  by (simp add: unat_mod)

lemma length_set_filter_bit [simp]: "length (set_filter_bit array b) = length array"
  by (simp add: set_filter_bit_def)

lemma set_filter_bit_set: "unat (b div 8) < length array \<Longrightarrow> bit_set (set_filter_bit array b) b"
  using unat_mod_8 [of b] by (simp add: set_filter_bit_def bit_set_def bit_simps)

lemma set_filter_bit_keeps: "bit_set array c \<Longrightarrow> bit_set (set_filter_bit array b) c"
proof (cases "unat (b div 8) < length array")
  case False
  assume "bit_set array c"
  with False show ?thesis by (simp add: set_filter_bit_def list_update_beyond)
qed (auto simp: set_filter_bit_def bit_set_def nth_list_update bit_simps)

lemma probe_is_bit: "scast (array ! unat (b div 8)) AND (2 ^ unat (b mod 8) :: u32) = 0
    \<longleftrightarrow> \<not> bit_set array b"
  using unat_mod_8 [of b] by (auto simp: and_exp_eq_0_iff_not_bit bit_set_def bit_simps)

text \<open>The bits a key stands for.\<close>

primrec probes :: "nat \<Rightarrow> size_t \<Rightarrow> u32 \<Rightarrow> u32 \<Rightarrow> u32 list" where
  "probes 0 bits delta h = []"
| "probes (Suc k) bits delta h = bit_position h bits # probes k bits delta (h + delta)"

lemma probes_match_eq: "probes_match k bits delta h array = (\<forall>b\<in>set (probes k bits delta h). bit_set array b)"
  by (induction k arbitrary: h) (simp_all add: Let_def probe_is_bit)

lemma add_probes_fold: "add_probes k bits delta h array = fold (\<lambda>b a. set_filter_bit a b) (probes k bits delta h) array"
  by (induction k arbitrary: h array) simp_all

lemma fold_bits_length: "length (fold (\<lambda>b a. set_filter_bit a b) bs array) = length array"
  by (induction bs arbitrary: array) simp_all

lemma fold_bits_keeps: "bit_set array c \<Longrightarrow> bit_set (fold (\<lambda>b a. set_filter_bit a b) bs array) c"
  by (induction bs arbitrary: array) (simp_all add: set_filter_bit_keeps)

lemma fold_bits_sets:
  "b \<in> set bs \<Longrightarrow> unat (b div 8) < length array \<Longrightarrow> bit_set (fold (\<lambda>b a. set_filter_bit a b) bs array) b"
  by (induction bs arbitrary: array) (auto simp: fold_bits_keeps set_filter_bit_set)

lemma probes_bound:
  assumes "b \<in> set (probes k bits delta h)" and "0 < unat bits"
  shows "unat b < unat bits"
  using assms(1)
proof (induction k arbitrary: h)
  case (Suc k)
  have "unat (bit_position x bits) < unat bits" for x
  proof -
    have "unat (ucast x mod bits) < unat bits" using assms(2) by (simp add: unat_mod)
    moreover have "unat (ucast x mod bits) \<le> unat x" by (simp add: unat_mod)
    ultimately show ?thesis
      using unat_lt_32 [of x] by (simp add: bit_position_def unsigned_ucast_eq take_bit_nat_eq_self del: unat_lt_32)
  qed
  then show ?case using Suc by auto
qed simp

lemma add_key_eq: "add_key k bits key array = fold (\<lambda>b a. set_filter_bit a b)
    (probes (unat k) bits (rotate_delta (BloomHash key)) (BloomHash key)) array"
  by (simp add: add_key_def Let_def add_probes_fold)

lemma length_add_key [simp]: "length (add_key k bits key array) = length array"
  by (simp add: add_key_eq fold_bits_length)

lemma add_key_keeps: "bit_set array c \<Longrightarrow> bit_set (add_key k bits key array) c"
  by (simp add: add_key_eq fold_bits_keeps)

lemma add_keys_bit:
  assumes "key \<in> set keys" and "b \<in> set (probes (unat k) bits (rotate_delta (BloomHash key)) (BloomHash key))"
    and "unat (b div 8) < length array"
  shows "bit_set (fold (add_key k bits) keys array) b"
  using assms(1,3)
proof (induction keys arbitrary: array)
  case (Cons x keys)
  have keep: "bit_set array b \<Longrightarrow> bit_set (fold (add_key k bits) keys array) b" for array
    by (induction keys arbitrary: array) (simp_all add: add_key_keeps)
  show ?case
  proof (cases "key = x")
    case True
    then show ?thesis
      using keep [of "add_key k bits x array"] fold_bits_sets [OF assms(2) Cons.prems(2)]
      by (simp add: add_key_eq [of k bits x array])
  next
    case False
    then show ?thesis using Cons by (simp add: length_add_key)
  qed
qed simp

lemma length_add_keys [simp]: "length (fold (add_key k bits) keys array) = length array"
  by (induction keys arbitrary: array) simp_all


lemma policy_k: "1 \<le> unat (bf_k (BloomFilterPolicy_new n)) \<and> unat (bf_k (BloomFilterPolicy_new n)) \<le> 30"
  by (auto simp: BloomFilterPolicy_new_def Let_def take_bit_nat_eq_self unsigned_of_nat)

text \<open>The last byte of a filter, read back as the number of probes.\<close>

lemma scast_ucast_k:
  assumes "unat k \<le> 30"
  shows "scast (ucast k :: byte) = (k :: size_t)"
proof -
  have "k \<in> of_nat ` {0..30}"
    using assms by (intro image_eqI [of _ _ "unat k"]) simp_all
  moreover have "list_all (\<lambda>n. scast (ucast (of_nat n :: size_t) :: byte) = (of_nat n :: size_t)) [0..<31]"
    by code_simp
  ultimately show ?thesis by (auto simp: list_all_iff)
qed

text \<open>A position below the number of bits is read in the array, whatever byte follows it.\<close>

lemma bit_set_append: "unat (b div 8) < length array \<Longrightarrow> bit_set (array @ rest) b = bit_set array b"
  by (simp add: bit_set_def nth_append)

lemma unat_of_nat_mult:
  fixes w :: "'a::len word"
  assumes "l * unat w < 2 ^ LENGTH('a)"
  shows "unat (of_nat l * w) = l * unat w"
  using assms by (simp add: unat_word_ariths unsigned_of_nat take_bit_eq_mod mod_mult_left_eq)

lemma filter_bytes:
  fixes bits :: size_t
  assumes "unat bits < 2 ^ 63" and "64 \<le> unat bits"
  shows "8 \<le> unat ((bits + 7) div 8)" and "unat ((bits + 7) div 8 * 8) = unat ((bits + 7) div 8) * 8"
    and "unat ((bits + 7) div 8) < 2 ^ 61"
proof -
  have n: "unat (bits + 7) = unat bits + 7" using assms(1) by (subst unat_add_no_overflow) simp_all
  have d: "unat ((bits + 7) div 8) = (unat bits + 7) div 8" by (simp add: unat_div n)
  show "8 \<le> unat ((bits + 7) div 8)" and "unat ((bits + 7) div 8) < 2 ^ 61" using assms by (auto simp: d)
  show "unat ((bits + 7) div 8 * 8) = unat ((bits + 7) div 8) * 8"
    using assms by (simp add: unat_word_ariths d)
qed

lemma Bloom_finds_key:
  assumes "key \<in> set keys"
    and "length keys * unat (bf_bits_per_key (NewBloomFilterPolicy n)) < 2 ^ 63"
  shows "Bloom_KeyMayMatch (NewBloomFilterPolicy m) key
    (drop (length dst) (Bloom_CreateFilter (NewBloomFilterPolicy n) keys dst))"
proof -
  define p where "p = NewBloomFilterPolicy n"
  define bits where "bits = (let b = of_nat (length keys) * bf_bits_per_key p in if b < 64 then 64 else b)"
  define bytes where "bytes = (bits + 7) div 8"
  define array where "array = fold (add_key (bf_k p) (bytes * 8)) keys (replicate (unat bytes) 0)"
  have k: "1 \<le> unat (bf_k p)" "unat (bf_k p) \<le> 30"
    using policy_k by (simp_all add: p_def NewBloomFilterPolicy_def)
  have "unat bits < 2 ^ 63" and "64 \<le> unat bits"
    using assms(2) by (auto simp: bits_def p_def Let_def word_less_nat_alt unat_of_nat_mult)
  note bytes = filter_bytes [OF this, folded bytes_def]
  have len: "length array = unat bytes" by (simp add: array_def)
  have f: "drop (length dst) (Bloom_CreateFilter p keys dst) = array @ [ucast (bf_k p)]"
    by (simp add: Bloom_CreateFilter_def Let_def bits_def bytes_def array_def)
  have last: "(array @ [x]) ! unat bytes = x" for x by (simp add: nth_append len)
  have w: "(of_nat (unat bytes * 8) :: size_t) = bytes * 8" by simp
  have "bit_set (array @ [ucast (bf_k p)]) b"
    if b: "b \<in> set (probes (unat (bf_k p)) (bytes * 8) (rotate_delta (BloomHash key)) (BloomHash key))" for b
  proof -
    have "unat b < unat bytes * 8" using probes_bound [OF b] bytes(1,2) by simp
    then have "unat (b div 8) < unat bytes" by (simp add: unat_div)
    then show ?thesis
      using add_keys_bit [OF assms(1) b] by (simp add: array_def bit_set_append)
  qed
  then have "Bloom_KeyMayMatch q key (array @ [ucast (bf_k p)])" for q
    using bytes(1) k scast_ucast_k [OF k(2)]
    by (simp add: Bloom_KeyMayMatch_def Let_def len probes_match_eq w last del: of_nat_mult)
  then show ?thesis by (simp add: f [unfolded p_def] p_def)
qed

text \<open>The policy as an object, and the contract of policies.\<close>

definition Bloom_Name :: "byte list" where
  "Bloom_Name = cstr ''leveldb.BuiltinBloomFilter2''"

definition bloom_policy :: "BloomFilterPolicy \<Rightarrow> FilterPolicy" where
  "bloom_policy p = \<lparr>fp_Name = Bloom_Name, fp_CreateFilter = Bloom_CreateFilter p, fp_KeyMayMatch = Bloom_KeyMayMatch p\<rparr>"

definition bloom_most :: "nat \<Rightarrow> nat" where
  "bloom_most n = (2 ^ 63 - 1) div unat (bf_bits_per_key (NewBloomFilterPolicy n))"

interpretation bloom: filter_policy "bloom_policy (NewBloomFilterPolicy n)" "bloom_most n" for n
proof
  show "fp_CreateFilter (bloom_policy (NewBloomFilterPolicy n)) keys dst
      = dst @ fp_CreateFilter (bloom_policy (NewBloomFilterPolicy n)) keys []" for keys dst
    by (simp add: bloom_policy_def Bloom_CreateFilter_def Let_def)
  fix key and keys :: "byte list list"
  assume key: "key \<in> set keys" and "length keys \<le> bloom_most n"
  then have "length keys * unat (bf_bits_per_key (NewBloomFilterPolicy n)) \<le> 2 ^ 63 - 1"
    unfolding bloom_most_def by (metis div_times_less_eq_dividend le_trans mult_le_mono1)
  then show "fp_KeyMayMatch (bloom_policy (NewBloomFilterPolicy n)) key
      (fp_CreateFilter (bloom_policy (NewBloomFilterPolicy n)) keys [])"
    using Bloom_finds_key [OF key, of n n "[]"] by (simp add: bloom_policy_def)
qed

text \<open>
  C35. A Bloom filter has no false negatives: the filter that \<^verbatim>\<open>CreateFilter\<close> appends to any
  string for a list of keys matches every one of these keys, for every policy the
  constructor makes and as long as the size of the filter does not overflow; a reader with
  another number of bits per key finds the key too.
\<close>

theorem bloom_no_false_negative:
  assumes "key \<in> set keys"
    and "length keys * unat (bf_bits_per_key (NewBloomFilterPolicy n)) < 2 ^ 63"
  shows "Bloom_KeyMayMatch (NewBloomFilterPolicy m) key
    (drop (length dst) (Bloom_CreateFilter (NewBloomFilterPolicy n) keys dst))"
  by (rule Bloom_finds_key [OF assms])

theorem bloom_no_false_negative_witness:
  "Bloom_KeyMayMatch (NewBloomFilterPolicy 5) [1, 2]
    (drop 1 (Bloom_CreateFilter (NewBloomFilterPolicy 10) [[7], [1, 2]] [9]))"
  using bloom_no_false_negative [of "[1, 2]" "[[7], [1, 2]]" 10 5 "[9]"]
  by (simp add: NewBloomFilterPolicy_def BloomFilterPolicy_new_def)

end
