(* ===== verification/LDB_Filter_Block.thy ===== *)
theory LDB_Filter_Block
  imports LDB_Bloom
begin

text \<open>
  \<^verbatim>\<open>table/filter_block.h\<close> and \<^verbatim>\<open>table/filter_block.cc\<close> of
  \<^verbatim>\<open>src/MovieDBApp/Pods/leveldb-library\<close>: the block of a table that holds a filter for
  every two kilobytes of data blocks.

  A position in a string or vector is a number. A builder stands for the lists of keys of
  the filters it has finished and the list of keys it collects; a block built for any
  policy that keeps the contract answers yes for every key at the offset of its block.
  Builders get fewer than \<open>2^31\<close> keys for one filter (\<^verbatim>\<open>static_cast<int>\<close>).
\<close>

section \<open>Builder\<close>

definition kFilterBaseLg :: nat where "kFilterBaseLg = 11"
definition kFilterBase :: u64 where "kFilterBase = push_bit kFilterBaseLg 1"

record FilterBlockBuilder =
  fb_policy :: FilterPolicy
  fb_keys :: "byte list"
  fb_start :: "nat list"
  fb_result :: "byte list"
  fb_tmp_keys :: "byte list list"
  fb_filter_offsets :: "u32 list"

definition FilterBlockBuilder_new :: "FilterPolicy \<Rightarrow> FilterBlockBuilder" where
  "FilterBlockBuilder_new policy =
     \<lparr>fb_policy = policy, fb_keys = [], fb_start = [], fb_result = [], fb_tmp_keys = [], fb_filter_offsets = []\<rparr>"

definition GenerateFilter :: "FilterBlockBuilder \<Rightarrow> FilterBlockBuilder" where
  "GenerateFilter b =
     (let num_keys = length (fb_start b) in
      if num_keys = 0
      then b\<lparr>fb_filter_offsets := fb_filter_offsets b @ [of_nat (length (fb_result b))]\<rparr>
      else
        let start = fb_start b @ [length (fb_keys b)];
            tmp_keys = map (\<lambda>i. take (start ! (i + 1) - start ! i) (drop (start ! i) (fb_keys b))) [0..<num_keys]
        in b\<lparr>fb_filter_offsets := fb_filter_offsets b @ [of_nat (length (fb_result b))],
             fb_result := fp_CreateFilter (fb_policy b) tmp_keys (fb_result b),
             fb_tmp_keys := [], fb_keys := [], fb_start := []\<rparr>)"

lemma GenerateFilter_offsets [simp]:
  "fb_filter_offsets (GenerateFilter b) = fb_filter_offsets b @ [of_nat (length (fb_result b))]"
  by (simp add: GenerateFilter_def Let_def)

function StartBlock_loop :: "u64 \<Rightarrow> FilterBlockBuilder \<Rightarrow> FilterBlockBuilder" where
  "StartBlock_loop filter_index b =
     (if unat filter_index > length (fb_filter_offsets b) then StartBlock_loop filter_index (GenerateFilter b) else b)"
  by pat_completeness auto
termination
  by (relation "measure (\<lambda>(i, b). unat i - length (fb_filter_offsets b))") auto

declare StartBlock_loop.simps [simp del]

definition StartBlock :: "FilterBlockBuilder \<Rightarrow> u64 \<Rightarrow> FilterBlockBuilder" where
  "StartBlock b block_offset = (let filter_index = block_offset div kFilterBase in StartBlock_loop filter_index b)"

definition AddKey :: "FilterBlockBuilder \<Rightarrow> byte list \<Rightarrow> FilterBlockBuilder" where
  "AddKey b key = b\<lparr>fb_start := fb_start b @ [length (fb_keys b)], fb_keys := fb_keys b @ key\<rparr>"

definition FilterBlock_Finish :: "FilterBlockBuilder \<Rightarrow> byte list \<times> FilterBlockBuilder" where
  "FilterBlock_Finish b =
     (let b = (if fb_start b \<noteq> [] then GenerateFilter b else b);
          array_offset = of_nat (length (fb_result b)) :: u32;
          result = fold (\<lambda>o1 result. PutFixed32 result o1) (fb_filter_offsets b) (fb_result b);
          result = PutFixed32 result array_offset;
          result = result @ [of_nat kFilterBaseLg]
      in (result, b\<lparr>fb_result := result\<rparr>))"

section \<open>Reader\<close>

text \<open>\<open>fr_offset\<close> is \<^verbatim>\<open>offset_ - data_\<close>; \<open>base_lg_\<close> comes from a signed character.\<close>

record FilterBlockReader =
  fr_policy :: FilterPolicy
  fr_data :: "byte list"
  fr_offset :: nat
  fr_num :: size_t
  fr_base_lg :: size_t

definition FilterBlockReader_new :: "FilterPolicy \<Rightarrow> byte list \<Rightarrow> FilterBlockReader option" where
  "FilterBlockReader_new policy contents =
     (let r = \<lparr>fr_policy = policy, fr_data = [], fr_offset = 0, fr_num = 0, fr_base_lg = 0\<rparr>;
          n = length contents
      in if n < 5 then Some r
         else let r = r\<lparr>fr_base_lg := scast (contents ! (n - 1))\<rparr> in do {
           last_word \<leftarrow> DecodeFixed32 (drop (n - 5) contents);
           if unat last_word > n - 5 then Some r
           else Some (r\<lparr>fr_data := contents, fr_offset := unat last_word,
                  fr_num := of_nat ((n - 5 - unat last_word) div 4)\<rparr>)
         })"

text \<open>A shift of a 64-bit value by 64 or more is undefined.\<close>

definition FilterBlock_KeyMayMatch :: "FilterBlockReader \<Rightarrow> u64 \<Rightarrow> byte list \<Rightarrow> bool option" where
  "FilterBlock_KeyMayMatch r block_offset key =
     (if fr_base_lg r \<ge> 64 then None
      else let index = drop_bit (unat (fr_base_lg r)) block_offset in
        if index < fr_num r then do {
          start \<leftarrow> DecodeFixed32 (drop (fr_offset r + unat index * 4) (fr_data r));
          limit \<leftarrow> DecodeFixed32 (drop (fr_offset r + unat index * 4 + 4) (fr_data r));
          if start \<le> limit \<and> unat limit \<le> fr_offset r
          then let bloom_filter = take (unat (limit - start)) (drop (unat start) (fr_data r))
               in Some (fp_KeyMayMatch (fr_policy r) key bloom_filter)
          else if start = limit then Some False
          else Some True
        }
        else Some True)"

section \<open>What a builder stands for\<close>

text \<open>
  The groups of keys of the finished filters, and the open group. A group without keys has
  an empty filter.
\<close>

definition group_filter :: "FilterPolicy \<Rightarrow> byte list list \<Rightarrow> byte list" where
  "group_filter policy ks = (if ks = [] then [] else fp_CreateFilter policy ks [])"

definition filters :: "FilterPolicy \<Rightarrow> byte list list list \<Rightarrow> byte list" where
  "filters policy gs = concat (map (group_filter policy) gs)"

primrec starts :: "nat \<Rightarrow> byte list list \<Rightarrow> nat list" where
  "starts n [] = []"
| "starts n (k # ks) = n # starts (n + length k) ks"

definition holds_groups :: "FilterBlockBuilder \<Rightarrow> byte list list list \<Rightarrow> byte list list \<Rightarrow> bool" where
  "holds_groups b gs cur \<longleftrightarrow>
     fb_keys b = concat cur \<and> fb_start b = starts 0 cur \<and> fb_result b = filters (fb_policy b) gs
     \<and> fb_filter_offsets b = map (\<lambda>i. of_nat (length (filters (fb_policy b) (take i gs)))) [0..<length gs]"

lemma length_starts [simp]: "length (starts n ks) = length ks"
  by (induction ks arbitrary: n) simp_all

lemma starts_append: "starts n (ks @ [k]) = starts n ks @ [n + length (concat ks)]"
  by (induction ks arbitrary: n) simp_all

lemma starts_nth: "i < length ks \<Longrightarrow> starts n ks ! i = n + length (concat (take i ks))"
  by (induction ks arbitrary: n i) (auto simp: nth_Cons split: nat.splits)

lemma starts_nth_end:
  "i \<le> length ks \<Longrightarrow> (starts 0 ks @ [length (concat ks)]) ! i = length (concat (take i ks))"
  by (cases "i = length ks") (simp_all add: nth_append starts_nth)

text \<open>The keys are cut out of the flattened string as they went in.\<close>

lemma cut_key:
  assumes "i < length ks"
  shows "take (length (concat (take (Suc i) ks)) - length (concat (take i ks)))
    (drop (length (concat (take i ks))) (concat ks)) = ks ! i"
proof -
  have "concat ks = concat (take i ks) @ ks ! i @ concat (drop (Suc i) ks)"
    by (metis assms concat.simps(2) concat_append id_take_nth_drop)
  then show ?thesis using assms by (simp add: take_Suc_conv_app_nth)
qed

lemma cut_keys:
  "map (\<lambda>i. take ((starts 0 ks @ [length (concat ks)]) ! (i + 1) - (starts 0 ks @ [length (concat ks)]) ! i)
      (drop ((starts 0 ks @ [length (concat ks)]) ! i) (concat ks))) [0..<length ks] = ks"
  by (rule nth_equalityI) (simp_all add: starts_nth_end cut_key)

lemma filters_append: "filters p (gs @ hs) = filters p gs @ filters p hs"
  by (simp add: filters_def)

lemma holds_offset: "map (\<lambda>i. of_nat (length (filters p (take i (gs @ [g]))))) [0..<length (gs @ [g])]
    = map (\<lambda>i. of_nat (length (filters p (take i gs)))) [0..<length gs] @ [of_nat (length (filters p gs))]"
  by (auto intro: map_cong)

context filter_policy begin

lemma GenerateFilter_holds:
  assumes "holds_groups b gs cur" and "fb_policy b = policy"
  shows "holds_groups (GenerateFilter b) (gs @ [cur]) [] \<and> fb_policy (GenerateFilter b) = policy"
proof (cases "cur = []")
  case True
  then show ?thesis
    using assms by (simp only: holds_groups_def holds_offset)
      (simp add: GenerateFilter_def filters_append filters_def group_filter_def)
next
  case False
  have "fp_CreateFilter policy cur (filters policy gs) = filters policy (gs @ [cur])"
    using False CreateFilter_appends [of cur "filters policy gs"] by (simp add: filters_def group_filter_def)
  then show ?thesis
    using assms False cut_keys [of cur] by (simp only: holds_groups_def holds_offset)
      (simp add: GenerateFilter_def Let_def)
qed

end

lemma AddKey_holds: "holds_groups b gs cur \<Longrightarrow> holds_groups (AddKey b key) gs (cur @ [key])"
  by (simp add: holds_groups_def AddKey_def starts_append)

text \<open>Groups only grow while a table is built.\<close>

definition grows :: "byte list list list \<Rightarrow> byte list list list \<Rightarrow> bool" where
  "grows G H \<longleftrightarrow> length G \<le> length H \<and> (\<forall>i<length G. set (G ! i) \<subseteq> set (H ! i))"

lemma grows_refl: "grows G G"
  by (simp add: grows_def)

lemma grows_trans:
  assumes "grows G H" and "grows H K"
  shows "grows G K"
proof -
  have "set (G ! i) \<subseteq> set (K ! i)" if i: "i < length G" for i
  proof -
    have "set (G ! i) \<subseteq> set (H ! i)" using assms(1) i unfolding grows_def by blast
    moreover have "i < length H" using assms(1) i by (simp add: grows_def)
    then have "set (H ! i) \<subseteq> set (K ! i)" using assms(2) unfolding grows_def by blast
    ultimately show ?thesis by (rule order_trans)
  qed
  moreover have "length G \<le> length K" using assms by (simp add: grows_def)
  ultimately show ?thesis unfolding grows_def by blast
qed

lemma grows_append: "grows G (G @ H)"
  by (simp add: grows_def nth_append)

lemma grows_last: "set cur \<subseteq> set cur' \<Longrightarrow> grows (gs @ [cur]) (gs @ [cur'])"
  by (simp add: grows_def nth_append)

text \<open>The calls for a table: the data blocks with their offsets and keys.\<close>

definition add_block :: "u64 \<times> byte list list \<Rightarrow> FilterBlockBuilder \<Rightarrow> FilterBlockBuilder" where
  "add_block bl b = fold (\<lambda>k b. AddKey b k) (snd bl) (StartBlock b (fst bl))"

definition filter_index :: "u64 \<Rightarrow> nat" where
  "filter_index off = unat off div 2048"

lemma unat_div_kFilterBase: "unat (off div kFilterBase) = filter_index off"
  by (simp add: kFilterBase_def kFilterBaseLg_def unat_div filter_index_def)

lemma AddKeys_holds:
  "holds_groups b gs cur \<Longrightarrow> fb_policy b = p \<Longrightarrow>
     holds_groups (fold (\<lambda>k b. AddKey b k) ks b) gs (cur @ ks) \<and> fb_policy (fold (\<lambda>k b. AddKey b k) ks b) = p"
proof (induction ks arbitrary: b cur)
  case (Cons k ks)
  then show ?case using Cons.IH [OF AddKey_holds [OF Cons.prems(1)]] by (simp add: AddKey_def)
qed simp

context filter_policy begin

lemma StartBlock_loop_holds:
  assumes "holds_groups b gs cur" and "fb_policy b = policy" and "length gs \<le> unat i"
  shows "\<exists>gs' cur'. holds_groups (StartBlock_loop i b) gs' cur' \<and> fb_policy (StartBlock_loop i b) = policy
    \<and> length gs' = unat i \<and> grows (gs @ [cur]) (gs' @ [cur']) \<and> concat (gs' @ [cur']) = concat (gs @ [cur])"
  using assms
proof (induction i b arbitrary: gs cur rule: StartBlock_loop.induct)
  case (1 i b)
  have len: "length (fb_filter_offsets b) = length gs" using "1.prems"(1) by (simp add: holds_groups_def)
  show ?case
  proof (cases "unat i > length gs")
    case True
    note g = GenerateFilter_holds [OF "1.prems"(1,2)]
    obtain gs' cur' where IH: "holds_groups (StartBlock_loop i (GenerateFilter b)) gs' cur'"
      "fb_policy (StartBlock_loop i (GenerateFilter b)) = policy" "length gs' = unat i"
      "grows ((gs @ [cur]) @ [[]]) (gs' @ [cur'])" "concat (gs' @ [cur']) = concat ((gs @ [cur]) @ [[]])"
      using "1.IH" [of "gs @ [cur]" "[]"] g len True by (auto simp del: append_assoc)
    have "StartBlock_loop i b = StartBlock_loop i (GenerateFilter b)"
      using True len by (simp add: StartBlock_loop.simps [of i b])
    then show ?thesis using IH grows_trans [OF grows_append IH(4)] by auto
  next
    case False
    then have "StartBlock_loop i b = b" using len by (simp add: StartBlock_loop.simps [of i b])
    then show ?thesis using False "1.prems" grows_refl by auto
  qed
qed

lemma add_block_holds:
  assumes "holds_groups b gs cur" and "fb_policy b = policy" and "length gs \<le> filter_index (fst bl)"
  shows "\<exists>gs' cur'. holds_groups (add_block bl b) gs' cur' \<and> fb_policy (add_block bl b) = policy
    \<and> length gs' = filter_index (fst bl) \<and> grows (gs @ [cur]) (gs' @ [cur'])
    \<and> set (snd bl) \<subseteq> set ((gs' @ [cur']) ! filter_index (fst bl))
    \<and> length (concat (gs' @ [cur'])) = length (concat (gs @ [cur])) + length (snd bl)"
proof -
  obtain gs' cur' where s: "holds_groups (StartBlock b (fst bl)) gs' cur'" "fb_policy (StartBlock b (fst bl)) = policy"
    "length gs' = filter_index (fst bl)" "grows (gs @ [cur]) (gs' @ [cur'])" "concat (gs' @ [cur']) = concat (gs @ [cur])"
    using StartBlock_loop_holds [OF assms(1,2), of "fst bl div kFilterBase"] assms(3)
    by (auto simp: unat_div_kFilterBase StartBlock_def)
  have "grows (gs @ [cur]) (gs' @ [cur' @ snd bl])"
    by (rule grows_trans [OF s(4)]) (simp add: grows_last)
  moreover have "length (concat (gs' @ [cur' @ snd bl])) = length (concat (gs @ [cur])) + length (snd bl)"
    by (simp only: s(5) [symmetric]) simp
  moreover have "set (snd bl) \<subseteq> set ((gs' @ [cur' @ snd bl]) ! filter_index (fst bl))"
    by (simp add: s(3) [symmetric])
  ultimately show ?thesis
    using AddKeys_holds [OF s(1,2), of "snd bl"] s(3) unfolding add_block_def by blast
qed

text \<open>Every key ends up in the group of its block's offset.\<close>

lemma add_blocks_hold:
  assumes "holds_groups b gs cur" and "fb_policy b = policy" and "sorted (map (filter_index \<circ> fst) bls)"
    and "\<forall>bl\<in>set bls. length gs \<le> filter_index (fst bl)"
  shows "\<exists>gs' cur'. holds_groups (fold add_block bls b) gs' cur' \<and> fb_policy (fold add_block bls b) = policy
    \<and> grows (gs @ [cur]) (gs' @ [cur'])
    \<and> (\<forall>bl\<in>set bls. filter_index (fst bl) \<le> length gs' \<and> set (snd bl) \<subseteq> set ((gs' @ [cur']) ! filter_index (fst bl)))
    \<and> length (concat (gs' @ [cur'])) = length (concat (gs @ [cur])) + sum_list (map (length \<circ> snd) bls)"
  using assms
proof (induction bls arbitrary: b gs cur)
  case Nil
  then show ?case using grows_refl by fastforce
next
  case (Cons bl bls)
  from add_block_holds [OF Cons.prems(1,2), of bl] Cons.prems(4)
  obtain gs1 cur1 where s: "holds_groups (add_block bl b) gs1 cur1" "fb_policy (add_block bl b) = policy"
    "length gs1 = filter_index (fst bl)" "grows (gs @ [cur]) (gs1 @ [cur1])"
    "set (snd bl) \<subseteq> set ((gs1 @ [cur1]) ! filter_index (fst bl))"
    "length (concat (gs1 @ [cur1])) = length (concat (gs @ [cur])) + length (snd bl)" by auto
  have "sorted (map (filter_index \<circ> fst) bls)" "\<forall>bl\<in>set bls. length gs1 \<le> filter_index (fst bl)"
    using Cons.prems(3) s(3) by (auto simp: comp_def)
  from Cons.IH [OF s(1,2) this] obtain gs2 cur2 where t: "holds_groups (fold add_block bls (add_block bl b)) gs2 cur2"
    "fb_policy (fold add_block bls (add_block bl b)) = policy" "grows (gs1 @ [cur1]) (gs2 @ [cur2])"
    "\<forall>bl\<in>set bls. filter_index (fst bl) \<le> length gs2 \<and> set (snd bl) \<subseteq> set ((gs2 @ [cur2]) ! filter_index (fst bl))"
    "length (concat (gs2 @ [cur2])) = length (concat (gs1 @ [cur1])) + sum_list (map (length \<circ> snd) bls)" by blast
  have "filter_index (fst bl) \<le> length gs2" "set (snd bl) \<subseteq> set ((gs2 @ [cur2]) ! filter_index (fst bl))"
    using t(3) s(3,5) by (auto simp: grows_def)
  then have "\<forall>bl\<in>set (bl # bls). filter_index (fst bl) \<le> length gs2
      \<and> set (snd bl) \<subseteq> set ((gs2 @ [cur2]) ! filter_index (fst bl))"
    using t(4) by simp
  moreover have "length (concat (gs2 @ [cur2])) = length (concat (gs @ [cur])) + sum_list (map (length \<circ> snd) (bl # bls))"
    by (simp only: t(5) s(6)) simp
  ultimately show ?case using grows_trans [OF s(4) t(3)] t(1,2) unfolding fold_simps by blast
qed

end

section \<open>The block in a table\<close>

definition filter_starts :: "FilterPolicy \<Rightarrow> byte list list list \<Rightarrow> u32 list" where
  "filter_starts p G = map (\<lambda>i. of_nat (length (filters p (take i G)))) [0..<Suc (length G)]"

definition filter_block :: "FilterPolicy \<Rightarrow> byte list list list \<Rightarrow> byte list" where
  "filter_block p G = filters p G @ fixed32_array (filter_starts p G) @ [11]"

context filter_policy begin

lemma Finish_block:
  assumes "holds_groups b gs cur" and "fb_policy b = policy"
  shows "fst (FilterBlock_Finish b) = filter_block policy (if cur = [] then gs else gs @ [cur])"
proof -
  have fin: "fst (FilterBlock_Finish b) = filter_block policy G"
    if "holds_groups b' G []" "fb_policy b' = policy" "b' = (if fb_start b \<noteq> [] then GenerateFilter b else b)" for b' G
    using that unfolding FilterBlock_Finish_def Let_def that(3) [symmetric]
    by (simp add: holds_groups_def filter_block_def filter_starts_def fold_PutFixed32)
      (simp add: PutFixed32_def kFilterBaseLg_def)
  have "fb_start b = [] \<longleftrightarrow> cur = []"
    using assms(1) by (metis holds_groups_def length_0_conv length_starts)
  then show ?thesis
    using fin [of "GenerateFilter b"] fin [of b] GenerateFilter_holds [OF assms] assms by auto
qed

end

section \<open>Lookup\<close>

lemma filters_mono: "i \<le> j \<Longrightarrow> length (filters p (take i G)) \<le> length (filters p (take j G))"
proof -
  assume "i \<le> j"
  then obtain k where "j = i + k" using le_iff_add by blast
  then show ?thesis by (simp add: take_add filters_append del: take_drop_append)
qed

lemma filters_take_le: "length (filters p (take i G)) \<le> length (filters p G)"
  using filters_mono [of i "max i (length G)" p G] by simp

lemma unat_starts:
  assumes "length (filters p G) < 4294967296" and "i \<le> length G"
  shows "i < length (filter_starts p G)" and "unat (filter_starts p G ! i) = length (filters p (take i G))"
proof -
  have "length (filters p (take i G)) < 4294967296" using filters_take_le [of p i G] assms(1) by simp
  then show "unat (filter_starts p G ! i) = length (filters p (take i G))"
    using assms(2) by (simp add: filter_starts_def del: upt_Suc)
  show "i < length (filter_starts p G)" using assms(2) by (simp add: filter_starts_def)
qed

text \<open>The filter between its two offsets.\<close>

lemma filter_between:
  assumes "i < length G"
  shows "take (length (filters p (take (Suc i) G)) - length (filters p (take i G)))
    (drop (length (filters p (take i G))) (filters p G @ rest)) = group_filter p (G ! i)"
proof -
  have one: "filters p [g] = group_filter p g" for g by (simp add: filters_def)
  have "G = take i G @ [G ! i] @ drop (Suc i) G" using assms by (metis append_Cons append_Nil id_take_nth_drop)
  then have "filters p G = filters p (take i G @ [G ! i] @ drop (Suc i) G)" by (rule arg_cong)
  then have "filters p G = filters p (take i G) @ group_filter p (G ! i) @ filters p (drop (Suc i) G)"
    by (simp only: filters_append one)
  moreover have "filters p (take (Suc i) G) = filters p (take i G) @ group_filter p (G ! i)"
    using assms by (simp add: take_Suc_conv_app_nth filters_append one)
  ultimately show ?thesis by simp
qed

lemma FilterBlockReader_new_block:
  assumes "length (filter_block p G) < 4294967296"
  shows "FilterBlockReader_new q (filter_block p G)
    = Some \<lparr>fr_policy = q, fr_data = filter_block p G, fr_offset = length (filters p G),
        fr_num = of_nat (length G), fr_base_lg = 11\<rparr>"
proof -
  let ?n = "length (filter_block p G)"
  have n: "?n = length (filters p G) + 4 * length G + 5" by (simp add: filter_block_def filter_starts_def)
  have F: "length (filters p G) < 4294967296" using assms n by simp
  have "DecodeFixed32 (drop (length (filters p G) + 4 * length G) (filter_block p G)) = Some (filter_starts p G ! length G)"
    unfolding filter_block_def by (rule DecodeFixed32_array) (rule unat_starts [OF F order_refl])
  note last = this
  have lg: "filter_block p G ! (4 + (length (filters p G) + 4 * length G)) = 11"
    by (simp add: filter_block_def nth_append filter_starts_def)
  show ?thesis
    using unat_starts(2) [OF F order_refl] n
    by (simp add: FilterBlockReader_new_def Let_def last lg)
qed

text \<open>Finding the filter of a block.\<close>

lemma KeyMayMatch_block:
  assumes "length (filter_block p G) < 4294967296" and "FilterBlockReader_new q (filter_block p G) = Some r"
  shows "FilterBlock_KeyMayMatch r off key =
    Some (filter_index off < length G \<longrightarrow> fp_KeyMayMatch q key (group_filter p (G ! filter_index off)))"
proof -
  let ?i = "filter_index off"
  have r: "r = \<lparr>fr_policy = q, fr_data = filter_block p G, fr_offset = length (filters p G),
        fr_num = of_nat (length G), fr_base_lg = 11\<rparr>"
    using assms(2) FilterBlockReader_new_block [OF assms(1), of q] by simp
  have n: "length (filters p G) + 4 * length G + 5 < 4294967296"
    using assms(1) by (simp add: filter_block_def filter_starts_def)
  have F: "length (filters p G) < 4294967296" using n by simp
  have i: "unat (drop_bit 11 off) = ?i" by (simp add: unat_drop_bit_div filter_index_def)
  have less: "drop_bit 11 off < of_nat (length G) \<longleftrightarrow> ?i < length G" using n by (simp add: word_less_nat_alt i)
  have sh: "\<not> (64 \<le> (11 :: size_t))" "unat (11 :: size_t) = 11" by simp_all
  show ?thesis
  proof (cases "?i < length G")
    case True
    note s = unat_starts [OF F, of ?i] unat_starts [OF F, of "Suc ?i"]
    have dec: "DecodeFixed32 (drop (length (filters p G) + j * 4) (filter_block p G)) = Some (filter_starts p G ! j)"
      if "j \<le> length G" for j
      using DecodeFixed32_array [of j "filter_starts p G" "filters p G" "[11]"] unat_starts(1) [OF F that]
      by (simp add: filter_block_def mult.commute)
    have le: "filter_starts p G ! ?i \<le> filter_starts p G ! Suc ?i" "unat (filter_starts p G ! Suc ?i) \<le> length (filters p G)"
      using s True filters_mono [of ?i "Suc ?i" p G] filters_take_le [of p "Suc ?i" G] by (auto simp: word_le_nat_alt)
    have "unat (filter_starts p G ! Suc ?i - filter_starts p G ! ?i)
        = length (filters p (take (Suc ?i) G)) - length (filters p (take ?i G))"
      using s True le(1) by (simp add: unat_sub)
    moreover have "length (filters p G) + Suc ?i * 4 = length (filters p G) + ?i * 4 + 4" by simp
    then have "DecodeFixed32 (drop (length (filters p G) + ?i * 4 + 4) (filter_block p G)) = Some (filter_starts p G ! Suc ?i)"
      using dec [of "Suc ?i"] True by (simp only: Suc_leI)
    moreover have "take (length (filters p (take (Suc ?i) G)) - length (filters p (take ?i G)))
        (drop (length (filters p (take ?i G))) (filter_block p G)) = group_filter p (G ! ?i)"
      unfolding filter_block_def by (rule filter_between [OF True])
    ultimately show ?thesis
      using True dec [of ?i] le s(2,4) by (simp add: FilterBlock_KeyMayMatch_def r Let_def sh i less)
  qed (simp add: FilterBlock_KeyMayMatch_def r Let_def sh less)
qed

text \<open>
  A filter block finds every key: when the data blocks of a table are added in the order
  of their offsets, the reader of the finished block answers yes for each key at the offset
  of its data block, and answers for every other key. The policy is any that keeps the
  contract of policies for as many keys as there are; the block is shorter than four
  gigabytes.
\<close>

lemma filter_block_groups:
  assumes "filter_policy policy most" and "sorted (map (unat \<circ> fst) bls)"
  shows "\<exists>G. fst (FilterBlock_Finish (fold add_block bls (FilterBlockBuilder_new policy))) = filter_block policy G
    \<and> length (concat G) = sum_list (map (length \<circ> snd) bls)
    \<and> (\<forall>off keys key. (off, keys) \<in> set bls \<longrightarrow> key \<in> set keys \<longrightarrow> filter_index off < length G \<and> key \<in> set (G ! filter_index off))"
proof -
  let ?b = "fold add_block bls (FilterBlockBuilder_new policy)"
  have "holds_groups (FilterBlockBuilder_new policy) [] []" "fb_policy (FilterBlockBuilder_new policy) = policy"
    by (simp_all add: holds_groups_def FilterBlockBuilder_new_def filters_def)
  moreover have "sorted (map (filter_index \<circ> fst) bls)"
    using assms(2) by (auto simp: filter_index_def sorted_map comp_def elim!: sorted_wrt_mono_rel [rotated] intro: div_le_mono)
  ultimately obtain gs cur where g: "holds_groups ?b gs cur" "fb_policy ?b = policy"
    "\<forall>bl\<in>set bls. filter_index (fst bl) \<le> length gs \<and> set (snd bl) \<subseteq> set ((gs @ [cur]) ! filter_index (fst bl))"
    "length (concat (gs @ [cur])) = sum_list (map (length \<circ> snd) bls)"
    using filter_policy.add_blocks_hold [OF assms(1), of "FilterBlockBuilder_new policy" "[]" "[]" bls] by auto
  define G where "G = (if cur = [] then gs else gs @ [cur])"
  have "filter_index off < length G \<and> key \<in> set (G ! filter_index off)" if "(off, keys) \<in> set bls" "key \<in> set keys" for off keys key
    using bspec [OF g(3) that(1)] that(2) by (auto simp: G_def nth_append split: if_splits)
  moreover have "fst (FilterBlock_Finish ?b) = filter_block policy G"
    using filter_policy.Finish_block [OF assms(1) g(1,2)] by (simp add: G_def)
  moreover have "length (concat G) = sum_list (map (length \<circ> snd) bls)" using g(4) by (auto simp: G_def)
  ultimately show ?thesis by blast
qed

lemma filter_block_finds_keys:
  assumes "filter_policy policy most"
    and "sorted (map (unat \<circ> fst) bls)" and "sum_list (map (length \<circ> snd) bls) \<le> most"
    and "contents = fst (FilterBlock_Finish (fold add_block bls (FilterBlockBuilder_new policy)))"
    and "length contents < 2 ^ 32"
  shows "\<exists>r. FilterBlockReader_new policy contents = Some r
    \<and> (\<forall>off key. \<exists>b. FilterBlock_KeyMayMatch r off key = Some b
         \<and> ((\<exists>keys. (off, keys) \<in> set bls \<and> key \<in> set keys) \<longrightarrow> b))"
proof -
  obtain G where G: "contents = filter_block policy G" "length (concat G) = sum_list (map (length \<circ> snd) bls)"
    "\<And>off keys key. (off, keys) \<in> set bls \<Longrightarrow> key \<in> set keys \<Longrightarrow> filter_index off < length G \<and> key \<in> set (G ! filter_index off)"
    using filter_block_groups [OF assms(1,2)] assms(4) by blast
  have small: "length (filter_block policy G) < 4294967296" using assms(5) by (simp add: G(1))
  obtain r where r: "FilterBlockReader_new policy contents = Some r"
    using FilterBlockReader_new_block [OF small, of policy] by (simp add: G(1))
  have "fp_KeyMayMatch policy key (group_filter policy (G ! filter_index off))"
    if k: "(off, keys) \<in> set bls" "key \<in> set keys" for off keys key
  proof -
    have i: "filter_index off < length G" "key \<in> set (G ! filter_index off)" using G(3) [OF k] by blast+
    have "length (G ! filter_index off) \<le> length (concat G)"
      using i(1) by (simp add: length_concat member_le_sum_list)
    also have "\<dots> \<le> most" using G(2) assms(3) by simp
    finally show ?thesis
      using filter_policy.KeyMayMatch_created [OF assms(1) i(2)] i(2) by (auto simp: group_filter_def)
  qed
  then show ?thesis
    using r KeyMayMatch_block [OF small r [unfolded G(1)]] by (intro exI [of _ r]) (auto simp: G(1))
qed

end
