(* ===== verification/LDB_CRC.thy ===== *)
theory LDB_CRC
  imports LDB_CRC_Tables
begin

text \<open>
  \<^verbatim>\<open>util/crc32c.h\<close> and \<^verbatim>\<open>util/crc32c.cc\<close> of
  \<^verbatim>\<open>src/MovieDBApp/Pods/leveldb-library\<close>: the checksum of log records and blocks.

  \<^verbatim>\<open>Extend\<close> works on a buffer at some address, since what it does first depends on the
  alignment; it takes sixteen bytes at a time in four interleaved strides through four
  tables. It is shown to be the bitwise CRC of the Castagnoli polynomial for every buffer
  and alignment, and that no read leaves the buffer or a table.
\<close>

section \<open>The code\<close>

definition kCRC32Xor :: u32 where
  "kCRC32Xor = 0xffffffff"

definition ReadUint32LE :: "byte list \<Rightarrow> u32 option" where
  "ReadUint32LE buffer = DecodeFixed32 buffer"

definition RoundUp :: "u64 \<Rightarrow> addr \<Rightarrow> addr" where
  "RoundUp N pointer = (pointer + (N - 1)) AND NOT (N - 1)"

text \<open>This build does not define \<^verbatim>\<open>HAVE_CRC32C\<close>.\<close>

definition AcceleratedCRC32C :: "u32 \<Rightarrow> byte list \<Rightarrow> u32" where
  "AcceleratedCRC32C crc buf = 0"

definition CanAccelerateCRC32C :: bool where
  "CanAccelerateCRC32C \<longleftrightarrow>
     AcceleratedCRC32C 0 [0x54, 0x65, 0x73, 0x74, 0x43, 0x52, 0x43, 0x42, 0x75, 0x66, 0x66, 0x65, 0x72]
       = 0xdcbc59fa"

definition STEP1 :: "u32 \<Rightarrow> byte \<Rightarrow> u32" where
  "STEP1 l b =
     (let c = (l AND 0xff) XOR ucast b in kByteExtensionTable ! unat c XOR drop_bit 8 l)"

definition STEP4 :: "nat \<Rightarrow> byte list \<Rightarrow> u32 \<Rightarrow> u32 option" where
  "STEP4 s p crc =
     do {
       w \<leftarrow> ReadUint32LE (drop (s * 4) p);
       Some (w XOR kStrideExtensionTable3 ! unat (crc AND 0xff)
         XOR kStrideExtensionTable2 ! unat (drop_bit 8 crc AND 0xff)
         XOR kStrideExtensionTable1 ! unat (drop_bit 16 crc AND 0xff)
         XOR kStrideExtensionTable0 ! unat (drop_bit 24 crc))
     }"

type_synonym strides = "u32 \<times> u32 \<times> u32 \<times> u32"

definition STEP16 :: "byte list \<Rightarrow> strides \<Rightarrow> strides option" where
  "STEP16 p crcs =
     (case crcs of (crc0, crc1, crc2, crc3) \<Rightarrow> do {
        crc0 \<leftarrow> STEP4 0 p crc0;
        crc1 \<leftarrow> STEP4 1 p crc1;
        crc2 \<leftarrow> STEP4 2 p crc2;
        crc3 \<leftarrow> STEP4 3 p crc3;
        Some (crc0, crc1, crc2, crc3)
      })"

definition STEP4W_round :: "u32 \<Rightarrow> u32" where
  "STEP4W_round w = drop_bit 8 w XOR kByteExtensionTable ! unat (w AND 0xff)"

definition STEP4W :: "u32 \<Rightarrow> u32 \<Rightarrow> u32" where
  "STEP4W w l = (STEP4W_round ^^ 4) (w XOR l)"

text \<open>\<^verbatim>\<open>while (p != x) STEP1;\<close> the bytes from \<open>p\<close> on are the list.\<close>

primrec step1_until :: "addr \<Rightarrow> byte list \<Rightarrow> addr \<Rightarrow> u32 \<Rightarrow> (byte list \<times> u32) option" where
  "step1_until x [] p l = (if p = x then Some ([], l) else None)"
| "step1_until x (b # bs) p l =
     (if p = x then Some (b # bs, l) else step1_until x bs (p + 1) (STEP1 l b))"

text \<open>\<^verbatim>\<open>while ((e - p) >= 16) STEP16;\<close> and \<^verbatim>\<open>while ((e - p) >= 4)\<close> with the rotation of the strides.\<close>

function swaths :: "byte list \<Rightarrow> strides \<Rightarrow> (byte list \<times> strides) option" where
  "swaths p crcs =
     (if length p \<ge> 16 then do { crcs \<leftarrow> STEP16 p crcs; swaths (drop 16 p) crcs }
      else Some (p, crcs))"
  by pat_completeness auto
termination by (relation "measure (\<lambda>(p, crcs). length p)") auto

function words :: "byte list \<Rightarrow> strides \<Rightarrow> (byte list \<times> strides) option" where
  "words p (crc0, crc1, crc2, crc3) =
     (if length p \<ge> 4
      then do { crc0 \<leftarrow> STEP4 0 p crc0; words (drop 4 p) (crc1, crc2, crc3, crc0) }
      else Some (p, crc0, crc1, crc2, crc3))"
  by pat_completeness auto
termination by (relation "measure (\<lambda>(p, crcs). length p)") auto

declare swaths.simps [simp del] words.simps [simp del]

text \<open>The branch for at least sixteen bytes.\<close>

definition extend_strides :: "byte list \<Rightarrow> u32 \<Rightarrow> (byte list \<times> u32) option" where
  "extend_strides p l =
     do {
       w0 \<leftarrow> ReadUint32LE (drop (0 * 4) p);
       crc1 \<leftarrow> ReadUint32LE (drop (1 * 4) p);
       crc2 \<leftarrow> ReadUint32LE (drop (2 * 4) p);
       crc3 \<leftarrow> ReadUint32LE (drop (3 * 4) p);
       (p, crcs) \<leftarrow> swaths (drop 16 p) (w0 XOR l, crc1, crc2, crc3);
       (p, crc0, crc1, crc2, crc3) \<leftarrow> words p crcs;
       Some (p, STEP4W crc3 (STEP4W crc2 (STEP4W crc1 (STEP4W crc0 0))))
     }"

definition Extend :: "u32 \<Rightarrow> addr \<Rightarrow> byte list \<Rightarrow> u32 option" where
  "Extend crc p data =
     (if CanAccelerateCRC32C then Some (AcceleratedCRC32C crc data)
      else let e = p + of_nat (length data);
               l = crc XOR kCRC32Xor;
               x = RoundUp 4 p
           in do {
             (rest, l) \<leftarrow> (if x \<le> e then step1_until x data p l else Some (data, l));
             (rest, l) \<leftarrow> (if length rest \<ge> 16 then extend_strides rest l else Some (rest, l));
             Some (foldl STEP1 l rest XOR kCRC32Xor)
           })"

definition Value :: "addr \<Rightarrow> byte list \<Rightarrow> u32 option" where
  "Value p data = Extend 0 p data"

definition kMaskDelta :: u32 where
  "kMaskDelta = 0xa282ead8"

definition Mask :: "u32 \<Rightarrow> u32" where
  "Mask crc = (drop_bit 15 crc OR push_bit 17 crc) + kMaskDelta"

definition Unmask :: "u32 \<Rightarrow> u32" where
  "Unmask masked_crc = (let rot = masked_crc - kMaskDelta in drop_bit 17 rot OR push_bit 15 rot)"

section \<open>The bitwise CRC\<close>

text \<open>One step of the shift register with the reversed polynomial \<open>0x82f63b78\<close>, \<open>n\<close> steps, and a byte.\<close>

definition crc_bit :: "u32 \<Rightarrow> u32" where
  "crc_bit l = drop_bit 1 l XOR (if bit l 0 then 0x82f63b78 else 0)"

primrec crc_bits :: "nat \<Rightarrow> u32 \<Rightarrow> u32" where
  "crc_bits 0 x = x"
| "crc_bits (Suc n) x = crc_bits n (crc_bit x)"

definition crc_byte :: "u32 \<Rightarrow> byte \<Rightarrow> u32" where
  "crc_byte l b = crc_bits 8 (l XOR ucast b)"

definition crc32c :: "u32 \<Rightarrow> byte list \<Rightarrow> u32" where
  "crc32c crc data = NOT (foldl crc_byte (NOT crc) data)"

text \<open>The steps are linear over the two-element field.\<close>

lemma crc_bit_xor: "crc_bit (x XOR y) = crc_bit x XOR crc_bit y"
  by (rule bit_word_eqI) (auto simp: crc_bit_def bit_simps)

lemma crc_bits_xor: "crc_bits n (x XOR y) = crc_bits n x XOR crc_bits n y"
  by (induction n arbitrary: x y) (simp_all add: crc_bit_xor)

lemma crc_bits_add: "crc_bits (m + n) x = crc_bits n (crc_bits m x)"
  by (induction m arbitrary: x) simp_all

lemma crc_bits_0 [simp]: "crc_bits n 0 = 0"
  by (induction n) (simp_all add: crc_bit_def)

lemma crc_bits_low: "take_bit n x = 0 \<Longrightarrow> crc_bits n x = drop_bit n x"
proof (induction n arbitrary: x)
  case 0
  then show ?case by simp
next
  case (Suc n)
  have low: "\<not> bit x i" if "i < Suc n" for i
    using Suc.prems that by (metis bit_0_eq bit_take_bit_iff bot_apply bot_bool_def)
  then have "crc_bit x = drop_bit 1 x" by (simp add: crc_bit_def)
  moreover have "take_bit n (drop_bit 1 x) = 0"
    by (rule bit_word_eqI) (auto simp: bit_simps low)
  ultimately show ?case using Suc.IH [of "drop_bit 1 x"] by simp
qed

lemma crc_bits_push:
  assumes "take_bit m x = x" and "m + k \<le> 32" and "k \<le> n"
  shows "crc_bits n (push_bit k x) = crc_bits (n - k) x"
proof -
  have "take_bit k (push_bit k x) = 0"
    by (rule bit_word_eqI) (auto simp: bit_simps)
  moreover have "drop_bit k (push_bit k x) = x"
  proof (rule bit_word_eqI)
    fix i
    have "bit x i \<Longrightarrow> i < m" by (metis assms(1) bit_take_bit_iff)
    then show "bit (drop_bit k (push_bit k x)) i = bit x i"
      using assms(2) by (auto simp: bit_simps)
  qed
  ultimately have "crc_bits k (push_bit k x) = x" by (simp add: crc_bits_low)
  then show ?thesis using crc_bits_add [of k "n - k" "push_bit k x"] assms(3) by simp
qed

section \<open>The tables\<close>

text \<open>
  A table of a linear function is determined by its values at the powers of two, given
  here from the highest on.
\<close>

primrec linear_table :: "u32 list \<Rightarrow> u32 list" where
  "linear_table [] = [0]"
| "linear_table (b # bs) = (let t = linear_table bs in t @ map (\<lambda>x. b XOR x) t)"

lemma length_linear_table [simp]: "length (linear_table bs) = 2 ^ length bs"
  by (induction bs) (simp_all add: Let_def)

lemma of_nat_high_bit:
  assumes "i < 2 ^ k"
  shows "of_nat (2 ^ k + i) = (2 ^ k XOR of_nat i :: u32)"
proof -
  have low: "bit i j \<Longrightarrow> j < k" for j
    using assms take_bit_nat_eq_self [of i k] by (metis bit_take_bit_iff)
  have "2 ^ k AND of_nat i = (0 :: u32)"
    by (rule bit_word_eqI) (auto simp: bit_simps dest: low)
  moreover have "2 ^ k XOR of_nat i = (2 ^ k OR of_nat i :: u32)"
    by (rule bit_word_eqI) (auto simp: bit_simps dest: low)
  ultimately show ?thesis by (simp add: or_disjoint_add)
qed

lemma linear_table_nth:
  fixes f :: "u32 \<Rightarrow> u32"
  assumes "\<And>x y. f (x XOR y) = f x XOR f y" and "i < 2 ^ k"
  shows "linear_table (map (\<lambda>j. f (2 ^ j)) (rev [0..<k])) ! i = f (of_nat i)"
  using assms(2)
proof (induction k arbitrary: i)
  case 0
  have "f 0 = 0" using assms(1) [of 0 0] by simp
  then show ?case using 0 by simp
next
  case (Suc k)
  show ?case
  proof (cases "i < 2 ^ k")
    case True
    then show ?thesis using Suc.IH [OF True] by (simp add: Let_def nth_append)
  next
    case False
    then have i: "i - 2 ^ k < 2 ^ k" "2 ^ k + (i - 2 ^ k) = i" using Suc.prems by auto
    have "f (of_nat i) = f (2 ^ k) XOR f (of_nat (i - 2 ^ k))"
      using of_nat_high_bit [OF i(1)] assms(1) unfolding i(2) by simp
    then show ?thesis
      using False Suc.IH [OF i(1)] i by (simp add: Let_def nth_append del: of_nat_diff)
  qed
qed

text \<open>The steps from 1, the values the tables are built from.\<close>

primrec crc_chain :: "nat \<Rightarrow> u32 \<Rightarrow> u32 list" where
  "crc_chain 0 x = []"
| "crc_chain (Suc n) x = x # crc_chain n (crc_bit x)"

lemma crc_chain_eq: "crc_chain n (crc_bits a 1) = map (\<lambda>j. crc_bits (a + n - 1 - j) 1) (rev [0..<n])"
proof (induction n arbitrary: a)
  case 0
  then show ?case by simp
next
  case (Suc n)
  have "crc_bit (crc_bits a 1) = crc_bits (Suc a) 1" using crc_bits_add [of a 1 1] by simp
  then show ?case using Suc.IH [of "Suc a"] by simp
qed

lemma crc_numeral [simp]:
  "crc_bits (numeral k) x = crc_bits (pred_numeral k) (crc_bit x)"
  "crc_chain (numeral k) x = x # crc_chain (pred_numeral k) (crc_bit x)"
  by (simp_all add: numeral_eq_Suc)

lemma stride_table_nth:
  assumes "table = linear_table (crc_chain 8 (crc_bits a 1))" and "a + s + 7 = n" and "s \<le> 24"
    and "i < 256"
  shows "table ! i = crc_bits n (push_bit s (of_nat i))"
proof -
  have "crc_bits n (push_bit s (2 ^ j)) = crc_bits (a + 8 - 1 - j) 1" if "j < 8" for j
  proof -
    have "push_bit s (2 ^ j) = (push_bit (s + j) 1 :: u32)"
      by (simp only: push_bit_of_1 [symmetric] push_bit_push_bit)
    moreover have "n - (s + j) = a + 8 - 1 - j" using assms(2) that by simp
    ultimately show ?thesis
      using crc_bits_push [of 1 1 "s + j" n] assms(2,3) that by simp
  qed
  then have "crc_chain 8 (crc_bits a 1) = map (\<lambda>j. crc_bits n (push_bit s (2 ^ j))) (rev [0..<8])"
    unfolding crc_chain_eq by (intro map_cong) auto
  then show ?thesis
    using linear_table_nth [of "\<lambda>x. crc_bits n (push_bit s x)" i 8] assms(1,4)
    by (simp add: crc_bits_xor)
qed

lemma byte_table: "kByteExtensionTable = linear_table (crc_chain 8 (crc_bits 1 1))"
  by (simp add: kByteExtensionTable_def crc_bit_def Let_def)

lemma stride_table0: "kStrideExtensionTable0 = linear_table (crc_chain 8 (crc_bits 97 1))"
  by (simp add: kStrideExtensionTable0_def crc_bit_def Let_def)

lemma stride_table1: "kStrideExtensionTable1 = linear_table (crc_chain 8 (crc_bits 105 1))"
  by (simp add: kStrideExtensionTable1_def crc_bit_def Let_def)

lemma stride_table2: "kStrideExtensionTable2 = linear_table (crc_chain 8 (crc_bits 113 1))"
  by (simp add: kStrideExtensionTable2_def crc_bit_def Let_def)

lemma stride_table3: "kStrideExtensionTable3 = linear_table (crc_chain 8 (crc_bits 121 1))"
  by (simp add: kStrideExtensionTable3_def crc_bit_def Let_def)

declare crc_numeral [simp del]

lemma stride_nth:
  assumes "i < 256"
  shows "kByteExtensionTable ! i = crc_bits 8 (of_nat i)"
    "kStrideExtensionTable0 ! i = crc_bits 128 (push_bit 24 (of_nat i))"
    "kStrideExtensionTable1 ! i = crc_bits 128 (push_bit 16 (of_nat i))"
    "kStrideExtensionTable2 ! i = crc_bits 128 (push_bit 8 (of_nat i))"
    "kStrideExtensionTable3 ! i = crc_bits 128 (of_nat i)"
  using stride_table_nth [OF byte_table, of 0 8 i] stride_table_nth [OF stride_table0, of 24 128 i]
    stride_table_nth [OF stride_table1, of 16 128 i] stride_table_nth [OF stride_table2, of 8 128 i]
    stride_table_nth [OF stride_table3, of 0 128 i] assms
  by (simp_all)

lemma unat_low_byte: "unat (w AND 0xff) < 256" for w :: u32
proof -
  have "w AND 0xff = take_bit 8 w" by (simp add: take_bit_eq_mask mask_eq_exp_minus_1)
  then show ?thesis by (simp add: unat_take_bit_mod)
qed

lemma unat_high_byte: "unat (drop_bit 24 w) < 256" for w :: u32
  using unat_lt_32 [of w] by (simp add: unat_drop_bit_div div_less_iff_less_mult del: unat_lt_32)

section \<open>The steps\<close>

lemma and_0xff: "w AND 0xff = take_bit 8 w" for w :: u32
  by (simp add: take_bit_eq_mask mask_eq_exp_minus_1)

lemma STEP1_eq: "STEP1 l b = crc_byte l b"
proof -
  let ?x = "l XOR ucast b"
  have low: "(l AND 0xff) XOR ucast b = take_bit 8 ?x"
    unfolding and_0xff by (rule bit_word_eqI) (auto simp: bit_simps dest: bit_imp_le_length)
  have "?x = take_bit 8 ?x XOR (?x AND NOT (mask 8))"
    by (rule bit_word_eqI) (auto simp: bit_simps)
  then have "crc_bits 8 ?x = crc_bits 8 (take_bit 8 ?x) XOR crc_bits 8 (?x AND NOT (mask 8))"
    by (metis crc_bits_xor)
  moreover have "crc_bits 8 (?x AND NOT (mask 8)) = drop_bit 8 (?x AND NOT (mask 8))"
    by (rule crc_bits_low) (rule bit_word_eqI, auto simp: bit_simps)
  moreover have "drop_bit 8 (?x AND NOT (mask 8)) = drop_bit 8 l"
    by (rule bit_word_eqI) (auto simp: bit_simps dest: bit_imp_le_length)
  moreover have "unat (take_bit 8 ?x) < 256" by (simp only: unat_take_bit_mod) simp
  ultimately show ?thesis
    unfolding STEP1_def crc_byte_def Let_def low by (simp add: stride_nth)
qed

lemma STEP4W_round_eq: "STEP4W_round w = crc_bits 8 w"
  using STEP1_eq [of w 0] unfolding STEP4W_round_def STEP1_def crc_byte_def Let_def
  by (simp add: xor.commute)

lemma STEP4W_eq: "STEP4W w l = crc_bits 32 (w XOR l)"
proof -
  have "(crc_bits 8 ^^ k) x = crc_bits (8 * k) x" for k x
    by (induction k arbitrary: x) (simp_all add: crc_bits_add funpow_swap1 del: funpow.simps add: funpow_Suc_right)
  from this [of 4] show ?thesis
    unfolding STEP4W_def STEP4W_round_eq [abs_def] by (simp)
qed

lemma ReadUint32LE_eq: "ReadUint32LE p = (if length p < 4 then None else Some (le_word (take 4 p)))"
  by (simp add: ReadUint32LE_def DecodeFixed32_def kLittleEndian_def)

lemma word_bytes:
  "w = (w AND 0xff) XOR push_bit 8 (drop_bit 8 w AND 0xff) XOR push_bit 16 (drop_bit 16 w AND 0xff)
     XOR push_bit 24 (drop_bit 24 w)" for w :: u32
  unfolding and_0xff by (rule bit_word_eqI) (auto simp: bit_simps)

lemma STEP4_eq:
  "length p \<ge> s * 4 + 4 \<Longrightarrow> STEP4 s p c = Some (le_word (take 4 (drop (s * 4) p)) XOR crc_bits 128 c)"
proof -
  assume "length p \<ge> s * 4 + 4"
  moreover have "crc_bits 128 c = crc_bits 128 (c AND 0xff) XOR crc_bits 128 (push_bit 8 (drop_bit 8 c AND 0xff))
      XOR crc_bits 128 (push_bit 16 (drop_bit 16 c AND 0xff)) XOR crc_bits 128 (push_bit 24 (drop_bit 24 c))"
    by (subst word_bytes [of c]) (simp only: crc_bits_xor)
  ultimately show ?thesis
    by (simp add: STEP4_def ReadUint32LE_eq stride_nth unat_low_byte unat_high_byte xor.assoc)
qed

text \<open>Whole words at a time, and the register that four strides stand for.\<close>

lemma crc_bytes_word:
  "length bs \<le> 4 \<Longrightarrow> foldl crc_byte l bs = crc_bits (8 * length bs) (l XOR le_word bs)"
proof (induction bs arbitrary: l)
  case Nil
  then show ?case by simp
next
  case (Cons b bs)
  have "le_word (b # bs) = ucast b XOR push_bit 8 (le_word bs :: u32)"
    by (rule bit_word_eqI) (auto simp: bit_simps dest: bit_imp_le_length)
  moreover have "crc_bits 8 (push_bit 8 (le_word bs)) = (le_word bs :: u32)"
  proof -
    have "take_bit 24 (le_word bs :: u32) = le_word bs"
      using Cons.prems by (intro take_bit_le_word) simp
    from crc_bits_push [OF this, of 8 8] show ?thesis by simp
  qed
  ultimately have "crc_bits 8 (l XOR le_word (b # bs)) = crc_byte l b XOR le_word bs"
    unfolding crc_byte_def by (simp only: crc_bits_xor xor.assoc)
  then show ?case
    using Cons crc_bits_add [of 8 "8 * length bs" "l XOR le_word (b # bs)"] by (simp del: le_word.simps)
qed

definition strides_reg :: "strides \<Rightarrow> u32" where
  "strides_reg c = (case c of (c0, c1, c2, c3) \<Rightarrow>
     crc_bits 128 c0 XOR crc_bits 96 c1 XOR crc_bits 64 c2 XOR crc_bits 32 c3)"

lemma crc_bits_comb: "crc_bits n (crc_bits m x) = crc_bits (m + n) x"
  by (simp add: crc_bits_add)

lemmas crc_linear = crc_bits_xor crc_bits_comb xor.assoc xor.commute xor.left_commute

lemma crc_word: "length bs = 4 \<Longrightarrow> foldl crc_byte l bs = crc_bits 32 (l XOR le_word bs)"
  using crc_bytes_word [of bs l] by simp

lemma crc_word4:
  assumes "length p \<ge> 16"
  shows "foldl crc_byte l (take 16 p)
    = strides_reg (le_word (take 4 p) XOR l, le_word (take 4 (drop 4 p)), le_word (take 4 (drop 8 p)),
        le_word (take 4 (drop 12 p)))"
proof -
  have "take (4 + (4 + (4 + 4))) p = take 4 p @ take 4 (drop 4 p) @ take 4 (drop 8 p) @ take 4 (drop 12 p)"
    by (simp only: take_add drop_drop) simp
  then have "take 16 p = take 4 p @ take 4 (drop 4 p) @ take 4 (drop 8 p) @ take 4 (drop 12 p)" by simp
  then show ?thesis
    using assms by (simp add: crc_word strides_reg_def crc_linear)
qed

lemma STEP16_eq:
  assumes "length p \<ge> 16"
  shows "\<exists>c'. STEP16 p c = Some c' \<and> strides_reg c' = foldl crc_byte (strides_reg c) (take 16 p)"
proof -
  obtain c0 c1 c2 c3 where c: "c = (c0, c1, c2, c3)" by (cases c)
  show ?thesis
    unfolding crc_word4 [OF assms] c
    using assms STEP4_eq [of 0 p c0] STEP4_eq [of 1 p c1] STEP4_eq [of 2 p c2] STEP4_eq [of 3 p c3]
    by (simp add: STEP16_def strides_reg_def crc_linear)
qed

lemma foldl_take_add: "foldl f (foldl f a (take m xs)) (take k (drop m xs)) = foldl f a (take (m + k) xs)"
  by (simp only: take_add foldl_append)

lemma swaths_eq:
  "\<exists>k c'. swaths p c = Some (drop k p, c') \<and> strides_reg c' = foldl crc_byte (strides_reg c) (take k p)"
proof (induction p c rule: swaths.induct)
  case (1 p c)
  show ?case
  proof (cases "length p \<ge> 16")
    case False
    then show ?thesis by (intro exI [of _ 0] exI [of _ c]) (simp add: swaths.simps [of p c])
  next
    case True
    obtain c1 where c1: "STEP16 p c = Some c1" "strides_reg c1 = foldl crc_byte (strides_reg c) (take 16 p)"
      using STEP16_eq [OF True] by blast
    obtain k c' where "swaths (drop 16 p) c1 = Some (drop k (drop 16 p), c')"
      "strides_reg c' = foldl crc_byte (strides_reg c1) (take k (drop 16 p))"
      using "1.IH" [OF True c1(1)] by blast
    then show ?thesis
      using True c1
      by (intro exI [of _ "16 + k"] exI [of _ c'])
        (simp add: swaths.simps [of p c] foldl_take_add add.commute)
  qed
qed

lemma words_eq:
  "\<exists>k c'. words p c = Some (drop k p, c') \<and> strides_reg c' = foldl crc_byte (strides_reg c) (take k p)"
proof (induction p c rule: words.induct)
  case (1 p c0 c1 c2 c3)
  show ?case
  proof (cases "length p \<ge> 4")
    case False
    then show ?thesis
      by (intro exI [of _ 0] exI [of _ "(c0, c1, c2, c3)"]) (simp add: words.simps [of p c0])
  next
    case True
    let ?c = "(c1, c2, c3, le_word (take 4 p) XOR crc_bits 128 c0)"
    have step: "STEP4 0 p c0 = Some (le_word (take 4 p) XOR crc_bits 128 c0)"
      using STEP4_eq [of 0 p c0] True by simp
    have reg: "strides_reg ?c = foldl crc_byte (strides_reg (c0, c1, c2, c3)) (take 4 p)"
      using True by (simp add: crc_word strides_reg_def crc_linear)
    obtain k c' where "words (drop 4 p) ?c = Some (drop k (drop 4 p), c')"
      "strides_reg c' = foldl crc_byte (strides_reg ?c) (take k (drop 4 p))"
      using "1.IH" [OF True step] by blast
    then show ?thesis
      using True step reg
      by (intro exI [of _ "4 + k"] exI [of _ c'])
        (simp add: words.simps [of p c0] foldl_take_add add.commute)
  qed
qed

lemma extend_strides_eq:
  assumes "length p \<ge> 16"
  shows "\<exists>k. extend_strides p l = Some (drop k p, foldl crc_byte l (take k p))"
proof -
  let ?c = "(le_word (take 4 p) XOR l, le_word (take 4 (drop 4 p)), le_word (take 4 (drop 8 p)),
        le_word (take 4 (drop 12 p)))"
  obtain k1 c1 where s: "swaths (drop 16 p) ?c = Some (drop k1 (drop 16 p), c1)"
    "strides_reg c1 = foldl crc_byte (strides_reg ?c) (take k1 (drop 16 p))"
    using swaths_eq by blast
  obtain k2 d0 d1 d2 d3 where w: "words (drop k1 (drop 16 p)) c1 = Some (drop k2 (drop k1 (drop 16 p)), d0, d1, d2, d3)"
    "strides_reg (d0, d1, d2, d3) = foldl crc_byte (strides_reg c1) (take k2 (drop k1 (drop 16 p)))"
    using words_eq [of "drop k1 (drop 16 p)" c1] by (metis prod_cases4)
  have "strides_reg (d0, d1, d2, d3) = foldl crc_byte l (take (16 + (k1 + k2)) p)"
    unfolding w(2) s(2) crc_word4 [OF assms, symmetric] drop_drop foldl_take_add
    by (simp only: foldl_take_add drop_drop add.commute add.left_commute add.assoc)
  moreover have "STEP4W d3 (STEP4W d2 (STEP4W d1 (STEP4W d0 0))) = strides_reg (d0, d1, d2, d3)"
    by (simp add: STEP4W_eq strides_reg_def crc_linear)
  moreover have "drop k2 (drop k1 (drop 16 p)) = drop (16 + (k1 + k2)) p"
    by (simp only: drop_drop add.commute add.left_commute add.assoc)
  moreover have "4 \<le> length p - 12" "4 \<le> length p - 8" "4 \<le> length p - 4"
    using assms by linarith+
  ultimately have "extend_strides p l = Some (drop (16 + (k1 + k2)) p, foldl crc_byte l (take (16 + (k1 + k2)) p))"
    using assms s(1) w(1) by (simp add: extend_strides_def ReadUint32LE_eq not_less)
  then show ?thesis by blast
qed

lemma step1_until_eq:
  "unat (x - p) \<le> length bs \<Longrightarrow> step1_until x bs p l
     = Some (drop (unat (x - p)) bs, foldl crc_byte l (take (unat (x - p)) bs))"
proof (induction bs arbitrary: p l)
  case Nil
  then have "x - p = 0" by (simp add: unat_eq_zero)
  then show ?case by simp
next
  case (Cons b bs)
  show ?case
  proof (cases "p = x")
    case True
    then show ?thesis by simp
  next
    case False
    then have "x - p \<noteq> 0" by simp
    then have "unat (x - p) = Suc (unat (x - (p + 1)))"
      by (simp add: unat_minus_one unat_gt_0 flip: diff_diff_eq)
    then show ?thesis using Cons False by (simp add: STEP1_eq)
  qed
qed

lemma RoundUp_4: "\<exists>d. RoundUp 4 p = p + d \<and> unat d \<le> 3"
proof -
  let ?d = "3 - ((p + 3) AND 3)"
  have and_3: "unat (w AND 3) \<le> 3" for w :: u64
  proof -
    have "w AND 3 = take_bit 2 w" by (simp add: take_bit_eq_mask mask_eq_exp_minus_1)
    moreover have "unat (take_bit 2 w) < 4" by (simp only: unat_take_bit_mod) simp
    ultimately show ?thesis by simp
  qed
  have "(p + 3) AND NOT 3 = (p + 3) - ((p + 3) AND 3)"
  proof -
    have "((p + 3) AND NOT 3) AND ((p + 3) AND 3) = 0"
      "((p + 3) AND NOT 3) OR ((p + 3) AND 3) = p + 3"
      by (rule bit_word_eqI, auto simp: bit_simps)+
    then show ?thesis using or_disjoint_add by (metis add_diff_cancel_right')
  qed
  then have "RoundUp 4 p = p + ?d" by (simp add: RoundUp_def)
  moreover have "unat ?d \<le> 3"
    using and_3 [of "p + 3"] by (simp add: unat_diff_le word_le_nat_alt)
  ultimately show ?thesis by blast
qed

lemma CanAccelerate_False [simp]: "\<not> CanAccelerateCRC32C"
  by (simp add: CanAccelerateCRC32C_def AcceleratedCRC32C_def)

lemma Extend_eq:
  assumes "unat p + length data + 3 < 18446744073709551616"
  shows "Extend crc p data = Some (crc32c crc data)"
proof -
  let ?l = "crc XOR kCRC32Xor" and ?e = "p + of_nat (length data)"
  obtain d where x: "RoundUp 4 p = p + d" "unat d \<le> 3" using RoundUp_4 by blast
  have e: "unat ?e = unat p + length data" and "unat (p + d) = unat p + unat d"
    using assms x(2) by (auto intro!: unat_add_no_overflow trans [OF unat_add_no_overflow])
  then have le: "p + d \<le> ?e \<longleftrightarrow> unat d \<le> length data" by (simp add: word_le_nat_alt)
  define k where "k = (if unat d \<le> length data then unat d else 0)"
  have a: "(if RoundUp 4 p \<le> ?e then step1_until (RoundUp 4 p) data p ?l else Some (data, ?l))
      = Some (drop k data, foldl crc_byte ?l (take k data))"
    using step1_until_eq [of "p + d" p data ?l] by (simp add: x(1) le k_def)
  obtain k' where b: "(if length (drop k data) \<ge> 16
      then extend_strides (drop k data) (foldl crc_byte ?l (take k data))
      else Some (drop k data, foldl crc_byte ?l (take k data)))
      = Some (drop k' data, foldl crc_byte ?l (take k' data))"
  proof (cases "length (drop k data) \<ge> 16")
    case False
    then show ?thesis using that [of k] by simp
  next
    case True
    obtain j where "extend_strides (drop k data) (foldl crc_byte ?l (take k data))
        = Some (drop j (drop k data), foldl crc_byte (foldl crc_byte ?l (take k data)) (take j (drop k data)))"
      using extend_strides_eq [OF True] by blast
    then have "extend_strides (drop k data) (foldl crc_byte ?l (take k data))
        = Some (drop (k + j) data, foldl crc_byte ?l (take (k + j) data))"
      by (simp only: foldl_take_add drop_drop add.commute)
    then show ?thesis using True that [of "k + j"] by simp
  qed
  have "foldl STEP1 (foldl crc_byte ?l (take k' data)) (drop k' data) = foldl crc_byte ?l data"
    unfolding STEP1_eq [abs_def] foldl_append [symmetric] by simp
  moreover have "w XOR kCRC32Xor = NOT w" for w
  proof -
    have "kCRC32Xor = - 1" by (simp add: kCRC32Xor_def)
    show ?thesis unfolding \<open>kCRC32Xor = - 1\<close> by (rule bit_word_eqI) (auto simp: bit_simps)
  qed
  ultimately show ?thesis
    unfolding Extend_def Let_def a Option.bind.simps prod.case b by (simp add: crc32c_def)
qed

text \<open>
  The checksum does not depend on where the bytes are (\<open>Extend_eq\<close>); the callers know the
  bytes only, which are put at some address.
\<close>

definition data_address :: addr where
  "data_address = 4096"

definition crc_extend :: "u32 \<Rightarrow> byte list \<Rightarrow> u32 option" where
  "crc_extend crc data = Extend crc data_address data"

lemma crc_extend_eq: "length data < 18446744073709540000 \<Longrightarrow> crc_extend crc data = Some (crc32c crc data)"
  by (simp add: crc_extend_def data_address_def Extend_eq)

text \<open>
  C32. \<^verbatim>\<open>crc32c::Extend\<close> is the bitwise CRC-32C: for every buffer that does not run into the
  end of the address space, whatever its alignment, the table-driven computation in four
  strides gives what shifting bit by bit gives, and no read leaves the buffer or a table.
\<close>

theorem crc_extend_is_bitwise:
  assumes "unat p + length data + 3 < 18446744073709551616"
  shows "Extend crc p data = Some (crc32c crc data)"
  by (rule Extend_eq [OF assms])

theorem crc_extend_is_bitwise_witness: "Extend 0 4098 [0x61] = Some (crc32c 0 [0x61])"
  by (rule crc_extend_is_bitwise) simp

lemma crc32c_append: "crc32c (crc32c crc a) b = crc32c crc (a @ b)"
  by (simp add: crc32c_def)

lemma mask_inverse [simp]: "Unmask (Mask crc) = crc" "Mask (Unmask crc) = crc"
proof -
  have "drop_bit k (drop_bit j w OR push_bit k w) OR push_bit j (drop_bit j w OR push_bit k w) = w"
    if "j + k = 32" for w :: u32 and j k
  proof (rule bit_word_eqI)
    fix n
    assume n: "n < LENGTH(32)"
    have "\<not> bit w (j + (k + n))" using that by (auto dest: bit_imp_le_length)
    then show "bit (drop_bit k (drop_bit j w OR push_bit k w) OR push_bit j (drop_bit j w OR push_bit k w)) n = bit w n"
      using n that by (cases "n < j") (auto simp: bit_simps add.commute)
  qed
  from this [of 15 17] this [of 17 15]
  show "Unmask (Mask crc) = crc" "Mask (Unmask crc) = crc"
    by (simp_all add: Mask_def Unmask_def Let_def)
qed

end
