(* ===== verification/LDB_Env.thy ===== *)
theory LDB_Env
  imports LDB_Slice
begin

text \<open>
  The file interfaces of \<^verbatim>\<open>include/leveldb/env.h\<close> that the log and the tables use:
  \<^verbatim>\<open>WritableFile\<close>, \<^verbatim>\<open>SequentialFile\<close> and \<^verbatim>\<open>RandomAccessFile\<close>. A class is the record of its virtual
  functions on the file's state; \<^const>\<open>None\<close> is a call that never returns.

  The locales say what the header promises of a file that works: what is appended ends up
  in the file, and what is read comes from it in order.
\<close>

record 'f WritableFile =
  wf_Append :: "'f \<Rightarrow> byte list \<Rightarrow> (Status \<times> 'f) option"
  wf_Close :: "'f \<Rightarrow> (Status \<times> 'f) option"
  wf_Flush :: "'f \<Rightarrow> (Status \<times> 'f) option"
  wf_Sync :: "'f \<Rightarrow> (Status \<times> 'f) option"

record 'f SequentialFile =
  sf_Read :: "'f \<Rightarrow> nat \<Rightarrow> (Status \<times> byte list \<times> 'f) option"
  sf_Skip :: "'f \<Rightarrow> u64 \<Rightarrow> (Status \<times> 'f) option"

text \<open>
  A random access file tells whether what it returns is in the buffer of the caller
  (\<open>rf_uses_scratch\<close>) or elsewhere.
\<close>

record 'f RandomAccessFile =
  rf_Read :: "'f \<Rightarrow> u64 \<Rightarrow> u64 \<Rightarrow> (Status \<times> byte list \<times> 'f) option"
  rf_uses_scratch :: bool

locale writable_file =
  fixes ops :: "'f WritableFile"
    and written :: "'f \<Rightarrow> byte list"
    and works :: "'f \<Rightarrow> bool"
  assumes Append_works: "works f \<Longrightarrow>
      \<exists>f'. wf_Append ops f data = Some (Status_OK, f') \<and> works f' \<and> written f' = written f @ data"
    and Flush_works: "works f \<Longrightarrow>
      \<exists>f'. wf_Flush ops f = Some (Status_OK, f') \<and> works f' \<and> written f' = written f"

locale sequential_file =
  fixes ops :: "'f SequentialFile"
    and ahead :: "'f \<Rightarrow> byte list"
    and readable :: "'f \<Rightarrow> bool"
  assumes Read_works: "readable f \<Longrightarrow>
      \<exists>f'. sf_Read ops f n = Some (Status_OK, take n (ahead f), f') \<and> readable f' \<and> ahead f' = drop n (ahead f)"
    and Skip_works: "readable f \<Longrightarrow>
      \<exists>f'. sf_Skip ops f k = Some (Status_OK, f') \<and> readable f' \<and> ahead f' = drop (unat k) (ahead f)"

locale random_access_file =
  fixes ops :: "'f RandomAccessFile"
    and content :: "'f \<Rightarrow> byte list"
    and readable :: "'f \<Rightarrow> bool"
  assumes Read_at: "readable f \<Longrightarrow> unat offset + unat n \<le> length (content f) \<Longrightarrow>
      \<exists>f'. rf_Read ops f offset n = Some (Status_OK, take (unat n) (drop (unat offset) (content f)), f')
        \<and> readable f' \<and> content f' = content f"

end
