(* ===== verification/LDB_Format.thy ===== *)
theory LDB_Format
  imports LDB_CRC LDB_Env LDB_Options
begin

text \<open>
  \<^verbatim>\<open>table/format.h\<close> and \<^verbatim>\<open>table/format.cc\<close> of
  \<^verbatim>\<open>src/MovieDBApp/Pods/leveldb-library\<close>: block handles, the footer of a table and
  reading a block with its trailer.

  Reads outside a buffer and failed assertions are \<^const>\<open>None\<close>. Snappy is not linked
  (\<^verbatim>\<open>HAVE_SNAPPY\<close> is not defined), so its wrappers of \<^verbatim>\<open>port/port_stdcxx.h\<close> return false.
\<close>

section \<open>Handles\<close>

record BlockHandle =
  bh_offset :: u64
  bh_size :: u64

definition BlockHandle_new :: BlockHandle where
  "BlockHandle_new = \<lparr>bh_offset = - 1, bh_size = - 1\<rparr>"

definition kMaxEncodedLength :: nat where "kMaxEncodedLength = 10 + 10"

definition BlockHandle_EncodeTo :: "BlockHandle \<Rightarrow> byte list \<Rightarrow> byte list option" where
  "BlockHandle_EncodeTo h dst =
     (if bh_offset h = - 1 \<or> bh_size h = - 1 then None
      else Some (PutVarint64 (PutVarint64 dst (bh_offset h)) (bh_size h)))"

text \<open>The status, the handle and the input afterwards.\<close>

definition BlockHandle_DecodeFrom :: "BlockHandle \<Rightarrow> byte list \<Rightarrow> Status \<times> BlockHandle \<times> byte list" where
  "BlockHandle_DecodeFrom h input =
     (let bad = Corruption (cstr ''bad block handle'') [] in
      case GetVarint64 input of
        (None, input) \<Rightarrow> (bad, h, input)
      | (Some v, input) \<Rightarrow>
          (let h = h\<lparr>bh_offset := v\<rparr> in
           case GetVarint64 input of
             (None, input) \<Rightarrow> (bad, h, input)
           | (Some v, input) \<Rightarrow> (Status_OK, h\<lparr>bh_size := v\<rparr>, input)))"

section \<open>Footer\<close>

record Footer =
  ft_metaindex_handle :: BlockHandle
  ft_index_handle :: BlockHandle

definition kEncodedLength :: nat where "kEncodedLength = 2 * kMaxEncodedLength + 8"
definition kTableMagicNumber :: u64 where "kTableMagicNumber = 0xdb4775248b80fb57"
definition kBlockTrailerSize :: u64 where "kBlockTrailerSize = 5"

text \<open>The resize is of the whole string; with anything in it before, the assertion fails.\<close>

definition Footer_EncodeTo :: "Footer \<Rightarrow> byte list \<Rightarrow> byte list option" where
  "Footer_EncodeTo f dst = do {
     let original_size = length dst;
     dst \<leftarrow> BlockHandle_EncodeTo (ft_metaindex_handle f) dst;
     dst \<leftarrow> BlockHandle_EncodeTo (ft_index_handle f) dst;
     let dst = take (2 * kMaxEncodedLength) dst @ replicate (2 * kMaxEncodedLength - length dst) 0;
     let dst = PutFixed32 dst (ucast (kTableMagicNumber AND 0xffffffff));
     let dst = PutFixed32 dst (ucast (drop_bit 32 kTableMagicNumber));
     if length dst = original_size + kEncodedLength then Some dst else None
   }"

definition Footer_DecodeFrom :: "Footer \<Rightarrow> byte list \<Rightarrow> (Status \<times> Footer \<times> byte list) option" where
  "Footer_DecodeFrom f input = do {
     let magic_ptr = drop (kEncodedLength - 8) input;
     magic_lo \<leftarrow> DecodeFixed32 magic_ptr;
     magic_hi \<leftarrow> DecodeFixed32 (drop 4 magic_ptr);
     let magic = push_bit 32 (ucast magic_hi) OR (ucast magic_lo :: u64);
     if magic \<noteq> kTableMagicNumber
     then Some (Corruption (cstr ''not an sstable (bad magic number)'') [], f, input)
     else
       let after_magic = drop kEncodedLength input;
           (result, h, input) = BlockHandle_DecodeFrom (ft_metaindex_handle f) input;
           f = f\<lparr>ft_metaindex_handle := h\<rparr>
       in if ok result then
            let (result, h, input) = BlockHandle_DecodeFrom (ft_index_handle f) input;
                f = f\<lparr>ft_index_handle := h\<rparr>
            in if ok result then Some (result, f, after_magic) else Some (result, f, input)
          else Some (result, f, input)
   }"

section \<open>Reading a block\<close>

record BlockContents =
  bc_data :: "byte list"
  bc_cachable :: bool
  bc_heap_allocated :: bool

definition BlockContents_empty :: BlockContents where
  "BlockContents_empty = \<lparr>bc_data = [], bc_cachable = False, bc_heap_allocated = False\<rparr>"

definition Snappy_Compress :: "byte list \<Rightarrow> byte list option" where
  "Snappy_Compress input = None"

definition Snappy_GetUncompressedLength :: "byte list \<Rightarrow> nat option" where
  "Snappy_GetUncompressedLength input = None"

definition Snappy_Uncompress :: "byte list \<Rightarrow> nat \<Rightarrow> byte list option" where
  "Snappy_Uncompress input ulength = None"

text \<open>
  \<open>n\<close> is a \<^verbatim>\<open>size_t\<close> and the sum with the size of the trailer wraps; what is read through
  \<open>data\<close> beyond the bytes the file returned is \<^const>\<open>None\<close>.
\<close>

definition ReadBlock ::
  "'f RandomAccessFile \<Rightarrow> 'f \<Rightarrow> ReadOptions \<Rightarrow> BlockHandle \<Rightarrow> (Status \<times> BlockContents \<times> 'f) option" where
  "ReadBlock ops file options handle = do {
     let n = bh_size handle;
     (s, contents, file) \<leftarrow> rf_Read ops file (bh_offset handle) (n + kBlockTrailerSize);
     if \<not> ok s then Some (s, BlockContents_empty, file)
     else if length contents \<noteq> unat (n + kBlockTrailerSize)
     then Some (Corruption (cstr ''truncated block read'') [], BlockContents_empty, file)
     else do {
       let data = contents;
       crc_ok \<leftarrow>
         (if ro_verify_checksums options then do {
            masked \<leftarrow> DecodeFixed32 (drop (unat (n + 1)) data);
            let crc = Unmask masked;
            if length data < unat (n + 1) then None
            else do {
              actual \<leftarrow> crc_extend 0 (take (unat (n + 1)) data);
              Some (actual = crc)
            }
          }
          else Some True);
       if \<not> crc_ok then Some (Corruption (cstr ''block checksum mismatch'') [], BlockContents_empty, file)
       else if length data \<le> unat n then None
       else if data ! unat n = kNoCompression then
         Some (Status_OK,
           (if rf_uses_scratch ops then \<lparr>bc_data = take (unat n) data, bc_cachable = True, bc_heap_allocated = True\<rparr>
            else \<lparr>bc_data = take (unat n) data, bc_cachable = False, bc_heap_allocated = False\<rparr>), file)
       else if data ! unat n = kSnappyCompression then
         case Snappy_GetUncompressedLength (take (unat n) data) of
           None \<Rightarrow> Some (Corruption (cstr ''corrupted compressed block contents'') [], BlockContents_empty, file)
         | Some ulength \<Rightarrow>
             (case Snappy_Uncompress (take (unat n) data) ulength of
                None \<Rightarrow> Some (Corruption (cstr ''corrupted compressed block contents'') [], BlockContents_empty, file)
              | Some ubuf \<Rightarrow>
                  Some (Status_OK, \<lparr>bc_data = ubuf, bc_cachable = True, bc_heap_allocated = True\<rparr>, file))
       else Some (Corruption (cstr ''bad block type'') [], BlockContents_empty, file)
     }
   }"

section \<open>Handles and footers are read back\<close>

definition handle_bytes :: "BlockHandle \<Rightarrow> byte list" where
  "handle_bytes h = varint (unat (bh_offset h)) @ varint (unat (bh_size h))"

definition handle_set :: "BlockHandle \<Rightarrow> bool" where
  "handle_set h \<longleftrightarrow> bh_offset h \<noteq> - 1 \<and> bh_size h \<noteq> - 1"

lemma BlockHandle_EncodeTo_eq: "handle_set h \<Longrightarrow> BlockHandle_EncodeTo h dst = Some (dst @ handle_bytes h)"
  by (simp add: BlockHandle_EncodeTo_def handle_bytes_def handle_set_def PutVarint64_def)

lemma BlockHandle_DecodeFrom_eq [simp]: "BlockHandle_DecodeFrom h0 (handle_bytes h @ rest) = (Status_OK, h, rest)"
  by (simp add: BlockHandle_DecodeFrom_def handle_bytes_def)

lemma length_handle_bytes: "length (handle_bytes h) \<le> 20"
  using length_varint_u64 [of "bh_offset h"] length_varint_u64 [of "bh_size h"] by (simp add: handle_bytes_def)

definition magic_bytes :: "byte list" where
  "magic_bytes = le_bytes 4 (ucast (kTableMagicNumber AND 0xffffffff) :: u32) @ le_bytes 4 (ucast (drop_bit 32 kTableMagicNumber) :: u32)"

definition footer_bytes :: "Footer \<Rightarrow> byte list" where
  "footer_bytes f =
     (let hs = handle_bytes (ft_metaindex_handle f) @ handle_bytes (ft_index_handle f)
      in hs @ replicate (40 - length hs) 0 @ magic_bytes)"

lemma length_footer_bytes [simp]: "length (footer_bytes f) = 48"
  using length_handle_bytes [of "ft_metaindex_handle f"] length_handle_bytes [of "ft_index_handle f"]
  by (simp add: footer_bytes_def Let_def magic_bytes_def)

lemma Footer_EncodeTo_eq:
  assumes "handle_set (ft_metaindex_handle f)" and "handle_set (ft_index_handle f)"
  shows "Footer_EncodeTo f [] = Some (footer_bytes f)"
  using length_handle_bytes [of "ft_metaindex_handle f"] length_handle_bytes [of "ft_index_handle f"]
  by (simp add: Footer_EncodeTo_def Let_def BlockHandle_EncodeTo_eq assms footer_bytes_def magic_bytes_def
      PutFixed32_def kMaxEncodedLength_def kEncodedLength_def)

lemma magic_word:
  "push_bit 32 (ucast (ucast (drop_bit 32 kTableMagicNumber) :: u32)) OR ucast (ucast (kTableMagicNumber AND 0xffffffff) :: u32)
    = kTableMagicNumber"
  by (simp add: kTableMagicNumber_def)

lemma Footer_DecodeFrom_eq: "Footer_DecodeFrom f0 (footer_bytes f @ rest) = Some (Status_OK, f, rest)"
proof -
  let ?hs = "handle_bytes (ft_metaindex_handle f) @ handle_bytes (ft_index_handle f)"
  let ?pad = "replicate (40 - length ?hs) (0::byte)"
  have len: "length (?hs @ ?pad) = 40"
    using length_handle_bytes [of "ft_metaindex_handle f"] length_handle_bytes [of "ft_index_handle f"] by simp
  have split: "footer_bytes f @ rest = (?hs @ ?pad) @ magic_bytes @ rest" by (simp add: footer_bytes_def Let_def)
  have m: "drop 40 (footer_bytes f @ rest) = magic_bytes @ rest" unfolding split using len by simp
  have lo: "DecodeFixed32 (drop 40 (footer_bytes f @ rest)) = Some (ucast (kTableMagicNumber AND 0xffffffff))"
    unfolding m magic_bytes_def append_assoc by (rule DecodeFixed32_le_bytes)
  have hi: "DecodeFixed32 (drop 4 (drop 40 (footer_bytes f @ rest))) = Some (ucast (drop_bit 32 kTableMagicNumber))"
    unfolding m magic_bytes_def append_assoc by simp
  have after: "drop 48 (footer_bytes f @ rest) = rest" by simp
  have d1: "BlockHandle_DecodeFrom h0 (footer_bytes f @ rest)
      = (Status_OK, ft_metaindex_handle f, handle_bytes (ft_index_handle f) @ ?pad @ magic_bytes @ rest)" for h0
    unfolding split append_assoc by (rule BlockHandle_DecodeFrom_eq)
  show ?thesis
    unfolding Footer_DecodeFrom_def kEncodedLength_def kMaxEncodedLength_def
    using lo hi after magic_word d1 by (simp add: Let_def)
qed

section \<open>Blocks are read back\<close>

text \<open>A block with its trailer, as it is stored without compression.\<close>

definition raw_block :: "byte list \<Rightarrow> byte list" where
  "raw_block contents = contents @ [kNoCompression] @ le_bytes 4 (Mask (crc32c 0 (contents @ [kNoCompression])))"

lemma length_raw_block [simp]: "length (raw_block contents) = length contents + 5"
  by (simp add: raw_block_def)

text \<open>The status of reading what lies at a handle inside the file.\<close>

definition block_status :: "bool \<Rightarrow> nat \<Rightarrow> byte list \<Rightarrow> Status" where
  "block_status verify n data =
     (if verify \<and> Unmask (le_word (drop (n + 1) data)) \<noteq> crc32c 0 (take (n + 1) data)
      then Corruption (cstr ''block checksum mismatch'') []
      else if data ! n = kNoCompression then Status_OK
      else if data ! n = kSnappyCompression then Corruption (cstr ''corrupted compressed block contents'') []
      else Corruption (cstr ''bad block type'') [])"

context random_access_file begin

lemma ReadBlock_eq:
  fixes options :: ReadOptions
  assumes "readable f" and "unat (bh_offset h) + unat (bh_size h) + 5 \<le> length (content f)"
    and "length (content f) < 2 ^ 63"
  defines "data \<equiv> take (unat (bh_size h) + 5) (drop (unat (bh_offset h)) (content f))"
  defines "st \<equiv> block_status (ro_verify_checksums options) (unat (bh_size h)) data"
  shows "\<exists>bc f'. ReadBlock ops f options h = Some (st, bc, f') \<and> readable f' \<and> content f' = content f
    \<and> bc_data bc = (if ok st then take (unat (bh_size h)) data else [])"
proof -
  let ?n = "bh_size h"
  have n5: "unat (?n + kBlockTrailerSize) = unat ?n + 5"
    using assms(2,3) by (simp add: kBlockTrailerSize_def unat_add_no_overflow)
  have n1: "unat (?n + 1) = unat ?n + 1" using assms(2,3) by (simp add: unat_add_no_overflow)
  obtain f' where r: "rf_Read ops f (bh_offset h) (?n + kBlockTrailerSize) = Some (Status_OK, data, f')" "readable f'"
    "content f' = content f"
    using Read_at [OF assms(1), of "bh_offset h" "?n + kBlockTrailerSize"] assms(2) by (auto simp: n5 data_def)
  have len: "length data = unat ?n + 5" using assms(2) by (simp add: data_def)
  have d: "DecodeFixed32 (drop (Suc (unat ?n)) data) = Some (le_word (drop (Suc (unat ?n)) data))"
    by (simp add: DecodeFixed32_def kLittleEndian_def len)
  have c: "crc_extend 0 (take (Suc (unat ?n)) data) = Some (crc32c 0 (take (Suc (unat ?n)) data))"
    using assms(2,3) by (intro crc_extend_eq) simp
  have nc: "kSnappyCompression \<noteq> kNoCompression" by (simp add: kSnappyCompression_def kNoCompression_def)
  show ?thesis
    using r len d c nc unfolding ReadBlock_def Let_def r(1) st_def block_status_def Snappy_GetUncompressedLength_def
    by (auto simp: n5 n1 BlockContents_empty_def Corruption_def)
qed

lemma ReadBlock_raw:
  assumes "readable f" and "take (length contents + 5) (drop (unat (bh_offset h)) (content f)) = raw_block contents"
    and "unat (bh_size h) = length contents" and "length (content f) < 2 ^ 63"
  shows "\<exists>bc f'. ReadBlock ops f options h = Some (Status_OK, bc, f') \<and> readable f' \<and> content f' = content f
    \<and> bc_data bc = contents"
proof -
  have "length contents + 5 \<le> length (drop (unat (bh_offset h)) (content f))"
    using arg_cong [OF assms(2), of length] by simp
  then have le: "unat (bh_offset h) + unat (bh_size h) + 5 \<le> length (content f)" by (simp add: assms(3))
  have "block_status v (length contents) (raw_block contents) = Status_OK" for v
    by (simp add: block_status_def raw_block_def mask_inverse nth_append)
  then show ?thesis
    using ReadBlock_eq [OF assms(1) le assms(4), of options] assms(2) by (simp add: assms(3)) (simp add: raw_block_def)
qed

end

end
