(* ===== verification/LDB_Two_Level.thy ===== *)
theory LDB_Two_Level
  imports LDB_Iterator LDB_Options
begin

text \<open>
  \<^verbatim>\<open>table/iterator_wrapper.h\<close> and \<^verbatim>\<open>table/two_level_iterator.cc\<close> of
  \<^verbatim>\<open>src/MovieDBApp/Pods/leveldb-library\<close>: the iterator over the blocks an index iterator
  names.

  The class is generic in the index iterator, the data iterators and the block function
  with its argument \<open>'a\<close>, of which the state is kept here. Deleting a data iterator runs the
  cleanup functions that the block function registered with it, which act on the argument
  too (\<open>tl_delete\<close>); deleting an index iterator has no effect. If the index is an iterator
  of keys and handles, the block function makes for every handle an iterator of the block,
  and the keys of the index separate the blocks, the whole is an iterator of the
  concatenated blocks.
\<close>

section \<open>Wrapper\<close>

record 'i IteratorWrapper =
  iw_iter :: "'i option"
  iw_valid :: bool
  iw_key :: "byte list"

definition iw_Update :: "'i Iterator \<Rightarrow> 'i IteratorWrapper \<Rightarrow> 'i IteratorWrapper option" where
  "iw_Update ops w = do {
     it \<leftarrow> iw_iter w;
     let w = w\<lparr>iw_valid := i_Valid ops it\<rparr>;
     if iw_valid w then do { k \<leftarrow> i_key ops it; Some (w\<lparr>iw_key := k\<rparr>) } else Some w
   }"

definition iw_Set :: "'i Iterator \<Rightarrow> 'i option \<Rightarrow> 'i IteratorWrapper \<Rightarrow> 'i IteratorWrapper option" where
  "iw_Set ops iter w =
     (let w = w\<lparr>iw_iter := iter\<rparr> in
      case iter of None \<Rightarrow> Some (w\<lparr>iw_valid := False\<rparr>) | Some it \<Rightarrow> iw_Update ops w)"

definition IteratorWrapper_null :: "'i IteratorWrapper" where
  "IteratorWrapper_null = \<lparr>iw_iter = None, iw_valid = False, iw_key = []\<rparr>"

definition IteratorWrapper_new :: "'i Iterator \<Rightarrow> 'i option \<Rightarrow> 'i IteratorWrapper option" where
  "IteratorWrapper_new ops iter = iw_Set ops iter IteratorWrapper_null"

definition iw_get_key :: "'i IteratorWrapper \<Rightarrow> byte list option" where
  "iw_get_key w = (if iw_valid w then Some (iw_key w) else None)"

definition iw_value :: "'i Iterator \<Rightarrow> 'i IteratorWrapper \<Rightarrow> byte list option" where
  "iw_value ops w = (if iw_valid w then do { it \<leftarrow> iw_iter w; i_value ops it } else None)"

definition iw_status :: "'i Iterator \<Rightarrow> 'i IteratorWrapper \<Rightarrow> Status option" where
  "iw_status ops w = map_option (i_status ops) (iw_iter w)"

text \<open>\<^verbatim>\<open>Next\<close>, \<^verbatim>\<open>Prev\<close> and the seeks: call the iterator and update.\<close>

definition iw_move :: "'i Iterator \<Rightarrow> ('i \<Rightarrow> 'i option) \<Rightarrow> 'i IteratorWrapper \<Rightarrow> 'i IteratorWrapper option" where
  "iw_move ops f w = do {
     it \<leftarrow> iw_iter w;
     it \<leftarrow> f it;
     iw_Update ops (w\<lparr>iw_iter := Some it\<rparr>)
   }"

definition iw_Next :: "'i Iterator \<Rightarrow> 'i IteratorWrapper \<Rightarrow> 'i IteratorWrapper option" where
  "iw_Next ops w = iw_move ops (i_Next ops) w"

definition iw_Prev :: "'i Iterator \<Rightarrow> 'i IteratorWrapper \<Rightarrow> 'i IteratorWrapper option" where
  "iw_Prev ops w = iw_move ops (i_Prev ops) w"

definition iw_Seek :: "'i Iterator \<Rightarrow> byte list \<Rightarrow> 'i IteratorWrapper \<Rightarrow> 'i IteratorWrapper option" where
  "iw_Seek ops k w = iw_move ops (\<lambda>it. i_Seek ops it k) w"

definition iw_SeekToFirst :: "'i Iterator \<Rightarrow> 'i IteratorWrapper \<Rightarrow> 'i IteratorWrapper option" where
  "iw_SeekToFirst ops w = iw_move ops (i_SeekToFirst ops) w"

definition iw_SeekToLast :: "'i Iterator \<Rightarrow> 'i IteratorWrapper \<Rightarrow> 'i IteratorWrapper option" where
  "iw_SeekToLast ops w = iw_move ops (i_SeekToLast ops) w"

section \<open>Two-level iterator\<close>

record ('i, 'd, 'a) TwoLevelIterator =
  tl_block_function :: "'a \<Rightarrow> ReadOptions \<Rightarrow> byte list \<Rightarrow> ('d \<times> 'a) option"
  tl_delete :: "'d \<Rightarrow> 'a \<Rightarrow> 'a option"
  tl_arg :: 'a
  tl_options :: ReadOptions
  tl_status :: Status
  tl_index_iter :: "'i IteratorWrapper"
  tl_data_iter :: "'d IteratorWrapper"
  tl_data_block_handle :: "byte list"

definition NewTwoLevelIterator ::
  "'i Iterator \<Rightarrow> 'i \<Rightarrow> ('a \<Rightarrow> ReadOptions \<Rightarrow> byte list \<Rightarrow> ('d \<times> 'a) option) \<Rightarrow> ('d \<Rightarrow> 'a \<Rightarrow> 'a option) \<Rightarrow> 'a
    \<Rightarrow> ReadOptions \<Rightarrow> ('i, 'd, 'a) TwoLevelIterator option" where
  "NewTwoLevelIterator iops index_iter block_function delete arg options = do {
     w \<leftarrow> IteratorWrapper_new iops (Some index_iter);
     Some \<lparr>tl_block_function = block_function, tl_delete = delete, tl_arg = arg, tl_options = options, tl_status = Status_OK,
       tl_index_iter = w, tl_data_iter = IteratorWrapper_null, tl_data_block_handle = []\<rparr>
   }"

definition SaveError :: "('i, 'd, 'a) TwoLevelIterator \<Rightarrow> Status \<Rightarrow> ('i, 'd, 'a) TwoLevelIterator" where
  "SaveError t s = (if ok (tl_status t) \<and> \<not> ok s then t\<lparr>tl_status := s\<rparr> else t)"

text \<open>The wrapper deletes the iterator it has before it takes the new one.\<close>

definition delete_data :: "('i, 'd, 'a) TwoLevelIterator \<Rightarrow> 'a option" where
  "delete_data t =
     (case iw_iter (tl_data_iter t) of None \<Rightarrow> Some (tl_arg t) | Some it \<Rightarrow> tl_delete t it (tl_arg t))"

definition SetDataIterator ::
  "'d Iterator \<Rightarrow> 'd option \<Rightarrow> ('i, 'd, 'a) TwoLevelIterator \<Rightarrow> ('i, 'd, 'a) TwoLevelIterator option" where
  "SetDataIterator dops data_iter t = do {
     t \<leftarrow> (if iw_iter (tl_data_iter t) \<noteq> None
          then do { s \<leftarrow> iw_status dops (tl_data_iter t); Some (SaveError t s) } else Some t);
     arg \<leftarrow> delete_data t;
     w \<leftarrow> iw_Set dops data_iter (tl_data_iter t);
     Some (t\<lparr>tl_arg := arg, tl_data_iter := w\<rparr>)
   }"

definition InitDataBlock ::
  "'i Iterator \<Rightarrow> 'd Iterator \<Rightarrow> ('i, 'd, 'a) TwoLevelIterator \<Rightarrow> ('i, 'd, 'a) TwoLevelIterator option" where
  "InitDataBlock iops dops t =
     (if \<not> iw_valid (tl_index_iter t) then SetDataIterator dops None t
      else do {
        handle \<leftarrow> iw_value iops (tl_index_iter t);
        if iw_iter (tl_data_iter t) \<noteq> None \<and> slice_compare handle (tl_data_block_handle t) = 0 then Some t
        else do {
          (iter, arg) \<leftarrow> tl_block_function t (tl_arg t) (tl_options t) handle;
          SetDataIterator dops (Some iter) (t\<lparr>tl_arg := arg, tl_data_block_handle := handle\<rparr>)
        }
      })"

text \<open>A call on the data iterator, if there is one.\<close>

definition on_data ::
  "('d IteratorWrapper \<Rightarrow> 'd IteratorWrapper option) \<Rightarrow> ('i, 'd, 'a) TwoLevelIterator \<Rightarrow> ('i, 'd, 'a) TwoLevelIterator option" where
  "on_data f t =
     (if iw_iter (tl_data_iter t) \<noteq> None then do { w \<leftarrow> f (tl_data_iter t); Some (t\<lparr>tl_data_iter := w\<rparr>) } else Some t)"

partial_function (option) SkipEmptyDataBlocksForward ::
  "'i Iterator \<Rightarrow> 'd Iterator \<Rightarrow> ('i, 'd, 'a) TwoLevelIterator \<Rightarrow> ('i, 'd, 'a) TwoLevelIterator option" where
  "SkipEmptyDataBlocksForward iops dops t =
     (if iw_iter (tl_data_iter t) = None \<or> \<not> iw_valid (tl_data_iter t) then
        if \<not> iw_valid (tl_index_iter t) then SetDataIterator dops None t
        else do {
          w \<leftarrow> iw_Next iops (tl_index_iter t);
          t \<leftarrow> InitDataBlock iops dops (t\<lparr>tl_index_iter := w\<rparr>);
          t \<leftarrow> on_data (iw_SeekToFirst dops) t;
          SkipEmptyDataBlocksForward iops dops t
        }
      else Some t)"

partial_function (option) SkipEmptyDataBlocksBackward ::
  "'i Iterator \<Rightarrow> 'd Iterator \<Rightarrow> ('i, 'd, 'a) TwoLevelIterator \<Rightarrow> ('i, 'd, 'a) TwoLevelIterator option" where
  "SkipEmptyDataBlocksBackward iops dops t =
     (if iw_iter (tl_data_iter t) = None \<or> \<not> iw_valid (tl_data_iter t) then
        if \<not> iw_valid (tl_index_iter t) then SetDataIterator dops None t
        else do {
          w \<leftarrow> iw_Prev iops (tl_index_iter t);
          t \<leftarrow> InitDataBlock iops dops (t\<lparr>tl_index_iter := w\<rparr>);
          t \<leftarrow> on_data (iw_SeekToLast dops) t;
          SkipEmptyDataBlocksBackward iops dops t
        }
      else Some t)"

definition TwoLevel_Seek ::
  "'i Iterator \<Rightarrow> 'd Iterator \<Rightarrow> ('i, 'd, 'a) TwoLevelIterator \<Rightarrow> byte list \<Rightarrow> ('i, 'd, 'a) TwoLevelIterator option" where
  "TwoLevel_Seek iops dops t target = do {
     w \<leftarrow> iw_Seek iops target (tl_index_iter t);
     t \<leftarrow> InitDataBlock iops dops (t\<lparr>tl_index_iter := w\<rparr>);
     t \<leftarrow> on_data (iw_Seek dops target) t;
     SkipEmptyDataBlocksForward iops dops t
   }"

definition TwoLevel_SeekToFirst ::
  "'i Iterator \<Rightarrow> 'd Iterator \<Rightarrow> ('i, 'd, 'a) TwoLevelIterator \<Rightarrow> ('i, 'd, 'a) TwoLevelIterator option" where
  "TwoLevel_SeekToFirst iops dops t = do {
     w \<leftarrow> iw_SeekToFirst iops (tl_index_iter t);
     t \<leftarrow> InitDataBlock iops dops (t\<lparr>tl_index_iter := w\<rparr>);
     t \<leftarrow> on_data (iw_SeekToFirst dops) t;
     SkipEmptyDataBlocksForward iops dops t
   }"

definition TwoLevel_SeekToLast ::
  "'i Iterator \<Rightarrow> 'd Iterator \<Rightarrow> ('i, 'd, 'a) TwoLevelIterator \<Rightarrow> ('i, 'd, 'a) TwoLevelIterator option" where
  "TwoLevel_SeekToLast iops dops t = do {
     w \<leftarrow> iw_SeekToLast iops (tl_index_iter t);
     t \<leftarrow> InitDataBlock iops dops (t\<lparr>tl_index_iter := w\<rparr>);
     t \<leftarrow> on_data (iw_SeekToLast dops) t;
     SkipEmptyDataBlocksBackward iops dops t
   }"

definition TwoLevel_Next ::
  "'i Iterator \<Rightarrow> 'd Iterator \<Rightarrow> ('i, 'd, 'a) TwoLevelIterator \<Rightarrow> ('i, 'd, 'a) TwoLevelIterator option" where
  "TwoLevel_Next iops dops t =
     (if iw_valid (tl_data_iter t) then do {
        w \<leftarrow> iw_Next dops (tl_data_iter t);
        SkipEmptyDataBlocksForward iops dops (t\<lparr>tl_data_iter := w\<rparr>)
      }
      else None)"

definition TwoLevel_Prev ::
  "'i Iterator \<Rightarrow> 'd Iterator \<Rightarrow> ('i, 'd, 'a) TwoLevelIterator \<Rightarrow> ('i, 'd, 'a) TwoLevelIterator option" where
  "TwoLevel_Prev iops dops t =
     (if iw_valid (tl_data_iter t) then do {
        w \<leftarrow> iw_Prev dops (tl_data_iter t);
        SkipEmptyDataBlocksBackward iops dops (t\<lparr>tl_data_iter := w\<rparr>)
      }
      else None)"

text \<open>The index wrapper always has an iterator.\<close>

definition TwoLevel_status :: "'i Iterator \<Rightarrow> 'd Iterator \<Rightarrow> ('i, 'd, 'a) TwoLevelIterator \<Rightarrow> Status" where
  "TwoLevel_status iops dops t =
     (if \<not> ok (the (iw_status iops (tl_index_iter t))) then the (iw_status iops (tl_index_iter t))
      else if iw_iter (tl_data_iter t) \<noteq> None \<and> \<not> ok (the (iw_status dops (tl_data_iter t)))
      then the (iw_status dops (tl_data_iter t))
      else tl_status t)"

text \<open>The destructor deletes both iterators; what is left of it is the argument.\<close>

definition TwoLevel_delete :: "('i, 'd, 'a) TwoLevelIterator \<Rightarrow> 'a option" where
  "TwoLevel_delete t = delete_data t"

definition TwoLevel_ops :: "'i Iterator \<Rightarrow> 'd Iterator \<Rightarrow> ('i, 'd, 'a) TwoLevelIterator Iterator" where
  "TwoLevel_ops iops dops =
     \<lparr>i_Valid = (\<lambda>t. iw_valid (tl_data_iter t)), i_SeekToFirst = TwoLevel_SeekToFirst iops dops,
      i_SeekToLast = TwoLevel_SeekToLast iops dops, i_Seek = TwoLevel_Seek iops dops,
      i_Next = TwoLevel_Next iops dops, i_Prev = TwoLevel_Prev iops dops,
      i_key = (\<lambda>t. iw_get_key (tl_data_iter t)), i_value = (\<lambda>t. iw_value dops (tl_data_iter t)),
      i_status = TwoLevel_status iops dops\<rparr>"

end
