(* ===== verification/LDB_Cache.thy ===== *)
theory LDB_Cache
  imports LDB_Slice "HOL-Library.Multiset"
begin

text \<open>
  \<^verbatim>\<open>include/leveldb/cache.h\<close> of \<^verbatim>\<open>src/MovieDBApp/Pods/leveldb-library\<close>: caches as an
  interface. A cache is the record of its virtual functions on its state; handles and values
  are types of their own, \<^const>\<open>None\<close> is a broken requirement (a released handle) or a call
  that does not return. The deleter of an entry goes with its value.

  The locale says what the clients rely on. \<open>held c\<close> are the handles they have not released
  yet, \<open>entry_of c h\<close> is what a held handle stands for, and \<open>known c\<close> are the pairs a lookup
  may find. \<open>most\<close> is how many handles may be held at a time.
\<close>

record ('c, 'h, 'v) Cache =
  ca_Insert :: "'c \<Rightarrow> byte list \<Rightarrow> 'v \<Rightarrow> size_t \<Rightarrow> ('h \<times> 'c) option"
  ca_Lookup :: "'c \<Rightarrow> byte list \<Rightarrow> ('h option \<times> 'c) option"
  ca_Release :: "'c \<Rightarrow> 'h \<Rightarrow> 'c option"
  ca_Value :: "'c \<Rightarrow> 'h \<Rightarrow> 'v option"
  ca_Erase :: "'c \<Rightarrow> byte list \<Rightarrow> 'c option"
  ca_NewId :: "'c \<Rightarrow> (u64 \<times> 'c) option"
  ca_Prune :: "'c \<Rightarrow> 'c option"
  ca_TotalCharge :: "'c \<Rightarrow> size_t"

definition cached :: "('c \<Rightarrow> 'h multiset) \<Rightarrow> ('c \<Rightarrow> 'h \<Rightarrow> byte list \<times> 'v) \<Rightarrow> 'c \<Rightarrow> 'c \<Rightarrow> bool" where
  "cached held entry_of c c' \<longleftrightarrow> (\<forall>h\<in>#held c. h \<in># held c' \<longrightarrow> entry_of c' h = entry_of c h)"

locale cache =
  fixes ops :: "('c, 'h, 'v) Cache" and works :: "'c \<Rightarrow> bool" and held :: "'c \<Rightarrow> 'h multiset"
    and entry_of :: "'c \<Rightarrow> 'h \<Rightarrow> byte list \<times> 'v" and known :: "'c \<Rightarrow> (byte list \<times> 'v) set" and most :: nat
    and charge_ok :: "size_t \<Rightarrow> bool"
  assumes Insert_works: "works c \<Longrightarrow> size (held c) < most \<Longrightarrow> charge_ok n \<Longrightarrow>
      \<exists>h c'. ca_Insert ops c k v n = Some (h, c') \<and> works c' \<and> held c' = add_mset h (held c)
        \<and> entry_of c' h = (k, v) \<and> known c' \<subseteq> insert (k, v) (known c) \<and> cached held entry_of c c'"
    and Lookup_works: "works c \<Longrightarrow> size (held c) < most \<Longrightarrow>
      \<exists>r c'. ca_Lookup ops c k = Some (r, c') \<and> works c' \<and> known c' \<subseteq> known c \<and> cached held entry_of c c'
        \<and> (case r of None \<Rightarrow> held c' = held c
           | Some h \<Rightarrow> held c' = add_mset h (held c) \<and> fst (entry_of c' h) = k \<and> entry_of c' h \<in> known c)"
    and Release_works: "works c \<Longrightarrow> h \<in># held c \<Longrightarrow>
      \<exists>c'. ca_Release ops c h = Some c' \<and> works c' \<and> held c' = held c - {#h#} \<and> known c' \<subseteq> known c
        \<and> cached held entry_of c c'"
    and Value_works: "works c \<Longrightarrow> h \<in># held c \<Longrightarrow> ca_Value ops c h = Some (snd (entry_of c h))"
    and NewId_works: "works c \<Longrightarrow> \<exists>i c'. ca_NewId ops c = Some (i, c') \<and> works c' \<and> held c' = held c \<and> known c' \<subseteq> known c
        \<and> cached held entry_of c c'"

end
