(* ===== verification/LDB_Table.thy ===== *)
theory LDB_Table
  imports LDB_Block LDB_Filter_Block LDB_Format LDB_Two_Level LDB_Cache
begin

text \<open>
  \<^verbatim>\<open>table/table.cc\<close> of \<^verbatim>\<open>src/MovieDBApp/Pods/leveldb-library\<close>: reading a table.

  A table keeps the state of its file and of the block cache of its options, if it has one;
  the operations of both are arguments. A block of the cache or of an iterator is a value,
  and an iterator carries the cleanup that its destructor runs on the table.
\<close>

section \<open>State\<close>

record ('f, 'c) Table =
  tab_options :: Options
  tab_block_cache :: "'c option"
  tab_status :: Status
  tab_file :: 'f
  tab_cache_id :: u64
  tab_filter :: "FilterBlockReader option"
  tab_filter_data :: "byte list option"
  tab_metaindex_handle :: BlockHandle
  tab_index_block :: Block

text \<open>\<^verbatim>\<open>NewIterator\<close> of a block gives an empty iterator or an iterator of the block.\<close>

type_synonym block_iter = "EmptyIterator + BlockIter"

abbreviation block_iter_ops :: "block_iter Iterator" where
  "block_iter_ops \<equiv> Either_ops EmptyIterator_ops BlockIter_ops"

datatype 'h BlockCleanup = DeleteBlock | ReleaseBlock 'h

type_synonym 'h data_iter = "(block_iter, 'h BlockCleanup) CleanupIterator"

abbreviation data_iter_ops :: "'h data_iter Iterator" where
  "data_iter_ops \<equiv> CleanupIterator_ops block_iter_ops"

section \<open>Opening\<close>

definition read_options :: "Options \<Rightarrow> ReadOptions" where
  "read_options options =
     (if opt_paranoid_checks options then ReadOptions_new\<lparr>ro_verify_checksums := True\<rparr> else ReadOptions_new)"

definition Table_ReadFilter ::
  "'f RandomAccessFile \<Rightarrow> ('f, 'c) Table \<Rightarrow> FilterPolicy \<Rightarrow> byte list \<Rightarrow> ('f, 'c) Table option" where
  "Table_ReadFilter fops t policy filter_handle_value =
     (case BlockHandle_DecodeFrom BlockHandle_new filter_handle_value of (s, filter_handle, v) \<Rightarrow>
        if \<not> ok s then Some t
        else do {
          (s, block, file) \<leftarrow> ReadBlock fops (tab_file t) (read_options (tab_options t)) filter_handle;
          let t = t\<lparr>tab_file := file\<rparr>;
          if \<not> ok s then Some t
          else do {
            r \<leftarrow> FilterBlockReader_new policy (bc_data block);
            Some (t\<lparr>tab_filter_data := (if bc_heap_allocated block then Some (bc_data block) else tab_filter_data t),
                   tab_filter := Some r\<rparr>)
          }
        })"

definition filter_key :: "FilterPolicy \<Rightarrow> byte list" where
  "filter_key policy = cstr ''filter.'' @ fp_Name policy"

definition Table_ReadMeta :: "'f RandomAccessFile \<Rightarrow> ('f, 'c) Table \<Rightarrow> Footer \<Rightarrow> ('f, 'c) Table option" where
  "Table_ReadMeta fops t footer =
     (case opt_filter_policy (tab_options t) of
        None \<Rightarrow> Some t
      | Some policy \<Rightarrow> do {
          (s, contents, file) \<leftarrow> ReadBlock fops (tab_file t) (read_options (tab_options t)) (ft_metaindex_handle footer);
          let t = t\<lparr>tab_file := file\<rparr>;
          if \<not> ok s then Some t
          else do {
            meta \<leftarrow> Block_new (bc_data contents);
            iter \<leftarrow> Block_NewIterator meta BytewiseComparator;
            iter \<leftarrow> i_Seek block_iter_ops iter (filter_key policy);
            if \<not> i_Valid block_iter_ops iter then Some t
            else do {
              key \<leftarrow> i_key block_iter_ops iter;
              if key = filter_key policy
              then do { v \<leftarrow> i_value block_iter_ops iter; Table_ReadFilter fops t policy v }
              else Some t
            }
          }
        })"

text \<open>The table, or the file and the cache as they are after the failure.\<close>

definition Table_Open ::
  "'f RandomAccessFile \<Rightarrow> ('c, 'h, Block) Cache \<Rightarrow> Options \<Rightarrow> 'c option \<Rightarrow> 'f \<Rightarrow> u64
    \<Rightarrow> (Status \<times> ('f \<times> 'c option + ('f, 'c) Table)) option" where
  "Table_Open fops cops options block_cache file file_size =
     (if unat file_size < kEncodedLength
      then Some (Corruption (cstr ''file is too short to be an sstable'') [], Inl (file, block_cache))
      else do {
        (s, footer_input, file) \<leftarrow> rf_Read fops file (file_size - of_nat kEncodedLength) (of_nat kEncodedLength);
        if \<not> ok s then Some (s, Inl (file, block_cache))
        else do {
          (s, footer, rest) \<leftarrow> Footer_DecodeFrom \<lparr>ft_metaindex_handle = BlockHandle_new, ft_index_handle = BlockHandle_new\<rparr> footer_input;
          if \<not> ok s then Some (s, Inl (file, block_cache))
          else do {
            (s, index_block_contents, file) \<leftarrow> ReadBlock fops file (read_options options) (ft_index_handle footer);
            if \<not> ok s then Some (s, Inl (file, block_cache))
            else do {
              index_block \<leftarrow> Block_new (bc_data index_block_contents);
              (cache_id, block_cache) \<leftarrow>
                (case block_cache of None \<Rightarrow> Some (0, None)
                 | Some c \<Rightarrow> do { (i, c) \<leftarrow> ca_NewId cops c; Some (i, Some c) });
              t \<leftarrow> Table_ReadMeta fops
                \<lparr>tab_options = options, tab_block_cache = block_cache, tab_status = Status_OK, tab_file = file,
                 tab_cache_id = cache_id, tab_filter = None, tab_filter_data = None,
                 tab_metaindex_handle = ft_metaindex_handle footer, tab_index_block = index_block\<rparr> footer;
              Some (s, Inr t)
            }
          }
        }
      })"

section \<open>Reading\<close>

text \<open>The key of a block in the cache.\<close>

definition block_cache_key :: "('f, 'c) Table \<Rightarrow> BlockHandle \<Rightarrow> byte list" where
  "block_cache_key t handle = EncodeFixed64 (tab_cache_id t) @ EncodeFixed64 (bh_offset handle)"

text \<open>The block of a handle, with the handle of the cache if it is there.\<close>

definition read_through_cache ::
  "'f RandomAccessFile \<Rightarrow> ('c, 'h, Block) Cache \<Rightarrow> ('f, 'c) Table \<Rightarrow> ReadOptions \<Rightarrow> BlockHandle
    \<Rightarrow> (Status \<times> Block option \<times> 'h option \<times> ('f, 'c) Table) option" where
  "read_through_cache fops cops t options handle =
     (case tab_block_cache t of
        Some c \<Rightarrow> do {
          let key = block_cache_key t handle;
          (cache_handle, c) \<leftarrow> ca_Lookup cops c key;
          let t = t\<lparr>tab_block_cache := Some c\<rparr>;
          case cache_handle of
            Some h \<Rightarrow> do { block \<leftarrow> ca_Value cops c h; Some (Status_OK, Some block, Some h, t) }
          | None \<Rightarrow> do {
              (s, contents, file) \<leftarrow> ReadBlock fops (tab_file t) options handle;
              let t = t\<lparr>tab_file := file\<rparr>;
              if \<not> ok s then Some (s, None, None, t)
              else do {
                block \<leftarrow> Block_new (bc_data contents);
                if bc_cachable contents \<and> ro_fill_cache options then do {
                  (h, c) \<leftarrow> ca_Insert cops c key block (of_nat (blk_size block));
                  Some (s, Some block, Some h, t\<lparr>tab_block_cache := Some c\<rparr>)
                }
                else Some (s, Some block, None, t)
              }
            }
        }
      | None \<Rightarrow> do {
          (s, contents, file) \<leftarrow> ReadBlock fops (tab_file t) options handle;
          let t = t\<lparr>tab_file := file\<rparr>;
          if \<not> ok s then Some (s, None, None, t)
          else do { block \<leftarrow> Block_new (bc_data contents); Some (s, Some block, None, t) }
        })"

definition BlockReader ::
  "'f RandomAccessFile \<Rightarrow> ('c, 'h, Block) Cache \<Rightarrow> ('f, 'c) Table \<Rightarrow> ReadOptions \<Rightarrow> byte list
    \<Rightarrow> ('h data_iter \<times> ('f, 'c) Table) option" where
  "BlockReader fops cops t options index_value = do {
     let (s, handle, input) = BlockHandle_DecodeFrom BlockHandle_new index_value;
     (s, block, cache_handle, t) \<leftarrow>
       (if ok s then read_through_cache fops cops t options handle else Some (s, None, None, t));
     case block of
       Some b \<Rightarrow> do {
         iter \<leftarrow> Block_NewIterator b (opt_comparator (tab_options t));
         let it = \<lparr>ci_iter = iter, ci_cleanup = []\<rparr>;
         Some (case cache_handle of None \<Rightarrow> RegisterCleanup it DeleteBlock | Some h \<Rightarrow> RegisterCleanup it (ReleaseBlock h), t)
       }
     | None \<Rightarrow> Some (\<lparr>ci_iter = Inl (NewErrorIterator s), ci_cleanup = []\<rparr>, t)
   }"

fun run_block_cleanup :: "('c, 'h, Block) Cache \<Rightarrow> 'h BlockCleanup \<Rightarrow> ('f, 'c) Table \<Rightarrow> ('f, 'c) Table option" where
  "run_block_cleanup cops DeleteBlock t = Some t"
| "run_block_cleanup cops (ReleaseBlock h) t = do {
     c \<leftarrow> tab_block_cache t;
     c \<leftarrow> ca_Release cops c h;
     Some (t\<lparr>tab_block_cache := Some c\<rparr>)
   }"

definition data_iter_delete :: "('c, 'h, Block) Cache \<Rightarrow> 'h data_iter \<Rightarrow> ('f, 'c) Table \<Rightarrow> ('f, 'c) Table option" where
  "data_iter_delete cops = Iterator_delete (run_block_cleanup cops)"

type_synonym ('f, 'c, 'h) table_iter = "(block_iter, 'h data_iter, ('f, 'c) Table) TwoLevelIterator"

definition Table_NewIterator ::
  "'f RandomAccessFile \<Rightarrow> ('c, 'h, Block) Cache \<Rightarrow> ('f, 'c) Table \<Rightarrow> ReadOptions \<Rightarrow> ('f, 'c, 'h) table_iter option" where
  "Table_NewIterator fops cops t options = do {
     index \<leftarrow> Block_NewIterator (tab_index_block t) (opt_comparator (tab_options t));
     NewTwoLevelIterator block_iter_ops index (BlockReader fops cops) (data_iter_delete cops) t options
   }"

abbreviation table_iter_ops :: "('f, 'c, 'h) table_iter Iterator" where
  "table_iter_ops \<equiv> TwoLevel_ops block_iter_ops data_iter_ops"

text \<open>The callback \<^verbatim>\<open>handle_result\<close> acts on its argument.\<close>

definition Table_InternalGet ::
  "'f RandomAccessFile \<Rightarrow> ('c, 'h, Block) Cache \<Rightarrow> ('f, 'c) Table \<Rightarrow> ReadOptions \<Rightarrow> byte list \<Rightarrow> 's
    \<Rightarrow> ('s \<Rightarrow> byte list \<Rightarrow> byte list \<Rightarrow> 's) \<Rightarrow> (Status \<times> 's \<times> ('f, 'c) Table) option" where
  "Table_InternalGet fops cops t options k arg handle_result = do {
     iiter \<leftarrow> Block_NewIterator (tab_index_block t) (opt_comparator (tab_options t));
     iiter \<leftarrow> i_Seek block_iter_ops iiter k;
     (s, arg, t) \<leftarrow>
       (if \<not> i_Valid block_iter_ops iiter then Some (Status_OK, arg, t)
        else do {
          handle_value \<leftarrow> i_value block_iter_ops iiter;
          may_match \<leftarrow>
            (case tab_filter t of
               None \<Rightarrow> Some True
             | Some fr \<Rightarrow>
                 (case BlockHandle_DecodeFrom BlockHandle_new handle_value of (s, handle, rest) \<Rightarrow>
                    if ok s then FilterBlock_KeyMayMatch fr (bh_offset handle) k else Some True));
          if \<not> may_match then Some (Status_OK, arg, t)
          else do {
            (block_iter, t) \<leftarrow> BlockReader fops cops t options handle_value;
            block_iter \<leftarrow> i_Seek data_iter_ops block_iter k;
            arg \<leftarrow>
              (if i_Valid data_iter_ops block_iter then do {
                 key \<leftarrow> i_key data_iter_ops block_iter;
                 v \<leftarrow> i_value data_iter_ops block_iter;
                 Some (handle_result arg key v)
               }
               else Some arg);
            let s = i_status data_iter_ops block_iter;
            t \<leftarrow> data_iter_delete cops block_iter t;
            Some (s, arg, t)
          }
        });
     Some (if ok s then i_status block_iter_ops iiter else s, arg, t)
   }"

definition Table_ApproximateOffsetOf :: "('f, 'c) Table \<Rightarrow> byte list \<Rightarrow> u64 option" where
  "Table_ApproximateOffsetOf t key = do {
     index_iter \<leftarrow> Block_NewIterator (tab_index_block t) (opt_comparator (tab_options t));
     index_iter \<leftarrow> i_Seek block_iter_ops index_iter key;
     if i_Valid block_iter_ops index_iter then do {
       input \<leftarrow> i_value block_iter_ops index_iter;
       case BlockHandle_DecodeFrom BlockHandle_new input of (s, handle, rest) \<Rightarrow>
         Some (if ok s then bh_offset handle else bh_offset (tab_metaindex_handle t))
     }
     else Some (bh_offset (tab_metaindex_handle t))
   }"

end
