(* ===== verification/LDB_Table_Builder.thy ===== *)
theory LDB_Table_Builder
  imports LDB_Block LDB_Filter_Block LDB_Format
begin

text \<open>
  \<^verbatim>\<open>table/table_builder.cc\<close> of \<^verbatim>\<open>src/MovieDBApp/Pods/leveldb-library\<close>: writing a table to a
  file.

  The file is the state of a \<^verbatim>\<open>WritableFile\<close> with its operations as an argument. A block
  builder points to the options of the table, which \<^verbatim>\<open>ChangeOptions\<close> changes under it, so the
  builders get the new options there. \<^const>\<open>None\<close> is a failed assertion or a call of the file
  that does not return.
\<close>

section \<open>State\<close>

record 'f TableBuilder =
  tb_options :: Options
  tb_index_block_options :: Options
  tb_file :: 'f
  tb_offset :: u64
  tb_status :: Status
  tb_data_block :: BlockBuilder
  tb_index_block :: BlockBuilder
  tb_last_key :: "byte list"
  tb_num_entries :: "64 word"
  tb_closed :: bool
  tb_filter_block :: "FilterBlockBuilder option"
  tb_pending_index_entry :: bool
  tb_pending_handle :: BlockHandle
  tb_compressed_output :: "byte list"

abbreviation tb_ok :: "'f TableBuilder \<Rightarrow> bool" where
  "tb_ok r \<equiv> ok (tb_status r)"

definition TableBuilder_new :: "Options \<Rightarrow> 'f \<Rightarrow> 'f TableBuilder" where
  "TableBuilder_new options file =
     \<lparr>tb_options = options, tb_index_block_options = options\<lparr>opt_block_restart_interval := 1\<rparr>, tb_file = file,
      tb_offset = 0, tb_status = Status_OK, tb_data_block = BlockBuilder_new options,
      tb_index_block = BlockBuilder_new (options\<lparr>opt_block_restart_interval := 1\<rparr>), tb_last_key = [],
      tb_num_entries = 0, tb_closed = False,
      tb_filter_block = map_option (\<lambda>policy. StartBlock (FilterBlockBuilder_new policy) 0) (opt_filter_policy options),
      tb_pending_index_entry = False, tb_pending_handle = BlockHandle_new, tb_compressed_output = []\<rparr>"

text \<open>Comparators are the same if they are the same object; objects have different names.\<close>

definition TableBuilder_ChangeOptions :: "'f TableBuilder \<Rightarrow> Options \<Rightarrow> Status \<times> 'f TableBuilder" where
  "TableBuilder_ChangeOptions r options =
     (if cmp_Name (opt_comparator options) \<noteq> cmp_Name (opt_comparator (tb_options r))
      then (InvalidArgument (cstr ''changing comparator while building table'') [], r)
      else
        let index_options = options\<lparr>opt_block_restart_interval := 1\<rparr> in
        (Status_OK,
         r\<lparr>tb_options := options, tb_index_block_options := index_options,
           tb_data_block := (tb_data_block r)\<lparr>bb_options := options\<rparr>,
           tb_index_block := (tb_index_block r)\<lparr>bb_options := index_options\<rparr>\<rparr>))"

section \<open>Writing blocks\<close>

text \<open>The handle that is set is part of the result.\<close>

definition WriteRawBlock ::
  "'f WritableFile \<Rightarrow> 'f TableBuilder \<Rightarrow> byte list \<Rightarrow> byte \<Rightarrow> ('f TableBuilder \<times> BlockHandle) option" where
  "WriteRawBlock fops r block_contents type = do {
     let handle = \<lparr>bh_offset = tb_offset r, bh_size = of_nat (length block_contents)\<rparr>;
     (s, file) \<leftarrow> wf_Append fops (tb_file r) block_contents;
     let r = r\<lparr>tb_status := s, tb_file := file\<rparr>;
     if \<not> ok s then Some (r, handle)
     else do {
       crc \<leftarrow> crc_extend 0 block_contents;
       crc \<leftarrow> crc_extend crc [type];
       (s, file) \<leftarrow> wf_Append fops (tb_file r) ([type] @ EncodeFixed32 (Mask crc));
       let r = r\<lparr>tb_status := s, tb_file := file\<rparr>;
       Some (if ok s then r\<lparr>tb_offset := tb_offset r + (of_nat (length block_contents) + kBlockTrailerSize)\<rparr> else r, handle)
     }
   }"

text \<open>
  The contents and the type of what is stored, and the string for the compressed form. A
  type that is none of the enumeration stores nothing.
\<close>

definition compress :: "byte \<Rightarrow> byte list \<Rightarrow> byte list \<Rightarrow> byte list \<times> byte \<times> byte list" where
  "compress type raw compressed_output =
     (if type = kNoCompression then (raw, type, compressed_output)
      else if type = kSnappyCompression then
        (case Snappy_Compress raw of
           Some compressed \<Rightarrow>
             if length compressed < length raw - length raw div 8 then (compressed, type, compressed)
             else (raw, kNoCompression, compressed)
         | None \<Rightarrow> (raw, kNoCompression, compressed_output))
      else ([], type, compressed_output))"

definition WriteBlock ::
  "'f WritableFile \<Rightarrow> 'f TableBuilder \<Rightarrow> BlockBuilder \<Rightarrow> ('f TableBuilder \<times> BlockBuilder \<times> BlockHandle) option" where
  "WriteBlock fops r block =
     (if \<not> tb_ok r then None
      else do {
        let (raw, block) = BlockBuilder_Finish block;
        let (block_contents, type, compressed) =
          compress (opt_compression (tb_options r)) raw (tb_compressed_output r);
        (r, handle) \<leftarrow> WriteRawBlock fops (r\<lparr>tb_compressed_output := compressed\<rparr>) block_contents type;
        Some (r\<lparr>tb_compressed_output := []\<rparr>, BlockBuilder_Reset block, handle)
      })"

section \<open>Operations\<close>

definition TableBuilder_Flush :: "'f WritableFile \<Rightarrow> 'f TableBuilder \<Rightarrow> 'f TableBuilder option" where
  "TableBuilder_Flush fops r =
     (if tb_closed r then None
      else if \<not> tb_ok r then Some r
      else if BlockBuilder_empty (tb_data_block r) then Some r
      else if tb_pending_index_entry r then None
      else do {
        (r, block, handle) \<leftarrow> WriteBlock fops r (tb_data_block r);
        let r = r\<lparr>tb_data_block := block, tb_pending_handle := handle\<rparr>;
        r \<leftarrow> (if tb_ok r then do {
                let r = r\<lparr>tb_pending_index_entry := True\<rparr>;
                (s, file) \<leftarrow> wf_Flush fops (tb_file r);
                Some (r\<lparr>tb_status := s, tb_file := file\<rparr>)
              }
              else Some r);
        Some (r\<lparr>tb_filter_block := map_option (\<lambda>fb. StartBlock fb (tb_offset r)) (tb_filter_block r)\<rparr>)
      })"

text \<open>The entry of the index for the block before, with the key that has been found.\<close>

definition add_index_entry :: "'f TableBuilder \<Rightarrow> byte list \<Rightarrow> 'f TableBuilder option" where
  "add_index_entry r sep = do {
     handle_encoding \<leftarrow> BlockHandle_EncodeTo (tb_pending_handle r) [];
     Some (r\<lparr>tb_last_key := sep, tb_index_block := BlockBuilder_Add (tb_index_block r) sep handle_encoding,
            tb_pending_index_entry := False\<rparr>)
   }"

definition TableBuilder_Add :: "'f WritableFile \<Rightarrow> 'f TableBuilder \<Rightarrow> byte list \<Rightarrow> byte list \<Rightarrow> 'f TableBuilder option" where
  "TableBuilder_Add fops r key val =
     (if tb_closed r then None
      else if \<not> tb_ok r then Some r
      else do {
        in_order \<leftarrow>
          (if 0 <s tb_num_entries r then do {
             c \<leftarrow> cmp_Compare (opt_comparator (tb_options r)) key (tb_last_key r);
             Some (c > 0)
           }
           else Some True);
        if \<not> in_order then None
        else do {
          r \<leftarrow>
            (if tb_pending_index_entry r then
               if \<not> BlockBuilder_empty (tb_data_block r) then None
               else do {
                 sep \<leftarrow> cmp_FindShortestSeparator (opt_comparator (tb_options r)) (tb_last_key r) key;
                 add_index_entry r sep
               }
             else Some r);
          let r = r\<lparr>tb_filter_block := map_option (\<lambda>fb. AddKey fb key) (tb_filter_block r)\<rparr>;
          let r = r\<lparr>tb_last_key := key, tb_num_entries := tb_num_entries r + 1,
                    tb_data_block := BlockBuilder_Add (tb_data_block r) key val\<rparr>;
          if CurrentSizeEstimate (tb_data_block r) \<ge> opt_block_size (tb_options r) then TableBuilder_Flush fops r
          else Some r
        }
      })"

text \<open>The parts of \<^verbatim>\<open>Finish\<close>: each writes its block if there has been no error.\<close>

definition Finish_filter_block :: "'f WritableFile \<Rightarrow> 'f TableBuilder \<Rightarrow> ('f TableBuilder \<times> BlockHandle) option" where
  "Finish_filter_block fops r =
     (case tb_filter_block r of
        Some fb \<Rightarrow>
          if tb_ok r then
            let (contents, fb) = FilterBlock_Finish fb
            in WriteRawBlock fops (r\<lparr>tb_filter_block := Some fb\<rparr>) contents kNoCompression
          else Some (r, BlockHandle_new)
      | None \<Rightarrow> Some (r, BlockHandle_new))"

definition Finish_metaindex_block ::
  "'f WritableFile \<Rightarrow> 'f TableBuilder \<Rightarrow> BlockHandle \<Rightarrow> ('f TableBuilder \<times> BlockHandle) option" where
  "Finish_metaindex_block fops r filter_block_handle =
     (if \<not> tb_ok r then Some (r, BlockHandle_new)
      else do {
        let meta_index_block = BlockBuilder_new (tb_options r);
        meta_index_block \<leftarrow>
          (if tb_filter_block r \<noteq> None then do {
             policy \<leftarrow> opt_filter_policy (tb_options r);
             let key = cstr ''filter.'' @ fp_Name policy;
             handle_encoding \<leftarrow> BlockHandle_EncodeTo filter_block_handle [];
             Some (BlockBuilder_Add meta_index_block key handle_encoding)
           }
           else Some meta_index_block);
        (r, block, handle) \<leftarrow> WriteBlock fops r meta_index_block;
        Some (r, handle)
      })"

definition Finish_index_block :: "'f WritableFile \<Rightarrow> 'f TableBuilder \<Rightarrow> ('f TableBuilder \<times> BlockHandle) option" where
  "Finish_index_block fops r =
     (if \<not> tb_ok r then Some (r, BlockHandle_new)
      else do {
        r \<leftarrow>
          (if tb_pending_index_entry r then do {
             succ \<leftarrow> cmp_FindShortSuccessor (opt_comparator (tb_options r)) (tb_last_key r);
             add_index_entry r succ
           }
           else Some r);
        (r, block, handle) \<leftarrow> WriteBlock fops r (tb_index_block r);
        Some (r\<lparr>tb_index_block := block\<rparr>, handle)
      })"

definition Finish_footer ::
  "'f WritableFile \<Rightarrow> 'f TableBuilder \<Rightarrow> BlockHandle \<Rightarrow> BlockHandle \<Rightarrow> 'f TableBuilder option" where
  "Finish_footer fops r metaindex_block_handle index_block_handle =
     (if \<not> tb_ok r then Some r
      else do {
        footer_encoding \<leftarrow> Footer_EncodeTo \<lparr>ft_metaindex_handle = metaindex_block_handle, ft_index_handle = index_block_handle\<rparr> [];
        (s, file) \<leftarrow> wf_Append fops (tb_file r) footer_encoding;
        let r = r\<lparr>tb_status := s, tb_file := file\<rparr>;
        Some (if ok s then r\<lparr>tb_offset := tb_offset r + of_nat (length footer_encoding)\<rparr> else r)
      })"

definition TableBuilder_Finish :: "'f WritableFile \<Rightarrow> 'f TableBuilder \<Rightarrow> (Status \<times> 'f TableBuilder) option" where
  "TableBuilder_Finish fops r = do {
     r \<leftarrow> TableBuilder_Flush fops r;
     if tb_closed r then None
     else do {
       (r, filter_block_handle) \<leftarrow> Finish_filter_block fops (r\<lparr>tb_closed := True\<rparr>);
       (r, metaindex_block_handle) \<leftarrow> Finish_metaindex_block fops r filter_block_handle;
       (r, index_block_handle) \<leftarrow> Finish_index_block fops r;
       r \<leftarrow> Finish_footer fops r metaindex_block_handle index_block_handle;
       Some (tb_status r, r)
     }
   }"

definition TableBuilder_Abandon :: "'f TableBuilder \<Rightarrow> 'f TableBuilder option" where
  "TableBuilder_Abandon r = (if tb_closed r then None else Some (r\<lparr>tb_closed := True\<rparr>))"

definition TableBuilder_NumEntries :: "'f TableBuilder \<Rightarrow> u64" where
  "TableBuilder_NumEntries r = tb_num_entries r"

definition TableBuilder_FileSize :: "'f TableBuilder \<Rightarrow> u64" where
  "TableBuilder_FileSize r = tb_offset r"

end
