(* ===== verification/LDB_Block_Layout.thy ===== *)
theory LDB_Block_Layout
  imports LDB_Block
begin

text \<open>
  The bytes of a block for a list of entries: what the builder of \<^verbatim>\<open>table/block_builder.cc\<close>
  writes, and what \<^verbatim>\<open>DecodeEntry\<close> of \<^verbatim>\<open>table/block.cc\<close> reads at the offset of an entry.
\<close>

section \<open>Layout\<close>

text \<open>Entry \<open>i\<close> shares a prefix with the entry before it unless it is a restart point.\<close>

definition share :: "nat \<Rightarrow> entry list \<Rightarrow> nat \<Rightarrow> nat" where
  "share iv es i = (if i mod iv = 0 then 0
     else let a = fst (es ! (i - 1)); b = fst (es ! i) in common_prefix (min (length a) (length b)) a b)"

definition ent :: "nat \<Rightarrow> entry list \<Rightarrow> nat \<Rightarrow> byte list" where
  "ent iv es i = Add_bytes (share iv es i) (fst (es ! i)) (snd (es ! i)) []"

definition ents :: "nat \<Rightarrow> entry list \<Rightarrow> nat \<Rightarrow> nat \<Rightarrow> byte list" where
  "ents iv es i j = concat (map (ent iv es) [i..<j])"

definition off :: "nat \<Rightarrow> entry list \<Rightarrow> nat \<Rightarrow> nat" where
  "off iv es i = length (ents iv es 0 i)"

definition num_points :: "nat \<Rightarrow> entry list \<Rightarrow> nat" where
  "num_points iv es = (length es - 1) div iv + 1"

definition points :: "nat \<Rightarrow> entry list \<Rightarrow> u32 list" where
  "points iv es = map (\<lambda>j. of_nat (off iv es (j * iv))) [0..<num_points iv es]"

definition block_bytes :: "nat \<Rightarrow> entry list \<Rightarrow> byte list" where
  "block_bytes iv es = ents iv es 0 (length es) @ fixed32_array (points iv es) @ le_bytes 4 (of_nat (num_points iv es) :: u32)"

section \<open>The builder writes the layout\<close>

lemma common_prefix_le: "common_prefix n a b \<le> length a" "common_prefix n a b \<le> length b"
  by (induction n a b rule: common_prefix.induct) auto

lemma common_prefix_take: "take (common_prefix n a b) a = take (common_prefix n a b) b"
  by (induction n a b rule: common_prefix.induct) auto

lemma share_le: "share iv es i \<le> length (fst (es ! i))"
  by (simp add: share_def Let_def common_prefix_le)

lemma Add_bytes_append: "Add_bytes s k v (buf @ buf') = buf @ Add_bytes s k v buf'"
  by (simp add: Add_bytes_def Let_def PutVarint32_def)

lemma Add_bytes_buffer: "Add_bytes s k v buf = buf @ Add_bytes s k v []"
  using Add_bytes_append [of s k v buf "[]"] by simp

lemma share_snoc: "i < length es \<Longrightarrow> share iv (es @ [e]) i = share iv es i"
  by (simp add: share_def nth_append)

lemma ent_snoc: "i < length es \<Longrightarrow> ent iv (es @ [e]) i = ent iv es i"
  by (simp add: ent_def share_snoc nth_append)

lemma ents_snoc: "j \<le> length es \<Longrightarrow> ents iv (es @ [e]) i j = ents iv es i j"
  unfolding ents_def by (intro arg_cong [where f = concat] map_cong refl) (auto simp: ent_snoc)

lemma off_snoc: "i \<le> length es \<Longrightarrow> off iv (es @ [e]) i = off iv es i"
  by (simp add: off_def ents_snoc)

lemma ents_Suc: "i \<le> j \<Longrightarrow> ents iv es i (Suc j) = ents iv es i j @ ent iv es j"
  by (simp add: ents_def)

lemma ents_Cons: "i < j \<Longrightarrow> ents iv es i j = ent iv es i @ ents iv es (Suc i) j"
  by (simp add: ents_def upt_conv_Cons)

lemma ents_split: "i \<le> j \<Longrightarrow> j \<le> k \<Longrightarrow> ents iv es i k = ents iv es i j @ ents iv es j k"
  using upt_add_eq_append [of i j "k - j"] by (simp add: ents_def)

lemma num_points_snoc:
  assumes "1 \<le> iv"
  shows "num_points iv (es @ [e]) = (if es \<noteq> [] \<and> length es mod iv = 0 then num_points iv es + 1 else num_points iv es)"
proof (cases "length es")
  case (Suc m)
  then show ?thesis using assms by (auto simp: num_points_def div_Suc)
qed (use assms in \<open>simp add: num_points_def\<close>)

lemma point_index:
  assumes "1 \<le> iv" and "j < num_points iv es"
  shows "j * iv \<le> length es - 1"
proof -
  have "j \<le> (length es - 1) div iv" using assms(2) by (simp add: num_points_def)
  then have "j * iv \<le> (length es - 1) div iv * iv" by (rule mult_le_mono1)
  then show ?thesis using div_times_less_eq_dividend order_trans by blast
qed

lemma points_snoc:
  assumes "1 \<le> iv"
  shows "points iv (es @ [e]) =
    (if es \<noteq> [] \<and> length es mod iv = 0 then points iv es @ [of_nat (off iv es (length es))] else points iv es)"
proof -
  have old: "map (\<lambda>j. of_nat (off iv (es @ [e]) (j * iv))) [0..<num_points iv es] = points iv es"
    using point_index [OF assms] by (auto simp: points_def intro!: arg_cong [where f = of_nat] off_snoc) (meson diff_le_self le_trans)
  have new: "num_points iv es * iv = length es" if es: "es \<noteq> []" and m: "length es mod iv = 0"
  proof -
    obtain q where q: "length es = q * iv" using m by (metis mod_0_imp_dvd dvd_def mult.commute)
    then obtain r where "q = Suc r" using es by (cases q) auto
    moreover have "(Suc r * iv - 1) div iv = r"
    proof -
      have "Suc r * iv - 1 = (iv - 1) + iv * r" using assms by (simp add: algebra_simps)
      then show ?thesis using assms by (simp only: div_mult_self2) simp
    qed
    ultimately show ?thesis by (simp only: num_points_def q) simp
  qed
  show ?thesis
  proof (cases "es \<noteq> [] \<and> length es mod iv = 0")
    case True
    have "points iv (es @ [e]) = map (\<lambda>j. of_nat (off iv (es @ [e]) (j * iv))) [0..<num_points iv es + 1]"
      using True by (simp only: points_def num_points_snoc [OF assms]) simp
    also have "\<dots> = points iv es @ [of_nat (off iv (es @ [e]) (num_points iv es * iv))]"
      by (simp flip: old)
    finally show ?thesis using True new by (simp add: off_snoc)
  next
    case False
    then have "points iv (es @ [e]) = map (\<lambda>j. of_nat (off iv (es @ [e]) (j * iv))) [0..<num_points iv es]"
      by (simp only: points_def num_points_snoc [OF assms] if_False)
    then show ?thesis using False by (simp only: old if_False)
  qed
qed

definition build_block :: "Options \<Rightarrow> entry list \<Rightarrow> BlockBuilder" where
  "build_block options es = fold (\<lambda>(k, v) b. BlockBuilder_Add b k v) es (BlockBuilder_new options)"

definition since_restart :: "nat \<Rightarrow> nat \<Rightarrow> int" where
  "since_restart iv n = (if n = 0 then 0 else int ((n - 1) mod iv + 1))"

lemma since_restart_less:
  assumes "1 \<le> iv"
  shows "since_restart iv n < int iv \<longleftrightarrow> n = 0 \<or> n mod iv \<noteq> 0"
proof (cases n)
  case (Suc m)
  have "m mod iv < iv" using assms by simp
  then show ?thesis using Suc by (auto simp: since_restart_def mod_Suc)
qed (use assms in \<open>simp add: since_restart_def\<close>)

lemma since_restart_Suc:
  assumes "1 \<le> iv"
  shows "since_restart iv (Suc n) = (if n = 0 \<or> n mod iv \<noteq> 0 then since_restart iv n else 0) + 1"
  using assms by (cases n) (auto simp: since_restart_def mod_Suc)

lemma build_block_state:
  assumes "1 \<le> iv" and "opt_block_restart_interval options = int iv"
  shows "build_block options es =
    \<lparr>bb_options = options, bb_buffer = ents iv es 0 (length es), bb_restarts = points iv es,
     bb_counter = since_restart iv (length es), bb_finished = False,
     bb_last_key = (if es = [] then [] else fst (last es))\<rparr>"
proof (induction es rule: rev_induct)
  case Nil
  then show ?case by (simp add: build_block_def BlockBuilder_new_def ents_def points_def num_points_def since_restart_def off_def)
next
  case (snoc e es)
  let ?n = "length es"
  let ?last = "if es = [] then [] else fst (last es)"
  have sh: "share iv (es @ [e]) ?n =
      (if ?n = 0 \<or> ?n mod iv \<noteq> 0 then common_prefix (min (length ?last) (length (fst e))) ?last (fst e) else 0)"
    by (cases es rule: rev_cases) (simp_all add: share_def Let_def nth_append)
  have key: "take (share iv (es @ [e]) ?n) ?last @ drop (share iv (es @ [e]) ?n) (fst e) = fst e"
    using common_prefix_take [of "min (length ?last) (length (fst e))" ?last "fst e"] unfolding sh by simp
  have buf: "Add_bytes (share iv (es @ [e]) ?n) (fst e) (snd e) (ents iv es 0 ?n) = ents iv (es @ [e]) 0 (Suc ?n)"
    by (subst Add_bytes_buffer) (simp add: ents_Suc ents_snoc ent_def)
  have step: "build_block options (es @ [e]) = BlockBuilder_Add (build_block options es) (fst e) (snd e)"
    by (simp add: build_block_def case_prod_beta)
  have pts: "points iv (es @ [e]) =
      (if \<not> (?n = 0 \<or> ?n mod iv \<noteq> 0) then points iv es @ [of_nat (off iv es ?n)] else points iv es)"
    by (subst points_snoc [OF assms(1)]) simp
  show ?case
  proof (cases "?n = 0 \<or> ?n mod iv \<noteq> 0")
    case True
    then have "since_restart iv ?n < opt_block_restart_interval options"
      using since_restart_less [OF assms(1), of ?n] assms(2) by simp
    moreover have "share iv (es @ [e]) ?n = common_prefix (min (length ?last) (length (fst e))) ?last (fst e)"
      using True by (simp only: sh if_True)
    ultimately show ?thesis
      using True buf key pts since_restart_Suc [OF assms(1), of ?n] unfolding step snoc.IH
      by (simp add: BlockBuilder_Add_def Let_def)
  next
    case False
    then have "\<not> since_restart iv ?n < opt_block_restart_interval options"
      using since_restart_less [OF assms(1), of ?n] assms(2) by simp
    moreover have "share iv (es @ [e]) ?n = 0" using False by (simp only: sh if_False)
    ultimately show ?thesis
      using False buf key pts since_restart_Suc [OF assms(1), of ?n] unfolding step snoc.IH
      by (simp add: BlockBuilder_Add_def Let_def off_def)
  qed
qed

lemma length_points [simp]: "length (points iv es) = num_points iv es"
  by (simp add: points_def)

lemma build_block_bytes:
  assumes "1 \<le> iv" and "opt_block_restart_interval options = int iv"
  shows "fst (BlockBuilder_Finish (build_block options es)) = block_bytes iv es"
  by (simp add: build_block_state [OF assms] BlockBuilder_Finish_def Let_def fold_PutFixed32 block_bytes_def)
    (simp add: PutFixed32_def)

end
