(* ===== verification/LDB_Dbformat.thy ===== *)
theory LDB_Dbformat
  imports LDB_Comparator LDB_Logging LDB_Filter_Policy
begin

text \<open>
  \<^verbatim>\<open>db/dbformat.h\<close> and \<^verbatim>\<open>db/dbformat.cc\<close> of
  \<^verbatim>\<open>src/MovieDBApp/Pods/leveldb-library\<close>: the internal keys of the database, a user key
  followed by eight bytes with a sequence number and the kind of the entry.

  Keys of fewer than eight bytes fail an assertion: \<^const>\<open>None\<close>. The internal comparator
  keeps the contract of comparators whenever the user's does, and the internal filter
  policy that of policies.
\<close>

section \<open>Constants and internal keys\<close>

definition kNumLevels :: nat where "kNumLevels = 7"
definition kL0_CompactionTrigger :: nat where "kL0_CompactionTrigger = 4"
definition kL0_SlowdownWritesTrigger :: nat where "kL0_SlowdownWritesTrigger = 8"
definition kL0_StopWritesTrigger :: nat where "kL0_StopWritesTrigger = 12"
definition kMaxMemCompactLevel :: nat where "kMaxMemCompactLevel = 2"
definition kReadBytesPeriod :: nat where "kReadBytesPeriod = 1048576"

type_synonym ValueType = byte
type_synonym SequenceNumber = u64

definition kTypeDeletion :: ValueType where "kTypeDeletion = 0x0"
definition kTypeValue :: ValueType where "kTypeValue = 0x1"
definition kValueTypeForSeek :: ValueType where "kValueTypeForSeek = kTypeValue"
definition kMaxSequenceNumber :: SequenceNumber where "kMaxSequenceNumber = push_bit 56 1 - 1"

record ParsedInternalKey =
  pik_user_key :: "byte list"
  pik_sequence :: SequenceNumber
  pik_type :: ValueType

definition InternalKeyEncodingLength :: "ParsedInternalKey \<Rightarrow> nat" where
  "InternalKeyEncodingLength key = length (pik_user_key key) + 8"

definition PackSequenceAndType :: "u64 \<Rightarrow> ValueType \<Rightarrow> u64" where
  "PackSequenceAndType seq t = push_bit 8 seq OR ucast t"

definition AppendInternalKey :: "byte list \<Rightarrow> ParsedInternalKey \<Rightarrow> byte list" where
  "AppendInternalKey result key =
     PutFixed64 (result @ pik_user_key key) (PackSequenceAndType (pik_sequence key) (pik_type key))"

text \<open>The result is stored, if the key is long enough, also when its type is unknown.\<close>

definition ParseInternalKey :: "byte list \<Rightarrow> bool \<times> ParsedInternalKey option" where
  "ParseInternalKey internal_key =
     (let n = length internal_key in
      if n < 8 then (False, None)
      else let num = the (DecodeFixed64 (drop (n - 8) internal_key)); c = ucast (num AND 0xff) :: byte in
        (c \<le> kTypeValue,
         Some \<lparr>pik_user_key = take (n - 8) internal_key, pik_sequence = drop_bit 8 num, pik_type = c\<rparr>))"

definition ExtractUserKey :: "byte list \<Rightarrow> byte list option" where
  "ExtractUserKey internal_key =
     (if length internal_key \<ge> 8 then Some (take (length internal_key - 8) internal_key) else None)"

definition ParsedInternalKey_DebugString :: "ParsedInternalKey \<Rightarrow> byte list" where
  "ParsedInternalKey_DebugString key =
     (let buf = take 49 (cstr [CHR 0x27, CHR '' '', CHR ''@'', CHR '' ''] @ decimal (unat (pik_sequence key))
                @ cstr '' : '' @ decimal (unat (pik_type key)))
      in [0x27] @ EscapeString (pik_user_key key) @ buf)"

text \<open>The class \<^verbatim>\<open>InternalKey\<close> is the string \<^verbatim>\<open>rep_\<close>.\<close>

definition InternalKey_new :: "byte list \<Rightarrow> SequenceNumber \<Rightarrow> ValueType \<Rightarrow> byte list" where
  "InternalKey_new user_key s t = AppendInternalKey [] \<lparr>pik_user_key = user_key, pik_sequence = s, pik_type = t\<rparr>"

definition InternalKey_Encode :: "byte list \<Rightarrow> byte list option" where
  "InternalKey_Encode rep = (if rep \<noteq> [] then Some rep else None)"

definition InternalKey_user_key :: "byte list \<Rightarrow> byte list option" where
  "InternalKey_user_key rep = ExtractUserKey rep"

definition InternalKey_SetFrom :: "byte list \<Rightarrow> ParsedInternalKey \<Rightarrow> byte list" where
  "InternalKey_SetFrom rep p = AppendInternalKey [] p"

definition InternalKey_DebugString :: "byte list \<Rightarrow> byte list" where
  "InternalKey_DebugString rep =
     (case ParseInternalKey rep of
        (True, Some parsed) \<Rightarrow> ParsedInternalKey_DebugString parsed
      | _ \<Rightarrow> cstr ''(bad)'' @ EscapeString rep)"

section \<open>Internal comparator\<close>

definition Internal_Compare :: "Comparator \<Rightarrow> byte list \<Rightarrow> byte list \<Rightarrow> int option" where
  "Internal_Compare user_comparator akey bkey = do {
     auser \<leftarrow> ExtractUserKey akey;
     buser \<leftarrow> ExtractUserKey bkey;
     r \<leftarrow> cmp_Compare user_comparator auser buser;
     if r = 0 then do {
       anum \<leftarrow> DecodeFixed64 (drop (length akey - 8) akey);
       bnum \<leftarrow> DecodeFixed64 (drop (length bkey - 8) bkey);
       if anum > bnum then Some (- 1) else if anum < bnum then Some 1 else Some r
     }
     else Some r
   }"

definition Internal_FindShortestSeparator :: "Comparator \<Rightarrow> byte list \<Rightarrow> byte list \<Rightarrow> byte list option" where
  "Internal_FindShortestSeparator user_comparator start limit = do {
     user_start \<leftarrow> ExtractUserKey start;
     user_limit \<leftarrow> ExtractUserKey limit;
     tmp \<leftarrow> cmp_FindShortestSeparator user_comparator user_start user_limit;
     if length tmp < length user_start then do {
       r \<leftarrow> cmp_Compare user_comparator user_start tmp;
       if r < 0 then Some (PutFixed64 tmp (PackSequenceAndType kMaxSequenceNumber kValueTypeForSeek)) else Some start
     }
     else Some start
   }"

definition Internal_FindShortSuccessor :: "Comparator \<Rightarrow> byte list \<Rightarrow> byte list option" where
  "Internal_FindShortSuccessor user_comparator key = do {
     user_key \<leftarrow> ExtractUserKey key;
     tmp \<leftarrow> cmp_FindShortSuccessor user_comparator user_key;
     if length tmp < length user_key then do {
       r \<leftarrow> cmp_Compare user_comparator user_key tmp;
       if r < 0 then Some (PutFixed64 tmp (PackSequenceAndType kMaxSequenceNumber kValueTypeForSeek)) else Some key
     }
     else Some key
   }"

definition InternalKeyComparator :: "Comparator \<Rightarrow> Comparator" where
  "InternalKeyComparator c =
     \<lparr>cmp_Name = cstr ''leveldb.InternalKeyComparator'', cmp_Compare = Internal_Compare c,
      cmp_FindShortestSeparator = Internal_FindShortestSeparator c,
      cmp_FindShortSuccessor = Internal_FindShortSuccessor c\<rparr>"

section \<open>Internal filter policy and lookup keys\<close>

text \<open>The keys a table hands over have their eight bytes; on a shorter one the assertion fails.\<close>

definition InternalFilterPolicy :: "FilterPolicy \<Rightarrow> FilterPolicy" where
  "InternalFilterPolicy user_policy =
     \<lparr>fp_Name = fp_Name user_policy,
      fp_CreateFilter = (\<lambda>keys dst. fp_CreateFilter user_policy (map (the \<circ> ExtractUserKey) keys) dst),
      fp_KeyMayMatch = (\<lambda>key f. fp_KeyMayMatch user_policy (the (ExtractUserKey key)) f)\<rparr>"

text \<open>
  The buffer of a lookup key: \<^verbatim>\<open>space_\<close> or an array of \<open>needed\<close> bytes. \<^const>\<open>None\<close> when the
  three stores together do not fit it. \<open>lk_kstart\<close> is \<^verbatim>\<open>kstart_ - start_\<close>.
\<close>

record LookupKey =
  lk_bytes :: "byte list"
  lk_kstart :: nat

definition LookupKey_new :: "byte list \<Rightarrow> SequenceNumber \<Rightarrow> LookupKey option" where
  "LookupKey_new user_key s =
     (let usize = length user_key;
          needed = usize + 13;
          capacity = (if needed \<le> 200 then 200 else needed);
          dst = EncodeVarint32 (of_nat (usize + 8));
          kstart = length dst;
          dst = dst @ user_key;
          dst = dst @ EncodeFixed64 (PackSequenceAndType s kValueTypeForSeek)
      in if length dst > capacity then None else Some \<lparr>lk_bytes = dst, lk_kstart = kstart\<rparr>)"

definition memtable_key :: "LookupKey \<Rightarrow> byte list" where
  "memtable_key k = lk_bytes k"

definition internal_key :: "LookupKey \<Rightarrow> byte list" where
  "internal_key k = drop (lk_kstart k) (lk_bytes k)"

definition user_key :: "LookupKey \<Rightarrow> byte list" where
  "user_key k = take (length (lk_bytes k) - lk_kstart k - 8) (drop (lk_kstart k) (lk_bytes k))"

section \<open>Internal keys\<close>

text \<open>The two parts of an internal key.\<close>

definition key_tag :: "byte list \<Rightarrow> u64" where
  "key_tag a = le_word (drop (length a - 8) a)"

definition key_user :: "byte list \<Rightarrow> byte list" where
  "key_user a = take (length a - 8) a"

lemma key_parts: "8 \<le> length a \<Longrightarrow> a = key_user a @ le_bytes 8 (key_tag a)"
  using le_bytes_le_word [where 'a = 64, of "drop (length a - 8) a"] by (simp add: key_user_def key_tag_def)

lemma key_parts_append [simp]:
  "key_user (u @ le_bytes 8 w) = u" "key_tag (u @ le_bytes 8 w) = w"
  by (simp_all add: key_user_def key_tag_def)

lemma key_eq_iff: "8 \<le> length a \<Longrightarrow> 8 \<le> length b \<Longrightarrow> a = b \<longleftrightarrow> key_user a = key_user b \<and> key_tag a = key_tag b"
  by (metis key_parts)

lemma DecodeFixed64_tag: "8 \<le> length a \<Longrightarrow> DecodeFixed64 (drop (length a - 8) a) = Some (key_tag a)"
  by (simp add: DecodeFixed64_def kLittleEndian_def key_tag_def)

lemma ExtractUserKey_eq: "8 \<le> length a \<Longrightarrow> ExtractUserKey a = Some (key_user a)"
  by (simp add: ExtractUserKey_def key_user_def)

lemma pack_parts:
  "ucast (PackSequenceAndType seq t AND 0xff) = t"
  "take_bit 56 seq = seq \<Longrightarrow> drop_bit 8 (PackSequenceAndType seq t) = seq"
proof -
  show "ucast (PackSequenceAndType seq t AND 0xff) = t"
    by (rule bit_word_eqI) (auto simp: PackSequenceAndType_def ucast_and_FF bit_simps)
  assume "take_bit 56 seq = seq"
  then have "bit seq n \<Longrightarrow> n < 56" for n by (metis bit_take_bit_iff)
  then show "drop_bit 8 (PackSequenceAndType seq t) = seq"
    by (intro bit_word_eqI) (force simp: PackSequenceAndType_def bit_simps dest: bit_imp_le_length)
qed

lemma seq_fits: "seq \<le> kMaxSequenceNumber \<Longrightarrow> take_bit 56 seq = seq"
proof -
  assume "seq \<le> kMaxSequenceNumber"
  then have "unat seq < 2 ^ 56" by (simp add: kMaxSequenceNumber_def word_le_nat_alt)
  then show ?thesis by (simp add: word_unat_eq_iff unat_take_bit_mod)
qed

lemma InternalKey_new_eq: "InternalKey_new u s t = u @ le_bytes 8 (PackSequenceAndType s t)"
  by (simp add: InternalKey_new_def AppendInternalKey_def PutFixed64_def)

lemma ParseInternalKey_new:
  assumes "s \<le> kMaxSequenceNumber"
  shows "ParseInternalKey (InternalKey_new u s t)
    = (t \<le> kTypeValue, Some \<lparr>pik_user_key = u, pik_sequence = s, pik_type = t\<rparr>)"
  using pack_parts(1) [of s t] pack_parts(2) [OF seq_fits [OF assms], of t]
  by (simp add: ParseInternalKey_def InternalKey_new_eq DecodeFixed64_def kLittleEndian_def Let_def)

section \<open>The internal comparator keeps the contract\<close>

text \<open>User keys ascending, then sequence number and kind descending.\<close>

definition internal_less :: "(byte list \<Rightarrow> byte list \<Rightarrow> bool) \<Rightarrow> byte list \<Rightarrow> byte list \<Rightarrow> bool" where
  "internal_less lt a b \<longleftrightarrow>
     lt (key_user a) (key_user b) \<or> key_user a = key_user b \<and> key_tag a > key_tag b"

definition internal_ok :: "(byte list \<Rightarrow> bool) \<Rightarrow> byte list \<Rightarrow> bool" where
  "internal_ok key_ok a \<longleftrightarrow> 8 \<le> length a \<and> key_ok (key_user a)"

lemma max_tag: "PackSequenceAndType kMaxSequenceNumber kValueTypeForSeek = 0xFFFFFFFFFFFFFF01"
  by (simp add: PackSequenceAndType_def kMaxSequenceNumber_def kValueTypeForSeek_def kTypeValue_def)

context comparator begin

lemma Internal_Compare_total:
  assumes "internal_ok key_ok a" and "internal_ok key_ok b"
  shows "\<exists>r. Internal_Compare cmp a b = Some r \<and> (r < 0 \<longleftrightarrow> internal_less lt a b) \<and> (r = 0 \<longleftrightarrow> a = b)
    \<and> (r > 0 \<longleftrightarrow> internal_less lt b a)"
proof -
  have k: "8 \<le> length a" "8 \<le> length b" "key_ok (key_user a)" "key_ok (key_user b)"
    using assms by (auto simp: internal_ok_def)
  obtain r where r: "cmp_Compare cmp (key_user a) (key_user b) = Some r" "(r < 0) = lt (key_user a) (key_user b)"
    "(r = 0) = (key_user a = key_user b)" "(r > 0) = lt (key_user b) (key_user a)"
    using Compare_total [OF k(3,4)] by auto
  show ?thesis
  proof (cases "r = 0")
    case True
    then show ?thesis
      using r k less_irrefl [OF k(3)]
      by (auto simp: Internal_Compare_def ExtractUserKey_eq DecodeFixed64_tag internal_less_def key_eq_iff [OF k(1,2)])
  next
    case False
    then show ?thesis
      using r k by (auto simp: Internal_Compare_def ExtractUserKey_eq internal_less_def key_eq_iff [OF k(1,2)])
  qed
qed

lemma shortened:
  assumes "internal_ok key_ok a" and "key_ok tmp"
  shows "(do { r \<leftarrow> cmp_Compare cmp (key_user a) tmp;
      if r < 0 then Some (PutFixed64 tmp t) else Some a })
    = Some (if lt (key_user a) tmp then tmp @ le_bytes 8 t else a)"
proof -
  have "key_ok (key_user a)" using assms(1) by (simp add: internal_ok_def)
  from Compare_total [OF this assms(2)] show ?thesis by (auto simp: PutFixed64_def)
qed

lemma Internal_separator:
  assumes "internal_ok key_ok start" and "internal_ok key_ok limit"
  shows "\<exists>s. Internal_FindShortestSeparator cmp start limit = Some s \<and> internal_ok key_ok s
    \<and> (if internal_less lt start limit then \<not> internal_less lt s start \<and> internal_less lt s limit else s = start)"
proof -
  let ?t = "PackSequenceAndType kMaxSequenceNumber kValueTypeForSeek"
  have k: "8 \<le> length start" "8 \<le> length limit" "key_ok (key_user start)" "key_ok (key_user limit)"
    using assms by (auto simp: internal_ok_def)
  obtain s where s: "cmp_FindShortestSeparator cmp (key_user start) (key_user limit) = Some s" "key_ok s"
    "if lt (key_user start) (key_user limit) then \<not> lt s (key_user start) \<and> lt s (key_user limit) else s = key_user start"
    using separator [OF k(3,4)] by auto
  have eq: "Internal_FindShortestSeparator cmp start limit
      = Some (if length s < length (key_user start) \<and> lt (key_user start) s then s @ le_bytes 8 ?t else start)"
    using s(1) shortened [OF assms(1) s(2), of ?t] by (simp add: Internal_FindShortestSeparator_def ExtractUserKey_eq k)
  have irr: "\<not> lt (key_user start) (key_user start)" "\<not> internal_less lt start start"
    using less_irrefl [OF k(3)] by (auto simp: internal_less_def)
  show ?thesis
  proof (cases "length s < length (key_user start) \<and> lt (key_user start) s")
    case True
    then have "lt (key_user start) (key_user limit)" "\<not> lt s (key_user start)" "lt s (key_user limit)"
      using s(3) irr(1) by (auto split: if_splits)
    moreover have "s \<noteq> key_user start" using True by auto
    ultimately show ?thesis
      using True s(2) by (simp add: eq) (simp add: internal_ok_def internal_less_def)
  qed (use assms irr in \<open>auto simp: eq\<close>)
qed

lemma Internal_successor:
  assumes "internal_ok key_ok key"
  shows "\<exists>s. Internal_FindShortSuccessor cmp key = Some s \<and> internal_ok key_ok s \<and> \<not> internal_less lt s key"
proof -
  let ?t = "PackSequenceAndType kMaxSequenceNumber kValueTypeForSeek"
  have k: "8 \<le> length key" "key_ok (key_user key)" using assms by (auto simp: internal_ok_def)
  obtain s where s: "cmp_FindShortSuccessor cmp (key_user key) = Some s" "key_ok s" "\<not> lt s (key_user key)"
    using successor [OF k(2)] by auto
  have eq: "Internal_FindShortSuccessor cmp key
      = Some (if length s < length (key_user key) \<and> lt (key_user key) s then s @ le_bytes 8 ?t else key)"
    using s(1) shortened [OF assms s(2), of ?t] by (simp add: Internal_FindShortSuccessor_def ExtractUserKey_eq k)
  have "\<not> internal_less lt key key" using less_irrefl [OF k(2)] by (simp add: internal_less_def)
  then show ?thesis
    using s(2,3) assms less_irrefl [OF k(2)] by (auto simp: eq internal_ok_def internal_less_def)
qed

lemma internal_comparator: "comparator (InternalKeyComparator cmp) (internal_ok key_ok) (internal_less lt)"
proof
  fix a b c
  assume k: "internal_ok key_ok a" "internal_ok key_ok b" "internal_ok key_ok c"
    and l: "internal_less lt a b" "internal_less lt b c"
  have "key_ok (key_user a)" "key_ok (key_user b)" "key_ok (key_user c)" using k by (auto simp: internal_ok_def)
  from less_trans [OF this] l show "internal_less lt a c" by (auto simp: internal_less_def)
qed (simp_all add: InternalKeyComparator_def Internal_Compare_total Internal_separator Internal_successor)

end

text \<open>
  C36. The internal comparator is a total order of the internal keys with separators between
  them whenever the comparator of the user keys is one: user keys ascending, for the same user
  key sequence number and kind descending; a shortened separator gets the tag that
  sorts first.
\<close>

theorem internal_comparator_contract:
  assumes "comparator c key_ok lt"
  shows "comparator (InternalKeyComparator c) (internal_ok key_ok) (internal_less lt)"
  by (rule comparator.internal_comparator [OF assms])

theorem internal_comparator_contract_witness:
  "comparator (InternalKeyComparator BytewiseComparator) (internal_ok (\<lambda>_. True)) (internal_less bytes_less)"
  by (rule internal_comparator_contract [OF bytewise.comparator_axioms])

interpretation internal: comparator "InternalKeyComparator BytewiseComparator" "internal_ok (\<lambda>_. True)" "internal_less bytes_less"
  by (rule bytewise.internal_comparator)

section \<open>Lookup keys\<close>

text \<open>
  A lookup key always fits its buffer, the 200 bytes on the stack or the array of the
  estimated size, for every user key that a \<^verbatim>\<open>size_t\<close> can measure; the three views of it are
  the length-prefixed internal key, the internal key and the user key.
\<close>

lemma lookup_key_fits:
  assumes "length u < 2 ^ 32 - 8"
  shows "\<exists>k. LookupKey_new u s = Some k
    \<and> internal_key k = InternalKey_new u s kValueTypeForSeek
    \<and> memtable_key k = PutLengthPrefixedSlice [] (internal_key k) \<and> user_key k = u"
proof -
  have n: "unat (of_nat (length u + 8) :: u32) = length u + 8" using assms by (intro unat_of_nat_32) simp
  have v: "length (varint (length u + 8)) \<le> 5"
    using length_varint_u32 [of "of_nat (length u + 8)"] by (simp add: n del: of_nat_add)
  show ?thesis
    using v assms
    by (simp add: LookupKey_new_def Let_def n internal_key_def memtable_key_def user_key_def InternalKey_new_eq
        PutLengthPrefixedSlice_eq del: of_nat_add)
qed

end
