(* ===== verification/LDB_Block_Props.thy ===== *)
theory LDB_Block_Props
  imports LDB_Block_Layout LDB_Dbformat
begin

text \<open>
  The iterator of \<^verbatim>\<open>table/block.cc\<close> on a block that the builder made: every operation,
  forward, backward and by key, moves as the contract of iterators says over the list of
  entries that were added.
\<close>

section \<open>Geometry\<close>

text \<open>A block of less than four gigabytes with a restart point every \<open>iv\<close> entries.\<close>

definition blk :: "nat \<Rightarrow> entry list \<Rightarrow> bool" where
  "blk iv es \<longleftrightarrow> 1 \<le> iv \<and> length (block_bytes iv es) < 4294967296"

lemma ent_not_Nil [simp]: "ent iv es i \<noteq> []"
  by (simp add: ent_def Add_bytes_def Let_def PutVarint32_def)

lemma off_add: "i \<le> j \<Longrightarrow> off iv es j = off iv es i + length (ents iv es i j)"
  using ents_split [of 0 i j iv es] by (simp add: off_def)

lemma off_Suc: "off iv es (Suc i) = off iv es i + length (ent iv es i)"
  by (simp add: off_add [of i "Suc i"] ents_def)

lemma off_less: "i < j \<Longrightarrow> off iv es i < off iv es j"
proof (induction j)
  case (Suc j)
  have "0 < length (ent iv es j)" by simp
  then have "off iv es j < off iv es (Suc j)" by (simp add: off_Suc)
  then show ?case using Suc by (cases "i = j") auto
qed simp

lemma off_less_iff [simp]: "off iv es i < off iv es j \<longleftrightarrow> i < j"
  using off_less [of i j iv es] off_less [of j i iv es] by (cases i j rule: linorder_cases) auto

lemma off_le_iff [simp]: "off iv es i \<le> off iv es j \<longleftrightarrow> i \<le> j"
  by (simp flip: linorder_not_less)

lemma length_block: "length (block_bytes iv es) = off iv es (length es) + 4 * num_points iv es + 4"
  by (simp add: block_bytes_def off_def)

lemma blk_bounds:
  assumes "blk iv es" and "i \<le> length es"
  shows "off iv es i < 4294967296" and "unat (of_nat (off iv es i) :: u32) = off iv es i"
proof -
  have "off iv es i \<le> off iv es (length es)" using assms(2) by simp
  then show "off iv es i < 4294967296" using assms(1) unfolding blk_def length_block by linarith
  then show "unat (of_nat (off iv es i) :: u32) = off iv es i" by simp
qed

lemma blk_points:
  assumes "blk iv es"
  shows "num_points iv es < 1073741824" and "unat (of_nat (num_points iv es) :: u32) = num_points iv es"
    and "0 < num_points iv es"
proof -
  show "num_points iv es < 1073741824" using assms by (simp add: blk_def length_block)
  then show "unat (of_nat (num_points iv es) :: u32) = num_points iv es" by simp
  show "0 < num_points iv es" by (simp add: num_points_def)
qed

lemma point_within:
  assumes "blk iv es" and "j < num_points iv es"
  shows "j * iv \<le> length es" and "es \<noteq> [] \<Longrightarrow> j * iv < length es"
  using point_index [OF _ assms(2)] assms(1) by (auto simp: blk_def neq_Nil_conv)

lemma beyond_points:
  assumes "blk iv es" and "num_points iv es \<le> j" and "p < length es"
  shows "p \<le> j * iv"
proof -
  have "length es - 1 < num_points iv es * iv"
    using assms(1) dividend_less_div_times [of iv "length es - 1"] by (simp add: num_points_def blk_def)
  also have "\<dots> \<le> j * iv" using assms(2) by simp
  finally show ?thesis using assms(3) by simp
qed

section \<open>Decoding an entry\<close>

lemma or_less_128: "x OR y < 128 \<longleftrightarrow> x < 128 \<and> y < 128" for x y :: u32
proof -
  have "w < 128 \<longleftrightarrow> drop_bit 7 w = 0" for w :: u32
    by (simp add: word_less_nat_alt word_unat_eq_iff unat_drop_bit_div div_eq_0_iff)
  then show ?thesis by (simp only: drop_bit_or or_eq_0_iff)
qed

lemma small_byte: "ucast b < (128 :: u32) \<longleftrightarrow> unat b < 128" for b :: byte
  using unat_lt_8 [of b] by (simp add: word_less_nat_alt unsigned_ucast_eq take_bit_nat_eq_self)

lemma varint_first:
  assumes "n < 4294967296"
  shows "unat (hd (varint n)) < 128 \<longleftrightarrow> n < 128"
  by (subst varint.simps) (simp add: unsigned_of_nat take_bit_nat_eq_self del: of_nat_add)

lemma DecodeEntry_varints:
  assumes "a < 4294967296" and "b < 4294967296" and "c < 4294967296"
    and "b + c \<le> length rest" and "length rest < 4294967296"
  shows "DecodeEntry (varint a @ varint b @ varint c @ rest) = Some (of_nat a, of_nat b, of_nat c, rest)"
proof -
  let ?p = "varint a @ varint b @ varint c @ rest"
  have len: "\<not> length ?p < 3"
    by (cases "varint a"; cases "varint b"; cases "varint c") simp_all
  have sum: "\<not> (of_nat (length rest) :: u32) < of_nat b + of_nat c"
    using assms by (simp add: word_less_nat_alt flip: of_nat_add)
  have slow: "(do {
       (shared, p) \<leftarrow> GetVarint32Ptr ?p;
       (non_shared, p) \<leftarrow> GetVarint32Ptr p;
       (value_length, p) \<leftarrow> GetVarint32Ptr p;
       Some (shared, non_shared, value_length, p)
     }) = Some (of_nat a, of_nat b, of_nat c, rest)"
    using assms by (simp add: GetVarint32_length)
  show ?thesis
  proof (cases "ucast (?p ! 0) OR ucast (?p ! 1) OR ucast (?p ! 2) < (128 :: u32)")
    case True
    then have h: "unat (?p ! 0) < 128" "unat (?p ! 1) < 128" "unat (?p ! 2) < 128"
      by (simp_all only: or_less_128 small_byte)
    have a: "a < 128" using h(1) varint_first [OF assms(1)] by (simp add: nth_append hd_conv_nth)
    have b: "b < 128" using h(2) varint_first [OF assms(2)] by (simp add: varint_small [OF a] nth_append hd_conv_nth)
    have c: "c < 128" using h(3) varint_first [OF assms(3)]
      by (simp add: varint_small [OF a] varint_small [OF b] nth_append hd_conv_nth)
    have w: "ucast (of_nat n :: byte) = (of_nat n :: u32)" if "n < 128" for n
      using that by (simp add: word_unat_eq_iff unsigned_ucast_eq unsigned_of_nat take_bit_nat_eq_self)
    show ?thesis
      using True len sum a b c unfolding DecodeEntry_def
      by (simp add: varint_small w)
  next
    case False
    then show ?thesis using len sum slow unfolding DecodeEntry_def by (simp add: Let_def)
  qed
qed

section \<open>An entry in its block\<close>

lemma bytes_at_append: "bytes_at (pre @ a @ b) (length pre) (length a) = Some a"
  by (simp add: bytes_at_def)

lemma length_ent_ge: "length (fst (es ! i)) - share iv es i + length (snd (es ! i)) \<le> length (ent iv es i)"
  by (simp add: ent_def Add_bytes_def Let_def PutVarint32_def)

text \<open>A key is no longer than the block up to the end of its entry, although a prefix of it is not stored.\<close>

lemma key_length: "length (fst (es ! i)) \<le> off iv es (Suc i)"
proof (induction i)
  case (Suc i)
  have "share iv es (Suc i) \<le> length (fst (es ! i))"
    using common_prefix_le by (simp add: share_def Let_def)
  then show ?case using Suc length_ent_ge [of es "Suc i" iv] by (simp add: off_Suc)
next
  case 0
  then show ?case using length_ent_ge [of es 0 iv] by (simp add: off_Suc share_def)
qed

lemma entry_bounds:
  assumes "blk iv es" and "i < length es"
  shows "share iv es i < 4294967296" and "length (fst (es ! i)) < 4294967296"
    and "length (snd (es ! i)) \<le> off iv es (Suc i)" and "length (snd (es ! i)) < 4294967296"
proof -
  have o: "off iv es (Suc i) < 4294967296" using blk_bounds(1) [OF assms(1), of "Suc i"] assms(2) by simp
  then show "length (fst (es ! i)) < 4294967296" using key_length [of es i iv] by simp
  then show "share iv es i < 4294967296" using share_le [of iv es i] by simp
  show "length (snd (es ! i)) \<le> off iv es (Suc i)" using length_ent_ge [of es i iv] by (simp add: off_Suc)
  then show "length (snd (es ! i)) < 4294967296" using o by simp
qed

lemma ent_eq:
  assumes "blk iv es" and "i < length es"
  shows "ent iv es i = varint (share iv es i) @ varint (length (fst (es ! i)) - share iv es i)
    @ varint (length (snd (es ! i))) @ drop (share iv es i) (fst (es ! i)) @ snd (es ! i)"
proof -
  have "length (fst (es ! i)) - share iv es i < 4294967296" using entry_bounds(2) [OF assms] by linarith
  then show ?thesis
    using entry_bounds [OF assms] share_le [of iv es i]
    by (simp add: ent_def Add_bytes_def Let_def PutVarint32_def del: of_nat_diff)
qed

text \<open>The rest of the entries from the key of entry \<open>i\<close> on.\<close>

definition after_header :: "nat \<Rightarrow> entry list \<Rightarrow> nat \<Rightarrow> byte list" where
  "after_header iv es i = drop (share iv es i) (fst (es ! i)) @ snd (es ! i) @ ents iv es (Suc i) (length es)"

lemma length_after_header:
  assumes "i < length es"
  shows "length (after_header iv es i)
    = length (fst (es ! i)) - share iv es i + length (snd (es ! i)) + (off iv es (length es) - off iv es (Suc i))"
  using off_add [of "Suc i" "length es" iv es] assms by (simp add: after_header_def)

lemma block_at:
  assumes "blk iv es" and "i < length es"
  shows "\<exists>pre tail. length pre + length (after_header iv es i) = off iv es (length es)
    \<and> block_bytes iv es = pre @ after_header iv es i @ tail
    \<and> take (off iv es (length es) - off iv es i) (drop (off iv es i) (block_bytes iv es))
      = varint (share iv es i) @ varint (length (fst (es ! i)) - share iv es i) @ varint (length (snd (es ! i)))
        @ after_header iv es i"
proof -
  let ?h = "varint (share iv es i) @ varint (length (fst (es ! i)) - share iv es i) @ varint (length (snd (es ! i)))"
  let ?tail = "fixed32_array (points iv es) @ le_bytes 4 (of_nat (num_points iv es) :: u32)"
  have rest: "ents iv es i (length es) = ?h @ after_header iv es i"
    using assms by (simp add: ents_Cons ent_eq after_header_def)
  have all: "ents iv es 0 (length es) = ents iv es 0 i @ ents iv es i (length es)"
    using assms(2) by (intro ents_split) simp_all
  have len: "length (ents iv es i (length es)) = off iv es (length es) - off iv es i"
    using off_add [of i "length es" iv es] assms(2) by simp
  have "block_bytes iv es = (ents iv es 0 i @ ?h) @ after_header iv es i @ ?tail"
    by (simp add: block_bytes_def all rest)
  moreover have "length (ents iv es 0 i @ ?h) + length (after_header iv es i) = off iv es (length es)"
    unfolding off_def all rest by simp
  moreover have "block_bytes iv es = ents iv es 0 i @ ents iv es i (length es) @ ?tail"
    by (simp add: block_bytes_def all)
  then have "take (off iv es (length es) - off iv es i) (drop (off iv es i) (block_bytes iv es)) = ents iv es i (length es)"
    by (simp add: off_def [of iv es i, symmetric] flip: len)
  ultimately show ?thesis unfolding rest by (metis append_assoc)
qed

lemma DecodeEntry_at:
  assumes "blk iv es" and "i < length es"
  shows "DecodeEntry (take (off iv es (length es) - off iv es i) (drop (off iv es i) (block_bytes iv es)))
    = Some (of_nat (share iv es i), of_nat (length (fst (es ! i)) - share iv es i), of_nat (length (snd (es ! i))),
        after_header iv es i)"
proof -
  have "length (fst (es ! i)) - share iv es i < 4294967296" using entry_bounds(2) [OF assms] by linarith
  moreover have "length (after_header iv es i) < 4294967296"
    using block_at [OF assms] blk_bounds(1) [OF assms(1) order_refl] by auto
  ultimately show ?thesis
    using block_at [OF assms] entry_bounds [OF assms] length_after_header [OF assms(2), of iv]
    by (auto intro!: DecodeEntry_varints)
qed

lemma key_delta_at:
  assumes "blk iv es" and "i < length es"
  shows "bytes_at (block_bytes iv es) (off iv es (length es) - length (after_header iv es i))
    (length (fst (es ! i)) - share iv es i) = Some (drop (share iv es i) (fst (es ! i)))"
proof -
  obtain pre tail where b: "length pre + length (after_header iv es i) = off iv es (length es)"
    "block_bytes iv es = pre @ after_header iv es i @ tail"
    using block_at [OF assms] by auto
  have "length pre = off iv es (length es) - length (after_header iv es i)" using b(1) by simp
  then show ?thesis
    using bytes_at_append [of pre "drop (share iv es i) (fst (es ! i))" "snd (es ! i) @ ents iv es (Suc i) (length es) @ tail"]
    by (simp add: b(2) after_header_def)
qed

lemma value_offset:
  assumes "blk iv es" and "i < length es"
  shows "off iv es (length es) - length (after_header iv es i) + (length (fst (es ! i)) - share iv es i)
    = off iv es (Suc i) - length (snd (es ! i))"
proof -
  have "length (after_header iv es i) \<le> off iv es (length es)" using block_at [OF assms] by auto
  moreover have "off iv es (Suc i) \<le> off iv es (length es)" using assms(2) by simp
  ultimately show ?thesis
    using length_after_header [OF assms(2), of iv] entry_bounds(3) [OF assms] by linarith
qed

lemma value_at:
  assumes "blk iv es" and "i < length es"
  shows "bytes_at (block_bytes iv es) (off iv es (Suc i) - length (snd (es ! i))) (length (snd (es ! i))) = Some (snd (es ! i))"
proof -
  obtain pre tail where b: "length pre + length (after_header iv es i) = off iv es (length es)"
    "block_bytes iv es = pre @ after_header iv es i @ tail"
    using block_at [OF assms] by auto
  have "length (pre @ drop (share iv es i) (fst (es ! i))) = off iv es (Suc i) - length (snd (es ! i))"
    using value_offset [OF assms] b(1) by simp
  then show ?thesis
    using bytes_at_append [of "pre @ drop (share iv es i) (fst (es ! i))" "snd (es ! i)" "ents iv es (Suc i) (length es) @ tail"]
    by (simp add: b(2) after_header_def)
qed

section \<open>Restart points\<close>

lemma RestartPoint_at:
  assumes "blk iv es" and "j < num_points iv es"
  shows "DecodeFixed32 (drop (off iv es (length es) + j * 4) (block_bytes iv es)) = Some (of_nat (off iv es (j * iv)))"
proof -
  have "DecodeFixed32 (drop (length (ents iv es 0 (length es)) + 4 * j) (block_bytes iv es)) = Some (points iv es ! j)"
    unfolding block_bytes_def using assms(2) by (intro DecodeFixed32_array) simp
  then show ?thesis using assms(2) by (simp add: off_def points_def mult.commute)
qed

definition core :: "Comparator \<Rightarrow> nat \<Rightarrow> entry list \<Rightarrow> BlockIter \<Rightarrow> bool" where
  "core cmp iv es it \<longleftrightarrow>
     blk iv es \<and> bi_comparator it = cmp \<and> bi_data it = block_bytes iv es
     \<and> bi_restarts it = of_nat (off iv es (length es)) \<and> bi_num_restarts it = of_nat (num_points iv es)
     \<and> bi_status it = Status_OK"

lemma core_restarts:
  assumes "core cmp iv es it"
  shows "unat (bi_restarts it) = off iv es (length es)" and "unat (bi_num_restarts it) = num_points iv es"
    and "blk iv es" and "bi_data it = block_bytes iv es"
  using assms blk_bounds(2) [of iv es "length es"] blk_points(2) [of iv es] by (auto simp: core_def)

lemma GetRestartPoint_at:
  assumes "core cmp iv es it" and "unat index < num_points iv es"
  shows "GetRestartPoint it index = Some (of_nat (off iv es (unat index * iv)))"
  using RestartPoint_at [OF core_restarts(3) [OF assms(1)] assms(2)] assms(2)
  by (simp add: GetRestartPoint_def core_restarts [OF assms(1)] word_less_nat_alt)

lemma unat_Suc_index:
  fixes index :: u32
  assumes "blk iv es" and "unat index < num_points iv es"
  shows "unat (index + 1) = unat index + 1"
  using blk_points(1) [OF assms(1)] assms(2) by (simp add: unat_word_ariths)

lemma skip_restarts_stays:
  assumes "core cmp iv es it" and "unat (bi_restart_index it) < num_points iv es"
    and "unat (bi_restart_index it) * iv \<le> p" and "p < length es" and "bi_current it = of_nat (off iv es p)"
  shows "\<exists>r. skip_restarts it = Some (it\<lparr>bi_restart_index := r\<rparr>) \<and> unat r < num_points iv es \<and> unat r * iv \<le> p"
  using assms
proof (induction "num_points iv es - unat (bi_restart_index it)" arbitrary: it rule: less_induct)
  case less
  let ?r = "bi_restart_index it"
  note b = core_restarts [OF less.prems(1)]
  note S = unat_Suc_index [OF b(3) less.prems(2)]
  have stay: ?case if "skip_restarts it = Some it"
    using that less.prems(2,3) by (intro exI [of _ ?r]) simp
  show ?case
  proof (cases "unat ?r + 1 < num_points iv es")
    case False
    then show ?thesis by (intro stay) (subst skip_restarts.simps, simp add: word_less_nat_alt S b)
  next
    case True
    have g: "GetRestartPoint it (?r + 1) = Some (of_nat (off iv es ((unat ?r + 1) * iv)))"
      using GetRestartPoint_at [OF less.prems(1), of "?r + 1"] True by (simp add: S)
    have le: "(unat ?r + 1) * iv \<le> length es" using point_within(1) [OF b(3) True] .
    have cmp: "(of_nat (off iv es ((unat ?r + 1) * iv)) :: u32) < bi_current it \<longleftrightarrow> (unat ?r + 1) * iv < p"
      using blk_bounds(2) [OF b(3) le] blk_bounds(2) [OF b(3), of p] less.prems(4,5) by (simp add: word_less_nat_alt)
    show ?thesis
    proof (cases "(unat ?r + 1) * iv < p")
      case False
      then show ?thesis using cmp True g by (intro stay) (subst skip_restarts.simps, simp add: word_less_nat_alt S b)
    next
      case less_p: True
      let ?it = "it\<lparr>bi_restart_index := ?r + 1\<rparr>"
      have "\<exists>r. skip_restarts ?it = Some (?it\<lparr>bi_restart_index := r\<rparr>) \<and> unat r < num_points iv es \<and> unat r * iv \<le> p"
      proof (rule less.hyps)
        show "num_points iv es - unat (bi_restart_index ?it) < num_points iv es - unat ?r" using True by (simp add: S)
        show "core cmp iv es ?it" using less.prems(1) by (simp add: core_def)
      qed (use True less_p less.prems in \<open>simp_all add: S\<close>)
      moreover have "skip_restarts it = skip_restarts ?it"
        using cmp less_p True g by (subst skip_restarts.simps) (simp add: word_less_nat_alt S b)
      ultimately show ?thesis by simp
    qed
  qed
qed

section \<open>Parsing the next entry\<close>

text \<open>
  An iterator whose next entry is \<open>p\<close>, with the prefix that entry shares in \<^verbatim>\<open>key_\<close>, and
  an iterator that stands at \<open>p\<close>.
\<close>

definition index_ok :: "nat \<Rightarrow> entry list \<Rightarrow> BlockIter \<Rightarrow> nat \<Rightarrow> bool" where
  "index_ok iv es it p \<longleftrightarrow>
     unat (bi_restart_index it) < num_points iv es \<and> unat (bi_restart_index it) * iv \<le> p"

definition ready :: "Comparator \<Rightarrow> nat \<Rightarrow> entry list \<Rightarrow> BlockIter \<Rightarrow> nat \<Rightarrow> bool" where
  "ready cmp iv es it p \<longleftrightarrow>
     core cmp iv es it \<and> p \<le> length es \<and> index_ok iv es it p
     \<and> NextEntryOffset it = Some (of_nat (off iv es p))
     \<and> (p < length es \<longrightarrow> share iv es p \<le> length (bi_key it)
          \<and> take (share iv es p) (bi_key it) = take (share iv es p) (fst (es ! p)))"

definition placed :: "Comparator \<Rightarrow> nat \<Rightarrow> entry list \<Rightarrow> BlockIter \<Rightarrow> nat \<Rightarrow> bool" where
  "placed cmp iv es it p \<longleftrightarrow>
     core cmp iv es it \<and> p \<le> length es \<and> bi_current it = of_nat (off iv es p)
     \<and> (p < length es \<longrightarrow> index_ok iv es it p \<and> bi_key it = fst (es ! p)
          \<and> bi_value it = Some (off iv es (Suc p) - length (snd (es ! p)), length (snd (es ! p))))"

lemma ParseNextKey_ready:
  assumes "ready cmp iv es it p" and "p < length es"
  shows "\<exists>it'. ParseNextKey it = Some (True, it') \<and> placed cmp iv es it' p"
proof -
  have c: "core cmp iv es it" and idx: "index_ok iv es it p" and n: "NextEntryOffset it = Some (of_nat (off iv es p))"
    and k: "share iv es p \<le> length (bi_key it)" "take (share iv es p) (bi_key it) = take (share iv es p) (fst (es ! p))"
    using assms by (auto simp: ready_def)
  note b = core_restarts [OF c]
  note bounds = entry_bounds [OF b(3) assms(2)]
  let ?ns = "length (fst (es ! p)) - share iv es p"
  have ns: "?ns < 4294967296" using bounds(2) by linarith
  let ?cur = "of_nat (off iv es p) :: u32"
  have cur: "unat ?cur = off iv es p" using blk_bounds(2) [OF b(3), of p] assms(2) by simp
  have "\<not> off iv es (length es) \<le> off iv es p" using assms(2) by simp
  let ?it1 = "it\<lparr>bi_current := ?cur\<rparr>"
  let ?it2 = "?it1\<lparr>bi_key := fst (es ! p),
      bi_value := Some (off iv es (Suc p) - length (snd (es ! p)), length (snd (es ! p)))\<rparr>"
  have "core cmp iv es ?it2" using c by (simp add: core_def)
  from skip_restarts_stays [OF this, of p] idx assms(2)
  obtain r where r: "skip_restarts ?it2 = Some (?it2\<lparr>bi_restart_index := r\<rparr>)" "unat r < num_points iv es" "unat r * iv \<le> p"
    by (auto simp: index_ok_def)
  have key: "take (share iv es p) (bi_key it) @ drop (share iv es p) (fst (es ! p)) = fst (es ! p)"
    by (simp add: k(2))
  have "ParseNextKey it = Some (True, ?it2\<lparr>bi_restart_index := r\<rparr>)"
    using r(1) k(1) key_delta_at [OF b(3) assms(2)] value_offset [OF b(3) assms(2)] assms(2) ns bounds
    unfolding ParseNextKey_def n
    by (simp add: cur b DecodeEntry_at [OF b(3) assms(2)] key del: of_nat_diff)
  moreover have "placed cmp iv es (?it2\<lparr>bi_restart_index := r\<rparr>) p"
    using c r(2,3) assms(2) by (simp add: placed_def core_def index_ok_def)
  ultimately show ?thesis by blast
qed

lemma ParseNextKey_end:
  assumes "ready cmp iv es it (length es)"
  shows "\<exists>it'. ParseNextKey it = Some (False, it') \<and> placed cmp iv es it' (length es)"
proof -
  have c: "core cmp iv es it" and n: "NextEntryOffset it = Some (of_nat (off iv es (length es)))"
    using assms by (auto simp: ready_def)
  note b = core_restarts [OF c]
  have "unat (of_nat (off iv es (length es)) :: u32) = off iv es (length es)" using blk_bounds(2) [OF b(3) order_refl] .
  then have "ParseNextKey it = Some (False, it\<lparr>bi_current := bi_restarts it, bi_restart_index := bi_num_restarts it\<rparr>)"
    unfolding ParseNextKey_def n by (simp add: b)
  then show ?thesis using c by (simp add: placed_def core_def)
qed

lemma placed_next:
  assumes "placed cmp iv es it p" and "p < length es"
  shows "ready cmp iv es it (Suc p)"
proof -
  have c: "core cmp iv es it" and idx: "index_ok iv es it p" and k: "bi_key it = fst (es ! p)"
    and v: "bi_value it = Some (off iv es (Suc p) - length (snd (es ! p)), length (snd (es ! p)))"
    using assms by (auto simp: placed_def)
  have "length (snd (es ! p)) \<le> off iv es (Suc p)" by (rule entry_bounds(3) [OF core_restarts(3) [OF c] assms(2)])
  then have "NextEntryOffset it = Some (of_nat (off iv es (Suc p)))" by (simp add: NextEntryOffset_def v del: of_nat_diff of_nat_add)
  moreover have "share iv es (Suc p) \<le> length (bi_key it)"
    using common_prefix_le by (simp add: share_def Let_def k)
  moreover have "take (share iv es (Suc p)) (bi_key it) = take (share iv es (Suc p)) (fst (es ! Suc p))"
    using common_prefix_take by (auto simp: share_def Let_def k)
  ultimately show ?thesis using c idx assms(2) by (simp add: ready_def index_ok_def)
qed

lemma SeekToRestartPoint_ready:
  assumes "core cmp iv es it" and "unat index < num_points iv es"
  shows "\<exists>it'. SeekToRestartPoint it index = Some it' \<and> ready cmp iv es it' (unat index * iv)"
proof -
  note b = core_restarts [OF assms(1)]
  have le: "unat index * iv \<le> length es" by (rule point_within(1) [OF b(3) assms(2)])
  let ?it = "it\<lparr>bi_key := [], bi_restart_index := index\<rparr>"
  have "core cmp iv es ?it" using assms(1) by (simp add: core_def)
  from GetRestartPoint_at [OF this assms(2)]
  have "SeekToRestartPoint it index = Some (?it\<lparr>bi_value := Some (off iv es (unat index * iv), 0)\<rparr>)"
    using blk_bounds(2) [OF b(3) le] by (simp add: SeekToRestartPoint_def)
  moreover have "ready cmp iv es (?it\<lparr>bi_value := Some (off iv es (unat index * iv), 0)\<rparr>) (unat index * iv)"
    using assms le by (simp add: ready_def core_def index_ok_def NextEntryOffset_def share_def)
  ultimately show ?thesis by blast
qed

section \<open>The operations\<close>

lemma placed_Valid: "placed cmp iv es it p \<Longrightarrow> BlockIter_Valid it \<longleftrightarrow> p < length es"
proof -
  assume a: "placed cmp iv es it p"
  then have b: "blk iv es" by (simp add: placed_def core_def)
  show ?thesis
    using a blk_bounds(2) [OF b, of p] blk_bounds(2) [OF b order_refl]
    by (auto simp: BlockIter_Valid_def placed_def core_def word_less_nat_alt)
qed

lemma parse_until_ready:
  assumes "ready cmp iv es it q" and "q < s" and "s \<le> length es"
  shows "\<exists>it'. parse_until (of_nat (off iv es s)) it = Some it' \<and> placed cmp iv es it' (s - 1)"
  using assms
proof (induction "s - q" arbitrary: it q rule: less_induct)
  case less
  have b: "blk iv es" using less.prems(1) by (simp add: ready_def core_def)
  obtain it1 where p: "ParseNextKey it = Some (True, it1)" "placed cmp iv es it1 q"
    using ParseNextKey_ready [OF less.prems(1)] less.prems by auto
  have r: "ready cmp iv es it1 (Suc q)" using placed_next [OF p(2)] less.prems by simp
  then have n: "NextEntryOffset it1 = Some (of_nat (off iv es (Suc q)))" by (simp add: ready_def)
  have cmp: "(of_nat (off iv es (Suc q)) :: u32) < of_nat (off iv es s) \<longleftrightarrow> Suc q < s"
    using blk_bounds(2) [OF b, of "Suc q"] blk_bounds(2) [OF b, of s] less.prems by (simp add: word_less_nat_alt)
  show ?case
  proof (cases "Suc q < s")
    case True
    then have "\<exists>it'. parse_until (of_nat (off iv es s)) it1 = Some it' \<and> placed cmp iv es it' (s - 1)"
      using less.hyps [OF _ r] less.prems by simp
    moreover have "parse_until (of_nat (off iv es s)) it = parse_until (of_nat (off iv es s)) it1"
      using True cmp by (subst parse_until.simps) (simp add: p n)
    ultimately show ?thesis by simp
  next
    case False
    then have "parse_until (of_nat (off iv es s)) it = Some it1"
      using cmp by (subst parse_until.simps) (simp add: p n)
    moreover have "s - 1 = q" using False less.prems by simp
    ultimately show ?thesis using p(2) by simp
  qed
qed

lemma SeekToFirst_placed:
  assumes "core cmp iv es it"
  shows "\<exists>it'. BlockIter_SeekToFirst it = Some it' \<and> placed cmp iv es it' 0"
proof -
  have "unat (0 :: u32) < num_points iv es" using blk_points(3) [OF core_restarts(3) [OF assms]] by simp
  from SeekToRestartPoint_ready [OF assms this]
  obtain it1 where s: "SeekToRestartPoint it 0 = Some it1" "ready cmp iv es it1 0" by auto
  show ?thesis
  proof (cases "es = []")
    case True
    then show ?thesis using ParseNextKey_end [of cmp iv es it1] s by (auto simp: BlockIter_SeekToFirst_def)
  next
    case False
    then show ?thesis using ParseNextKey_ready [OF s(2)] s(1) by (auto simp: BlockIter_SeekToFirst_def)
  qed
qed

lemma unat_last_index:
  assumes "core cmp iv es it"
  shows "unat (bi_num_restarts it - 1) = num_points iv es - 1"
proof -
  note b = core_restarts [OF assms]
  have "1 \<le> bi_num_restarts it" using blk_points(3) [OF b(3)] b(2) by (simp add: word_le_nat_alt)
  then show ?thesis by (simp add: unat_sub b)
qed

lemma SeekToLast_placed:
  assumes "core cmp iv es it"
  shows "\<exists>it'. BlockIter_SeekToLast it = Some it' \<and> placed cmp iv es it' (length es - 1)"
proof -
  note b = core_restarts [OF assms]
  let ?j = "bi_num_restarts it - 1"
  have j: "unat ?j < num_points iv es"
    using unat_last_index [OF assms] blk_points(3) [OF b(3)] by simp
  from SeekToRestartPoint_ready [OF assms j]
  obtain it1 where s: "SeekToRestartPoint it ?j = Some it1" "ready cmp iv es it1 (unat ?j * iv)" by auto
  show ?thesis
  proof (cases "es = []")
    case True
    then have "unat ?j * iv = length es" using point_within(1) [OF b(3) j] by simp
    then obtain it2 where "ParseNextKey it1 = Some (False, it2)" "placed cmp iv es it2 (length es)"
      using ParseNextKey_end [of cmp iv es it1] s(2) by auto
    then show ?thesis using True s(1) by (simp add: BlockIter_SeekToLast_def) (subst parse_until.simps, simp)
  next
    case False
    have "bi_restarts it1 = of_nat (off iv es (length es))" using s(2) by (simp add: ready_def core_def)
    then show ?thesis
      using parse_until_ready [OF s(2) point_within(2) [OF b(3) j False] order_refl] s(1)
      by (simp add: BlockIter_SeekToLast_def)
  qed
qed

lemma Next_placed:
  assumes "placed cmp iv es it p" and "p < length es"
  shows "\<exists>it'. BlockIter_Next it = Some it' \<and> placed cmp iv es it' (Suc p)"
proof (cases "Suc p < length es")
  case True
  then show ?thesis
    using ParseNextKey_ready [OF placed_next [OF assms]] placed_Valid [OF assms(1)] assms(2)
    by (auto simp: BlockIter_Next_def)
next
  case False
  then have "Suc p = length es" using assms(2) by simp
  then show ?thesis
    using ParseNextKey_end [of cmp iv es it] placed_next [OF assms] placed_Valid [OF assms(1)] assms(2)
    by (auto simp: BlockIter_Next_def)
qed

lemma prev_restart_found:
  assumes "core cmp iv es it" and "unat (bi_restart_index it) < num_points iv es" and "p < length es"
  shows "\<exists>it'. prev_restart (of_nat (off iv es p)) it = Some (p \<noteq> 0, it')
    \<and> (if p = 0 then placed cmp iv es it' (length es)
       else core cmp iv es it' \<and> unat (bi_restart_index it') < num_points iv es \<and> unat (bi_restart_index it') * iv < p)"
  using assms
proof (induction "unat (bi_restart_index it)" arbitrary: it rule: less_induct)
  case less
  let ?r = "bi_restart_index it"
  note b = core_restarts [OF less.prems(1)]
  have iv: "1 \<le> iv" using b(3) by (simp add: blk_def)
  have g: "GetRestartPoint it ?r = Some (of_nat (off iv es (unat ?r * iv)))"
    by (rule GetRestartPoint_at [OF less.prems(1,2)])
  have ge: "(of_nat (off iv es (unat ?r * iv)) :: u32) \<ge> of_nat (off iv es p) \<longleftrightarrow> p \<le> unat ?r * iv"
    using blk_bounds(2) [OF b(3) point_within(1) [OF b(3) less.prems(2)]] blk_bounds(2) [OF b(3), of p] less.prems(3)
    by (simp add: word_le_nat_alt)
  show ?case
  proof (cases "p \<le> unat ?r * iv")
    case False
    then have "prev_restart (of_nat (off iv es p)) it = Some (True, it)"
      using ge by (subst prev_restart.simps) (simp add: g)
    then show ?thesis using False less.prems by auto
  next
    case True
    show ?thesis
    proof (cases "?r = 0")
      case r0: True
      then have "prev_restart (of_nat (off iv es p)) it
          = Some (False, it\<lparr>bi_current := bi_restarts it, bi_restart_index := bi_num_restarts it\<rparr>)"
        using True ge g by (subst prev_restart.simps) simp
      moreover have "p = 0" using True r0 by simp
      ultimately show ?thesis using less.prems(1) by (simp add: placed_def core_def)
    next
      case False
      let ?it = "it\<lparr>bi_restart_index := ?r - 1\<rparr>"
      have u: "unat (?r - 1) = unat ?r - 1" "0 < unat ?r"
        using False by (simp_all add: unat_sub word_le_nat_alt Suc_leI unat_gt_0)
      have "core cmp iv es ?it" using less.prems(1) by (simp add: core_def)
      from less.hyps [OF _ this] less.prems(2,3) u
      have "\<exists>it'. prev_restart (of_nat (off iv es p)) ?it = Some (p \<noteq> 0, it')
        \<and> (if p = 0 then placed cmp iv es it' (length es)
           else core cmp iv es it' \<and> unat (bi_restart_index it') < num_points iv es \<and> unat (bi_restart_index it') * iv < p)"
        by simp
      moreover have "prev_restart (of_nat (off iv es p)) it = prev_restart (of_nat (off iv es p)) ?it"
        using True False ge g by (subst prev_restart.simps) simp
      ultimately show ?thesis by simp
    qed
  qed
qed

lemma Prev_placed:
  assumes "placed cmp iv es it p" and "p < length es"
  shows "\<exists>it'. BlockIter_Prev it = Some it' \<and> placed cmp iv es it' (if p = 0 then length es else p - 1)"
proof -
  have c: "core cmp iv es it" "bi_current it = of_nat (off iv es p)" "unat (bi_restart_index it) < num_points iv es"
    and v: "BlockIter_Valid it"
    using assms placed_Valid [OF assms(1)] by (auto simp: placed_def index_ok_def)
  obtain it1 where l: "prev_restart (of_nat (off iv es p)) it = Some (p \<noteq> 0, it1)"
    "if p = 0 then placed cmp iv es it1 (length es)
       else core cmp iv es it1 \<and> unat (bi_restart_index it1) < num_points iv es \<and> unat (bi_restart_index it1) * iv < p"
    using prev_restart_found [OF c(1,3) assms(2)] by blast
  show ?thesis
  proof (cases "p = 0")
    case True
    then show ?thesis using l v c(2) by (simp add: BlockIter_Prev_def)
  next
    case False
    then have i: "core cmp iv es it1" "unat (bi_restart_index it1) < num_points iv es" "unat (bi_restart_index it1) * iv < p"
      using l(2) by auto
    obtain it2 where s: "SeekToRestartPoint it1 (bi_restart_index it1) = Some it2"
      "ready cmp iv es it2 (unat (bi_restart_index it1) * iv)"
      using SeekToRestartPoint_ready [OF i(1,2)] by blast
    from parse_until_ready [OF s(2) i(3)] assms(2)
    show ?thesis using False l(1) v c(2) s(1) by (auto simp: BlockIter_Prev_def)
  qed
qed

section \<open>Seeking\<close>

definition sorted_entries :: "(byte list \<Rightarrow> bool) \<Rightarrow> (byte list \<Rightarrow> byte list \<Rightarrow> bool) \<Rightarrow> entry list \<Rightarrow> bool" where
  "sorted_entries key_ok lt es \<longleftrightarrow> (\<forall>e\<in>set es. key_ok (fst e)) \<and> sorted_wrt lt (map fst es)"

lemma first_ge_le: "first_ge lt target es \<le> length es"
  by (simp add: first_ge_def length_takeWhile_le)

lemma first_ge_less: "q < first_ge lt target es \<Longrightarrow> lt (fst (es ! q)) target"
  unfolding first_ge_def by (metis nth_mem set_takeWhileD takeWhile_nth)

lemma first_ge_at: "first_ge lt target es < length es \<Longrightarrow> \<not> lt (fst (es ! first_ge lt target es)) target"
  unfolding first_ge_def by (rule nth_length_takeWhile)

context comparator begin

text \<open>All entries up to one that is smaller are smaller.\<close>

lemma before_first_ge:
  assumes "sorted_entries key_ok lt es" and "key_ok target" and "q < length es" and "lt (fst (es ! q)) target"
  shows "q < first_ge lt target es"
proof (rule ccontr)
  let ?f = "first_ge lt target es"
  assume "\<not> q < ?f"
  then have "?f \<le> q" "?f < length es" using assms(3) by simp_all
  then have "\<not> lt (fst (es ! ?f)) target" using first_ge_at by blast
  moreover have "lt (fst (es ! ?f)) target"
  proof (cases "?f = q")
    case False
    then have "lt (fst (es ! ?f)) (fst (es ! q))"
      using \<open>?f \<le> q\<close> assms(1,3) sorted_wrt_nth_less [of lt "map fst es" ?f q] by (simp add: sorted_entries_def)
    moreover have "key_ok (fst (es ! ?f))" "key_ok (fst (es ! q))"
      using assms(1,3) \<open>?f < length es\<close> by (simp_all add: sorted_entries_def)
    ultimately show ?thesis using less_trans assms(2,4) by blast
  qed (use assms(4) in simp)
  ultimately show False by simp
qed

lemma Compare_key:
  assumes "key_ok a" and "key_ok b"
  shows "\<exists>r. cmp_Compare cmp a b = Some r \<and> (r < 0 \<longleftrightarrow> lt a b)"
  using Compare_total [OF assms] by blast

lemma seek_linear_placed:
  assumes "ready cmp iv es it q" and "sorted_entries key_ok lt es" and "key_ok target" and "q \<le> first_ge lt target es"
  shows "\<exists>it'. seek_linear target it = Some it' \<and> placed cmp iv es it' (first_ge lt target es)"
  using assms(1,4)
proof (induction "length es - q" arbitrary: it q rule: less_induct)
  case less
  let ?f = "first_ge lt target es"
  have q: "q \<le> length es" using less.prems(1) by (simp add: ready_def)
  show ?case
  proof (cases "q = length es")
    case True
    then have "?f = q" using less.prems(2) first_ge_le [of lt target es] by simp
    moreover obtain it1 where "ParseNextKey it = Some (False, it1)" "placed cmp iv es it1 (length es)"
      using ParseNextKey_end less.prems(1) True by blast
    ultimately show ?thesis using True by (subst seek_linear.simps) simp
  next
    case False
    then have ql: "q < length es" using q by simp
    obtain it1 where p: "ParseNextKey it = Some (True, it1)" "placed cmp iv es it1 q"
      using ParseNextKey_ready [OF less.prems(1) ql] by blast
    have k: "bi_key it1 = fst (es ! q)" "bi_comparator it1 = cmp" using p(2) ql by (simp_all add: placed_def core_def)
    have "key_ok (fst (es ! q))" using assms(2) ql by (simp add: sorted_entries_def)
    then obtain r where r: "cmp_Compare cmp (fst (es ! q)) target = Some r" "r < 0 \<longleftrightarrow> lt (fst (es ! q)) target"
      using Compare_key assms(3) by blast
    show ?thesis
    proof (cases "q = ?f")
      case True
      then have "\<not> r < 0" using first_ge_at [of lt target es] ql r(2) by simp
      then have "seek_linear target it = Some it1" by (subst seek_linear.simps) (simp add: p k r(1))
      then show ?thesis using p(2) True by simp
    next
      case False
      then have "q < ?f" using less.prems(2) by simp
      then have "r < 0" using first_ge_less r(2) by blast
      then have "seek_linear target it = seek_linear target it1"
        by (subst seek_linear.simps) (simp add: p k r(1))
      moreover have "\<exists>it'. seek_linear target it1 = Some it' \<and> placed cmp iv es it' ?f"
        using less.hyps [OF _ placed_next [OF p(2) ql]] ql \<open>q < ?f\<close> by simp
      ultimately show ?thesis by simp
    qed
  qed
qed

lemma seek_binary_found:
  assumes "core cmp iv es it" and "sorted_entries key_ok lt es" and "key_ok target"
    and "unat left \<le> unat right" and "unat right < num_points iv es"
    and "left = 0 \<or> unat left * iv < first_ge lt target es"
  shows "\<exists>l. seek_binary it target left right = Some (Some l) \<and> unat l < num_points iv es
    \<and> (l = 0 \<or> unat l * iv < first_ge lt target es)"
  using assms(4-6)
proof (induction "unat right - unat left" arbitrary: left right rule: less_induct)
  case less
  note b = core_restarts [OF assms(1)]
  show ?case
  proof (cases "left < right")
    case False
    then have "seek_binary it target left right = Some (Some left)" by (subst seek_binary.simps) simp
    then show ?thesis using less.prems by auto
  next
    case True
    let ?mid = "(left + right + 1) div 2"
    let ?i = "unat ?mid * iv"
    have lr: "unat left < unat right" using True by (simp add: word_less_nat_alt)
    have "unat (left + right + 1) = unat left + unat right + 1"
      using blk_points(1) [OF b(3)] less.prems(2) lr by (simp add: unat_word_ariths)
    then have m: "unat ?mid = (unat left + unat right + 1) div 2" by (simp add: unat_div)
    then have ml: "unat left < unat ?mid" "unat ?mid \<le> unat right" using lr by auto
    then have mp: "unat ?mid < num_points iv es" using less.prems(2) by simp
    have "es \<noteq> []"
    proof
      assume "es = []"
      then have "num_points iv es = 1" by (simp add: num_points_def)
      then show False using less.prems(2) lr by simp
    qed
    then have i: "?i < length es" using point_within(2) [OF b(3) mp] by blast
    have sh: "share iv es ?i = 0" by (simp add: share_def)
    have region: "unat (of_nat (off iv es ?i) :: u32) = off iv es ?i" using blk_bounds(2) [OF b(3), of ?i] i by simp
    have kl: "unat (of_nat (length (fst (es ! ?i))) :: u32) = length (fst (es ! ?i))"
      using entry_bounds(2) [OF b(3) i] by simp
    have "key_ok (fst (es ! ?i))" using assms(2) i by (simp add: sorted_entries_def)
    then obtain r where r: "cmp_Compare cmp (fst (es ! ?i)) target = Some r" "r < 0 \<longleftrightarrow> lt (fst (es ! ?i)) target"
      using Compare_key assms(3) by blast
    have cmp: "bi_comparator it = cmp" using assms(1) by (simp add: core_def)
    have step: "seek_binary it target left right =
        (if r < 0 then seek_binary it target ?mid right else seek_binary it target left (?mid - 1))"
      using True GetRestartPoint_at [OF assms(1) mp] DecodeEntry_at [OF b(3) i] key_delta_at [OF b(3) i]
      by (subst seek_binary.simps) (simp add: b region sh kl cmp r(1) Let_def)
    show ?thesis
    proof (cases "r < 0")
      case True
      then have "?i < first_ge lt target es" using before_first_ge [OF assms(2,3) i] r(2) by blast
      then show ?thesis using step True less.hyps [of right ?mid] ml less.prems(2) lr by simp
    next
      case False
      have "unat (?mid - 1) = unat ?mid - 1" using ml(1) by (intro unat_sub [THEN trans]) (simp_all add: word_le_nat_alt)
      then show ?thesis using step False less.hyps [of "?mid - 1" left] ml less.prems lr by simp
    qed
  qed
qed

lemma Seek_placed:
  assumes "core cmp iv es it" and "sorted_entries key_ok lt es" and "key_ok target"
  shows "\<exists>it'. BlockIter_Seek it target = Some it' \<and> placed cmp iv es it' (first_ge lt target es)"
proof -
  note b = core_restarts [OF assms(1)]
  obtain l where l: "seek_binary it target 0 (bi_num_restarts it - 1) = Some (Some l)" "unat l < num_points iv es"
    "l = 0 \<or> unat l * iv < first_ge lt target es"
    using seek_binary_found [OF assms, of 0 "bi_num_restarts it - 1"] unat_last_index [OF assms(1)] blk_points(3) [OF b(3)]
    by auto
  obtain it1 where s: "SeekToRestartPoint it l = Some it1" "ready cmp iv es it1 (unat l * iv)"
    using SeekToRestartPoint_ready [OF assms(1) l(2)] by blast
  have "unat l * iv \<le> first_ge lt target es" using l(3) by auto
  from seek_linear_placed [OF s(2) assms(2,3) this] show ?thesis
    by (simp add: BlockIter_Seek_def l(1) s(1))
qed

lemma block_iterator:
  "iterator BlockIter_ops es (\<lambda>it p. placed cmp iv es it p \<and> sorted_entries key_ok lt es) key_ok lt"
proof
  fix it p
  assume s: "placed cmp iv es it p \<and> sorted_entries key_ok lt es"
  then have c: "core cmp iv es it" by (simp add: placed_def)
  show "i_Valid BlockIter_ops it = (p < length es)" using s placed_Valid [of cmp iv es it p] by (simp add: BlockIter_ops_def)
  show "ok (i_status BlockIter_ops it)" using c by (simp add: BlockIter_ops_def core_def)
  show "\<exists>it'. i_SeekToFirst BlockIter_ops it = Some it' \<and> placed cmp iv es it' 0 \<and> sorted_entries key_ok lt es"
    using SeekToFirst_placed [OF c] s by (simp add: BlockIter_ops_def)
  show "\<exists>it'. i_SeekToLast BlockIter_ops it = Some it' \<and> placed cmp iv es it' (length es - 1) \<and> sorted_entries key_ok lt es"
    using SeekToLast_placed [OF c] s by (simp add: BlockIter_ops_def)
  show "\<exists>it'. i_Seek BlockIter_ops it target = Some it' \<and> placed cmp iv es it' (first_ge lt target es) \<and> sorted_entries key_ok lt es"
    if "key_ok target" for target
    using Seek_placed [OF c _ that] s by (simp add: BlockIter_ops_def)
  assume p: "p < length es"
  have v: "BlockIter_Valid it" using s p placed_Valid by blast
  show "i_key BlockIter_ops it = Some (fst (es ! p))" using s p v by (simp add: BlockIter_ops_def BlockIter_key_def placed_def)
  show "i_value BlockIter_ops it = Some (snd (es ! p))"
    using s p v value_at [OF core_restarts(3) [OF c] p] core_restarts(4) [OF c]
    by (simp add: BlockIter_ops_def BlockIter_value_def placed_def)
  show "\<exists>it'. i_Next BlockIter_ops it = Some it' \<and> placed cmp iv es it' (Suc p) \<and> sorted_entries key_ok lt es"
    using Next_placed [OF _ p] s by (simp add: BlockIter_ops_def)
  show "\<exists>it'. i_Prev BlockIter_ops it = Some it' \<and> placed cmp iv es it' (if p = 0 then length es else p - 1)
      \<and> sorted_entries key_ok lt es"
    using Prev_placed [OF _ p] s by (simp add: BlockIter_ops_def)
qed

end

interpretation bytewise_block: iterator BlockIter_ops es
  "\<lambda>it p. placed BytewiseComparator iv es it p \<and> sorted_entries (\<lambda>_. True) bytes_less es" "\<lambda>_. True" bytes_less for iv es
  by (rule bytewise.block_iterator)

interpretation internal_block: iterator BlockIter_ops es
  "\<lambda>it p. placed (InternalKeyComparator BytewiseComparator) iv es it p
     \<and> sorted_entries (internal_ok (\<lambda>_. True)) (internal_less bytes_less) es"
  "internal_ok (\<lambda>_. True)" "internal_less bytes_less" for iv es
  by (rule internal.block_iterator)

section \<open>From the builder to the iterator\<close>

lemma Block_new_block:
  assumes "blk iv es"
  shows "Block_new (block_bytes iv es) = Some \<lparr>blk_data = block_bytes iv es, blk_size = length (block_bytes iv es),
    blk_restart_offset = of_nat (off iv es (length es))\<rparr>"
    and "NumRestarts \<lparr>blk_data = block_bytes iv es, blk_size = length (block_bytes iv es), blk_restart_offset = r\<rparr>
      = Some (of_nat (num_points iv es))"
proof -
  let ?n = "length (block_bytes iv es)"
  have n: "?n = off iv es (length es) + 4 * num_points iv es + 4" by (rule length_block)
  have "block_bytes iv es = (ents iv es 0 (length es) @ fixed32_array (points iv es)) @ le_bytes 4 (of_nat (num_points iv es) :: u32) @ []"
    by (simp add: block_bytes_def)
  moreover have "?n - 4 = length (ents iv es 0 (length es) @ fixed32_array (points iv es))" by (simp add: n off_def)
  ultimately have "DecodeFixed32 (drop (?n - 4) (block_bytes iv es)) = Some (of_nat (num_points iv es))"
    by (metis DecodeFixed32_le_bytes append_eq_conv_conj)
  then show num: "NumRestarts \<lparr>blk_data = block_bytes iv es, blk_size = length (block_bytes iv es), blk_restart_offset = r\<rparr>
      = Some (of_nat (num_points iv es))" for r
    by (simp add: NumRestarts_def)
  have u: "unat (of_nat (num_points iv es) :: u32) = num_points iv es" by (rule blk_points(2) [OF assms])
  have "1 + of_nat (num_points iv es) = (of_nat (Suc (num_points iv es)) :: u32)" by simp
  moreover have "ucast (of_nat (Suc (num_points iv es)) :: u32) = (of_nat (Suc (num_points iv es)) :: size_t)"
    using blk_points(1) [OF assms] by (intro word_unat_eq_iff [THEN iffD2]) (simp del: of_nat_Suc)
  ultimately have "(of_nat ?n :: size_t) - ucast (1 + of_nat (num_points iv es) :: u32) * 4 = of_nat (off iv es (length es))"
    by (simp add: n algebra_simps)
  moreover have size: "\<not> ?n < 4" "\<not> (?n - 4) div 4 < num_points iv es" using n by simp_all
  moreover have "ucast (of_nat (off iv es (length es)) :: size_t) = (of_nat (off iv es (length es)) :: u32)"
    by (rule ucast_of_nat_64_32 [OF blk_bounds(1) [OF assms order_refl]])
  ultimately show "Block_new (block_bytes iv es) = Some \<lparr>blk_data = block_bytes iv es, blk_size = length (block_bytes iv es),
    blk_restart_offset = of_nat (off iv es (length es))\<rparr>"
    using size by (simp add: Block_new_def Let_def num u)
qed

text \<open>
  C38. A block gives back what was put into it, for every comparator that keeps the contract, every
  restart interval and all entries in order: the iterator of the finished block exists,
  and every operation on it, from the first or the last entry, to a key, forward or
  backward, leads to the entry of the list that the contract of iterators names.
\<close>

theorem block_iterates_entries:
  assumes "comparator c key_ok lt" and "opt_comparator options = c"
    and "opt_block_restart_interval options = int iv" and "1 \<le> iv" and "sorted_entries key_ok lt es"
    and "contents = fst (BlockBuilder_Finish (build_block options es))" and "length contents < 2 ^ 32"
  shows "\<exists>b it stands. Block_new contents = Some b \<and> Block_NewIterator b c = Some (Inr it)
    \<and> stands it (length es) \<and> iterator BlockIter_ops es stands key_ok lt"
proof -
  have contents: "contents = block_bytes iv es" using build_block_bytes [OF assms(4,3)] assms(6) by simp
  then have blk: "blk iv es" using assms(4,7) by (simp add: blk_def)
  let ?it = "BlockIter_new c (block_bytes iv es) (of_nat (off iv es (length es))) (of_nat (num_points iv es))"
  have "(of_nat (num_points iv es) :: u32) \<noteq> 0"
    using blk_points(2,3) [OF blk] by (metis unat_0 less_irrefl)
  moreover have "\<not> length (block_bytes iv es) < 4" by (simp add: length_block)
  ultimately have "Block_NewIterator (the (Block_new contents)) c = Some (Inr ?it)"
    by (simp add: contents Block_new_block [OF blk] Block_NewIterator_def)
  moreover have "placed c iv es ?it (length es)"
    using blk by (simp add: placed_def core_def BlockIter_new_def)
  moreover note comparator.block_iterator [OF assms(1), of es iv]
  ultimately show ?thesis
    using Block_new_block(1) [OF blk] assms(5) unfolding contents by (intro exI conjI) auto
qed

theorem block_iterates_entries_witness:
  "\<exists>contents b it stands. Block_new contents = Some b \<and> Block_NewIterator b BytewiseComparator = Some (Inr it)
    \<and> iterator BlockIter_ops [([1], [7]), ([1, 2], [])] stands (\<lambda>_. True) bytes_less"
proof -
  let ?es = "[([1], [7]), ([1, 2], [])] :: entry list"
  let ?c = "fst (BlockBuilder_Finish (build_block Options_new ?es))"
  have "length ?c < 2 ^ 32"
    by (simp add: build_block_def BlockBuilder_new_def BlockBuilder_Add_def BlockBuilder_Finish_def Add_bytes_def
        Options_new_def Let_def PutVarint32_def varint_small fold_PutFixed32 PutFixed32_def)
  moreover have "sorted_entries (\<lambda>_. True) bytes_less ?es" by (simp add: sorted_entries_def)
  ultimately show ?thesis
    using block_iterates_entries [OF bytewise.comparator_axioms, of Options_new 16 ?es ?c]
    by (auto simp: Options_new_def)
qed

section \<open>A corrupted block\<close>

definition overlong_entry :: "byte list" where
  "overlong_entry = [0, 1, 0xff, 0xff, 0xff, 0xff, 0x0f, 97] @ le_bytes 4 (0 :: u32) @ le_bytes 4 (1 :: u32)"

text \<open>
  C39. The check of the lengths of an entry wraps around: a block of 16 bytes whose entry says that its
  key has one byte and its value \<open>2^32 - 1\<close> is accepted, the iterator is valid at the
  entry without an error, and its value reaches beyond the block.
\<close>

theorem block_value_overrun:
  "\<exists>b it it'. Block_new overlong_entry = Some b \<and> Block_NewIterator b BytewiseComparator = Some (Inr it)
    \<and> BlockIter_SeekToFirst it = Some it' \<and> BlockIter_Valid it' \<and> ok (bi_status it')
    \<and> bi_key it' = [97] \<and> bi_value it' = Some (8, 2 ^ 32 - 1) \<and> BlockIter_value it' = None"
proof -
  let ?b = "\<lparr>blk_data = overlong_entry, blk_size = 16, blk_restart_offset = 8\<rparr>"
  let ?it = "BlockIter_new BytewiseComparator overlong_entry 8 1"
  let ?it' = "?it\<lparr>bi_key := [97], bi_restart_index := 0, bi_value := Some (8, 2 ^ 32 - 1), bi_current := 0\<rparr>"
  have d: "DecodeFixed32 (drop 12 overlong_entry) = Some 1" "DecodeFixed32 (drop 8 overlong_entry) = Some 0"
    "length overlong_entry = 16" "Block_new overlong_entry = Some ?b"
    by code_simp+
  have e: "DecodeEntry (take 8 (drop 0 overlong_entry)) = Some (0, 1, 0xFFFFFFFF, [97])"
    "bytes_at overlong_entry 7 1 = Some [97]"
    by code_simp+
  have i: "Block_NewIterator ?b BytewiseComparator = Some (Inr ?it)"
    by (simp add: Block_NewIterator_def NumRestarts_def d)
  have s: "BlockIter_SeekToFirst ?it = Some ?it'"
    using e d by (simp add: BlockIter_SeekToFirst_def SeekToRestartPoint_def GetRestartPoint_def BlockIter_new_def
        ParseNextKey_def NextEntryOffset_def skip_restarts.simps)
  show ?thesis
    using d i s by (intro exI [of _ ?b] exI [of _ ?it] exI [of _ ?it'])
      (simp add: BlockIter_Valid_def BlockIter_value_def bytes_at_def BlockIter_new_def)
qed

end
