(* ===== verification/LDB_Table_Layout.thy ===== *)
theory LDB_Table_Layout
  imports LDB_Table_Builder LDB_Block_Props
begin

text \<open>
  The bytes of a table for a list of entries, and the proof that \<^verbatim>\<open>TableBuilder\<close> of
  \<^verbatim>\<open>table/table_builder.cc\<close> writes them to any file that works.
\<close>

section \<open>Layout\<close>

definition block_contents :: "Options \<Rightarrow> entry list \<Rightarrow> byte list" where
  "block_contents o1 es = fst (BlockBuilder_Finish (build_block o1 es))"

text \<open>The entries are cut into blocks: a block is closed when its size reaches the limit.\<close>

definition full :: "Options \<Rightarrow> entry list \<Rightarrow> bool" where
  "full o1 cur \<longleftrightarrow> CurrentSizeEstimate (build_block o1 cur) \<ge> opt_block_size o1"

fun cut :: "Options \<Rightarrow> entry list \<Rightarrow> entry list \<Rightarrow> entry list list" where
  "cut o1 cur [] = (if cur = [] then [] else [cur])"
| "cut o1 cur (e # es) = (if full o1 (cur @ [e]) then (cur @ [e]) # cut o1 [] es else cut o1 (cur @ [e]) es)"

definition data_bytes :: "Options \<Rightarrow> entry list list \<Rightarrow> byte list" where
  "data_bytes o1 bs = concat (map (\<lambda>b. raw_block (block_contents o1 b)) bs)"

definition block_offset :: "Options \<Rightarrow> entry list list \<Rightarrow> nat \<Rightarrow> nat" where
  "block_offset o1 bs k = length (data_bytes o1 (take k bs))"

definition data_handle :: "Options \<Rightarrow> entry list list \<Rightarrow> nat \<Rightarrow> BlockHandle" where
  "data_handle o1 bs k = \<lparr>bh_offset = of_nat (block_offset o1 bs k), bh_size = of_nat (length (block_contents o1 (bs ! k)))\<rparr>"

text \<open>The key of a block in the index separates it from the next.\<close>

definition index_key :: "Options \<Rightarrow> entry list list \<Rightarrow> nat \<Rightarrow> byte list" where
  "index_key o1 bs k =
     (if Suc k < length bs
      then the (cmp_FindShortestSeparator (opt_comparator o1) (fst (last (bs ! k))) (fst (hd (bs ! Suc k))))
      else the (cmp_FindShortSuccessor (opt_comparator o1) (fst (last (bs ! k)))))"

definition index_entries :: "Options \<Rightarrow> entry list list \<Rightarrow> entry list" where
  "index_entries o1 bs = map (\<lambda>k. (index_key o1 bs k, handle_bytes (data_handle o1 bs k))) [0..<length bs]"

abbreviation index_options :: "Options \<Rightarrow> Options" where
  "index_options o1 \<equiv> o1\<lparr>opt_block_restart_interval := 1\<rparr>"

text \<open>The calls of the filter block builder, when \<open>n\<close> blocks are done.\<close>

definition filter_calls :: "Options \<Rightarrow> entry list list \<Rightarrow> nat \<Rightarrow> entry list \<Rightarrow> (u64 \<times> byte list list) list" where
  "filter_calls o1 bs n cur =
     map (\<lambda>k. (of_nat (block_offset o1 bs k), map fst (bs ! k))) [0..<n] @ [(of_nat (block_offset o1 bs n), map fst cur)]"

definition filter_contents :: "Options \<Rightarrow> FilterPolicy \<Rightarrow> entry list list \<Rightarrow> byte list" where
  "filter_contents o1 policy bs =
     fst (FilterBlock_Finish (fold add_block (filter_calls o1 bs (length bs) []) (FilterBlockBuilder_new policy)))"

definition filter_part :: "Options \<Rightarrow> entry list list \<Rightarrow> byte list" where
  "filter_part o1 bs = (case opt_filter_policy o1 of None \<Rightarrow> [] | Some policy \<Rightarrow> raw_block (filter_contents o1 policy bs))"

definition filter_handle :: "Options \<Rightarrow> FilterPolicy \<Rightarrow> entry list list \<Rightarrow> BlockHandle" where
  "filter_handle o1 policy bs =
     \<lparr>bh_offset = of_nat (length (data_bytes o1 bs)), bh_size = of_nat (length (filter_contents o1 policy bs))\<rparr>"

definition meta_entries :: "Options \<Rightarrow> entry list list \<Rightarrow> entry list" where
  "meta_entries o1 bs =
     (case opt_filter_policy o1 of None \<Rightarrow> []
      | Some policy \<Rightarrow> [(cstr ''filter.'' @ fp_Name policy, handle_bytes (filter_handle o1 policy bs))])"

definition meta_contents :: "Options \<Rightarrow> entry list list \<Rightarrow> byte list" where
  "meta_contents o1 bs = block_contents o1 (meta_entries o1 bs)"

definition meta_handle :: "Options \<Rightarrow> entry list list \<Rightarrow> BlockHandle" where
  "meta_handle o1 bs =
     \<lparr>bh_offset = of_nat (length (data_bytes o1 bs) + length (filter_part o1 bs)), bh_size = of_nat (length (meta_contents o1 bs))\<rparr>"

definition index_contents :: "Options \<Rightarrow> entry list list \<Rightarrow> byte list" where
  "index_contents o1 bs = block_contents (index_options o1) (index_entries o1 bs)"

definition index_handle :: "Options \<Rightarrow> entry list list \<Rightarrow> BlockHandle" where
  "index_handle o1 bs =
     \<lparr>bh_offset = of_nat (length (data_bytes o1 bs) + length (filter_part o1 bs) + (length (meta_contents o1 bs) + 5)),
      bh_size = of_nat (length (index_contents o1 bs))\<rparr>"

definition blocks_bytes :: "Options \<Rightarrow> entry list list \<Rightarrow> byte list" where
  "blocks_bytes o1 bs =
     data_bytes o1 bs @ filter_part o1 bs @ raw_block (meta_contents o1 bs) @ raw_block (index_contents o1 bs)
     @ footer_bytes \<lparr>ft_metaindex_handle = meta_handle o1 bs, ft_index_handle = index_handle o1 bs\<rparr>"

definition table_bytes :: "Options \<Rightarrow> entry list \<Rightarrow> byte list" where
  "table_bytes o1 es = blocks_bytes o1 (cut o1 [] es)"

section \<open>Cutting\<close>

lemma concat_cut: "concat (cut o1 cur es) = cur @ es"
  by (induction o1 cur es rule: cut.induct) auto

lemma cut_nonempty: "b \<in> set (cut o1 cur es) \<Longrightarrow> b \<noteq> []"
  by (induction o1 cur es rule: cut.induct) (auto split: if_splits)

lemma cut_hd: "cur \<noteq> [] \<Longrightarrow> \<exists>b bs. cut o1 cur es = b # bs \<and> hd b = hd cur"
  by (induction o1 cur es rule: cut.induct) auto

lemma length_ents: "length es \<le> off iv es (length es)"
proof -
  have "n \<le> off iv es n" for n
  proof (induction n)
    case (Suc n)
    moreover have "0 < length (ent iv es n)" by simp
    ultimately show ?case unfolding off_Suc by linarith
  qed simp
  then show ?thesis .
qed

text \<open>Options under which the builder works.\<close>

definition build_ok :: "Options \<Rightarrow> bool" where
  "build_ok o1 \<longleftrightarrow> 1 \<le> opt_block_restart_interval o1 \<and> opt_compression o1 \<in> {kNoCompression, kSnappyCompression}"

lemma restart_nat:
  assumes "build_ok o1"
  shows "1 \<le> nat (opt_block_restart_interval o1)" and "opt_block_restart_interval o1 = int (nat (opt_block_restart_interval o1))"
  using assms by (auto simp: build_ok_def Suc_le_eq)

lemma build_ok_index [simp]: "build_ok o1 \<Longrightarrow> build_ok (index_options o1)"
  by (simp add: build_ok_def)

lemma block_contents_bytes: "build_ok o1 \<Longrightarrow> block_contents o1 es = block_bytes (nat (opt_block_restart_interval o1)) es"
  unfolding block_contents_def by (rule build_block_bytes [OF restart_nat])

lemma length_block_contents: "build_ok o1 \<Longrightarrow> length es \<le> length (block_contents o1 es)"
  using length_ents [of es "nat (opt_block_restart_interval o1)"] by (simp add: block_contents_bytes length_block)

lemma build_block_options: "build_ok o1 \<Longrightarrow> bb_options (build_block o1 es) = o1"
  using build_block_state [OF restart_nat] by simp

lemma build_block_empty: "build_ok o1 \<Longrightarrow> BlockBuilder_empty (build_block o1 es) \<longleftrightarrow> es = []"
proof -
  assume o: "build_ok o1"
  have "es \<noteq> [] \<Longrightarrow> ents iv es 0 (length es) \<noteq> []" for iv
    using length_ents [of es iv] by (auto simp: off_def)
  moreover have "ents iv [] 0 (length []) = []" for iv by (simp add: ents_def)
  ultimately show ?thesis using build_block_state [OF restart_nat [OF o], of es] by (auto simp: BlockBuilder_empty_def)
qed

lemma build_block_Nil: "build_block o1 [] = BlockBuilder_new o1"
  by (simp add: build_block_def)

lemma build_block_snoc: "build_block o1 (es @ [(k, v)]) = BlockBuilder_Add (build_block o1 es) k v"
  by (simp add: build_block_def)

lemma Finish_build_block:
  "build_ok o1 \<Longrightarrow> \<exists>b. BlockBuilder_Finish (build_block o1 es) = (block_contents o1 es, b) \<and> BlockBuilder_Reset b = BlockBuilder_new o1"
  using build_block_options [of o1 es]
  by (auto simp: block_contents_def BlockBuilder_Finish_def Let_def BlockBuilder_Reset_def BlockBuilder_new_def)

lemma data_bytes_append: "data_bytes o1 (as @ bs) = data_bytes o1 as @ data_bytes o1 bs"
  by (simp add: data_bytes_def)

lemma block_offset_Suc:
  "k < length bs \<Longrightarrow> block_offset o1 bs (Suc k) = block_offset o1 bs k + (length (block_contents o1 (bs ! k)) + 5)"
  by (simp add: block_offset_def take_Suc_conv_app_nth data_bytes_append) (simp add: data_bytes_def)

lemma block_offset_le: "block_offset o1 bs k \<le> length (data_bytes o1 bs)"
  using data_bytes_append [of o1 "take k bs" "drop k bs"] by (simp add: block_offset_def)

lemma block_offset_all: "length bs \<le> k \<Longrightarrow> block_offset o1 bs k = length (data_bytes o1 bs)"
  by (simp add: block_offset_def)

lemma length_concat_blocks: "build_ok o1 \<Longrightarrow> length (concat bs) \<le> length (data_bytes o1 bs)"
proof (induction bs)
  case (Cons b bs)
  then show ?case using length_block_contents [of o1 b] by (simp add: data_bytes_def)
qed simp

section \<open>Building\<close>

text \<open>The state of the builder when \<open>n\<close> blocks are done and \<open>cur\<close> is in the block it fills.\<close>

definition last_key :: "entry list \<Rightarrow> byte list" where
  "last_key es = (if es = [] then [] else fst (last es))"

definition builder_state :: "Options \<Rightarrow> entry list list \<Rightarrow> nat \<Rightarrow> entry list \<Rightarrow> 'f \<Rightarrow> 'f TableBuilder" where
  "builder_state o1 bs n cur file =
     \<lparr>tb_options = o1, tb_index_block_options = index_options o1, tb_file = file,
      tb_offset = of_nat (block_offset o1 bs n), tb_status = Status_OK, tb_data_block = build_block o1 cur,
      tb_index_block = build_block (index_options o1) (take (if cur = [] then n - 1 else n) (index_entries o1 bs)),
      tb_last_key = last_key (concat (take n bs) @ cur), tb_num_entries = of_nat (length (concat (take n bs) @ cur)),
      tb_closed = False,
      tb_filter_block = map_option (\<lambda>p. fold add_block (filter_calls o1 bs n cur) (FilterBlockBuilder_new p)) (opt_filter_policy o1),
      tb_pending_index_entry = (cur = [] \<and> n \<noteq> 0),
      tb_pending_handle = (if n = 0 then BlockHandle_new else data_handle o1 bs (n - 1)), tb_compressed_output = []\<rparr>"

lemma nth_index_entries:
  "k < length bs \<Longrightarrow> index_entries o1 bs ! k = (index_key o1 bs k, handle_bytes (data_handle o1 bs k))"
  by (simp add: index_entries_def)

lemma length_index_entries [simp]: "length (index_entries o1 bs) = length bs"
  by (simp add: index_entries_def)

lemma fold_filter_calls_key:
  "fold add_block (filter_calls o1 bs n (cur @ [(k, v)])) b = AddKey (fold add_block (filter_calls o1 bs n cur) b) k"
  by (simp add: filter_calls_def add_block_def)

lemma fold_filter_calls_block:
  "fold add_block (filter_calls o1 bs (Suc n) []) b =
     StartBlock (fold add_block (filter_calls o1 bs n (bs ! n)) b) (of_nat (block_offset o1 bs (Suc n)))"
  by (simp add: filter_calls_def add_block_def)

lemma of_nat_not_minus_1: "m < 2 ^ 32 \<Longrightarrow> of_nat m \<noteq> (- 1 :: u64)"
proof
  assume m: "m < 2 ^ 32" and eq: "of_nat m = (- 1 :: u64)"
  have "m = unat (of_nat m :: u64)" using m by simp
  also have "\<dots> = 18446744073709551615" unfolding eq by (simp add: unsigned_minus_1_eq_mask mask_eq_exp_minus_1)
  finally show False using m by simp
qed

lemma data_handle_set:
  assumes "length (data_bytes o1 bs) < 2 ^ 32" and "k < length bs"
  shows "handle_set (data_handle o1 bs k)"
proof -
  have "block_offset o1 bs k < 2 ^ 32" using block_offset_le [of o1 bs k] assms(1) by simp
  moreover have "length (block_contents o1 (bs ! k)) < 2 ^ 32"
    using block_offset_Suc [OF assms(2), of o1] block_offset_le [of o1 bs "Suc k"] assms(1) by simp
  ultimately show ?thesis by (simp add: handle_set_def data_handle_def of_nat_not_minus_1)
qed

lemma signed_count: "m < 2 ^ 63 \<Longrightarrow> 0 <s (of_nat m :: 64 word) \<longleftrightarrow> 0 < m"
proof -
  assume m: "m < 2 ^ 63"
  have "sint (of_nat m :: 64 word) = int m" using m by (simp add: sint_uint uint_nat signed_take_bit_eq_if_positive bit_iff_odd take_bit_int_eq_self)
  then show ?thesis by (simp add: word_sless_alt)
qed

text \<open>What the next call of \<^verbatim>\<open>Add\<close> finds, while the rest of the blocks is still to be cut.\<close>

lemma cut_next:
  assumes "drop n bs = cut o1 cur (e # es)"
  shows "n < length bs" and "hd (bs ! n) = hd (cur @ [e])" and "concat bs = (concat (take n bs) @ cur) @ e # es"
    and "full o1 (cur @ [e]) \<Longrightarrow> bs ! n = cur @ [e] \<and> drop (Suc n) bs = cut o1 [] es"
    and "\<not> full o1 (cur @ [e]) \<Longrightarrow> drop n bs = cut o1 (cur @ [e]) es"
proof -
  have ne: "drop n bs \<noteq> []" using concat_cut [of o1 cur "e # es"] assms by auto
  then show n: "n < length bs" by simp
  have d: "drop n bs = bs ! n # drop (Suc n) bs" using n by (simp add: Cons_nth_drop_Suc)
  show "hd (bs ! n) = hd (cur @ [e])"
  proof (cases "full o1 (cur @ [e])")
    case True
    then show ?thesis using assms d by simp
  next
    case False
    then show ?thesis using assms d cut_hd [of "cur @ [e]" o1 es] by auto
  qed
  have "concat bs = concat (take n bs) @ concat (drop n bs)" by (metis append_take_drop_id concat_append)
  then show "concat bs = (concat (take n bs) @ cur) @ e # es" using assms by (simp add: concat_cut del: cut.simps)
  show "bs ! n = cur @ [e] \<and> drop (Suc n) bs = cut o1 [] es" if "full o1 (cur @ [e])" using that assms d by simp
  show "drop n bs = cut o1 (cur @ [e]) es" if "\<not> full o1 (cur @ [e])" using that assms by simp
qed

lemma last_concat_take:
  assumes "n < length bs" and "n \<noteq> 0" and "\<forall>b\<in>set bs. b \<noteq> []"
  shows "concat (take n bs) \<noteq> []" and "last_key (concat (take n bs)) = fst (last (bs ! (n - 1)))"
proof -
  obtain m where m: "n = Suc m" using assms(2) by (cases n) auto
  have "concat (take n bs) = concat (take m bs) @ bs ! m" using assms(1) by (simp add: m take_Suc_conv_app_nth)
  moreover have "bs ! m \<noteq> []" using assms(1,3) m by simp
  ultimately show "concat (take n bs) \<noteq> []" "last_key (concat (take n bs)) = fst (last (bs ! (n - 1)))"
    by (simp_all add: last_key_def m)
qed

text \<open>The calls for a whole table.\<close>

fun add_entries :: "'f WritableFile \<Rightarrow> entry list \<Rightarrow> 'f TableBuilder \<Rightarrow> 'f TableBuilder option" where
  "add_entries fops [] r = Some r"
| "add_entries fops ((k, v) # es) r = do { r \<leftarrow> TableBuilder_Add fops r k v; add_entries fops es r }"

definition build_table :: "'f WritableFile \<Rightarrow> Options \<Rightarrow> 'f \<Rightarrow> entry list \<Rightarrow> (Status \<times> 'f TableBuilder) option" where
  "build_table fops options file es = do {
     r \<leftarrow> add_entries fops es (TableBuilder_new options file);
     TableBuilder_Finish fops r
   }"

context writable_file begin

definition building :: "Options \<Rightarrow> byte list \<Rightarrow> entry list list \<Rightarrow> nat \<Rightarrow> entry list \<Rightarrow> 'f TableBuilder \<Rightarrow> bool" where
  "building o1 before bs n cur r \<longleftrightarrow>
     (\<exists>file. r = builder_state o1 bs n cur file \<and> works file \<and> written file = before @ data_bytes o1 (take n bs))"

lemma building_new:
  assumes "works f"
  shows "building o1 (written f) bs 0 [] (TableBuilder_new o1 f)"
  using assms by (simp add: building_def builder_state_def TableBuilder_new_def data_bytes_def block_offset_def build_block_Nil
      last_key_def filter_calls_def add_block_def option.map_comp comp_def)

text \<open>A block is written with its trailer.\<close>

lemma WriteRawBlock_works:
  assumes "works (tb_file r)" and "length contents < 2 ^ 62" and "tb_status r = Status_OK"
  shows "\<exists>f. WriteRawBlock ops r contents kNoCompression =
      Some (r\<lparr>tb_file := f, tb_offset := tb_offset r + of_nat (length contents + 5)\<rparr>,
        \<lparr>bh_offset = tb_offset r, bh_size = of_nat (length contents)\<rparr>)
    \<and> works f \<and> written f = written (tb_file r) @ raw_block contents"
proof -
  obtain f1 where f1: "wf_Append ops (tb_file r) contents = Some (Status_OK, f1)" "works f1" "written f1 = written (tb_file r) @ contents"
    using Append_works [OF assms(1)] by blast
  have c: "crc_extend 0 contents = Some (crc32c 0 contents)" "crc_extend (crc32c 0 contents) [kNoCompression] = Some (crc32c (crc32c 0 contents) [kNoCompression])"
    using assms(2) by (simp_all add: crc_extend_eq)
  let ?trailer = "[kNoCompression] @ EncodeFixed32 (Mask (crc32c (crc32c 0 contents) [kNoCompression]))"
  obtain f2 where f2: "wf_Append ops f1 ?trailer = Some (Status_OK, f2)" "works f2" "written f2 = written f1 @ ?trailer"
    using Append_works [OF f1(2)] by blast
  have "written f2 = written (tb_file r) @ raw_block contents"
    by (simp add: f2(3) f1(3) raw_block_def crc32c_append)
  then show ?thesis
    using f1(1) c f2(1,2) assms(3)
    by (intro exI [of _ f2], cases r) (simp add: WriteRawBlock_def Let_def kBlockTrailerSize_def)
qed

lemma WriteBlock_works:
  assumes "works (tb_file r)" and "tb_status r = Status_OK" and "build_ok o1" and "build_ok (tb_options r)"
    and "length (block_contents o1 es) < 2 ^ 62"
  shows "\<exists>f. WriteBlock ops r (build_block o1 es) =
      Some (r\<lparr>tb_file := f, tb_offset := tb_offset r + of_nat (length (block_contents o1 es) + 5), tb_compressed_output := []\<rparr>,
        BlockBuilder_new o1, \<lparr>bh_offset = tb_offset r, bh_size = of_nat (length (block_contents o1 es))\<rparr>)
    \<and> works f \<and> written f = written (tb_file r) @ raw_block (block_contents o1 es)"
proof -
  obtain b where b: "BlockBuilder_Finish (build_block o1 es) = (block_contents o1 es, b)" "BlockBuilder_Reset b = BlockBuilder_new o1"
    using Finish_build_block [OF assms(3)] by blast
  have "compress (opt_compression (tb_options r)) raw out = (raw, kNoCompression, out)" for raw out
    using assms(4) by (auto simp: compress_def Snappy_Compress_def build_ok_def)
  moreover obtain f where "WriteRawBlock ops (r\<lparr>tb_compressed_output := tb_compressed_output r\<rparr>) (block_contents o1 es) kNoCompression =
      Some (r\<lparr>tb_file := f, tb_offset := tb_offset r + of_nat (length (block_contents o1 es) + 5)\<rparr>,
        \<lparr>bh_offset = tb_offset r, bh_size = of_nat (length (block_contents o1 es))\<rparr>)"
    "works f" "written f = written (tb_file r) @ raw_block (block_contents o1 es)"
    using WriteRawBlock_works [OF assms(1,5,2)] by auto
  ultimately show ?thesis using assms(2) b by (intro exI [of _ f]) (simp add: WriteBlock_def)
qed

lemma Flush_building:
  assumes "building o1 before bs n cur r" and "n < length bs" and "bs ! n = cur" and "cur \<noteq> []" and "build_ok o1"
    and "length (data_bytes o1 bs) < 2 ^ 32"
  shows "\<exists>r'. TableBuilder_Flush ops r = Some r' \<and> building o1 before bs (Suc n) [] r'"
proof -
  obtain f0 where r: "r = builder_state o1 bs n cur f0" and f: "works f0" "written f0 = before @ data_bytes o1 (take n bs)"
    using assms(1) by (auto simp: building_def)
  have size: "length (block_contents o1 cur) < 2 ^ 62"
    using block_offset_Suc [OF assms(2), of o1] block_offset_le [of o1 bs "Suc n"] assms(3,6) by simp
  obtain f1 where w: "WriteBlock ops r (build_block o1 cur) =
      Some (r\<lparr>tb_file := f1, tb_offset := tb_offset r + of_nat (length (block_contents o1 cur) + 5), tb_compressed_output := []\<rparr>,
        BlockBuilder_new o1, \<lparr>bh_offset = tb_offset r, bh_size = of_nat (length (block_contents o1 cur))\<rparr>)"
    "works f1" "written f1 = written f0 @ raw_block (block_contents o1 cur)"
    using WriteBlock_works [of r o1 cur] f(1) size assms(5) by (auto simp: r builder_state_def)
  obtain f2 where f2: "wf_Flush ops f1 = Some (Status_OK, f2)" "works f2" "written f2 = written f1"
    using Flush_works [OF w(2)] by blast
  have "TableBuilder_Flush ops r = Some (builder_state o1 bs (Suc n) [] f2)"
    using w(1) f2(1) assms(4) build_block_empty [OF assms(5), of cur] assms(2,3)
    by (simp add: TableBuilder_Flush_def r builder_state_def build_block_Nil block_offset_Suc data_handle_def
        fold_filter_calls_block option.map_comp comp_def take_Suc_conv_app_nth)
  moreover have "written f2 = before @ data_bytes o1 (take (Suc n) bs)"
    using assms(2,3) by (simp add: f2(3) w(3) f(2) take_Suc_conv_app_nth data_bytes_append) (simp add: data_bytes_def)
  ultimately show ?thesis using f2(2) by (auto simp: building_def)
qed

lemma Add_building:
  assumes "comparator (opt_comparator o1) key_ok lt" and "build_ok o1" and "\<forall>b\<in>set bs. b \<noteq> []"
    and "sorted_entries key_ok lt (concat bs)" and "length (data_bytes o1 bs) < 2 ^ 32"
    and "building o1 before bs n cur r" and "drop n bs = cut o1 cur (e # es)"
  shows "\<exists>r' n' cur'. TableBuilder_Add ops r (fst e) (snd e) = Some r' \<and> building o1 before bs n' cur' r'
    \<and> drop n' bs = cut o1 cur' es \<and> n' \<le> length bs"
proof -
  obtain f0 where r: "r = builder_state o1 bs n cur f0" and f: "works f0" "written f0 = before @ data_bytes o1 (take n bs)"
    using assms(6) by (auto simp: building_def)
  note next_block = cut_next [OF assms(7)]
  let ?done = "concat (take n bs) @ cur"
  have sorted: "key_ok (fst e)" "\<And>d. d \<in> set ?done \<Longrightarrow> key_ok (fst d) \<and> lt (fst d) (fst e)"
    using assms(4) unfolding next_block(3) sorted_entries_def by (auto simp: sorted_wrt_append)
  have last: "?done \<noteq> [] \<Longrightarrow> key_ok (last_key ?done) \<and> lt (last_key ?done) (fst e)"
    using sorted(2) [of "last ?done"] last_in_set [of ?done] by (auto simp: last_key_def)
  have "length ?done \<le> length (data_bytes o1 bs)"
    using length_concat_blocks [OF assms(2), of bs] by (simp only: next_block(3)) simp
  then have count: "0 <s (of_nat (length ?done) :: 64 word) \<longleftrightarrow> ?done \<noteq> []"
    using signed_count [of "length ?done"] assms(5) by simp
  have fields: "tb_num_entries r = of_nat (length ?done)" "tb_last_key r = last_key ?done" "tb_options r = o1"
    by (simp_all add: r builder_state_def)
  have cmp: "?done \<noteq> [] \<Longrightarrow> \<exists>c. cmp_Compare (opt_comparator o1) (fst e) (last_key ?done) = Some c \<and> c > 0"
    using last comparator.Compare_total [OF assms(1), of "fst e" "last_key ?done"] sorted(1) by blast
  have order: "(if 0 <s tb_num_entries r then do {
             c \<leftarrow> cmp_Compare (opt_comparator (tb_options r)) (fst e) (tb_last_key r);
             Some (c > 0)
           }
           else Some True) = Some True"
    unfolding fields count
  proof (cases "?done = []")
    case False
    then obtain c where c: "cmp_Compare (opt_comparator o1) (fst e) (last_key ?done) = Some c" "c > 0" using cmp by blast
    show "(if ?done \<noteq> [] then do { c \<leftarrow> cmp_Compare (opt_comparator o1) (fst e) (last_key ?done); Some (c > 0) } else Some True)
      = Some True"
      by (rule trans [OF if_P [OF False]]) (simp only: c bind.bind_lunit)
  qed (simp only: simp_thms if_False)
  let ?r1 = "(builder_state o1 bs n cur f0)\<lparr>tb_index_block := build_block (index_options o1) (take n (index_entries o1 bs)),
    tb_pending_index_entry := False\<rparr>"
  have pend: "\<exists>k. (if tb_pending_index_entry r then
               if \<not> BlockBuilder_empty (tb_data_block r) then None
               else do {
                 sep \<leftarrow> cmp_FindShortestSeparator (opt_comparator (tb_options r)) (tb_last_key r) (fst e);
                 add_index_entry r sep
               }
             else Some r) = Some (?r1\<lparr>tb_last_key := k\<rparr>)"
  proof (cases "cur = [] \<and> n \<noteq> 0")
    case True
    then have lk: "?done \<noteq> []" "last_key ?done = fst (last (bs ! (n - 1)))" "Suc (n - 1) = n" "n - 1 < length bs"
      using last_concat_take [OF next_block(1) _ assms(3)] next_block(1) by simp_all
    obtain sep where sep: "cmp_FindShortestSeparator (opt_comparator o1) (last_key ?done) (fst e) = Some sep"
      using comparator.separator [OF assms(1)] last [OF lk(1)] sorted(1) by blast
    have "index_key o1 bs (n - 1) = sep"
      using sep [unfolded lk(2)] next_block(1,2) True by (simp add: index_key_def lk(3))
    then have "take n (index_entries o1 bs) = take (n - 1) (index_entries o1 bs) @ [(sep, handle_bytes (data_handle o1 bs (n - 1)))]"
      using take_Suc_conv_app_nth [of "n - 1" "index_entries o1 bs"] lk(3,4) by (simp add: nth_index_entries)
    then show ?thesis
      using True sep data_handle_set [OF assms(5) lk(4)] build_block_empty [OF assms(2), of "[]"]
      by (auto simp: r builder_state_def add_index_entry_def BlockHandle_EncodeTo_eq build_block_snoc)
  next
    case False
    then show ?thesis by (intro exI [of _ "tb_last_key r"]) (auto simp: r builder_state_def)
  qed
  obtain k v where e: "e = (k, v)" by fastforce
  let ?r2 = "builder_state o1 bs n (cur @ [e]) f0"
  obtain x where x: "(if tb_pending_index_entry r then
               if \<not> BlockBuilder_empty (tb_data_block r) then None
               else do {
                 sep \<leftarrow> cmp_FindShortestSeparator (opt_comparator (tb_options r)) (tb_last_key r) (fst e);
                 add_index_entry r sep
               }
             else Some r) = Some (?r1\<lparr>tb_last_key := x\<rparr>)"
    using pend by blast
  have ok: "tb_closed r = False" "tb_ok r = True" by (simp_all add: r builder_state_def)
  let ?r3 = "let t = ?r1\<lparr>tb_last_key := x\<rparr>; t = t\<lparr>tb_filter_block := map_option (\<lambda>fb. AddKey fb (fst e)) (tb_filter_block t)\<rparr>
    in t\<lparr>tb_last_key := fst e, tb_num_entries := tb_num_entries t + 1, tb_data_block := BlockBuilder_Add (tb_data_block t) (fst e) (snd e)\<rparr>"
  have run: "TableBuilder_Add ops r (fst e) (snd e) =
      (if CurrentSizeEstimate (tb_data_block ?r3) \<ge> opt_block_size (tb_options ?r3) then TableBuilder_Flush ops ?r3 else Some ?r3)"
    unfolding TableBuilder_Add_def order x ok by (simp only: simp_thms if_False if_True bind.bind_lunit Let_def)
  have eq: "?r3 = ?r2"
    by (simp add: builder_state_def e build_block_snoc fold_filter_calls_key option.map_comp comp_def last_key_def)
  have "(CurrentSizeEstimate (tb_data_block ?r2) \<ge> opt_block_size (tb_options ?r2)) = full o1 (cur @ [e])"
    by (simp add: builder_state_def full_def)
  then have add: "TableBuilder_Add ops r (fst e) (snd e) = (if full o1 (cur @ [e]) then TableBuilder_Flush ops ?r2 else Some ?r2)"
    by (simp only: run eq)
  have b2: "building o1 before bs n (cur @ [e]) ?r2" using f by (auto simp: building_def)
  show ?thesis
  proof (cases "full o1 (cur @ [e])")
    case True
    then show ?thesis
      using add next_block(1,4) Flush_building [OF b2 next_block(1) _ _ assms(2,5)] by (metis Suc_leI snoc_eq_iff_butlast)
  next
    case False
    then show ?thesis using add next_block(1,5) b2 by (metis less_imp_le)
  qed
qed

lemma add_entries_building:
  assumes "comparator (opt_comparator o1) key_ok lt" and "build_ok o1" and "\<forall>b\<in>set bs. b \<noteq> []"
    and "sorted_entries key_ok lt (concat bs)" and "length (data_bytes o1 bs) < 2 ^ 32"
    and "building o1 before bs n cur r" and "drop n bs = cut o1 cur es" and "n \<le> length bs"
  shows "\<exists>r' n' cur'. add_entries ops es r = Some r' \<and> building o1 before bs n' cur' r' \<and> drop n' bs = cut o1 cur' [] \<and> n' \<le> length bs"
  using assms(6-8)
proof (induction es arbitrary: n cur r)
  case (Cons e es)
  from Add_building [OF assms(1-5) Cons.prems(1,2)]
  obtain r' n' cur' where "TableBuilder_Add ops r (fst e) (snd e) = Some r'" "building o1 before bs n' cur' r'"
    "drop n' bs = cut o1 cur' es" "n' \<le> length bs" by blast
  then show ?case using Cons.IH by (cases e) auto
next
  case Nil
  then show ?case using add_entries.simps(1) by blast
qed

section \<open>Finishing\<close>

lemma Flush_end:
  assumes "building o1 before bs n cur r" and "drop n bs = cut o1 cur []" and "n \<le> length bs" and "build_ok o1"
    and "length (data_bytes o1 bs) < 2 ^ 32"
  shows "\<exists>r'. TableBuilder_Flush ops r = Some r' \<and> building o1 before bs (length bs) [] r'"
proof (cases "cur = []")
  case True
  then have "n = length bs" using assms(2,3) by simp
  moreover have "TableBuilder_Flush ops r = Some r"
    using assms(1) True build_block_empty [OF assms(4), of "[]"] by (auto simp: building_def TableBuilder_Flush_def builder_state_def)
  ultimately show ?thesis using assms(1) True by auto
next
  case False
  then have d: "drop n bs = [cur]" using assms(2) by simp
  then have n: "n < length bs" by (metis drop_all linorder_not_less list.distinct(1))
  then have "bs ! n = cur" "Suc n = length bs" using d Cons_nth_drop_Suc [OF n] by auto
  then show ?thesis using Flush_building [OF assms(1) n _ False assms(4,5)] by simp
qed

text \<open>The parts of a table that is shorter than four gigabytes.\<close>

lemma Finish_filter_works:
  assumes "works (tb_file r)" and "tb_status r = Status_OK" and "length (filter_part o1 bs) < 2 ^ 32"
    and "tb_filter_block r = map_option (\<lambda>p. fold add_block (filter_calls o1 bs (length bs) []) (FilterBlockBuilder_new p)) (opt_filter_policy o1)"
    and "tb_offset r = of_nat (length (data_bytes o1 bs))"
  shows "\<exists>f fb h. Finish_filter_block ops r = Some (r\<lparr>tb_file := f, tb_filter_block := fb,
        tb_offset := of_nat (length (data_bytes o1 bs) + length (filter_part o1 bs))\<rparr>, h)
    \<and> works f \<and> written f = written (tb_file r) @ filter_part o1 bs
    \<and> (fb = None \<longleftrightarrow> opt_filter_policy o1 = None) \<and> (\<forall>p. opt_filter_policy o1 = Some p \<longrightarrow> h = filter_handle o1 p bs)"
proof (cases "opt_filter_policy o1")
  case None
  then show ?thesis using assms by (intro exI [of _ "tb_file r"] exI [of _ None]) (simp add: Finish_filter_block_def filter_part_def)
next
  case (Some p)
  let ?c = "filter_contents o1 p bs"
  obtain fb where fb: "FilterBlock_Finish (fold add_block (filter_calls o1 bs (length bs) []) (FilterBlockBuilder_new p)) = (?c, fb)"
    unfolding filter_contents_def by (metis prod.collapse)
  let ?r = "r\<lparr>tb_filter_block := Some fb\<rparr>"
  have "length ?c < 2 ^ 62" using assms(3) Some by (simp add: filter_part_def)
  then obtain f where f: "WriteRawBlock ops ?r ?c kNoCompression =
      Some (?r\<lparr>tb_file := f, tb_offset := tb_offset ?r + of_nat (length ?c + 5)\<rparr>, \<lparr>bh_offset = tb_offset ?r, bh_size = of_nat (length ?c)\<rparr>)"
    "works f" "written f = written (tb_file r) @ raw_block ?c"
    using WriteRawBlock_works [of ?r ?c] assms(1,2) by auto
  then show ?thesis
    using assms(2,4,5) Some fb
    by (intro exI [of _ f] exI [of _ "Some fb"]) (simp add: Finish_filter_block_def filter_part_def filter_handle_def)
qed

lemma Finish_metaindex_works:
  assumes "works (tb_file r)" and "tb_status r = Status_OK" and "length (blocks_bytes o1 bs) < 2 ^ 32" and "build_ok o1"
    and "tb_options r = o1" and "tb_filter_block r = None \<longleftrightarrow> opt_filter_policy o1 = None"
    and "\<forall>p. opt_filter_policy o1 = Some p \<longrightarrow> h = filter_handle o1 p bs"
    and "tb_offset r = of_nat (length (data_bytes o1 bs) + length (filter_part o1 bs))"
  shows "\<exists>f. Finish_metaindex_block ops r h = Some (r\<lparr>tb_file := f, tb_compressed_output := [],
        tb_offset := tb_offset r + of_nat (length (meta_contents o1 bs) + 5)\<rparr>, meta_handle o1 bs)
    \<and> works f \<and> written f = written (tb_file r) @ raw_block (meta_contents o1 bs)"
proof -
  have len: "length (meta_contents o1 bs) < 2 ^ 62" using assms(3) by (simp add: blocks_bytes_def)
  have set: "handle_set (filter_handle o1 p bs)" if "opt_filter_policy o1 = Some p" for p
    using assms(3) that of_nat_not_minus_1
    by (simp add: blocks_bytes_def handle_set_def filter_handle_def filter_part_def)
  have "(if tb_filter_block r \<noteq> None then do {
             policy \<leftarrow> opt_filter_policy (tb_options r);
             let key = cstr ''filter.'' @ fp_Name policy;
             handle_encoding \<leftarrow> BlockHandle_EncodeTo h [];
             Some (BlockBuilder_Add (BlockBuilder_new (tb_options r)) key handle_encoding)
           }
           else Some (BlockBuilder_new (tb_options r))) = Some (build_block o1 (meta_entries o1 bs))"
    using assms(5,6,7) set
    by (cases "opt_filter_policy o1") (auto simp: build_block_def meta_entries_def BlockHandle_EncodeTo_eq)
  moreover obtain f where "WriteBlock ops r (build_block o1 (meta_entries o1 bs)) =
      Some (r\<lparr>tb_file := f, tb_offset := tb_offset r + of_nat (length (meta_contents o1 bs) + 5), tb_compressed_output := []\<rparr>,
        BlockBuilder_new o1, \<lparr>bh_offset = tb_offset r, bh_size = of_nat (length (meta_contents o1 bs))\<rparr>)"
    "works f" "written f = written (tb_file r) @ raw_block (meta_contents o1 bs)"
    using WriteBlock_works [OF assms(1,2,4), of "meta_entries o1 bs"] len assms(4,5) unfolding meta_contents_def by auto
  ultimately show ?thesis
    using assms(2,8) by (intro exI [of _ f]) (simp add: Finish_metaindex_block_def Let_def meta_handle_def)
qed

lemma Finish_index_works:
  assumes "comparator (opt_comparator o1) key_ok lt" and "build_ok o1" and "\<forall>b\<in>set bs. b \<noteq> []"
    and "sorted_entries key_ok lt (concat bs)" and "length (blocks_bytes o1 bs) < 2 ^ 32"
    and "works (tb_file r)" and "tb_status r = Status_OK" and "tb_options r = o1"
    and "tb_index_block r = build_block (index_options o1) (take (length bs - 1) (index_entries o1 bs))"
    and "tb_last_key r = last_key (concat bs)"
    and "tb_pending_index_entry r = (bs \<noteq> [])" and "bs \<noteq> [] \<longrightarrow> tb_pending_handle r = data_handle o1 bs (length bs - 1)"
    and "tb_offset r = of_nat (length (data_bytes o1 bs) + length (filter_part o1 bs) + (length (meta_contents o1 bs) + 5))"
  shows "\<exists>f k. Finish_index_block ops r = Some (r\<lparr>tb_file := f, tb_compressed_output := [], tb_last_key := k,
        tb_index_block := BlockBuilder_new (index_options o1), tb_pending_index_entry := False,
        tb_offset := tb_offset r + of_nat (length (index_contents o1 bs) + 5)\<rparr>, index_handle o1 bs)
    \<and> works f \<and> written f = written (tb_file r) @ raw_block (index_contents o1 bs)"
proof -
  let ?idx = "index_options o1" and ?es = "index_entries o1 bs"
  have len: "length (index_contents o1 bs) < 2 ^ 62" and data: "length (data_bytes o1 bs) < 2 ^ 32"
    using assms(5) by (simp_all add: blocks_bytes_def)
  have "\<exists>k. (if tb_pending_index_entry r then do {
             succ \<leftarrow> cmp_FindShortSuccessor (opt_comparator (tb_options r)) (tb_last_key r);
             add_index_entry r succ
           }
           else Some r) = Some (r\<lparr>tb_index_block := build_block ?idx ?es, tb_pending_index_entry := False, tb_last_key := k\<rparr>)"
  proof (cases "bs = []")
    case True
    then show ?thesis using assms(9,11) by (intro exI [of _ "tb_last_key r"], cases r) (simp add: index_entries_def)
  next
    case False
    let ?m = "length bs - 1"
    have m: "?m < length bs" "Suc ?m = length bs" using False by simp_all
    have "concat bs = concat (take (Suc ?m) bs)" by (simp add: m(2))
    then have "concat bs = concat (take ?m bs) @ bs ! ?m" by (simp only: take_Suc_conv_app_nth [OF m(1)] concat_append) simp
    moreover have "bs ! ?m \<noteq> []" using assms(3) m by simp
    ultimately have lk: "concat bs \<noteq> []" "last_key (concat bs) = fst (last (bs ! ?m))" by (simp_all add: last_key_def)
    have "key_ok (last_key (concat bs))" using assms(4) last_in_set [OF lk(1)] lk(1) unfolding sorted_entries_def last_key_def by (simp only: if_False)
    from comparator.successor [OF assms(1) this]
    obtain succ where succ: "cmp_FindShortSuccessor (opt_comparator o1) (last_key (concat bs)) = Some succ" by blast
    have "index_key o1 bs ?m = succ" using succ [unfolded lk(2)] m by (simp add: index_key_def)
    then have "?es = take ?m ?es @ [(succ, handle_bytes (data_handle o1 bs ?m))]"
      using take_Suc_conv_app_nth [of ?m ?es] m nth_index_entries [OF m(1), of o1] by simp
    then have "build_block ?idx ?es = BlockBuilder_Add (tb_index_block r) succ (handle_bytes (data_handle o1 bs ?m))"
      by (metis assms(9) build_block_snoc)
    then show ?thesis
      using False succ assms(8,10,11,12) data_handle_set [OF data m(1)]
      by (intro exI [of _ succ]) (simp add: add_index_entry_def BlockHandle_EncodeTo_eq)
  qed
  then obtain k where k: "(if tb_pending_index_entry r then do {
             succ \<leftarrow> cmp_FindShortSuccessor (opt_comparator (tb_options r)) (tb_last_key r);
             add_index_entry r succ
           }
           else Some r) = Some (r\<lparr>tb_index_block := build_block ?idx ?es, tb_pending_index_entry := False, tb_last_key := k\<rparr>)"
    by blast
  let ?r = "r\<lparr>tb_index_block := build_block ?idx ?es, tb_pending_index_entry := False, tb_last_key := k\<rparr>"
  obtain f where f: "WriteBlock ops ?r (build_block ?idx ?es) =
      Some (?r\<lparr>tb_file := f, tb_offset := tb_offset ?r + of_nat (length (index_contents o1 bs) + 5), tb_compressed_output := []\<rparr>,
        BlockBuilder_new ?idx, \<lparr>bh_offset = tb_offset ?r, bh_size = of_nat (length (index_contents o1 bs))\<rparr>)"
    "works f" "written f = written (tb_file r) @ raw_block (index_contents o1 bs)"
    using WriteBlock_works [of ?r ?idx ?es] len assms(2,6,7,8) unfolding index_contents_def by auto
  have ok: "(\<not> tb_ok r) = False" using assms(7) by simp
  have "Finish_index_block ops r = Some (r\<lparr>tb_file := f, tb_compressed_output := [], tb_last_key := k,
        tb_index_block := BlockBuilder_new ?idx, tb_pending_index_entry := False,
        tb_offset := tb_offset r + of_nat (length (index_contents o1 bs) + 5)\<rparr>, index_handle o1 bs)"
    unfolding Finish_index_block_def k ok using f(1) assms(13) by (simp add: index_handle_def)
  then show ?thesis using f(2,3) by blast
qed

lemma build_table_works:
  assumes "comparator (opt_comparator o1) key_ok lt" and "build_ok o1" and "sorted_entries key_ok lt es"
    and "length (table_bytes o1 es) < 2 ^ 32" and "works f0"
  shows "\<exists>r. build_table ops o1 f0 es = Some (Status_OK, r) \<and> works (tb_file r) \<and> written (tb_file r) = written f0 @ table_bytes o1 es
    \<and> tb_offset r = of_nat (length (table_bytes o1 es)) \<and> tb_num_entries r = of_nat (length es)"
proof -
  define bs where "bs = cut o1 [] es"
  have size: "length (blocks_bytes o1 bs) < 2 ^ 32" and data: "length (data_bytes o1 bs) < 2 ^ 32"
    and filter: "length (filter_part o1 bs) < 2 ^ 32"
    using assms(4) by (simp_all add: table_bytes_def bs_def blocks_bytes_def)
  have ne: "\<forall>b\<in>set bs. b \<noteq> []" using cut_nonempty bs_def by blast
  have cat: "concat bs = es" by (simp add: bs_def concat_cut)
  have sorted: "sorted_entries key_ok lt (concat bs)" using assms(3) cat by simp
  obtain r1 n cur where r1: "add_entries ops es (TableBuilder_new o1 f0) = Some r1" "building o1 (written f0) bs n cur r1"
    "drop n bs = cut o1 cur []" "n \<le> length bs"
    using add_entries_building [OF assms(1,2) ne sorted data building_new [OF assms(5)], of es] by (auto simp: bs_def)
  obtain r2 where r2: "TableBuilder_Flush ops r1 = Some r2" "building o1 (written f0) bs (length bs) [] r2"
    using Flush_end [OF r1(2-4) assms(2) data] by blast
  obtain f1 where f1: "r2 = builder_state o1 bs (length bs) [] f1" "works f1" "written f1 = written f0 @ data_bytes o1 bs"
    using r2(2) by (auto simp: building_def)
  let ?r = "r2\<lparr>tb_closed := True\<rparr>"
  obtain f2 fb h where f2: "Finish_filter_block ops ?r = Some (?r\<lparr>tb_file := f2, tb_filter_block := fb,
        tb_offset := of_nat (length (data_bytes o1 bs) + length (filter_part o1 bs))\<rparr>, h)"
    "works f2" "written f2 = written f1 @ filter_part o1 bs" "fb = None \<longleftrightarrow> opt_filter_policy o1 = None"
    "\<forall>p. opt_filter_policy o1 = Some p \<longrightarrow> h = filter_handle o1 p bs"
    using Finish_filter_works [of ?r o1 bs] f1(2) filter by (auto simp: f1(1) builder_state_def block_offset_all)
  let ?r2 = "?r\<lparr>tb_file := f2, tb_filter_block := fb, tb_offset := of_nat (length (data_bytes o1 bs) + length (filter_part o1 bs))\<rparr>"
  obtain f3 where f3: "Finish_metaindex_block ops ?r2 h = Some (?r2\<lparr>tb_file := f3, tb_compressed_output := [],
        tb_offset := tb_offset ?r2 + of_nat (length (meta_contents o1 bs) + 5)\<rparr>, meta_handle o1 bs)"
    "works f3" "written f3 = written f2 @ raw_block (meta_contents o1 bs)"
    using Finish_metaindex_works [of ?r2 o1 bs h] f2(2,4,5) size assms(2) by (auto simp: f1(1) builder_state_def)
  let ?r3 = "?r2\<lparr>tb_file := f3, tb_compressed_output := [], tb_offset := tb_offset ?r2 + of_nat (length (meta_contents o1 bs) + 5)\<rparr>"
  have pend: "tb_pending_index_entry ?r3 = (bs \<noteq> [])" "bs \<noteq> [] \<longrightarrow> tb_pending_handle ?r3 = data_handle o1 bs (length bs - 1)"
    by (simp_all add: f1(1) builder_state_def)
  obtain f4 k where f4: "Finish_index_block ops ?r3 = Some (?r3\<lparr>tb_file := f4, tb_compressed_output := [], tb_last_key := k,
        tb_index_block := BlockBuilder_new (index_options o1), tb_pending_index_entry := False,
        tb_offset := tb_offset ?r3 + of_nat (length (index_contents o1 bs) + 5)\<rparr>, index_handle o1 bs)"
    "works f4" "written f4 = written f3 @ raw_block (index_contents o1 bs)"
    using Finish_index_works [OF assms(1,2) ne sorted size, of ?r3, OF _ _ _ _ _ pend] f3(2)
    by (auto simp: f1(1) builder_state_def)
  let ?r4 = "?r3\<lparr>tb_file := f4, tb_compressed_output := [], tb_last_key := k,
        tb_index_block := BlockBuilder_new (index_options o1), tb_pending_index_entry := False,
        tb_offset := tb_offset ?r3 + of_nat (length (index_contents o1 bs) + 5)\<rparr>"
  let ?ft = "\<lparr>ft_metaindex_handle = meta_handle o1 bs, ft_index_handle = index_handle o1 bs\<rparr>"
  obtain f5 where f5: "wf_Append ops f4 (footer_bytes ?ft) = Some (Status_OK, f5)" "works f5"
    "written f5 = written f4 @ footer_bytes ?ft"
    using Append_works [OF f4(2)] by blast
  have "length (data_bytes o1 bs) + length (filter_part o1 bs) + (length (meta_contents o1 bs) + 5) < 2 ^ 32"
    "length (index_contents o1 bs) < 2 ^ 32"
    using size by (simp_all add: blocks_bytes_def)
  then have "handle_set (meta_handle o1 bs)" "handle_set (index_handle o1 bs)"
    by (auto simp: handle_set_def meta_handle_def index_handle_def intro!: of_nat_not_minus_1 simp del: of_nat_add)
  then have foot: "Finish_footer ops ?r4 (meta_handle o1 bs) (index_handle o1 bs)
      = Some (?r4\<lparr>tb_file := f5, tb_offset := tb_offset ?r4 + 48\<rparr>)"
    using f5(1) by (simp add: Finish_footer_def Footer_EncodeTo_eq f1(1) builder_state_def)
  have "length (table_bytes o1 es) = length (data_bytes o1 bs) + length (filter_part o1 bs)
      + (length (meta_contents o1 bs) + 5) + (length (index_contents o1 bs) + 5) + 48"
    by (simp add: table_bytes_def bs_def blocks_bytes_def)
  then have "tb_offset (?r4\<lparr>tb_offset := tb_offset ?r4 + 48\<rparr>) = of_nat (length (table_bytes o1 es))" by simp
  moreover have "build_table ops o1 f0 es = Some (Status_OK, ?r4\<lparr>tb_file := f5, tb_offset := tb_offset ?r4 + 48\<rparr>)"
    unfolding build_table_def TableBuilder_Finish_def r1(1) bind.bind_lunit r2(1)
    using f2(1) f3(1) f4(1) foot by (simp add: f1(1) builder_state_def)
  moreover have "written f5 = written f0 @ table_bytes o1 es"
    by (simp add: f5(3) f4(3) f3(3) f2(3) f1(3) table_bytes_def bs_def blocks_bytes_def)
  ultimately show ?thesis using f5(2) cat by (simp add: f1(1) builder_state_def)
qed

end

end
