(* ===== verification/LDB_Two_Level_Props.thy ===== *)
theory LDB_Two_Level_Props
  imports LDB_Two_Level "HOL-Library.Multiset"
begin

text \<open>
  The two-level iterator keeps the contract of iterators, over the concatenation of the
  blocks, for any index and data iterators that keep it.
\<close>

section \<open>Wrapped iterators\<close>

definition wrapped :: "'i Iterator \<Rightarrow> entry list \<Rightarrow> ('i \<Rightarrow> nat \<Rightarrow> bool) \<Rightarrow> 'i IteratorWrapper \<Rightarrow> nat \<Rightarrow> bool" where
  "wrapped ops es stands w p \<longleftrightarrow>
     (\<exists>it. iw_iter w = Some it \<and> stands it p) \<and> iw_valid w = (p < length es)
     \<and> (p < length es \<longrightarrow> iw_key w = fst (es ! p))"

context iterator begin

lemma iw_Update_wrapped:
  assumes "iw_iter w = Some it" and "stands it p"
  shows "\<exists>w'. iw_Update ops w = Some w' \<and> wrapped ops es stands w' p"
  using assms by (cases "p < length es") (simp_all add: iw_Update_def wrapped_def Valid_iff [OF assms(2)] key_eq [OF assms(2)] Let_def)

lemma iw_move_wrapped:
  assumes "iw_iter w = Some it" and "\<exists>it'. f it = Some it' \<and> stands it' p"
  shows "\<exists>w'. iw_move ops f w = Some w' \<and> wrapped ops es stands w' p"
  using assms iw_Update_wrapped by (fastforce simp: iw_move_def)

lemma iw_moves:
  assumes "wrapped ops es stands w p"
  shows "\<exists>w'. iw_SeekToFirst ops w = Some w' \<and> wrapped ops es stands w' 0"
    and "\<exists>w'. iw_SeekToLast ops w = Some w' \<and> wrapped ops es stands w' (length es - 1)"
    and "key_ok target \<Longrightarrow> \<exists>w'. iw_Seek ops target w = Some w' \<and> wrapped ops es stands w' (first_ge lt target es)"
    and "p < length es \<Longrightarrow> \<exists>w'. iw_Next ops w = Some w' \<and> wrapped ops es stands w' (Suc p)"
    and "p < length es \<Longrightarrow> \<exists>w'. iw_Prev ops w = Some w' \<and> wrapped ops es stands w' (if p = 0 then length es else p - 1)"
proof -
  obtain it where it: "iw_iter w = Some it" "stands it p" using assms by (auto simp: wrapped_def)
  show "\<exists>w'. iw_SeekToFirst ops w = Some w' \<and> wrapped ops es stands w' 0"
    unfolding iw_SeekToFirst_def by (rule iw_move_wrapped [where f = "i_SeekToFirst ops", OF it(1) SeekToFirst_stands [OF it(2)]])
  show "\<exists>w'. iw_SeekToLast ops w = Some w' \<and> wrapped ops es stands w' (length es - 1)"
    unfolding iw_SeekToLast_def by (rule iw_move_wrapped [where f = "i_SeekToLast ops", OF it(1) SeekToLast_stands [OF it(2)]])
  show "\<exists>w'. iw_Seek ops target w = Some w' \<and> wrapped ops es stands w' (first_ge lt target es)" if "key_ok target"
    unfolding iw_Seek_def by (rule iw_move_wrapped [where f = "\<lambda>it. i_Seek ops it target", OF it(1) Seek_stands [OF it(2) that]])
  show "\<exists>w'. iw_Next ops w = Some w' \<and> wrapped ops es stands w' (Suc p)" if "p < length es"
    unfolding iw_Next_def by (rule iw_move_wrapped [where f = "i_Next ops", OF it(1) Next_stands [OF it(2) that]])
  show "\<exists>w'. iw_Prev ops w = Some w' \<and> wrapped ops es stands w' (if p = 0 then length es else p - 1)" if "p < length es"
    unfolding iw_Prev_def by (rule iw_move_wrapped [where f = "i_Prev ops", OF it(1) Prev_stands [OF it(2) that]])
qed

lemma wrapped_value: "wrapped ops es stands w p \<Longrightarrow> p < length es \<Longrightarrow> iw_value ops w = Some (snd (es ! p))"
  by (auto simp: wrapped_def iw_value_def value_eq)

lemma wrapped_key: "wrapped ops es stands w p \<Longrightarrow> p < length es \<Longrightarrow> iw_get_key w = Some (fst (es ! p))"
  by (auto simp: wrapped_def iw_get_key_def)

lemma wrapped_status: "wrapped ops es stands w p \<Longrightarrow> \<exists>s. iw_status ops w = Some s \<and> ok s"
  by (auto simp: wrapped_def iw_status_def status_ok)

lemma iw_Set_wrapped:
  "stands it p \<Longrightarrow> \<exists>w'. iw_Set ops (Some it) w = Some w' \<and> wrapped ops es stands w' p"
  using iw_Update_wrapped by (simp add: iw_Set_def)

end

section \<open>Two levels\<close>

locale two_level = comparator cmp key_ok lt + index: iterator iops ies istands key_ok lt
  for cmp :: Comparator and key_ok lt and iops :: "'i Iterator" and ies istands +
  fixes dops :: "'d Iterator" and bs :: "entry list list" and dstands :: "nat \<times> 'l \<Rightarrow> 'd \<Rightarrow> nat \<Rightarrow> bool"
    and bf :: "'a \<Rightarrow> ReadOptions \<Rightarrow> byte list \<Rightarrow> ('d \<times> 'a) option" and del :: "'d \<Rightarrow> 'a \<Rightarrow> 'a option"
    and good :: "'l multiset \<Rightarrow> 'a \<Rightarrow> bool" and options :: ReadOptions
  assumes data: "k < length bs \<Longrightarrow> iterator dops (bs ! k) (dstands (k, l)) key_ok lt"
    and opens: "good live a \<Longrightarrow> size live \<le> 1 \<Longrightarrow> k < length bs \<Longrightarrow>
      \<exists>d l a'. bf a options (snd (ies ! k)) = Some (d, a') \<and> good (add_mset l live) a' \<and> dstands (k, l) d (length (bs ! k))"
    and deletes: "good (add_mset l live) a \<Longrightarrow> dstands (k, l) d q \<Longrightarrow> k < length bs \<Longrightarrow> \<exists>a'. del d a = Some a' \<and> good live a'"
    and same_length: "length bs = length ies"
    and nonempty: "k < length bs \<Longrightarrow> bs ! k \<noteq> []"
    and keys_ok: "k < length bs \<Longrightarrow> e \<in> set (bs ! k) \<Longrightarrow> key_ok (fst e)" "k < length bs \<Longrightarrow> key_ok (fst (ies ! k))"
    and below: "k < length bs \<Longrightarrow> e \<in> set (bs ! k) \<Longrightarrow> \<not> lt (fst (ies ! k)) (fst e)"
    and above: "Suc k < length bs \<Longrightarrow> e \<in> set (bs ! Suc k) \<Longrightarrow> lt (fst (ies ! k)) (fst e)"
    and index_sorted: "sorted_wrt lt (map fst ies)"
    and handles: "j < length bs \<Longrightarrow> k < length bs \<Longrightarrow> snd (ies ! j) = snd (ies ! k) \<Longrightarrow> j = k"
begin

definition start :: "nat \<Rightarrow> nat" where
  "start k = length (concat (take k bs))"

lemma start_Suc: "k < length bs \<Longrightarrow> start (Suc k) = start k + length (bs ! k)"
  by (simp add: start_def take_Suc_conv_app_nth)

lemma start_0 [simp]: "start 0 = 0"
  by (simp add: start_def)

lemma start_end: "length bs \<le> k \<Longrightarrow> start k = length (concat bs)"
  by (simp add: start_def)

lemma start_less:
  assumes "k < length bs" and "q < length (bs ! k)"
  shows "start k + q < length (concat bs)" and "concat bs ! (start k + q) = bs ! k ! q"
proof -
  have "concat bs = concat (take k bs) @ bs ! k @ concat (drop (Suc k) bs)"
    by (metis assms(1) concat.simps(2) concat_append id_take_nth_drop)
  then show "start k + q < length (concat bs)" "concat bs ! (start k + q) = bs ! k ! q"
    using assms by (simp_all add: start_def nth_append)
qed

text \<open>
  The index stands at \<open>j\<close>, the data iterator at a position of a block, if there is one. The
  label \<open>l\<close> is what has to be cleaned up with it.
\<close>

definition data_at :: "('i, 'd, 'a) TwoLevelIterator \<Rightarrow> ((nat \<times> 'l) \<times> nat) option \<Rightarrow> bool" where
  "data_at t dat \<longleftrightarrow>
     (case dat of
        None \<Rightarrow> iw_iter (tl_data_iter t) = None \<and> \<not> iw_valid (tl_data_iter t) \<and> good {#} (tl_arg t)
      | Some ((k, l), q) \<Rightarrow> k < length bs \<and> tl_data_block_handle t = snd (ies ! k)
          \<and> wrapped dops (bs ! k) (dstands (k, l)) (tl_data_iter t) q \<and> good {#l#} (tl_arg t))"

definition core :: "('i, 'd, 'a) TwoLevelIterator \<Rightarrow> nat \<Rightarrow> ((nat \<times> 'l) \<times> nat) option \<Rightarrow> bool" where
  "core t j dat \<longleftrightarrow>
     tl_block_function t = bf \<and> tl_delete t = del \<and> tl_options t = options \<and> tl_status t = Status_OK
     \<and> wrapped iops ies istands (tl_index_iter t) j \<and> data_at t dat"

definition tl_stands :: "('i, 'd, 'a) TwoLevelIterator \<Rightarrow> nat \<Rightarrow> bool" where
  "tl_stands t p \<longleftrightarrow>
     (\<exists>j. core t j None) \<and> p = length (concat bs)
     \<or> (\<exists>j l q. core t j (Some ((j, l), q)) \<and> q < length (bs ! j) \<and> p = start j + q)"

lemma data_status:
  assumes "core t j dat"
  shows "iw_iter (tl_data_iter t) = None \<or> (\<exists>s. iw_status dops (tl_data_iter t) = Some s \<and> ok s)"
proof (cases dat)
  case (Some klq)
  then obtain k l q where k: "k < length bs" "wrapped dops (bs ! k) (dstands (k, l)) (tl_data_iter t) q"
    using assms by (auto simp: core_def data_at_def)
  from iterator.wrapped_status [OF data [OF k(1)] k(2)] show ?thesis by simp
qed (use assms in \<open>simp add: core_def data_at_def\<close>)

definition live :: "((nat \<times> 'l) \<times> nat) option \<Rightarrow> 'l multiset" where
  "live dat = (case dat of None \<Rightarrow> {#} | Some ((k, l), q) \<Rightarrow> {#l#})"

lemma size_live: "size (live dat) \<le> 1"
  by (auto simp: live_def split: option.splits)

lemma delete_data:
  assumes "core t j dat" and "good (live dat + M) a"
  shows "\<exists>a'. delete_data (t\<lparr>tl_arg := a, tl_data_block_handle := h\<rparr>) = Some a' \<and> good M a'"
proof (cases dat)
  case None
  then show ?thesis using assms by (simp add: core_def data_at_def delete_data_def live_def)
next
  case (Some klq)
  then obtain k l q where k: "dat = Some ((k, l), q)" "k < length bs" "wrapped dops (bs ! k) (dstands (k, l)) (tl_data_iter t) q"
    "tl_delete t = del"
    using assms(1) by (cases klq) (auto simp: core_def data_at_def)
  then obtain it where it: "iw_iter (tl_data_iter t) = Some it" "dstands (k, l) it q" by (auto simp: wrapped_def)
  have "good (add_mset l M) a" using assms(2) k(1) by (simp add: live_def)
  from deletes [OF this it(2) k(2)] show ?thesis using it(1) k(4) by (simp add: delete_data_def)
qed

lemma core_good: "core t j dat \<Longrightarrow> good (live dat) (tl_arg t)"
  by (auto simp: core_def data_at_def live_def split: option.splits)

lemma SetDataIterator_null:
  assumes "core t j dat"
  shows "\<exists>t'. SetDataIterator dops None t = Some t' \<and> core t' j None"
proof -
  have "good (live dat + {#}) (tl_arg t)" using core_good [OF assms] by simp
  from delete_data [OF assms this, of "tl_data_block_handle t"]
  obtain a' where "delete_data t = Some a'" "good {#} a'" by auto
  then show ?thesis
    using assms data_status [OF assms] by (auto simp: SetDataIterator_def core_def data_at_def iw_Set_def SaveError_def)
qed

lemma SetDataIterator_block:
  assumes "core t j dat" and "dstands (k, l) d q" and "k < length bs"
    and "t' = t\<lparr>tl_arg := a, tl_data_block_handle := snd (ies ! k)\<rparr>" and "good (add_mset l (live dat)) a"
  shows "\<exists>t''. SetDataIterator dops (Some d) t' = Some t'' \<and> core t'' j (Some ((k, l), q))"
proof -
  obtain w where w: "iw_Set dops (Some d) (tl_data_iter t') = Some w" "wrapped dops (bs ! k) (dstands (k, l)) w q"
    using iterator.iw_Set_wrapped [OF data [OF assms(3)] assms(2)] by blast
  have "good (live dat + {#l#}) a" using assms(5) by simp
  from delete_data [OF assms(1) this] obtain a' where "delete_data t' = Some a'" "good {#l#} a'" unfolding assms(4) by blast
  then show ?thesis
    using assms(1,3,4) w data_status [OF assms(1)] by (auto simp: SetDataIterator_def core_def data_at_def SaveError_def)
qed

lemma InitDataBlock_valid:
  assumes "core t j dat" and "j < length bs"
  shows "\<exists>t' l q. InitDataBlock iops dops t = Some t' \<and> core t' j (Some ((j, l), q))"
proof -
  have w: "wrapped iops ies istands (tl_index_iter t) j" using assms(1) by (simp add: core_def)
  have v: "iw_valid (tl_index_iter t)" "iw_value iops (tl_index_iter t) = Some (snd (ies ! j))"
    using w assms(2) index.wrapped_value by (simp_all add: wrapped_def same_length)
  show ?thesis
  proof (cases "iw_iter (tl_data_iter t) \<noteq> None \<and> snd (ies ! j) = tl_data_block_handle t")
    case True
    then obtain k l q where k: "dat = Some ((k, l), q)" "k < length bs" "tl_data_block_handle t = snd (ies ! k)"
      using assms(1) by (cases dat) (auto simp: core_def data_at_def)
    then have "k = j" using handles assms(2) True by metis
    then show ?thesis using True v assms(1) k(1) by (auto simp: InitDataBlock_def slice_compare_eq)
  next
    case False
    have b: "tl_block_function t = bf" "tl_options t = options" using assms(1) by (simp_all add: core_def)
    obtain d l a where o: "bf (tl_arg t) options (snd (ies ! j)) = Some (d, a)" "good (add_mset l (live dat)) a"
      "dstands (j, l) d (length (bs ! j))"
      using opens [OF core_good [OF assms(1)] size_live assms(2)] by blast
    show ?thesis
      using SetDataIterator_block [OF assms(1) o(3) assms(2) refl o(2)] False v b o(1)
      by (fastforce simp: InitDataBlock_def slice_compare_eq)
  qed
qed

lemma InitDataBlock_invalid:
  assumes "core t j dat" and "length bs \<le> j"
  shows "\<exists>t'. InitDataBlock iops dops t = Some t' \<and> core t' j None"
proof -
  have "\<not> iw_valid (tl_index_iter t)" using assms by (auto simp: core_def wrapped_def same_length)
  then show ?thesis using SetDataIterator_null [OF assms(1)] by (simp add: InitDataBlock_def)
qed

lemma core_index:
  "core t j dat \<Longrightarrow> wrapped iops ies istands w j' \<Longrightarrow> core (t\<lparr>tl_index_iter := w\<rparr>) j' dat"
  by (auto simp: core_def data_at_def split: option.splits)

lemma core_data:
  "core t j (Some ((k, l), q)) \<Longrightarrow> wrapped dops (bs ! k) (dstands (k, l)) w q' \<Longrightarrow> core (t\<lparr>tl_data_iter := w\<rparr>) j (Some ((k, l), q'))"
  by (auto simp: core_def data_at_def)

lemma core_dataD:
  "core t j (Some ((k, l), q)) \<Longrightarrow> k < length bs \<and> wrapped dops (bs ! k) (dstands (k, l)) (tl_data_iter t) q"
  by (auto simp: core_def data_at_def)

lemma on_data_null: "core t j None \<Longrightarrow> on_data f t = Some t"
  by (simp add: on_data_def core_def data_at_def)

lemma on_data_move:
  assumes "core t j (Some ((k, l), q))" and "\<exists>w'. f (tl_data_iter t) = Some w' \<and> wrapped dops (bs ! k) (dstands (k, l)) w' q'"
  shows "\<exists>t'. on_data f t = Some t' \<and> core t' j (Some ((k, l), q'))"
  using assms core_data [OF assms(1)] core_dataD [OF assms(1)] by (auto simp: on_data_def wrapped_def)

lemma data_moves:
  assumes "k < length bs" and "wrapped dops (bs ! k) (dstands (k, l)) w q"
  shows "\<exists>w'. iw_SeekToFirst dops w = Some w' \<and> wrapped dops (bs ! k) (dstands (k, l)) w' 0"
    and "\<exists>w'. iw_SeekToLast dops w = Some w' \<and> wrapped dops (bs ! k) (dstands (k, l)) w' (length (bs ! k) - 1)"
    and "key_ok target \<Longrightarrow> \<exists>w'. iw_Seek dops target w = Some w'
      \<and> wrapped dops (bs ! k) (dstands (k, l)) w' (first_ge lt target (bs ! k))"
    and "q < length (bs ! k) \<Longrightarrow> \<exists>w'. iw_Next dops w = Some w' \<and> wrapped dops (bs ! k) (dstands (k, l)) w' (Suc q)"
    and "q < length (bs ! k) \<Longrightarrow> \<exists>w'. iw_Prev dops w = Some w'
      \<and> wrapped dops (bs ! k) (dstands (k, l)) w' (if q = 0 then length (bs ! k) else q - 1)"
  using iterator.iw_moves [OF data [OF assms(1)] assms(2)] by blast+

text \<open>The step all operations have in common: after the index has moved, enter its block.\<close>

lemma enter_block:
  assumes "core t i dat" and "wrapped iops ies istands w j" and "j < length bs"
    and "\<forall>l w q. wrapped dops (bs ! j) (dstands (j, l)) w q \<longrightarrow> (\<exists>w'. f w = Some w' \<and> wrapped dops (bs ! j) (dstands (j, l)) w' q')"
  shows "\<exists>t' t'' l. InitDataBlock iops dops (t\<lparr>tl_index_iter := w\<rparr>) = Some t' \<and> on_data f t' = Some t''
    \<and> core t'' j (Some ((j, l), q'))"
proof -
  obtain t' l q where t': "InitDataBlock iops dops (t\<lparr>tl_index_iter := w\<rparr>) = Some t'" "core t' j (Some ((j, l), q))"
    using InitDataBlock_valid [OF core_index [OF assms(1,2)] assms(3)] by blast
  have "\<exists>w'. f (tl_data_iter t') = Some w' \<and> wrapped dops (bs ! j) (dstands (j, l)) w' q'"
    using assms(4) core_dataD [OF t'(2)] by blast
  from on_data_move [where f = f, OF t'(2) this] t'(1) show ?thesis by blast
qed

lemma enter_first:
  assumes "core t i dat" and "wrapped iops ies istands w j" and "j < length bs"
  shows "\<exists>t' t'' l. InitDataBlock iops dops (t\<lparr>tl_index_iter := w\<rparr>) = Some t' \<and> on_data (iw_SeekToFirst dops) t' = Some t''
    \<and> core t'' j (Some ((j, l), 0))"
  by (rule enter_block [OF assms]) (use data_moves(1) [OF assms(3)] in blast)

lemma enter_last:
  assumes "core t i dat" and "wrapped iops ies istands w j" and "j < length bs"
  shows "\<exists>t' t'' l. InitDataBlock iops dops (t\<lparr>tl_index_iter := w\<rparr>) = Some t' \<and> on_data (iw_SeekToLast dops) t' = Some t''
    \<and> core t'' j (Some ((j, l), length (bs ! j) - 1))"
  by (rule enter_block [OF assms]) (use data_moves(2) [OF assms(3)] in blast)

lemma enter_seek:
  assumes "core t i dat" and "wrapped iops ies istands w j" and "j < length bs" and "key_ok target"
  shows "\<exists>t' t'' l. InitDataBlock iops dops (t\<lparr>tl_index_iter := w\<rparr>) = Some t' \<and> on_data (iw_Seek dops target) t' = Some t''
    \<and> core t'' j (Some ((j, l), first_ge lt target (bs ! j)))"
  by (rule enter_block [OF assms(1-3)]) (use data_moves(3) [OF assms(3)] assms(4) in blast)

lemma leave_blocks:
  assumes "core t i dat" and "wrapped iops ies istands w j" and "length bs \<le> j"
  shows "\<exists>t'. InitDataBlock iops dops (t\<lparr>tl_index_iter := w\<rparr>) = Some t' \<and> on_data f t' = Some t' \<and> core t' j None"
  using InitDataBlock_invalid [OF core_index [OF assms(1,2)] assms(3)] on_data_null by blast

section \<open>Skipping\<close>

lemma index_valid: "core t j dat \<Longrightarrow> iw_valid (tl_index_iter t) = (j < length bs)"
  by (simp add: core_def wrapped_def same_length)

lemma data_valid: "core t j (Some ((k, l), q)) \<Longrightarrow> iw_valid (tl_data_iter t) = (q < length (bs ! k)) \<and> iw_iter (tl_data_iter t) \<noteq> None"
  by (auto simp: core_def data_at_def wrapped_def)

lemma data_null: "core t j None \<Longrightarrow> iw_iter (tl_data_iter t) = None"
  by (simp add: core_def data_at_def)

lemma skip_stays:
  assumes "core t j (Some ((j, l), q))" and "q < length (bs ! j)"
  shows "SkipEmptyDataBlocksForward iops dops t = Some t" and "SkipEmptyDataBlocksBackward iops dops t = Some t"
    and "tl_stands t (start j + q)"
proof -
  show "SkipEmptyDataBlocksForward iops dops t = Some t"
    using data_valid [OF assms(1)] assms(2) by (subst SkipEmptyDataBlocksForward.simps) auto
  show "SkipEmptyDataBlocksBackward iops dops t = Some t"
    using data_valid [OF assms(1)] assms(2) by (subst SkipEmptyDataBlocksBackward.simps) auto
  show "tl_stands t (start j + q)" using assms by (auto simp: tl_stands_def)
qed

lemma skip_ends:
  assumes "core t j None" and "length bs \<le> j"
  shows "\<exists>t'. SkipEmptyDataBlocksForward iops dops t = Some t' \<and> tl_stands t' (length (concat bs))"
    and "\<exists>t'. SkipEmptyDataBlocksBackward iops dops t = Some t' \<and> tl_stands t' (length (concat bs))"
proof -
  obtain t' where t': "SetDataIterator dops None t = Some t'" "core t' j None"
    using SetDataIterator_null [OF assms(1)] by blast
  have "tl_stands t' (length (concat bs))" using t'(2) by (auto simp: tl_stands_def)
  moreover have "SkipEmptyDataBlocksForward iops dops t = Some t'"
    using data_null [OF assms(1)] index_valid [OF assms(1)] assms(2) t'(1)
    by (subst SkipEmptyDataBlocksForward.simps) simp
  moreover have "SkipEmptyDataBlocksBackward iops dops t = Some t'"
    using data_null [OF assms(1)] index_valid [OF assms(1)] assms(2) t'(1)
    by (subst SkipEmptyDataBlocksBackward.simps) simp
  ultimately show "\<exists>t'. SkipEmptyDataBlocksForward iops dops t = Some t' \<and> tl_stands t' (length (concat bs))"
    "\<exists>t'. SkipEmptyDataBlocksBackward iops dops t = Some t' \<and> tl_stands t' (length (concat bs))" by blast+
qed

lemma skip_forward:
  assumes "core t j (Some ((j, l), q))" and "q \<le> length (bs ! j)"
  shows "\<exists>t'. SkipEmptyDataBlocksForward iops dops t = Some t' \<and> tl_stands t' (start j + q)"
proof (cases "q < length (bs ! j)")
  case True
  then show ?thesis using skip_stays [OF assms(1)] by blast
next
  case False
  then have q: "q = length (bs ! j)" using assms(2) by simp
  have j: "j < length bs" using core_dataD [OF assms(1)] by simp
  then have ji: "j < length ies" by (simp add: same_length)
  have "wrapped iops ies istands (tl_index_iter t) j" using assms(1) by (simp add: core_def)
  from index.iw_moves(4) [OF this ji]
  obtain w where w: "iw_Next iops (tl_index_iter t) = Some w" "wrapped iops ies istands w (Suc j)" by blast
  have step: "SkipEmptyDataBlocksForward iops dops t = (do {
      t \<leftarrow> InitDataBlock iops dops (t\<lparr>tl_index_iter := w\<rparr>);
      t \<leftarrow> on_data (iw_SeekToFirst dops) t;
      SkipEmptyDataBlocksForward iops dops t })"
    using data_valid [OF assms(1)] False index_valid [OF assms(1)] j w(1)
    by (subst SkipEmptyDataBlocksForward.simps) simp
  show ?thesis
  proof (cases "Suc j < length bs")
    case True
    from enter_first [OF assms(1) w(2) True]
    obtain t1 t2 l where t: "InitDataBlock iops dops (t\<lparr>tl_index_iter := w\<rparr>) = Some t1"
      "on_data (iw_SeekToFirst dops) t1 = Some t2" "core t2 (Suc j) (Some ((Suc j, l), 0))" by blast
    have "0 < length (bs ! Suc j)" using nonempty [OF True] by simp
    from skip_stays [OF t(3) this] show ?thesis by (simp add: step t(1,2) start_Suc [OF j] q)
  next
    case False
    from leave_blocks [OF assms(1) w(2), of "iw_SeekToFirst dops"] False
    obtain t1 where t: "InitDataBlock iops dops (t\<lparr>tl_index_iter := w\<rparr>) = Some t1"
      "on_data (iw_SeekToFirst dops) t1 = Some t1" "core t1 (Suc j) None" by auto
    have "start j + q = length (concat bs)"
      using start_Suc [OF j] start_end [of "Suc j"] False q by simp
    then show ?thesis using skip_ends(1) [OF t(3)] False by (simp add: step t(1,2))
  qed
qed

lemma skip_backward:
  assumes "core t j (Some ((j, l), length (bs ! j)))"
  shows "\<exists>t'. SkipEmptyDataBlocksBackward iops dops t = Some t'
    \<and> tl_stands t' (if j = 0 then length (concat bs) else start j - 1)"
proof -
  have j: "j < length bs" using core_dataD [OF assms(1)] by simp
  then have ji: "j < length ies" by (simp add: same_length)
  have "wrapped iops ies istands (tl_index_iter t) j" using assms(1) by (simp add: core_def)
  from index.iw_moves(5) [OF this ji]
  obtain w where w: "iw_Prev iops (tl_index_iter t) = Some w"
    "wrapped iops ies istands w (if j = 0 then length ies else j - 1)" by blast
  have step: "SkipEmptyDataBlocksBackward iops dops t = (do {
      t \<leftarrow> InitDataBlock iops dops (t\<lparr>tl_index_iter := w\<rparr>);
      t \<leftarrow> on_data (iw_SeekToLast dops) t;
      SkipEmptyDataBlocksBackward iops dops t })"
    using data_valid [OF assms(1)] index_valid [OF assms(1)] j w(1)
    by (subst SkipEmptyDataBlocksBackward.simps) simp
  show ?thesis
  proof (cases j)
    case 0
    from leave_blocks [OF assms(1) w(2), of "iw_SeekToLast dops"] 0
    obtain t1 where t: "InitDataBlock iops dops (t\<lparr>tl_index_iter := w\<rparr>) = Some t1"
      "on_data (iw_SeekToLast dops) t1 = Some t1" "core t1 (length bs) None" by (auto simp: same_length)
    then show ?thesis using skip_ends(2) [OF t(3)] 0 by (simp add: step t(1,2))
  next
    case (Suc i)
    then have i: "i < length bs" using j by simp
    have "wrapped iops ies istands w i" using w(2) Suc by simp
    from enter_last [OF assms(1) this i]
    obtain t1 t2 l where t: "InitDataBlock iops dops (t\<lparr>tl_index_iter := w\<rparr>) = Some t1"
      "on_data (iw_SeekToLast dops) t1 = Some t2" "core t2 i (Some ((i, l), length (bs ! i) - 1))" by blast
    have l: "0 < length (bs ! i)" using nonempty [OF i] by simp
    then have "length (bs ! i) - 1 < length (bs ! i)" by simp
    from skip_stays [OF t(3) this] l show ?thesis by (simp add: step t(1,2) start_Suc [OF i] Suc)
  qed
qed

section \<open>Seeking over the blocks\<close>

lemma takeWhile_parts:
  "(\<forall>e\<in>set A. P e) \<Longrightarrow> C = [] \<or> \<not> P (hd C) \<Longrightarrow> length (takeWhile P (A @ B @ C)) = length A + length (takeWhile P B)"
proof (induction A)
  case Nil
  show ?case
  proof (cases "\<forall>e\<in>set B. P e")
    case True
    moreover have "takeWhile P C = []" using Nil.prems(2) by (cases C) auto
    ultimately show ?thesis by (simp add: takeWhile_append2 takeWhile_eq_all_conv [THEN iffD2])
  next
    case False
    then show ?thesis by (auto simp: takeWhile_append1)
  qed
qed simp

lemma lt_index:
  assumes "i < j" and "j < length bs"
  shows "lt (fst (ies ! i)) (fst (ies ! j))"
  using sorted_wrt_nth_less [OF index_sorted, of i j] assms by (simp add: same_length)

lemma first_ge_blocks:
  assumes "key_ok target" and "j = first_ge lt target ies"
  shows "first_ge lt target (concat bs) = (if j < length bs then start j + first_ge lt target (bs ! j) else length (concat bs))"
proof -
  have before: "lt (fst e) target" if "e \<in> set (concat (take j bs))" for e
  proof -
    have "\<exists>b \<in> set (take j bs). e \<in> set b" using that unfolding set_concat by blast
    then obtain b where "b \<in> set (take j bs)" "e \<in> set b" by blast
    moreover from this(1) obtain i where "i < length (take j bs)" "take j bs ! i = b" unfolding in_set_conv_nth by blast
    ultimately have i: "i < j" "i < length bs" "e \<in> set (bs ! i)" by simp_all
    have "lt (fst (ies ! i)) target"
      using i(1) assms(2) nth_mem [of i "takeWhile (\<lambda>e. lt (fst e) target) ies"]
      by (auto simp: first_ge_def takeWhile_nth dest: set_takeWhileD)
    then show ?thesis
      using le_less_trans [of "fst e" "fst (ies ! i)" target] below [OF i(2,3)] keys_ok(1) [OF i(2,3)] keys_ok(2) [OF i(2)] assms(1)
      by blast
  qed
  show ?thesis
  proof (cases "j < length bs")
    case False
    then show ?thesis using before by (simp add: first_ge_def takeWhile_eq_all_conv [THEN iffD2])
  next
    case True
    have not_less: "\<not> lt (fst (ies ! j)) target"
      using assms(2) True unfolding first_ge_def same_length by (metis nth_length_takeWhile)
    let ?C = "concat (drop (Suc j) bs)"
    have "\<not> lt (fst (hd ?C)) target" if "?C \<noteq> []"
    proof -
      have "\<exists>k. Suc j \<le> k \<and> k < length bs \<and> hd ?C \<in> set (bs ! k)"
      proof -
        have "hd ?C \<in> set ?C" using that by (rule hd_in_set)
        then obtain b where "b \<in> set (drop (Suc j) bs)" "hd ?C \<in> set b" unfolding set_concat by blast
        moreover from this(1) obtain i where "i < length (drop (Suc j) bs)" "drop (Suc j) bs ! i = b"
          unfolding in_set_conv_nth by blast
        ultimately have "i < length bs - Suc j" "hd ?C \<in> set (bs ! (Suc j + i))"
          using Suc_leI [OF True] by simp_all
        then show ?thesis by (intro exI [of _ "Suc j + i"]) simp
      qed
      then obtain k where k: "Suc j \<le> k" "k < length bs" "hd ?C \<in> set (bs ! k)" by blast
      from k(1) obtain k' where k': "k = Suc k'" "j \<le> k'" by (cases k) auto
      have l: "lt (fst (ies ! k')) (fst (hd ?C))" using above [of k' "hd ?C"] k k' by simp
      have ok: "key_ok (fst (ies ! k'))" "key_ok (fst (hd ?C))" "key_ok (fst (ies ! j))"
        using keys_ok(2) [of k'] keys_ok(1) [OF k(2,3)] keys_ok(2) [OF True] k(2) k'(1) by simp_all
      have "lt (fst (ies ! j)) (fst (hd ?C))"
      proof (cases "k' = j")
        case False
        then have "lt (fst (ies ! j)) (fst (ies ! k'))" using lt_index [of j k'] k'(2) k(2) k'(1) by simp
        then show ?thesis using less_trans [OF ok(3,1,2)] l by blast
      qed (use l in simp)
      then show ?thesis using not_less less_trans [OF ok(3,2) assms(1)] by blast
    qed
    then have "length (takeWhile (\<lambda>e. lt (fst e) target) (concat (take j bs) @ bs ! j @ ?C))
        = length (concat (take j bs)) + length (takeWhile (\<lambda>e. lt (fst e) target) (bs ! j))"
      by (intro takeWhile_parts ballI before) auto
    moreover have "concat bs = concat (take j bs) @ bs ! j @ ?C"
      by (metis True concat.simps(2) concat_append id_take_nth_drop)
    ultimately show ?thesis using True by (simp add: first_ge_def start_def)
  qed
qed

section \<open>The contract\<close>

lemma tl_standsE:
  assumes "tl_stands t p"
  shows "\<exists>j dat. core t j dat"
  using assms by (auto simp: tl_stands_def)

lemma index_moves:
  assumes "tl_stands t p"
  shows "\<exists>j dat. core t j dat \<and> wrapped iops ies istands (tl_index_iter t) j"
  using tl_standsE [OF assms] by (auto simp: core_def)

lemma TwoLevel_Seek_stands:
  assumes "tl_stands t p" and "key_ok target"
  shows "\<exists>t'. TwoLevel_Seek iops dops t target = Some t' \<and> tl_stands t' (first_ge lt target (concat bs))"
proof -
  obtain i dat where c: "core t i dat" "wrapped iops ies istands (tl_index_iter t) i" using index_moves [OF assms(1)] by blast
  let ?j = "first_ge lt target ies"
  obtain w where w: "iw_Seek iops target (tl_index_iter t) = Some w" "wrapped iops ies istands w ?j"
    using index.iw_moves(3) [OF c(2) assms(2)] by blast
  note f = first_ge_blocks [OF assms(2) refl]
  show ?thesis
  proof (cases "?j < length bs")
    case True
    obtain t1 t2 l where t: "InitDataBlock iops dops (t\<lparr>tl_index_iter := w\<rparr>) = Some t1" "on_data (iw_Seek dops target) t1 = Some t2"
      "core t2 ?j (Some ((?j, l), first_ge lt target (bs ! ?j)))"
      using enter_seek [OF c(1) w(2) True assms(2)] by blast
    have "first_ge lt target (bs ! ?j) \<le> length (bs ! ?j)" by (simp add: first_ge_def length_takeWhile_le)
    from skip_forward [OF t(3) this] show ?thesis using True by (simp add: TwoLevel_Seek_def w(1) t(1,2) f)
  next
    case False
    obtain t1 where t: "InitDataBlock iops dops (t\<lparr>tl_index_iter := w\<rparr>) = Some t1" "on_data (iw_Seek dops target) t1 = Some t1"
      "core t1 ?j None"
      using leave_blocks [OF c(1) w(2)] False by (meson not_less)
    from skip_ends(1) [OF t(3)] False show ?thesis by (simp add: TwoLevel_Seek_def w(1) t(1,2) f)
  qed
qed

lemma TwoLevel_SeekToFirst_stands:
  assumes "tl_stands t p"
  shows "\<exists>t'. TwoLevel_SeekToFirst iops dops t = Some t' \<and> tl_stands t' 0"
proof -
  obtain i dat where c: "core t i dat" "wrapped iops ies istands (tl_index_iter t) i" using index_moves [OF assms] by blast
  obtain w where w: "iw_SeekToFirst iops (tl_index_iter t) = Some w" "wrapped iops ies istands w 0"
    using index.iw_moves(1) [OF c(2)] by blast
  show ?thesis
  proof (cases "0 < length bs")
    case True
    obtain t1 t2 l where t: "InitDataBlock iops dops (t\<lparr>tl_index_iter := w\<rparr>) = Some t1" "on_data (iw_SeekToFirst dops) t1 = Some t2"
      "core t2 0 (Some ((0, l), 0))"
      using enter_first [OF c(1) w(2) True] by blast
    from skip_forward [OF t(3)] show ?thesis by (simp add: TwoLevel_SeekToFirst_def w(1) t(1,2))
  next
    case False
    obtain t1 where t: "InitDataBlock iops dops (t\<lparr>tl_index_iter := w\<rparr>) = Some t1" "on_data (iw_SeekToFirst dops) t1 = Some t1"
      "core t1 0 None"
      using leave_blocks [OF c(1) w(2)] False by (meson not_less)
    from skip_ends(1) [OF t(3)] False show ?thesis by (simp add: TwoLevel_SeekToFirst_def w(1) t(1,2))
  qed
qed

lemma TwoLevel_SeekToLast_stands:
  assumes "tl_stands t p"
  shows "\<exists>t'. TwoLevel_SeekToLast iops dops t = Some t' \<and> tl_stands t' (length (concat bs) - 1)"
proof -
  obtain i dat where c: "core t i dat" "wrapped iops ies istands (tl_index_iter t) i" using index_moves [OF assms] by blast
  let ?j = "length bs - 1"
  obtain w where w: "iw_SeekToLast iops (tl_index_iter t) = Some w" "wrapped iops ies istands w ?j"
    using index.iw_moves(2) [OF c(2)] by (auto simp: same_length)
  show ?thesis
  proof (cases "0 < length bs")
    case True
    then have j: "?j < length bs" by simp
    obtain t1 t2 l where t: "InitDataBlock iops dops (t\<lparr>tl_index_iter := w\<rparr>) = Some t1" "on_data (iw_SeekToLast dops) t1 = Some t2"
      "core t2 ?j (Some ((?j, l), length (bs ! ?j) - 1))"
      using enter_last [OF c(1) w(2) j] by blast
    have l: "0 < length (bs ! ?j)" using nonempty [OF j] by simp
    then have "length (bs ! ?j) - 1 < length (bs ! ?j)" by simp
    note s = skip_stays [OF t(3) this]
    have "start ?j + (length (bs ! ?j) - 1) = length (concat bs) - 1"
      using start_Suc [OF j] start_end [of "Suc ?j"] l True by (simp only: Suc_diff_1) linarith
    then show ?thesis using s by (simp add: TwoLevel_SeekToLast_def w(1) t(1,2))
  next
    case False
    obtain t1 where t: "InitDataBlock iops dops (t\<lparr>tl_index_iter := w\<rparr>) = Some t1" "on_data (iw_SeekToLast dops) t1 = Some t1"
      "core t1 ?j None"
      using leave_blocks [OF c(1) w(2)] False by (metis gr0I less_nat_zero_code not_less)
    from skip_ends(2) [OF t(3)] False show ?thesis by (simp add: TwoLevel_SeekToLast_def w(1) t(1,2))
  qed
qed

lemma tl_stands_inside:
  assumes "tl_stands t p" and "p < length (concat bs)"
  shows "\<exists>j l q. core t j (Some ((j, l), q)) \<and> q < length (bs ! j) \<and> p = start j + q"
  using assms by (auto simp: tl_stands_def)

lemma TwoLevel_Next_stands:
  assumes "tl_stands t p" and "p < length (concat bs)"
  shows "\<exists>t'. TwoLevel_Next iops dops t = Some t' \<and> tl_stands t' (Suc p)"
proof -
  obtain j l q where c: "core t j (Some ((j, l), q))" "q < length (bs ! j)" "p = start j + q" using tl_stands_inside [OF assms] by blast
  obtain w where w: "iw_Next dops (tl_data_iter t) = Some w" "wrapped dops (bs ! j) (dstands (j, l)) w (Suc q)"
    using data_moves(4) core_dataD [OF c(1)] c(2) by blast
  have "iw_valid (tl_data_iter t)" using data_valid [OF c(1)] c(2) by simp
  then show ?thesis
    using skip_forward [OF core_data [OF c(1) w(2)]] c(2,3) by (simp add: TwoLevel_Next_def w(1))
qed

lemma TwoLevel_Prev_stands:
  assumes "tl_stands t p" and "p < length (concat bs)"
  shows "\<exists>t'. TwoLevel_Prev iops dops t = Some t' \<and> tl_stands t' (if p = 0 then length (concat bs) else p - 1)"
proof -
  obtain j l q where c: "core t j (Some ((j, l), q))" "q < length (bs ! j)" "p = start j + q" using tl_stands_inside [OF assms] by blast
  obtain w where w: "iw_Prev dops (tl_data_iter t) = Some w"
    "wrapped dops (bs ! j) (dstands (j, l)) w (if q = 0 then length (bs ! j) else q - 1)"
    using data_moves(5) core_dataD [OF c(1)] c(2) by blast
  have v: "iw_valid (tl_data_iter t)" using data_valid [OF c(1)] c(2) by simp
  let ?t = "t\<lparr>tl_data_iter := w\<rparr>"
  show ?thesis
  proof (cases "q = 0")
    case True
    have "core ?t j (Some ((j, l), length (bs ! j)))" using core_data [OF c(1)] w(2) True by simp
    moreover have "(start j = 0) = (j = 0)"
    proof (cases j)
      case (Suc i)
      then have i: "i < length bs" using core_dataD [OF c(1)] by simp
      then show ?thesis using nonempty [OF i] start_Suc [OF i] Suc by simp
    qed simp
    ultimately show ?thesis using skip_backward [of ?t j] v True c(3) by (cases "j = 0") (simp_all add: TwoLevel_Prev_def w(1))
  next
    case False
    then have "core ?t j (Some ((j, l), q - 1))" "q - 1 < length (bs ! j)" using core_data [OF c(1)] w(2) c(2) by simp_all
    from skip_stays [OF this] show ?thesis using v False c(3) by (simp add: TwoLevel_Prev_def w(1))
  qed
qed

lemma two_level_iterator: "iterator (TwoLevel_ops iops dops) (concat bs) tl_stands key_ok lt"
proof
  fix t p
  assume t: "tl_stands t p"
  obtain j dat where c: "core t j dat" using tl_standsE [OF t] by blast
  show "i_Valid (TwoLevel_ops iops dops) t = (p < length (concat bs))"
    using t unfolding tl_stands_def
  proof (elim disjE conjE exE)
    fix j assume "core t j None" "p = length (concat bs)"
    then show ?thesis by (simp add: TwoLevel_ops_def core_def data_at_def)
  next
    fix j l q assume c: "core t j (Some ((j, l), q))" "q < length (bs ! j)" "p = start j + q"
    have "start j + q < length (concat bs)" by (rule start_less(1) [OF conjunct1 [OF core_dataD [OF c(1)]] c(2)])
    then show ?thesis using data_valid [OF c(1)] c(2,3) by (simp add: TwoLevel_ops_def)
  qed
  show "\<exists>t'. i_SeekToFirst (TwoLevel_ops iops dops) t = Some t' \<and> tl_stands t' 0"
    using TwoLevel_SeekToFirst_stands [OF t] by (simp add: TwoLevel_ops_def)
  show "\<exists>t'. i_SeekToLast (TwoLevel_ops iops dops) t = Some t' \<and> tl_stands t' (length (concat bs) - 1)"
    using TwoLevel_SeekToLast_stands [OF t] by (simp add: TwoLevel_ops_def)
  show "\<exists>t'. i_Seek (TwoLevel_ops iops dops) t target = Some t' \<and> tl_stands t' (first_ge lt target (concat bs))"
    if "key_ok target" for target
    using TwoLevel_Seek_stands [OF t that] by (simp add: TwoLevel_ops_def)
  obtain s where s: "iw_status iops (tl_index_iter t) = Some s" "ok s"
    using index.wrapped_status c unfolding core_def by blast
  show "ok (i_status (TwoLevel_ops iops dops) t)"
    using s c data_status [OF c] by (auto simp: TwoLevel_ops_def TwoLevel_status_def core_def)
  assume p: "p < length (concat bs)"
  obtain j l q where i: "core t j (Some ((j, l), q))" "q < length (bs ! j)" "p = start j + q" using tl_stands_inside [OF t p] by blast
  note k = conjunct1 [OF core_dataD [OF i(1)]] conjunct2 [OF core_dataD [OF i(1)]]
  show "i_key (TwoLevel_ops iops dops) t = Some (fst (concat bs ! p))"
    using iterator.wrapped_key [OF data [OF k(1)] k(2) i(2)] start_less(2) [OF k(1) i(2)] by (simp add: TwoLevel_ops_def i(3))
  show "i_value (TwoLevel_ops iops dops) t = Some (snd (concat bs ! p))"
    using iterator.wrapped_value [OF data [OF k(1)] k(2) i(2)] start_less(2) [OF k(1) i(2)] by (simp add: TwoLevel_ops_def i(3))
  show "\<exists>t'. i_Next (TwoLevel_ops iops dops) t = Some t' \<and> tl_stands t' (Suc p)"
    using TwoLevel_Next_stands [OF t p] by (simp add: TwoLevel_ops_def)
  show "\<exists>t'. i_Prev (TwoLevel_ops iops dops) t = Some t' \<and> tl_stands t' (if p = 0 then length (concat bs) else p - 1)"
    using TwoLevel_Prev_stands [OF t p] by (simp add: TwoLevel_ops_def)
qed

lemma NewTwoLevelIterator_stands:
  assumes "istands it (length ies)" and "good {#} a"
  shows "\<exists>t. NewTwoLevelIterator iops it bf del a options = Some t \<and> tl_stands t (length (concat bs))"
proof -
  obtain w where w: "iw_Set iops (Some it) IteratorWrapper_null = Some w" "wrapped iops ies istands w (length ies)"
    using index.iw_Set_wrapped [OF assms(1)] by blast
  then show ?thesis
    using assms(2) by (auto simp: NewTwoLevelIterator_def IteratorWrapper_new_def tl_stands_def core_def data_at_def IteratorWrapper_null_def)
qed

lemma TwoLevel_delete_good: "tl_stands t p \<Longrightarrow> \<exists>a. TwoLevel_delete t = Some a \<and> good {#} a"
proof -
  assume "tl_stands t p"
  then obtain j dat where c: "core t j dat" using tl_standsE by blast
  then have "good (live dat + {#}) (tl_arg t)" using core_good by simp
  from delete_data [OF c this, of "tl_data_block_handle t"] show ?thesis by (simp add: TwoLevel_delete_def)
qed

end

end
