(* ===== verification/LDB_Table_Props.thy ===== *)
theory LDB_Table_Props
  imports LDB_Table LDB_Table_Layout LDB_Two_Level_Props
begin

text \<open>
  A table that \<^verbatim>\<open>table/table_builder.cc\<close> has written is read back by \<^verbatim>\<open>table/table.cc\<close>: its
  iterator goes over the entries that were added, and a lookup finds each of them. The
  file, the comparator, the filter policy and the block cache are any that keep their
  contracts.
\<close>

section \<open>Blocks of the table\<close>

abbreviation interval :: "Options \<Rightarrow> nat" where
  "interval o1 \<equiv> nat (opt_block_restart_interval o1)"

definition block_of :: "Options \<Rightarrow> entry list \<Rightarrow> Block" where
  "block_of o1 es = \<lparr>blk_data = block_contents o1 es, blk_size = length (block_contents o1 es),
     blk_restart_offset = of_nat (off (interval o1) es (length es))\<rparr>"

lemma block_of:
  assumes "build_ok o1" and "length (block_contents o1 es) < 2 ^ 32"
  shows "Block_new (block_contents o1 es) = Some (block_of o1 es)"
    and "\<exists>j. Block_NewIterator (block_of o1 es) c = Some (Inr j) \<and> placed c (interval o1) es j (length es)"
proof -
  let ?iv = "interval o1"
  note contents = block_contents_bytes [OF assms(1)]
  have blk: "blk ?iv es" using assms restart_nat [OF assms(1)] by (simp add: blk_def contents)
  show "Block_new (block_contents o1 es) = Some (block_of o1 es)"
    using Block_new_block(1) [OF blk] by (simp add: block_of_def contents)
  let ?it = "BlockIter_new c (block_bytes ?iv es) (of_nat (off ?iv es (length es))) (of_nat (num_points ?iv es))"
  have "(of_nat (num_points ?iv es) :: u32) \<noteq> 0" using blk_points(2,3) [OF blk] by (metis unat_0 less_irrefl)
  moreover have "\<not> length (block_bytes ?iv es) < 4" by (simp add: length_block)
  ultimately have "Block_NewIterator (block_of o1 es) c = Some (Inr ?it)"
    by (simp add: contents block_of_def Block_new_block [OF blk] Block_NewIterator_def)
  moreover have "placed c ?iv es ?it (length es)"
    using blk by (simp add: placed_def LDB_Block_Props.core_def BlockIter_new_def)
  ultimately show "\<exists>j. Block_NewIterator (block_of o1 es) c = Some (Inr j) \<and> placed c ?iv es j (length es)" by blast
qed

text \<open>What it is for an iterator of a block to stand at a position.\<close>

definition block_stands ::
  "(byte list \<Rightarrow> bool) \<Rightarrow> (byte list \<Rightarrow> byte list \<Rightarrow> bool) \<Rightarrow> Comparator \<Rightarrow> nat \<Rightarrow> entry list \<Rightarrow> block_iter \<Rightarrow> nat \<Rightarrow> bool" where
  "block_stands key_ok lt c iv es it p \<longleftrightarrow> (\<exists>j. it = Inr j \<and> placed c iv es j p \<and> sorted_entries key_ok lt es)"

definition data_stands ::
  "(byte list \<Rightarrow> bool) \<Rightarrow> (byte list \<Rightarrow> byte list \<Rightarrow> bool) \<Rightarrow> Comparator \<Rightarrow> nat \<Rightarrow> entry list \<Rightarrow> 'h BlockCleanup list
    \<Rightarrow> 'h data_iter \<Rightarrow> nat \<Rightarrow> bool" where
  "data_stands key_ok lt c iv es cs it p \<longleftrightarrow> block_stands key_ok lt c iv es (ci_iter it) p \<and> ci_cleanup it = cs"

context comparator begin

lemma block_iter: "iterator block_iter_ops es (block_stands key_ok lt cmp iv es) key_ok lt"
  unfolding block_stands_def [abs_def] by (rule iterator.either_iterator [OF block_iterator])

lemma data_iter: "iterator data_iter_ops es (data_stands key_ok lt cmp iv es cs) key_ok lt"
  unfolding data_stands_def [abs_def] by (rule iterator.cleanup_iterator [OF block_iter])

lemma block_of_stands:
  assumes "build_ok o1" and "length (block_contents o1 es) < 2 ^ 32" and "sorted_entries key_ok lt es"
  shows "\<exists>it. Block_NewIterator (block_of o1 es) cmp = Some it \<and> block_stands key_ok lt cmp (interval o1) es it (length es)"
  using block_of(2) [OF assms(1,2), of cmp] assms(3) unfolding block_stands_def by blast

end

section \<open>The index\<close>

lemma handle_bytes_inj: "handle_bytes a = handle_bytes b \<Longrightarrow> a = b"
  using BlockHandle_DecodeFrom_eq [of BlockHandle_new a "[]"] BlockHandle_DecodeFrom_eq [of BlockHandle_new b "[]"] by simp

lemma block_offset_less:
  assumes "j < k" and "k \<le> length bs"
  shows "block_offset o1 bs j < block_offset o1 bs k"
  using assms
proof (induction k)
  case (Suc k)
  then show ?case using block_offset_Suc [of k bs o1] by (cases "j = k") auto
qed simp

lemma data_handle_inj:
  assumes "length (data_bytes o1 bs) < 2 ^ 32" and "j < length bs" and "k < length bs"
    and "bh_offset (data_handle o1 bs j) = bh_offset (data_handle o1 bs k)"
  shows "j = k"
proof -
  have "unat (of_nat (block_offset o1 bs i) :: u64) = block_offset o1 bs i" for i
    using block_offset_le [of o1 bs i] assms(1) by simp
  then have "block_offset o1 bs j = block_offset o1 bs k" using assms(4) by (metis data_handle_def BlockHandle.select_convs(1))
  then show ?thesis using block_offset_less [of j k bs o1] block_offset_less [of k j bs o1] assms(2,3) by (cases j k rule: linorder_cases) auto
qed

text \<open>Blocks of sorted entries, as a table is made of.\<close>

definition blocks_ok :: "(byte list \<Rightarrow> bool) \<Rightarrow> (byte list \<Rightarrow> byte list \<Rightarrow> bool) \<Rightarrow> Options \<Rightarrow> entry list list \<Rightarrow> bool" where
  "blocks_ok key_ok lt o1 bs \<longleftrightarrow> comparator (opt_comparator o1) key_ok lt \<and> build_ok o1 \<and> (\<forall>b\<in>set bs. b \<noteq> [])
     \<and> sorted_entries key_ok lt (concat bs) \<and> length (blocks_bytes o1 bs) < 2 ^ 32"

lemma blocks_ok_cut:
  assumes "comparator (opt_comparator o1) key_ok lt" and "build_ok o1" and "sorted_entries key_ok lt es"
    and "length (table_bytes o1 es) < 2 ^ 32"
  shows "blocks_ok key_ok lt o1 (cut o1 [] es)" and "concat (cut o1 [] es) = es"
  using assms cut_nonempty by (auto simp: blocks_ok_def concat_cut table_bytes_def)

lemma blocks_okD:
  assumes "blocks_ok key_ok lt o1 bs" and "k < length bs"
  shows "sorted_entries key_ok lt (bs ! k)" and "length (block_contents o1 (bs ! k)) < 2 ^ 32" and "bs ! k \<noteq> []"
    and "j < k \<Longrightarrow> d \<in> set (bs ! j) \<Longrightarrow> e \<in> set (bs ! k) \<Longrightarrow> lt (fst d) (fst e)"
    and "e \<in> set (bs ! k) \<Longrightarrow> key_ok (fst e)"
proof -
  have split: "concat bs = concat (take k bs) @ bs ! k @ concat (drop (Suc k) bs)"
    by (metis assms(2) concat.simps(2) concat_append id_take_nth_drop)
  have sorted: "sorted_entries key_ok lt (concat (take k bs) @ bs ! k @ concat (drop (Suc k) bs))"
    using assms(1) unfolding blocks_ok_def split by simp
  then show "sorted_entries key_ok lt (bs ! k)" by (simp add: sorted_entries_def sorted_wrt_append del: set_concat)
  show "bs ! k \<noteq> []" using assms by (simp add: blocks_ok_def)
  have "block_offset o1 bs (Suc k) \<le> length (blocks_bytes o1 bs)"
    using block_offset_le [of o1 bs "Suc k"] by (simp add: blocks_bytes_def)
  then show "length (block_contents o1 (bs ! k)) < 2 ^ 32"
    using assms(1) block_offset_Suc [OF assms(2), of o1] by (simp add: blocks_ok_def)
  show "key_ok (fst e)" if "e \<in> set (bs ! k)" using sorted that by (simp add: sorted_entries_def del: set_concat)
  assume "j < k" and d: "d \<in> set (bs ! j)" and e: "e \<in> set (bs ! k)"
  then have "j < length (take k bs)" "take k bs ! j = bs ! j" using assms(2) by simp_all
  then have "bs ! j \<in> set (take k bs)" by (metis nth_mem)
  then have "d \<in> set (concat (take k bs))" using d unfolding set_concat by blast
  then show "lt (fst d) (fst e)"
    using sorted e unfolding sorted_entries_def map_append sorted_wrt_append set_append set_map by blast
qed

lemma sorted_last: "sorted_wrt lt (map fst b) \<Longrightarrow> e \<in> set b \<Longrightarrow> e = last b \<or> lt (fst e) (fst (last b))"
  by (induction b rule: rev_induct) (auto simp: sorted_wrt_append)

lemma sorted_hd: "sorted_wrt lt (map fst b) \<Longrightarrow> e \<in> set b \<Longrightarrow> e = hd b \<or> lt (fst (hd b)) (fst e)"
  by (cases b) auto

lemma index_keys:
  assumes "blocks_ok key_ok lt o1 bs" and "k < length bs"
  shows "key_ok (index_key o1 bs k)" and "e \<in> set (bs ! k) \<Longrightarrow> \<not> lt (index_key o1 bs k) (fst e)"
    and "k < m \<Longrightarrow> m < length bs \<Longrightarrow> e \<in> set (bs ! m) \<Longrightarrow> lt (index_key o1 bs k) (fst e)"
proof -
  have c: "comparator (opt_comparator o1) key_ok lt" using assms(1) by (simp add: blocks_ok_def)
  note b = blocks_okD [OF assms]
  let ?last = "last (bs ! k)"
  have l: "?last \<in> set (bs ! k)" using b(3) by simp
  have last: "\<not> lt (fst ?last) (fst e)" if e: "e \<in> set (bs ! k)" for e
    using sorted_last [of lt "bs ! k" e] b(1) e comparator.less_irrefl [OF c b(5) [OF l]]
      comparator.less_asym [OF c b(5) [OF e] b(5) [OF l]] by (auto simp: sorted_entries_def)
  have "\<exists>s. index_key o1 bs k = s \<and> key_ok s \<and> \<not> lt s (fst ?last) \<and> (Suc k < length bs \<longrightarrow> lt s (fst (hd (bs ! Suc k))))"
  proof (cases "Suc k < length bs")
    case True
    note n = blocks_okD [OF assms(1) True]
    have "hd (bs ! Suc k) \<in> set (bs ! Suc k)" using n(3) by simp
    then have "lt (fst ?last) (fst (hd (bs ! Suc k)))" "key_ok (fst (hd (bs ! Suc k)))" using n(4,5) l by blast+
    then show ?thesis using comparator.separator [OF c b(5) [OF l], of "fst (hd (bs ! Suc k))"] True by (auto simp: index_key_def)
  next
    case False
    then show ?thesis using comparator.successor [OF c b(5) [OF l]] by (auto simp: index_key_def)
  qed
  then obtain s where s: "index_key o1 bs k = s" "key_ok s" "\<not> lt s (fst ?last)"
    "Suc k < length bs \<Longrightarrow> lt s (fst (hd (bs ! Suc k)))" by blast
  show "key_ok (index_key o1 bs k)" using s(1,2) by simp
  show "\<not> lt (index_key o1 bs k) (fst e)" if e: "e \<in> set (bs ! k)"
    using comparator.less_le_trans [OF c s(2) b(5) [OF e] b(5) [OF l]] last [OF e] s(1,3) by blast
  show "lt (index_key o1 bs k) (fst e)" if m: "k < m" "m < length bs" and e: "e \<in> set (bs ! m)"
  proof -
    have k1: "Suc k < length bs" using m by simp
    let ?h = "hd (bs ! Suc k)"
    have h: "?h \<in> set (bs ! Suc k)" using blocks_okD(3) [OF assms(1) k1] by simp
    have "e = ?h \<or> lt (fst ?h) (fst e)"
    proof (cases "m = Suc k")
      case True
      then show ?thesis using sorted_hd [of lt "bs ! m" e] blocks_okD(1) [OF assms(1) m(2)] e by (simp add: sorted_entries_def)
    next
      case False
      then show ?thesis using blocks_okD(4) [OF assms(1) m(2), of "Suc k" ?h e] m(1) h e by simp
    qed
    then show ?thesis
      using comparator.less_trans [OF c s(2) blocks_okD(5) [OF assms(1) k1 h] blocks_okD(5) [OF assms(1) m(2) e]] s(4) [OF k1] s(1)
      by auto
  qed
qed

lemma index_sorted:
  assumes "blocks_ok key_ok lt o1 bs"
  shows "sorted_entries key_ok lt (index_entries o1 bs)"
proof -
  have c: "comparator (opt_comparator o1) key_ok lt" using assms by (simp add: blocks_ok_def)
  have "lt (index_key o1 bs j) (index_key o1 bs k)" if jk: "j < k" "k < length bs" for j k
  proof -
    have e: "hd (bs ! k) \<in> set (bs ! k)" using blocks_okD(3) [OF assms jk(2)] by simp
    have j: "j < length bs" using jk by simp
    show ?thesis
      using comparator.less_le_trans [OF c index_keys(1) [OF assms j] blocks_okD(5) [OF assms jk(2) e] index_keys(1) [OF assms jk(2)]]
        index_keys(3) [OF assms j jk e] index_keys(2) [OF assms jk(2) e] by blast
  qed
  then show ?thesis
    using index_keys(1) [OF assms] by (auto simp: sorted_entries_def index_entries_def sorted_wrt_iff_nth_less)
qed

lemma first_ge_key:
  assumes "comparator c key_ok lt" and "sorted_entries key_ok lt es" and "(k, v) \<in> set es"
  shows "first_ge lt k es < length es" and "es ! first_ge lt k es = (k, v)"
proof -
  obtain i where i: "i < length es" "es ! i = (k, v)" using assms(3) by (auto simp: in_set_conv_nth)
  have k: "\<not> lt k k" using assms(2,3) comparator.less_irrefl [OF assms(1), of k] by (force simp: sorted_entries_def)
  have "\<not> i < first_ge lt k es" using first_ge_less [of i lt k es] i(2) k by auto
  moreover have "\<not> first_ge lt k es < i"
  proof
    assume less: "first_ge lt k es < i"
    then have "\<not> lt (fst (es ! first_ge lt k es)) k" using first_ge_at [of lt k es] i(1) by simp
    moreover have "lt (fst (es ! first_ge lt k es)) k"
      using sorted_wrt_nth_less [of lt "map fst es" "first_ge lt k es" i] assms(2) i less by (simp add: sorted_entries_def)
    ultimately show False by simp
  qed
  ultimately have "first_ge lt k es = i" by simp
  then show "first_ge lt k es < length es" "es ! first_ge lt k es = (k, v)" using i by simp_all
qed

text \<open>The index leads to the only block that can hold a key.\<close>

lemma index_finds_block:
  assumes "blocks_ok key_ok lt o1 bs" and "m < length bs" and "(k, v) \<in> set (bs ! m)"
  shows "first_ge lt k (index_entries o1 bs) = m"
proof -
  let ?j = "first_ge lt k (index_entries o1 bs)"
  have "\<not> m < ?j"
    using first_ge_less [of m lt k "index_entries o1 bs"] index_keys(2) [OF assms] by (auto simp: nth_index_entries assms(2))
  moreover have "\<not> ?j < m"
  proof
    assume j: "?j < m"
    then have jl: "?j < length bs" using assms(2) by simp
    have "lt (index_key o1 bs ?j) k" using index_keys(3) [OF assms(1) jl j assms(2,3)] by simp
    then show False using first_ge_at [of lt k "index_entries o1 bs"] jl by (simp add: nth_index_entries)
  qed
  ultimately show ?thesis by simp
qed

section \<open>Places in the file\<close>

lemma data_block_at:
  assumes "k < length bs"
  shows "take (length (block_contents o1 (bs ! k)) + 5) (drop (block_offset o1 bs k) (blocks_bytes o1 bs))
    = raw_block (block_contents o1 (bs ! k))"
proof -
  have "data_bytes o1 bs = data_bytes o1 (take k bs) @ raw_block (block_contents o1 (bs ! k)) @ data_bytes o1 (drop (Suc k) bs)"
    by (subst id_take_nth_drop [OF assms], subst data_bytes_append) (simp add: data_bytes_def)
  then show ?thesis by (simp add: blocks_bytes_def block_offset_def)
qed

lemma index_block_at:
  "take (length (index_contents o1 bs) + 5)
     (drop (length (data_bytes o1 bs) + length (filter_part o1 bs) + (length (meta_contents o1 bs) + 5)) (blocks_bytes o1 bs))
   = raw_block (index_contents o1 bs)"
  by (simp add: blocks_bytes_def)

lemma meta_block_at:
  "take (length (meta_contents o1 bs) + 5) (drop (length (data_bytes o1 bs) + length (filter_part o1 bs)) (blocks_bytes o1 bs))
   = raw_block (meta_contents o1 bs)"
  by (simp add: blocks_bytes_def)

lemma filter_block_at:
  "opt_filter_policy o1 = Some p \<Longrightarrow>
     take (length (filter_contents o1 p bs) + 5) (drop (length (data_bytes o1 bs)) (blocks_bytes o1 bs))
     = raw_block (filter_contents o1 p bs)"
  by (simp add: blocks_bytes_def filter_part_def)

section \<open>The table as its reader holds it\<close>

definition release :: "'h BlockCleanup \<Rightarrow> 'h multiset" where
  "release l = (case l of DeleteBlock \<Rightarrow> {#} | ReleaseBlock h \<Rightarrow> {#h#})"

definition releases :: "'h BlockCleanup multiset \<Rightarrow> 'h multiset" where
  "releases live = (\<Sum>l\<in>#live. release l)"

lemma releases_add [simp]: "releases (add_mset l live) = release l + releases live"
  by (simp add: releases_def)

lemma size_releases: "size (releases live) \<le> size live"
proof (induction live)
  case (add l live)
  have "size (release l) \<le> 1" by (cases l) (simp_all add: release_def)
  then show ?case using add by simp
qed (simp add: releases_def)

definition label :: "'h option \<Rightarrow> 'h BlockCleanup" where
  "label h = (case h of None \<Rightarrow> DeleteBlock | Some h \<Rightarrow> ReleaseBlock h)"

locale table_env = random_access_file fops content readable + cache cops works held entry_of known most charge_ok
  for fops :: "'f RandomAccessFile" and content readable and cops :: "('c, 'h, Block) Cache"
    and works held entry_of known most charge_ok
begin

text \<open>
  The state of a table while the iterators with the cleanups \<open>live\<close> are in use and others
  hold the handles \<open>H\<close> of the cache.
\<close>

definition cache_ok :: "Options \<Rightarrow> entry list list \<Rightarrow> 'h multiset \<Rightarrow> 'h BlockCleanup multiset \<Rightarrow> u64 \<Rightarrow> 'c option \<Rightarrow> bool" where
  "cache_ok o1 bs H live i cc \<longleftrightarrow>
     (case cc of
        None \<Rightarrow> \<forall>l\<in>#live. l = DeleteBlock
      | Some c \<Rightarrow> works c \<and> held c = H + releases live \<and> size H + 2 \<le> most \<and> (\<forall>n. 0 < n \<and> n < 2 ^ 32 \<longrightarrow> charge_ok n)
          \<and> (\<forall>k<length bs. \<forall>v. (le_bytes 8 i @ le_bytes 8 (bh_offset (data_handle o1 bs k)), v) \<in> known c
               \<longrightarrow> v = block_of o1 (bs ! k)))"

definition filter_ok :: "Options \<Rightarrow> entry list list \<Rightarrow> FilterBlockReader option \<Rightarrow> bool" where
  "filter_ok o1 bs f \<longleftrightarrow>
     (\<forall>r. f = Some r \<longrightarrow> (\<exists>p. opt_filter_policy o1 = Some p \<and> FilterBlockReader_new p (filter_contents o1 p bs) = Some r))"

definition table_ok :: "Options \<Rightarrow> entry list list \<Rightarrow> 'h multiset \<Rightarrow> 'h BlockCleanup multiset \<Rightarrow> ('f, 'c) Table \<Rightarrow> bool" where
  "table_ok o1 bs H live t \<longleftrightarrow>
     readable (tab_file t) \<and> content (tab_file t) = blocks_bytes o1 bs
     \<and> opt_comparator (tab_options t) = opt_comparator o1
     \<and> tab_index_block t = block_of (index_options o1) (index_entries o1 bs)
     \<and> tab_metaindex_handle t = meta_handle o1 bs \<and> filter_ok o1 bs (tab_filter t)
     \<and> cache_ok o1 bs H live (tab_cache_id t) (tab_block_cache t)"

lemma ReadBlock_data:
  assumes "blocks_ok key_ok lt o1 bs" and "k < length bs" and "readable f" and "content f = blocks_bytes o1 bs"
  shows "\<exists>bc f'. ReadBlock fops f options (data_handle o1 bs k) = Some (Status_OK, bc, f') \<and> readable f'
    \<and> content f' = blocks_bytes o1 bs \<and> Block_new (bc_data bc) = Some (block_of o1 (bs ! k))"
proof -
  let ?c = "block_contents o1 (bs ! k)"
  have size: "length (blocks_bytes o1 bs) < 2 ^ 32" and o1: "build_ok o1" using assms(1) by (simp_all add: blocks_ok_def)
  have "block_offset o1 bs k < 2 ^ 32" using block_offset_le [of o1 bs k] size by (simp add: blocks_bytes_def)
  then have off: "unat (bh_offset (data_handle o1 bs k)) = block_offset o1 bs k" by (simp add: data_handle_def)
  have n: "unat (bh_size (data_handle o1 bs k)) = length ?c" using blocks_okD(2) [OF assms(1,2)] by (simp add: data_handle_def)
  have "take (length ?c + 5) (drop (unat (bh_offset (data_handle o1 bs k))) (content f)) = raw_block ?c"
    unfolding off assms(4) by (rule data_block_at [OF assms(2)])
  from ReadBlock_raw [OF assms(3) this n, of options] size
  show ?thesis using block_of(1) [OF o1 blocks_okD(2) [OF assms(1,2)]] by (auto simp: assms(4))
qed

text \<open>The cache gives the block of the handle or nothing, and keeps what it gets.\<close>

lemma cache_keys:
  assumes "blocks_ok key_ok lt o1 bs" and "j < length bs" and "k < length bs"
    and "le_bytes 8 i @ le_bytes 8 (bh_offset (data_handle o1 bs j)) = le_bytes 8 i @ le_bytes 8 (bh_offset (data_handle o1 bs k))"
  shows "j = k"
proof -
  have "bh_offset (data_handle o1 bs j) = bh_offset (data_handle o1 bs k)"
    using assms(4) le_word_8 by (metis same_append_eq)
  moreover have "length (data_bytes o1 bs) < 2 ^ 32" using assms(1) by (simp add: blocks_ok_def blocks_bytes_def)
  ultimately show ?thesis using data_handle_inj assms(2,3) by blast
qed

lemma table_ok_cache:
  "table_ok o1 bs H live t \<Longrightarrow> cache_ok o1 bs H live' (tab_cache_id t) cc \<Longrightarrow> table_ok o1 bs H live' (t\<lparr>tab_block_cache := cc\<rparr>)"
  by (simp add: table_ok_def)

lemma table_ok_file:
  "table_ok o1 bs H live t \<Longrightarrow> readable f \<Longrightarrow> content f = blocks_bytes o1 bs \<Longrightarrow> table_ok o1 bs H live (t\<lparr>tab_file := f\<rparr>)"
  by (simp add: table_ok_def)

lemma cache_okD:
  assumes "table_ok o1 bs H live t" and "tab_block_cache t = Some c"
  shows "works c" and "held c = H + releases live" and "size H + 2 \<le> most" and "0 < n \<Longrightarrow> n < 2 ^ 32 \<Longrightarrow> charge_ok n"
    and "k < length bs \<Longrightarrow> (block_cache_key t (data_handle o1 bs k), v) \<in> known c \<Longrightarrow> v = block_of o1 (bs ! k)"
  using assms by (auto simp: table_ok_def cache_ok_def block_cache_key_def)

lemma cache_okI:
  assumes "table_ok o1 bs H live t" and "tab_block_cache t = Some c" and "works c'"
    and "held c' = release l + held c" and "known c' \<subseteq> known c \<union> {(block_cache_key t (data_handle o1 bs k), block_of o1 (bs ! k))}"
    and "blocks_ok key_ok lt o1 bs" and "k < length bs"
  shows "cache_ok o1 bs H (add_mset l live) (tab_cache_id t) (Some c')"
proof -
  have "v = block_of o1 (bs ! j)" if j: "j < length bs"
    and v: "(le_bytes 8 (tab_cache_id t) @ le_bytes 8 (bh_offset (data_handle o1 bs j)), v) \<in> known c'" for j v
  proof (cases "(block_cache_key t (data_handle o1 bs j), v) \<in> known c")
    case True
    then show ?thesis by (rule cache_okD(5) [OF assms(1,2) j])
  next
    case False
    then have "block_cache_key t (data_handle o1 bs j) = block_cache_key t (data_handle o1 bs k)" "v = block_of o1 (bs ! k)"
      using v assms(5) by (auto simp: block_cache_key_def)
    then show ?thesis using cache_keys [OF assms(6) j assms(7)] by (simp add: block_cache_key_def)
  qed
  then show ?thesis
    using cache_okD(1-4) [OF assms(1,2)] assms(3,4) by (simp add: cache_ok_def)
qed

lemma read_through_cache_ok:
  assumes "blocks_ok key_ok lt o1 bs" and "k < length bs" and "table_ok o1 bs H live t" and "size live \<le> 1"
  shows "\<exists>h t'. read_through_cache fops cops t options (data_handle o1 bs k) = Some (Status_OK, Some (block_of o1 (bs ! k)), h, t')
    \<and> table_ok o1 bs H (add_mset (label h) live) t' \<and> tab_options t' = tab_options t"
proof -
  let ?h = "data_handle o1 bs k" and ?b = "block_of o1 (bs ! k)"
  obtain bc f where rd: "ReadBlock fops (tab_file t) options ?h = Some (Status_OK, bc, f)" "readable f"
    "content f = blocks_bytes o1 bs" "Block_new (bc_data bc) = Some ?b"
    using ReadBlock_data [OF assms(1,2), of "tab_file t" options] assms(3) by (auto simp: table_ok_def)
  show ?thesis
  proof (cases "tab_block_cache t")
    case None
    then have "cache_ok o1 bs H (add_mset (label None) live) (tab_cache_id t) None"
      using assms(3) by (simp add: table_ok_def cache_ok_def label_def)
    from table_ok_cache [OF table_ok_file [OF assms(3) rd(2,3)], simplified, OF this] show ?thesis
      using None rd(1,4) by (intro exI [of _ None] exI [of _ "t\<lparr>tab_file := f\<rparr>"]) (cases t, simp add: read_through_cache_def)
  next
    case (Some c)
    let ?key = "block_cache_key t ?h"
    note c = cache_okD [OF assms(3) Some]
    have room: "size (held c) < most" using c(2,3) size_releases [of live] assms(4) by simp
    obtain r c1 where l: "ca_Lookup cops c ?key = Some (r, c1)" "works c1" "known c1 \<subseteq> known c"
      "case r of None \<Rightarrow> held c1 = held c
           | Some h \<Rightarrow> held c1 = add_mset h (held c) \<and> fst (entry_of c1 h) = ?key \<and> entry_of c1 h \<in> known c"
      using Lookup_works [OF c(1) room] by blast
    have known: "known c1 \<subseteq> known c \<union> {(?key, ?b)}" using l(3) by blast
    note keep = cache_okI [OF assms(3) Some _ _ _ assms(1,2)]
    show ?thesis
    proof (cases r)
      case (Some h)
      then have h: "held c1 = add_mset h (held c)" "(?key, snd (entry_of c1 h)) \<in> known c"
        using l(4) by (auto simp: prod_eq_iff) (metis prod.collapse)
      then have "ca_Value cops c1 h = Some ?b" using Value_works [OF l(2), of h] c(5) [OF assms(2)] by simp
      then show ?thesis
        using table_ok_cache [OF assms(3) keep [OF l(2) _ known, of "label (Some h)"]] l(1) h(1) Some \<open>tab_block_cache t = Some c\<close>
        by (intro exI [of _ "Some h"] exI [of _ "t\<lparr>tab_block_cache := Some c1\<rparr>"])
          (simp add: read_through_cache_def label_def release_def Let_def)
    next
      case None
      then have held: "held c1 = held c" using l(4) by simp
      let ?t = "t\<lparr>tab_block_cache := Some c1, tab_file := f\<rparr>"
      note tf = table_ok_file [OF assms(3) rd(2,3)]
      show ?thesis
      proof (cases "bc_cachable bc \<and> ro_fill_cache options")
        case False
        have "table_ok o1 bs H (add_mset (label None) live) ?t"
          using table_ok_file [OF table_ok_cache [OF assms(3) keep [OF l(2) _ known, of "label None"]] rd(2,3)] held
          by (simp add: label_def release_def)
        then show ?thesis
          using False l(1) None \<open>tab_block_cache t = Some c\<close> rd(1,4)
          by (intro exI [of _ None] exI [of _ ?t]) (auto simp: read_through_cache_def Let_def)
      next
        case True
        have bl: "length (block_contents o1 (bs ! k)) < 2 ^ 32" by (rule blocks_okD(2) [OF assms(1,2)])
        have "0 < length (block_contents o1 (bs ! k))"
          using length_block_contents [of o1 "bs ! k"] blocks_okD(3) [OF assms(1,2)] assms(1)
          by (cases "bs ! k") (auto simp: blocks_ok_def)
        then have "0 < (of_nat (blk_size ?b) :: size_t)" "(of_nat (blk_size ?b) :: size_t) < 2 ^ 32"
          using bl by (simp_all add: block_of_def word_less_nat_alt unat_gt_0)
        then have "charge_ok (of_nat (blk_size ?b))" by (rule c(4))
        then obtain h c2 where i: "ca_Insert cops c1 ?key ?b (of_nat (blk_size ?b)) = Some (h, c2)" "works c2"
          "held c2 = add_mset h (held c1)" "known c2 \<subseteq> insert (?key, ?b) (known c1)"
          using Insert_works [OF l(2), of "of_nat (blk_size ?b)" ?key ?b] room held by auto
        have "known c2 \<subseteq> known c \<union> {(?key, ?b)}" using i(4) known by blast
        then have "table_ok o1 bs H (add_mset (label (Some h)) live) (?t\<lparr>tab_block_cache := Some c2\<rparr>)"
          using table_ok_cache [OF tf, simplified, OF keep [OF i(2), of "label (Some h)"]] i(3) held by (simp add: label_def release_def)
        then show ?thesis
          using True l(1) None \<open>tab_block_cache t = Some c\<close> rd(1,4) i(1)
          by (intro exI [of _ "Some h"] exI [of _ "?t\<lparr>tab_block_cache := Some c2\<rparr>"]) (auto simp: read_through_cache_def Let_def)
      qed
    qed
  qed
qed

lemma BlockReader_opens:
  assumes "blocks_ok key_ok lt o1 bs" and "k < length bs" and "table_ok o1 bs H live t" and "size live \<le> 1"
  shows "\<exists>d l t'. BlockReader fops cops t options (handle_bytes (data_handle o1 bs k)) = Some (d, t')
    \<and> table_ok o1 bs H (add_mset l live) t' \<and> data_stands key_ok lt (opt_comparator o1) (interval o1) (bs ! k) [l] d (length (bs ! k))"
proof -
  have c: "comparator (opt_comparator o1) key_ok lt" "build_ok o1" using assms(1) by (simp_all add: blocks_ok_def)
  obtain h t' where r: "read_through_cache fops cops t options (data_handle o1 bs k) = Some (Status_OK, Some (block_of o1 (bs ! k)), h, t')"
    "table_ok o1 bs H (add_mset (label h) live) t'" "tab_options t' = tab_options t"
    using read_through_cache_ok [OF assms] by blast
  obtain it where it: "Block_NewIterator (block_of o1 (bs ! k)) (opt_comparator o1) = Some it"
    "block_stands key_ok lt (opt_comparator o1) (interval o1) (bs ! k) it (length (bs ! k))"
    using comparator.block_of_stands [OF c blocks_okD(2,1) [OF assms(1,2)]] by blast
  have "opt_comparator (tab_options t') = opt_comparator o1" using r(2) by (simp add: table_ok_def)
  moreover have "BlockHandle_DecodeFrom BlockHandle_new (handle_bytes (data_handle o1 bs k)) = (Status_OK, data_handle o1 bs k, [])"
    using BlockHandle_DecodeFrom_eq [of BlockHandle_new "data_handle o1 bs k" "[]"] by simp
  ultimately have "BlockReader fops cops t options (handle_bytes (data_handle o1 bs k))
      = Some (\<lparr>ci_iter = it, ci_cleanup = [label h]\<rparr>, t')"
    using r(1) it(1) by (simp add: BlockReader_def RegisterCleanup_def label_def split: option.split)
  then show ?thesis using r(2) it(2) by (auto simp: data_stands_def)
qed

lemma data_iter_deletes:
  assumes "table_ok o1 bs H (add_mset l live) t" and "ci_cleanup d = [l]"
  shows "\<exists>t'. data_iter_delete cops d t = Some t' \<and> table_ok o1 bs H live t'"
proof (cases l)
  case DeleteBlock
  have "cache_ok o1 bs H live (tab_cache_id t) (tab_block_cache t)"
    using assms(1) DeleteBlock by (auto simp: table_ok_def cache_ok_def release_def split: option.splits)
  then have "table_ok o1 bs H live t" using assms(1) by (simp add: table_ok_def)
  then show ?thesis using assms(2) DeleteBlock by (simp add: data_iter_delete_def Iterator_delete_def)
next
  case (ReleaseBlock h)
  then obtain c where c: "tab_block_cache t = Some c"
    using assms(1) by (cases "tab_block_cache t") (auto simp: table_ok_def cache_ok_def)
  note k = cache_okD [OF assms(1) c]
  have held: "held c = add_mset h (H + releases live)" using k(2) ReleaseBlock by (simp add: release_def)
  then obtain c' where c': "ca_Release cops c h = Some c'" "works c'" "held c' = H + releases live" "known c' \<subseteq> known c"
    using Release_works [OF k(1), of h] by auto
  have "cache_ok o1 bs H live (tab_cache_id t) (Some c')"
    using assms(1) c c'(2-4) by (auto simp: table_ok_def cache_ok_def)
  from table_ok_cache [OF assms(1) this] show ?thesis
    using assms(2) ReleaseBlock c c'(1) by (simp add: data_iter_delete_def Iterator_delete_def)
qed

lemma table_two_level:
  assumes "blocks_ok key_ok lt o1 bs"
  shows "two_level (opt_comparator o1) key_ok lt block_iter_ops (index_entries o1 bs)
    (block_stands key_ok lt (opt_comparator o1) 1 (index_entries o1 bs)) data_iter_ops bs
    (\<lambda>(k, l). data_stands key_ok lt (opt_comparator o1) (interval o1) (bs ! k) [l])
    (BlockReader fops cops) (data_iter_delete cops) (table_ok o1 bs H) options"
proof -
  have c: "comparator (opt_comparator o1) key_ok lt" and size: "length (data_bytes o1 bs) < 2 ^ 32"
    using assms by (simp_all add: blocks_ok_def blocks_bytes_def)
  show ?thesis
  proof (intro two_level.intro two_level_axioms.intro c comparator.block_iter [OF c], goal_cases)
    case (1 k l)
    then show ?case using comparator.data_iter [OF c] by simp
  next
    case (2 live a k)
    then show ?case using BlockReader_opens [OF assms] by (simp add: nth_index_entries)
  next
    case (3 l live a k d q)
    then show ?case using data_iter_deletes by (auto simp: data_stands_def)
  next
    case (5 k)
    then show ?case using blocks_okD(3) [OF assms] by blast
  next
    case (6 k e)
    then show ?case using blocks_okD(5) [OF assms] by blast
  next
    case (7 k)
    then show ?case using index_keys(1) [OF assms] by (simp add: nth_index_entries)
  next
    case (8 k e)
    then show ?case using index_keys(2) [OF assms] by (simp add: nth_index_entries)
  next
    case (9 k e)
    then show ?case using index_keys(3) [OF assms, of k "Suc k"] by (simp add: nth_index_entries)
  next
    case 10
    then show ?case using index_sorted [OF assms] by (simp add: sorted_entries_def)
  next
    case (11 j k)
    then have "handle_bytes (data_handle o1 bs j) = handle_bytes (data_handle o1 bs k)" by (simp add: nth_index_entries)
    then have "data_handle o1 bs j = data_handle o1 bs k" by (rule handle_bytes_inj)
    then show ?case using data_handle_inj [OF size 11(1,2)] by simp
  qed simp
qed

section \<open>Iterating\<close>

lemma index_iter:
  assumes "blocks_ok key_ok lt o1 bs" and "table_ok o1 bs H live t"
  shows "\<exists>it. Block_NewIterator (tab_index_block t) (opt_comparator (tab_options t)) = Some it
    \<and> block_stands key_ok lt (opt_comparator o1) 1 (index_entries o1 bs) it (length bs)"
proof -
  have c: "comparator (opt_comparator o1) key_ok lt" "build_ok (index_options o1)"
    and size: "length (block_contents (index_options o1) (index_entries o1 bs)) < 2 ^ 32"
    using assms(1) by (simp_all add: blocks_ok_def blocks_bytes_def index_contents_def)
  from comparator.block_of_stands [OF c size index_sorted [OF assms(1)]] show ?thesis
    using assms(2) by (simp add: table_ok_def)
qed

lemma Table_NewIterator_stands:
  assumes "blocks_ok key_ok lt o1 bs" and "table_ok o1 bs H {#} t"
  shows "\<exists>it stands. Table_NewIterator fops cops t options = Some it \<and> stands it (length (concat bs))
    \<and> iterator table_iter_ops (concat bs) stands key_ok lt
    \<and> (\<forall>it p. stands it p \<longrightarrow> (\<exists>t'. TwoLevel_delete it = Some t' \<and> table_ok o1 bs H {#} t'))"
proof -
  obtain index where index: "Block_NewIterator (tab_index_block t) (opt_comparator (tab_options t)) = Some index"
    "block_stands key_ok lt (opt_comparator o1) 1 (index_entries o1 bs) index (length (index_entries o1 bs))"
    using index_iter [OF assms] by auto
  note tl = table_two_level [OF assms(1), of H options]
  show ?thesis
    using two_level.NewTwoLevelIterator_stands [OF tl index(2) assms(2)] two_level.two_level_iterator [OF tl]
      two_level.TwoLevel_delete_good [OF tl] index(1)
    unfolding Table_NewIterator_def by (auto 4 4)
qed

section \<open>Looking up\<close>

lemma filter_answers:
  assumes "blocks_ok key_ok lt o1 bs" and "opt_filter_policy o1 = Some p" and "filter_policy p fmost" and "length (concat bs) \<le> fmost"
    and "FilterBlockReader_new p (filter_contents o1 p bs) = Some r" and "k < length bs"
  shows "\<exists>b. FilterBlock_KeyMayMatch r (bh_offset (data_handle o1 bs k)) key = Some b \<and> (key \<in> fst ` set (bs ! k) \<longrightarrow> b)"
proof -
  let ?bls = "filter_calls o1 bs (length bs) []"
  have size: "length (blocks_bytes o1 bs) < 2 ^ 32" using assms(1) by (simp add: blocks_ok_def)
  have off: "unat (of_nat (block_offset o1 bs i) :: u64) = block_offset o1 bs i" for i
    using block_offset_le [of o1 bs i] size by (simp add: blocks_bytes_def)
  have mono: "block_offset o1 bs i \<le> block_offset o1 bs j" if "i \<le> j" "j \<le> length bs" for i j
    using block_offset_less [of i j bs o1] that by (cases "i = j") auto
  have "map (unat \<circ> fst) ?bls = map (block_offset o1 bs) [0..<Suc (length bs)]"
    by (simp add: filter_calls_def comp_def off)
  then have "sorted (map (unat \<circ> fst) ?bls)" by (simp only: sorted_iff_nth_mono) (simp add: mono del: upt_Suc)
  moreover have lens: "map (\<lambda>k. length (bs ! k)) [0..<length bs] = map length bs" by (rule nth_equalityI) simp_all
  moreover have "sum_list (map (length \<circ> snd) ?bls) \<le> fmost"
    using assms(4) lens by (simp add: filter_calls_def comp_def length_concat)
  moreover have "length (filter_contents o1 p bs) < 2 ^ 32" using size assms(2) by (simp add: blocks_bytes_def filter_part_def)
  moreover have "(bh_offset (data_handle o1 bs k), map fst (bs ! k)) \<in> set ?bls"
    using assms(6) by (auto simp: filter_calls_def data_handle_def)
  ultimately show ?thesis
    using filter_block_finds_keys [OF assms(3), of ?bls "filter_contents o1 p bs"] assms(5)
    unfolding filter_contents_def by fastforce
qed

text \<open>What a lookup of \<open>k\<close> may do to the argument of the callback.\<close>

definition get_result ::
  "(byte list \<Rightarrow> byte list \<Rightarrow> bool) \<Rightarrow> entry list \<Rightarrow> byte list \<Rightarrow> 's \<Rightarrow> ('s \<Rightarrow> byte list \<Rightarrow> byte list \<Rightarrow> 's) \<Rightarrow> 's \<Rightarrow> bool" where
  "get_result lt es k arg handle_result arg' \<longleftrightarrow>
     (if k \<in> fst ` set es then \<exists>v. (k, v) \<in> set es \<and> arg' = handle_result arg k v
      else arg' = arg \<or> (\<exists>e\<in>set es. lt k (fst e) \<and> arg' = handle_result arg (fst e) (snd e)))"

lemma get_result_block:
  assumes "blocks_ok key_ok lt o1 bs" and "key_ok k" and "j = first_ge lt k (index_entries o1 bs)" and "j < length bs"
    and "q = first_ge lt k (bs ! j)"
    and "arg' = (if q < length (bs ! j) then handle_result arg (fst (bs ! j ! q)) (snd (bs ! j ! q)) else arg)"
  shows "get_result lt (concat bs) k arg handle_result arg'"
proof -
  have c: "comparator (opt_comparator o1) key_ok lt" using assms(1) by (simp add: blocks_ok_def)
  show ?thesis
  proof (cases "k \<in> fst ` set (concat bs)")
    case True
    then obtain v where "(k, v) \<in> set (concat bs)" by (auto simp del: set_concat)
    then obtain b where b: "b \<in> set bs" "(k, v) \<in> set b" unfolding set_concat by blast
    then obtain m where m: "m < length bs" "bs ! m = b" by (auto simp: in_set_conv_nth)
    have "j = m" using index_finds_block [OF assms(1) m(1)] b(2) m(2) assms(3) by simp
    then have "q < length (bs ! j)" "bs ! j ! q = (k, v)"
      using first_ge_key [OF c blocks_okD(1) [OF assms(1) m(1)], of k v] b(2) m(2) assms(5) by auto
    then show ?thesis using True \<open>(k, v) \<in> set (concat bs)\<close> assms(6) unfolding get_result_def by (metis fst_conv snd_conv)
  next
    case False
    show ?thesis
    proof (cases "q < length (bs ! j)")
      case True
      let ?e = "bs ! j ! q"
      have e: "?e \<in> set (bs ! j)" using True by simp
      then have in_table: "?e \<in> set (concat bs)" using assms(4) by auto
      have "\<not> lt (fst ?e) k" using first_ge_at [of lt k "bs ! j"] True assms(5) by simp
      moreover have "fst ?e \<noteq> k" using False in_table by (auto simp del: set_concat)
      ultimately have "lt k (fst ?e)"
        using comparator.less_linear [OF c assms(2) blocks_okD(5) [OF assms(1,4) e]] by auto
      then show ?thesis using False True in_table assms(6) unfolding get_result_def by auto
    qed (use False assms(6) in \<open>simp add: get_result_def\<close>)
  qed
qed

lemma Table_InternalGet_finds:
  assumes "blocks_ok key_ok lt o1 bs" and "table_ok o1 bs H {#} t" and "key_ok k"
    and "\<forall>p. opt_filter_policy o1 = Some p \<longrightarrow> filter_policy p fmost \<and> length (concat bs) \<le> fmost"
  shows "\<exists>s arg' t'. Table_InternalGet fops cops t options k arg handle_result = Some (s, arg', t') \<and> ok s
    \<and> table_ok o1 bs H {#} t' \<and> get_result lt (concat bs) k arg handle_result arg'"
proof -
  let ?c = "opt_comparator o1" and ?ies = "index_entries o1 bs"
  let ?j = "first_ge lt k ?ies"
  have c: "comparator ?c key_ok lt" using assms(1) by (simp add: blocks_ok_def)
  have it_index: "iterator block_iter_ops ?ies (block_stands key_ok lt ?c 1 ?ies) key_ok lt" by (rule comparator.block_iter [OF c])
  obtain it where it: "Block_NewIterator (tab_index_block t) (opt_comparator (tab_options t)) = Some it"
    "block_stands key_ok lt ?c 1 ?ies it (length bs)"
    using index_iter [OF assms(1,2)] by blast
  obtain it1 where it1: "i_Seek block_iter_ops it k = Some it1" "block_stands key_ok lt ?c 1 ?ies it1 ?j"
    using iterator.Seek_stands [OF it_index it(2) assms(3)] by blast
  have valid: "i_Valid block_iter_ops it1 = (?j < length bs)" using iterator.Valid_iff [OF it_index it1(2)] by simp
  have status: "ok (i_status block_iter_ops it1)" by (rule iterator.status_ok [OF it_index it1(2)])
  show ?thesis
  proof (cases "?j < length bs")
    case False
    have "k \<notin> fst ` set (concat bs)"
    proof
      assume "k \<in> fst ` set (concat bs)"
      then obtain b v where b: "b \<in> set bs" "(k, v) \<in> set b" by auto
      then obtain m where m: "m < length bs" "bs ! m = b" by (auto simp: in_set_conv_nth)
      show False using index_finds_block [OF assms(1) m(1), of k v] b(2) m False by simp
    qed
    then have "get_result lt (concat bs) k arg handle_result arg" by (simp add: get_result_def)
    then show ?thesis using False it(1) it1(1) valid status assms(2) by (simp add: Table_InternalGet_def)
  next
    case True
    let ?h = "data_handle o1 bs ?j" and ?b = "bs ! ?j"
    have v: "i_value block_iter_ops it1 = Some (handle_bytes ?h)"
      using iterator.value_eq [OF it_index it1(2)] True by (simp add: nth_index_entries)
    have dec: "BlockHandle_DecodeFrom BlockHandle_new (handle_bytes ?h) = (Status_OK, ?h, [])"
      using BlockHandle_DecodeFrom_eq [of BlockHandle_new ?h "[]"] by simp
    have "\<exists>m. (case tab_filter t of
               None \<Rightarrow> Some True
             | Some fr \<Rightarrow>
                 (case BlockHandle_DecodeFrom BlockHandle_new (handle_bytes ?h) of (s, handle, rest) \<Rightarrow>
                    if ok s then FilterBlock_KeyMayMatch fr (bh_offset handle) k else Some True)) = Some m
        \<and> (k \<in> fst ` set ?b \<longrightarrow> m)"
    proof (cases "tab_filter t")
      case (Some r)
      then obtain p where p: "opt_filter_policy o1 = Some p" "FilterBlockReader_new p (filter_contents o1 p bs) = Some r"
        using assms(2) by (auto simp: table_ok_def filter_ok_def)
      then have "filter_policy p fmost" "length (concat bs) \<le> fmost" using assms(4) by blast+
      from filter_answers [OF assms(1) p(1) this p(2) True, of k] show ?thesis by (simp add: Some dec)
    qed auto
    then obtain m where m: "(case tab_filter t of
               None \<Rightarrow> Some True
             | Some fr \<Rightarrow>
                 (case BlockHandle_DecodeFrom BlockHandle_new (handle_bytes ?h) of (s, handle, rest) \<Rightarrow>
                    if ok s then FilterBlock_KeyMayMatch fr (bh_offset handle) k else Some True)) = Some m"
      "k \<in> fst ` set ?b \<longrightarrow> m" by blast
    show ?thesis
    proof (cases m)
      case False
      have "k \<notin> fst ` set (concat bs)"
      proof
        assume "k \<in> fst ` set (concat bs)"
        then obtain b v where b: "b \<in> set bs" "(k, v) \<in> set b" by auto
        then obtain i where i: "i < length bs" "bs ! i = b" by (auto simp: in_set_conv_nth)
        then have "(k, v) \<in> set ?b" using index_finds_block [OF assms(1) i(1), of k v] b(2) by simp
        then show False using m(2) False by force
      qed
      then have "get_result lt (concat bs) k arg handle_result arg" by (simp add: get_result_def)
      then show ?thesis using False True it(1) it1(1) valid status assms(2) v m(1) by (simp add: Table_InternalGet_def)
    next
      case mm: True
      obtain d l t1 where d: "BlockReader fops cops t options (handle_bytes ?h) = Some (d, t1)"
        "table_ok o1 bs H (add_mset l {#}) t1" "data_stands key_ok lt ?c (interval o1) ?b [l] d (length ?b)"
        using BlockReader_opens [OF assms(1) True assms(2), of options] by auto
      have it_data: "iterator data_iter_ops ?b (data_stands key_ok lt ?c (interval o1) ?b [l]) key_ok lt"
        by (rule comparator.data_iter [OF c])
      let ?q = "first_ge lt k ?b"
      obtain d1 where d1: "i_Seek data_iter_ops d k = Some d1" "data_stands key_ok lt ?c (interval o1) ?b [l] d1 ?q"
        using iterator.Seek_stands [OF it_data d(3) assms(3)] by blast
      obtain t2 where t2: "data_iter_delete cops d1 t1 = Some t2" "table_ok o1 bs H {#} t2"
        using data_iter_deletes [OF d(2), of d1] d1(2) by (auto simp: data_stands_def)
      let ?arg = "if ?q < length ?b then handle_result arg (fst (?b ! ?q)) (snd (?b ! ?q)) else arg"
      have call: "(if i_Valid data_iter_ops d1 then do {
                 key \<leftarrow> i_key data_iter_ops d1;
                 v \<leftarrow> i_value data_iter_ops d1;
                 Some (handle_result arg key v)
               }
               else Some arg) = Some ?arg"
        using iterator.Valid_iff [OF it_data d1(2)] iterator.key_eq [OF it_data d1(2)] iterator.value_eq [OF it_data d1(2)]
        by simp
      have "get_result lt (concat bs) k arg handle_result ?arg" by (rule get_result_block [OF assms(1,3) refl True refl refl])
      moreover have "ok (i_status data_iter_ops d1)" by (rule iterator.status_ok [OF it_data d1(2)])
      moreover have "Table_InternalGet fops cops t options k arg handle_result
          = Some (i_status block_iter_ops it1, ?arg, t2)"
        unfolding Table_InternalGet_def it(1) bind.bind_lunit it1(1) valid v m(1)
        using True mm d(1) d1(1) call t2(1) \<open>ok (i_status data_iter_ops d1)\<close> by (simp add: Let_def)
      ultimately show ?thesis using t2(2) status by blast
    qed
  qed
qed

section \<open>Opening\<close>

lemma ReadBlock_place:
  assumes "readable f" and "content f = blocks_bytes o1 bs" and "length (blocks_bytes o1 bs) < 2 ^ 32"
    and "take (length c + 5) (drop n (blocks_bytes o1 bs)) = raw_block c"
    and "h = \<lparr>bh_offset = of_nat n, bh_size = of_nat (length c)\<rparr>"
  shows "\<exists>bc f'. ReadBlock fops f options h = Some (Status_OK, bc, f') \<and> readable f' \<and> content f' = blocks_bytes o1 bs \<and> bc_data bc = c"
proof -
  have "length c + 5 \<le> length (drop n (blocks_bytes o1 bs))" using arg_cong [OF assms(4), of length] by simp
  then have "n < 2 ^ 32" "length c < 2 ^ 32" using assms(3) by simp_all
  then have u: "unat (bh_offset h) = n" "unat (bh_size h) = length c" by (simp_all add: assms(5))
  have "take (length c + 5) (drop (unat (bh_offset h)) (content f)) = raw_block c" by (simp add: u(1) assms(2,4))
  from ReadBlock_raw [OF assms(1) this u(2), of options] assms(2,3) show ?thesis by auto
qed

lemma FilterBlockReader_new_total: "\<exists>r. FilterBlockReader_new p c = Some r"
proof (cases "length c < 5")
  case False
  then have "\<exists>w. DecodeFixed32 (drop (length c - 5) c) = Some w" by (simp add: DecodeFixed32_def)
  then show ?thesis using False by (auto simp: FilterBlockReader_new_def Let_def)
qed (simp add: FilterBlockReader_new_def)

lemma sorted_meta: "sorted_entries (\<lambda>_. True) bytes_less (meta_entries o1 bs)"
  by (simp add: sorted_entries_def meta_entries_def split: option.split)

lemma Table_ReadMeta_ok:
  assumes "blocks_ok key_ok lt o1 bs" and "table_ok o1 bs H {#} t" and "tab_filter t = None"
    and "opt_filter_policy (tab_options t) = None \<or> opt_filter_policy o1 = None \<or> opt_filter_policy (tab_options t) = opt_filter_policy o1"
    and "ft_metaindex_handle footer = meta_handle o1 bs"
  shows "\<exists>t'. Table_ReadMeta fops t footer = Some t' \<and> table_ok o1 bs H {#} t' \<and> tab_options t' = tab_options t"
proof (cases "opt_filter_policy (tab_options t)")
  case None
  then show ?thesis using assms(2) by (simp add: Table_ReadMeta_def)
next
  case (Some p)
  have size: "length (blocks_bytes o1 bs) < 2 ^ 32" and o1: "build_ok o1" using assms(1) by (simp_all add: blocks_ok_def)
  have f: "readable (tab_file t)" "content (tab_file t) = blocks_bytes o1 bs" using assms(2) by (simp_all add: table_ok_def)
  have "length (meta_contents o1 bs) < 2 ^ 32" using size by (simp add: blocks_bytes_def)
  note meta = block_of(1) [OF o1 this [unfolded meta_contents_def]] bytewise.block_of_stands [OF o1 this [unfolded meta_contents_def] sorted_meta]
  obtain bc f1 where r: "ReadBlock fops (tab_file t) (read_options (tab_options t)) (meta_handle o1 bs) = Some (Status_OK, bc, f1)"
    "readable f1" "content f1 = blocks_bytes o1 bs" "bc_data bc = meta_contents o1 bs"
    using ReadBlock_place [OF f size meta_block_at meta_handle_def] by blast
  obtain it where it: "Block_NewIterator (block_of o1 (meta_entries o1 bs)) BytewiseComparator = Some it"
    "block_stands (\<lambda>_. True) bytes_less BytewiseComparator (interval o1) (meta_entries o1 bs) it (length (meta_entries o1 bs))"
    using meta(2) by blast
  let ?p = "first_ge bytes_less (filter_key p) (meta_entries o1 bs)"
  note iter = bytewise.block_iter [of "meta_entries o1 bs" "interval o1"]
  obtain it1 where it1: "i_Seek block_iter_ops it (filter_key p) = Some it1"
    "block_stands (\<lambda>_. True) bytes_less BytewiseComparator (interval o1) (meta_entries o1 bs) it1 ?p"
    using iterator.Seek_stands [OF iter it(2)] by blast
  have t1: "table_ok o1 bs H {#} (t\<lparr>tab_file := f1\<rparr>)" by (rule table_ok_file [OF assms(2) r(2,3)])
  have run: "Table_ReadMeta fops t footer =
      (if \<not> i_Valid block_iter_ops it1 then Some (t\<lparr>tab_file := f1\<rparr>)
       else do {
         key \<leftarrow> i_key block_iter_ops it1;
         if key = filter_key p
         then do { v \<leftarrow> i_value block_iter_ops it1; Table_ReadFilter fops (t\<lparr>tab_file := f1\<rparr>) p v }
         else Some (t\<lparr>tab_file := f1\<rparr>)
       })"
    using r(1,4) meta(1) it(1) it1(1) unfolding meta_contents_def
    by (simp add: Table_ReadMeta_def Some assms(5) Let_def)
  show ?thesis
  proof (cases "opt_filter_policy o1")
    case None
    then have "meta_entries o1 bs = []" by (simp add: meta_entries_def)
    then have "\<not> i_Valid block_iter_ops it1" using iterator.Valid_iff [OF iter it1(2)] by simp
    then show ?thesis using run t1 by simp
  next
    case o1p: (Some p1)
    then have p1: "p1 = p" using assms(4) Some by simp
    have es: "meta_entries o1 bs = [(filter_key p, handle_bytes (filter_handle o1 p bs))]"
      using o1p p1 by (simp add: meta_entries_def filter_key_def)
    then have p0: "?p = 0" by (simp add: first_ge_def)
    have at: "i_Valid block_iter_ops it1" "i_key block_iter_ops it1 = Some (filter_key p)"
      "i_value block_iter_ops it1 = Some (handle_bytes (filter_handle o1 p bs))"
      using iterator.Valid_iff [OF iter it1(2)] iterator.key_eq [OF iter it1(2)] iterator.value_eq [OF iter it1(2)]
      by (simp_all add: p0 es p0 [unfolded es])
    have f1: "readable (tab_file (t\<lparr>tab_file := f1\<rparr>))" "content (tab_file (t\<lparr>tab_file := f1\<rparr>)) = blocks_bytes o1 bs"
      using r(2,3) by simp_all
    obtain fb f2 where r2: "ReadBlock fops f1 (read_options (tab_options t)) (filter_handle o1 p bs) = Some (Status_OK, fb, f2)"
      "readable f2" "content f2 = blocks_bytes o1 bs" "bc_data fb = filter_contents o1 p bs"
      using ReadBlock_place [OF r(2,3) size filter_block_at [OF o1p [unfolded p1]] filter_handle_def] by blast
    obtain rd where rd: "FilterBlockReader_new p (filter_contents o1 p bs) = Some rd" using FilterBlockReader_new_total by blast
    have dec: "BlockHandle_DecodeFrom BlockHandle_new (handle_bytes (filter_handle o1 p bs)) = (Status_OK, filter_handle o1 p bs, [])"
      using BlockHandle_DecodeFrom_eq [of BlockHandle_new "filter_handle o1 p bs" "[]"] by simp
    have "filter_ok o1 bs (Some rd)" using o1p p1 rd by (simp add: filter_ok_def)
    then have "table_ok o1 bs H {#} (t\<lparr>tab_file := f2, tab_filter_data := fd, tab_filter := Some rd\<rparr>)" for fd
      using assms(2) r2(2,3) by (simp add: table_ok_def)
    then show ?thesis
      using run at r2(1,4) rd dec by (simp add: Table_ReadFilter_def Let_def)
  qed
qed

text \<open>What is asked of the block cache before a table is opened.\<close>

definition cache_fresh :: "'h multiset \<Rightarrow> 'c option \<Rightarrow> bool" where
  "cache_fresh H cc \<longleftrightarrow>
     (\<forall>c. cc = Some c \<longrightarrow> works c \<and> held c = H \<and> size H + 2 \<le> most \<and> (\<forall>n. 0 < n \<and> n < 2 ^ 32 \<longrightarrow> charge_ok n)
        \<and> (\<forall>i c' (n :: u64) v. ca_NewId cops c = Some (i, c') \<longrightarrow> (le_bytes 8 i @ le_bytes 8 n, v) \<notin> known c))"

lemma Table_Open_ok:
  assumes "blocks_ok key_ok lt o1 bs" and "readable f" and "content f = blocks_bytes o1 bs"
    and "opt_comparator o2 = opt_comparator o1"
    and "opt_filter_policy o2 = None \<or> opt_filter_policy o1 = None \<or> opt_filter_policy o2 = opt_filter_policy o1"
    and "cache_fresh H cc"
  shows "\<exists>t. Table_Open fops cops o2 cc f (of_nat (length (content f))) = Some (Status_OK, Inr t) \<and> table_ok o1 bs H {#} t"
proof -
  let ?n = "length (blocks_bytes o1 bs)"
  let ?ft = "\<lparr>ft_metaindex_handle = meta_handle o1 bs, ft_index_handle = index_handle o1 bs\<rparr>"
  have size: "?n < 2 ^ 32" and o1: "build_ok o1" using assms(1) by (simp_all add: blocks_ok_def)
  have n48: "48 \<le> ?n" by (simp add: blocks_bytes_def)
  have u: "unat (of_nat ?n :: u64) = ?n" using size by simp
  have off: "unat (of_nat ?n - 48 :: u64) = ?n - 48" using n48 u by (simp add: unat_sub word_le_nat_alt)
  have "drop (?n - 48) (blocks_bytes o1 bs) = footer_bytes ?ft" by (simp add: blocks_bytes_def)
  then obtain f1 where f1: "rf_Read fops f (of_nat ?n - 48) 48 = Some (Status_OK, footer_bytes ?ft, f1)" "readable f1"
    "content f1 = blocks_bytes o1 bs"
    using Read_at [OF assms(2), of "of_nat ?n - 48" 48] n48 off by (auto simp: assms(3))
  have foot: "Footer_DecodeFrom f0 (footer_bytes ?ft) = Some (Status_OK, ?ft, [])" for f0
    using Footer_DecodeFrom_eq [of f0 ?ft "[]"] by simp
  obtain bc f2 where r: "ReadBlock fops f1 (read_options o2) (index_handle o1 bs) = Some (Status_OK, bc, f2)" "readable f2"
    "content f2 = blocks_bytes o1 bs" "bc_data bc = index_contents o1 bs"
    using ReadBlock_place [OF f1(2,3) size index_block_at index_handle_def] by blast
  have "length (index_contents o1 bs) < 2 ^ 32" using size by (simp add: blocks_bytes_def)
  then have index: "Block_new (index_contents o1 bs) = Some (block_of (index_options o1) (index_entries o1 bs))"
    unfolding index_contents_def by (intro block_of(1) build_ok_index o1)
  obtain i cc1 where id: "(case cc of None \<Rightarrow> Some (0, None) | Some c \<Rightarrow> do { (i, c) \<leftarrow> ca_NewId cops c; Some (i, Some c) }) = Some (i, cc1)"
    "cache_ok o1 bs H {#} i cc1"
  proof (cases cc)
    case None
    then show ?thesis using that [of 0 None] by (simp add: cache_ok_def)
  next
    case (Some c)
    then have c: "works c" "held c = H" "size H + 2 \<le> most" "\<forall>n. 0 < n \<and> n < 2 ^ 32 \<longrightarrow> charge_ok n"
      "\<And>i c' (n :: u64) v. ca_NewId cops c = Some (i, c') \<Longrightarrow> (le_bytes 8 i @ le_bytes 8 n, v) \<notin> known c"
      using assms(6) by (auto simp: cache_fresh_def)
    obtain i c1 where n: "ca_NewId cops c = Some (i, c1)" "works c1" "held c1 = held c" "known c1 \<subseteq> known c"
      using NewId_works [OF c(1)] by blast
    have "cache_ok o1 bs H {#} i (Some c1)"
      using c n(2-4) c(5) [OF n(1)] by (auto simp: cache_ok_def releases_def)
    then show ?thesis using that [of i "Some c1"] Some n(1) by simp
  qed
  let ?t = "\<lparr>tab_options = o2, tab_block_cache = cc1, tab_status = Status_OK, tab_file = f2, tab_cache_id = i, tab_filter = None,
    tab_filter_data = None, tab_metaindex_handle = meta_handle o1 bs, tab_index_block = block_of (index_options o1) (index_entries o1 bs)\<rparr>"
  have t: "table_ok o1 bs H {#} ?t" using assms(4) r(2,3) id(2) by (simp add: table_ok_def filter_ok_def)
  obtain t1 where t1: "Table_ReadMeta fops ?t ?ft = Some t1" "table_ok o1 bs H {#} t1"
    using Table_ReadMeta_ok [OF assms(1) t, of ?ft] assms(5) by auto
  show ?thesis
    using n48 u f1(1) foot r(1,4) index id(1) t1
    unfolding Table_Open_def assms(3) by (simp add: kEncodedLength_def kMaxEncodedLength_def)
qed

end

end
