(* ===== verification/LDB_LRU_Cache.thy ===== *)
theory LDB_LRU_Cache
  imports LDB_Cache LDB_Bloom
begin

text \<open>
  \<^verbatim>\<open>util/cache.cc\<close> of \<^verbatim>\<open>src/MovieDBApp/Pods/leveldb-library\<close>: the LRU cache, in shards, with
  its doubly linked lists and its hash table of chained entries.

  The link fields of the nodes are functions of pointers; the two list heads of a shard are
  nodes too. The other fields are in a heap of the handles that are allocated, and reading
  or writing a handle that has been freed is \<^const>\<open>None\<close>, as are failed assertions and loops
  that do not end. A new handle gets an address not used before. \<open>lc_deleted\<close> are the calls
  of the deleters. The mutex is not modelled: each operation is one step.
\<close>

section \<open>Memory\<close>

datatype ptr = Null | Lru | InUse | Handle nat

record 'v LRUHandle =
  lh_value :: 'v
  lh_charge :: size_t
  lh_key :: "byte list"
  lh_in_cache :: bool
  lh_refs :: u32
  lh_hash :: u32

record 'v LRUCache =
  lc_capacity :: size_t
  lc_usage :: size_t
  lc_next :: "ptr \<Rightarrow> ptr"
  lc_prev :: "ptr \<Rightarrow> ptr"
  lc_next_hash :: "ptr \<Rightarrow> ptr"
  lc_heap :: "nat \<Rightarrow> 'v LRUHandle option"
  lc_fresh :: nat
  lc_length :: u32
  lc_elems :: u32
  lc_list :: "ptr list"
  lc_deleted :: "(byte list \<times> 'v) list"

definition lc_live :: "'v LRUCache \<Rightarrow> ptr \<Rightarrow> bool" where
  "lc_live c p \<longleftrightarrow> (case p of Null \<Rightarrow> False | Lru \<Rightarrow> True | InUse \<Rightarrow> True | Handle n \<Rightarrow> lc_heap c n \<noteq> None)"

definition lc_entry :: "'v LRUCache \<Rightarrow> ptr \<Rightarrow> 'v LRUHandle option" where
  "lc_entry c p = (case p of Handle n \<Rightarrow> lc_heap c n | _ \<Rightarrow> None)"

fun lc_update :: "'v LRUCache \<Rightarrow> ptr \<Rightarrow> 'v LRUHandle \<Rightarrow> 'v LRUCache" where
  "lc_update c (Handle n) e = c\<lparr>lc_heap := (lc_heap c)(n \<mapsto> e)\<rparr>"
| "lc_update c p e = c"

text \<open>\<^verbatim>\<open>LRUHandle::key\<close> asserts that the node is not the head of an empty list.\<close>

definition LRUHandle_key :: "'v LRUCache \<Rightarrow> ptr \<Rightarrow> byte list option" where
  "LRUHandle_key c p = do { e \<leftarrow> lc_entry c p; if lc_next c p = p then None else Some (lh_key e) }"

section \<open>Hash table\<close>

datatype slot = Bucket nat | NextHash ptr

definition read_slot :: "'v LRUCache \<Rightarrow> slot \<Rightarrow> ptr option" where
  "read_slot c s = (case s of Bucket i \<Rightarrow> if i < length (lc_list c) then Some (lc_list c ! i) else None
     | NextHash p \<Rightarrow> if lc_entry c p = None then None else Some (lc_next_hash c p))"

definition write_slot :: "'v LRUCache \<Rightarrow> slot \<Rightarrow> ptr \<Rightarrow> 'v LRUCache" where
  "write_slot c s q = (case s of Bucket i \<Rightarrow> c\<lparr>lc_list := (lc_list c)[i := q]\<rparr>
     | NextHash p \<Rightarrow> c\<lparr>lc_next_hash := (lc_next_hash c)(p := q)\<rparr>)"

partial_function (option) FindPointer_loop :: "'v LRUCache \<Rightarrow> byte list \<Rightarrow> u32 \<Rightarrow> slot \<Rightarrow> slot option" where
  "FindPointer_loop c key hash s = do {
     p \<leftarrow> read_slot c s;
     if p = Null then Some s
     else do {
       e \<leftarrow> lc_entry c p;
       differs \<leftarrow> (if lh_hash e \<noteq> hash then Some True else do { k \<leftarrow> LRUHandle_key c p; Some (key \<noteq> k) });
       if differs then FindPointer_loop c key hash (NextHash p) else Some s
     }
   }"

definition FindPointer :: "'v LRUCache \<Rightarrow> byte list \<Rightarrow> u32 \<Rightarrow> slot option" where
  "FindPointer c key hash = FindPointer_loop c key hash (Bucket (unat (hash AND (lc_length c - 1))))"

text \<open>\<^verbatim>\<open>Resize\<close>: the loop that finds the length, and those that move a chain and all chains.\<close>

partial_function (option) new_length_loop :: "u32 \<Rightarrow> u32 \<Rightarrow> u32 option" where
  "new_length_loop elems new_length = (if new_length < elems then new_length_loop elems (new_length * 2) else Some new_length)"

partial_function (option) move_chain ::
  "'v LRUCache \<Rightarrow> u32 \<Rightarrow> ptr \<Rightarrow> ptr list \<Rightarrow> u32 \<Rightarrow> ('v LRUCache \<times> ptr list \<times> u32) option" where
  "move_chain c new_length h new_list moved =
     (if h = Null then Some (c, new_list, moved)
      else do {
        e \<leftarrow> lc_entry c h;
        let next = lc_next_hash c h;
        let i = unat (lh_hash e AND (new_length - 1));
        if i \<ge> length new_list then None
        else move_chain (c\<lparr>lc_next_hash := (lc_next_hash c)(h := new_list ! i)\<rparr>) new_length next (new_list[i := h]) (moved + 1)
      })"

fun move_chains :: "ptr list \<Rightarrow> 'v LRUCache \<Rightarrow> u32 \<Rightarrow> ptr list \<Rightarrow> u32 \<Rightarrow> ('v LRUCache \<times> ptr list \<times> u32) option" where
  "move_chains [] c new_length new_list moved = Some (c, new_list, moved)"
| "move_chains (h # hs) c new_length new_list moved = do {
     (c, new_list, moved) \<leftarrow> move_chain c new_length h new_list moved;
     move_chains hs c new_length new_list moved
   }"

definition HandleTable_Resize :: "'v LRUCache \<Rightarrow> 'v LRUCache option" where
  "HandleTable_Resize c = do {
     new_length \<leftarrow> new_length_loop (lc_elems c) 4;
     (c, new_list, moved) \<leftarrow> move_chains (lc_list c) c new_length (replicate (unat new_length) Null) 0;
     if lc_elems c \<noteq> moved then None else Some (c\<lparr>lc_list := new_list, lc_length := new_length\<rparr>)
   }"

definition HandleTable_Lookup :: "'v LRUCache \<Rightarrow> byte list \<Rightarrow> u32 \<Rightarrow> ptr option" where
  "HandleTable_Lookup c key hash = do { s \<leftarrow> FindPointer c key hash; read_slot c s }"

definition HandleTable_Insert :: "'v LRUCache \<Rightarrow> ptr \<Rightarrow> (ptr \<times> 'v LRUCache) option" where
  "HandleTable_Insert c h = do {
     e \<leftarrow> lc_entry c h;
     k \<leftarrow> LRUHandle_key c h;
     s \<leftarrow> FindPointer c k (lh_hash e);
     old \<leftarrow> read_slot c s;
     let c = c\<lparr>lc_next_hash := (lc_next_hash c)(h := (if old = Null then Null else lc_next_hash c old))\<rparr>;
     let c = write_slot c s h;
     if old = Null then do {
       let c = c\<lparr>lc_elems := lc_elems c + 1\<rparr>;
       c \<leftarrow> (if lc_elems c > lc_length c then HandleTable_Resize c else Some c);
       Some (old, c)
     }
     else Some (old, c)
   }"

definition HandleTable_Remove :: "'v LRUCache \<Rightarrow> byte list \<Rightarrow> u32 \<Rightarrow> (ptr \<times> 'v LRUCache) option" where
  "HandleTable_Remove c key hash = do {
     s \<leftarrow> FindPointer c key hash;
     result \<leftarrow> read_slot c s;
     if result \<noteq> Null
     then let c = write_slot c s (lc_next_hash c result) in Some (result, c\<lparr>lc_elems := lc_elems c - 1\<rparr>)
     else Some (result, c)
   }"

section \<open>A shard\<close>

text \<open>The constructor, with the table's, which calls \<^verbatim>\<open>Resize\<close> on an empty table.\<close>

definition LRUCache_new :: "'v LRUCache" where
  "LRUCache_new =
     \<lparr>lc_capacity = 0, lc_usage = 0, lc_next = (\<lambda>p. p), lc_prev = (\<lambda>p. p), lc_next_hash = (\<lambda>p. Null), lc_heap = (\<lambda>n. None),
      lc_fresh = 0, lc_length = 4, lc_elems = 0, lc_list = replicate 4 Null, lc_deleted = []\<rparr>"

definition LRUCache_SetCapacity :: "'v LRUCache \<Rightarrow> size_t \<Rightarrow> 'v LRUCache" where
  "LRUCache_SetCapacity c capacity = c\<lparr>lc_capacity := capacity\<rparr>"

definition LRU_Remove :: "'v LRUCache \<Rightarrow> ptr \<Rightarrow> 'v LRUCache option" where
  "LRU_Remove c e =
     (if lc_live c e \<and> lc_live c (lc_next c e) \<and> lc_live c (lc_prev c e) then
        let c = c\<lparr>lc_prev := (lc_prev c)(lc_next c e := lc_prev c e)\<rparr>
        in Some (c\<lparr>lc_next := (lc_next c)(lc_prev c e := lc_next c e)\<rparr>)
      else None)"

definition LRU_Append :: "'v LRUCache \<Rightarrow> ptr \<Rightarrow> ptr \<Rightarrow> 'v LRUCache option" where
  "LRU_Append c list e =
     (if lc_live c e \<and> lc_live c list \<and> lc_live c (lc_prev c list) then
        let c = c\<lparr>lc_next := (lc_next c)(e := list)\<rparr>;
            c = c\<lparr>lc_prev := (lc_prev c)(e := lc_prev c list)\<rparr>;
            c = c\<lparr>lc_next := (lc_next c)(lc_prev c e := e)\<rparr>
        in Some (c\<lparr>lc_prev := (lc_prev c)(lc_next c e := e)\<rparr>)
      else None)"

definition LRUCache_Ref :: "'v LRUCache \<Rightarrow> ptr \<Rightarrow> 'v LRUCache option" where
  "LRUCache_Ref c p = do {
     e \<leftarrow> lc_entry c p;
     c \<leftarrow> (if lh_refs e = 1 \<and> lh_in_cache e then do { c \<leftarrow> LRU_Remove c p; LRU_Append c InUse p } else Some c);
     e \<leftarrow> lc_entry c p;
     Some (lc_update c p (e\<lparr>lh_refs := lh_refs e + 1\<rparr>))
   }"

fun lc_free :: "'v LRUCache \<Rightarrow> ptr \<Rightarrow> 'v LRUCache" where
  "lc_free c (Handle n) = c\<lparr>lc_heap := (lc_heap c)(n := None)\<rparr>"
| "lc_free c p = c"

definition LRUCache_Unref :: "'v LRUCache \<Rightarrow> ptr \<Rightarrow> 'v LRUCache option" where
  "LRUCache_Unref c p = do {
     e \<leftarrow> lc_entry c p;
     if \<not> lh_refs e > 0 then None
     else do {
       let e = e\<lparr>lh_refs := lh_refs e - 1\<rparr>;
       let c = lc_update c p e;
       if lh_refs e = 0 then
         if lh_in_cache e then None
         else do {
           k \<leftarrow> LRUHandle_key c p;
           Some (lc_free (c\<lparr>lc_deleted := lc_deleted c @ [(k, lh_value e)]\<rparr>) p)
         }
       else if lh_in_cache e \<and> lh_refs e = 1 then do { c \<leftarrow> LRU_Remove c p; LRU_Append c Lru p }
       else Some c
     }
   }"

definition LRUCache_FinishErase :: "'v LRUCache \<Rightarrow> ptr \<Rightarrow> (bool \<times> 'v LRUCache) option" where
  "LRUCache_FinishErase c p =
     (if p \<noteq> Null then do {
        e \<leftarrow> lc_entry c p;
        if \<not> lh_in_cache e then None
        else do {
          c \<leftarrow> LRU_Remove c p;
          let c = lc_update c p (e\<lparr>lh_in_cache := False\<rparr>);
          let c = c\<lparr>lc_usage := lc_usage c - lh_charge e\<rparr>;
          c \<leftarrow> LRUCache_Unref c p;
          Some (True, c)
        }
      }
      else Some (False, c))"

definition LRUCache_Lookup :: "'v LRUCache \<Rightarrow> byte list \<Rightarrow> u32 \<Rightarrow> (ptr \<times> 'v LRUCache) option" where
  "LRUCache_Lookup c key hash = do {
     e \<leftarrow> HandleTable_Lookup c key hash;
     if e \<noteq> Null then do { c \<leftarrow> LRUCache_Ref c e; Some (e, c) } else Some (e, c)
   }"

definition LRUCache_Release :: "'v LRUCache \<Rightarrow> ptr \<Rightarrow> 'v LRUCache option" where
  "LRUCache_Release c handle = LRUCache_Unref c handle"

text \<open>Evict the oldest entry of the LRU list; \<^verbatim>\<open>assert(erased)\<close>.\<close>

definition evict_oldest :: "'v LRUCache \<Rightarrow> 'v LRUCache option" where
  "evict_oldest c = do {
     let old = lc_next c Lru;
     e \<leftarrow> lc_entry c old;
     if lh_refs e \<noteq> 1 then None
     else do {
       k \<leftarrow> LRUHandle_key c old;
       (p, c) \<leftarrow> HandleTable_Remove c k (lh_hash e);
       (erased, c) \<leftarrow> LRUCache_FinishErase c p;
       if \<not> erased then None else Some c
     }
   }"

partial_function (option) evict_loop :: "'v LRUCache \<Rightarrow> 'v LRUCache option" where
  "evict_loop c =
     (if lc_usage c > lc_capacity c \<and> lc_next c Lru \<noteq> Lru then do { c \<leftarrow> evict_oldest c; evict_loop c } else Some c)"

definition LRUCache_Insert ::
  "'v LRUCache \<Rightarrow> byte list \<Rightarrow> u32 \<Rightarrow> 'v \<Rightarrow> size_t \<Rightarrow> (ptr \<times> 'v LRUCache) option" where
  "LRUCache_Insert c key hash val charge = do {
     let p = Handle (lc_fresh c);
     let e = \<lparr>lh_value = val, lh_charge = charge, lh_key = key, lh_in_cache = False, lh_refs = 1, lh_hash = hash\<rparr>;
     let c = lc_update (c\<lparr>lc_fresh := lc_fresh c + 1\<rparr>) p e;
     c \<leftarrow>
       (if lc_capacity c > 0 then do {
          let c = lc_update c p (e\<lparr>lh_refs := lh_refs e + 1, lh_in_cache := True\<rparr>);
          c \<leftarrow> LRU_Append c InUse p;
          let c = c\<lparr>lc_usage := lc_usage c + charge\<rparr>;
          (old, c) \<leftarrow> HandleTable_Insert c p;
          (erased, c) \<leftarrow> LRUCache_FinishErase c old;
          Some c
        }
        else Some (c\<lparr>lc_next := (lc_next c)(p := Null)\<rparr>));
     c \<leftarrow> evict_loop c;
     Some (p, c)
   }"

definition LRUCache_Erase :: "'v LRUCache \<Rightarrow> byte list \<Rightarrow> u32 \<Rightarrow> 'v LRUCache option" where
  "LRUCache_Erase c key hash = do {
     (p, c) \<leftarrow> HandleTable_Remove c key hash;
     (erased, c) \<leftarrow> LRUCache_FinishErase c p;
     Some c
   }"

partial_function (option) LRUCache_Prune :: "'v LRUCache \<Rightarrow> 'v LRUCache option" where
  "LRUCache_Prune c = (if lc_next c Lru \<noteq> Lru then do { c \<leftarrow> evict_oldest c; LRUCache_Prune c } else Some c)"

definition LRUCache_TotalCharge :: "'v LRUCache \<Rightarrow> size_t" where
  "LRUCache_TotalCharge c = lc_usage c"

text \<open>
  The destructor: no entry may be in use; every entry of the LRU list is released by the
  cache. The list is walked with the links as they were.
\<close>

partial_function (option) LRUCache_destroy_loop :: "'v LRUCache \<Rightarrow> ptr \<Rightarrow> 'v LRUCache option" where
  "LRUCache_destroy_loop c p =
     (if p = Lru then Some c
      else do {
        e \<leftarrow> lc_entry c p;
        let next = lc_next c p;
        if \<not> lh_in_cache e \<or> lh_refs e \<noteq> 1 then None
        else do {
          c \<leftarrow> LRUCache_Unref (lc_update c p (e\<lparr>lh_in_cache := False\<rparr>)) p;
          LRUCache_destroy_loop c next
        }
      })"

definition LRUCache_destroy :: "'v LRUCache \<Rightarrow> 'v LRUCache option" where
  "LRUCache_destroy c = (if lc_next c InUse \<noteq> InUse then None else LRUCache_destroy_loop c (lc_next c Lru))"

section \<open>The sharded cache\<close>

text \<open>A handle is a pointer into the memory of a shard.\<close>

definition kNumShardBits :: nat where "kNumShardBits = 4"
definition kNumShards :: nat where "kNumShards = 2 ^ kNumShardBits"

record 'v ShardedLRUCache =
  sc_shard :: "'v LRUCache list"
  sc_last_id :: u64

type_synonym handle = "nat \<times> nat"

definition HashSlice :: "byte list \<Rightarrow> u32" where
  "HashSlice s = Hash s 0"

definition Shard :: "u32 \<Rightarrow> nat" where
  "Shard hash = unat (drop_bit (32 - kNumShardBits) hash)"

definition ShardedLRUCache_new :: "size_t \<Rightarrow> 'v ShardedLRUCache" where
  "ShardedLRUCache_new capacity =
     (let per_shard = (capacity + (of_nat kNumShards - 1)) div of_nat kNumShards
      in \<lparr>sc_shard = replicate kNumShards (LRUCache_SetCapacity LRUCache_new per_shard), sc_last_id = 0\<rparr>)"

definition NewLRUCache :: "size_t \<Rightarrow> 'v ShardedLRUCache" where
  "NewLRUCache capacity = ShardedLRUCache_new capacity"

text \<open>A call of a function of a shard.\<close>

definition on_shard ::
  "nat \<Rightarrow> ('v LRUCache \<Rightarrow> ('r \<times> 'v LRUCache) option) \<Rightarrow> 'v ShardedLRUCache \<Rightarrow> ('r \<times> 'v ShardedLRUCache) option" where
  "on_shard s f c =
     (if s < length (sc_shard c)
      then do { (r, sh) \<leftarrow> f (sc_shard c ! s); Some (r, c\<lparr>sc_shard := (sc_shard c)[s := sh]\<rparr>) }
      else None)"

definition as_handle :: "nat \<Rightarrow> ptr \<Rightarrow> handle option" where
  "as_handle s p = (case p of Handle n \<Rightarrow> Some (s, n) | _ \<Rightarrow> None)"

definition ShardedLRUCache_Insert ::
  "'v ShardedLRUCache \<Rightarrow> byte list \<Rightarrow> 'v \<Rightarrow> size_t \<Rightarrow> (handle \<times> 'v ShardedLRUCache) option" where
  "ShardedLRUCache_Insert c key val charge = do {
     let hash = HashSlice key;
     (p, c) \<leftarrow> on_shard (Shard hash) (\<lambda>sh. LRUCache_Insert sh key hash val charge) c;
     h \<leftarrow> as_handle (Shard hash) p;
     Some (h, c)
   }"

definition ShardedLRUCache_Lookup ::
  "'v ShardedLRUCache \<Rightarrow> byte list \<Rightarrow> (handle option \<times> 'v ShardedLRUCache) option" where
  "ShardedLRUCache_Lookup c key = do {
     let hash = HashSlice key;
     (p, c) \<leftarrow> on_shard (Shard hash) (\<lambda>sh. LRUCache_Lookup sh key hash) c;
     Some (as_handle (Shard hash) p, c)
   }"

text \<open>What a handle points to.\<close>

definition sc_entry :: "'v ShardedLRUCache \<Rightarrow> handle \<Rightarrow> 'v LRUHandle option" where
  "sc_entry c h = (if fst h < length (sc_shard c) then lc_entry (sc_shard c ! fst h) (Handle (snd h)) else None)"

definition ShardedLRUCache_Release :: "'v ShardedLRUCache \<Rightarrow> handle \<Rightarrow> 'v ShardedLRUCache option" where
  "ShardedLRUCache_Release c handle = do {
     h \<leftarrow> sc_entry c handle;
     (u, c) \<leftarrow> on_shard (Shard (lh_hash h)) (\<lambda>sh. do { sh \<leftarrow> LRUCache_Release sh (Handle (snd handle)); Some ((), sh) }) c;
     Some c
   }"

definition ShardedLRUCache_Erase :: "'v ShardedLRUCache \<Rightarrow> byte list \<Rightarrow> 'v ShardedLRUCache option" where
  "ShardedLRUCache_Erase c key = do {
     let hash = HashSlice key;
     (u, c) \<leftarrow> on_shard (Shard hash) (\<lambda>sh. do { sh \<leftarrow> LRUCache_Erase sh key hash; Some ((), sh) }) c;
     Some c
   }"

definition ShardedLRUCache_Value :: "'v ShardedLRUCache \<Rightarrow> handle \<Rightarrow> 'v option" where
  "ShardedLRUCache_Value c handle = map_option lh_value (sc_entry c handle)"

definition ShardedLRUCache_NewId :: "'v ShardedLRUCache \<Rightarrow> (u64 \<times> 'v ShardedLRUCache) option" where
  "ShardedLRUCache_NewId c = Some (sc_last_id c + 1, c\<lparr>sc_last_id := sc_last_id c + 1\<rparr>)"

definition ShardedLRUCache_Prune :: "'v ShardedLRUCache \<Rightarrow> 'v ShardedLRUCache option" where
  "ShardedLRUCache_Prune c =
     fold (\<lambda>s r. do {
       c \<leftarrow> r;
       (u, c) \<leftarrow> on_shard s (\<lambda>sh. do { sh \<leftarrow> LRUCache_Prune sh; Some ((), sh) }) c;
       Some c
     }) [0..<kNumShards] (Some c)"

definition ShardedLRUCache_TotalCharge :: "'v ShardedLRUCache \<Rightarrow> size_t" where
  "ShardedLRUCache_TotalCharge c = fold (\<lambda>s total. total + LRUCache_TotalCharge (sc_shard c ! s)) [0..<kNumShards] 0"

definition ShardedLRUCache_ops :: "('v ShardedLRUCache, handle, 'v) Cache" where
  "ShardedLRUCache_ops =
     \<lparr>ca_Insert = ShardedLRUCache_Insert, ca_Lookup = ShardedLRUCache_Lookup, ca_Release = ShardedLRUCache_Release,
      ca_Value = ShardedLRUCache_Value, ca_Erase = ShardedLRUCache_Erase, ca_NewId = ShardedLRUCache_NewId,
      ca_Prune = ShardedLRUCache_Prune, ca_TotalCharge = ShardedLRUCache_TotalCharge\<rparr>"

end
