(* ===== verification/LDB_LRU_Lists.thy ===== *)
theory LDB_LRU_Lists
  imports LDB_LRU_Cache
begin

text \<open>
  The two circular lists of a shard of \<^verbatim>\<open>util/cache.cc\<close> and its hash table as sequences of
  nodes: what removing, appending, finding and resizing do to them.
\<close>

section \<open>Doubly linked lists\<close>

text \<open>Neighbours in a sequence of nodes point to each other.\<close>

fun adj :: "(ptr \<Rightarrow> ptr) \<Rightarrow> (ptr \<Rightarrow> ptr) \<Rightarrow> ptr list \<Rightarrow> bool" where
  "adj nx pv (x # y # zs) \<longleftrightarrow> nx x = y \<and> pv y = x \<and> adj nx pv (y # zs)"
| "adj nx pv zs \<longleftrightarrow> True"

definition circ :: "(ptr \<Rightarrow> ptr) \<Rightarrow> (ptr \<Rightarrow> ptr) \<Rightarrow> ptr \<Rightarrow> ptr list \<Rightarrow> bool" where
  "circ nx pv h xs \<longleftrightarrow> adj nx pv (h # xs @ [h])"

lemma adj_append:
  assumes "as \<noteq> []" and "bs \<noteq> []"
  shows "adj nx pv (as @ bs) \<longleftrightarrow> adj nx pv as \<and> adj nx pv bs \<and> nx (last as) = hd bs \<and> pv (hd bs) = last as"
  using assms
proof (induction as rule: induct_list012)
  case (2 x)
  then show ?case by (cases bs) auto
qed auto

lemma adj_cong:
  "(\<And>p. p \<in> set (butlast zs) \<Longrightarrow> nx' p = nx p) \<Longrightarrow> (\<And>p. p \<in> set (tl zs) \<Longrightarrow> pv' p = pv p) \<Longrightarrow> adj nx' pv' zs = adj nx pv zs"
proof (induction nx pv zs rule: adj.induct)
  case (1 nx pv x y zs)
  have "adj nx' pv' (y # zs) = adj nx pv (y # zs)"
    using 1 by (intro "1.IH") (auto dest: in_set_butlastD)
  then show ?case using 1 by auto
qed auto

lemma last_notin_butlast: "distinct as \<Longrightarrow> as \<noteq> [] \<Longrightarrow> last as \<notin> set (butlast as)"
  by (cases as rule: rev_cases) auto

definition two_lists :: "(ptr \<Rightarrow> ptr) \<Rightarrow> (ptr \<Rightarrow> ptr) \<Rightarrow> ptr \<Rightarrow> ptr list \<Rightarrow> ptr \<Rightarrow> ptr list \<Rightarrow> bool" where
  "two_lists nx pv h xs h' ys \<longleftrightarrow> circ nx pv h xs \<and> circ nx pv h' ys \<and> distinct (h # h' # xs @ ys)"

lemma two_lists_swap: "two_lists nx pv h xs h' ys \<longleftrightarrow> two_lists nx pv h' ys h xs"
  by (auto simp: two_lists_def)

text \<open>The node between \<open>xs\<close> and \<open>ys\<close> is taken out.\<close>

lemma two_lists_remove:
  assumes "two_lists nx pv h (xs @ p # ys) h' zs" and "pv' = pv(nx p := pv p)" and "nx' = nx(pv' p := nx p)"
  shows "two_lists nx' pv' h (xs @ ys) h' zs" and "q \<notin> set (h # h' # xs @ ys @ zs) \<Longrightarrow> nx' q = nx q"
    and "nx p \<in> set (h # ys)" and "pv p \<in> set (h # xs)"
proof -
  let ?as = "h # xs" and ?bs = "ys @ [h]"
  have d: "distinct (h # h' # (xs @ p # ys) @ zs)" and c: "adj nx pv (?as @ [p] @ ?bs)" "adj nx pv (h' # zs @ [h'])"
    using assms(1) by (simp_all add: two_lists_def circ_def)
  have a: "adj nx pv ?as" "adj nx pv ([p] @ ?bs)" "nx (last ?as) = p" "pv p = last ?as"
    using adj_append [of ?as "[p] @ ?bs" nx pv] c(1) by auto
  have b: "adj nx pv ?bs" "nx p = hd ?bs" "pv (hd ?bs) = p"
    using a(2) adj_append [of "[p]" ?bs nx pv] by auto
  obtain B where B: "hd ?bs = B" "B \<in> set (h # ys)" by (cases ys) auto
  obtain A where A: "last ?as = A" "A \<in> set (h # xs)" by (cases xs rule: rev_cases) auto
  have eqs: "nx p = B" "pv p = A" using a(4) b(2) A(1) B(1) by simp_all
  show "nx p \<in> set (h # ys)" "pv p \<in> set (h # xs)" using A(2) B(2) by (simp_all only: eqs)
  have "B \<noteq> p" using B(2) d by auto
  then have pv': "pv' = pv(B := A)" and nx': "nx' = nx(A := B)" using assms(2,3) eqs by simp_all
  have "distinct ?as" "distinct ?bs" using d by auto
  then have Al: "A \<notin> set (butlast ?as)" and Bh: "B \<notin> set (tl ?bs)"
    using last_notin_butlast [of ?as] A(1) B(1) by (auto split: list.splits, cases ys, auto)
  have "adj nx' pv' ?as"
  proof (rule adj_cong [THEN iffD2, OF _ _ a(1)])
    show "nx' q = nx q" if "q \<in> set (butlast ?as)" for q using that Al by (metis fun_upd_other nx')
    show "pv' q = pv q" if "q \<in> set (tl ?as)" for q using that B(2) d by (auto simp: pv')
  qed
  moreover have "adj nx' pv' ?bs"
  proof (rule adj_cong [THEN iffD2, OF _ _ b(1)])
    show "nx' q = nx q" if "q \<in> set (butlast ?bs)" for q using that A(2) d by (auto simp: nx')
    show "pv' q = pv q" if "q \<in> set (tl ?bs)" for q using that Bh by (metis fun_upd_other pv')
  qed
  ultimately have "circ nx' pv' h (xs @ ys)"
    using adj_append [of ?as ?bs nx' pv'] A(1) B(1) by (simp add: circ_def nx' pv')
  moreover have "circ nx' pv' h' zs"
    unfolding circ_def
  proof (rule adj_cong [THEN iffD2, OF _ _ c(2)])
    show "nx' q = nx q" if "q \<in> set (butlast (h' # zs @ [h']))" for q
      using that A(2) d by (auto simp: nx' butlast_append split: if_splits)
    show "pv' q = pv q" if "q \<in> set (tl (h' # zs @ [h']))" for q using that B(2) d by (auto simp: pv')
  qed
  ultimately show "two_lists nx' pv' h (xs @ ys) h' zs" using d by (auto simp: two_lists_def)
  show "nx' q = nx q" if "q \<notin> set (h # h' # xs @ ys @ zs)" using that A(2) by (auto simp: nx')
qed

text \<open>A node is put before the head.\<close>

lemma two_lists_append:
  assumes "two_lists nx pv h xs h' zs" and "p \<notin> set (h # h' # xs @ zs)"
    and "nx1 = nx(p := h)" and "pv1 = pv(p := pv h)" and "nx2 = nx1(pv1 p := p)" and "pv2 = pv1(nx2 p := p)"
  shows "two_lists nx2 pv2 h (xs @ [p]) h' zs" and "q \<notin> set (h # h' # p # xs @ zs) \<Longrightarrow> nx2 q = nx q"
    and "pv h \<in> set (h # xs)"
proof -
  let ?as = "h # xs"
  have d: "distinct (h # h' # xs @ zs)" and c: "adj nx pv (?as @ [h])" "adj nx pv (h' # zs @ [h'])"
    using assms(1) by (simp_all add: two_lists_def circ_def)
  have a: "adj nx pv ?as" "nx (last ?as) = h" "pv h = last ?as" using c(1) adj_append [of ?as "[h]" nx pv] by auto
  obtain A where A: "last ?as = A" "A \<in> set (h # xs)" by (cases xs rule: rev_cases) auto
  have ph: "pv h = A" using a(3) A(1) by simp
  show "pv h \<in> set (h # xs)" using A(2) by (simp only: ph)
  have lp: "A \<noteq> p" using A(2) assms(2) by auto
  have nx2: "nx2 = nx(p := h, A := p)" using assms(3,4,5) ph by simp
  have pv2: "pv2 = pv(p := A, h := p)" using assms(4,6) ph lp by (simp add: nx2)
  have "distinct ?as" using d by auto
  then have Al: "A \<notin> set (butlast ?as)" using last_notin_butlast [of ?as] A(1) by auto
  have "adj nx2 pv2 ?as"
  proof (rule adj_cong [THEN iffD2, OF _ _ a(1)])
    fix q assume q: "q \<in> set (butlast ?as)"
    then have "q \<noteq> p" "q \<noteq> A" using assms(2) Al in_set_butlastD [OF q] by auto
    then show "nx2 q = nx q" by (simp add: nx2)
  next
    show "pv2 q = pv q" if "q \<in> set (tl ?as)" for q using that d assms(2) by (auto simp: pv2)
  qed
  moreover have "adj nx2 pv2 [p, h]" using lp assms(2) by (auto simp: nx2 pv2)
  moreover have "nx2 (last ?as) = p" "pv2 p = last ?as" using assms(2) lp unfolding A(1) by (auto simp: nx2 pv2)
  ultimately have "circ nx2 pv2 h (xs @ [p])"
    using adj_append [of ?as "[p, h]" nx2 pv2] by (simp add: circ_def)
  moreover have "circ nx2 pv2 h' zs"
    unfolding circ_def
  proof (rule adj_cong [THEN iffD2, OF _ _ c(2)])
    show "nx2 q = nx q" if "q \<in> set (butlast (h' # zs @ [h']))" for q
      using that A(2) d assms(2) by (auto simp: nx2 butlast_append split: if_splits)
    show "pv2 q = pv q" if "q \<in> set (tl (h' # zs @ [h']))" for q using that d assms(2) by (auto simp: pv2)
  qed
  ultimately show "two_lists nx2 pv2 h (xs @ [p]) h' zs" using d assms(2) by (auto simp: two_lists_def)
  show "nx2 q = nx q" if "q \<notin> set (h # h' # p # xs @ zs)" using that A(2) by (auto simp: nx2)
qed

text \<open>Only the head of an empty list points to itself.\<close>

lemma two_lists_next:
  assumes "two_lists nx pv h xs h' ys"
  shows "nx h = hd (xs @ [h])" and "p \<in> set xs \<Longrightarrow> nx p \<noteq> p"
proof -
  have a: "adj nx pv ([h] @ (xs @ [h]))" and d: "distinct (h # xs)" using assms by (auto simp: two_lists_def circ_def)
  show "nx h = hd (xs @ [h])" using a adj_append [of "[h]" "xs @ [h]" nx pv] by auto
  assume "p \<in> set xs"
  then obtain as bs where s: "xs = as @ p # bs" by (meson split_list)
  have "adj nx pv ((h # as @ [p]) @ (bs @ [h]))" using a s by simp
  then have "nx p = hd (bs @ [h])" using adj_append [of "h # as @ [p]" "bs @ [h]" nx pv] by auto
  moreover have "hd (bs @ [h]) \<in> set (h # bs)" by (cases bs) auto
  ultimately show "nx p \<noteq> p" using d s by auto
qed

text \<open>The two operations of a shard.\<close>

lemma LRU_Remove_works:
  assumes "two_lists (lc_next c) (lc_prev c) h (xs @ p # ys) h' zs" and "\<forall>q\<in>set (h # h' # xs @ p # ys @ zs). lc_live c q"
  shows "\<exists>nx pv. LRU_Remove c p = Some (c\<lparr>lc_next := nx, lc_prev := pv\<rparr>) \<and> two_lists nx pv h (xs @ ys) h' zs
    \<and> (\<forall>q. q \<notin> set (h # h' # xs @ ys @ zs) \<longrightarrow> nx q = lc_next c q)"
proof -
  let ?pv = "(lc_prev c)(lc_next c p := lc_prev c p)"
  let ?nx = "(lc_next c)(?pv p := lc_next c p)"
  note r = two_lists_remove [OF assms(1) refl refl]
  have "lc_live c p" "lc_live c (lc_next c p)" "lc_live c (lc_prev c p)" using assms(2) r(3,4) by auto
  then have "LRU_Remove c p = Some (c\<lparr>lc_next := ?nx, lc_prev := ?pv\<rparr>)" by (cases c) (simp add: LRU_Remove_def Let_def)
  then show ?thesis using r(1,2) by blast
qed

lemma LRU_Append_works:
  assumes "two_lists (lc_next c) (lc_prev c) h xs h' zs" and "p \<notin> set (h # h' # xs @ zs)"
    and "\<forall>q\<in>set (h # p # h' # xs @ zs). lc_live c q"
  shows "\<exists>nx pv. LRU_Append c h p = Some (c\<lparr>lc_next := nx, lc_prev := pv\<rparr>) \<and> two_lists nx pv h (xs @ [p]) h' zs
    \<and> (\<forall>q. q \<notin> set (h # h' # p # xs @ zs) \<longrightarrow> nx q = lc_next c q)"
proof -
  let ?nx1 = "(lc_next c)(p := h)" and ?pv1 = "(lc_prev c)(p := lc_prev c h)"
  let ?nx2 = "?nx1(?pv1 p := p)"
  let ?pv2 = "?pv1(?nx2 p := p)"
  note a = two_lists_append [OF assms(1,2) refl refl refl refl]
  have "lc_live c p" "lc_live c h" "lc_live c (lc_prev c h)" using assms(3) a(3) by auto
  then have "LRU_Append c h p = Some (c\<lparr>lc_next := ?nx2, lc_prev := ?pv2\<rparr>)" by (cases c) (simp add: LRU_Append_def Let_def)
  then show ?thesis using a(1,2) by blast
qed

section \<open>Hash chains\<close>

primrec chain :: "(ptr \<Rightarrow> ptr) \<Rightarrow> ptr \<Rightarrow> nat list \<Rightarrow> bool" where
  "chain nh p [] \<longleftrightarrow> p = Null"
| "chain nh p (x # xs) \<longleftrightarrow> p = Handle x \<and> chain nh (nh (Handle x)) xs"

definition chain_head :: "nat list \<Rightarrow> ptr" where
  "chain_head xs = (case xs of [] \<Rightarrow> Null | x # xs \<Rightarrow> Handle x)"

lemma chain_head_eq: "chain nh p xs \<Longrightarrow> p = chain_head xs"
  by (cases xs) (auto simp: chain_head_def)

lemma chain_upd [simp]: "x \<notin> set xs \<Longrightarrow> chain (nh(Handle x := q)) p xs = chain nh p xs"
  by (induction xs arbitrary: p) auto

lemma chain_splice:
  assumes "chain nh p (as @ bs)" and "as \<noteq> []" and "distinct as" and "chain nh q ds" and "last as \<notin> set ds"
  shows "chain (nh(Handle (last as) := q)) p (as @ ds)"
  using assms
proof (induction as arbitrary: p)
  case (Cons a as)
  show ?case
  proof (cases as)
    case Nil
    then have "chain (nh(Handle a := q)) q ds" using Cons.prems by (simp del: fun_upd_apply)
    then show ?thesis using Cons.prems Nil by (simp del: fun_upd_apply add: fun_upd_same)
  next
    case (Cons b bs')
    then have "a \<noteq> last as" "last (a # as) = last as" using Cons.prems(3) by auto
    then show ?thesis using Cons.prems Cons.IH [of "nh (Handle a)"] Cons by auto
  qed
qed simp

lemma chain_suffix: "chain nh p (as @ x # bs) \<Longrightarrow> chain nh (nh (Handle x)) bs"
  by (induction as arbitrary: p) auto

definition slot_after :: "slot \<Rightarrow> nat list \<Rightarrow> slot" where
  "slot_after s as = (if as = [] then s else NextHash (Handle (last as)))"

definition key_of :: "'v LRUCache \<Rightarrow> nat \<Rightarrow> byte list" where
  "key_of c n = lh_key (the (lc_heap c n))"

definition entry_ok :: "'v LRUCache \<Rightarrow> nat \<Rightarrow> bool" where
  "entry_ok c n \<longleftrightarrow> (\<exists>e. lc_heap c n = Some e \<and> lh_hash e = HashSlice (lh_key e)) \<and> lc_next c (Handle n) \<noteq> Handle n"

lemma FindPointer_loop_works:
  assumes "read_slot c s = Some p" and "chain (lc_next_hash c) p xs" and "\<forall>n\<in>set xs. entry_ok c n"
  shows "FindPointer_loop c key (HashSlice key) s = Some (slot_after s (takeWhile (\<lambda>n. key_of c n \<noteq> key) xs))"
    and "read_slot c (slot_after s (takeWhile (\<lambda>n. key_of c n \<noteq> key) xs)) = Some (chain_head (dropWhile (\<lambda>n. key_of c n \<noteq> key) xs))"
  using assms
proof (induction xs arbitrary: s p)
  case Nil
  {
    case 1
    then show ?case by (subst FindPointer_loop.simps) (simp add: slot_after_def)
  next
    case 2
    then show ?case by (simp add: slot_after_def chain_head_def)
  }
next
  case (Cons x xs)
  {
    case 1
    then obtain e where e: "lc_heap c x = Some e" "lh_hash e = HashSlice (lh_key e)" "lc_next c (Handle x) \<noteq> Handle x"
      by (auto simp: entry_ok_def)
    have p: "p = Handle x" "chain (lc_next_hash c) (lc_next_hash c (Handle x)) xs" using 1 by simp_all
    have k: "key_of c x = lh_key e" "LRUHandle_key c (Handle x) = Some (lh_key e)" "lc_entry c (Handle x) = Some e"
      using e by (simp_all add: key_of_def LRUHandle_key_def lc_entry_def)
    have "(if lh_hash e \<noteq> HashSlice key then Some True else do { k \<leftarrow> LRUHandle_key c (Handle x); Some (key \<noteq> k) })
        = Some (key_of c x \<noteq> key)"
      using k e(2) by auto
    then have step: "FindPointer_loop c key (HashSlice key) s =
        (if key_of c x \<noteq> key then FindPointer_loop c key (HashSlice key) (NextHash (Handle x)) else Some s)"
      using 1(1) p(1) k(3) by (subst FindPointer_loop.simps) simp
    have "read_slot c (NextHash (Handle x)) = Some (lc_next_hash c (Handle x))" using k(3) by (simp add: read_slot_def)
    from Cons.IH(1) [OF this p(2)] show ?case using 1(3) step by (auto simp: slot_after_def)
  next
    case 2
    then have p: "p = Handle x" "chain (lc_next_hash c) (lc_next_hash c (Handle x)) xs" "lc_heap c x \<noteq> None"
      by (auto simp: entry_ok_def)
    then have "read_slot c (NextHash (Handle x)) = Some (lc_next_hash c (Handle x))" by (simp add: read_slot_def lc_entry_def)
    from Cons.IH(2) [OF this p(2)] show ?case using 2 p(1) by (auto simp: slot_after_def chain_head_def)
  }
qed

section \<open>The hash table\<close>

definition bucket :: "u32 \<Rightarrow> byte list \<Rightarrow> nat" where
  "bucket len key = unat (HashSlice key AND (len - 1))"

lemma bucket_less: "0 < len \<Longrightarrow> bucket len key < unat len"
proof -
  assume "0 < len"
  then have "unat (len - 1) < unat len" by (simp add: unat_minus_one unat_gt_0 word_gt_0)
  moreover have "unat (HashSlice key AND (len - 1)) \<le> unat (len - 1)" by (rule word_le_nat_alt [THEN iffD1], rule word_and_le1)
  ultimately show ?thesis by (simp add: bucket_def)
qed

end
