(* ===== verification/LDB_LRU_Table.thy ===== *)
theory LDB_LRU_Table
  imports LDB_LRU_Lists
begin

text \<open>
  The hash table of \<^verbatim>\<open>util/cache.cc\<close>: every bucket is a chain of the entries whose keys
  belong to it. Looking up, removing, inserting and resizing return and do to the set of
  entries what they should.
\<close>

section \<open>Tables\<close>

definition chains :: "(ptr \<Rightarrow> ptr) \<Rightarrow> ptr list \<Rightarrow> nat list list \<Rightarrow> bool" where
  "chains nh ls cs \<longleftrightarrow> length ls = length cs \<and> (\<forall>i<length cs. chain nh (ls ! i) (cs ! i))"

definition placed :: "(nat \<Rightarrow> byte list) \<Rightarrow> u32 \<Rightarrow> nat list list \<Rightarrow> bool" where
  "placed kf len cs \<longleftrightarrow> (\<forall>i<length cs. \<forall>n\<in>set (cs ! i). bucket len (kf n) = i)"

definition table :: "'v LRUCache \<Rightarrow> nat list list \<Rightarrow> bool" where
  "table c cs \<longleftrightarrow> 0 < lc_length c \<and> length cs = unat (lc_length c) \<and> unat (lc_elems c) = length (concat cs)
     \<and> chains (lc_next_hash c) (lc_list c) cs \<and> distinct (concat cs) \<and> placed (key_of c) (lc_length c) cs
     \<and> inj_on (key_of c) (set (concat cs))"

lemma key_of_simps [simp]:
  "key_of (c\<lparr>lc_next_hash := nh\<rparr>) = key_of c" "key_of (c\<lparr>lc_list := ls\<rparr>) = key_of c" "key_of (c\<lparr>lc_length := l\<rparr>) = key_of c"
  "key_of (c\<lparr>lc_elems := m\<rparr>) = key_of c" "key_of (c\<lparr>lc_next := nx\<rparr>) = key_of c" "key_of (c\<lparr>lc_prev := pv\<rparr>) = key_of c"
  "key_of (c\<lparr>lc_usage := u\<rparr>) = key_of c" "key_of (c\<lparr>lc_deleted := d\<rparr>) = key_of c"
  by (simp_all add: key_of_def fun_eq_iff)

lemma entry_ok_simps [simp]:
  "entry_ok (c\<lparr>lc_next_hash := nh\<rparr>) = entry_ok c" "entry_ok (c\<lparr>lc_list := ls\<rparr>) = entry_ok c"
  "entry_ok (c\<lparr>lc_elems := m\<rparr>) = entry_ok c" "entry_ok (c\<lparr>lc_length := l\<rparr>) = entry_ok c"
  by (simp_all add: entry_ok_def fun_eq_iff)

lemma chains_upd: "n \<notin> set (concat cs) \<Longrightarrow> chains (nh(Handle n := q)) ls cs = chains nh ls cs"
  by (auto simp: chains_def simp del: fun_upd_apply)

text \<open>Changing one bucket.\<close>

lemma concat_bucket:
  assumes "b < length cs"
  obtains A B where "concat cs = A @ cs ! b @ B" and "\<And>l. concat (cs[b := l]) = A @ l @ B"
proof
  show "concat cs = concat (take b cs) @ cs ! b @ concat (drop (Suc b) cs)"
    using arg_cong [OF id_take_nth_drop [OF assms], of concat] by simp
  show "concat (cs[b := l]) = concat (take b cs) @ l @ concat (drop (Suc b) cs)" for l
    using assms by (simp add: upd_conv_take_nth_drop)
qed

lemma chains_other:
  assumes "chains nh ls cs" and "distinct (concat cs)" and "b < length cs" and "i < length cs" and "i \<noteq> b" and "n \<in> set (cs ! b)"
  shows "chain (nh(Handle n := q)) (ls ! i) (cs ! i)"
proof -
  obtain A B where AB: "concat cs = A @ cs ! b @ B" "\<And>l. concat (cs[b := l]) = A @ l @ B" using concat_bucket [OF assms(3)] by metis
  have "cs ! i \<in> set (cs[b := []])" using assms(4,5) by (metis length_list_update nth_list_update_neq nth_mem)
  then have "set (cs ! i) \<subseteq> set (concat (cs[b := []]))" by auto
  then have "n \<notin> set (cs ! i)" using assms(2,6) AB by auto
  then show ?thesis using assms(1,4) by (simp add: chains_def)
qed

lemma chains_write:
  assumes "chains (lc_next_hash c) (lc_list c) cs" and "distinct (concat cs)" and "b < length cs" and "cs ! b = as @ bs"
    and "chain (lc_next_hash c) q ds" and "as \<noteq> [] \<longrightarrow> last as \<notin> set ds"
  shows "chains (lc_next_hash (write_slot c (slot_after (Bucket b) as) q)) (lc_list (write_slot c (slot_after (Bucket b) as) q)) (cs[b := as @ ds])"
proof (cases "as = []")
  case True
  then show ?thesis using assms by (auto simp: slot_after_def write_slot_def chains_def nth_list_update)
next
  case False
  have d: "distinct as" using assms(2,4) concat_bucket [OF assms(3)] by (metis distinct_append)
  have l: "last as \<in> set (cs ! b)" using assms(4) False by simp
  have "chain (lc_next_hash c) (lc_list c ! b) (as @ bs)" using assms(1,3,4) by (metis chains_def)
  then have b: "chain ((lc_next_hash c)(Handle (last as) := q)) (lc_list c ! b) (as @ ds)"
    using chain_splice False d assms(5,6) by blast
  then show ?thesis
    using False assms(1,3) chains_other [OF assms(1,2,3) _ _ l]
    by (simp add: slot_after_def write_slot_def chains_def nth_list_update del: fun_upd_apply)
qed

text \<open>Searching: the chain up to the entry of the key, and the rest.\<close>

lemma FindPointer_works:
  assumes "table c cs" and "\<forall>n\<in>set (concat cs). entry_ok c n"
  obtains as bs where "cs ! bucket (lc_length c) key = as @ bs" and "bucket (lc_length c) key < length cs"
    and "FindPointer c key (HashSlice key) = Some (slot_after (Bucket (bucket (lc_length c) key)) as)"
    and "read_slot c (slot_after (Bucket (bucket (lc_length c) key)) as) = Some (chain_head bs)"
    and "\<forall>n\<in>set as. key_of c n \<noteq> key" and "bs \<noteq> [] \<longrightarrow> key_of c (hd bs) = key"
    and "bs = [] \<longrightarrow> key \<notin> key_of c ` set (concat cs)"
proof -
  let ?b = "bucket (lc_length c) key" and ?P = "\<lambda>n. key_of c n \<noteq> key"
  let ?xs = "cs ! ?b"
  have b: "?b < length cs" using assms(1) bucket_less by (simp add: table_def)
  have ch: "chain (lc_next_hash c) (lc_list c ! ?b) ?xs" and len: "?b < length (lc_list c)"
    using assms(1) b by (auto simp: table_def chains_def)
  have e: "\<forall>n\<in>set ?xs. entry_ok c n" using assms(2) nth_mem [OF b] by auto
  have r: "read_slot c (Bucket ?b) = Some (lc_list c ! ?b)" using len by (simp add: read_slot_def)
  note f = FindPointer_loop_works [OF r ch e, of key]
  have "key \<notin> key_of c ` set (concat cs)" if "dropWhile ?P ?xs = []"
  proof
    assume "key \<in> key_of c ` set (concat cs)"
    then obtain xs n where "xs \<in> set cs" and n: "n \<in> set xs" "key_of c n = key" by auto
    then obtain i where i: "i < length cs" "n \<in> set (cs ! i)" "key_of c n = key" by (auto simp: in_set_conv_nth [of xs])
    then have "i = ?b" using assms(1) by (auto simp: table_def placed_def)
    then show False using i(2,3) that by auto
  qed
  moreover have "FindPointer c key (HashSlice key) = Some (slot_after (Bucket ?b) (takeWhile ?P ?xs))"
    using f(1) by (simp add: FindPointer_def bucket_def)
  ultimately show ?thesis
    using that [of "takeWhile ?P ?xs" "dropWhile ?P ?xs"] b f(2) hd_dropWhile [of ?P ?xs]
    by (auto dest: set_takeWhileD)
qed

lemma HandleTable_Lookup_works:
  assumes "table c cs" and "\<forall>n\<in>set (concat cs). entry_ok c n"
  shows "\<exists>p. HandleTable_Lookup c key (HashSlice key) = Some p
    \<and> (p = Null \<and> key \<notin> key_of c ` set (concat cs) \<or> (\<exists>n\<in>set (concat cs). p = Handle n \<and> key_of c n = key))"
proof -
  obtain as bs where f: "cs ! bucket (lc_length c) key = as @ bs" "bucket (lc_length c) key < length cs"
    "FindPointer c key (HashSlice key) = Some (slot_after (Bucket (bucket (lc_length c) key)) as)"
    "read_slot c (slot_after (Bucket (bucket (lc_length c) key)) as) = Some (chain_head bs)"
    "bs \<noteq> [] \<longrightarrow> key_of c (hd bs) = key" "bs = [] \<longrightarrow> key \<notin> key_of c ` set (concat cs)"
    by (rule FindPointer_works [OF assms]) blast
  have "HandleTable_Lookup c key (HashSlice key) = Some (chain_head bs)" using f(3,4) by (simp add: HandleTable_Lookup_def)
  moreover have "n \<in> set (concat cs)" if "bs = n # ds" for n ds
  proof -
    have "n \<in> set (cs ! bucket (lc_length c) key)" using f(1) that by simp
    then show ?thesis using nth_mem [OF f(2)] by auto
  qed
  ultimately show ?thesis using f(5,6) by (cases bs) (auto simp: chain_head_def)
qed

text \<open>The parts of a table that a change of one bucket has to keep.\<close>

lemma placed_update:
  "placed kf len cs \<Longrightarrow> \<forall>n\<in>set l. bucket len (kf n) = b \<Longrightarrow> placed kf len (cs[b := l])"
  unfolding placed_def by (metis length_list_update nth_list_update_eq nth_list_update_neq)

lemma HandleTable_Remove_works:
  assumes t: "table c cs" and e: "\<forall>n\<in>set (concat cs). entry_ok c n"
  shows "\<exists>p c'. HandleTable_Remove c key (HashSlice key) = Some (p, c') \<and> (\<exists>nh ls m. c' = c\<lparr>lc_next_hash := nh, lc_list := ls, lc_elems := m\<rparr>)
    \<and> (p = Null \<and> key \<notin> key_of c ` set (concat cs) \<and> c' = c
       \<or> (\<exists>n\<in>set (concat cs). p = Handle n \<and> key_of c n = key \<and> (\<exists>cs'. table c' cs' \<and> mset (concat cs) = add_mset n (mset (concat cs')))))"
proof -
  let ?b = "bucket (lc_length c) key"
  obtain as bs where f: "cs ! ?b = as @ bs" "?b < length cs"
    "FindPointer c key (HashSlice key) = Some (slot_after (Bucket ?b) as)"
    "read_slot c (slot_after (Bucket ?b) as) = Some (chain_head bs)"
    "\<forall>n\<in>set as. key_of c n \<noteq> key" "bs \<noteq> [] \<longrightarrow> key_of c (hd bs) = key" "bs = [] \<longrightarrow> key \<notin> key_of c ` set (concat cs)"
    by (rule FindPointer_works [OF assms])
  show ?thesis
  proof (cases bs)
    case Nil
    then have "HandleTable_Remove c key (HashSlice key) = Some (Null, c)"
      using f(3,4) by (simp add: HandleTable_Remove_def chain_head_def)
    then show ?thesis using f(7) Nil by (intro exI [of _ Null] exI [of _ c]) (cases c, auto)
  next
    case (Cons n ds)
    let ?c = "write_slot c (slot_after (Bucket ?b) as) (lc_next_hash c (Handle n))"
    let ?c' = "?c\<lparr>lc_elems := lc_elems ?c - 1\<rparr>"
    obtain A B where AB: "concat cs = A @ cs ! ?b @ B" "\<And>l. concat (cs[?b := l]) = A @ l @ B" using concat_bucket [OF f(2)] by metis
    have d: "distinct (concat cs)" and ch: "chains (lc_next_hash c) (lc_list c) cs" and pl: "placed (key_of c) (lc_length c) cs"
      using t by (auto simp: table_def)
    have "chain (lc_next_hash c) (lc_list c ! ?b) (as @ n # ds)" using ch f(1,2) Cons by (metis chains_def)
    then have q: "chain (lc_next_hash c) (lc_next_hash c (Handle n)) ds" by (rule chain_suffix)
    have "set as \<inter> set ds = {}" using d AB(1) f(1) Cons by auto
    then have "as \<noteq> [] \<longrightarrow> last as \<notin> set ds" using last_in_set [of as] by blast
    note w = chains_write [OF ch d f(2,1) q this]
    have fields: "lc_length ?c = lc_length c" "lc_elems ?c = lc_elems c" "key_of ?c = key_of c"
      by (simp_all add: write_slot_def split: slot.split)
    have m: "mset (concat cs) = add_mset n (mset (concat (cs[?b := as @ ds])))" using AB f(1) Cons by simp
    then have s: "set (concat cs) = insert n (set (concat (cs[?b := as @ ds])))" and "length (concat cs) = Suc (length (concat (cs[?b := as @ ds])))"
      by (metis set_mset_add_mset_insert set_mset_mset, metis size_add_mset size_mset)
    then have u: "unat (lc_elems c) = Suc (length (concat (cs[?b := as @ ds])))" using t by (simp add: table_def)
    then have "lc_elems c \<noteq> 0" by auto
    then have "unat (lc_elems c - 1) = length (concat (cs[?b := as @ ds]))" using u by (simp add: unat_minus_one)
    moreover have "distinct (concat (cs[?b := as @ ds]))" using d AB f(1) Cons by simp
    moreover have "placed (key_of c) (lc_length c) (cs[?b := as @ ds])"
      using pl f(1,2) Cons by (intro placed_update) (auto simp: placed_def)
    moreover have "inj_on (key_of c) (set (concat (cs[?b := as @ ds])))" using t s by (auto simp: table_def)
    ultimately have "table ?c' (cs[?b := as @ ds])" using t w by (simp add: table_def fields)
    moreover have "\<exists>nh ls m. ?c' = c\<lparr>lc_next_hash := nh, lc_list := ls, lc_elems := m\<rparr>"
      by (cases c) (auto simp: write_slot_def split: slot.split)
    moreover have "HandleTable_Remove c key (HashSlice key) = Some (Handle n, ?c')"
      using f(3,4) Cons by (simp add: HandleTable_Remove_def chain_head_def Let_def)
    ultimately show ?thesis using m s f(6) Cons by (intro exI [of _ "Handle n"] exI [of _ ?c']) auto
  qed
qed

section \<open>Resizing\<close>

lemma new_length_loop_works:
  assumes "k \<le> 31" and "unat elems \<le> 2 ^ 31"
  shows "\<exists>len. new_length_loop elems (2 ^ k) = Some len \<and> 0 < len"
  using assms(1)
proof (induction "31 - k" arbitrary: k)
  case 0
  then have "k = 31" by simp
  then show ?case using assms(2) by (subst new_length_loop.simps) (simp add: word_less_nat_alt word_gt_0)
next
  case (Suc d)
  then have k: "k < 31" "d = 31 - Suc k" by simp_all
  have "(2 ^ k :: u32) * 2 = 2 ^ Suc k" by simp
  moreover have "(0 :: u32) < 2 ^ k" using k(1) by (simp add: word_gt_0)
  ultimately show ?case using Suc.hyps(1) [OF k(2)] k(1) by (subst new_length_loop.simps) (auto simp: mult.commute)
qed

lemma move_chain_works:
  assumes "chain (lc_next_hash c) h xs" and "chains (lc_next_hash c) nl ds" and "length nl = unat len" and "0 < len"
    and "distinct (xs @ concat ds)" and "\<forall>n\<in>set xs. entry_ok c n" and "placed (key_of c) len ds"
  shows "\<exists>nh nl' ds'. move_chain c len h nl moved = Some (c\<lparr>lc_next_hash := nh\<rparr>, nl', moved + of_nat (length xs))
    \<and> chains nh nl' ds' \<and> length nl' = unat len \<and> mset (concat ds') = mset xs + mset (concat ds) \<and> placed (key_of c) len ds'
    \<and> (\<forall>n. n \<notin> set xs \<longrightarrow> nh (Handle n) = lc_next_hash c (Handle n))"
  using assms
proof (induction xs arbitrary: c h nl ds moved)
  case Nil
  then have "move_chain c len h nl moved = Some (c\<lparr>lc_next_hash := lc_next_hash c\<rparr>, nl, moved + of_nat (length []))"
    by (subst move_chain.simps) simp
  then show ?case using Nil by (intro exI [of _ "lc_next_hash c"] exI [of _ nl] exI [of _ ds]) simp
next
  case (Cons x xs)
  then obtain e where e: "lc_heap c x = Some e" "lh_hash e = HashSlice (lh_key e)" by (auto simp: entry_ok_def)
  let ?i = "bucket len (key_of c x)"
  let ?nh = "(lc_next_hash c)(Handle x := nl ! ?i)"
  let ?c = "c\<lparr>lc_next_hash := ?nh\<rparr>" and ?nl = "nl[?i := Handle x]" and ?ds = "ds[?i := x # ds ! ?i]"
  have nx: "lc_next_hash ?c = ?nh" by simp
  have h: "h = Handle x" "chain (lc_next_hash c) (lc_next_hash c (Handle x)) xs" using Cons.prems(1) by simp_all
  have i: "?i < length nl" "?i < length ds" "unat (lh_hash e AND (len - 1)) = ?i"
    using bucket_less [OF Cons.prems(4)] Cons.prems(2,3) e by (simp_all add: chains_def bucket_def key_of_def)
  obtain A B where AB: "concat ds = A @ ds ! ?i @ B" "\<And>l. concat (ds[?i := l]) = A @ l @ B" using concat_bucket [OF i(2)] by metis
  have step: "move_chain c len h nl moved = move_chain ?c len (lc_next_hash c (Handle x)) ?nl (moved + 1)"
    using h(1) e(1) i by (subst move_chain.simps) (simp add: lc_entry_def Let_def)
  have xn: "x \<notin> set xs" "x \<notin> set (concat ds)" using Cons.prems(5) by auto
  have i1: "chain ?nh (lc_next_hash c (Handle x)) xs" using h(2) xn(1) by (simp del: fun_upd_apply)
  have i2: "chains ?nh ?nl ?ds"
  proof -
    have old: "chains ?nh nl ds" using Cons.prems(2) chains_upd [OF xn(2)] by blast
    then have "chain ?nh (Handle x) (x # ds ! ?i)" using i(2) by (simp add: chains_def)
    then show ?thesis using old i by (simp add: chains_def nth_list_update del: chain.simps fun_upd_apply)
  qed
  have i3: "distinct (xs @ concat ?ds)" using Cons.prems(5) AB by auto
  have i4: "placed (key_of c) len ?ds" using Cons.prems(7) i(2) by (intro placed_update) (auto simp: placed_def)
  have i5: "length ?nl = unat len" "\<forall>n\<in>set xs. entry_ok ?c n" using Cons.prems(3,6) by simp_all
  obtain nh nl' ds' where r: "move_chain ?c len (lc_next_hash c (Handle x)) ?nl (moved + 1) =
      Some (?c\<lparr>lc_next_hash := nh\<rparr>, nl', moved + 1 + of_nat (length xs))"
    "chains nh nl' ds'" "length nl' = unat len" "mset (concat ds') = mset xs + mset (concat ?ds)" "placed (key_of c) len ds'"
    "\<forall>n. n \<notin> set xs \<longrightarrow> nh (Handle n) = ?nh (Handle n)"
    using Cons.IH [of ?c, unfolded nx key_of_simps, OF i1 i2 i5(1) Cons.prems(4) i3 i5(2) i4, of "moved + 1"] by blast
  show ?case
    using r step AB xn by (intro exI [of _ nh] exI [of _ nl'] exI [of _ ds']) (simp add: algebra_simps)
qed

lemma move_chains_works:
  assumes "chains (lc_next_hash c) hs cs" and "chains (lc_next_hash c) nl ds" and "length nl = unat len" and "0 < len"
    and "distinct (concat cs @ concat ds)" and "\<forall>n\<in>set (concat cs). entry_ok c n" and "placed (key_of c) len ds"
  shows "\<exists>nh nl' ds'. move_chains hs c len nl moved = Some (c\<lparr>lc_next_hash := nh\<rparr>, nl', moved + of_nat (length (concat cs)))
    \<and> chains nh nl' ds' \<and> length nl' = unat len \<and> mset (concat ds') = mset (concat cs) + mset (concat ds) \<and> placed (key_of c) len ds'"
  using assms
proof (induction hs arbitrary: c cs nl ds moved)
  case Nil
  then have "cs = []" by (simp add: chains_def)
  moreover have "c\<lparr>lc_next_hash := lc_next_hash c\<rparr> = c" by (cases c) simp
  ultimately show ?case using Nil by (intro exI [of _ "lc_next_hash c"] exI [of _ nl] exI [of _ ds]) simp
next
  case (Cons h hs)
  then obtain xs cs' where cs: "cs = xs # cs'" by (cases cs) (auto simp: chains_def)
  have ch: "chain (lc_next_hash c) h xs" and chs: "chains (lc_next_hash c) hs cs'"
    using Cons.prems(1) unfolding cs chains_def by (force dest: spec [of _ 0], force dest: spec [of _ "Suc _"])
  have dx: "distinct (xs @ concat ds)" and ex: "\<forall>n\<in>set xs. entry_ok c n" using Cons.prems(5,6) by (auto simp: cs)
  obtain nh nl1 ds1 where r: "move_chain c len h nl moved = Some (c\<lparr>lc_next_hash := nh\<rparr>, nl1, moved + of_nat (length xs))"
    "chains nh nl1 ds1" "length nl1 = unat len" "mset (concat ds1) = mset xs + mset (concat ds)" "placed (key_of c) len ds1"
    "\<forall>n. n \<notin> set xs \<longrightarrow> nh (Handle n) = lc_next_hash c (Handle n)"
    using move_chain_works [OF ch Cons.prems(2,3,4) dx ex Cons.prems(7), of moved] by blast
  have "set (concat ds1) = set xs \<union> set (concat ds)" using arg_cong [OF r(4), of set_mset] by simp
  moreover have "distinct (concat ds1)"
  proof -
    have "mset (concat ds1) = mset (xs @ concat ds)" using r(4) by simp
    moreover have "distinct (xs @ concat ds)" using Cons.prems(5) cs by auto
    ultimately show ?thesis using mset_eq_imp_distinct_iff by blast
  qed
  ultimately have d: "distinct (concat cs' @ concat ds1)" using Cons.prems(5) cs by auto
  have chs': "chains nh hs cs'"
  proof -
    have "chain nh p ys" if "chain (lc_next_hash c) p ys" "set ys \<inter> set xs = {}" for p ys
      using that r(6) by (induction ys arbitrary: p) auto
    moreover have "set (cs' ! i) \<inter> set xs = {}" if "i < length cs'" for i
      using Cons.prems(5) cs nth_mem [OF that] by fastforce
    ultimately show ?thesis using chs by (simp add: chains_def)
  qed
  have nx: "lc_next_hash (c\<lparr>lc_next_hash := nh\<rparr>) = nh" by simp
  have e': "\<forall>n\<in>set (concat cs'). entry_ok (c\<lparr>lc_next_hash := nh\<rparr>) n" using Cons.prems(6) by (simp add: cs)
  obtain nh' nl' ds' where s: "move_chains hs (c\<lparr>lc_next_hash := nh\<rparr>) len nl1 (moved + of_nat (length xs)) =
      Some (c\<lparr>lc_next_hash := nh, lc_next_hash := nh'\<rparr>, nl', moved + of_nat (length xs) + of_nat (length (concat cs')))"
    "chains nh' nl' ds'" "length nl' = unat len" "mset (concat ds') = mset (concat cs') + mset (concat ds1)" "placed (key_of c) len ds'"
    using Cons.IH [of "c\<lparr>lc_next_hash := nh\<rparr>", unfolded nx key_of_simps, OF chs' r(2,3) Cons.prems(4) d e' r(5),
      of "moved + of_nat (length xs)"] by blast
  show ?case
    using s r cs by (intro exI [of _ nh'] exI [of _ nl'] exI [of _ ds']) (simp add: ac_simps)
qed

lemma HandleTable_Resize_works:
  assumes "chains (lc_next_hash c) (lc_list c) cs" and "distinct (concat cs)" and "\<forall>n\<in>set (concat cs). entry_ok c n"
    and "unat (lc_elems c) = length (concat cs)" and "inj_on (key_of c) (set (concat cs))" and "length (concat cs) \<le> 2 ^ 31"
  shows "\<exists>nh ls len cs'. HandleTable_Resize c = Some (c\<lparr>lc_next_hash := nh, lc_list := ls, lc_length := len\<rparr>)
    \<and> table (c\<lparr>lc_next_hash := nh, lc_list := ls, lc_length := len\<rparr>) cs' \<and> mset (concat cs') = mset (concat cs)"
proof -
  have "unat (lc_elems c) \<le> 2 ^ 31" using assms(4,6) by (simp only:)
  from new_length_loop_works [of 2, OF _ this] obtain len where len: "new_length_loop (lc_elems c) 4 = Some len" "0 < len"
    by auto
  let ?nl = "replicate (unat len) Null" and ?ds = "replicate (unat len) []"
  have c0: "concat ?ds = []" by simp
  have e0: "chains (lc_next_hash c) ?nl ?ds" "placed (key_of c) len ?ds" "length ?nl = unat len" "distinct (concat cs @ concat ?ds)"
    using assms(2) unfolding c0 by (auto simp: chains_def placed_def)
  obtain nh nl ds where r0: "move_chains (lc_list c) c len ?nl 0 = Some (c\<lparr>lc_next_hash := nh\<rparr>, nl, 0 + of_nat (length (concat cs)))"
    "chains nh nl ds" "length nl = unat len" "mset (concat ds) = mset (concat cs) + mset (concat ?ds)" "placed (key_of c) len ds"
    using move_chains_works [OF assms(1) e0(1,3) len(2) e0(4) assms(3) e0(2), of 0] by blast
  note r = r0 [unfolded c0 mset.simps add_0_right add_0_left]
  have "of_nat (unat (lc_elems c)) = lc_elems c" by simp
  then have "of_nat (length (concat cs)) = lc_elems c" by (simp only: assms(4))
  then have "HandleTable_Resize c = Some (c\<lparr>lc_next_hash := nh, lc_list := nl, lc_length := len\<rparr>)"
    using len(1) r(1) by (simp add: HandleTable_Resize_def)
  moreover have "table (c\<lparr>lc_next_hash := nh, lc_list := nl, lc_length := len\<rparr>) ds"
    using r(2,3,5) len(2) assms(2,4,5) mset_eq_imp_distinct_iff [OF r(4)] mset_eq_setD [OF r(4)] mset_eq_length [OF r(4)]
    by (simp add: table_def chains_def)
  ultimately show ?thesis using r(4) by blast
qed

section \<open>Inserting\<close>

text \<open>
  A new entry that is not in the table: it takes the place of the entry with its key, if
  there is one.
\<close>

definition inserted :: "nat \<Rightarrow> ptr \<Rightarrow> nat list list \<Rightarrow> nat list list \<Rightarrow> bool" where
  "inserted n old cs cs' \<longleftrightarrow> (case old of Null \<Rightarrow> mset (concat cs') = add_mset n (mset (concat cs))
     | Handle x \<Rightarrow> x \<in> set (concat cs) \<and> add_mset x (mset (concat cs')) = add_mset n (mset (concat cs)) | _ \<Rightarrow> False)"

lemma HandleTable_Insert_works:
  assumes t: "table c cs" and e: "\<forall>n\<in>set (concat cs). entry_ok c n" and n: "n \<notin> set (concat cs)" "entry_ok c n"
    and most: "length (concat cs) < 2 ^ 31"
  shows "\<exists>old nh ls len m cs'. HandleTable_Insert c (Handle n) =
      Some (old, c\<lparr>lc_next_hash := nh, lc_elems := m, lc_list := ls, lc_length := len\<rparr>)
    \<and> table (c\<lparr>lc_next_hash := nh, lc_elems := m, lc_list := ls, lc_length := len\<rparr>) cs' \<and> inserted n old cs cs'
    \<and> (\<forall>x. old = Handle x \<longrightarrow> key_of c x = key_of c n) \<and> (old = Null \<longrightarrow> key_of c n \<notin> key_of c ` set (concat cs))"
proof -
  let ?key = "key_of c n"
  let ?b = "bucket (lc_length c) ?key"
  obtain en where en: "lc_heap c n = Some en" "lh_hash en = HashSlice (lh_key en)" "lc_next c (Handle n) \<noteq> Handle n"
    using n(2) by (auto simp: entry_ok_def)
  have k: "LRUHandle_key c (Handle n) = Some ?key" "lc_entry c (Handle n) = Some en" "lh_hash en = HashSlice ?key"
    using en by (simp_all add: LRUHandle_key_def lc_entry_def key_of_def)
  obtain as bs where f: "cs ! ?b = as @ bs" "?b < length cs"
    "FindPointer c ?key (HashSlice ?key) = Some (slot_after (Bucket ?b) as)"
    "read_slot c (slot_after (Bucket ?b) as) = Some (chain_head bs)"
    "\<forall>n\<in>set as. key_of c n \<noteq> ?key" "bs \<noteq> [] \<longrightarrow> key_of c (hd bs) = ?key" "bs = [] \<longrightarrow> ?key \<notin> key_of c ` set (concat cs)"
    by (rule FindPointer_works [OF t e])
  obtain A B where AB: "concat cs = A @ cs ! ?b @ B" "\<And>l. concat (cs[?b := l]) = A @ l @ B" using concat_bucket [OF f(2)] by metis
  have d: "distinct (concat cs)" and ch: "chains (lc_next_hash c) (lc_list c) cs" and pl: "placed (key_of c) (lc_length c) cs"
    and inj: "inj_on (key_of c) (set (concat cs))" and el: "unat (lc_elems c) = length (concat cs)"
    using t by (auto simp: table_def)
  define q where "q = (if chain_head bs = Null then Null else lc_next_hash c (chain_head bs))"
  define c1 where "c1 = c\<lparr>lc_next_hash := (lc_next_hash c)(Handle n := q)\<rparr>"
  define c2 where "c2 = write_slot c1 (slot_after (Bucket ?b) as) (Handle n)"
  have fields: "lc_length c2 = lc_length c" "lc_elems c2 = lc_elems c" "key_of c2 = key_of c" "entry_ok c2 = entry_ok c"
    by (simp_all add: c2_def c1_def write_slot_def split: slot.split)
  have c2: "\<exists>nh ls. c2 = c\<lparr>lc_next_hash := nh, lc_list := ls\<rparr>"
    by (cases c) (auto simp: c2_def c1_def write_slot_def split: slot.split)
  have step: "HandleTable_Insert c (Handle n) =
      (if chain_head bs = Null then
         do { c \<leftarrow> (if lc_elems c2 + 1 > lc_length c2 then HandleTable_Resize (c2\<lparr>lc_elems := lc_elems c2 + 1\<rparr>)
                 else Some (c2\<lparr>lc_elems := lc_elems c2 + 1\<rparr>)); Some (chain_head bs, c) }
       else Some (chain_head bs, c2))"
    using k f(3,4) by (simp add: HandleTable_Insert_def Let_def c2_def c1_def q_def)
  have ch1: "chains (lc_next_hash c1) (lc_list c1) cs" using ch chains_upd [OF n(1)] by (simp add: c1_def)
  have nb: "n \<notin> set (cs ! ?b)" using n(1) AB(1) by simp
  have wr: "chains (lc_next_hash c2) (lc_list c2) (cs[?b := as @ n # ds])" if "chain (lc_next_hash c) q ds" "set ds \<subseteq> set (cs ! ?b)"
    "as \<noteq> [] \<longrightarrow> last as \<notin> set ds" for ds
  proof -
    have "n \<notin> set ds" using that(2) nb by blast
    then have "chain (lc_next_hash c1) (Handle n) (n # ds)"
      using that(1) by (simp add: c1_def fun_upd_same del: fun_upd_apply)
    moreover have "as \<noteq> [] \<longrightarrow> last as \<notin> set (n # ds)" using that(3) nb f(1) last_in_set [of as] by auto
    ultimately show ?thesis unfolding c2_def by (rule chains_write [OF ch1 d f(2,1)])
  qed
  have place: "placed (key_of c) (lc_length c) (cs[?b := as @ n # ds])" if "set ds \<subseteq> set (cs ! ?b)" for ds
    using pl f(1,2) that by (intro placed_update) (auto simp: placed_def)
  show ?thesis
  proof (cases bs)
    case Nil
    then have h: "chain_head bs = Null" by (simp add: chain_head_def)
    let ?cs = "cs[?b := as @ [n]]" and ?c = "c2\<lparr>lc_elems := lc_elems c2 + 1\<rparr>"
    have m: "mset (concat ?cs) = add_mset n (mset (concat cs))" using AB f(1) Nil by simp
    have w: "chains (lc_next_hash ?c) (lc_list ?c) ?cs" using wr [of "[]"] h by (simp add: q_def)
    have d': "distinct (concat ?cs)" using d n(1) m by (metis distinct.simps(2) mset.simps(2) mset_eq_imp_distinct_iff)
    have s: "set (concat ?cs) = insert n (set (concat cs))" using m by (metis list.simps(15) mset.simps(2) mset_eq_setD)
    have l: "length (concat ?cs) = Suc (length (concat cs))" using m by (metis size_add_mset size_mset)
    have "unat (lc_elems c + 1) = unat (lc_elems c) + 1"
      using most el by (intro unat_add_lem [THEN iffD1, THEN trans]) (simp_all del: length_concat)
    then have el': "unat (lc_elems ?c) = length (concat ?cs)" using el l by (simp add: fields del: length_concat)
    have inj': "inj_on (key_of ?c) (set (concat ?cs))" using inj f(7) Nil n(1) unfolding s by (simp add: fields)
    have e': "\<forall>x\<in>set (concat ?cs). entry_ok ?c x" using e n(2) unfolding s by (simp add: fields)
    have ins: "inserted n Null cs cs'" if "mset (concat cs') = mset (concat ?cs)" for cs' using that m by (simp add: inserted_def)
    show ?thesis
    proof (cases "lc_elems c2 + 1 > lc_length c2")
      case True
      have "length (concat ?cs) \<le> 2 ^ 31" using l most by simp
      from HandleTable_Resize_works [OF w d' e' el' inj' this] obtain nh ls len cs'
        where r: "HandleTable_Resize ?c = Some (?c\<lparr>lc_next_hash := nh, lc_list := ls, lc_length := len\<rparr>)"
          "table (?c\<lparr>lc_next_hash := nh, lc_list := ls, lc_length := len\<rparr>) cs'" "mset (concat cs') = mset (concat ?cs)" by blast
      have eq: "?c\<lparr>lc_next_hash := nh, lc_list := ls, lc_length := len\<rparr> =
          c\<lparr>lc_next_hash := nh, lc_elems := lc_elems c2 + 1, lc_list := ls, lc_length := len\<rparr>" using c2 by auto
      have "HandleTable_Insert c (Handle n) = Some (Null, c\<lparr>lc_next_hash := nh, lc_elems := lc_elems c2 + 1, lc_list := ls, lc_length := len\<rparr>)"
        using step h True r(1) unfolding eq by simp
      then show ?thesis using r(2) ins [OF r(3)] f(7) Nil unfolding eq by blast
    next
      case False
      have "placed (key_of ?c) (lc_length ?c) ?cs" using place [of "[]"] by (simp add: fields)
      then have tc: "table ?c ?cs" using t w d' el' inj' unfolding table_def by (simp add: fields)
      obtain nh ls where "c2 = c\<lparr>lc_next_hash := nh, lc_list := ls\<rparr>" using c2 by blast
      then have eq: "?c = c\<lparr>lc_next_hash := nh, lc_elems := lc_elems c2 + 1, lc_list := ls, lc_length := lc_length c\<rparr>" by (cases c) simp
      have "HandleTable_Insert c (Handle n) = Some (Null, ?c)" using step h False by simp
      then show ?thesis using tc ins [OF refl] f(7) Nil unfolding eq by blast
    qed
  next
    case (Cons x ds)
    then have h: "chain_head bs = Handle x" by (simp add: chain_head_def)
    let ?cs = "cs[?b := as @ n # ds]"
    have "chain (lc_next_hash c) (lc_list c ! ?b) (as @ x # ds)" using ch f(1,2) Cons by (metis chains_def)
    then have q: "chain (lc_next_hash c) q ds" unfolding q_def h by (auto intro: chain_suffix)
    have "distinct (as @ x # ds)" using d unfolding AB(1) f(1) Cons distinct_append by blast
    then have "set as \<inter> set ds = {}" by auto
    then have "as \<noteq> [] \<longrightarrow> last as \<notin> set ds" using last_in_set [of as] by blast
    then have w: "chains (lc_next_hash c2) (lc_list c2) ?cs" using wr [OF q] f(1) Cons by auto
    have m: "add_mset x (mset (concat ?cs)) = add_mset n (mset (concat cs))" using AB f(1) Cons by simp
    have x: "x \<in> set (concat cs)" using AB(1) f(1) Cons by simp
    have xk: "key_of c x = ?key" using f(6) Cons by simp
    have l: "length (concat ?cs) = length (concat cs)" using AB f(1) Cons by simp
    have s: "set (concat ?cs) = insert n (set (concat cs) - {x})" and d': "distinct (concat ?cs)"
      using d n(1) AB f(1) Cons by auto
    have inj': "inj_on (key_of c) (set (concat ?cs))"
      unfolding s using inj xk x by (auto simp: inj_on_def)
    have "placed (key_of c) (lc_length c) ?cs" using place [of ds] f(1) Cons by auto
    then have "table c2 ?cs" using t w d' el l inj' unfolding table_def by (simp add: fields del: length_concat)
    moreover obtain nh ls where "c2 = c\<lparr>lc_next_hash := nh, lc_list := ls\<rparr>" using c2 by blast
    then have eq: "c2 = c\<lparr>lc_next_hash := nh, lc_elems := lc_elems c, lc_list := ls, lc_length := lc_length c\<rparr>" by (cases c) simp
    moreover have "inserted n (Handle x) cs ?cs" using x m by (simp add: inserted_def)
    ultimately show ?thesis using step h xk unfolding eq by (metis ptr.distinct(5) ptr.inject)
  qed
qed

end
