(* ===== verification/LDB_LRU_Shard.thy ===== *)
theory LDB_LRU_Shard
  imports LDB_LRU_Table
begin

text \<open>
  A shard of the LRU cache of \<^verbatim>\<open>util/cache.cc\<close>: its invariant, and that every operation
  keeps it. The entries of the cache are the nodes of the LRU list (only the cache refers to
  them) and of the list in use (a client does too), and they are the entries of the table;
  an entry that was erased or replaced lives on until its last handle is released.
\<close>

section \<open>Invariant\<close>

definition lru_lists :: "'v LRUCache \<Rightarrow> nat list \<Rightarrow> nat list \<Rightarrow> bool" where
  "lru_lists c lru us \<longleftrightarrow> two_lists (lc_next c) (lc_prev c) Lru (map Handle lru) InUse (map Handle us)"

definition charge_ok :: "size_t \<Rightarrow> bool" where
  "charge_ok n \<longleftrightarrow> 0 < unat n \<and> unat n < 2 ^ 32"

definition charge_of :: "'v LRUCache \<Rightarrow> nat \<Rightarrow> nat" where
  "charge_of c n = unat (lh_charge (the (lc_heap c n)))"

definition node_ok :: "'v LRUCache \<Rightarrow> nat list \<Rightarrow> nat list \<Rightarrow> nat \<Rightarrow> 'v LRUHandle \<Rightarrow> bool" where
  "node_ok c lru us n e \<longleftrightarrow> n < lc_fresh c \<and> lc_next c (Handle n) \<noteq> Handle n \<and> lh_hash e = HashSlice (lh_key e)
     \<and> charge_ok (lh_charge e) \<and> lh_in_cache e = (n \<in> set lru \<or> n \<in> set us) \<and> 0 < lh_refs e
     \<and> (n \<in> set lru \<longrightarrow> lh_refs e = 1) \<and> (n \<in> set us \<longrightarrow> 1 < lh_refs e)"

definition shard0 :: "'v LRUCache \<Rightarrow> nat list \<Rightarrow> nat list \<Rightarrow> nat list list \<Rightarrow> bool" where
  "shard0 c lru us cs \<longleftrightarrow> lru_lists c lru us \<and> set lru \<union> set us \<subseteq> dom (lc_heap c) \<and> table c cs
     \<and> set (concat cs) \<subseteq> set lru \<union> set us \<and> (\<forall>n e. lc_heap c n = Some e \<longrightarrow> node_ok c lru us n e)
     \<and> unat (lc_usage c) = (\<Sum>n\<in>set lru \<union> set us. charge_of c n)"

definition shard :: "'v LRUCache \<Rightarrow> nat list \<Rightarrow> nat list \<Rightarrow> nat list list \<Rightarrow> bool" where
  "shard c lru us cs \<longleftrightarrow> shard0 c lru us cs \<and> set (concat cs) = set lru \<union> set us"

definition handle_count :: "'v LRUCache \<Rightarrow> nat \<Rightarrow> nat" where
  "handle_count c n = (case lc_heap c n of None \<Rightarrow> 0 | Some e \<Rightarrow> unat (lh_refs e) - (if lh_in_cache e then 1 else 0))"

text \<open>Every entry that is left was there and has its key and value.\<close>

definition shrinks :: "'v LRUCache \<Rightarrow> 'v LRUCache \<Rightarrow> bool" where
  "shrinks c c' \<longleftrightarrow> (\<forall>n e'. lc_heap c' n = Some e' \<longrightarrow>
     (\<exists>e. lc_heap c n = Some e \<and> lh_key e' = lh_key e \<and> lh_value e' = lh_value e)) \<and> lc_capacity c' = lc_capacity c"

lemma shrinks_trans: "shrinks c1 c2 \<Longrightarrow> shrinks c2 c3 \<Longrightarrow> shrinks c1 c3"
  unfolding shrinks_def by metis

lemma shrinks_refl [simp]: "shrinks c c"
  by (auto simp: shrinks_def)

section \<open>List operations\<close>

lemma lists_live:
  "set lru \<union> set us \<subseteq> dom (lc_heap c) \<Longrightarrow> q \<in> set (Lru # InUse # map Handle lru @ map Handle us) \<Longrightarrow> lc_live c q"
  by (auto simp: lc_live_def)

lemma lists_distinct: "lru_lists c lru us \<Longrightarrow> distinct (lru @ us)"
  by (auto simp: lru_lists_def two_lists_def distinct_map)

lemma unlink:
  assumes "lru_lists c lru us" and "set lru \<union> set us \<subseteq> dom (lc_heap c)" and "x \<in> set lru \<union> set us"
  shows "\<exists>nx pv. LRU_Remove c (Handle x) = Some (c\<lparr>lc_next := nx, lc_prev := pv\<rparr>)
    \<and> lru_lists (c\<lparr>lc_next := nx, lc_prev := pv\<rparr>) (remove1 x lru) (remove1 x us)
    \<and> (\<forall>n. n \<notin> set lru \<union> set us - {x} \<longrightarrow> nx (Handle n) = lc_next c (Handle n))"
proof -
  have d: "distinct (lru @ us)" using lists_distinct [OF assms(1)] .
  have t: "two_lists (lc_next c) (lc_prev c) Lru (map Handle lru) InUse (map Handle us)" using assms(1) by (simp add: lru_lists_def)
  show ?thesis
  proof (cases "x \<in> set lru")
    case True
    then obtain as bs where s: "lru = as @ x # bs" "x \<notin> set as" by (meson split_list_first)
    have live: "\<forall>q\<in>set (Lru # InUse # map Handle as @ Handle x # map Handle bs @ map Handle us). lc_live c q"
      using lists_live [OF assms(2)] s(1) by auto
    have r: "remove1 x lru = as @ bs" "remove1 x us = us" using s d by (auto simp: remove1_append remove1_idem)
    have "two_lists (lc_next c) (lc_prev c) Lru (map Handle as @ Handle x # map Handle bs) InUse (map Handle us)" using t s(1) by simp
    from LRU_Remove_works [OF this live] obtain nx pv where
      "LRU_Remove c (Handle x) = Some (c\<lparr>lc_next := nx, lc_prev := pv\<rparr>)"
      "two_lists nx pv Lru (map Handle as @ map Handle bs) InUse (map Handle us)"
      "\<forall>q. q \<notin> set (Lru # InUse # map Handle as @ map Handle bs @ map Handle us) \<longrightarrow> nx q = lc_next c q" by blast
    then show ?thesis unfolding r using s d by (intro exI [of _ nx] exI [of _ pv]) (auto simp: lru_lists_def)
  next
    case False
    then obtain as bs where s: "us = as @ x # bs" "x \<notin> set as" using assms(3) by (meson UnE split_list_first)
    have live: "\<forall>q\<in>set (InUse # Lru # map Handle as @ Handle x # map Handle bs @ map Handle lru). lc_live c q"
      using lists_live [OF assms(2)] s(1) by auto
    have r: "remove1 x us = as @ bs" "remove1 x lru = lru" using s d by (auto simp: remove1_append remove1_idem)
    have "two_lists (lc_next c) (lc_prev c) InUse (map Handle as @ Handle x # map Handle bs) Lru (map Handle lru)"
      using t s(1) by (simp add: two_lists_swap)
    from LRU_Remove_works [OF this live] obtain nx pv where
      "LRU_Remove c (Handle x) = Some (c\<lparr>lc_next := nx, lc_prev := pv\<rparr>)"
      "two_lists nx pv InUse (map Handle as @ map Handle bs) Lru (map Handle lru)"
      "\<forall>q. q \<notin> set (InUse # Lru # map Handle as @ map Handle bs @ map Handle lru) \<longrightarrow> nx q = lc_next c q" by blast
    then show ?thesis unfolding r using s d by (intro exI [of _ nx] exI [of _ pv]) (auto simp: lru_lists_def two_lists_swap)
  qed
qed

lemma link:
  assumes "lru_lists c lru us" and "set lru \<union> set us \<subseteq> dom (lc_heap c)" and "x \<notin> set lru \<union> set us" and "x \<in> dom (lc_heap c)"
  shows "\<exists>nx pv. LRU_Append c Lru (Handle x) = Some (c\<lparr>lc_next := nx, lc_prev := pv\<rparr>)
      \<and> lru_lists (c\<lparr>lc_next := nx, lc_prev := pv\<rparr>) (lru @ [x]) us
      \<and> (\<forall>n. n \<notin> insert x (set lru \<union> set us) \<longrightarrow> nx (Handle n) = lc_next c (Handle n))"
    and "\<exists>nx pv. LRU_Append c InUse (Handle x) = Some (c\<lparr>lc_next := nx, lc_prev := pv\<rparr>)
      \<and> lru_lists (c\<lparr>lc_next := nx, lc_prev := pv\<rparr>) lru (us @ [x])
      \<and> (\<forall>n. n \<notin> insert x (set lru \<union> set us) \<longrightarrow> nx (Handle n) = lc_next c (Handle n))"
proof -
  have t: "two_lists (lc_next c) (lc_prev c) Lru (map Handle lru) InUse (map Handle us)" using assms(1) by (simp add: lru_lists_def)
  have n: "Handle x \<notin> set (Lru # InUse # map Handle lru @ map Handle us)" "Handle x \<notin> set (InUse # Lru # map Handle us @ map Handle lru)"
    using assms(3) by auto
  have live: "\<forall>q\<in>set (Lru # Handle x # InUse # map Handle lru @ map Handle us). lc_live c q"
    "\<forall>q\<in>set (InUse # Handle x # Lru # map Handle us @ map Handle lru). lc_live c q"
    using lists_live [OF assms(2)] assms(4) by (auto simp: lc_live_def)
  from LRU_Append_works [OF t n(1) live(1)] obtain nx pv where
    "LRU_Append c Lru (Handle x) = Some (c\<lparr>lc_next := nx, lc_prev := pv\<rparr>)"
    "two_lists nx pv Lru (map Handle lru @ [Handle x]) InUse (map Handle us)"
    "\<forall>q. q \<notin> set (Lru # InUse # Handle x # map Handle lru @ map Handle us) \<longrightarrow> nx q = lc_next c q" by blast
  then show "\<exists>nx pv. LRU_Append c Lru (Handle x) = Some (c\<lparr>lc_next := nx, lc_prev := pv\<rparr>)
      \<and> lru_lists (c\<lparr>lc_next := nx, lc_prev := pv\<rparr>) (lru @ [x]) us
      \<and> (\<forall>n. n \<notin> insert x (set lru \<union> set us) \<longrightarrow> nx (Handle n) = lc_next c (Handle n))"
    by (intro exI [of _ nx] exI [of _ pv]) (auto simp: lru_lists_def)
  from LRU_Append_works [OF t [unfolded two_lists_swap [of _ _ Lru]] n(2) live(2)] obtain nx pv where
    "LRU_Append c InUse (Handle x) = Some (c\<lparr>lc_next := nx, lc_prev := pv\<rparr>)"
    "two_lists nx pv InUse (map Handle us @ [Handle x]) Lru (map Handle lru)"
    "\<forall>q. q \<notin> set (InUse # Lru # Handle x # map Handle us @ map Handle lru) \<longrightarrow> nx q = lc_next c q" by blast
  then show "\<exists>nx pv. LRU_Append c InUse (Handle x) = Some (c\<lparr>lc_next := nx, lc_prev := pv\<rparr>)
      \<and> lru_lists (c\<lparr>lc_next := nx, lc_prev := pv\<rparr>) lru (us @ [x])
      \<and> (\<forall>n. n \<notin> insert x (set lru \<union> set us) \<longrightarrow> nx (Handle n) = lc_next c (Handle n))"
    by (intro exI [of _ nx] exI [of _ pv]) (auto simp: lru_lists_def two_lists_swap [of _ _ Lru])
qed

text \<open>Nodes of the lists point elsewhere, and the others kept their links.\<close>

lemma next_ok:
  assumes "lru_lists c' lru us" and "n \<notin> set lru \<union> set us \<Longrightarrow> lc_next c' (Handle n) \<noteq> Handle n"
  shows "lc_next c' (Handle n) \<noteq> Handle n"
proof (cases "n \<in> set lru \<union> set us")
  case True
  have t: "two_lists (lc_next c') (lc_prev c') Lru (map Handle lru) InUse (map Handle us)"
    "two_lists (lc_next c') (lc_prev c') InUse (map Handle us) Lru (map Handle lru)"
    using assms(1) by (simp_all add: lru_lists_def two_lists_swap)
  then show ?thesis using True two_lists_next(2) [OF t(1)] two_lists_next(2) [OF t(2)] by auto
qed (rule assms(2))

lemma table_cong:
  assumes "table c cs" and "lc_length c' = lc_length c" "lc_elems c' = lc_elems c" "lc_next_hash c' = lc_next_hash c" "lc_list c' = lc_list c"
    and "\<And>n. n \<in> set (concat cs) \<Longrightarrow> key_of c' n = key_of c n"
  shows "table c' cs"
proof -
  have "placed (key_of c') (lc_length c) cs"
    unfolding placed_def
  proof (intro allI impI ballI)
    fix i n assume a: "i < length cs" "n \<in> set (cs ! i)"
    then have "n \<in> set (concat cs)" by auto
    then show "bucket (lc_length c) (key_of c' n) = i" using assms(1,6) a by (auto simp: table_def placed_def)
  qed
  moreover have "inj_on (key_of c') (set (concat cs)) = inj_on (key_of c) (set (concat cs))"
    using assms(6) by (rule inj_on_cong)
  ultimately show ?thesis using assms(1-5) by (simp add: table_def)
qed

section \<open>Releasing the cache's reference\<close>

lemma unat_pred: "0 < (w :: u32) \<Longrightarrow> unat (w - 1) = unat w - 1"
  by (metis unat_minus_one word_gt_0)

lemma shard0_dest:
  assumes "shard0 c lru us cs"
  shows "lru_lists c lru us" "set lru \<union> set us \<subseteq> dom (lc_heap c)" "table c cs" "set (concat cs) \<subseteq> set lru \<union> set us"
    "lc_heap c n = Some e \<Longrightarrow> node_ok c lru us n e" "unat (lc_usage c) = (\<Sum>n\<in>set lru \<union> set us. charge_of c n)"
  using assms by (simp_all add: shard0_def)

lemma usage_minus:
  assumes "unat u = (\<Sum>n\<in>insert x A. charge_of c n)" and "x \<notin> A" and "finite A" and "lc_heap c x = Some e"
  shows "unat (u - lh_charge e) = (\<Sum>n\<in>A. charge_of c n)"
proof -
  have "unat u = unat (lh_charge e) + (\<Sum>n\<in>A. charge_of c n)" using assms by (simp add: charge_of_def)
  moreover from this have "lh_charge e \<le> u" by (simp add: word_le_nat_alt)
  ultimately show ?thesis by (simp add: unat_sub)
qed

lemma FinishErase_works:
  assumes s: "shard0 c lru us cs" and x: "x \<in> set lru \<union> set us" "x \<notin> set (concat cs)"
  shows "\<exists>c'. LRUCache_FinishErase c (Handle x) = Some (True, c') \<and> shard0 c' (remove1 x lru) (remove1 x us) cs
    \<and> handle_count c' = handle_count c \<and> shrinks c c'"
proof -
  note d = shard0_dest [OF s]
  obtain e where e: "lc_heap c x = Some e" using d(2) x(1) by blast
  have nx: "node_ok c lru us x e" by (rule d(5) [OF e])
  have dist: "distinct (lru @ us)" by (rule lists_distinct [OF d(1)])
  then have L: "set (remove1 x lru) \<union> set (remove1 x us) = set lru \<union> set us - {x}" by (auto simp: set_remove1_eq)
  have eL: "set lru \<union> set us = insert x (set lru \<union> set us - {x})" using x(1) by auto
  obtain nx pv where u: "LRU_Remove c (Handle x) = Some (c\<lparr>lc_next := nx, lc_prev := pv\<rparr>)"
    "lru_lists (c\<lparr>lc_next := nx, lc_prev := pv\<rparr>) (remove1 x lru) (remove1 x us)"
    "\<forall>n. n \<notin> set lru \<union> set us - {x} \<longrightarrow> nx (Handle n) = lc_next c (Handle n)" using unlink [OF d(1,2) x(1)] by blast
  let ?u = "lc_usage c - lh_charge e"
  let ?e = "e\<lparr>lh_in_cache := False, lh_refs := lh_refs e - 1\<rparr>"
  define hp where "hp = (if lh_refs e = 1 then (lc_heap c)(x := None) else (lc_heap c)(x := Some ?e))"
  define ds where "ds = (if lh_refs e = 1 then lc_deleted c @ [(lh_key e, lh_value e)] else lc_deleted c)"
  define c' where "c' = c\<lparr>lc_next := nx, lc_prev := pv, lc_heap := hp, lc_usage := ?u, lc_deleted := ds\<rparr>"
  have refs: "0 < lh_refs e" "lh_in_cache e" "nx (Handle x) \<noteq> Handle x" using nx x(1) u(3) by (auto simp: node_ok_def)
  have run: "LRUCache_FinishErase c (Handle x) = Some (True, c')"
  proof (cases "lh_refs e = 1")
    case True
    then show ?thesis
      using e refs u(1)
      by (simp add: LRUCache_FinishErase_def LRUCache_Unref_def lc_entry_def LRUHandle_key_def c'_def hp_def ds_def Let_def)
  next
    case False
    then have "lh_refs e - 1 \<noteq> 0" by simp
    then show ?thesis
      using e refs u(1) False
      by (simp add: LRUCache_FinishErase_def LRUCache_Unref_def lc_entry_def c'_def hp_def ds_def Let_def)
  qed
  have other: "hp n = lc_heap c n" if "n \<noteq> x" for n using that by (simp add: hp_def)
  have lists': "lru_lists c' (remove1 x lru) (remove1 x us)" using u(2) by (simp add: lru_lists_def c'_def)
  have dom': "set (remove1 x lru) \<union> set (remove1 x us) \<subseteq> dom (lc_heap c')"
    using d(2) other unfolding L by (auto simp: c'_def dom_def)
  have "key_of c' n = key_of c n" if "n \<in> set (concat cs)" for n
  proof -
    have "n \<noteq> x" using that x(2) by blast
    then show ?thesis using other by (simp add: key_of_def c'_def)
  qed
  then have table': "table c' cs" by (intro table_cong [OF d(3)]) (simp_all add: c'_def)
  have sub: "set (concat cs) \<subseteq> set (remove1 x lru) \<union> set (remove1 x us)" using d(4) x(2) unfolding L by blast
  have nodes: "node_ok c' (remove1 x lru) (remove1 x us) n f" if "lc_heap c' n = Some f" for n f
  proof -
    have nn: "lc_next c' (Handle n) \<noteq> Handle n"
    proof (rule next_ok [OF lists'])
      assume "n \<notin> set (remove1 x lru) \<union> set (remove1 x us)"
      then have "nx (Handle n) = lc_next c (Handle n)" using u(3) L by blast
      moreover have "lc_heap c n \<noteq> None" using that other [of n] e by (cases "n = x") (auto simp: c'_def)
      ultimately show "lc_next c' (Handle n) \<noteq> Handle n" using d(5) [of n] by (auto simp: c'_def node_ok_def)
    qed
    show ?thesis
    proof (cases "n = x")
      case True
      then have f: "f = ?e" "lh_refs e \<noteq> 1" using that by (auto simp: c'_def hp_def split: if_splits)
      then have "0 < lh_refs e - 1" using refs(1) by (simp add: word_gt_0)
      then show ?thesis using f nx True nn dist by (auto simp: node_ok_def c'_def)
    next
      case False
      then have "lc_heap c n = Some f" using that other by (simp add: c'_def)
      then show ?thesis using d(5) nn False dist by (auto simp: node_ok_def c'_def)
    qed
  qed
  have usage: "unat (lc_usage c') = (\<Sum>n\<in>set (remove1 x lru) \<union> set (remove1 x us). charge_of c' n)"
  proof -
    have "unat ?u = (\<Sum>n\<in>set lru \<union> set us - {x}. charge_of c n)"
      by (rule usage_minus [OF _ _ _ e]) (use d(6) eL in auto)
    also have "\<dots> = (\<Sum>n\<in>set lru \<union> set us - {x}. charge_of c' n)"
      by (rule sum.cong) (auto simp: charge_of_def c'_def other)
    finally show ?thesis by (simp add: L c'_def)
  qed
  have "shard0 c' (remove1 x lru) (remove1 x us) cs"
    unfolding shard0_def using lists' dom' table' sub nodes usage by blast
  moreover have "handle_count c' = handle_count c"
  proof
    show "handle_count c' n = handle_count c n" for n
      using e refs unat_pred [OF refs(1)] by (cases "n = x") (auto simp: handle_count_def c'_def hp_def)
  qed
  moreover have "shrinks c c'" using e by (auto simp: shrinks_def c'_def hp_def split: if_splits)
  ultimately show ?thesis using run by blast
qed

section \<open>References of clients\<close>

text \<open>A reference count changes; the entry may move to the other list.\<close>

lemma set_refs:
  assumes s: "shard0 c lru us cs" and e: "lc_heap c x = Some e"
    and l: "lru_lists (c\<lparr>lc_next := nx, lc_prev := pv\<rparr>) lru' us'"
    and nx: "\<forall>n. n \<notin> set lru \<union> set us \<longrightarrow> nx (Handle n) = lc_next c (Handle n)"
    and mem: "\<forall>n. n \<noteq> x \<longrightarrow> (n \<in> set lru' \<longleftrightarrow> n \<in> set lru) \<and> (n \<in> set us' \<longleftrightarrow> n \<in> set us)"
    and x: "x \<in> set lru' \<union> set us' \<longleftrightarrow> x \<in> set lru \<union> set us" "0 < r" "x \<in> set lru' \<longrightarrow> r = 1" "x \<in> set us' \<longrightarrow> 1 < r"
  shows "shard0 (c\<lparr>lc_next := nx, lc_prev := pv, lc_heap := (lc_heap c)(x \<mapsto> e\<lparr>lh_refs := r\<rparr>)\<rparr>) lru' us' cs"
proof -
  note d = shard0_dest [OF s]
  let ?c = "c\<lparr>lc_next := nx, lc_prev := pv, lc_heap := (lc_heap c)(x \<mapsto> e\<lparr>lh_refs := r\<rparr>)\<rparr>"
  have L: "set lru' \<union> set us' = set lru \<union> set us" using mem x(1) by (intro set_eqI) (metis Un_iff)
  have l': "lru_lists ?c lru' us'" using l by (simp add: lru_lists_def)
  have "table ?c cs" using e by (intro table_cong [OF d(3)]) (auto simp: key_of_def)
  moreover have "set lru' \<union> set us' \<subseteq> dom (lc_heap ?c)" using d(2) unfolding L by auto
  moreover have "node_ok ?c lru' us' n f" if "lc_heap ?c n = Some f" for n f
  proof -
    have nn: "lc_next ?c (Handle n) \<noteq> Handle n"
    proof (rule next_ok [OF l'])
      assume "n \<notin> set lru' \<union> set us'"
      then have "nx (Handle n) = lc_next c (Handle n)" using nx L by blast
      moreover have "lc_heap c n \<noteq> None" using that e by (cases "n = x") auto
      ultimately show "lc_next ?c (Handle n) \<noteq> Handle n" using d(5) [of n] by (auto simp: node_ok_def)
    qed
    show ?thesis
    proof (cases "n = x")
      case True
      then show ?thesis using that d(5) [OF e] nn x by (auto simp: node_ok_def)
    next
      case False
      then have "lc_heap c n = Some f" using that by simp
      then show ?thesis using d(5) nn mem False by (auto simp: node_ok_def)
    qed
  qed
  moreover have "(\<Sum>n\<in>set lru' \<union> set us'. charge_of ?c n) = (\<Sum>n\<in>set lru \<union> set us. charge_of c n)"
    unfolding L using e by (intro sum.cong) (auto simp: charge_of_def)
  ultimately show ?thesis unfolding shard0_def using l' d(4,6) L by auto
qed

lemma Ref_works:
  assumes s: "shard0 c lru us cs" and x: "x \<in> set lru \<union> set us" and most: "handle_count c x < 2 ^ 31"
  shows "\<exists>c' lru' us'. LRUCache_Ref c (Handle x) = Some c' \<and> shard0 c' lru' us' cs \<and> set lru' \<union> set us' = set lru \<union> set us
    \<and> handle_count c' = (handle_count c)(x := handle_count c x + 1) \<and> shrinks c c' \<and> x \<in> set us'"
proof -
  note d = shard0_dest [OF s]
  obtain e where e: "lc_heap c x = Some e" using d(2) x by blast
  have n: "node_ok c lru us x e" by (rule d(5) [OF e])
  then have in_c: "lh_in_cache e" using x by (auto simp: node_ok_def)
  have small: "unat (lh_refs e) < 2 ^ 31 + 1" "0 < unat (lh_refs e)"
    using most e in_c n by (auto simp: handle_count_def node_ok_def word_less_nat_alt)
  then have r: "unat (lh_refs e + 1) = unat (lh_refs e) + 1" by (intro unat_add_lem [THEN iffD1, THEN trans]) simp_all
  have count: "handle_count (c\<lparr>lc_next := nx, lc_prev := pv, lc_heap := (lc_heap c)(x \<mapsto> e\<lparr>lh_refs := lh_refs e + 1\<rparr>)\<rparr>) =
      (handle_count c)(x := handle_count c x + 1)" for nx pv
    using e in_c r small(2) by (auto simp: handle_count_def fun_eq_iff)
  have shr: "shrinks c (c\<lparr>lc_next := nx, lc_prev := pv, lc_heap := (lc_heap c)(x \<mapsto> e\<lparr>lh_refs := lh_refs e + 1\<rparr>)\<rparr>)" for nx pv
    using e by (auto simp: shrinks_def)
  have dist: "distinct (lru @ us)" by (rule lists_distinct [OF d(1)])
  have big: "1 < lh_refs e + 1" using r small(2) by (simp add: word_less_nat_alt)
  have pos: "0 < lh_refs e + 1" using r by (simp add: word_less_nat_alt)
  show ?thesis
  proof (cases "x \<in> set lru")
    case True
    then have e1: "lh_refs e = 1" using n by (simp add: node_ok_def)
    obtain nx pv where u: "LRU_Remove c (Handle x) = Some (c\<lparr>lc_next := nx, lc_prev := pv\<rparr>)"
      "lru_lists (c\<lparr>lc_next := nx, lc_prev := pv\<rparr>) (remove1 x lru) (remove1 x us)"
      "\<forall>n. n \<notin> set lru \<union> set us - {x} \<longrightarrow> nx (Handle n) = lc_next c (Handle n)" using unlink [OF d(1,2) x] by blast
    let ?c = "c\<lparr>lc_next := nx, lc_prev := pv\<rparr>"
    have L: "set (remove1 x lru) \<union> set (remove1 x us) = set lru \<union> set us - {x}" using dist by (auto simp: set_remove1_eq)
    have dd: "set (remove1 x lru) \<union> set (remove1 x us) \<subseteq> dom (lc_heap ?c)" "x \<notin> set (remove1 x lru) \<union> set (remove1 x us)"
      "x \<in> dom (lc_heap ?c)" using d(2) e unfolding L by auto
    obtain nx2 pv2 where a: "LRU_Append ?c InUse (Handle x) = Some (?c\<lparr>lc_next := nx2, lc_prev := pv2\<rparr>)"
      "lru_lists (?c\<lparr>lc_next := nx2, lc_prev := pv2\<rparr>) (remove1 x lru) (remove1 x us @ [x])"
      "\<forall>n. n \<notin> insert x (set (remove1 x lru) \<union> set (remove1 x us)) \<longrightarrow> nx2 (Handle n) = lc_next ?c (Handle n)"
      using link(2) [OF u(2) dd] by blast
    let ?c' = "c\<lparr>lc_next := nx2, lc_prev := pv2, lc_heap := (lc_heap c)(x \<mapsto> e\<lparr>lh_refs := lh_refs e + 1\<rparr>)\<rparr>"
    have "shard0 ?c' (remove1 x lru) (remove1 x us @ [x]) cs"
    proof (rule set_refs [OF s e])
      show "lru_lists (c\<lparr>lc_next := nx2, lc_prev := pv2\<rparr>) (remove1 x lru) (remove1 x us @ [x])" using a(2) by simp
      show "\<forall>n. n \<notin> set lru \<union> set us \<longrightarrow> nx2 (Handle n) = lc_next c (Handle n)" using a(3) u(3) x unfolding L by auto
      show "\<forall>n. n \<noteq> x \<longrightarrow> (n \<in> set (remove1 x lru) \<longleftrightarrow> n \<in> set lru) \<and> (n \<in> set (remove1 x us @ [x]) \<longleftrightarrow> n \<in> set us)" by auto
      show "x \<in> set (remove1 x lru) \<union> set (remove1 x us @ [x]) \<longleftrightarrow> x \<in> set lru \<union> set us" using x by simp
      show "x \<in> set (remove1 x lru) \<longrightarrow> lh_refs e + 1 = 1" using dd(2) by blast
    qed (rule pos, rule impI, rule big)
    moreover have "LRUCache_Ref c (Handle x) = Some ?c'"
      using e in_c e1 u(1) a(1) by (simp add: LRUCache_Ref_def lc_entry_def)
    moreover have "set (remove1 x lru) \<union> set (remove1 x us @ [x]) = set lru \<union> set us" using L x by auto
    ultimately show ?thesis using count shr by (metis in_set_conv_decomp)
  next
    case False
    then have xu: "x \<in> set us" and r1: "1 < lh_refs e" using x n by (auto simp: node_ok_def)
    let ?c' = "c\<lparr>lc_next := lc_next c, lc_prev := lc_prev c, lc_heap := (lc_heap c)(x \<mapsto> e\<lparr>lh_refs := lh_refs e + 1\<rparr>)\<rparr>"
    have "lru_lists (c\<lparr>lc_next := lc_next c, lc_prev := lc_prev c\<rparr>) lru us" using d(1) by (simp add: lru_lists_def)
    then have "shard0 ?c' lru us cs" by (rule set_refs [OF s e]) (use False pos big in auto)
    moreover have "LRUCache_Ref c (Handle x) = Some ?c'"
      using e r1 by (cases c) (auto simp: LRUCache_Ref_def lc_entry_def)
    ultimately show ?thesis using count shr xu by metis
  qed
qed

text \<open>An entry outside the cache is freed.\<close>

lemma drop_node:
  assumes s: "shard0 c lru us cs" and x: "x \<notin> set lru \<union> set us"
  shows "shard0 (c\<lparr>lc_heap := (lc_heap c)(x := None), lc_deleted := ds\<rparr>) lru us cs"
proof -
  note d = shard0_dest [OF s]
  let ?c = "c\<lparr>lc_heap := (lc_heap c)(x := None), lc_deleted := ds\<rparr>"
  have "table ?c cs" using d(4) x by (intro table_cong [OF d(3)]) (auto simp: key_of_def)
  moreover have "(\<Sum>n\<in>set lru \<union> set us. charge_of ?c n) = (\<Sum>n\<in>set lru \<union> set us. charge_of c n)"
    using x by (intro sum.cong) (auto simp: charge_of_def)
  moreover have "node_ok ?c lru us n f" if "lc_heap ?c n = Some f" for n f
    using that d(5) [of n f] by (auto simp: node_ok_def split: if_splits)
  ultimately show ?thesis using d(1,2,4,6) x by (auto simp: shard0_def lru_lists_def)
qed

lemma Unref_works:
  assumes s: "shard0 c lru us cs" and x: "0 < handle_count c x"
  shows "\<exists>c' lru' us'. LRUCache_Unref c (Handle x) = Some c' \<and> shard0 c' lru' us' cs \<and> set lru' \<union> set us' = set lru \<union> set us
    \<and> handle_count c' = (handle_count c)(x := handle_count c x - 1) \<and> shrinks c c'"
proof -
  note d = shard0_dest [OF s]
  obtain e where e: "lc_heap c x = Some e" using x by (auto simp: handle_count_def split: option.splits)
  have n: "node_ok c lru us x e" by (rule d(5) [OF e])
  let ?e = "e\<lparr>lh_refs := lh_refs e - 1\<rparr>"
  have pos: "0 < lh_refs e" using n by (simp add: node_ok_def)
  note u1 = unat_pred [OF pos]
  have count: "handle_count (c\<lparr>lc_next := nx, lc_prev := pv, lc_heap := (lc_heap c)(x \<mapsto> ?e)\<rparr>) = (handle_count c)(x := handle_count c x - 1)" for nx pv
    using e u1 by (auto simp: handle_count_def fun_eq_iff)
  have shr: "shrinks c (c\<lparr>lc_next := nx, lc_prev := pv, lc_heap := (lc_heap c)(x \<mapsto> ?e)\<rparr>)" for nx pv
    using e by (auto simp: shrinks_def)
  have same: "lru_lists (c\<lparr>lc_next := lc_next c, lc_prev := lc_prev c\<rparr>) lru us" using d(1) by (simp add: lru_lists_def)
  have eq: "c\<lparr>lc_next := lc_next c, lc_prev := lc_prev c, lc_heap := hp\<rparr> = c\<lparr>lc_heap := hp\<rparr>" for hp by (cases c) simp
  show ?thesis
  proof (cases "lh_in_cache e")
    case True
    have dist: "distinct (lru @ us)" by (rule lists_distinct [OF d(1)])
    have xl: "x \<in> set us" "x \<notin> set lru" "1 < lh_refs e"
    proof -
      have "x \<notin> set lru" using x e n True by (auto simp: handle_count_def node_ok_def)
      then show "x \<notin> set lru" "x \<in> set us" "1 < lh_refs e" using n True by (auto simp: node_ok_def)
    qed
    have nz: "0 < lh_refs e - 1" using xl(3) u1 by (simp add: word_less_nat_alt)
    then have nz0: "lh_refs e - 1 \<noteq> 0" by auto
    show ?thesis
    proof (cases "lh_refs e - 1 = 1")
      case one: True
      let ?c1 = "c\<lparr>lc_heap := (lc_heap c)(x \<mapsto> ?e)\<rparr>"
      have l1: "lru_lists ?c1 lru us" and d1: "set lru \<union> set us \<subseteq> dom (lc_heap ?c1)" and x1: "x \<in> set lru \<union> set us"
        using d(1,2) xl(1) by (auto simp: lru_lists_def)
      obtain nx pv where u: "LRU_Remove ?c1 (Handle x) = Some (?c1\<lparr>lc_next := nx, lc_prev := pv\<rparr>)"
        "lru_lists (?c1\<lparr>lc_next := nx, lc_prev := pv\<rparr>) (remove1 x lru) (remove1 x us)"
        "\<forall>n. n \<notin> set lru \<union> set us - {x} \<longrightarrow> nx (Handle n) = lc_next ?c1 (Handle n)" using unlink [OF l1 d1 x1] by blast
      let ?c = "?c1\<lparr>lc_next := nx, lc_prev := pv\<rparr>"
      have L: "set (remove1 x lru) \<union> set (remove1 x us) = set lru \<union> set us - {x}" using dist by (auto simp: set_remove1_eq)
      have dd: "set (remove1 x lru) \<union> set (remove1 x us) \<subseteq> dom (lc_heap ?c)" "x \<notin> set (remove1 x lru) \<union> set (remove1 x us)"
        "x \<in> dom (lc_heap ?c)" using d(2) unfolding L by auto
      obtain nx2 pv2 where a: "LRU_Append ?c Lru (Handle x) = Some (?c\<lparr>lc_next := nx2, lc_prev := pv2\<rparr>)"
        "lru_lists (?c\<lparr>lc_next := nx2, lc_prev := pv2\<rparr>) (remove1 x lru @ [x]) (remove1 x us)"
        "\<forall>n. n \<notin> insert x (set (remove1 x lru) \<union> set (remove1 x us)) \<longrightarrow> nx2 (Handle n) = lc_next ?c (Handle n)"
        using link(1) [OF u(2) dd] by blast
      let ?c' = "c\<lparr>lc_next := nx2, lc_prev := pv2, lc_heap := (lc_heap c)(x \<mapsto> ?e)\<rparr>"
      have "shard0 ?c' (remove1 x lru @ [x]) (remove1 x us) cs"
      proof (rule set_refs [OF s e])
        show "lru_lists (c\<lparr>lc_next := nx2, lc_prev := pv2\<rparr>) (remove1 x lru @ [x]) (remove1 x us)" using a(2) by (simp add: lru_lists_def)
        show "\<forall>n. n \<notin> set lru \<union> set us \<longrightarrow> nx2 (Handle n) = lc_next c (Handle n)" using a(3) u(3) x1 unfolding L by auto
        show "\<forall>n. n \<noteq> x \<longrightarrow> (n \<in> set (remove1 x lru @ [x]) \<longleftrightarrow> n \<in> set lru) \<and> (n \<in> set (remove1 x us) \<longleftrightarrow> n \<in> set us)" by auto
        show "x \<in> set (remove1 x lru @ [x]) \<union> set (remove1 x us) \<longleftrightarrow> x \<in> set lru \<union> set us" using x1 by simp
        show "x \<in> set (remove1 x us) \<longrightarrow> 1 < lh_refs e - 1" using dd(2) by blast
      qed (rule nz, rule impI, rule one)
      moreover have "LRUCache_Unref c (Handle x) = Some ?c'"
        using e pos True one u(1) a(1) by (simp add: LRUCache_Unref_def lc_entry_def Let_def)
      moreover have "set (remove1 x lru @ [x]) \<union> set (remove1 x us) = set lru \<union> set us" using L x1 by auto
      ultimately show ?thesis using count shr by blast
    next
      case False
      let ?c' = "c\<lparr>lc_next := lc_next c, lc_prev := lc_prev c, lc_heap := (lc_heap c)(x \<mapsto> ?e)\<rparr>"
      have "unat (lh_refs e - 1) \<noteq> 1" using False by (simp add: word_unat_eq_iff)
      then have "1 < lh_refs e - 1" using nz by (simp add: word_less_nat_alt)
      then have "shard0 ?c' lru us cs" by (intro set_refs [OF s e same]) (use xl(2) nz in auto)
      moreover have "LRUCache_Unref c (Handle x) = Some ?c'"
        using e pos True False nz0 by (simp add: LRUCache_Unref_def lc_entry_def Let_def eq)
      ultimately show ?thesis using count shr by blast
    qed
  next
    case False
    have xl: "x \<notin> set lru \<union> set us" using n False by (auto simp: node_ok_def)
    show ?thesis
    proof (cases "lh_refs e - 1 = 0")
      case True
      let ?c' = "c\<lparr>lc_heap := (lc_heap c)(x := None), lc_deleted := lc_deleted c @ [(lh_key e, lh_value e)]\<rparr>"
      have "LRUCache_Unref c (Handle x) = Some ?c'"
        using e pos True False n by (simp add: LRUCache_Unref_def lc_entry_def Let_def LRUHandle_key_def node_ok_def)
      moreover have "handle_count ?c' = (handle_count c)(x := handle_count c x - 1)"
        using e u1 True False by (auto simp: handle_count_def fun_eq_iff)
      moreover have "shrinks c ?c'" by (auto simp: shrinks_def)
      ultimately show ?thesis using drop_node [OF s xl] by blast
    next
      case r: False
      let ?c' = "c\<lparr>lc_next := lc_next c, lc_prev := lc_prev c, lc_heap := (lc_heap c)(x \<mapsto> ?e)\<rparr>"
      have "0 < lh_refs e - 1" using r by (simp add: word_gt_0)
      then have "shard0 ?c' lru us cs" by (intro set_refs [OF s e same]) (use xl in auto)
      moreover have "LRUCache_Unref c (Handle x) = Some ?c'"
        using e pos False r by (simp add: LRUCache_Unref_def lc_entry_def Let_def eq)
      ultimately show ?thesis using count shr by blast
    qed
  qed
qed

end
