(* ===== verification/LDB_LRU_Ops.thy ===== *)
theory LDB_LRU_Ops
  imports LDB_LRU_Shard
begin

text \<open>
  The operations of a shard of \<^verbatim>\<open>util/cache.cc\<close> keep its invariant: lookup, release, erase,
  eviction, pruning and insertion. None of them fails an assertion, uses a freed entry or
  runs forever.
\<close>

section \<open>Table and lists together\<close>

lemma shard0_entries: "shard0 c lru us cs \<Longrightarrow> \<forall>n\<in>set (concat cs). entry_ok c n"
  using shard0_dest(2,4,5) unfolding entry_ok_def node_ok_def by blast

lemma shard0_table:
  assumes "shard0 c lru us cs" and "table (c\<lparr>lc_next_hash := nh, lc_elems := m, lc_list := ls, lc_length := len\<rparr>) cs'"
    and "set (concat cs') \<subseteq> set lru \<union> set us"
  shows "shard0 (c\<lparr>lc_next_hash := nh, lc_elems := m, lc_list := ls, lc_length := len\<rparr>) lru us cs'"
  using assms by (simp add: shard0_def lru_lists_def node_ok_def charge_of_def)

text \<open>Erasing a key: the entry leaves the table and its list.\<close>

definition erase_entry :: "'v LRUCache \<Rightarrow> byte list \<Rightarrow> u32 \<Rightarrow> (bool \<times> 'v LRUCache) option" where
  "erase_entry c key hash = do { (p, c) \<leftarrow> HandleTable_Remove c key hash; LRUCache_FinishErase c p }"

lemma erase_entry_works:
  assumes s: "shard c lru us cs" and x: "x \<in> set (concat cs)" "key_of c x = key"
  shows "\<exists>c' cs'. erase_entry c key (HashSlice key) = Some (True, c') \<and> shard c' (remove1 x lru) (remove1 x us) cs'
    \<and> handle_count c' = handle_count c \<and> shrinks c c'"
proof -
  have s0: "shard0 c lru us cs" and mem: "set (concat cs) = set lru \<union> set us" using s by (simp_all add: shard_def)
  note d = shard0_dest [OF s0]
  obtain p c1 where r: "HandleTable_Remove c key (HashSlice key) = Some (p, c1)" "\<exists>nh ls m. c1 = c\<lparr>lc_next_hash := nh, lc_list := ls, lc_elems := m\<rparr>"
    and alt: "p = Null \<and> key \<notin> key_of c ` set (concat cs) \<and> c1 = c \<or> (\<exists>n\<in>set (concat cs). p = Handle n \<and> key_of c n = key
         \<and> (\<exists>cs'. table c1 cs' \<and> mset (concat cs) = add_mset n (mset (concat cs'))))"
    using HandleTable_Remove_works [OF d(3) shard0_entries [OF s0], of key] by blast
  from alt x obtain n cs' where n: "n \<in> set (concat cs)" "p = Handle n" "key_of c n = key"
    and cs': "table c1 cs'" "mset (concat cs) = add_mset n (mset (concat cs'))" by blast
  have "inj_on (key_of c) (set (concat cs))" and dc: "distinct (concat cs)" using d(3) by (simp_all add: table_def)
  then have nx: "n = x" using n(1,3) x by (metis inj_onD)
  obtain nh ls m where c1: "c1 = c\<lparr>lc_next_hash := nh, lc_list := ls, lc_elems := m\<rparr>" using r(2) by blast
  have set': "set (concat cs) = insert x (set (concat cs'))" and out: "x \<notin> set (concat cs')"
    using cs'(2) dc nx by (metis list.simps(15) mset.simps(2) mset_eq_setD, metis distinct.simps(2) mset.simps(2) mset_eq_imp_distinct_iff)
  have c1': "c1 = c\<lparr>lc_next_hash := nh, lc_elems := m, lc_list := ls, lc_length := lc_length c\<rparr>" unfolding c1 by (cases c) simp
  have "set (concat cs') \<subseteq> set lru \<union> set us" using set' mem by blast
  then have "shard0 c1 lru us cs'" unfolding c1' by (rule shard0_table [OF s0 cs'(1) [unfolded c1']])
  from FinishErase_works [OF this _ out] x(1) mem obtain c' where f: "LRUCache_FinishErase c1 (Handle x) = Some (True, c')"
    "shard0 c' (remove1 x lru) (remove1 x us) cs'" "handle_count c' = handle_count c1" "shrinks c1 c'" by blast
  have dist: "distinct (lru @ us)" by (rule lists_distinct [OF d(1)])
  have "set (concat cs') = set lru \<union> set us - {x}" using set' out mem by blast
  also have "\<dots> = set (remove1 x lru) \<union> set (remove1 x us)" using dist by (auto simp: set_remove1_eq)
  finally have "shard c' (remove1 x lru) (remove1 x us) cs'" using f(2) by (simp add: shard_def)
  moreover have "erase_entry c key (HashSlice key) = Some (True, c')" using r(1) f(1) n(2) nx by (simp add: erase_entry_def)
  moreover have "handle_count c' = handle_count c" "shrinks c c'" using f(3,4) by (simp_all add: c1 handle_count_def fun_eq_iff shrinks_def)
  ultimately show ?thesis by blast
qed

lemma erase_entry_none:
  assumes s: "shard c lru us cs" and x: "key \<notin> key_of c ` set (concat cs)"
  shows "erase_entry c key (HashSlice key) = Some (False, c)"
proof -
  have s0: "shard0 c lru us cs" using s by (simp add: shard_def)
  obtain p c1 where r: "HandleTable_Remove c key (HashSlice key) = Some (p, c1)"
    and alt: "p = Null \<and> key \<notin> key_of c ` set (concat cs) \<and> c1 = c \<or> (\<exists>n\<in>set (concat cs). p = Handle n \<and> key_of c n = key
         \<and> (\<exists>cs'. table c1 cs' \<and> mset (concat cs) = add_mset n (mset (concat cs'))))"
    using HandleTable_Remove_works [OF shard0_dest(3) [OF s0] shard0_entries [OF s0], of key] by blast
  from alt x have "p = Null" "c1 = c" by blast+
  then show ?thesis using r by (simp add: erase_entry_def LRUCache_FinishErase_def)
qed

lemma LRUCache_Erase_eq: "LRUCache_Erase c key hash = map_option snd (erase_entry c key hash)"
  by (cases "HandleTable_Remove c key hash")
    (auto simp: LRUCache_Erase_def erase_entry_def split: option.splits Option.bind_splits)

section \<open>Eviction\<close>

lemma lru_head:
  assumes "lru_lists c lru us"
  shows "lc_next c Lru = (case lru of [] \<Rightarrow> Lru | x # xs \<Rightarrow> Handle x)"
  using two_lists_next(1) assms unfolding lru_lists_def by (cases lru) fastforce+

lemma evict_oldest_works:
  assumes s: "shard c (x # lru) us cs"
  shows "\<exists>c' cs'. evict_oldest c = Some c' \<and> shard c' lru us cs' \<and> handle_count c' = handle_count c \<and> shrinks c c'"
proof -
  have s0: "shard0 c (x # lru) us cs" and mem: "set (concat cs) = set (x # lru) \<union> set us" using s by (simp_all add: shard_def)
  note d = shard0_dest [OF s0]
  obtain e where e: "lc_heap c x = Some e" using d(2) by auto
  have n: "node_ok c (x # lru) us x e" by (rule d(5) [OF e])
  have h: "lc_next c Lru = Handle x" using lru_head [OF d(1)] by simp
  have k: "LRUHandle_key c (Handle x) = Some (lh_key e)" "lh_hash e = HashSlice (lh_key e)" "lh_refs e = 1" "key_of c x = lh_key e"
    using n e by (simp_all add: node_ok_def LRUHandle_key_def lc_entry_def key_of_def)
  have dist: "distinct ((x # lru) @ us)" by (rule lists_distinct [OF d(1)])
  then have us: "remove1 x us = us" by (auto simp: remove1_idem)
  have xm: "x \<in> set (concat cs)" unfolding mem by simp
  from erase_entry_works [OF s xm k(4)] obtain c' cs' where f: "erase_entry c (lh_key e) (HashSlice (lh_key e)) = Some (True, c')"
    "shard c' (remove1 x (x # lru)) (remove1 x us) cs'" "handle_count c' = handle_count c" "shrinks c c'" by blast
  have "evict_oldest c = do { (b, c) \<leftarrow> erase_entry c (lh_key e) (HashSlice (lh_key e)); if \<not> b then None else Some c }"
    using h e k
    by (cases "HandleTable_Remove c (lh_key e) (HashSlice (lh_key e))") (auto simp: evict_oldest_def lc_entry_def erase_entry_def Let_def)
  then show ?thesis using f us by auto
qed

lemma evict_loop_works:
  assumes "shard c lru us cs"
  shows "\<exists>c' lru' cs'. evict_loop c = Some c' \<and> shard c' lru' us cs' \<and> handle_count c' = handle_count c \<and> shrinks c c'
    \<and> set lru' \<subseteq> set lru \<and> (lru' = [] \<or> unat (lc_usage c') \<le> unat (lc_capacity c'))"
  using assms
proof (induction lru arbitrary: c cs)
  case Nil
  then have "lc_next c Lru = Lru" using lru_head by (fastforce simp: shard_def shard0_def)
  then have "evict_loop c = Some c" by (subst evict_loop.simps) simp
  then show ?case using Nil shrinks_refl by blast
next
  case (Cons x lru)
  show ?case
  proof (cases "lc_usage c > lc_capacity c")
    case True
    have "lc_next c Lru \<noteq> Lru" using Cons.prems lru_head [of c "x # lru" us] by (simp add: shard_def shard0_def)
    moreover obtain c1 cs1 where e: "evict_oldest c = Some c1" "shard c1 lru us cs1" "handle_count c1 = handle_count c" "shrinks c c1"
      using evict_oldest_works [OF Cons.prems] by blast
    ultimately have "evict_loop c = evict_loop c1" using True by (subst evict_loop.simps) simp
    moreover obtain c' lru' cs' where "evict_loop c1 = Some c'" "shard c' lru' us cs'" "handle_count c' = handle_count c1" "shrinks c1 c'"
      "set lru' \<subseteq> set lru" "lru' = [] \<or> unat (lc_usage c') \<le> unat (lc_capacity c')" using Cons.IH [OF e(2)] by blast
    moreover have "set lru \<subseteq> set (x # lru)" by auto
    ultimately show ?thesis using e(3,4) shrinks_trans subset_trans by (smt (verit))
  next
    case False
    then have "evict_loop c = Some c" by (subst evict_loop.simps) simp
    moreover have "unat (lc_usage c) \<le> unat (lc_capacity c)" using False by (simp add: word_le_nat_alt not_less)
    ultimately show ?thesis using Cons.prems shrinks_refl by blast
  qed
qed

lemma LRUCache_Prune_works:
  assumes "shard c lru us cs"
  shows "\<exists>c' cs'. LRUCache_Prune c = Some c' \<and> shard c' [] us cs' \<and> handle_count c' = handle_count c \<and> shrinks c c'"
  using assms
proof (induction lru arbitrary: c cs)
  case Nil
  then have "lc_next c Lru = Lru" using lru_head by (fastforce simp: shard_def shard0_def)
  then have "LRUCache_Prune c = Some c" by (subst LRUCache_Prune.simps) simp
  then show ?case using Nil shrinks_refl by blast
next
  case (Cons x lru)
  have "lc_next c Lru \<noteq> Lru" using Cons.prems lru_head [of c "x # lru" us] by (simp add: shard_def shard0_def)
  moreover obtain c1 cs1 where e: "evict_oldest c = Some c1" "shard c1 lru us cs1" "handle_count c1 = handle_count c" "shrinks c c1"
    using evict_oldest_works [OF Cons.prems] by blast
  ultimately have "LRUCache_Prune c = LRUCache_Prune c1" by (subst LRUCache_Prune.simps) simp
  then show ?case using Cons.IH [OF e(2)] e(3,4) shrinks_trans by metis
qed

section \<open>Lookup\<close>

definition lru_known :: "'v LRUCache \<Rightarrow> (byte list \<times> 'v) set" where
  "lru_known c = {(lh_key e, lh_value e) | n e. lc_heap c n = Some e \<and> lh_in_cache e}"

lemma shard_known:
  assumes "shard c lru us cs"
  shows "lru_known c = {(key_of c n, lh_value (the (lc_heap c n))) | n. n \<in> set (concat cs)}"
proof -
  have s0: "shard0 c lru us cs" and mem: "set (concat cs) = set lru \<union> set us" using assms by (simp_all add: shard_def)
  have m: "(n \<in> set (concat cs)) = (\<exists>e. lc_heap c n = Some e \<and> lh_in_cache e)" for n
    unfolding mem using shard0_dest(2,5) [OF s0] by (auto simp: node_ok_def)
  show ?thesis
  proof (intro set_eqI iffI)
    fix kv assume "kv \<in> lru_known c"
    then obtain n e where "kv = (lh_key e, lh_value e)" "lc_heap c n = Some e" "lh_in_cache e" unfolding lru_known_def by blast
    then have "n \<in> set (concat cs)" "kv = (key_of c n, lh_value (the (lc_heap c n)))" using m by (auto simp: key_of_def simp del: set_concat)
    then show "kv \<in> {(key_of c n, lh_value (the (lc_heap c n))) | n. n \<in> set (concat cs)}" by blast
  next
    fix kv assume "kv \<in> {(key_of c n, lh_value (the (lc_heap c n))) | n. n \<in> set (concat cs)}"
    then obtain n where n: "kv = (key_of c n, lh_value (the (lc_heap c n)))" "n \<in> set (concat cs)" by blast
    then obtain e where e: "lc_heap c n = Some e" "lh_in_cache e" using m by blast
    then have "kv = (lh_key e, lh_value e)" using n(1) by (simp add: key_of_def)
    then show "kv \<in> lru_known c" using e unfolding lru_known_def by blast
  qed
qed

lemma LRUCache_Lookup_works:
  assumes s: "shard c lru us cs" and most: "\<forall>n. handle_count c n < 2 ^ 31"
  shows "(\<nexists>v. (key, v) \<in> lru_known c) \<and> LRUCache_Lookup c key (HashSlice key) = Some (Null, c)
    \<or> (\<exists>x e c' lru' us'. LRUCache_Lookup c key (HashSlice key) = Some (Handle x, c') \<and> shard c' lru' us' cs
        \<and> lc_heap c x = Some e \<and> lh_in_cache e \<and> lh_key e = key \<and> x \<in> set us'
        \<and> handle_count c' = (handle_count c)(x := handle_count c x + 1) \<and> shrinks c c')"
proof -
  have s0: "shard0 c lru us cs" and mem: "set (concat cs) = set lru \<union> set us" using s by (simp_all add: shard_def)
  note d = shard0_dest [OF s0]
  obtain p where p: "HandleTable_Lookup c key (HashSlice key) = Some p"
    and alt: "p = Null \<and> key \<notin> key_of c ` set (concat cs) \<or> (\<exists>n\<in>set (concat cs). p = Handle n \<and> key_of c n = key)"
    using HandleTable_Lookup_works [OF d(3) shard0_entries [OF s0], of key] by blast
  from alt show ?thesis
  proof
    assume a: "p = Null \<and> key \<notin> key_of c ` set (concat cs)"
    then have "\<nexists>v. (key, v) \<in> lru_known c" unfolding shard_known [OF s] by blast
    then show ?thesis using a p by (simp add: LRUCache_Lookup_def)
  next
    assume "\<exists>n\<in>set (concat cs). p = Handle n \<and> key_of c n = key"
    then obtain x where x: "x \<in> set lru \<union> set us" "p = Handle x" "key_of c x = key" unfolding mem by blast
    obtain e where e: "lc_heap c x = Some e" using x(1) d(2) by blast
    have "lh_in_cache e" using d(5) [OF e] x(1) by (auto simp: node_ok_def)
    moreover obtain c' lru' us' where r: "LRUCache_Ref c (Handle x) = Some c'" "shard0 c' lru' us' cs" "set lru' \<union> set us' = set lru \<union> set us"
      "handle_count c' = (handle_count c)(x := handle_count c x + 1)" "shrinks c c'" "x \<in> set us'"
      using Ref_works [OF s0 x(1)] most by blast
    moreover have "shard c' lru' us' cs" using r(2,3) mem by (simp add: shard_def)
    moreover have "LRUCache_Lookup c key (HashSlice key) = Some (Handle x, c')" using p x(2) r(1) by (simp add: LRUCache_Lookup_def)
    moreover have "lh_key e = key" using x(3) e by (simp add: key_of_def)
    ultimately show ?thesis using e by blast
  qed
qed

section \<open>Insertion\<close>

lemma shard0_fresh: "shard0 c lru us cs \<Longrightarrow> lc_heap c (lc_fresh c) = None \<and> lc_fresh c \<notin> set lru \<union> set us"
  using shard0_dest(2,5) unfolding node_ok_def by (metis domD less_irrefl not_None_eq subsetD)

text \<open>A new node, put at the end of the list in use and counted.\<close>

lemma add_node:
  fixes c :: "'v LRUCache"
  assumes s: "shard c lru us cs" and ch: "charge_ok charge" and small: "length (concat cs) \<le> 2 ^ 30"
    and e: "e = \<lparr>lh_value = val, lh_charge = charge, lh_key = key, lh_in_cache = True, lh_refs = 2, lh_hash = HashSlice key\<rparr>"
    and c1: "c1 = c\<lparr>lc_fresh := lc_fresh c + 1, lc_heap := (lc_heap c)(lc_fresh c \<mapsto> e)\<rparr>"
  shows "\<exists>nx pv. LRU_Append c1 InUse (Handle (lc_fresh c)) = Some (c1\<lparr>lc_next := nx, lc_prev := pv\<rparr>)
    \<and> shard0 (c1\<lparr>lc_next := nx, lc_prev := pv, lc_usage := lc_usage c + charge\<rparr>) lru (us @ [lc_fresh c]) cs"
proof -
  let ?n = "lc_fresh c"
  have s0: "shard0 c lru us cs" and mem: "set (concat cs) = set lru \<union> set us" using s by (simp_all add: shard_def)
  note d = shard0_dest [OF s0]
  have n: "lc_heap c ?n = None" "?n \<notin> set lru \<union> set us" using shard0_fresh [OF s0] by simp_all
  have l1: "lru_lists c1 lru us" "set lru \<union> set us \<subseteq> dom (lc_heap c1)" "?n \<in> dom (lc_heap c1)"
    using d(1,2) by (auto simp: c1 lru_lists_def)
  obtain nx pv where a: "LRU_Append c1 InUse (Handle ?n) = Some (c1\<lparr>lc_next := nx, lc_prev := pv\<rparr>)"
    "lru_lists (c1\<lparr>lc_next := nx, lc_prev := pv\<rparr>) lru (us @ [?n])"
    "\<forall>m. m \<notin> insert ?n (set lru \<union> set us) \<longrightarrow> nx (Handle m) = lc_next c1 (Handle m)"
    using link(2) [OF l1(1,2) n(2) l1(3)] by blast
  let ?c = "c1\<lparr>lc_next := nx, lc_prev := pv, lc_usage := lc_usage c + charge\<rparr>"
  have L: "set lru \<union> set (us @ [?n]) = insert ?n (set lru \<union> set us)" by auto
  have l': "lru_lists ?c lru (us @ [?n])" using a(2) by (simp add: lru_lists_def)
  have "table ?c cs" using n(2) mem by (intro table_cong [OF d(3)]) (auto simp: c1 key_of_def)
  moreover have "set lru \<union> set (us @ [?n]) \<subseteq> dom (lc_heap ?c)" using l1(2,3) by simp
  moreover have "set (concat cs) \<subseteq> set lru \<union> set (us @ [?n])" unfolding L mem by blast
  moreover have "node_ok ?c lru (us @ [?n]) m f" if h: "lc_heap ?c m = Some f" for m f
  proof -
    have nn: "lc_next ?c (Handle m) \<noteq> Handle m"
    proof (rule next_ok [OF l'])
      assume "m \<notin> set lru \<union> set (us @ [?n])"
      then have "m \<noteq> ?n" "nx (Handle m) = lc_next c1 (Handle m)" using a(3) by auto
      moreover from this h have "lc_heap c m = Some f" by (simp add: c1)
      ultimately show "lc_next ?c (Handle m) \<noteq> Handle m" using d(5) [of m f] by (simp add: c1 node_ok_def)
    qed
    show ?thesis
    proof (cases "m = ?n")
      case True
      then show ?thesis using h nn ch n(2) by (auto simp: c1 e node_ok_def)
    next
      case False
      then have "lc_heap c m = Some f" using h by (simp add: c1)
      then show ?thesis using d(5) [of m f] nn False by (auto simp: c1 node_ok_def)
    qed
  qed
  moreover have "unat (lc_usage ?c) = (\<Sum>m\<in>set lru \<union> set (us @ [?n]). charge_of ?c m)"
  proof -
    have old: "(\<Sum>m\<in>set lru \<union> set us. charge_of ?c m) = unat (lc_usage c)"
      unfolding d(6) using n(2) by (intro sum.cong) (auto simp: charge_of_def c1)
    have "charge_of c m \<le> 2 ^ 32" if mm: "m \<in> set lru \<union> set us" for m
    proof -
      obtain f where "lc_heap c m = Some f" using mm d(2) by blast
      then show ?thesis using d(5) [of m f] by (simp add: charge_of_def node_ok_def charge_ok_def)
    qed
    then have "unat (lc_usage c) \<le> card (set lru \<union> set us) * 2 ^ 32"
      unfolding d(6) using sum_bounded_above [of "set lru \<union> set us" "charge_of c" "2 ^ 32"] by simp
    moreover have "card (set lru \<union> set us) \<le> 2 ^ 30"
      unfolding mem [symmetric] using small card_length [of "concat cs"] by linarith
    then have "card (set lru \<union> set us) * 2 ^ 32 \<le> 2 ^ 62" by simp
    ultimately have "unat (lc_usage c) \<le> 2 ^ 62" by (rule order_trans)
    then have "unat (lc_usage c) + unat charge < 2 ^ LENGTH(64)" using ch by (simp add: charge_ok_def)
    then have "unat (lc_usage c + charge) = unat (lc_usage c) + unat charge" by (rule unat_add_lem [THEN iffD1])
    then show ?thesis unfolding L using n(2) old by (simp add: charge_of_def c1 e)
  qed
  ultimately have "shard0 ?c lru (us @ [?n]) cs" using l' unfolding shard0_def by blast
  then show ?thesis using a(1) by blast
qed

text \<open>The entry with the key that was in the table leaves the cache.\<close>

lemma insert_entry:
  fixes c :: "'v LRUCache"
  assumes s: "shard0 c lru us cs" and n: "n \<in> set us" "n \<notin> set (concat cs)" and mem: "set lru \<union> set us = insert n (set (concat cs))"
    and small: "length (concat cs) \<le> 2 ^ 30"
  shows "\<exists>old c1 b c' lru' us' cs'. HandleTable_Insert c (Handle n) = Some (old, c1) \<and> LRUCache_FinishErase c1 old = Some (b, c')
    \<and> shard c' lru' us' cs' \<and> handle_count c' = handle_count c \<and> shrinks c c'
    \<and> n \<in> set us' \<and> set (concat cs') \<subseteq> insert n (set (concat cs))"
proof -
  note d = shard0_dest [OF s]
  have en: "entry_ok c n" using d(2,5) n(1) unfolding entry_ok_def node_ok_def by blast
  have small': "length (concat cs) < 2 ^ 31" using small by (rule le_less_trans) simp
  from HandleTable_Insert_works [OF d(3) shard0_entries [OF s] n(2) en small'] obtain old nh ls len m cs' where
    i: "HandleTable_Insert c (Handle n) = Some (old, c\<lparr>lc_next_hash := nh, lc_elems := m, lc_list := ls, lc_length := len\<rparr>)"
    "table (c\<lparr>lc_next_hash := nh, lc_elems := m, lc_list := ls, lc_length := len\<rparr>) cs'" "inserted n old cs cs'" by blast
  let ?c = "c\<lparr>lc_next_hash := nh, lc_elems := m, lc_list := ls, lc_length := len\<rparr>"
  have dc: "distinct (concat cs)" using d(3) by (simp add: table_def)
  have fields: "handle_count ?c = handle_count c" "shrinks c c' = shrinks ?c c'" for c' :: "'v LRUCache"
    by (simp_all add: handle_count_def fun_eq_iff shrinks_def)
  have old_cases: "old = Null \<and> set (concat cs') = insert n (set (concat cs))
      \<or> (\<exists>x. old = Handle x \<and> x \<noteq> n \<and> x \<in> set (concat cs) \<and> x \<notin> set (concat cs') \<and> set (concat cs') = insert n (set (concat cs)) - {x})"
  proof (cases old)
    case Null
    then have "mset (concat cs') = mset (n # concat cs)" using i(3) by (simp add: inserted_def)
    from mset_eq_setD [OF this] show ?thesis using Null by simp
  next
    case (Handle x)
    then have x: "x \<in> set (concat cs)" and ms: "mset (x # concat cs') = mset (n # concat cs)" using i(3) by (simp_all add: inserted_def)
    have "distinct (x # concat cs')" using ms n(2) dc mset_eq_imp_distinct_iff [OF ms] by (simp del: set_concat)
    moreover have "insert x (set (concat cs')) = insert n (set (concat cs))" using mset_eq_setD [OF ms] by (simp del: set_concat)
    ultimately show ?thesis using Handle x n(2) by (auto simp del: set_concat)
  qed (use i(3) in \<open>simp_all add: inserted_def\<close>)
  have sub: "set (concat cs') \<subseteq> set lru \<union> set us" using old_cases unfolding mem by blast
  have s1: "shard0 ?c lru us cs'" by (rule shard0_table [OF s i(2) sub])
  from old_cases show ?thesis
  proof
    assume a: "old = Null \<and> set (concat cs') = insert n (set (concat cs))"
    then have "shard ?c lru us cs'" using s1 mem unfolding shard_def by blast
    moreover have "LRUCache_FinishErase ?c old = Some (False, ?c)" using a by (simp add: LRUCache_FinishErase_def)
    moreover have "shrinks c ?c" unfolding fields by (rule shrinks_refl)
    ultimately show ?thesis using i(1) a n(1) fields(1) by blast
  next
    assume "\<exists>x. old = Handle x \<and> x \<noteq> n \<and> x \<in> set (concat cs) \<and> x \<notin> set (concat cs') \<and> set (concat cs') = insert n (set (concat cs)) - {x}"
    then obtain x where x: "old = Handle x" "x \<noteq> n" "x \<in> set (concat cs)" "x \<notin> set (concat cs')"
      "set (concat cs') = insert n (set (concat cs)) - {x}" by blast
    have "x \<in> set lru \<union> set us" using x(3) unfolding mem by blast
    from FinishErase_works [OF s1 this x(4)] obtain c' where f: "LRUCache_FinishErase ?c (Handle x) = Some (True, c')"
      "shard0 c' (remove1 x lru) (remove1 x us) cs'" "handle_count c' = handle_count ?c" "shrinks ?c c'" by blast
    have "distinct (lru @ us)" by (rule lists_distinct [OF d(1)])
    then have "set (remove1 x lru) \<union> set (remove1 x us) = set lru \<union> set us - {x}" by (auto simp: set_remove1_eq)
    then have "set (concat cs') = set (remove1 x lru) \<union> set (remove1 x us)" using x(5) mem by blast
    then have "shard c' (remove1 x lru) (remove1 x us) cs'" using f(2) by (simp add: shard_def)
    moreover have "n \<in> set (remove1 x us)" using n(1) x(2) by simp
    moreover have "set (concat cs') \<subseteq> insert n (set (concat cs))" using x(5) by blast
    moreover have "shrinks c c'" using f(4) unfolding fields .
    ultimately show ?thesis using i(1) f(1,3) x(1) fields(1) by metis
  qed
qed

text \<open>A cache without capacity hands out entries that are not in it.\<close>

lemma add_loose_node:
  assumes s: "shard c lru us cs" and ch: "charge_ok charge"
    and e: "e = \<lparr>lh_value = val, lh_charge = charge, lh_key = key, lh_in_cache = False, lh_refs = 1, lh_hash = HashSlice key\<rparr>"
  shows "shard (c\<lparr>lc_fresh := lc_fresh c + 1, lc_heap := (lc_heap c)(lc_fresh c \<mapsto> e), lc_next := (lc_next c)(Handle (lc_fresh c) := Null)\<rparr>) lru us cs"
proof -
  let ?n = "lc_fresh c"
  let ?c = "c\<lparr>lc_fresh := lc_fresh c + 1, lc_heap := (lc_heap c)(?n \<mapsto> e), lc_next := (lc_next c)(Handle ?n := Null)\<rparr>"
  have s0: "shard0 c lru us cs" and mem: "set (concat cs) = set lru \<union> set us" using s by (simp_all add: shard_def)
  note d = shard0_dest [OF s0]
  have n: "lc_heap c ?n = None" "?n \<notin> set lru \<union> set us" using shard0_fresh [OF s0] by simp_all
  have l: "lru_lists ?c lru us"
  proof -
    have "adj (lc_next ?c) (lc_prev ?c) (h # map Handle xs @ [h]) = adj (lc_next c) (lc_prev c) (h # map Handle xs @ [h])"
      if "h = Lru \<or> h = InUse" "?n \<notin> set xs" for h xs
      using that by (intro adj_cong) (auto simp: butlast_append split: if_splits)
    then show ?thesis using d(1) n(2) by (simp add: lru_lists_def two_lists_def circ_def)
  qed
  have "table ?c cs" using n(2) mem by (intro table_cong [OF d(3)]) (auto simp: key_of_def)
  moreover have "(\<Sum>m\<in>set lru \<union> set us. charge_of ?c m) = unat (lc_usage c)"
    unfolding d(6) using n(2) by (intro sum.cong) (auto simp: charge_of_def)
  moreover have "node_ok ?c lru us m f" if "lc_heap ?c m = Some f" for m f
  proof (cases "m = ?n")
    case True
    then show ?thesis using that ch n(2) by (auto simp: e node_ok_def)
  next
    case False
    then have "lc_heap c m = Some f" using that by simp
    then show ?thesis using d(5) [of m f] False by (auto simp: node_ok_def)
  qed
  ultimately show ?thesis using l d(2) mem unfolding shard_def shard0_def by auto
qed

lemma LRUCache_Insert_works:
  fixes c :: "'v LRUCache"
  assumes s: "shard c lru us cs" and ch: "charge_ok charge" and small: "length (concat cs) \<le> 2 ^ 30"
  shows "\<exists>e c' lru' us' cs'. LRUCache_Insert c key (HashSlice key) val charge = Some (Handle (lc_fresh c), c') \<and> shard c' lru' us' cs'
    \<and> handle_count c' = (handle_count c)(lc_fresh c := 1) \<and> shrinks (c\<lparr>lc_heap := (lc_heap c)(lc_fresh c \<mapsto> e)\<rparr>) c'
    \<and> lh_key e = key \<and> lh_value e = val \<and> lc_heap c (lc_fresh c) = None
    \<and> (lru' = [] \<or> unat (lc_usage c') \<le> unat (lc_capacity c'))
    \<and> set (concat cs') \<subseteq> insert (lc_fresh c) (set (concat cs)) \<and> (0 < lc_capacity c \<longrightarrow> lc_fresh c \<in> set us')
    \<and> (lc_capacity c = 0 \<longrightarrow> lc_fresh c \<notin> set (concat cs'))"
proof -
  let ?n = "lc_fresh c"
  have s0: "shard0 c lru us cs" and mem: "set (concat cs) = set lru \<union> set us" using s by (simp_all add: shard_def)
  have n: "lc_heap c ?n = None" "?n \<notin> set lru \<union> set us" using shard0_fresh [OF s0] by simp_all
  let ?e = "\<lambda>b r. \<lparr>lh_value = val, lh_charge = charge, lh_key = key, lh_in_cache = b, lh_refs = r, lh_hash = HashSlice key\<rparr>"
  have count: "handle_count (d :: 'v LRUCache) = (handle_count c)(?n := 1)"
    if "lc_heap d = (lc_heap c)(?n \<mapsto> ?e b (if b then 2 else 1))" for d b
    using that by (auto simp: handle_count_def fun_eq_iff)
  have shr: "shrinks (c\<lparr>lc_heap := hp\<rparr>) d = shrinks d' d" if "lc_heap d' = hp" "lc_capacity d' = lc_capacity c" for hp and d d' :: "'v LRUCache"
    using that by (simp add: shrinks_def)
  show ?thesis
  proof (cases "0 < lc_capacity c")
    case True
    define c1 where "c1 = c\<lparr>lc_fresh := ?n + 1, lc_heap := (lc_heap c)(?n \<mapsto> ?e True 2)\<rparr>"
    obtain nx pv where a: "LRU_Append c1 InUse (Handle ?n) = Some (c1\<lparr>lc_next := nx, lc_prev := pv\<rparr>)"
      "shard0 (c1\<lparr>lc_next := nx, lc_prev := pv, lc_usage := lc_usage c + charge\<rparr>) lru (us @ [?n]) cs"
      using add_node [OF s ch small refl c1_def] by blast
    let ?c2 = "c1\<lparr>lc_next := nx, lc_prev := pv, lc_usage := lc_usage c + charge\<rparr>"
    have i: "?n \<in> set (us @ [?n])" "?n \<notin> set (concat cs)" "set lru \<union> set (us @ [?n]) = insert ?n (set (concat cs))"
      using n(2) unfolding mem by auto
    obtain old c3 b c4 lru4 us4 cs4 where t: "HandleTable_Insert ?c2 (Handle ?n) = Some (old, c3)" "LRUCache_FinishErase c3 old = Some (b, c4)"
      "shard c4 lru4 us4 cs4" "handle_count c4 = handle_count ?c2" "shrinks ?c2 c4" "?n \<in> set us4"
      "set (concat cs4) \<subseteq> insert ?n (set (concat cs))"
      using insert_entry [OF a(2) i small] by blast
    obtain c' lru' cs' where v: "evict_loop c4 = Some c'" "shard c' lru' us4 cs'" "handle_count c' = handle_count c4" "shrinks c4 c'"
      "set lru' \<subseteq> set lru4" "lru' = [] \<or> unat (lc_usage c') \<le> unat (lc_capacity c')"
      using evict_loop_works [OF t(3)] by blast
    have two: "(1 :: u32) + 1 = 2" by simp
    have ins: "LRUCache_Insert c key (HashSlice key) val charge = Some (Handle ?n, c')"
      using True a(1) t(1,2) v(1) by (simp add: LRUCache_Insert_def Let_def c1_def two del: one_add_one)
    have "handle_count ?c2 = (handle_count c)(?n := 1)" by (rule count [of _ True]) (simp add: c1_def)
    then have hc: "handle_count c' = (handle_count c)(?n := 1)" using v(3) t(4) by simp
    have sh: "shrinks (c\<lparr>lc_heap := (lc_heap c)(?n \<mapsto> ?e True 2)\<rparr>) c'"
      using shrinks_trans [OF t(5) v(4)] by (subst shr [of ?c2]) (simp_all add: c1_def)
    have sub: "set (concat cs') \<subseteq> set (concat cs4)" using v(2,5) t(3) unfolding shard_def by blast
    have key: "lh_key (?e True 2) = key" "lh_value (?e True 2) = val" by simp_all
    have "lc_capacity c \<noteq> 0" using True by auto
    then show ?thesis using ins v(2,6) hc sh key n(1) t(6,7) subset_trans [OF sub] by metis
  next
    case False
    then have z: "lc_capacity c = 0" by (simp add: word_gt_0)
    let ?c1 = "c\<lparr>lc_fresh := ?n + 1, lc_heap := (lc_heap c)(?n \<mapsto> ?e False 1), lc_next := (lc_next c)(Handle ?n := Null)\<rparr>"
    have s1: "shard ?c1 lru us cs" by (rule add_loose_node [OF s ch refl])
    obtain c' lru' cs' where v: "evict_loop ?c1 = Some c'" "shard c' lru' us cs'" "handle_count c' = handle_count ?c1" "shrinks ?c1 c'"
      "set lru' \<subseteq> set lru" "lru' = [] \<or> unat (lc_usage c') \<le> unat (lc_capacity c')"
      using evict_loop_works [OF s1] by blast
    have ins: "LRUCache_Insert c key (HashSlice key) val charge = Some (Handle ?n, c')"
      using z v(1) by (simp add: LRUCache_Insert_def Let_def)
    have "handle_count ?c1 = (handle_count c)(?n := 1)" by (rule count [of _ False]) simp
    then have hc: "handle_count c' = (handle_count c)(?n := 1)" using v(3) by simp
    have sh: "shrinks (c\<lparr>lc_heap := (lc_heap c)(?n \<mapsto> ?e False 1)\<rparr>) c'" using v(4) by (subst shr [of ?c1]) simp_all
    have sub: "set (concat cs') \<subseteq> set (concat cs)" using v(2,5) mem unfolding shard_def by blast
    have out: "?n \<notin> set (concat cs')" using sub n(2) mem by blast
    have key: "lh_key (?e False 1) = key" "lh_value (?e False 1) = val" by simp_all
    show ?thesis using ins v(2,6) hc sh key n(1) out z sub by (metis False subset_insertI2)
  qed
qed

end
