(* ===== verification/LDB_LRU_Props.thy ===== *)
theory LDB_LRU_Props
  imports LDB_LRU_Ops
begin

text \<open>
  The sharded LRU cache of \<^verbatim>\<open>util/cache.cc\<close> keeps the contract of \<^verbatim>\<open>LDB_Cache\<close>, and the
  properties of it: what reachable caches are like, what a lookup finds after an insertion,
  what eviction achieves, and that nothing leaks.
\<close>

section \<open>Handles in the hands of clients\<close>

definition shard_held :: "'v LRUCache \<Rightarrow> nat list" where
  "shard_held c = concat (map (\<lambda>n. replicate (handle_count c n) n) [0..<lc_fresh c])"

definition sc_held :: "'v ShardedLRUCache \<Rightarrow> handle multiset" where
  "sc_held c = mset (concat (map (\<lambda>s. map (Pair s) (shard_held (sc_shard c ! s))) [0..<length (sc_shard c)]))"

definition sc_entry_of :: "'v ShardedLRUCache \<Rightarrow> handle \<Rightarrow> byte list \<times> 'v" where
  "sc_entry_of c h = (lh_key (the (sc_entry c h)), lh_value (the (sc_entry c h)))"

definition sc_known :: "'v ShardedLRUCache \<Rightarrow> (byte list \<times> 'v) set" where
  "sc_known c = (\<Union>s<length (sc_shard c). lru_known (sc_shard c ! s))"

definition shard_ok :: "nat \<Rightarrow> 'v LRUCache \<Rightarrow> bool" where
  "shard_ok s c \<longleftrightarrow> (\<exists>lru us cs. shard c lru us cs \<and> length (concat cs) \<le> 2 ^ 30) \<and> unat (lc_capacity c) \<le> 2 ^ 30
     \<and> (\<forall>n e. lc_heap c n = Some e \<longrightarrow> Shard (HashSlice (lh_key e)) = s)"

definition sc_works :: "'v ShardedLRUCache \<Rightarrow> bool" where
  "sc_works c \<longleftrightarrow> length (sc_shard c) = kNumShards \<and> (\<forall>s<kNumShards. shard_ok s (sc_shard c ! s))"

lemma Shard_less: "Shard h < kNumShards"
proof -
  have "unat (drop_bit 28 h) = unat h div 2 ^ 28" by (simp only: unat_drop_bit_eq drop_bit_eq_div [where 'a = nat])
  moreover have "unat h < 2 ^ 28 * 16" using unsigned_less [of h] by simp
  ultimately have "unat (drop_bit 28 h) < 16" by (simp add: less_mult_imp_div_less mult.commute)
  then show ?thesis by (simp add: Shard_def kNumShards_def kNumShardBits_def)
qed

lemma count_replicates:
  "count (mset (concat (map (\<lambda>n. replicate (f n) n) [0..<k]))) m = (if m < k then f m else 0)"
  by (induction k) auto

lemma count_shard_held: "shard c lru us cs \<Longrightarrow> count (mset (shard_held c)) n = handle_count c n"
  using shard0_dest(5) [of c lru us cs n]
  by (auto simp: shard_held_def count_replicates handle_count_def shard_def node_ok_def simp del: mset_concat split: option.splits)

lemma count_Pairs: "count (mset (map (Pair k) xs)) (s, n) = (if s = k then count (mset xs) n else 0)"
  by (induction xs) auto

lemma count_pairs: "count (mset (concat (map (\<lambda>s. map (Pair s) (f s)) [0..<k]))) (s, n) = (if s < k then count (mset (f s)) n else 0)"
proof (induction k)
  case (Suc k)
  then show ?case by (simp add: count_Pairs del: mset_concat mset_map)
qed simp

lemma shard_okE:
  assumes "shard_ok s c"
  obtains lru us cs where "shard c lru us cs" and "length (concat cs) \<le> 2 ^ 30"
  using assms unfolding shard_ok_def by blast

lemma count_sc_held:
  assumes "sc_works c"
  shows "count (sc_held c) (s, n) = (if s < kNumShards then handle_count (sc_shard c ! s) n else 0)"
proof (cases "s < kNumShards")
  case True
  then obtain lru us cs where "shard (sc_shard c ! s) lru us cs" using assms unfolding sc_works_def by (metis shard_okE)
  from count_shard_held [OF this] show ?thesis using assms True by (simp add: sc_held_def count_pairs sc_works_def del: mset_concat)
next
  case False
  then show ?thesis using assms by (simp add: sc_held_def count_pairs sc_works_def del: mset_concat)
qed

text \<open>Bounds from the number of handles.\<close>

lemma handle_count_le: "sc_works c \<Longrightarrow> s < kNumShards \<Longrightarrow> handle_count (sc_shard c ! s) n \<le> size (sc_held c)"
  using count_sc_held [of c s n] by (metis count_le_size)

lemma in_use_le:
  assumes w: "sc_works c" and s: "s < kNumShards" and d: "distinct us" and h: "\<forall>n\<in>set us. 0 < handle_count (sc_shard c ! s) n"
  shows "length us \<le> size (sc_held c)"
proof -
  have "Pair s ` set us \<subseteq> set_mset (sc_held c)"
    using h s count_sc_held [OF w] by (auto simp: count_greater_zero_iff [symmetric] simp del: count_greater_zero_iff)
  then have "card (Pair s ` set us) \<le> card (set_mset (sc_held c))" by (intro card_mono) auto
  moreover have "card (Pair s ` set us) = length us" using d by (simp add: card_image inj_on_def distinct_card)
  moreover have "card (set_mset M) \<le> size M" for M :: "handle multiset"
    by (induction M) (auto simp: card_insert_if)
  ultimately show ?thesis by (metis le_trans)
qed

section \<open>One shard changes\<close>

definition with_shard :: "'v ShardedLRUCache \<Rightarrow> nat \<Rightarrow> 'v LRUCache \<Rightarrow> 'v ShardedLRUCache" where
  "with_shard c s sh = c\<lparr>sc_shard := (sc_shard c)[s := sh]\<rparr>"

lemma on_shard_eq: "s < length (sc_shard c) \<Longrightarrow> on_shard s f c = map_option (\<lambda>(r, sh). (r, with_shard c s sh)) (f (sc_shard c ! s))"
  by (cases "f (sc_shard c ! s)") (auto simp: on_shard_def with_shard_def)

lemma with_shard_works:
  assumes "sc_works c" and "shard_ok s sh" and "s < kNumShards"
  shows "sc_works (with_shard c s sh)"
  using assms by (simp add: sc_works_def with_shard_def nth_list_update)

lemma with_shard_held:
  assumes w: "sc_works c" and w': "sc_works (with_shard c s sh)" and s: "s < kNumShards"
    and h: "handle_count sh = (handle_count (sc_shard c ! s))(n := m)"
  shows "count (sc_held (with_shard c s sh)) = (count (sc_held c))((s, n) := m)"
proof
  fix q :: handle
  obtain t k where q: "q = (t, k)" by (cases q)
  show "count (sc_held (with_shard c s sh)) q = ((count (sc_held c))((s, n) := m)) q"
    unfolding q count_sc_held [OF w'] using w s h count_sc_held [OF w]
    by (auto simp: with_shard_def nth_list_update sc_works_def)
qed

lemma shard_ok_shrinks:
  assumes "shard_ok s c" and "shrinks c c'" and "shard c' lru us cs" and "length (concat cs) \<le> 2 ^ 30"
  shows "shard_ok s c'"
  using assms unfolding shard_ok_def shrinks_def by metis

lemma held_entry:
  assumes "sc_works c" and "(s, n) \<in># sc_held c"
  obtains e where "s < kNumShards" and "lc_heap (sc_shard c ! s) n = Some e" and "0 < handle_count (sc_shard c ! s) n"
proof -
  have "0 < count (sc_held c) (s, n)" using assms(2) by simp
  then have "s < kNumShards" "0 < handle_count (sc_shard c ! s) n" using count_sc_held [OF assms(1), of s n] by (auto split: if_splits)
  then show ?thesis using that by (auto simp: handle_count_def split: option.splits)
qed

lemma with_shard_cached:
  assumes w: "sc_works c" and w': "sc_works (with_shard c s sh)" and s: "s < kNumShards"
    and sh: "\<And>n e'. lc_heap sh n = Some e' \<Longrightarrow> 0 < handle_count (sc_shard c ! s) n \<Longrightarrow>
      \<exists>e. lc_heap (sc_shard c ! s) n = Some e \<and> lh_key e' = lh_key e \<and> lh_value e' = lh_value e"
  shows "cached sc_held sc_entry_of c (with_shard c s sh)"
  unfolding cached_def
proof (intro ballI impI)
  fix h :: handle assume h: "h \<in># sc_held c" and h': "h \<in># sc_held (with_shard c s sh)"
  obtain t n where q: "h = (t, n)" by (cases h)
  obtain e where e: "t < kNumShards" "lc_heap (sc_shard c ! t) n = Some e" "0 < handle_count (sc_shard c ! t) n"
    using held_entry [OF w] h unfolding q by blast
  obtain e' where e': "lc_heap (sc_shard (with_shard c s sh) ! t) n = Some e'"
    using held_entry [OF w'] h' unfolding q by blast
  have len: "length (sc_shard c) = kNumShards" using w by (simp add: sc_works_def)
  show "sc_entry_of (with_shard c s sh) h = sc_entry_of c h"
  proof (cases "t = s")
    case True
    then have "lc_heap sh n = Some e'" using e' s len by (simp add: with_shard_def)
    from sh [OF this] e True have "lh_key e' = lh_key e" "lh_value e' = lh_value e" by auto
    then show ?thesis using e e' len by (simp add: sc_entry_of_def sc_entry_def q lc_entry_def with_shard_def)
  next
    case False
    then show ?thesis using len by (simp add: sc_entry_of_def sc_entry_def q with_shard_def)
  qed
qed

lemma with_shard_known:
  assumes "length (sc_shard c) = kNumShards" and "s < kNumShards" and "lru_known sh \<subseteq> A \<union> lru_known (sc_shard c ! s)"
  shows "sc_known (with_shard c s sh) \<subseteq> A \<union> sc_known c"
proof
  fix kv assume "kv \<in> sc_known (with_shard c s sh)"
  then obtain t where t: "t < kNumShards" "kv \<in> lru_known (sc_shard (with_shard c s sh) ! t)"
    using assms(1) by (auto simp: sc_known_def with_shard_def)
  then have "kv \<in> A \<union> lru_known (sc_shard c ! t)"
    using assms by (cases "t = s") (auto simp: with_shard_def)
  then show "kv \<in> A \<union> sc_known c" using t(1) assms(1) by (auto simp: sc_known_def)
qed

lemma shrinks_known:
  assumes "shard c' lru' us' cs'" and "shrinks c c'" and "shard c lru us cs" and "set (concat cs') \<subseteq> set (concat cs)"
  shows "lru_known c' \<subseteq> lru_known c"
proof
  fix kv assume "kv \<in> lru_known c'"
  then obtain n where n: "n \<in> set (concat cs')" "kv = (key_of c' n, lh_value (the (lc_heap c' n)))"
    unfolding shard_known [OF assms(1)] by blast
  then obtain e' where e': "lc_heap c' n = Some e'" using assms(1) shard0_dest(2) unfolding shard_def by blast
  then obtain e where "lc_heap c n = Some e" "lh_key e' = lh_key e" "lh_value e' = lh_value e" using assms(2) unfolding shrinks_def by blast
  then have "kv = (key_of c n, lh_value (the (lc_heap c n)))" using n(2) e' by (simp add: key_of_def)
  then show "kv \<in> lru_known c" using n(1) assms(4) unfolding shard_known [OF assms(3)] by blast
qed


text \<open>How many entries a shard has.\<close>

lemma in_use_count:
  assumes "shard0 c lru us cs"
  shows "\<forall>m\<in>set us. 0 < handle_count c m"
proof
  fix m assume m: "m \<in> set us"
  then obtain f where f: "lc_heap c m = Some f" using shard0_dest(2) [OF assms] by blast
  then show "0 < handle_count c m"
    using shard0_dest(5) [OF assms f] m by (auto simp: handle_count_def node_ok_def word_less_nat_alt)
qed

lemma shard_bound:
  assumes s: "shard c lru us cs" and l: "lru = [] \<or> unat (lc_usage c) \<le> unat (lc_capacity c)"
    and b: "unat (lc_capacity c) \<le> B" "length us \<le> B"
  shows "length (concat cs) \<le> B"
proof -
  have s0: "shard0 c lru us cs" and mem: "set (concat cs) = set lru \<union> set us" using s by (simp_all add: shard_def)
  note d = shard0_dest [OF s0]
  have "distinct (concat cs)" using d(3) by (simp add: table_def)
  then have len: "length (concat cs) = card (set lru \<union> set us)" unfolding mem [symmetric] by (rule distinct_card [symmetric])
  from l show ?thesis
  proof
    assume "lru = []"
    then have "card (set lru \<union> set us) \<le> length us" using card_length [of us] by simp
    then show ?thesis using len b(2) by linarith
  next
    assume u: "unat (lc_usage c) \<le> unat (lc_capacity c)"
    have "1 \<le> charge_of c m" if m: "m \<in> set lru \<union> set us" for m
    proof -
      obtain f where f: "lc_heap c m = Some f" using m d(2) by blast
      show ?thesis using d(5) [OF f] f by (simp add: charge_of_def node_ok_def charge_ok_def)
    qed
    then have "(\<Sum>m\<in>set lru \<union> set us. 1) \<le> (\<Sum>m\<in>set lru \<union> set us. charge_of c m)" by (rule sum_mono)
    then show ?thesis using len u d(6) b(1) by simp
  qed
qed

section \<open>The operations\<close>

lemma ShardedLRUCache_Insert_works:
  assumes w: "sc_works c" and most: "size (sc_held c) < 2 ^ 30" and ch: "charge_ok n"
  shows "\<exists>h c'. ShardedLRUCache_Insert c k v n = Some (h, c') \<and> sc_works c' \<and> sc_held c' = add_mset h (sc_held c)
    \<and> sc_entry_of c' h = (k, v) \<and> sc_known c' \<subseteq> insert (k, v) (sc_known c) \<and> cached sc_held sc_entry_of c c'
    \<and> (0 < lc_capacity (sc_shard c ! Shard (HashSlice k)) \<longrightarrow> lh_in_cache (the (sc_entry c' h)))
    \<and> (lc_next (sc_shard c' ! fst h) Lru = Lru \<or> unat (lc_usage (sc_shard c' ! fst h)) \<le> unat (lc_capacity (sc_shard c' ! fst h)))"
proof -
  let ?s = "Shard (HashSlice k)"
  let ?c = "sc_shard c ! ?s"
  have s: "?s < kNumShards" by (rule Shard_less)
  have len: "length (sc_shard c) = kNumShards" and ok: "shard_ok ?s ?c" using w s by (simp_all add: sc_works_def)
  obtain lru us cs where sh: "shard ?c lru us cs" "length (concat cs) \<le> 2 ^ 30" using ok by (rule shard_okE)
  let ?n = "lc_fresh ?c"
  obtain e sh' lru' us' cs' where i: "LRUCache_Insert ?c k (HashSlice k) v n = Some (Handle ?n, sh')" "shard sh' lru' us' cs'"
    "handle_count sh' = (handle_count ?c)(?n := 1)" "shrinks (?c\<lparr>lc_heap := (lc_heap ?c)(?n \<mapsto> e)\<rparr>) sh'"
    "lh_key e = k" "lh_value e = v" "lc_heap ?c ?n = None" "lru' = [] \<or> unat (lc_usage sh') \<le> unat (lc_capacity sh')"
    "set (concat cs') \<subseteq> insert ?n (set (concat cs))" "0 < lc_capacity ?c \<longrightarrow> ?n \<in> set us'" "lc_capacity ?c = 0 \<longrightarrow> ?n \<notin> set (concat cs')"
    using LRUCache_Insert_works [OF sh(1) ch sh(2)] by blast
  let ?c' = "with_shard c ?s sh'" and ?h = "(?s, ?n)"
  have s0': "shard0 sh' lru' us' cs'" and mem': "set (concat cs') = set lru' \<union> set us'" using i(2) by (simp_all add: shard_def)
  note d' = shard0_dest [OF s0']
  have zero: "handle_count ?c ?n = 0" using i(7) by (simp add: handle_count_def)
  have ins: "ShardedLRUCache_Insert c k v n = Some (?h, ?c')"
    using i(1) s len by (simp add: ShardedLRUCache_Insert_def on_shard_eq as_handle_def Let_def)
  have cap: "lc_capacity sh' = lc_capacity ?c" using i(4) by (simp add: shrinks_def)
  have old: "\<exists>f. lc_heap ?c m = Some f \<and> lh_key f' = lh_key f \<and> lh_value f' = lh_value f" if "lc_heap sh' m = Some f'" "m \<noteq> ?n" for m f'
    using i(4) that unfolding shrinks_def by fastforce
  have new: "lh_key f' = k \<and> lh_value f' = v" if "lc_heap sh' ?n = Some f'" for f'
    using i(4,5,6) that unfolding shrinks_def by fastforce
  have small': "length (concat cs') \<le> 2 ^ 30"
  proof (rule shard_bound [OF i(2,8)])
    show "unat (lc_capacity sh') \<le> 2 ^ 30" using ok by (simp add: cap shard_ok_def)
    have "\<forall>m\<in>set (removeAll ?n us'). 0 < handle_count ?c m" using in_use_count [OF s0'] by (auto simp: i(3) split: if_splits)
    then have "length (removeAll ?n us') \<le> size (sc_held c)"
      by (intro in_use_le [OF w s]) (use lists_distinct [OF d'(1)] in \<open>simp_all add: distinct_removeAll\<close>)
    moreover have "length us' \<le> Suc (length (removeAll ?n us'))"
      using lists_distinct [OF d'(1)] distinct_remove1_removeAll [of us' ?n] length_remove1 [of ?n us'] by (simp split: if_splits)
    ultimately show "length us' \<le> 2 ^ 30" using most by linarith
  qed
  have ok': "shard_ok ?s sh'"
    unfolding shard_ok_def
  proof (intro conjI allI impI)
    show "\<exists>lru us cs. shard sh' lru us cs \<and> length (concat cs) \<le> 2 ^ 30" using i(2) small' by blast
    show "unat (lc_capacity sh') \<le> 2 ^ 30" using ok by (simp add: cap shard_ok_def)
    fix m f' assume f': "lc_heap sh' m = Some f'"
    show "Shard (HashSlice (lh_key f')) = ?s"
    proof (cases "m = ?n")
      case True
      then show ?thesis using new f' by simp
    next
      case False
      then obtain f where "lc_heap ?c m = Some f" "lh_key f' = lh_key f" using old [OF f'] by blast
      then show ?thesis using ok unfolding shard_ok_def by metis
    qed
  qed
  note w' = with_shard_works [OF w ok' s]
  have at: "sc_shard ?c' ! ?s = sh'" using s len by (simp add: with_shard_def)
  obtain f where f: "lc_heap sh' ?n = Some f" using i(3) by (force simp: handle_count_def fun_eq_iff split: option.splits dest: spec [of _ ?n])
  have entry: "sc_entry ?c' ?h = Some f" using f s len at by (simp add: sc_entry_def lc_entry_def with_shard_def)
  have held: "sc_held ?c' = add_mset ?h (sc_held c)"
  proof (rule multiset_eqI)
    show "count (sc_held ?c') q = count (add_mset ?h (sc_held c)) q" for q
      unfolding with_shard_held [OF w w' s i(3)] using count_sc_held [OF w, of ?s ?n] zero by auto
  qed
  have "lru_known sh' \<subseteq> {(k, v)} \<union> lru_known ?c"
  proof
    fix kv assume "kv \<in> lru_known sh'"
    then obtain m where m: "m \<in> set (concat cs')" "kv = (key_of sh' m, lh_value (the (lc_heap sh' m)))"
      unfolding shard_known [OF i(2)] by blast
    then obtain f' where f': "lc_heap sh' m = Some f'" using d'(2) mem' by blast
    show "kv \<in> {(k, v)} \<union> lru_known ?c"
    proof (cases "m = ?n")
      case True
      then show ?thesis using m f' new by (auto simp: key_of_def)
    next
      case False
      then obtain f where f: "lc_heap ?c m = Some f" "lh_key f' = lh_key f" "lh_value f' = lh_value f" using old [OF f'] by blast
      then have "kv = (key_of ?c m, lh_value (the (lc_heap ?c m)))" using m f' by (simp add: key_of_def)
      moreover have "m \<in> set (concat cs)" using m(1) i(9) False by blast
      ultimately show ?thesis unfolding shard_known [OF sh(1)] by blast
    qed
  qed
  from with_shard_known [OF len s this] have known: "sc_known ?c' \<subseteq> insert (k, v) (sc_known c)" by auto
  have cached: "cached sc_held sc_entry_of c ?c'"
  proof (rule with_shard_cached [OF w w' s])
    fix m f' assume "lc_heap sh' m = Some f'" "0 < handle_count ?c m"
    then show "\<exists>f. lc_heap ?c m = Some f \<and> lh_key f' = lh_key f \<and> lh_value f' = lh_value f" using old zero by (metis less_irrefl)
  qed
  have "lh_in_cache f" if "0 < lc_capacity ?c" using i(10) that d'(5) [OF f] by (simp add: node_ok_def)
  moreover have "lc_next sh' Lru = Lru \<or> unat (lc_usage sh') \<le> unat (lc_capacity sh')" using i(8) lru_head [OF d'(1)] by auto
  ultimately show ?thesis
    using ins w' held entry new [OF f] known cached at by (intro exI [of _ ?h] exI [of _ ?c']) (simp add: sc_entry_of_def)
qed

text \<open>An operation that keeps the entries of one shard.\<close>

lemma with_shard_shrinks:
  assumes w: "sc_works c" and s: "s < kNumShards" and sh: "shard (sc_shard c ! s) lru us cs" "length (concat cs) \<le> 2 ^ 30"
    and sh': "shard sh' lru' us' cs'" "set (concat cs') \<subseteq> set (concat cs)" "shrinks (sc_shard c ! s) sh'"
  shows "sc_works (with_shard c s sh')" and "sc_known (with_shard c s sh') \<subseteq> sc_known c"
    and "cached sc_held sc_entry_of c (with_shard c s sh')"
proof -
  have len: "length (sc_shard c) = kNumShards" and ok: "shard_ok s (sc_shard c ! s)" using w s by (simp_all add: sc_works_def)
  have "distinct (concat cs)" "distinct (concat cs')" using sh(1) sh'(1) by (simp_all add: shard_def shard0_def table_def)
  then have "length (concat cs') \<le> length (concat cs)"
    using card_mono [OF _ sh'(2)] distinct_card [of "concat cs"] distinct_card [of "concat cs'"] by (simp del: set_concat)
  then have "length (concat cs') \<le> 2 ^ 30" using sh(2) by linarith
  then have ok': "shard_ok s sh'" by (rule shard_ok_shrinks [OF ok sh'(3,1)])
  show w': "sc_works (with_shard c s sh')" by (rule with_shard_works [OF w ok' s])
  show "cached sc_held sc_entry_of c (with_shard c s sh')"
    by (rule with_shard_cached [OF w w' s]) (use sh'(3) in \<open>auto simp: shrinks_def\<close>)
  show "sc_known (with_shard c s sh') \<subseteq> sc_known c"
    using with_shard_known [OF len s, of sh' "{}"] shrinks_known [OF sh'(1,3) sh(1) sh'(2)] by simp
qed

lemma ShardedLRUCache_Lookup_works:
  assumes w: "sc_works c" and most: "size (sc_held c) < 2 ^ 30"
  shows "\<exists>r c'. ShardedLRUCache_Lookup c k = Some (r, c') \<and> sc_works c' \<and> sc_known c' \<subseteq> sc_known c \<and> cached sc_held sc_entry_of c c'
    \<and> (case r of None \<Rightarrow> c' = c \<and> (\<nexists>v. (k, v) \<in> lru_known (sc_shard c ! Shard (HashSlice k)))
       | Some h \<Rightarrow> sc_held c' = add_mset h (sc_held c)
           \<and> (\<exists>e. sc_entry c h = Some e \<and> lh_in_cache e \<and> lh_key e = k \<and> sc_entry_of c' h = (k, lh_value e)))"
proof -
  let ?s = "Shard (HashSlice k)"
  let ?c = "sc_shard c ! ?s"
  have s: "?s < kNumShards" by (rule Shard_less)
  have len: "length (sc_shard c) = kNumShards" and ok: "shard_ok ?s ?c" using w s by (simp_all add: sc_works_def)
  obtain lru us cs where sh: "shard ?c lru us cs" "length (concat cs) \<le> 2 ^ 30" using ok by (rule shard_okE)
  have "handle_count ?c n < 2 ^ 31" for n
  proof -
    have "handle_count ?c n < 2 ^ 30" using handle_count_le [OF w s] most by (rule le_less_trans)
    then show ?thesis by simp
  qed
  then have "\<forall>n. handle_count ?c n < 2 ^ 31" by blast
  from LRUCache_Lookup_works [OF sh(1) this, of k] show ?thesis
  proof
    assume a: "(\<nexists>v. (k, v) \<in> lru_known ?c) \<and> LRUCache_Lookup ?c k (HashSlice k) = Some (Null, ?c)"
    have "with_shard c ?s ?c = c" by (cases c) (simp add: with_shard_def)
    then have "ShardedLRUCache_Lookup c k = Some (None, c)"
      using a s len by (simp add: ShardedLRUCache_Lookup_def on_shard_eq as_handle_def Let_def)
    moreover have "cached sc_held sc_entry_of c c" by (simp add: cached_def)
    ultimately show ?thesis using w a by (intro exI [of _ None] exI [of _ c]) simp
  next
    assume "\<exists>x e c' lru' us'. LRUCache_Lookup ?c k (HashSlice k) = Some (Handle x, c') \<and> shard c' lru' us' cs
        \<and> lc_heap ?c x = Some e \<and> lh_in_cache e \<and> lh_key e = k \<and> x \<in> set us'
        \<and> handle_count c' = (handle_count ?c)(x := handle_count ?c x + 1) \<and> shrinks ?c c'"
    then obtain x e sh' lru' us' where l: "LRUCache_Lookup ?c k (HashSlice k) = Some (Handle x, sh')" "shard sh' lru' us' cs"
      "lc_heap ?c x = Some e" "lh_in_cache e" "lh_key e = k"
      "handle_count sh' = (handle_count ?c)(x := handle_count ?c x + 1)" "shrinks ?c sh'" by blast
    let ?c' = "with_shard c ?s sh'"
    note r = with_shard_shrinks [OF w s sh l(2) subset_refl l(7)]
    have "ShardedLRUCache_Lookup c k = Some (Some (?s, x), ?c')"
      using l(1) s len by (simp add: ShardedLRUCache_Lookup_def on_shard_eq as_handle_def Let_def)
    moreover have "sc_held ?c' = add_mset (?s, x) (sc_held c)"
    proof (rule multiset_eqI)
      show "count (sc_held ?c') q = count (add_mset (?s, x) (sc_held c)) q" for q
        unfolding with_shard_held [OF w r(1) s l(6)] using count_sc_held [OF w, of ?s x] s by auto
    qed
    moreover have "sc_entry c (?s, x) = Some e" using l(3) s len by (simp add: sc_entry_def lc_entry_def)
    moreover have "sc_entry_of ?c' (?s, x) = (k, lh_value e)"
    proof -
      have "0 < handle_count sh' x" using l(6) by simp
      then obtain e' where e': "lc_heap sh' x = Some e'" by (auto simp: handle_count_def split: option.splits)
      then have "lh_key e' = k" "lh_value e' = lh_value e" using l(3,5,7) unfolding shrinks_def by fastforce+
      then show ?thesis using e' s len by (simp add: sc_entry_of_def sc_entry_def lc_entry_def with_shard_def)
    qed
    ultimately show ?thesis using r l(4,5) by (intro exI [of _ "Some (?s, x)"] exI [of _ ?c']) simp
  qed
qed

lemma ShardedLRUCache_Release_works:
  assumes w: "sc_works c" and h: "h \<in># sc_held c"
  shows "\<exists>c'. ShardedLRUCache_Release c h = Some c' \<and> sc_works c' \<and> sc_held c' = sc_held c - {#h#} \<and> sc_known c' \<subseteq> sc_known c
    \<and> cached sc_held sc_entry_of c c'"
proof -
  obtain s n where hn: "h = (s, n)" by (cases h)
  obtain e where e: "s < kNumShards" "lc_heap (sc_shard c ! s) n = Some e" "0 < handle_count (sc_shard c ! s) n"
    using held_entry [OF w] h unfolding hn by blast
  let ?c = "sc_shard c ! s"
  have len: "length (sc_shard c) = kNumShards" and ok: "shard_ok s ?c" using w e(1) by (simp_all add: sc_works_def)
  obtain lru us cs where sh: "shard ?c lru us cs" "length (concat cs) \<le> 2 ^ 30" using ok by (rule shard_okE)
  have s0: "shard0 ?c lru us cs" and mem: "set (concat cs) = set lru \<union> set us" using sh(1) by (simp_all add: shard_def)
  obtain sh' lru' us' where u: "LRUCache_Unref ?c (Handle n) = Some sh'" "shard0 sh' lru' us' cs" "set lru' \<union> set us' = set lru \<union> set us"
    "handle_count sh' = (handle_count ?c)(n := handle_count ?c n - 1)" "shrinks ?c sh'"
    using Unref_works [OF s0 e(3)] by blast
  have "shard sh' lru' us' cs" using u(2,3) mem by (simp add: shard_def)
  note r = with_shard_shrinks [OF w e(1) sh this subset_refl u(5)]
  have "Shard (lh_hash e) = s" using ok e(2) shard0_dest(5) [OF s0 e(2)] by (simp add: shard_ok_def node_ok_def)
  then have "ShardedLRUCache_Release c h = Some (with_shard c s sh')"
    using u(1) e(1,2) len by (simp add: ShardedLRUCache_Release_def sc_entry_def lc_entry_def hn on_shard_eq LRUCache_Release_def)
  moreover have "sc_held (with_shard c s sh') = sc_held c - {#h#}"
  proof (rule multiset_eqI)
    show "count (sc_held (with_shard c s sh')) q = count (sc_held c - {#h#}) q" for q
      unfolding with_shard_held [OF w r(1) e(1) u(4)] using count_sc_held [OF w, of s n] e(1) hn by auto
  qed
  ultimately show ?thesis using r by blast
qed

lemma ShardedLRUCache_Value_works:
  assumes "sc_works c" and "h \<in># sc_held c"
  shows "ShardedLRUCache_Value c h = Some (snd (sc_entry_of c h))"
proof -
  obtain s n where hn: "h = (s, n)" by (cases h)
  obtain e where "s < kNumShards" "lc_heap (sc_shard c ! s) n = Some e" using held_entry [OF assms(1)] assms(2) unfolding hn by blast
  then show ?thesis using assms(1) by (simp add: ShardedLRUCache_Value_def sc_entry_of_def sc_entry_def lc_entry_def hn sc_works_def)
qed

text \<open>Nothing changes for the clients when entries leave the cache.\<close>

lemma with_shard_same_held:
  assumes "sc_works c" and "sc_works (with_shard c s sh)" and "s < kNumShards" and "handle_count sh = handle_count (sc_shard c ! s)"
  shows "sc_held (with_shard c s sh) = sc_held c"
proof (rule multiset_eqI)
  fix q
  have "handle_count sh = (handle_count (sc_shard c ! s))(0 := handle_count (sc_shard c ! s) 0)" using assms(4) by simp
  from with_shard_held [OF assms(1-3) this] show "count (sc_held (with_shard c s sh)) q = count (sc_held c) q"
    using count_sc_held [OF assms(1), of s 0] assms(3) by auto
qed

lemma ShardedLRUCache_Erase_works:
  assumes w: "sc_works c"
  shows "\<exists>c'. ShardedLRUCache_Erase c k = Some c' \<and> sc_works c' \<and> sc_held c' = sc_held c \<and> sc_known c' \<subseteq> sc_known c
    \<and> cached sc_held sc_entry_of c c' \<and> (\<nexists>v. (k, v) \<in> lru_known (sc_shard c' ! Shard (HashSlice k)))"
proof -
  let ?s = "Shard (HashSlice k)"
  let ?c = "sc_shard c ! ?s"
  have s: "?s < kNumShards" by (rule Shard_less)
  have len: "length (sc_shard c) = kNumShards" and ok: "shard_ok ?s ?c" using w s by (simp_all add: sc_works_def)
  obtain lru us cs where sh: "shard ?c lru us cs" "length (concat cs) \<le> 2 ^ 30" using ok by (rule shard_okE)
  have mem: "set (concat cs) = set lru \<union> set us" using sh(1) by (simp add: shard_def)
  have step: "ShardedLRUCache_Erase c k = Some (with_shard c ?s sh')" if "erase_entry ?c k (HashSlice k) = Some (b, sh')" for b sh'
    using that s len by (simp add: ShardedLRUCache_Erase_def on_shard_eq LRUCache_Erase_eq Let_def)
  show ?thesis
  proof (cases "k \<in> key_of ?c ` set (concat cs)")
    case True
    then obtain x where x: "x \<in> set (concat cs)" "key_of ?c x = k" by (metis imageE)
    obtain sh' cs' where e: "erase_entry ?c k (HashSlice k) = Some (True, sh')" "shard sh' (remove1 x lru) (remove1 x us) cs'"
      "handle_count sh' = handle_count ?c" "shrinks ?c sh'" using erase_entry_works [OF sh(1) x] by blast
    have "lru_lists ?c lru us" using sh(1) by (simp add: shard_def shard0_def)
    then have "distinct (lru @ us)" by (rule lists_distinct)
    then have "set (remove1 x lru) \<union> set (remove1 x us) = set lru \<union> set us - {x}" by (auto simp: set_remove1_eq)
    then have mem': "set (concat cs') = set (concat cs) - {x}" using e(2) unfolding mem shard_def by blast
    then have sub: "set (concat cs') \<subseteq> set (concat cs)" by blast
    let ?c' = "with_shard c ?s sh'"
    note r = with_shard_shrinks [OF w s sh e(2) sub e(4)]
    have "(k, v) \<notin> lru_known sh'" for v
    proof
      assume "(k, v) \<in> lru_known sh'"
      then obtain n where n: "n \<in> set (concat cs')" "key_of sh' n = k" unfolding shard_known [OF e(2)] by blast
      then obtain f' where f': "lc_heap sh' n = Some f'" using e(2) shard0_dest(2) unfolding shard_def by blast
      then have "key_of ?c n = k" using n(2) e(4) unfolding shrinks_def key_of_def by fastforce
      moreover have "n \<in> set (concat cs)" "n \<noteq> x" using n(1) mem' by blast+
      moreover have "inj_on (key_of ?c) (set (concat cs))" using sh(1) unfolding shard_def shard0_def table_def by blast
      ultimately show False using x by (metis inj_onD)
    qed
    moreover have "sc_shard ?c' ! ?s = sh'" using s len by (simp add: with_shard_def)
    moreover have "sc_held ?c' = sc_held c" by (rule with_shard_same_held [OF w r(1) s e(3)])
    ultimately show ?thesis using step [OF e(1)] r by metis
  next
    case False
    have "with_shard c ?s ?c = c" by (cases c) (simp add: with_shard_def)
    then have "ShardedLRUCache_Erase c k = Some c" using step [OF erase_entry_none [OF sh(1) False]] by simp
    moreover have "(k, v) \<notin> lru_known ?c" for v using False unfolding shard_known [OF sh(1)] by blast
    moreover have "cached sc_held sc_entry_of c c" by (simp add: cached_def)
    ultimately show ?thesis using w by blast
  qed
qed

lemma cached_trans:
  "cached held en c1 c2 \<Longrightarrow> cached held en c2 c3 \<Longrightarrow> held c2 = held c1 \<Longrightarrow> cached held en c1 c3"
  by (auto simp: cached_def)

lemma prune_shards:
  assumes w: "sc_works c" and "k \<le> kNumShards"
  shows "\<exists>c'. fold (\<lambda>s r. do { c \<leftarrow> r; (u, c) \<leftarrow> on_shard s (\<lambda>sh. do { sh \<leftarrow> LRUCache_Prune sh; Some ((), sh) }) c; Some c }) [0..<k] (Some c) = Some c'
    \<and> sc_works c' \<and> sc_held c' = sc_held c \<and> sc_known c' \<subseteq> sc_known c \<and> cached sc_held sc_entry_of c c'
    \<and> (\<forall>s<k. \<exists>us cs. shard (sc_shard c' ! s) [] us cs)"
  using assms(2)
proof (induction k)
  case 0
  then show ?case using w by (simp add: cached_def)
next
  case (Suc k)
  then obtain c1 where c1: "fold (\<lambda>s r. do { c \<leftarrow> r; (u, c) \<leftarrow> on_shard s (\<lambda>sh. do { sh \<leftarrow> LRUCache_Prune sh; Some ((), sh) }) c; Some c }) [0..<k] (Some c) = Some c1"
    "sc_works c1" "sc_held c1 = sc_held c" "sc_known c1 \<subseteq> sc_known c" "cached sc_held sc_entry_of c c1"
    "\<forall>s<k. \<exists>us cs. shard (sc_shard c1 ! s) [] us cs" by auto
  have k: "k < kNumShards" using Suc.prems by simp
  have len: "length (sc_shard c1) = kNumShards" and ok: "shard_ok k (sc_shard c1 ! k)" using c1(2) k by (simp_all add: sc_works_def)
  obtain lru us cs where sh: "shard (sc_shard c1 ! k) lru us cs" "length (concat cs) \<le> 2 ^ 30" using ok by (rule shard_okE)
  obtain sh' cs' where p: "LRUCache_Prune (sc_shard c1 ! k) = Some sh'" "shard sh' [] us cs'"
    "handle_count sh' = handle_count (sc_shard c1 ! k)" "shrinks (sc_shard c1 ! k) sh'" using LRUCache_Prune_works [OF sh(1)] by blast
  have sub: "set (concat cs') \<subseteq> set (concat cs)" using p(2) sh(1) unfolding shard_def by auto
  note r = with_shard_shrinks [OF c1(2) k sh p(2) sub p(4)]
  have h: "sc_held (with_shard c1 k sh') = sc_held c1" by (rule with_shard_same_held [OF c1(2) r(1) k p(3)])
  have "\<exists>us cs. shard (sc_shard (with_shard c1 k sh') ! s) [] us cs" if "s < Suc k" for s
    using that c1(6) p(2) k len by (cases "s = k") (auto simp: with_shard_def)
  moreover have "on_shard k (\<lambda>sh. do { sh \<leftarrow> LRUCache_Prune sh; Some ((), sh) }) c1 = Some ((), with_shard c1 k sh')"
    using p(1) k len by (simp add: on_shard_eq)
  ultimately show ?case
    using c1 r h cached_trans [OF c1(5) r(3) c1(3)] by (intro exI [of _ "with_shard c1 k sh'"]) auto
qed

lemma ShardedLRUCache_NewId_works:
  assumes "sc_works c"
  shows "\<exists>i c'. ShardedLRUCache_NewId c = Some (i, c') \<and> sc_works c' \<and> sc_held c' = sc_held c \<and> sc_known c' \<subseteq> sc_known c
    \<and> cached sc_held sc_entry_of c c'"
  using assms
  by (simp add: ShardedLRUCache_NewId_def sc_works_def sc_held_def sc_known_def cached_def sc_entry_of_def sc_entry_def)

section \<open>The contract of caches\<close>

interpretation lru: cache ShardedLRUCache_ops sc_works sc_held sc_entry_of sc_known "2 ^ 30" charge_ok
proof
  fix c :: "'v ShardedLRUCache" and n k and v :: 'v and h
  assume w: "sc_works c"
  show "\<exists>h c'. ca_Insert ShardedLRUCache_ops c k v n = Some (h, c') \<and> sc_works c' \<and> sc_held c' = add_mset h (sc_held c)
      \<and> sc_entry_of c' h = (k, v) \<and> sc_known c' \<subseteq> insert (k, v) (sc_known c) \<and> cached sc_held sc_entry_of c c'"
    if "size (sc_held c) < 2 ^ 30" "charge_ok n"
    using ShardedLRUCache_Insert_works [OF w that, of k v] by (simp add: ShardedLRUCache_ops_def) blast
  show "\<exists>r c'. ca_Lookup ShardedLRUCache_ops c k = Some (r, c') \<and> sc_works c' \<and> sc_known c' \<subseteq> sc_known c \<and> cached sc_held sc_entry_of c c'
      \<and> (case r of None \<Rightarrow> sc_held c' = sc_held c
         | Some h \<Rightarrow> sc_held c' = add_mset h (sc_held c) \<and> fst (sc_entry_of c' h) = k \<and> sc_entry_of c' h \<in> sc_known c)"
    if most: "size (sc_held c) < 2 ^ 30"
  proof -
    obtain r c' where r: "ShardedLRUCache_Lookup c k = Some (r, c')" "sc_works c'" "sc_known c' \<subseteq> sc_known c" "cached sc_held sc_entry_of c c'"
      "case r of None \<Rightarrow> c' = c \<and> (\<nexists>v. (k, v) \<in> lru_known (sc_shard c ! Shard (HashSlice k)))
       | Some h \<Rightarrow> sc_held c' = add_mset h (sc_held c)
           \<and> (\<exists>e. sc_entry c h = Some e \<and> lh_in_cache e \<and> lh_key e = k \<and> sc_entry_of c' h = (k, lh_value e))"
      using ShardedLRUCache_Lookup_works [OF w most] by blast
    have "(k, lh_value e) \<in> sc_known c" if "sc_entry c h = Some e" "lh_in_cache e" "lh_key e = k" for h e
      using that by (cases h) (auto simp: sc_entry_def lc_entry_def sc_known_def lru_known_def split: if_splits)
    then show ?thesis using r by (intro exI [of _ r] exI [of _ c']) (auto simp: ShardedLRUCache_ops_def split: option.splits)
  qed
  show "\<exists>c'. ca_Release ShardedLRUCache_ops c h = Some c' \<and> sc_works c' \<and> sc_held c' = sc_held c - {#h#} \<and> sc_known c' \<subseteq> sc_known c
      \<and> cached sc_held sc_entry_of c c'" if "h \<in># sc_held c"
    using ShardedLRUCache_Release_works [OF w that] by (simp add: ShardedLRUCache_ops_def)
  show "ca_Value ShardedLRUCache_ops c h = Some (snd (sc_entry_of c h))" if "h \<in># sc_held c"
    using ShardedLRUCache_Value_works [OF w that] by (simp add: ShardedLRUCache_ops_def)
  show "\<exists>i c'. ca_NewId ShardedLRUCache_ops c = Some (i, c') \<and> sc_works c' \<and> sc_held c' = sc_held c \<and> sc_known c' \<subseteq> sc_known c
      \<and> cached sc_held sc_entry_of c c'"
    using ShardedLRUCache_NewId_works [OF w] by (simp add: ShardedLRUCache_ops_def)
qed

section \<open>Reachable caches\<close>

text \<open>The second argument is the multiset of the handles that clients have.\<close>

inductive lru_reachable :: "size_t \<Rightarrow> 'v ShardedLRUCache \<Rightarrow> handle multiset \<Rightarrow> bool" for capacity where
  new: "lru_reachable capacity (NewLRUCache capacity) {#}"
| insertion: "lru_reachable capacity c H \<Longrightarrow> size H < 2 ^ 30 \<Longrightarrow> charge_ok n \<Longrightarrow> ShardedLRUCache_Insert c k v n = Some (h, c') \<Longrightarrow>
    lru_reachable capacity c' (add_mset h H)"
| hit: "lru_reachable capacity c H \<Longrightarrow> size H < 2 ^ 30 \<Longrightarrow> ShardedLRUCache_Lookup c k = Some (Some h, c') \<Longrightarrow>
    lru_reachable capacity c' (add_mset h H)"
| miss: "lru_reachable capacity c H \<Longrightarrow> size H < 2 ^ 30 \<Longrightarrow> ShardedLRUCache_Lookup c k = Some (None, c') \<Longrightarrow> lru_reachable capacity c' H"
| release: "lru_reachable capacity c H \<Longrightarrow> h \<in># H \<Longrightarrow> ShardedLRUCache_Release c h = Some c' \<Longrightarrow> lru_reachable capacity c' (H - {#h#})"
| erase: "lru_reachable capacity c H \<Longrightarrow> ShardedLRUCache_Erase c k = Some c' \<Longrightarrow> lru_reachable capacity c' H"
| prune: "lru_reachable capacity c H \<Longrightarrow> ShardedLRUCache_Prune c = Some c' \<Longrightarrow> lru_reachable capacity c' H"
| new_id: "lru_reachable capacity c H \<Longrightarrow> ShardedLRUCache_NewId c = Some (i, c') \<Longrightarrow> lru_reachable capacity c' H"

lemma LRUCache_new_ok: "shard (LRUCache_SetCapacity LRUCache_new p) [] [] (replicate 4 [])"
proof -
  have "chains (\<lambda>p. Null) (replicate 4 Null) (replicate 4 [])" by (auto simp: chains_def nth_Cons numeral_eq_Suc split: nat.splits)
  moreover have "concat (replicate 4 ([] :: nat list)) = []" by simp
  ultimately show ?thesis
    by (simp add: shard_def shard0_def LRUCache_SetCapacity_def LRUCache_new_def lru_lists_def two_lists_def circ_def table_def placed_def)
qed

lemma NewLRUCache_works:
  assumes "unat capacity \<le> 2 ^ 34"
  shows "sc_works (NewLRUCache capacity :: 'v ShardedLRUCache)" and "sc_held (NewLRUCache capacity :: 'v ShardedLRUCache) = {#}"
proof -
  let ?p = "(capacity + (of_nat kNumShards - 1)) div of_nat kNumShards"
  have n: "(of_nat kNumShards :: size_t) = 16" "kNumShards = 16" by (simp_all add: kNumShards_def kNumShardBits_def)
  have "unat capacity + unat (15 :: size_t) < 2 ^ LENGTH(64)" using assms by simp
  then have "unat (capacity + 15) = unat capacity + 15" using unat_add_lem [THEN iffD1] by fastforce
  then have "unat ?p \<le> 2 ^ 30" using assms by (simp add: n unat_div)
  then have "shard_ok s (LRUCache_SetCapacity LRUCache_new ?p :: 'v LRUCache)" for s
    unfolding shard_ok_def
    by (intro conjI exI [of _ "[]"] exI [of _ "replicate 4 []"] LRUCache_new_ok) (simp_all add: LRUCache_SetCapacity_def LRUCache_new_def)
  then show "sc_works (NewLRUCache capacity :: 'v ShardedLRUCache)"
    by (simp add: sc_works_def NewLRUCache_def ShardedLRUCache_new_def Let_def n)
  show "sc_held (NewLRUCache capacity :: 'v ShardedLRUCache) = {#}"
    by (simp add: sc_held_def NewLRUCache_def ShardedLRUCache_new_def Let_def n shard_held_def LRUCache_SetCapacity_def LRUCache_new_def)
qed

lemma lru_reachable_works:
  assumes "lru_reachable capacity c H" and "unat capacity \<le> 2 ^ 34"
  shows "sc_works c \<and> sc_held c = H"
  using assms
proof (induction rule: lru_reachable.induct)
  case new
  then show ?case using NewLRUCache_works by blast
next
  case (insertion c H n k v h c')
  then have "sc_works c" "size (sc_held c) < 2 ^ 30" by auto
  from ShardedLRUCache_Insert_works [OF this insertion(3), of k v] show ?case using insertion by auto
next
  case (hit c H k h c')
  then have "sc_works c" "size (sc_held c) < 2 ^ 30" by auto
  from ShardedLRUCache_Lookup_works [OF this, of k] show ?case using hit by auto
next
  case (miss c H k c')
  then have "sc_works c" "size (sc_held c) < 2 ^ 30" by auto
  from ShardedLRUCache_Lookup_works [OF this, of k] show ?case using miss by auto
next
  case (release c H h c')
  then have "sc_works c" "h \<in># sc_held c" by auto
  from ShardedLRUCache_Release_works [OF this] show ?case using release by auto
next
  case (erase c H k c')
  then have "sc_works c" by auto
  from ShardedLRUCache_Erase_works [OF this, of k] show ?case using erase by auto
next
  case (prune c H c')
  then have "sc_works c" by auto
  from prune_shards [OF this order_refl] show ?case using prune by (auto simp: ShardedLRUCache_Prune_def)
next
  case (new_id c H i c')
  then have "sc_works c" by auto
  from ShardedLRUCache_NewId_works [OF this] show ?case using new_id by auto
qed




section \<open>Properties\<close>

text \<open>
  C23. Every cache that is reached by insertions, lookups, releases of handles a client has,
  erasures and prunings keeps its invariant (two circular lists, a hash table whose chains
  hold the listed entries, reference counts, the sum of charges), counts exactly the handles
  of the clients, and no further operation fails: no assertion, no use of a freed entry, no
  endless loop.
\<close>

theorem lru_cache_invariant:
  assumes "lru_reachable capacity c H" and "unat capacity \<le> 2 ^ 34"
  shows "sc_works c \<and> sc_held c = H
    \<and> (size H < 2 ^ 30 \<longrightarrow> (\<forall>k v n. charge_ok n \<longrightarrow> ShardedLRUCache_Insert c k v n \<noteq> None) \<and> (\<forall>k. ShardedLRUCache_Lookup c k \<noteq> None))
    \<and> (\<forall>h\<in>#H. ShardedLRUCache_Value c h \<noteq> None \<and> ShardedLRUCache_Release c h \<noteq> None)
    \<and> (\<forall>k. ShardedLRUCache_Erase c k \<noteq> None) \<and> ShardedLRUCache_Prune c \<noteq> None"
proof (intro conjI impI allI ballI)
  show w: "sc_works c" and H: "sc_held c = H" using lru_reachable_works [OF assms] by simp_all
  show "ShardedLRUCache_Insert c k v n \<noteq> None" if "size H < 2 ^ 30" "charge_ok n" for k v n
    using ShardedLRUCache_Insert_works [OF w _ that(2), of k v] that(1) H by auto
  show "ShardedLRUCache_Lookup c k \<noteq> None" if "size H < 2 ^ 30" for k
    using ShardedLRUCache_Lookup_works [OF w, of k] that H by auto
  show "ShardedLRUCache_Value c h \<noteq> None" if "h \<in># H" for h using ShardedLRUCache_Value_works [OF w, of h] that H by simp
  show "ShardedLRUCache_Release c h \<noteq> None" if "h \<in># H" for h using ShardedLRUCache_Release_works [OF w, of h] that H by auto
  show "ShardedLRUCache_Erase c k \<noteq> None" for k using ShardedLRUCache_Erase_works [OF w, of k] by auto
  show "ShardedLRUCache_Prune c \<noteq> None" using prune_shards [OF w order_refl] by (auto simp: ShardedLRUCache_Prune_def)
qed

theorem lru_cache_invariant_witness:
  "sc_works (NewLRUCache 32 :: nat ShardedLRUCache) \<and> ShardedLRUCache_Insert (NewLRUCache 32) [1] (7 :: nat) 1 \<noteq> None
    \<and> ShardedLRUCache_Prune (NewLRUCache 32 :: nat ShardedLRUCache) \<noteq> None"
proof -
  have "lru_reachable 32 (NewLRUCache 32 :: nat ShardedLRUCache) {#}" by (rule new)
  from lru_cache_invariant [OF this] show ?thesis by (simp add: charge_ok_def)
qed



text \<open>
  C25. Once every handle has been released pruning frees every entry: no allocated entry is
  left in any shard and nothing is charged, whatever was inserted, replaced and erased before.
\<close>

theorem lru_prune_frees_all:
  assumes "lru_reachable capacity c {#}" and "unat capacity \<le> 2 ^ 34"
  shows "\<exists>c'. ShardedLRUCache_Prune c = Some c' \<and> (\<forall>s<kNumShards. \<forall>n. lc_heap (sc_shard c' ! s) n = None)
    \<and> ShardedLRUCache_TotalCharge c' = 0"
proof -
  have w: "sc_works c" and H: "sc_held c = {#}" using lru_reachable_works [OF assms] by simp_all
  obtain c' where p: "ShardedLRUCache_Prune c = Some c'" "sc_works c'" "sc_held c' = {#}" "\<forall>s<kNumShards. \<exists>us cs. shard (sc_shard c' ! s) [] us cs"
    using prune_shards [OF w order_refl] H by (auto simp: ShardedLRUCache_Prune_def)
  have none: "(\<forall>n. lc_heap (sc_shard c' ! s) n = None) \<and> lc_usage (sc_shard c' ! s) = 0" if s: "s < kNumShards" for s
  proof -
    obtain us cs where "shard (sc_shard c' ! s) [] us cs" using p(4) s by blast
    then have s0: "shard0 (sc_shard c' ! s) [] us cs" by (simp add: shard_def)
    have z: "handle_count (sc_shard c' ! s) n = 0" for n using count_sc_held [OF p(2), of s n] p(3) s by simp
    then have us: "us = []" using in_use_count [OF s0] by (cases us) auto
    have "lc_heap (sc_shard c' ! s) n = None" for n
    proof (rule ccontr)
      assume "lc_heap (sc_shard c' ! s) n \<noteq> None"
      then obtain e where "lc_heap (sc_shard c' ! s) n = Some e" by blast
      then show False using shard0_dest(5) [OF s0, of n] z [of n] us by (auto simp: handle_count_def node_ok_def word_less_nat_alt)
    qed
    moreover have "unat (lc_usage (sc_shard c' ! s)) = 0" using shard0_dest(6) [OF s0] us by simp
    ultimately show ?thesis by (simp add: unat_eq_0)
  qed
  have "fold (\<lambda>s total. total + LRUCache_TotalCharge (sc_shard c' ! s)) [0..<k] 0 = 0" if "k \<le> kNumShards" for k
    using that none by (induction k) (simp_all add: LRUCache_TotalCharge_def)
  then have "ShardedLRUCache_TotalCharge c' = 0" by (simp add: ShardedLRUCache_TotalCharge_def)
  then show ?thesis using p(1) none by blast
qed

theorem lru_prune_frees_all_witness:
  "\<exists>h c1 c2 c3. ShardedLRUCache_Insert (NewLRUCache 32) [1] (7 :: nat) 1 = Some (h, c1) \<and> ShardedLRUCache_Release c1 h = Some c2
    \<and> ShardedLRUCache_Prune c2 = Some c3 \<and> ShardedLRUCache_TotalCharge c3 = 0"
proof -
  let ?c = "NewLRUCache 32 :: nat ShardedLRUCache"
  have w: "sc_works ?c" "sc_held ?c = {#}" "charge_ok 1" using NewLRUCache_works [of 32] by (simp_all add: charge_ok_def)
  then obtain h c1 where i: "ShardedLRUCache_Insert ?c [1] 7 1 = Some (h, c1)" "sc_works c1" "sc_held c1 = {#h#}"
    using ShardedLRUCache_Insert_works [OF w(1) _ w(3), of "[1]" 7] by auto
  then obtain c2 where r: "ShardedLRUCache_Release c1 h = Some c2" using ShardedLRUCache_Release_works [OF i(2), of h] by auto
  have "lru_reachable 32 c1 {#h#}" using insertion [OF new _ w(3) i(1)] by simp
  then have "lru_reachable 32 c2 {#}" using release [OF _ _ r, of 32 "{#h#}"] by simp
  from lru_prune_frees_all [OF this] show ?thesis using i(1) r by auto
qed

end
