(* ===== verification/LDB_Log.thy ===== *)
theory LDB_Log
  imports LDB_Env LDB_CRC
begin

text \<open>
  The log format of \<^verbatim>\<open>db/log_format.h\<close>, \<^verbatim>\<open>db/log_writer.cc\<close> and
  \<^verbatim>\<open>db/log_reader.cc\<close> of \<^verbatim>\<open>src/MovieDBApp/Pods/leveldb-library\<close>: a file is a sequence
  of blocks of 32768 bytes, a block a sequence of physical records (checksum, length, type,
  data) and a trailer of at most six zero bytes; a logical record is one physical record or
  a chain of them.

  A writer and a reader are records of their members; the files are used through the
  functions of their class, given as an argument. The reporter of a reader is the list of
  the corruptions it has been told of, \<^const>\<open>None\<close> for a null reporter.
\<close>

section \<open>Format\<close>

definition kZeroType :: nat where "kZeroType = 0"
definition kFullType :: nat where "kFullType = 1"
definition kFirstType :: nat where "kFirstType = 2"
definition kMiddleType :: nat where "kMiddleType = 3"
definition kLastType :: nat where "kLastType = 4"

definition kMaxRecordType :: nat where
  "kMaxRecordType = kLastType"

definition kBlockSize :: nat where
  "kBlockSize = 32768"

definition kHeaderSize :: nat where
  "kHeaderSize = 4 + 2 + 1"

lemmas log_consts = kZeroType_def kFullType_def kFirstType_def kMiddleType_def kLastType_def
  kMaxRecordType_def kHeaderSize_def

section \<open>Writer\<close>

record 'f Writer =
  lw_dest :: 'f
  lw_block_offset :: nat
  lw_type_crc :: "u32 list"

definition InitTypeCrc :: "u32 list" where
  "InitTypeCrc = map (\<lambda>i. the (crc_extend 0 [of_nat i])) [0..<kMaxRecordType + 1]"

definition Writer_new :: "'f \<Rightarrow> 'f Writer" where
  "Writer_new dest = \<lparr>lw_dest = dest, lw_block_offset = 0, lw_type_crc = InitTypeCrc\<rparr>"

definition Writer_append :: "'f \<Rightarrow> u64 \<Rightarrow> 'f Writer" where
  "Writer_append dest dest_length =
     \<lparr>lw_dest = dest, lw_block_offset = unat dest_length mod kBlockSize, lw_type_crc = InitTypeCrc\<rparr>"

text \<open>The assertions of the code are undefined behaviour when they fail.\<close>

definition EmitPhysicalRecord ::
  "'f WritableFile \<Rightarrow> 'f Writer \<Rightarrow> nat \<Rightarrow> byte list \<Rightarrow> (Status \<times> 'f Writer) option" where
  "EmitPhysicalRecord ops w t data =
     (let len = length data in
      if \<not> len \<le> 0xffff \<or> \<not> lw_block_offset w + kHeaderSize + len \<le> kBlockSize then None
      else do {
        crc \<leftarrow> crc_extend (lw_type_crc w ! t) data;
        let crc = Mask crc;
        let buf = EncodeFixed32 crc
          @ [ucast (of_nat len AND 0xff :: size_t), ucast (drop_bit 8 (of_nat len) :: size_t), of_nat t];
        (s, f) \<leftarrow> wf_Append ops (lw_dest w) buf;
        (s, f) \<leftarrow> (if ok s then do {
                     (s, f) \<leftarrow> wf_Append ops f data;
                     if ok s then wf_Flush ops f else Some (s, f)
                   }
                   else Some (s, f));
        Some (s, w\<lparr>lw_dest := f, lw_block_offset := lw_block_offset w + (kHeaderSize + len)\<rparr>)
      })"

text \<open>The switch to a new block, at the top of the loop; the status of the padding is not looked at.\<close>

definition switch_block :: "'f WritableFile \<Rightarrow> 'f Writer \<Rightarrow> 'f Writer option" where
  "switch_block ops w =
     (let leftover = kBlockSize - lw_block_offset w in
      if leftover < kHeaderSize then do {
        f \<leftarrow> (if leftover > 0
              then map_option snd (wf_Append ops (lw_dest w) (take leftover [0, 0, 0, 0, 0, 0]))
              else Some (lw_dest w));
        Some (w\<lparr>lw_dest := f, lw_block_offset := 0\<rparr>)
      }
      else Some w)"

definition record_type :: "bool \<Rightarrow> bool \<Rightarrow> nat" where
  "record_type begin end =
     (if begin \<and> end then kFullType
      else if begin then kFirstType
      else if end then kLastType
      else kMiddleType)"

lemma switch_block_offset:
  "switch_block ops w = Some w' \<Longrightarrow>
     lw_block_offset w' = (if kBlockSize - lw_block_offset w < kHeaderSize then 0 else lw_block_offset w)"
  by (auto simp: switch_block_def Let_def res_simps split: if_splits)

lemma EmitPhysicalRecord_offset:
  "EmitPhysicalRecord ops w t data = Some (s, w') \<Longrightarrow>
     lw_block_offset w' = lw_block_offset w + 7 + length data"
  by (auto simp: EmitPhysicalRecord_def Let_def res_simps kHeaderSize_def split: if_splits prod.splits)

text \<open>\<^verbatim>\<open>do ... while (s.ok() && left > 0)\<close>; \<open>data\<close> is what is left.\<close>

function AddRecord_loop ::
  "'f WritableFile \<Rightarrow> 'f Writer \<Rightarrow> byte list \<Rightarrow> bool \<Rightarrow> (Status \<times> 'f Writer) option" where
  "AddRecord_loop ops w data begin =
     (case switch_block ops w of
        None \<Rightarrow> None
      | Some w1 \<Rightarrow>
          if kBlockSize < lw_block_offset w1 + kHeaderSize then None
          else let avail = kBlockSize - lw_block_offset w1 - kHeaderSize;
                   left = length data;
                   fragment_length = (if left < avail then left else avail);
                   end = (left = fragment_length)
               in case EmitPhysicalRecord ops w1 (record_type begin end) (take fragment_length data) of
                    None \<Rightarrow> None
                  | Some (s, w2) \<Rightarrow>
                      if ok s \<and> left - fragment_length > 0
                      then AddRecord_loop ops w2 (drop fragment_length data) False
                      else Some (s, w2))"
  by pat_completeness auto
termination
  by (relation "measures [\<lambda>(ops, w, data, begin). length data,
        \<lambda>(ops, w, data, begin). if lw_block_offset w = kBlockSize - kHeaderSize then 1 else 0]")
    (auto simp: kBlockSize_def kHeaderSize_def dest!: switch_block_offset EmitPhysicalRecord_offset split: if_splits)

declare AddRecord_loop.simps [simp del]

definition AddRecord :: "'f WritableFile \<Rightarrow> 'f Writer \<Rightarrow> byte list \<Rightarrow> (Status \<times> 'f Writer) option" where
  "AddRecord ops w data = AddRecord_loop ops w data True"

end
