(* ===== verification/LDB_Log_Reader.thy ===== *)
theory LDB_Log_Reader
  imports LDB_Log
begin

text \<open>
  \<^verbatim>\<open>db/log_reader.h\<close> and \<^verbatim>\<open>db/log_reader.cc\<close>. Offsets are 64-bit words; the
  loop of \<^verbatim>\<open>ReadRecord\<close> may go on for ever on a file that never ends, which is
  \<^const>\<open>None\<close>.
\<close>

definition kEof :: nat where
  "kEof = kMaxRecordType + 1"

definition kBadRecord :: nat where
  "kBadRecord = kMaxRecordType + 2"

record 'f Reader =
  lr_file :: 'f
  lr_reporter :: "(size_t \<times> Status) list option"
  lr_checksum :: bool
  lr_buffer :: "byte list"
  lr_eof :: bool
  lr_last_record_offset :: u64
  lr_end_of_buffer_offset :: u64
  lr_initial_offset :: u64
  lr_resyncing :: bool

definition Reader_new :: "'f \<Rightarrow> bool \<Rightarrow> bool \<Rightarrow> u64 \<Rightarrow> 'f Reader" where
  "Reader_new file reporter checksum initial_offset =
     \<lparr>lr_file = file, lr_reporter = (if reporter then Some [] else None), lr_checksum = checksum,
      lr_buffer = [], lr_eof = False, lr_last_record_offset = 0, lr_end_of_buffer_offset = 0,
      lr_initial_offset = initial_offset, lr_resyncing = initial_offset > 0\<rparr>"

definition buffer_size :: "'f Reader \<Rightarrow> u64" where
  "buffer_size r = of_nat (length (lr_buffer r))"

definition ReportDrop :: "'f Reader \<Rightarrow> u64 \<Rightarrow> Status \<Rightarrow> 'f Reader" where
  "ReportDrop r bytes reason =
     (case lr_reporter r of
        None \<Rightarrow> r
      | Some reports \<Rightarrow>
          if lr_end_of_buffer_offset r - buffer_size r - bytes \<ge> lr_initial_offset r
          then r\<lparr>lr_reporter := Some (reports @ [(bytes, reason)])\<rparr> else r)"

definition ReportCorruption :: "'f Reader \<Rightarrow> u64 \<Rightarrow> byte list \<Rightarrow> 'f Reader" where
  "ReportCorruption r bytes reason = ReportDrop r bytes (Corruption reason [])"

definition SkipToInitialBlock :: "'f SequentialFile \<Rightarrow> 'f Reader \<Rightarrow> (bool \<times> 'f Reader) option" where
  "SkipToInitialBlock ops r =
     (let offset_in_block = lr_initial_offset r mod of_nat kBlockSize;
          block_start_location = lr_initial_offset r - offset_in_block;
          block_start_location = (if offset_in_block > of_nat kBlockSize - 6
            then block_start_location + of_nat kBlockSize else block_start_location);
          r = r\<lparr>lr_end_of_buffer_offset := block_start_location\<rparr>
      in if block_start_location > 0 then do {
           (skip_status, f) \<leftarrow> sf_Skip ops (lr_file r) block_start_location;
           let r = r\<lparr>lr_file := f\<rparr>;
           if \<not> ok skip_status then Some (False, ReportDrop r block_start_location skip_status)
           else Some (True, r)
         }
         else Some (True, r))"

text \<open>
  The part of \<^verbatim>\<open>ReadPhysicalRecord\<close> after a header has been found in the buffer. The
  result is the type and the fragment; \<open>res\<close> is the fragment before the call, which most
  failures leave as it is. The type is a \<^verbatim>\<open>char\<close> made an \<^verbatim>\<open>unsigned int\<close>.
\<close>

definition parse_physical :: "byte list \<Rightarrow> 'f Reader \<Rightarrow> (nat \<times> byte list \<times> 'f Reader) option" where
  "parse_physical res r =
     (let header = lr_buffer r;
          a = ucast (header ! 4) AND 0xff :: u32;
          b = ucast (header ! 5) AND 0xff :: u32;
          type = unat (scast (header ! 6) :: u32);
          len = unat (a OR push_bit 8 b)
      in if kHeaderSize + len > length (lr_buffer r) then
           let drop_size = buffer_size r; r = r\<lparr>lr_buffer := []\<rparr> in
           if \<not> lr_eof r
           then Some (kBadRecord, res, ReportCorruption r drop_size (cstr ''bad record length''))
           else Some (kEof, res, r)
         else if type = kZeroType \<and> len = 0 then Some (kBadRecord, res, r\<lparr>lr_buffer := []\<rparr>)
         else do {
           match \<leftarrow> (if lr_checksum r then do {
                      expected_crc \<leftarrow> map_option Unmask (DecodeFixed32 header);
                      actual_crc \<leftarrow> crc_extend 0 (take (1 + len) (drop 6 header));
                      Some (actual_crc = expected_crc)
                    }
                    else Some True);
           if \<not> match then
             let drop_size = buffer_size r; r = r\<lparr>lr_buffer := []\<rparr> in
             Some (kBadRecord, res, ReportCorruption r drop_size (cstr ''checksum mismatch''))
           else
             let r = r\<lparr>lr_buffer := remove_prefix (kHeaderSize + len) (lr_buffer r)\<rparr> in
             if lr_end_of_buffer_offset r - buffer_size r - of_nat kHeaderSize - of_nat len
                  < lr_initial_offset r
             then Some (kBadRecord, [], r)
             else Some (type, take len (drop kHeaderSize header), r)
         })"

text \<open>
  \<^verbatim>\<open>while (true)\<close>: a round either returns or reads a block, after which the buffer holds
  a header or the end of the file is known.
\<close>

function ReadPhysicalRecord ::
  "'f SequentialFile \<Rightarrow> byte list \<Rightarrow> 'f Reader \<Rightarrow> (nat \<times> byte list \<times> 'f Reader) option" where
  "ReadPhysicalRecord ops res r =
     (if length (lr_buffer r) < kHeaderSize then
        if \<not> lr_eof r then
          (case sf_Read ops (lr_file r) kBlockSize of
             None \<Rightarrow> None
           | Some (status, buf, f) \<Rightarrow>
               let r' = r\<lparr>lr_file := f, lr_buffer := buf,
                          lr_end_of_buffer_offset := lr_end_of_buffer_offset r + of_nat (length buf)\<rparr>
               in if \<not> ok status then
                    Some (kEof, res,
                      (ReportDrop (r'\<lparr>lr_buffer := []\<rparr>) (of_nat kBlockSize) status)\<lparr>lr_eof := True\<rparr>)
                  else ReadPhysicalRecord ops res
                    (if length buf < kBlockSize then r'\<lparr>lr_eof := True\<rparr> else r'))
        else Some (kEof, res, r\<lparr>lr_buffer := []\<rparr>)
      else parse_physical res r)"
  by pat_completeness auto
termination
  by (relation "measure (\<lambda>(ops, res, r). if length (lr_buffer r) < kHeaderSize \<and> \<not> lr_eof r then 1 else 0)")
    (auto simp: kHeaderSize_def kBlockSize_def)

declare ReadPhysicalRecord.simps [simp del]

text \<open>One round of the loop of \<^verbatim>\<open>ReadRecord\<close>: its local variables, and what a round does.\<close>

record read_vars =
  rv_scratch :: "byte list"
  rv_in_fragmented_record :: bool
  rv_prospective_record_offset :: u64
  rv_fragment :: "byte list"

datatype 'f read_round = Done "byte list option" "'f Reader" | Again read_vars "'f Reader"

definition handle_type :: "nat \<Rightarrow> u64 \<Rightarrow> read_vars \<Rightarrow> 'f Reader \<Rightarrow> 'f read_round" where
  "handle_type ty physical_record_offset v r =
     (let fragment = rv_fragment v; scratch = rv_scratch v; frag = rv_in_fragmented_record v in
      if ty = kFullType then
        let r = (if frag \<and> scratch \<noteq> []
                 then ReportCorruption r (of_nat (length scratch)) (cstr ''partial record without end(1)'')
                 else r)
        in Done (Some fragment) (r\<lparr>lr_last_record_offset := physical_record_offset\<rparr>)
      else if ty = kFirstType then
        let r = (if frag \<and> scratch \<noteq> []
                 then ReportCorruption r (of_nat (length scratch)) (cstr ''partial record without end(2)'')
                 else r)
        in Again (v\<lparr>rv_prospective_record_offset := physical_record_offset, rv_scratch := fragment,
                    rv_in_fragmented_record := True\<rparr>) r
      else if ty = kMiddleType then
        if \<not> frag
        then Again v (ReportCorruption r (of_nat (length fragment)) (cstr ''missing start of fragmented record(1)''))
        else Again (v\<lparr>rv_scratch := scratch @ fragment\<rparr>) r
      else if ty = kLastType then
        if \<not> frag
        then Again v (ReportCorruption r (of_nat (length fragment)) (cstr ''missing start of fragmented record(2)''))
        else Done (Some (scratch @ fragment))
               (r\<lparr>lr_last_record_offset := rv_prospective_record_offset v\<rparr>)
      else if ty = kEof then Done None r
      else if ty = kBadRecord then
        if frag
        then Again (v\<lparr>rv_in_fragmented_record := False, rv_scratch := []\<rparr>)
               (ReportCorruption r (of_nat (length scratch)) (cstr ''error in middle of record''))
        else Again v r
      else
        Again (v\<lparr>rv_in_fragmented_record := False, rv_scratch := []\<rparr>)
          (ReportCorruption r (of_nat (length fragment) + (if frag then of_nat (length scratch) else 0))
             (cstr ''unknown record type '' @ decimal ty)))"

definition read_round :: "'f SequentialFile \<Rightarrow> read_vars \<Rightarrow> 'f Reader \<Rightarrow> 'f read_round option" where
  "read_round ops v r =
     do {
       (ty, fragment, r) \<leftarrow> ReadPhysicalRecord ops (rv_fragment v) r;
       let v = v\<lparr>rv_fragment := fragment\<rparr>;
       let physical_record_offset =
         lr_end_of_buffer_offset r - buffer_size r - of_nat kHeaderSize - of_nat (length fragment);
       if lr_resyncing r then
         if ty = kMiddleType then Some (Again v r)
         else if ty = kLastType then Some (Again v (r\<lparr>lr_resyncing := False\<rparr>))
         else Some (handle_type ty physical_record_offset v (r\<lparr>lr_resyncing := False\<rparr>))
       else Some (handle_type ty physical_record_offset v r)
     }"

partial_function (option) read_rounds ::
  "'f SequentialFile \<Rightarrow> read_vars \<Rightarrow> 'f Reader \<Rightarrow> (byte list option \<times> 'f Reader) option" where
  "read_rounds ops v r =
     (case read_round ops v r of
        None \<Rightarrow> None
      | Some (Done result r) \<Rightarrow> Some (result, r)
      | Some (Again v r) \<Rightarrow> read_rounds ops v r)"

text \<open>The record, or \<^const>\<open>None\<close> when the input has ended.\<close>

definition ReadRecord :: "'f SequentialFile \<Rightarrow> 'f Reader \<Rightarrow> (byte list option \<times> 'f Reader) option" where
  "ReadRecord ops r =
     do {
       (success, r) \<leftarrow> (if lr_last_record_offset r < lr_initial_offset r then SkipToInitialBlock ops r
                        else Some (True, r));
       if \<not> success then Some (None, r)
       else read_rounds ops
         \<lparr>rv_scratch = [], rv_in_fragmented_record = False, rv_prospective_record_offset = 0,
          rv_fragment = []\<rparr> r
     }"

definition LastRecordOffset :: "'f Reader \<Rightarrow> u64" where
  "LastRecordOffset r = lr_last_record_offset r"

end
