(* ===== verification/LDB_Posix.thy ===== *)
theory LDB_Posix
  imports LDB_Env
begin

text \<open>
  The files of \<^verbatim>\<open>util/env_posix.cc\<close> of \<^verbatim>\<open>src/MovieDBApp/Pods/leveldb-library\<close>: the
  sequential file over \<^verbatim>\<open>read\<close>, the random access files over \<^verbatim>\<open>pread\<close> and
  \<^verbatim>\<open>mmap\<close>, and the buffered writable file over \<^verbatim>\<open>write\<close>.

  The system calls are parameters: the functions of the record \<open>posix_os\<close>, on the state
  \<open>'w\<close> of the system. A call that fails returns a negative number and sets \<^verbatim>\<open>errno\<close>. The
  last two members are ghosts the proofs speak about: what has been written through a
  descriptor, and what a reader of it has still to come.

  A sequential and a writable file over a system that does what the manual pages say meet
  the contracts of \<^verbatim>\<open>leveldb/env.h\<close>, calls interrupted by signals included.
\<close>

section \<open>The system\<close>

record 'w posix_os =
  os_write :: "'w \<Rightarrow> int \<Rightarrow> byte list \<Rightarrow> int \<times> int \<times> 'w"
  os_read :: "'w \<Rightarrow> int \<Rightarrow> nat \<Rightarrow> int \<times> byte list \<times> int \<times> 'w"
  os_pread :: "'w \<Rightarrow> int \<Rightarrow> nat \<Rightarrow> u64 \<Rightarrow> int \<times> byte list \<times> int \<times> 'w"
  os_lseek_cur :: "'w \<Rightarrow> int \<Rightarrow> u64 \<Rightarrow> int \<times> int \<times> 'w"
  os_open_rdonly :: "'w \<Rightarrow> byte list \<Rightarrow> int \<times> int \<times> 'w"
  os_close :: "'w \<Rightarrow> int \<Rightarrow> int \<times> int \<times> 'w"
  os_fullfsync :: "'w \<Rightarrow> int \<Rightarrow> int \<times> int \<times> 'w"
  os_fsync :: "'w \<Rightarrow> int \<Rightarrow> int \<times> int \<times> 'w"
  os_strerror :: "int \<Rightarrow> byte list"
  os_written :: "'w \<Rightarrow> int \<Rightarrow> byte list"
  os_ahead :: "'w \<Rightarrow> int \<Rightarrow> byte list"

definition ENOENT :: int where "ENOENT = 2"
definition EINTR :: int where "EINTR = 4"
definition EINVAL :: int where "EINVAL = 22"

definition PosixError :: "'w posix_os \<Rightarrow> byte list \<Rightarrow> int \<Rightarrow> Status" where
  "PosixError os context error_number =
     (if error_number = ENOENT then NotFound context (os_strerror os error_number)
      else IOError context (os_strerror os error_number))"

definition kWritableFileBufferSize :: nat where
  "kWritableFileBufferSize = 65536"

section \<open>Limiter\<close>

text \<open>An atomic counter; the operations are single steps of one thread.\<close>

definition Limiter_Acquire :: "int \<Rightarrow> bool \<times> int" where
  "Limiter_Acquire acquires_allowed =
     (let old_acquires_allowed = acquires_allowed; acquires_allowed = acquires_allowed - 1 in
      if old_acquires_allowed > 0 then (True, acquires_allowed) else (False, acquires_allowed + 1))"

definition Limiter_Release :: "int \<Rightarrow> int" where
  "Limiter_Release acquires_allowed = acquires_allowed + 1"

section \<open>Sequential file\<close>

record 'w PosixSequentialFile =
  ps_fd :: int
  ps_filename :: "byte list"
  ps_os :: "'w posix_os"
  ps_world :: 'w

partial_function (option) posix_read ::
  "'w PosixSequentialFile \<Rightarrow> nat \<Rightarrow> (Status \<times> byte list \<times> 'w PosixSequentialFile) option" where
  "posix_read f n =
     (case os_read (ps_os f) (ps_world f) (ps_fd f) n of
        (read_size, scratch, errno, w) \<Rightarrow>
          let f = f\<lparr>ps_world := w\<rparr> in
          if read_size < 0 then
            if errno = EINTR then posix_read f n
            else Some (PosixError (ps_os f) (ps_filename f) errno, [], f)
          else Some (Status_OK, take (nat read_size) scratch, f))"

definition posix_skip :: "'w PosixSequentialFile \<Rightarrow> u64 \<Rightarrow> (Status \<times> 'w PosixSequentialFile) option" where
  "posix_skip f n =
     (case os_lseek_cur (ps_os f) (ps_world f) (ps_fd f) n of
        (r, errno, w) \<Rightarrow>
          let f = f\<lparr>ps_world := w\<rparr> in
          if r = - 1 then Some (PosixError (ps_os f) (ps_filename f) errno, f)
          else Some (Status_OK, f))"

definition PosixSequentialFile_ops :: "'w PosixSequentialFile SequentialFile" where
  "PosixSequentialFile_ops = \<lparr>sf_Read = posix_read, sf_Skip = posix_skip\<rparr>"

section \<open>Random access files\<close>

record 'w PosixRandomAccessFile =
  pr_has_permanent_fd :: bool
  pr_fd :: int
  pr_filename :: "byte list"
  pr_os :: "'w posix_os"

text \<open>The descriptor, the limiter and the system after the constructor.\<close>

definition PosixRandomAccessFile_new ::
  "'w posix_os \<Rightarrow> byte list \<Rightarrow> int \<Rightarrow> int \<Rightarrow> 'w \<Rightarrow> 'w PosixRandomAccessFile \<times> int \<times> 'w" where
  "PosixRandomAccessFile_new os filename fd fd_limiter w =
     (let (permanent, fd_limiter) = Limiter_Acquire fd_limiter;
          f = \<lparr>pr_has_permanent_fd = permanent, pr_fd = (if permanent then fd else - 1),
               pr_filename = filename, pr_os = os\<rparr>;
          w = (if \<not> permanent then snd (snd (os_close os w fd)) else w)
      in (f, fd_limiter, w))"

definition PosixRandomAccessFile_delete ::
  "'w PosixRandomAccessFile \<Rightarrow> int \<Rightarrow> 'w \<Rightarrow> int \<times> 'w" where
  "PosixRandomAccessFile_delete f fd_limiter w =
     (if pr_has_permanent_fd f
      then (Limiter_Release fd_limiter, snd (snd (os_close (pr_os f) w (pr_fd f))))
      else (fd_limiter, w))"

definition PosixRandomAccessFile_Read ::
  "'w PosixRandomAccessFile \<Rightarrow> u64 \<Rightarrow> nat \<Rightarrow> 'w \<Rightarrow> Status \<times> byte list \<times> 'w" where
  "PosixRandomAccessFile_Read f offset n w =
     (let os = pr_os f;
          (fd, errno, w) = (if \<not> pr_has_permanent_fd f then os_open_rdonly os w (pr_filename f)
                            else (pr_fd f, 0, w))
      in if \<not> pr_has_permanent_fd f \<and> fd < 0 then (PosixError os (pr_filename f) errno, [], w)
         else
           let (read_size, scratch, errno, w) = os_pread os w fd n offset;
               result = take (nat read_size) scratch;
               status = (if read_size < 0 then PosixError os (pr_filename f) errno else Status_OK);
               w = (if \<not> pr_has_permanent_fd f then snd (snd (os_close os w fd)) else w)
           in (status, result, w))"

text \<open>With the system as a part of the file.\<close>

definition PosixRandomAccessFile_ops :: "('w PosixRandomAccessFile \<times> 'w) RandomAccessFile" where
  "PosixRandomAccessFile_ops =
     \<lparr>rf_Read = (\<lambda>(f, w) offset n.
        let (status, result, w) = PosixRandomAccessFile_Read f offset (unat n) w in Some (status, result, (f, w))),
      rf_uses_scratch = True\<rparr>"

record 'w PosixMmapReadableFile =
  pm_base :: "byte list"
  pm_length :: u64
  pm_filename :: "byte list"
  pm_os :: "'w posix_os"

text \<open>\<^const>\<open>None\<close> is a slice that leaves the mapping, which has \<open>pm_length\<close> bytes.\<close>

definition PosixMmapReadableFile_Read ::
  "'w PosixMmapReadableFile \<Rightarrow> u64 \<Rightarrow> u64 \<Rightarrow> (Status \<times> byte list) option" where
  "PosixMmapReadableFile_Read f offset n =
     (if offset + n > pm_length f then Some (PosixError (pm_os f) (pm_filename f) EINVAL, [])
      else if unat offset + unat n > length (pm_base f) then None
      else Some (Status_OK, take (unat n) (drop (unat offset) (pm_base f))))"

definition PosixMmapReadableFile_ops :: "'w PosixMmapReadableFile RandomAccessFile" where
  "PosixMmapReadableFile_ops =
     \<lparr>rf_Read = (\<lambda>f offset n. do { (status, result) \<leftarrow> PosixMmapReadableFile_Read f offset n; Some (status, result, f) }),
      rf_uses_scratch = False\<rparr>"

section \<open>Writable file\<close>

record 'w PosixWritableFile =
  pw_buf :: "byte list"
  pw_fd :: int
  pw_is_manifest :: bool
  pw_filename :: "byte list"
  pw_dirname :: "byte list"
  pw_os :: "'w posix_os"
  pw_world :: 'w

text \<open>\<open>buf_[0, pos_ - 1]\<close> is the list \<open>pw_buf\<close>; \<^verbatim>\<open>rfind('/')\<close> splits the path.\<close>

definition last_slash :: "byte list \<Rightarrow> nat option" where
  "last_slash filename =
     (case filter (\<lambda>i. filename ! i = 0x2F) (rev [0..<length filename]) of [] \<Rightarrow> None | i # _ \<Rightarrow> Some i)"

definition Dirname :: "byte list \<Rightarrow> byte list" where
  "Dirname filename = (case last_slash filename of None \<Rightarrow> cstr ''.'' | Some i \<Rightarrow> take i filename)"

definition Basename :: "byte list \<Rightarrow> byte list" where
  "Basename filename = (case last_slash filename of None \<Rightarrow> filename | Some i \<Rightarrow> drop (i + 1) filename)"

definition IsManifest :: "byte list \<Rightarrow> bool" where
  "IsManifest filename = starts_with (Basename filename) (cstr ''MANIFEST'')"

definition PosixWritableFile_new :: "'w posix_os \<Rightarrow> 'w \<Rightarrow> byte list \<Rightarrow> int \<Rightarrow> 'w PosixWritableFile" where
  "PosixWritableFile_new os w filename fd =
     \<lparr>pw_buf = [], pw_fd = fd, pw_is_manifest = IsManifest filename, pw_filename = filename,
      pw_dirname = Dirname filename, pw_os = os, pw_world = w\<rparr>"

text \<open>A count larger than what was asked for would make \<^verbatim>\<open>size\<close> wrap around.\<close>

partial_function (option) WriteUnbuffered ::
  "'w PosixWritableFile \<Rightarrow> byte list \<Rightarrow> (Status \<times> 'w PosixWritableFile) option" where
  "WriteUnbuffered f data =
     (if length data > 0 then
        case os_write (pw_os f) (pw_world f) (pw_fd f) data of
          (write_result, errno, w) \<Rightarrow>
            let f = f\<lparr>pw_world := w\<rparr> in
            if write_result < 0 then
              if errno = EINTR then WriteUnbuffered f data
              else Some (PosixError (pw_os f) (pw_filename f) errno, f)
            else if write_result > int (length data) then None
            else WriteUnbuffered f (drop (nat write_result) data)
      else Some (Status_OK, f))"

definition FlushBuffer :: "'w PosixWritableFile \<Rightarrow> (Status \<times> 'w PosixWritableFile) option" where
  "FlushBuffer f =
     do { (status, f) \<leftarrow> WriteUnbuffered f (pw_buf f); Some (status, f\<lparr>pw_buf := []\<rparr>) }"

definition PosixWritableFile_Append ::
  "'w PosixWritableFile \<Rightarrow> byte list \<Rightarrow> (Status \<times> 'w PosixWritableFile) option" where
  "PosixWritableFile_Append f data =
     (let write_size = length data;
          copy_size = min write_size (kWritableFileBufferSize - length (pw_buf f));
          f = f\<lparr>pw_buf := pw_buf f @ take copy_size data\<rparr>;
          write_data = drop copy_size data;
          write_size = write_size - copy_size
      in if write_size = 0 then Some (Status_OK, f)
         else do {
           (status, f) \<leftarrow> FlushBuffer f;
           if \<not> ok status then Some (status, f)
           else if write_size < kWritableFileBufferSize
           then Some (Status_OK, f\<lparr>pw_buf := write_data\<rparr>)
           else WriteUnbuffered f write_data
         })"

definition PosixWritableFile_Close :: "'w PosixWritableFile \<Rightarrow> (Status \<times> 'w PosixWritableFile) option" where
  "PosixWritableFile_Close f =
     do {
       (status, f) \<leftarrow> FlushBuffer f;
       let (close_result, errno, w) = os_close (pw_os f) (pw_world f) (pw_fd f);
       let status = (if close_result < 0 \<and> ok status then PosixError (pw_os f) (pw_filename f) errno
                     else status);
       Some (status, f\<lparr>pw_world := w, pw_fd := - 1\<rparr>)
     }"

definition PosixWritableFile_Flush :: "'w PosixWritableFile \<Rightarrow> (Status \<times> 'w PosixWritableFile) option" where
  "PosixWritableFile_Flush f = FlushBuffer f"

text \<open>This build defines \<^verbatim>\<open>HAVE_FULLFSYNC\<close> and not \<^verbatim>\<open>HAVE_FDATASYNC\<close>.\<close>

definition SyncFd :: "'w posix_os \<Rightarrow> int \<Rightarrow> byte list \<Rightarrow> 'w \<Rightarrow> Status \<times> 'w" where
  "SyncFd os fd fd_path w =
     (let (r, errno, w) = os_fullfsync os w fd in
      if r = 0 then (Status_OK, w)
      else let (r, errno, w) = os_fsync os w fd; sync_success = (r = 0) in
        if sync_success then (Status_OK, w) else (PosixError os fd_path errno, w))"

definition SyncDirIfManifest :: "'w PosixWritableFile \<Rightarrow> Status \<times> 'w PosixWritableFile" where
  "SyncDirIfManifest f =
     (if \<not> pw_is_manifest f then (Status_OK, f)
      else let os = pw_os f; (fd, errno, w) = os_open_rdonly os (pw_world f) (pw_dirname f) in
        if fd < 0 then (PosixError os (pw_dirname f) errno, f\<lparr>pw_world := w\<rparr>)
        else let (status, w) = SyncFd os fd (pw_dirname f) w; (r, errno, w) = os_close os w fd
             in (status, f\<lparr>pw_world := w\<rparr>))"

definition PosixWritableFile_Sync :: "'w PosixWritableFile \<Rightarrow> (Status \<times> 'w PosixWritableFile) option" where
  "PosixWritableFile_Sync f =
     (let (status, f) = SyncDirIfManifest f in
      if \<not> ok status then Some (status, f)
      else do {
        (status, f) \<leftarrow> FlushBuffer f;
        if \<not> ok status then Some (status, f)
        else let (status, w) = SyncFd (pw_os f) (pw_fd f) (pw_filename f) (pw_world f)
             in Some (status, f\<lparr>pw_world := w\<rparr>)
      })"

definition PosixWritableFile_ops :: "'w PosixWritableFile WritableFile" where
  "PosixWritableFile_ops = \<lparr>wf_Append = PosixWritableFile_Append, wf_Close = PosixWritableFile_Close,
     wf_Flush = PosixWritableFile_Flush, wf_Sync = PosixWritableFile_Sync\<rparr>"

section \<open>Files on a system that works\<close>

text \<open>
  \<^verbatim>\<open>write(2)\<close> accepts a non-empty prefix of the data, or is interrupted, only finitely often
  in a row; \<^verbatim>\<open>read(2)\<close> delivers what was asked for up to the end of the file.
\<close>

definition write_works :: "'w posix_os \<Rightarrow> bool" where
  "write_works os \<longleftrightarrow> (\<exists>patience :: 'w \<Rightarrow> nat. \<forall>w fd data n e w'.
     data \<noteq> [] \<longrightarrow> os_write os w fd data = (n, e, w') \<longrightarrow>
       (0 < n \<and> n \<le> int (length data) \<and> os_written os w' fd = os_written os w fd @ take (nat n) data)
     \<or> (n < 0 \<and> e = EINTR \<and> os_written os w' fd = os_written os w fd \<and> patience w' < patience w))"

definition read_works :: "'w posix_os \<Rightarrow> bool" where
  "read_works os \<longleftrightarrow> (\<exists>patience :: 'w \<Rightarrow> nat. \<forall>w fd k n buf e w'.
     os_read os w fd k = (n, buf, e, w') \<longrightarrow>
       (0 \<le> n \<and> take (nat n) buf = take k (os_ahead os w fd) \<and> os_ahead os w' fd = drop k (os_ahead os w fd))
     \<or> (n < 0 \<and> e = EINTR \<and> os_ahead os w' fd = os_ahead os w fd \<and> patience w' < patience w))
   \<and> (\<forall>w fd k r e w'. os_lseek_cur os w fd k = (r, e, w') \<longrightarrow>
       r \<noteq> - 1 \<and> os_ahead os w' fd = drop (unat k) (os_ahead os w fd))"

definition posix_written :: "'w PosixWritableFile \<Rightarrow> byte list" where
  "posix_written f = os_written (pw_os f) (pw_world f) (pw_fd f) @ pw_buf f"

definition posix_writable :: "'w PosixWritableFile \<Rightarrow> bool" where
  "posix_writable f \<longleftrightarrow> write_works (pw_os f) \<and> length (pw_buf f) \<le> kWritableFileBufferSize"

definition posix_ahead :: "'w PosixSequentialFile \<Rightarrow> byte list" where
  "posix_ahead f = os_ahead (ps_os f) (ps_world f) (ps_fd f)"

definition posix_readable :: "'w PosixSequentialFile \<Rightarrow> bool" where
  "posix_readable f \<longleftrightarrow> read_works (ps_os f)"

lemma WriteUnbuffered_works:
  assumes "write_works (pw_os f)"
  shows "\<exists>w'. WriteUnbuffered f data = Some (Status_OK, f\<lparr>pw_world := w'\<rparr>)
    \<and> os_written (pw_os f) w' (pw_fd f) = os_written (pw_os f) (pw_world f) (pw_fd f) @ data"
proof -
  define os where "os = pw_os f"
  obtain patience :: "'a \<Rightarrow> nat" where step: "\<And>w fd data n e w'. data \<noteq> [] \<Longrightarrow> os_write os w fd data = (n, e, w') \<Longrightarrow>
       (0 < n \<and> n \<le> int (length data) \<and> os_written os w' fd = os_written os w fd @ take (nat n) data)
     \<or> (n < 0 \<and> e = EINTR \<and> os_written os w' fd = os_written os w fd \<and> patience w' < patience w)"
    using assms unfolding write_works_def os_def by blast
  show ?thesis
    using os_def [symmetric]
  proof (induction "length data" arbitrary: data f rule: less_induct)
    case less
    note shorter = less.hyps
    show ?case
      using less.prems
    proof (induction "patience (pw_world f)" arbitrary: f rule: less_induct)
      case (less f)
      obtain n e w where call: "os_write os (pw_world f) (pw_fd f) data = (n, e, w)"
        by (cases "os_write os (pw_world f) (pw_fd f) data")
      let ?f = "f\<lparr>pw_world := w\<rparr>"
      show ?case
      proof (cases "data = []")
        case True
        then show ?thesis
          by (subst WriteUnbuffered.simps) (auto intro!: exI [of _ "pw_world f"])
      next
        case False
        from step [OF False call] show ?thesis
        proof (elim disjE conjE)
          assume n: "0 < n" "n \<le> int (length data)"
            and w: "os_written os w (pw_fd f) = os_written os (pw_world f) (pw_fd f) @ take (nat n) data"
          obtain w' where "WriteUnbuffered ?f (drop (nat n) data) = Some (Status_OK, f\<lparr>pw_world := w'\<rparr>)"
            "os_written os w' (pw_fd f) = os_written os (pw_world f) (pw_fd f) @ data"
            using shorter [of "drop (nat n) data" ?f] less.prems n w False by auto
          then show ?thesis
            using False n call less.prems by (subst WriteUnbuffered.simps) (auto simp: Let_def)
        next
          assume n: "n < 0" "e = EINTR" "patience w < patience (pw_world f)"
            and w: "os_written os w (pw_fd f) = os_written os (pw_world f) (pw_fd f)"
          obtain w' where "WriteUnbuffered ?f data = Some (Status_OK, f\<lparr>pw_world := w'\<rparr>)"
            "os_written os w' (pw_fd f) = os_written os (pw_world f) (pw_fd f) @ data"
            using less.hyps [of ?f] less.prems n(3) w by auto
          then show ?thesis
            using False n call less.prems by (subst WriteUnbuffered.simps) (auto simp: Let_def)
        qed
      qed
    qed
  qed
qed

lemma FlushBuffer_works:
  assumes "write_works (pw_os f)"
  shows "\<exists>w'. FlushBuffer f = Some (Status_OK, f\<lparr>pw_world := w', pw_buf := []\<rparr>)
    \<and> os_written (pw_os f) w' (pw_fd f) = posix_written f"
  using WriteUnbuffered_works [OF assms, of "pw_buf f"] by (auto simp: FlushBuffer_def posix_written_def)

lemma Append_works:
  assumes "posix_writable f"
  shows "\<exists>f'. PosixWritableFile_Append f data = Some (Status_OK, f') \<and> posix_writable f'
    \<and> posix_written f' = posix_written f @ data"
proof -
  define k where "k = min (length data) (kWritableFileBufferSize - length (pw_buf f))"
  define g where "g = f\<lparr>pw_buf := pw_buf f @ take k data\<rparr>"
  have eq: "PosixWritableFile_Append f data =
      (if length data - k = 0 then Some (Status_OK, g)
       else do {
         (status, f) \<leftarrow> FlushBuffer g;
         if \<not> ok status then Some (status, f)
         else if length data - k < kWritableFileBufferSize
         then Some (Status_OK, f\<lparr>pw_buf := drop k data\<rparr>)
         else WriteUnbuffered f (drop k data)
       })"
    by (simp only: PosixWritableFile_Append_def Let_def k_def g_def)
  have ok: "write_works (pw_os f)" "length (pw_buf f) \<le> kWritableFileBufferSize"
    using assms by (auto simp: posix_writable_def)
  have g: "posix_writable g" "posix_written g = posix_written f @ take k data"
    using ok by (auto simp: g_def k_def posix_writable_def posix_written_def)
  show ?thesis
  proof (cases "length data - k = 0")
    case True
    then show ?thesis
      using g by (simp add: eq)
  next
    case False
    obtain w where flush: "FlushBuffer g = Some (Status_OK, g\<lparr>pw_world := w, pw_buf := []\<rparr>)"
      "os_written (pw_os g) w (pw_fd g) = posix_written g"
      using FlushBuffer_works [of g] g(1) by (auto simp: posix_writable_def)
    let ?h = "g\<lparr>pw_world := w, pw_buf := []\<rparr>"
    have h: "posix_written (?h\<lparr>pw_buf := drop k data\<rparr>) = posix_written f @ data"
      using flush(2) g(2) by (simp add: posix_written_def)
    show ?thesis
    proof (cases "length data - k < kWritableFileBufferSize")
      case True
      then show ?thesis
        using False flush(1) h g(1)
        by (simp add: eq posix_writable_def)
    next
      case large: False
      obtain w' where "WriteUnbuffered ?h (drop k data) = Some (Status_OK, ?h\<lparr>pw_world := w'\<rparr>)"
        "os_written (pw_os ?h) w' (pw_fd ?h) = os_written (pw_os ?h) (pw_world ?h) (pw_fd ?h) @ drop k data"
        using WriteUnbuffered_works [of ?h "drop k data"] g(1) by (auto simp: posix_writable_def)
      then show ?thesis
        using False large flush h g(1)
        by (simp add: eq posix_writable_def posix_written_def)
    qed
  qed
qed

lemma posix_read_works:
  assumes "posix_readable f"
  shows "\<exists>w. posix_read f n = Some (Status_OK, take n (posix_ahead f), f\<lparr>ps_world := w\<rparr>)
    \<and> os_ahead (ps_os f) w (ps_fd f) = drop n (posix_ahead f)"
proof -
  define os where "os = ps_os f"
  obtain patience :: "'a \<Rightarrow> nat" where step: "\<And>w fd k n buf e w'. os_read os w fd k = (n, buf, e, w') \<Longrightarrow>
       (0 \<le> n \<and> take (nat n) buf = take k (os_ahead os w fd)
          \<and> os_ahead os w' fd = drop k (os_ahead os w fd))
     \<or> (n < 0 \<and> e = EINTR \<and> os_ahead os w' fd = os_ahead os w fd \<and> patience w' < patience w)"
    using assms unfolding posix_readable_def os_def read_works_def by blast
  show ?thesis
    using os_def [symmetric]
  proof (induction "patience (ps_world f)" arbitrary: f rule: less_induct)
    case (less f)
    obtain r buf e w where call: "os_read os (ps_world f) (ps_fd f) n = (r, buf, e, w)"
      by (cases "os_read os (ps_world f) (ps_fd f) n")
    from step [OF call] show ?case
    proof (elim disjE conjE)
      assume "0 \<le> r" "take (nat r) buf = take n (os_ahead (os) (ps_world f) (ps_fd f))"
        "os_ahead (os) w (ps_fd f) = drop n (os_ahead (os) (ps_world f) (ps_fd f))"
      then show ?thesis
        using call less.prems
        by (subst posix_read.simps) (auto simp: Let_def posix_ahead_def)
    next
      assume r: "r < 0" "e = EINTR" "patience w < patience (ps_world f)"
        and same: "os_ahead (os) w (ps_fd f) = os_ahead (os) (ps_world f) (ps_fd f)"
      then have "posix_ahead (f\<lparr>ps_world := w\<rparr>) = posix_ahead f"
        using less.prems by (simp add: posix_ahead_def)
      then show ?thesis
        using less.hyps [of "f\<lparr>ps_world := w\<rparr>"] less.prems r call
        by (subst posix_read.simps) (auto simp: Let_def)
    qed
  qed
qed

lemma posix_skip_works:
  assumes "posix_readable f"
  shows "\<exists>w. posix_skip f k = Some (Status_OK, f\<lparr>ps_world := w\<rparr>)
    \<and> os_ahead (ps_os f) w (ps_fd f) = drop (unat k) (posix_ahead f)"
proof -
  obtain r e w where call: "os_lseek_cur (ps_os f) (ps_world f) (ps_fd f) k = (r, e, w)"
    by (cases "os_lseek_cur (ps_os f) (ps_world f) (ps_fd f) k")
  then have "r \<noteq> - 1" "os_ahead (ps_os f) w (ps_fd f) = drop (unat k) (os_ahead (ps_os f) (ps_world f) (ps_fd f))"
    using assms unfolding posix_readable_def read_works_def by blast+
  then show ?thesis
    using call by (intro exI [of _ w]) (simp add: posix_skip_def Let_def posix_ahead_def)
qed

interpretation posix_out: writable_file PosixWritableFile_ops posix_written posix_writable
proof
  fix f :: "'a PosixWritableFile" and data
  assume "posix_writable f"
  then show "\<exists>f'. wf_Append PosixWritableFile_ops f data = Some (Status_OK, f') \<and> posix_writable f'
      \<and> posix_written f' = posix_written f @ data"
    using Append_works [of f data] by (simp add: PosixWritableFile_ops_def)
next
  fix f :: "'a PosixWritableFile"
  assume "posix_writable f"
  then show "\<exists>f'. wf_Flush PosixWritableFile_ops f = Some (Status_OK, f') \<and> posix_writable f'
      \<and> posix_written f' = posix_written f"
    using FlushBuffer_works [of f]
    by (auto simp: PosixWritableFile_ops_def PosixWritableFile_Flush_def posix_writable_def posix_written_def)
qed

interpretation posix_in: sequential_file PosixSequentialFile_ops posix_ahead posix_readable
proof
  fix f :: "'a PosixSequentialFile" and n
  assume "posix_readable f"
  then show "\<exists>f'. sf_Read PosixSequentialFile_ops f n = Some (Status_OK, take n (posix_ahead f), f')
      \<and> posix_readable f' \<and> posix_ahead f' = drop n (posix_ahead f)"
    using posix_read_works [of f n]
    by (auto simp: PosixSequentialFile_ops_def posix_readable_def posix_ahead_def)
next
  fix f :: "'a PosixSequentialFile" and k
  assume "posix_readable f"
  then show "\<exists>f'. sf_Skip PosixSequentialFile_ops f k = Some (Status_OK, f')
      \<and> posix_readable f' \<and> posix_ahead f' = drop (unat k) (posix_ahead f)"
    using posix_skip_works [of f k]
    by (auto simp: PosixSequentialFile_ops_def posix_readable_def posix_ahead_def)
qed

section \<open>Random access\<close>

text \<open>
  A system on which the file of that name can be opened and \<^verbatim>\<open>pread\<close> reads the bytes that
  are there: the whole request inside the file is read at once.
\<close>

definition pread_works :: "'w posix_os \<Rightarrow> byte list \<Rightarrow> byte list \<Rightarrow> bool" where
  "pread_works os filename bytes \<longleftrightarrow>
     (\<forall>w. \<exists>fd e w'. os_open_rdonly os w filename = (fd, e, w') \<and> 0 \<le> fd)
     \<and> (\<forall>w fd n off. unat off + n \<le> length bytes \<longrightarrow>
          (\<exists>e w'. os_pread os w fd n off = (int n, take n (drop (unat off) bytes), e, w')))"

interpretation posix_pread: random_access_file PosixRandomAccessFile_ops "\<lambda>_. bytes"
  "\<lambda>(f, w). pread_works (pr_os f) (pr_filename f) bytes" for bytes
proof
  fix fw :: "'a PosixRandomAccessFile \<times> 'a" and offset n :: u64
  assume works: "case fw of (f, w) \<Rightarrow> pread_works (pr_os f) (pr_filename f) bytes"
    and fits: "unat offset + unat n \<le> length bytes"
  obtain f w where fw: "fw = (f, w)" by force
  obtain fd e w1 where o: "os_open_rdonly (pr_os f) w (pr_filename f) = (fd, e, w1)" "0 \<le> fd"
    using works unfolding fw pread_works_def by (simp only: split_conv) blast
  have r: "\<exists>e w'. os_pread (pr_os f) w fd (unat n) offset = (int (unat n), take (unat n) (drop (unat offset) bytes), e, w')" for w fd
    using works fits unfolding fw pread_works_def by (simp only: split_conv)
  obtain w2 where "PosixRandomAccessFile_Read f offset (unat n) w = (Status_OK, take (unat n) (drop (unat offset) bytes), w2)"
  proof (cases "pr_has_permanent_fd f")
    case True
    then show ?thesis using that r [of w "pr_fd f"] by (auto simp: PosixRandomAccessFile_Read_def Let_def)
  next
    case False
    then show ?thesis using that r [of w1 fd] o by (auto simp: PosixRandomAccessFile_Read_def Let_def)
  qed
  then show "\<exists>f'. rf_Read PosixRandomAccessFile_ops fw offset n
      = Some (Status_OK, take (unat n) (drop (unat offset) bytes), f')
      \<and> (case f' of (f, w) \<Rightarrow> pread_works (pr_os f) (pr_filename f) bytes) \<and> bytes = bytes"
    using works by (auto simp: fw PosixRandomAccessFile_ops_def)
qed

lemma mmap_read_within:
  assumes "unat (pm_length f) = length (pm_base f)" and "unat offset + unat n < 2 ^ 64"
  shows "PosixMmapReadableFile_Read f offset n =
    (if unat offset + unat n \<le> length (pm_base f)
     then Some (Status_OK, take (unat n) (drop (unat offset) (pm_base f)))
     else Some (PosixError (pm_os f) (pm_filename f) EINVAL, []))"
  using assms by (simp add: PosixMmapReadableFile_Read_def word_less_nat_alt unat_add_no_overflow)

interpretation posix_mmap: random_access_file PosixMmapReadableFile_ops pm_base "\<lambda>f. unat (pm_length f) = length (pm_base f)"
proof
  fix f :: "'a PosixMmapReadableFile" and offset n :: u64
  assume len: "unat (pm_length f) = length (pm_base f)" and fits: "unat offset + unat n \<le> length (pm_base f)"
  then have "unat offset + unat n < 2 ^ 64" using unat_lt_64 [of "pm_length f"] by simp
  then show "\<exists>f'. rf_Read PosixMmapReadableFile_ops f offset n
      = Some (Status_OK, take (unat n) (drop (unat offset) (pm_base f)), f')
      \<and> unat (pm_length f') = length (pm_base f') \<and> pm_base f' = pm_base f"
    using len fits by (simp add: PosixMmapReadableFile_ops_def mmap_read_within)
qed

text \<open>
  C40. The bounds of a memory-mapped file: reads inside the mapping return its bytes and reads
  beyond it are rejected, as long as the offset and the size do not overflow together; when
  they do, the check lets a read pass that leaves the mapping.
\<close>

theorem mmap_read_bounds:
  assumes "unat (pm_length f) = length (pm_base f)"
  shows "PosixMmapReadableFile_Read f offset n =
    (if unat offset + unat n \<le> length (pm_base f)
     then Some (Status_OK, take (unat n) (drop (unat offset) (pm_base f)))
     else if unat offset + unat n < 2 ^ 64 \<or> length (pm_base f) < unat offset + unat n - 2 ^ 64
     then Some (PosixError (pm_os f) (pm_filename f) EINVAL, [])
     else None)"
proof (cases "unat offset + unat n < 2 ^ 64")
  case True
  then show ?thesis using mmap_read_within [OF assms] by simp
next
  case False
  have lt: "unat offset < 2 ^ 64" "unat n < 2 ^ 64" "length (pm_base f) < 2 ^ 64"
    using unat_lt_64 [of offset] unat_lt_64 [of n] unat_lt_64 [of "pm_length f"] assms by simp_all
  have "unat (offset + n) = (unat offset + unat n) mod 2 ^ 64" by (simp add: unat_word_ariths)
  also have "\<dots> = unat offset + unat n - 2 ^ 64"
  proof -
    have "unat offset + unat n - 2 ^ 64 < 2 ^ 64" using lt by linarith
    then show ?thesis using False by (simp only: le_mod_geq not_less mod_less)
  qed
  finally have "offset + n > pm_length f \<longleftrightarrow> length (pm_base f) < unat offset + unat n - 2 ^ 64"
    by (simp add: word_less_nat_alt assms)
  then show ?thesis using False lt by (simp add: PosixMmapReadableFile_Read_def)
qed

theorem mmap_read_bounds_witness:
  "\<forall>os. PosixMmapReadableFile_Read \<lparr>pm_base = [1, 2, 3], pm_length = 3, pm_filename = [], pm_os = os\<rparr> (2 ^ 64 - 4) 4 = None"
proof
  fix os
  show "PosixMmapReadableFile_Read \<lparr>pm_base = [1, 2, 3], pm_length = 3, pm_filename = [], pm_os = os\<rparr> (2 ^ 64 - 4) 4 = None"
    using mmap_read_bounds [of "\<lparr>pm_base = [1, 2, 3], pm_length = 3, pm_filename = [], pm_os = os\<rparr>" "2 ^ 64 - 4" 4]
    by simp
qed

end
