(* ===== verification/LDB_Log_Props.thy ===== *)
theory LDB_Log_Props
  imports LDB_Log_Reader LDB_Posix
begin

text \<open>
  What is written to a log is read back. \<open>chain\<close> is the format: the byte strings that stand
  for one logical record when they begin at a given offset of a block. A writer over a file
  that works appends such a string; a reader over a file that works and has such a string
  ahead delivers the record and stands behind it.
\<close>

section \<open>The format\<close>

definition phys :: "nat \<Rightarrow> byte list \<Rightarrow> byte list" where
  "phys t d = le_bytes 4 (Mask (crc32c 0 (of_nat t # d)))
     @ [of_nat (length d), of_nat (length d div 256), of_nat t] @ d"

inductive chain :: "nat \<Rightarrow> bool \<Rightarrow> byte list \<Rightarrow> byte list \<Rightarrow> nat \<Rightarrow> bool" where
  pad: "\<lbrakk>kBlockSize - o1 < 7; o1 \<le> kBlockSize; chain 0 first d bs o2\<rbrakk> \<Longrightarrow>
          chain o1 first d (replicate (kBlockSize - o1) 0 @ bs) o2"
| last: "o1 + 7 + length d \<le> kBlockSize \<Longrightarrow>
          chain o1 first d (phys (if first then kFullType else kLastType) d) (o1 + 7 + length d)"
| more: "\<lbrakk>o1 + 7 + length d \<le> kBlockSize; chain (o1 + 7 + length d) False rest bs o2\<rbrakk> \<Longrightarrow>
          chain o1 first (d @ rest) (phys (if first then kFirstType else kMiddleType) d @ bs) o2"

lemma length_phys [simp]: "length (phys t d) = 7 + length d"
  by (simp add: phys_def)

lemma chain_offset: "chain o1 first d bs o2 \<Longrightarrow> o2 \<le> kBlockSize"
  by (induction rule: chain.induct) auto

section \<open>Checksums and lengths\<close>

lemma crc32c_Cons: "crc32c (crc32c crc [b]) bs = crc32c crc (b # bs)"
  by (simp add: crc32c_def)

lemma InitTypeCrc_nth: "t \<le> 4 \<Longrightarrow> InitTypeCrc ! t = crc32c 0 [of_nat t]"
  by (simp add: InitTypeCrc_def log_consts crc_extend_eq nth_append del: upt_Suc)

lemma header_length:
  assumes "n \<le> 65535"
  shows "unat (ucast (of_nat n :: byte) AND 0xff OR push_bit 8 (ucast (of_nat (n div 256) :: byte) AND 0xff) :: u32) = n"
proof -
  have n: "take_bit 16 n = n" using assms by (simp add: take_bit_nat_eq_self)
  have low: "bit n i \<Longrightarrow> i < 16" for i by (metis n bit_take_bit_iff)
  have "n div 256 = drop_bit 8 n" by (simp add: drop_bit_eq_div)
  then have "(ucast (of_nat n :: byte) AND 0xff OR push_bit 8 (ucast (of_nat (n div 256) :: byte) AND 0xff) :: u32) = of_nat n"
    by (intro bit_word_eqI) (auto simp: and_0xff bit_simps dest: low)
  then show ?thesis using assms by (simp only: unat_of_nat_32)
qed

lemma ucast_length_bytes:
  assumes "n \<le> 65535"
  shows "ucast (of_nat n AND 0xff :: size_t) = (of_nat n :: byte)"
    "ucast (drop_bit 8 (of_nat n) :: size_t) = (of_nat (n div 256) :: byte)"
proof -
  have "n div 256 = drop_bit 8 n" by (simp add: drop_bit_eq_div)
  moreover have "(of_nat n AND 0xff :: size_t) = take_bit 8 (of_nat n)"
    by (simp add: take_bit_eq_mask mask_eq_exp_minus_1)
  ultimately show "ucast (of_nat n AND 0xff :: size_t) = (of_nat n :: byte)"
    "ucast (drop_bit 8 (of_nat n) :: size_t) = (of_nat (n div 256) :: byte)"
    by (auto intro!: bit_word_eqI simp: bit_simps)
qed

lemma scast_type: "t \<in> {1, 2, 3, 4} \<Longrightarrow> unat (scast (of_nat t :: byte) :: u32) = t"
  by auto

section \<open>Writing\<close>

text \<open>One iteration of the loop that fragments a record.\<close>

lemma AddRecord_step:
  assumes "switch_block ops w = Some w1" and "lw_block_offset w1 + 7 \<le> kBlockSize"
    and "k = (if length data < kBlockSize - lw_block_offset w1 - kHeaderSize then length data
              else kBlockSize - lw_block_offset w1 - kHeaderSize)"
  shows "AddRecord_loop ops w data first =
    (case EmitPhysicalRecord ops w1 (record_type first (length data = k)) (take k data) of
       None \<Rightarrow> None
     | Some (s, w2) \<Rightarrow>
         if ok s \<and> length data - k > 0 then AddRecord_loop ops w2 (drop k data) False else Some (s, w2))"
proof -
  have fits: "\<not> kBlockSize < lw_block_offset w1 + kHeaderSize" using assms(2) by (simp add: kHeaderSize_def)
  show ?thesis
    unfolding assms(3)
    by (subst AddRecord_loop.simps) (simp only: assms(1) option.case if_not_P [OF fits] Let_def)
qed

lemma record_type_le: "record_type first fin \<le> 4"
  by (simp add: record_type_def log_consts)

context writable_file begin

lemma EmitPhysicalRecord_works:
  assumes "works (lw_dest w)" and "lw_block_offset w + 7 + length d \<le> kBlockSize" and "t \<le> 4"
    and "lw_type_crc w = InitTypeCrc"
  shows "\<exists>f. EmitPhysicalRecord ops w t d
      = Some (Status_OK, w\<lparr>lw_dest := f, lw_block_offset := lw_block_offset w + 7 + length d\<rparr>)
    \<and> works f \<and> written f = written (lw_dest w) @ phys t d"
proof -
  have len: "length d \<le> 65535" using assms(2) by (simp add: kBlockSize_def)
  have hd: "ucast (of_nat (length d) AND 0xff :: size_t) = (of_nat (length d) :: byte)"
    "ucast (drop_bit 8 (of_nat (length d)) :: size_t) = (of_nat (length d div 256) :: byte)"
    using ucast_length_bytes [of "length d"] len by auto
  have crc: "crc_extend (lw_type_crc w ! t) d = Some (crc32c 0 (of_nat t # d))"
    using len assms(3,4) by (simp add: crc_extend_eq InitTypeCrc_nth crc32c_Cons)
  let ?h = "le_bytes 4 (Mask (crc32c 0 (of_nat t # d))) @ [of_nat (length d), of_nat (length d div 256), of_nat t]"
  obtain f1 where 1: "wf_Append ops (lw_dest w) ?h = Some (Status_OK, f1)" "works f1" "written f1 = written (lw_dest w) @ ?h"
    using Append_works [OF assms(1)] by blast
  obtain f2 where 2: "wf_Append ops f1 d = Some (Status_OK, f2)" "works f2" "written f2 = written f1 @ d"
    using Append_works [OF 1(2)] by blast
  obtain f3 where 3: "wf_Flush ops f2 = Some (Status_OK, f3)" "works f3" "written f3 = written f2"
    using Flush_works [OF 2(2)] by blast
  show ?thesis
    using assms(2) len crc 1 2 3 hd
    by (auto simp: EmitPhysicalRecord_def Let_def kHeaderSize_def phys_def intro!: exI [of _ f3])
qed

lemma switch_block_works:
  assumes "works (lw_dest w)" and "lw_block_offset w \<le> kBlockSize"
  shows "\<exists>f o1. switch_block ops w = Some (w\<lparr>lw_dest := f, lw_block_offset := o1\<rparr>) \<and> works f
    \<and> (if kBlockSize - lw_block_offset w < 7
       then o1 = 0 \<and> written f = written (lw_dest w) @ replicate (kBlockSize - lw_block_offset w) 0
       else o1 = lw_block_offset w \<and> f = lw_dest w)"
proof (cases "kBlockSize - lw_block_offset w < 7")
  case False
  then show ?thesis
    using assms by (intro exI [of _ "lw_dest w"]) (simp add: switch_block_def Let_def kHeaderSize_def)
next
  case True
  let ?n = "kBlockSize - lw_block_offset w"
  have zeros: "take ?n [0, 0, 0, 0, 0, 0] = (replicate ?n 0 :: byte list)"
    using True by (auto simp: less_Suc_eq numeral_eq_Suc)
  show ?thesis
  proof (cases "?n = 0")
    case True
    then show ?thesis
      using assms by (intro exI [of _ "lw_dest w"]) (simp add: switch_block_def Let_def kHeaderSize_def)
  next
    case False
    obtain f where "wf_Append ops (lw_dest w) (replicate ?n 0) = Some (Status_OK, f)" "works f"
      "written f = written (lw_dest w) @ replicate ?n 0"
      using Append_works [OF assms(1)] by blast
    then show ?thesis
      using True False zeros
      by (intro exI [of _ f]) (simp add: switch_block_def Let_def kHeaderSize_def)
  qed
qed

lemma AddRecord_loop_works:
  assumes "ops' = ops" and "works (lw_dest w)" and "lw_block_offset w \<le> kBlockSize"
    and "lw_type_crc w = InitTypeCrc"
  shows "\<exists>w' bs. AddRecord_loop ops' w data first = Some (Status_OK, w') \<and> works (lw_dest w')
    \<and> written (lw_dest w') = written (lw_dest w) @ bs
    \<and> chain (lw_block_offset w) first data bs (lw_block_offset w') \<and> lw_type_crc w' = InitTypeCrc"
  using assms
proof (induction ops' w data first rule: AddRecord_loop.induct)
  case (1 ops' w data first)
  obtain f o1 where sw: "switch_block ops w = Some (w\<lparr>lw_dest := f, lw_block_offset := o1\<rparr>)" "works f"
    and o1: "if kBlockSize - lw_block_offset w < 7
       then o1 = 0 \<and> written f = written (lw_dest w) @ replicate (kBlockSize - lw_block_offset w) 0
       else o1 = lw_block_offset w \<and> f = lw_dest w"
    using switch_block_works [OF "1.prems"(2,3)] by blast
  let ?w = "w\<lparr>lw_dest := f, lw_block_offset := o1\<rparr>"
  have fits: "o1 + 7 \<le> kBlockSize" using o1 "1.prems"(3) by (auto simp: kBlockSize_def split: if_splits)
  define k where "k = (if length data < kBlockSize - lw_block_offset ?w - kHeaderSize then length data
      else kBlockSize - lw_block_offset ?w - kHeaderSize)"
  let ?fin = "length data = k"
  have k: "o1 + 7 + k \<le> kBlockSize" "k \<le> length data"
    using fits by (auto simp: k_def kHeaderSize_def)
  obtain g where emit: "EmitPhysicalRecord ops ?w (record_type first ?fin) (take k data)
      = Some (Status_OK, ?w\<lparr>lw_dest := g, lw_block_offset := o1 + 7 + k\<rparr>)"
    "works g" "written g = written f @ phys (record_type first ?fin) (take k data)"
    using EmitPhysicalRecord_works [of ?w "take k data" "record_type first ?fin"] sw(2) k "1.prems"(4) record_type_le [of first ?fin]
    by auto
  let ?g = "?w\<lparr>lw_dest := g, lw_block_offset := o1 + 7 + k\<rparr>"
  have step: "AddRecord_loop ops w data first =
      (if length data - k > 0 then AddRecord_loop ops ?g (drop k data) False else Some (Status_OK, ?g))"
    using AddRecord_step [OF sw(1) _ k_def, of first] fits emit(1) by simp
  have "\<exists>w' bs. AddRecord_loop ops w data first = Some (Status_OK, w') \<and> works (lw_dest w')
    \<and> written (lw_dest w') = written f @ bs \<and> chain o1 first data bs (lw_block_offset w')
    \<and> lw_type_crc w' = InitTypeCrc"
  proof (cases "length data - k > 0")
    case False
    then have fin: "length data = k" using k(2) by simp
    then have "chain o1 first data (phys (record_type first True) data) (o1 + 7 + k)"
      using chain.last [of o1 data first] k(1) by (cases first) (simp_all add: record_type_def)
    then show ?thesis using step emit False fin "1.prems"(4) by (intro exI [of _ ?g]) auto
  next
    case True
    then have more: "length data \<noteq> k" by simp
    have "\<exists>w' bs. AddRecord_loop ops ?g (drop k data) False = Some (Status_OK, w') \<and> works (lw_dest w')
      \<and> written (lw_dest w') = written (lw_dest ?g) @ bs
      \<and> chain (lw_block_offset ?g) False (drop k data) bs (lw_block_offset w') \<and> lw_type_crc w' = InitTypeCrc"
      using "1.IH" [unfolded "1.prems"(1), OF sw(1) _ refl refl k_def refl emit(1) refl] fits True emit(2)
        k(1) "1.prems"(4)
      by (simp add: kHeaderSize_def)
    then obtain w' bs where w': "AddRecord_loop ops ?g (drop k data) False = Some (Status_OK, w')" "works (lw_dest w')"
      "written (lw_dest w') = written g @ bs" "chain (o1 + 7 + k) False (drop k data) bs (lw_block_offset w')"
      "lw_type_crc w' = InitTypeCrc"
      by auto
    have "chain o1 first data (phys (record_type first False) (take k data) @ bs) (lw_block_offset w')"
      using chain.more [of o1 "take k data" "drop k data" bs "lw_block_offset w'" first] k w'(4)
      by (cases first) (simp_all add: record_type_def)
    then show ?thesis
      using step True w' emit(3) more by (intro exI [of _ w']) auto
  qed
  then obtain w' bs where w': "AddRecord_loop ops w data first = Some (Status_OK, w')" "works (lw_dest w')"
    "written (lw_dest w') = written f @ bs" "chain o1 first data bs (lw_block_offset w')" "lw_type_crc w' = InitTypeCrc"
    by blast
  show ?case
  proof (cases "kBlockSize - lw_block_offset w < 7")
    case True
    then have "chain (lw_block_offset w) first data (replicate (kBlockSize - lw_block_offset w) 0 @ bs) (lw_block_offset w')"
      using chain.pad [of "lw_block_offset w" first data bs "lw_block_offset w'"] w'(4) o1 "1.prems"(3) by simp
    then show ?thesis using w' o1 True "1.prems"(1) by (intro exI [of _ w']) auto
  next
    case False
    then show ?thesis using w' o1 "1.prems"(1) by auto
  qed
qed

end

section \<open>Reading\<close>

definition start_vars :: read_vars where
  "start_vars = \<lparr>rv_scratch = [], rv_in_fragmented_record = False, rv_prospective_record_offset = 0,
     rv_fragment = []\<rparr>"

context sequential_file begin

text \<open>
  The reader stands at offset \<open>o1\<close> of a block and has \<open>U\<close> still to read: the rest of the
  block is in the buffer, what follows is ahead in the file, and the end of the file is
  known exactly if it was in the block that was read last.
\<close>

definition positioned :: "nat \<Rightarrow> byte list \<Rightarrow> 'f Reader \<Rightarrow> bool" where
  "positioned o1 U r \<longleftrightarrow> readable (lr_file r) \<and> o1 \<le> kBlockSize
     \<and> lr_buffer r = take (kBlockSize - o1) U \<and> ahead (lr_file r) = drop (kBlockSize - o1) U
     \<and> (lr_eof r \<longleftrightarrow> length U < kBlockSize - o1)"

definition unchanged :: "'f Reader \<Rightarrow> 'f Reader \<Rightarrow> bool" where
  "unchanged r r' \<longleftrightarrow> lr_reporter r' = lr_reporter r \<and> lr_checksum r' = lr_checksum r
     \<and> lr_initial_offset r' = lr_initial_offset r \<and> lr_resyncing r' = lr_resyncing r"

lemma unchanged_refl [simp]: "unchanged r r"
  by (simp add: unchanged_def)

lemma unchanged_trans: "unchanged r r' \<Longrightarrow> unchanged r' r'' \<Longrightarrow> unchanged r r''"
  by (simp add: unchanged_def)

lemma next_block:
  assumes "positioned o1 U r" and "kBlockSize - o1 < 7" and "kBlockSize - o1 \<le> length U"
  shows "\<exists>r'. ReadPhysicalRecord ops res r = ReadPhysicalRecord ops res r'
    \<and> positioned 0 (drop (kBlockSize - o1) U) r' \<and> unchanged r r'"
proof -
  let ?U = "drop (kBlockSize - o1) U"
  have r: "readable (lr_file r)" "ahead (lr_file r) = ?U" "\<not> lr_eof r" "length (lr_buffer r) < kHeaderSize"
    using assms by (auto simp: positioned_def kHeaderSize_def)
  obtain f where f: "sf_Read ops (lr_file r) kBlockSize = Some (Status_OK, take kBlockSize ?U, f)"
    "readable f" "ahead f = drop kBlockSize ?U"
    using Read_works [OF r(1)] r(2) by metis
  let ?r = "r\<lparr>lr_file := f, lr_buffer := take kBlockSize ?U,
      lr_end_of_buffer_offset := lr_end_of_buffer_offset r + of_nat (length (take kBlockSize ?U))\<rparr>"
  let ?r' = "if length (take kBlockSize ?U) < kBlockSize then ?r\<lparr>lr_eof := True\<rparr> else ?r"
  have "ReadPhysicalRecord ops res r = ReadPhysicalRecord ops res ?r'"
    using r(3,4) f(1) by (subst ReadPhysicalRecord.simps) (simp add: Let_def)
  moreover have "positioned 0 ?U ?r'" "unchanged r ?r'"
    using f(2,3) r(3) by (auto simp: positioned_def unchanged_def min_def split: if_splits)
  ultimately show ?thesis by blast
qed

lemma at_end:
  assumes "positioned o1 [] r"
  shows "\<exists>r'. ReadPhysicalRecord ops res r = Some (kEof, res, r') \<and> unchanged r r' \<and> positioned 0 [] r'"
proof (cases "lr_eof r")
  case True
  then show ?thesis
    using assms
    by (subst ReadPhysicalRecord.simps) (simp add: positioned_def unchanged_def kHeaderSize_def kBlockSize_def)
next
  case False
  have r: "readable (lr_file r)" "ahead (lr_file r) = []" "lr_buffer r = []"
    using assms by (auto simp: positioned_def)
  obtain f where f: "sf_Read ops (lr_file r) kBlockSize = Some (Status_OK, [], f)" "readable f" "ahead f = []"
    using Read_works [OF r(1)] r(2) by (metis drop_Nil take_Nil)
  let ?r = "r\<lparr>lr_file := f, lr_buffer := [], lr_eof := True\<rparr>"
  have "ReadPhysicalRecord ops res r = ReadPhysicalRecord ops res ?r"
    using False f(1) r(3) by (subst ReadPhysicalRecord.simps) (simp add: Let_def kHeaderSize_def kBlockSize_def)
  also have "\<dots> = Some (kEof, res, ?r)"
    by (subst ReadPhysicalRecord.simps) (simp add: kHeaderSize_def)
  finally show ?thesis
    using f by (auto simp: positioned_def unchanged_def kBlockSize_def)
qed

lemma at_record:
  assumes "positioned o1 (phys t d @ U) r" and "o1 + 7 + length d \<le> kBlockSize" and "t \<in> {1, 2, 3, 4}"
    and "lr_initial_offset r = 0"
  shows "\<exists>r'. ReadPhysicalRecord ops res r = Some (t, d, r') \<and> unchanged r r'
    \<and> positioned (o1 + 7 + length d) U r'"
proof -
  have len: "length d \<le> 65535" using assms(2) by (simp add: kBlockSize_def)
  let ?crc = "Mask (crc32c 0 (of_nat t # d))"
  let ?rest = "take (kBlockSize - (o1 + 7 + length d)) U"
  have buf: "lr_buffer r = phys t d @ ?rest"
    using assms(1,2) by (simp add: positioned_def add.assoc)
  obtain b0 b1 b2 b3 where le: "le_bytes 4 ?crc = [b0, b1, b2, b3]"
    using length_eq_4 [of "le_bytes 4 ?crc"] by auto
  have buffer: "lr_buffer r = [b0, b1, b2, b3, of_nat (length d), of_nat (length d div 256), of_nat t] @ d @ ?rest"
    using buf le by (simp add: phys_def)
  have crc: "DecodeFixed32 (lr_buffer r) = Some ?crc"
    using buf by (simp add: phys_def)
  have parts: "lr_buffer r ! 4 = of_nat (length d)" "lr_buffer r ! 5 = of_nat (length d div 256)"
    "lr_buffer r ! 6 = of_nat t" "take (1 + length d) (drop 6 (lr_buffer r)) = of_nat t # d"
    "take (length d) (drop kHeaderSize (lr_buffer r)) = d" "length (lr_buffer r) = 7 + length d + length ?rest"
    unfolding buffer by (simp_all add: kHeaderSize_def)
  have drop: "drop (7 + length d) (lr_buffer r) = ?rest"
    unfolding buf by simp
  have "t \<noteq> 0" using assms(3) by auto
  have "ReadPhysicalRecord ops res r = parse_physical res r"
    using buffer by (subst ReadPhysicalRecord.simps) (simp add: kHeaderSize_def)
  also have "\<dots> = Some (t, d, r\<lparr>lr_buffer := ?rest\<rparr>)"
    using crc len assms(4) header_length [OF len] scast_type [OF assms(3)] parts drop \<open>t \<noteq> 0\<close>
    by (simp add: parse_physical_def Let_def kHeaderSize_def kZeroType_def crc_extend_eq remove_prefix_def)
  finally show ?thesis
    using assms(1,2) by (auto simp: positioned_def unchanged_def add.assoc)
qed

text \<open>A record that is ahead is delivered; nothing is reported on the way.\<close>

lemma read_rounds_chain:
  assumes "chain o1 first d bs o2" and "positioned o1 (bs @ U) r" and "lr_initial_offset r = 0"
    and "\<not> lr_resyncing r" and "if first then v = start_vars else rv_in_fragmented_record v"
  shows "\<exists>r'. read_rounds ops v r = Some (Some (if first then d else rv_scratch v @ d), r')
    \<and> unchanged r r' \<and> positioned o2 U r'"
  using assms
proof (induction arbitrary: r v rule: chain.induct)
  case (pad o1 first d bs o2)
  obtain r1 where r1: "ReadPhysicalRecord ops (rv_fragment v) r = ReadPhysicalRecord ops (rv_fragment v) r1"
    "positioned 0 (bs @ U) r1" "unchanged r r1"
    using next_block [OF pad.prems(1) pad.hyps(1), of "rv_fragment v"] by auto
  have "read_rounds ops v r = read_rounds ops v r1"
    by (subst (1 2) read_rounds.simps) (simp add: read_round_def r1(1))
  moreover obtain r' where "read_rounds ops v r1 = Some (Some (if first then d else rv_scratch v @ d), r')"
    "unchanged r1 r'" "positioned o2 U r'"
    using pad.IH [OF r1(2)] r1(3) pad.prems by (auto simp: unchanged_def)
  ultimately show ?case using unchanged_trans [OF r1(3)] by auto
next
  case (last o1 d first)
  let ?t = "if first then kFullType else kLastType"
  have t: "?t \<in> {1, 2, 3, 4}" by (cases first) (simp_all add: log_consts)
  obtain r1 where r1: "ReadPhysicalRecord ops (rv_fragment v) r = Some (?t, d, r1)" "unchanged r r1"
    "positioned (o1 + 7 + length d) U r1"
    using at_record [OF last.prems(1) last.hyps t last.prems(2), of "rv_fragment v"] by blast
  show ?case
    using r1 last.prems
    by (subst read_rounds.simps)
      (auto simp: read_round_def handle_type_def Let_def unchanged_def positioned_def start_vars_def log_consts)
next
  case (more o1 d rest bs o2 first)
  let ?t = "if first then kFirstType else kMiddleType"
  have t: "?t \<in> {1, 2, 3, 4}" by (cases first) (simp_all add: log_consts)
  obtain r1 where r1: "ReadPhysicalRecord ops (rv_fragment v) r = Some (?t, d, r1)" "unchanged r r1"
    "positioned (o1 + 7 + length d) (bs @ U) r1"
    using at_record [OF _ more.hyps(1) t more.prems(2), of "bs @ U" "rv_fragment v"] more.prems(1)
    by (simp only: append_assoc) blast
  have "\<exists>v1. read_round ops v r = Some (Again v1 r1) \<and> rv_in_fragmented_record v1
    \<and> rv_scratch v1 = (if first then d else rv_scratch v @ d)"
    using r1(1,2) more.prems(3,4)
    by (cases first)
      (simp_all add: read_round_def handle_type_def Let_def unchanged_def start_vars_def log_consts)
  then obtain v1 where v1: "read_rounds ops v r = read_rounds ops v1 r1" "rv_in_fragmented_record v1"
    "rv_scratch v1 = (if first then d else rv_scratch v @ d)"
    by (auto simp: read_rounds.simps [of _ v])
  show ?case
    using more.IH [OF r1(3), of v1] v1 r1(2) more.prems unchanged_trans [OF r1(2)]
    by (auto simp: unchanged_def)
qed

lemma ReadRecord_chain:
  assumes "chain o1 True d bs o2" and "positioned o1 (bs @ U) r" and "lr_initial_offset r = 0" and "\<not> lr_resyncing r"
  shows "\<exists>r'. ReadRecord ops r = Some (Some d, r') \<and> unchanged r r' \<and> positioned o2 U r'"
  using read_rounds_chain [OF assms, of start_vars] assms(3) by (simp add: ReadRecord_def start_vars_def)

lemma ReadRecord_end:
  assumes "positioned o1 [] r" and "lr_initial_offset r = 0" and "\<not> lr_resyncing r"
  shows "\<exists>r'. ReadRecord ops r = Some (None, r') \<and> unchanged r r' \<and> positioned 0 [] r'"
proof -
  obtain r1 where "ReadPhysicalRecord ops [] r = Some (kEof, [], r1)" "unchanged r r1" "positioned 0 [] r1"
    using at_end [OF assms(1)] by blast
  then show ?thesis
    using assms(2,3)
    by (simp add: ReadRecord_def, subst read_rounds.simps)
      (auto simp: read_round_def handle_type_def Let_def unchanged_def kEof_def log_consts)
qed

lemma unat_16_bits: "take_bit 16 w = w \<Longrightarrow> unat w \<le> 65535" for w :: u32
proof -
  assume "take_bit 16 w = w"
  then have "unat w = unat w mod 2 ^ 16" using unat_take_bit_mod [of 16 w] by simp
  then show ?thesis using mod_less_divisor [of "2 ^ 16" "unat w"] by simp
qed

text \<open>
  On an arbitrary file: every round that goes on has used up a byte or found the end.
\<close>

definition unread :: "'f Reader \<Rightarrow> nat" where
  "unread r = length (lr_buffer r) + length (ahead (lr_file r)) + (if lr_eof r then 0 else 1)"

lemma report_frame [simp]:
  "readable (lr_file (ReportCorruption r n msg)) = readable (lr_file r)"
  "unread (ReportCorruption r n msg) = unread r"
  "unread (r\<lparr>lr_resyncing := b\<rparr>) = unread r"
  "unread (r\<lparr>lr_last_record_offset := k\<rparr>) = unread r"
  by (simp_all add: ReportCorruption_def ReportDrop_def unread_def split: option.split)

lemma parse_physical_total:
  assumes "readable (lr_file r)" and "kHeaderSize \<le> length (lr_buffer r)"
  shows "\<exists>t d r'. parse_physical res r = Some (t, d, r') \<and> readable (lr_file r') \<and> unread r' < unread r"
proof -
  let ?len = "unat (ucast (lr_buffer r ! 4) AND 0xff OR push_bit 8 (ucast (lr_buffer r ! 5) AND 0xff) :: u32)"
  have "take_bit 16 (ucast (lr_buffer r ! 4) AND 0xff OR push_bit 8 (ucast (lr_buffer r ! 5) AND 0xff) :: u32)
      = ucast (lr_buffer r ! 4) AND 0xff OR push_bit 8 (ucast (lr_buffer r ! 5) AND 0xff)"
    by (rule bit_word_eqI) (auto simp: and_0xff bit_simps)
  then have len: "?len \<le> 65535" by (rule unat_16_bits)
  obtain crc where "DecodeFixed32 (lr_buffer r) = Some crc"
    using assms(2) by (auto simp: DecodeFixed32_def kLittleEndian_def kHeaderSize_def)
  moreover have "crc_extend 0 (take (1 + ?len) (drop 6 (lr_buffer r)))
      = Some (crc32c 0 (take (1 + ?len) (drop 6 (lr_buffer r))))"
    using len by (intro crc_extend_eq) simp
  ultimately show ?thesis
    using assms
    by (auto simp: parse_physical_def Let_def remove_prefix_def) (auto simp: unread_def kHeaderSize_def)
qed

lemma ReadPhysicalRecord_total:
  assumes "readable (lr_file r)"
  shows "\<exists>t d r'. ReadPhysicalRecord ops res r = Some (t, d, r') \<and> readable (lr_file r')
    \<and> unread r' \<le> unread r \<and> (t \<noteq> kEof \<longrightarrow> unread r' < unread r)"
proof (cases "length (lr_buffer r) < kHeaderSize")
  case False
  then show ?thesis
    using parse_physical_total [OF assms, of res] by (subst ReadPhysicalRecord.simps) force
next
  case short: True
  show ?thesis
  proof (cases "lr_eof r")
    case True
    then show ?thesis
      using short assms by (subst ReadPhysicalRecord.simps) (simp add: unread_def)
  next
    case False
    obtain f where f: "sf_Read ops (lr_file r) kBlockSize = Some (Status_OK, take kBlockSize (ahead (lr_file r)), f)"
      "readable f" "ahead f = drop kBlockSize (ahead (lr_file r))"
      using Read_works [OF assms] by blast
    let ?buf = "take kBlockSize (ahead (lr_file r))"
    let ?r = "r\<lparr>lr_file := f, lr_buffer := ?buf,
        lr_end_of_buffer_offset := lr_end_of_buffer_offset r + of_nat (length ?buf)\<rparr>"
    let ?r' = "if length ?buf < kBlockSize then ?r\<lparr>lr_eof := True\<rparr> else ?r"
    have step: "ReadPhysicalRecord ops res r = ReadPhysicalRecord ops res ?r'"
      using short False f(1) by (subst ReadPhysicalRecord.simps) (simp add: Let_def)
    have r': "readable (lr_file ?r')" "unread ?r' \<le> unread r"
      using f False by (auto simp: unread_def)
    show ?thesis
    proof (cases "length (lr_buffer ?r') < kHeaderSize")
      case True
      then have "lr_eof ?r'" by (auto simp: kHeaderSize_def kBlockSize_def split: if_splits)
      then have "ReadPhysicalRecord ops res ?r' = Some (kEof, res, ?r'\<lparr>lr_buffer := []\<rparr>)"
        using True by (subst ReadPhysicalRecord.simps) simp
      then show ?thesis using step r' by (simp add: unread_def)
    next
      case False
      then have "ReadPhysicalRecord ops res ?r' = parse_physical res ?r'"
        by (subst ReadPhysicalRecord.simps) simp
      then show ?thesis
        using step r'(2) parse_physical_total [OF r'(1), of res] False by fastforce
    qed
  qed
qed

lemma handle_type_total:
  "(\<exists>res r'. handle_type t off v r = Done res r' \<and> readable (lr_file r') = readable (lr_file r)
      \<and> unread r' = unread r \<and> (t = kEof \<longrightarrow> res = None))
   \<or> (\<exists>v' r'. handle_type t off v r = Again v' r' \<and> readable (lr_file r') = readable (lr_file r)
      \<and> unread r' = unread r \<and> t \<noteq> kEof)"
  by (auto simp: handle_type_def Let_def kEof_def kBadRecord_def log_consts)

lemma read_rounds_total:
  assumes "readable (lr_file r)"
  shows "\<exists>res r'. read_rounds ops v r = Some (res, r') \<and> readable (lr_file r')
    \<and> (res \<noteq> None \<longrightarrow> unread r' < unread r)"
  using assms
proof (induction "unread r" arbitrary: r v rule: less_induct)
  case less
  obtain t d r1 where p: "ReadPhysicalRecord ops (rv_fragment v) r = Some (t, d, r1)" "readable (lr_file r1)"
    "unread r1 \<le> unread r" "t \<noteq> kEof \<longrightarrow> unread r1 < unread r"
    using ReadPhysicalRecord_total [OF less.prems] by blast
  have "(\<exists>res r'. read_round ops v r = Some (Done res r') \<and> readable (lr_file r') \<and> (res \<noteq> None \<longrightarrow> unread r' < unread r))
      \<or> (\<exists>v' r'. read_round ops v r = Some (Again v' r') \<and> readable (lr_file r') \<and> unread r' < unread r)"
  proof -
    define off where "off = lr_end_of_buffer_offset r1 - buffer_size r1 - of_nat kHeaderSize - of_nat (length d)"
    define r2 where "r2 = (if lr_resyncing r1 then r1\<lparr>lr_resyncing := False\<rparr> else r1)"
    have r2: "readable (lr_file r2)" "unread r2 = unread r1" using p(2) by (simp_all add: r2_def)
    have "read_round ops v r = Some (Again (v\<lparr>rv_fragment := d\<rparr>) (if t = kMiddleType then r1 else r2)) \<and> t \<noteq> kEof
        \<or> read_round ops v r = Some (handle_type t off (v\<lparr>rv_fragment := d\<rparr>) r2)"
      using p(1) by (simp add: read_round_def Let_def off_def r2_def kEof_def log_consts)
    then show ?thesis
    proof
      assume "read_round ops v r = Some (Again (v\<lparr>rv_fragment := d\<rparr>) (if t = kMiddleType then r1 else r2)) \<and> t \<noteq> kEof"
      then show ?thesis using p(2,4) r2 by auto
    next
      assume "read_round ops v r = Some (handle_type t off (v\<lparr>rv_fragment := d\<rparr>) r2)"
      then show ?thesis
        using handle_type_total [of t off "v\<lparr>rv_fragment := d\<rparr>" r2] r2 p(3,4) by auto
    qed
  qed
  then show ?case
  proof (elim disjE exE conjE)
    fix res r' assume "read_round ops v r = Some (Done res r')" "readable (lr_file r')" "res \<noteq> None \<longrightarrow> unread r' < unread r"
    then show ?thesis by (simp add: read_rounds.simps [of _ v])
  next
    fix v' r' assume "read_round ops v r = Some (Again v' r')" "readable (lr_file r')" "unread r' < unread r"
    then show ?thesis using less.hyps [of r' v'] by (fastforce simp: read_rounds.simps [of _ v])
  qed
qed

lemma ReadRecord_total:
  assumes "readable (lr_file r)"
  shows "\<exists>res r'. ReadRecord ops r = Some (res, r') \<and> readable (lr_file r')"
proof -
  have "\<exists>b. SkipToInitialBlock ops r = (if b > 0 then do {
           (skip_status, f) \<leftarrow> sf_Skip ops (lr_file (r\<lparr>lr_end_of_buffer_offset := b\<rparr>)) b;
           if \<not> ok skip_status
           then Some (False, ReportDrop (r\<lparr>lr_end_of_buffer_offset := b, lr_file := f\<rparr>) b skip_status)
           else Some (True, r\<lparr>lr_end_of_buffer_offset := b, lr_file := f\<rparr>)
         }
         else Some (True, r\<lparr>lr_end_of_buffer_offset := b\<rparr>))"
    unfolding SkipToInitialBlock_def Let_def by (rule exI) (rule refl)
  then obtain b where skip: "SkipToInitialBlock ops r = (if b > 0 then do {
           (skip_status, f) \<leftarrow> sf_Skip ops (lr_file (r\<lparr>lr_end_of_buffer_offset := b\<rparr>)) b;
           if \<not> ok skip_status
           then Some (False, ReportDrop (r\<lparr>lr_end_of_buffer_offset := b, lr_file := f\<rparr>) b skip_status)
           else Some (True, r\<lparr>lr_end_of_buffer_offset := b, lr_file := f\<rparr>)
         }
         else Some (True, r\<lparr>lr_end_of_buffer_offset := b\<rparr>))"
    by blast
  have "\<exists>r1. SkipToInitialBlock ops r = Some (True, r1) \<and> readable (lr_file r1)"
    unfolding skip using Skip_works [OF assms, of b] assms by auto
  then obtain r1 where "(if lr_last_record_offset r < lr_initial_offset r then SkipToInitialBlock ops r
      else Some (True, r)) = Some (True, r1)" "readable (lr_file r1)"
    using assms that by (cases "lr_last_record_offset r < lr_initial_offset r") auto
  then show ?thesis
    using read_rounds_total [of r1 start_vars] by (auto simp: ReadRecord_def start_vars_def)
qed

end

section \<open>A log is read back\<close>

text \<open>Adding records one after the other, and reading a number of times.\<close>

primrec AddRecords :: "'f WritableFile \<Rightarrow> byte list list \<Rightarrow> 'f Writer \<Rightarrow> 'f Writer option" where
  "AddRecords ops [] w = Some w"
| "AddRecords ops (d # ds) w =
     do { (s, w) \<leftarrow> AddRecord ops w d; if ok s then AddRecords ops ds w else None }"

primrec ReadRecords :: "'f SequentialFile \<Rightarrow> nat \<Rightarrow> 'f Reader \<Rightarrow> (byte list option list \<times> 'f Reader) option" where
  "ReadRecords ops 0 r = Some ([], r)"
| "ReadRecords ops (Suc n) r =
     do { (d, r) \<leftarrow> ReadRecord ops r; (ds, r) \<leftarrow> ReadRecords ops n r; Some (d # ds, r) }"

inductive chains :: "nat \<Rightarrow> byte list list \<Rightarrow> byte list \<Rightarrow> nat \<Rightarrow> bool" where
  none: "o1 \<le> kBlockSize \<Longrightarrow> chains o1 [] [] o1"
| some: "chain o1 True d bs o2 \<Longrightarrow> chains o2 ds cs o3 \<Longrightarrow> chains o1 (d # ds) (bs @ cs) o3"

lemma chains_append: "chains o1 ds bs o2 \<Longrightarrow> chains o2 es cs o3 \<Longrightarrow> chains o1 (ds @ es) (bs @ cs) o3"
  by (induction rule: chains.induct) (auto intro: chains.intros)

lemma chains_from_block_end: "chains 0 ds bs o2 \<Longrightarrow> \<exists>o3. chains kBlockSize ds bs o3"
proof (induction "0 :: nat" ds bs o2 rule: chains.induct)
  case none
  then show ?case using chains.none [of kBlockSize] by auto
next
  case (some d bs o2 ds cs o3)
  then have "chain kBlockSize True d (replicate (kBlockSize - kBlockSize) 0 @ bs) o2"
    by (intro chain.pad) auto
  then show ?case using some(2) chains.some by fastforce
qed

lemma chain_length: "chain o1 first d bs o2 \<Longrightarrow> (o1 + length bs) mod kBlockSize = o2 mod kBlockSize"
proof (induction rule: chain.induct)
  case (pad o1 first d bs o2)
  then have "o1 + length (replicate (kBlockSize - o1) (0 :: byte) @ bs) = kBlockSize + length bs" by simp
  then show ?case using pad by simp
qed (simp_all add: add.assoc)

lemma chains_length: "chains o1 ds bs o2 \<Longrightarrow> (o1 + length bs) mod kBlockSize = o2 mod kBlockSize \<and> o2 \<le> kBlockSize"
proof (induction rule: chains.induct)
  case (some o1 d bs o2 ds cs o3)
  have "(o1 + length (bs @ cs)) mod kBlockSize = ((o1 + length bs) mod kBlockSize + length cs) mod kBlockSize"
    by (simp add: add.assoc mod_add_left_eq)
  also have "\<dots> = (o2 + length cs) mod kBlockSize"
    by (simp add: chain_length [OF some.hyps(1)] mod_add_left_eq)
  finally show ?case using some.IH by simp
qed simp

context writable_file begin

lemma AddRecords_works:
  assumes "works (lw_dest w)" and "lw_block_offset w \<le> kBlockSize" and "lw_type_crc w = InitTypeCrc"
  shows "\<exists>w' bs. AddRecords ops ds w = Some w' \<and> works (lw_dest w')
    \<and> written (lw_dest w') = written (lw_dest w) @ bs
    \<and> chains (lw_block_offset w) ds bs (lw_block_offset w')"
  using assms
proof (induction ds arbitrary: w)
  case Nil
  then show ?case by (auto intro: chains.none)
next
  case (Cons d ds)
  obtain w1 bs where w1: "AddRecord ops w d = Some (Status_OK, w1)" "works (lw_dest w1)"
    "written (lw_dest w1) = written (lw_dest w) @ bs" "chain (lw_block_offset w) True d bs (lw_block_offset w1)"
    "lw_type_crc w1 = InitTypeCrc"
    using AddRecord_loop_works [OF refl Cons.prems, of d True] by (auto simp: AddRecord_def)
  obtain w2 cs where "AddRecords ops ds w1 = Some w2" "works (lw_dest w2)"
    "written (lw_dest w2) = written (lw_dest w1) @ cs" "chains (lw_block_offset w1) ds cs (lw_block_offset w2)"
    using Cons.IH [OF w1(2) chain_offset [OF w1(4)] w1(5)] by blast
  then show ?case using w1 chains.some [OF w1(4)] by auto
qed

lemma write_reopen_write:
  assumes "works f" and "written f = []"
  shows "\<exists>w1. AddRecords ops rs1 (Writer_new f) = Some w1
    \<and> (length (written (lw_dest w1)) < 18446744073709551616 \<longrightarrow>
        (\<exists>w2 o3. AddRecords ops rs2 (Writer_append (lw_dest w1) (of_nat (length (written (lw_dest w1))))) = Some w2
          \<and> chains kBlockSize (rs1 @ rs2) (written (lw_dest w2)) o3))"
proof -
  obtain w1 bs where w1: "AddRecords ops rs1 (Writer_new f) = Some w1" "works (lw_dest w1)"
    "written (lw_dest w1) = bs" "chains 0 rs1 bs (lw_block_offset w1)"
    using AddRecords_works [of "Writer_new f" rs1] assms by (auto simp: Writer_new_def)
  have "\<exists>w2 o3. AddRecords ops rs2 (Writer_append (lw_dest w1) (of_nat (length bs))) = Some w2
      \<and> chains kBlockSize (rs1 @ rs2) (written (lw_dest w2)) o3" if "length bs < 18446744073709551616"
  proof -
    let ?w = "Writer_append (lw_dest w1) (of_nat (length bs))"
    have w: "works (lw_dest ?w)" "lw_block_offset ?w = length bs mod kBlockSize" "lw_type_crc ?w = InitTypeCrc"
      "written (lw_dest ?w) = bs"
      using w1 that by (simp_all add: Writer_append_def)
    have "lw_block_offset ?w \<le> kBlockSize" unfolding w(2) by (simp add: kBlockSize_def order_less_imp_le)
    with w obtain w2 cs where w2: "AddRecords ops rs2 ?w = Some w2"
      "written (lw_dest w2) = bs @ cs" "chains (length bs mod kBlockSize) rs2 cs (lw_block_offset w2)"
      using AddRecords_works [of ?w rs2] by auto
    have o2: "length bs mod kBlockSize = lw_block_offset w1 mod kBlockSize" "lw_block_offset w1 \<le> kBlockSize"
      using chains_length [OF w1(4)] by auto
    obtain o3 where "chains (lw_block_offset w1) rs2 cs o3"
    proof (cases "lw_block_offset w1 = kBlockSize")
      case True
      then show ?thesis using w2(3) o2(1) chains_from_block_end [of rs2 cs] that by auto
    next
      case False
      then show ?thesis using w2(3) o2 that by simp
    qed
    then have "chains 0 (rs1 @ rs2) (bs @ cs) o3" using chains_append [OF w1(4)] by blast
    then show ?thesis using w2(1,2) chains_from_block_end by fastforce
  qed
  then show ?thesis using w1 by blast
qed

end

context sequential_file begin

lemma ReadRecords_chains:
  assumes "chains o1 ds bs o2" and "positioned o1 bs r" and "lr_initial_offset r = 0" and "\<not> lr_resyncing r"
  shows "\<exists>r'. ReadRecords ops (Suc (length ds)) r = Some (map Some ds @ [None], r') \<and> unchanged r r'"
  using assms
proof (induction arbitrary: r rule: chains.induct)
  case (none o1)
  then show ?case using ReadRecord_end [of o1 r] by auto
next
  case (some o1 d bs o2 ds cs o3)
  obtain r1 where r1: "ReadRecord ops r = Some (Some d, r1)" "unchanged r r1" "positioned o2 cs r1"
    using ReadRecord_chain [OF some.hyps(1) some.prems(1)] some.prems by blast
  obtain r' where "ReadRecords ops (Suc (length ds)) r1 = Some (map Some ds @ [None], r')" "unchanged r1 r'"
    using some.IH [OF r1(3)] r1(2) some.prems by (auto simp: unchanged_def)
  then show ?case
    using r1 unchanged_trans [OF r1(2)] by (simp del: ReadRecords.simps add: ReadRecords.simps(2) [of _ "Suc (length ds)"])
qed

lemma ReadRecords_file:
  assumes "chains kBlockSize ds (ahead g) o2" and "readable g"
  shows "\<exists>r'. ReadRecords ops (Suc (length ds)) (Reader_new g True checksum 0) = Some (map Some ds @ [None], r')
    \<and> lr_reporter r' = Some []"
  using ReadRecords_chains [OF assms(1), of "Reader_new g True checksum 0"] assms(2)
  by (auto simp: positioned_def Reader_new_def unchanged_def)

end

text \<open>
  C33. A log is read back: the records added to an empty file by a writer, and after it has been
  reopened at its length by a second one, come back from a reader of the bytes in the file, in
  order, unchanged, then the end of the input, with and without checking of checksums, and no
  corruption is reported. The files are any that do what \<^verbatim>\<open>leveldb/env.h\<close> promises.
\<close>

theorem log_roundtrip:
  assumes "writable_file wops written works" and "sequential_file sops ahead readable"
    and "works f" and "written f = []"
  shows "\<exists>w1. AddRecords wops rs1 (Writer_new f) = Some w1
    \<and> (length (written (lw_dest w1)) < 18446744073709551616 \<longrightarrow>
        (\<exists>w2. AddRecords wops rs2 (Writer_append (lw_dest w1) (of_nat (length (written (lw_dest w1))))) = Some w2
          \<and> (\<forall>g. readable g \<and> ahead g = written (lw_dest w2) \<longrightarrow>
              (\<exists>r. ReadRecords sops (Suc (length (rs1 @ rs2))) (Reader_new g True checksum 0)
                  = Some (map Some (rs1 @ rs2) @ [None], r) \<and> lr_reporter r = Some []))))"
  using writable_file.write_reopen_write [OF assms(1,3,4), of rs1 rs2]
    sequential_file.ReadRecords_file [OF assms(2), where checksum = checksum]
  by metis

text \<open>A system with one file, which is its state, for the instances.\<close>

definition one_file :: "byte list posix_os" where
  "one_file = \<lparr>os_write = (\<lambda>w fd d. (int (length d), 0, w @ d)),
     os_read = (\<lambda>w fd n. (int (length (take n w)), take n w, 0, drop n w)),
     os_pread = (\<lambda>w fd n k. (int (length (take n (drop (unat k) w))), take n (drop (unat k) w), 0, w)),
     os_lseek_cur = (\<lambda>w fd k. (0, 0, drop (unat k) w)), os_open_rdonly = (\<lambda>w name. (3, 0, w)),
     os_close = (\<lambda>w fd. (0, 0, w)), os_fullfsync = (\<lambda>w fd. (0, 0, w)), os_fsync = (\<lambda>w fd. (0, 0, w)),
     os_strerror = (\<lambda>e. []), os_written = (\<lambda>w fd. w), os_ahead = (\<lambda>w fd. w)\<rparr>"

lemma one_file_works: "write_works one_file" "read_works one_file"
  by (auto simp: write_works_def read_works_def one_file_def)

theorem log_roundtrip_witness:
  "\<exists>w1. AddRecords PosixWritableFile_ops [[1, 2, 3]] (Writer_new (PosixWritableFile_new one_file [] (cstr ''000003.log'') 7))
     = Some w1"
proof -
  have "posix_writable (PosixWritableFile_new one_file [] (cstr ''000003.log'') 7)"
    "posix_written (PosixWritableFile_new one_file [] (cstr ''000003.log'') 7) = []"
    by (simp_all add: posix_writable_def posix_written_def PosixWritableFile_new_def one_file_works)
      (simp add: one_file_def)
  from log_roundtrip [where wops = PosixWritableFile_ops and written = posix_written and works = posix_writable
      and sops = PosixSequentialFile_ops and ahead = posix_ahead and readable = posix_readable,
      OF posix_out.writable_file_axioms posix_in.sequential_file_axioms this]
  show ?thesis by blast
qed



end
