(* ===== verification/LDB_Table_System.thy ===== *)
theory LDB_Table_System
  imports LDB_Table_Props LDB_LRU_Props LDB_Log_Props
begin

text \<open>
  Tables of \<^verbatim>\<open>table/table_builder.cc\<close> and \<^verbatim>\<open>table/table.cc\<close> with the parts they work with:
  the files of \<^verbatim>\<open>util/env_posix.cc\<close> and the LRU cache of \<^verbatim>\<open>util/cache.cc\<close>. What is written
  with the buffered file is read through the memory-mapped one, with or without a cache.
\<close>

section \<open>The parts together\<close>

interpretation posix_table: table_env PosixMmapReadableFile_ops pm_base "\<lambda>f. unat (pm_length f) = length (pm_base f)"
  ShardedLRUCache_ops sc_works sc_held sc_entry_of sc_known "2 ^ 30" charge_ok
  by (intro table_env.intro posix_mmap.random_access_file_axioms lru.cache_axioms)

text \<open>The two levels of the iterator of a table, for blocks that a table may have, or none.\<close>

definition checked :: "Options \<Rightarrow> entry list list \<Rightarrow> Options \<times> entry list list" where
  "checked o1 bs = (if blocks_ok (\<lambda>_. True) bytes_less o1 bs then (o1, bs) else (Options_new, []))"

lemma length_ent_le: "length (ent iv es i) \<le> 15 + length (fst (es ! i)) + length (snd (es ! i))"
  using length_varint_u32 [of "of_nat (share iv es i)"] length_varint_u32 [of "of_nat (length (fst (es ! i)) - share iv es i)"]
    length_varint_u32 [of "of_nat (length (snd (es ! i)))"]
  by (simp add: ent_def Add_bytes_def Let_def PutVarint32_def)

lemma length_block_contents_le:
  assumes "build_ok o1"
  shows "length (block_contents o1 es) \<le> sum_list (map (\<lambda>e. 19 + length (fst e) + length (snd e)) es) + 8"
proof -
  let ?iv = "interval o1"
  have "off ?iv es n \<le> sum_list (map (\<lambda>e. 15 + length (fst e) + length (snd e)) (take n es))" if "n \<le> length es" for n
    using that
  proof (induction n)
    case 0
    then show ?case by (simp add: off_def ents_def)
  next
    case (Suc n)
    then show ?case using length_ent_le [of ?iv es n] by (simp add: off_Suc take_Suc_conv_app_nth)
  qed
  from this [of "length es"] have "off ?iv es (length es) \<le> sum_list (map (\<lambda>e. 15 + length (fst e) + length (snd e)) es)" by simp
  moreover have "num_points ?iv es \<le> length es + 1" unfolding num_points_def by (meson add_le_mono1 diff_le_self div_le_dividend le_trans)
  moreover have "sum_list (map (\<lambda>e. 19 + length (fst e) + length (snd e)) es) = sum_list (map (\<lambda>e. 15 + length (fst e) + length (snd e)) es) + 4 * length es"
    by (induction es) auto
  ultimately show ?thesis unfolding block_contents_bytes [OF assms] length_block by simp
qed

lemma length_index_contents_le:
  assumes "build_ok o1"
  shows "length (index_contents o1 bs) \<le> sum_list (map (\<lambda>k. 39 + length (index_key o1 bs k)) [0..<length bs]) + 8"
proof -
  have "sum_list (map (\<lambda>e. 19 + length (fst e) + length (snd e)) (index_entries o1 bs))
      \<le> sum_list (map (\<lambda>k. 39 + length (index_key o1 bs k)) [0..<length bs])"
    unfolding index_entries_def map_map comp_def fst_conv snd_conv
    by (intro sum_list_mono) (use length_handle_bytes in \<open>simp add: add.commute\<close>)
  then show ?thesis
    using length_block_contents_le [OF build_ok_index [OF assms], of "index_entries o1 bs"] unfolding index_contents_def by linarith
qed

lemma checked_ok: "blocks_ok (\<lambda>_. True) bytes_less (fst (checked o1 bs)) (snd (checked o1 bs))"
proof -
  have ok: "build_ok Options_new" by (simp add: build_ok_def Options_new_def)
  have "length (meta_contents Options_new []) \<le> 8" "length (index_contents Options_new []) \<le> 8"
    using length_block_contents_le [OF ok, of "[]"] length_index_contents_le [OF ok, of "[]"]
    by (simp_all add: meta_contents_def meta_entries_def Options_new_def)
  then have "length (blocks_bytes Options_new []) < 2 ^ 32"
    by (simp add: blocks_bytes_def data_bytes_def filter_part_def Options_new_def)
  then have "blocks_ok (\<lambda>_. True) bytes_less Options_new []"
    using ok bytewise.comparator_axioms by (simp add: blocks_ok_def sorted_entries_def Options_new_def)
  then show ?thesis by (simp add: checked_def)
qed

interpretation table_levels: two_level "opt_comparator (fst (checked o1 bs))" "\<lambda>_. True" bytes_less
  block_iter_ops "index_entries (fst (checked o1 bs)) (snd (checked o1 bs))"
  "block_stands (\<lambda>_. True) bytes_less (opt_comparator (fst (checked o1 bs))) 1 (index_entries (fst (checked o1 bs)) (snd (checked o1 bs)))"
  data_iter_ops "snd (checked o1 bs)"
  "\<lambda>(k, l). data_stands (\<lambda>_. True) bytes_less (opt_comparator (fst (checked o1 bs))) (interval (fst (checked o1 bs)))
     (snd (checked o1 bs) ! k) [l]"
  "BlockReader PosixMmapReadableFile_ops ShardedLRUCache_ops" "data_iter_delete ShardedLRUCache_ops"
  "posix_table.table_ok (fst (checked o1 bs)) (snd (checked o1 bs)) H" options
  for o1 bs H options
  by (rule posix_table.table_two_level [OF checked_ok])

section \<open>Walking over an iterator\<close>

fun scan :: "'i Iterator \<Rightarrow> nat \<Rightarrow> 'i \<Rightarrow> entry list option" where
  "scan ops 0 it = None"
| "scan ops (Suc n) it =
     (if i_Valid ops it then do {
        k \<leftarrow> i_key ops it;
        v \<leftarrow> i_value ops it;
        it \<leftarrow> i_Next ops it;
        es \<leftarrow> scan ops n it;
        Some ((k, v) # es)
      }
      else if ok (i_status ops it) then Some [] else None)"

definition scan_all :: "'i Iterator \<Rightarrow> nat \<Rightarrow> 'i \<Rightarrow> entry list option" where
  "scan_all ops n it = do { it \<leftarrow> i_SeekToFirst ops it; scan ops n it }"


context iterator begin

lemma scan_stands:
  assumes "stands it p" and "length es - p < n"
  shows "scan ops n it = Some (drop p es)"
  using assms
proof (induction n arbitrary: it p)
  case (Suc n)
  show ?case
  proof (cases "p < length es")
    case True
    obtain it' where it': "i_Next ops it = Some it'" "stands it' (Suc p)" using Next_stands [OF Suc.prems(1) True] by blast
    have "scan ops n it' = Some (drop (Suc p) es)" using Suc.IH [OF it'(2)] Suc.prems(2) True by linarith
    then show ?thesis
      using True it'(1) Valid_iff [OF Suc.prems(1)] key_eq [OF Suc.prems(1) True] value_eq [OF Suc.prems(1) True] Cons_nth_drop_Suc [OF True]
      by simp
  next
    case False
    then show ?thesis using Valid_iff [OF Suc.prems(1)] status_ok [OF Suc.prems(1)] by simp
  qed
qed simp

lemma scan_all_stands: "stands it p \<Longrightarrow> length es < n \<Longrightarrow> scan_all ops n it = Some es"
  using SeekToFirst_stands [of it p] scan_stands [of _ 0 n] by (auto simp: scan_all_def)

end

section \<open>Small instances\<close>

lemma small_table: "length (table_bytes Options_new [([1], [7])]) < 2 ^ 32"
proof -
  let ?es = "[([1], [7])] :: entry list"
  have ok: "build_ok Options_new" by (simp add: build_ok_def Options_new_def)
  have cut: "cut Options_new [] ?es = [?es]" by simp
  have key: "index_key Options_new [?es] 0 = [2]" by (simp add: index_key_def Options_new_def BytewiseComparator_def) code_simp
  have "length (meta_contents Options_new [?es]) \<le> 8" "length (index_contents Options_new [?es]) \<le> 48"
    "length (block_contents Options_new ?es) \<le> 29"
    using length_block_contents_le [OF ok, of "[]"] length_index_contents_le [OF ok, of "[?es]"] length_block_contents_le [OF ok, of ?es]
    by (simp_all add: meta_contents_def meta_entries_def key) (simp add: Options_new_def)
  then show ?thesis
    unfolding table_bytes_def cut by (simp add: blocks_bytes_def data_bytes_def filter_part_def Options_new_def)
qed

lemma one_file_ready:
  "posix_writable (PosixWritableFile_new one_file [] name 7)" "posix_written (PosixWritableFile_new one_file [] name 7) = []"
  by (simp_all add: posix_writable_def posix_written_def PosixWritableFile_new_def one_file_works) (simp add: one_file_def)

definition mapped :: "byte list \<Rightarrow> byte list PosixMmapReadableFile" where
  "mapped bytes = \<lparr>pm_base = bytes, pm_length = of_nat (length bytes), pm_filename = [], pm_os = one_file\<rparr>"

section \<open>Properties\<close>

text \<open>
  C22. Building a table: for sorted entries the builder writes the blocks, the filter block,
  the metaindex block, the index block and the footer of the format, whatever the block size,
  the restart interval, the comparator and the filter policy are, and counts the entries.
\<close>

theorem table_builder_writes:
  assumes "comparator (opt_comparator o1) key_ok lt" and "build_ok o1" and "sorted_entries key_ok lt es"
    and "length (table_bytes o1 es) < 2 ^ 32" and "posix_writable f0"
  shows "\<exists>r. build_table PosixWritableFile_ops o1 f0 es = Some (Status_OK, r)
    \<and> posix_written (tb_file r) = posix_written f0 @ table_bytes o1 es
    \<and> TableBuilder_FileSize r = of_nat (length (table_bytes o1 es)) \<and> TableBuilder_NumEntries r = of_nat (length es)"
  using writable_file.build_table_works [OF posix_out.writable_file_axioms assms] by (auto simp: TableBuilder_FileSize_def TableBuilder_NumEntries_def)

theorem table_builder_writes_witness:
  "\<exists>r. build_table PosixWritableFile_ops Options_new (PosixWritableFile_new one_file [] [] 7) [([1], [7])] = Some (Status_OK, r)
    \<and> posix_written (tb_file r) = table_bytes Options_new [([1], [7])] \<and> TableBuilder_NumEntries r = 1"
proof -
  have "sorted_entries (\<lambda>_. True) bytes_less [([1 :: byte], [7 :: byte])]" by (simp add: sorted_entries_def)
  from table_builder_writes [OF _ _ this small_table] one_file_ready [of "[]"]
  show ?thesis using bytewise.comparator_axioms by (force simp: build_ok_def Options_new_def)
qed

text \<open>What is asked of the block cache: none, or a new one.\<close>

definition new_cache :: "'v ShardedLRUCache option \<Rightarrow> bool" where
  "new_cache cc \<longleftrightarrow> (\<forall>c. cc = Some c \<longrightarrow> (\<exists>capacity. unat capacity \<le> 2 ^ 34 \<and> c = NewLRUCache capacity))"

lemma new_cache_fresh:
  assumes "new_cache cc"
  shows "posix_table.cache_fresh {#} cc"
  unfolding posix_table.cache_fresh_def
proof (intro allI impI)
  fix c assume "cc = Some c"
  then obtain capacity where c: "unat capacity \<le> 2 ^ 34" "c = NewLRUCache capacity" using assms by (auto simp: new_cache_def)
  have "sc_known c = {}"
    by (auto simp: c(2) sc_known_def lru_known_def NewLRUCache_def ShardedLRUCache_new_def LRUCache_SetCapacity_def LRUCache_new_def Let_def)
  moreover have "charge_ok n" if "0 < n" "n < 2 ^ 32" for n :: size_t
    using that by (simp add: charge_ok_def word_less_nat_alt)
  ultimately show "sc_works c \<and> sc_held c = {#} \<and> size ({#} :: handle multiset) + 2 \<le> 2 ^ 30 \<and> (\<forall>n. 0 < n \<and> n < 2 ^ 32 \<longrightarrow> charge_ok n)
      \<and> (\<forall>i c' (n :: u64) v. ca_NewId ShardedLRUCache_ops c = Some (i, c') \<longrightarrow> (le_bytes 8 i @ le_bytes 8 n, v) \<notin> sc_known c)"
    using NewLRUCache_works [OF c(1)] c(2) by simp
qed

lemma table_opens:
  assumes "comparator (opt_comparator o1) key_ok lt" and "build_ok o1" and "sorted_entries key_ok lt es"
    and "pm_base f = table_bytes o1 es" and "unat (pm_length f) = length (pm_base f)" and "length (table_bytes o1 es) < 2 ^ 32"
    and "new_cache cc"
  shows "\<exists>t. Table_Open PosixMmapReadableFile_ops ShardedLRUCache_ops o1 cc f (of_nat (length (pm_base f))) = Some (Status_OK, Inr t)
    \<and> posix_table.table_ok o1 (cut o1 [] es) {#} {#} t"
  using posix_table.Table_Open_ok [OF blocks_ok_cut(1) [OF assms(1-3,6)], of f o1 "{#}" cc] new_cache_fresh [OF assms(7)] assms(4,5)
  by (simp add: table_bytes_def)

text \<open>
  C20. Reading a table: a table that was built from sorted entries is opened, and the iterator
  of its reader keeps the contract of iterators over exactly these entries in their order
  (first, last, next, previous, seek), across its data blocks; walking from the first entry
  to the end gives the entries back. It holds with a block cache and without one, and deleting
  the iterator gives every handle of the cache back.
\<close>

theorem table_roundtrip:
  assumes "comparator (opt_comparator o1) key_ok lt" and "build_ok o1" and "sorted_entries key_ok lt es"
    and "length (table_bytes o1 es) < 2 ^ 32" and "posix_writable f0" and "posix_written f0 = []"
    and "build_table PosixWritableFile_ops o1 f0 es = Some (s, r)"
    and "pm_base f = posix_written (tb_file r)" and "unat (pm_length f) = length (pm_base f)" and "new_cache cc"
  shows "\<exists>t it stands. Table_Open PosixMmapReadableFile_ops ShardedLRUCache_ops o1 cc f (TableBuilder_FileSize r) = Some (Status_OK, Inr t)
    \<and> Table_NewIterator PosixMmapReadableFile_ops ShardedLRUCache_ops t options = Some it
    \<and> stands it (length es) \<and> iterator table_iter_ops es stands key_ok lt
    \<and> scan_all table_iter_ops (length es + 1) it = Some es
    \<and> (\<forall>it p. stands it p \<longrightarrow> (\<exists>t'. TwoLevel_delete it = Some t' \<and> (\<forall>c. tab_block_cache t' = Some c \<longrightarrow> sc_works c \<and> sc_held c = {#})))"
proof -
  note b = writable_file.build_table_works [OF posix_out.writable_file_axioms assms(1-5)]
  have f: "pm_base f = table_bytes o1 es" "TableBuilder_FileSize r = of_nat (length (pm_base f))"
    using b assms(6-8) by (auto simp: TableBuilder_FileSize_def)
  obtain t where t: "Table_Open PosixMmapReadableFile_ops ShardedLRUCache_ops o1 cc f (of_nat (length (pm_base f))) = Some (Status_OK, Inr t)"
    "posix_table.table_ok o1 (cut o1 [] es) {#} {#} t"
    using table_opens [OF assms(1-3) f(1) assms(9,4,10)] by blast
  note bs = blocks_ok_cut [OF assms(1-4)]
  from posix_table.Table_NewIterator_stands [OF bs(1) t(2), of options, unfolded bs(2)]
  obtain it stands where it: "Table_NewIterator PosixMmapReadableFile_ops ShardedLRUCache_ops t options = Some it"
    "stands it (length es)" "iterator table_iter_ops es stands key_ok lt"
    "\<forall>it p. stands it p \<longrightarrow> (\<exists>t'. TwoLevel_delete it = Some t' \<and> posix_table.table_ok o1 (cut o1 [] es) {#} {#} t')"
    by (elim exE conjE) (rule that)
  have "\<forall>it p. stands it p \<longrightarrow> (\<exists>t'. TwoLevel_delete it = Some t' \<and> (\<forall>c. tab_block_cache t' = Some c \<longrightarrow> sc_works c \<and> sc_held c = {#}))"
  proof (intro allI impI)
    fix it p assume "stands it p"
    then obtain t' where t': "TwoLevel_delete it = Some t'" "posix_table.table_ok o1 (cut o1 [] es) {#} {#} t'" using it(4) by blast
    then show "\<exists>t'. TwoLevel_delete it = Some t' \<and> (\<forall>c. tab_block_cache t' = Some c \<longrightarrow> sc_works c \<and> sc_held c = {#})"
      using posix_table.cache_okD(1,2) [OF t'(2)] by (simp add: releases_def)
  qed
  moreover have "scan_all table_iter_ops (length es + 1) it = Some es" by (rule iterator.scan_all_stands [OF it(3,2)]) simp
  ultimately show ?thesis using t(1) it(1-3) unfolding f(2) by blast
qed

theorem table_roundtrip_witness:
  "\<exists>s r t it. build_table PosixWritableFile_ops Options_new (PosixWritableFile_new one_file [] [] 7) [([1], [7])] = Some (s, r)
    \<and> Table_Open PosixMmapReadableFile_ops ShardedLRUCache_ops Options_new (Some (NewLRUCache 32)) (mapped (posix_written (tb_file r)))
        (TableBuilder_FileSize r) = Some (Status_OK, Inr t)
    \<and> Table_NewIterator PosixMmapReadableFile_ops ShardedLRUCache_ops t ReadOptions_new = Some it
    \<and> scan_all table_iter_ops 2 it = Some [([1], [7])]"
proof -
  have sorted: "sorted_entries (\<lambda>_. True) bytes_less [([1 :: byte], [7 :: byte])]" by (simp add: sorted_entries_def)
  have opts: "comparator (opt_comparator Options_new) (\<lambda>_. True) bytes_less" "build_ok Options_new"
    using bytewise.comparator_axioms by (simp_all add: build_ok_def Options_new_def)
  note ready = one_file_ready [of "[]"]
  from writable_file.build_table_works [OF posix_out.writable_file_axioms opts sorted small_table ready(1)] ready(2) obtain r
    where r: "build_table PosixWritableFile_ops Options_new (PosixWritableFile_new one_file [] [] 7) [([1], [7])] = Some (Status_OK, r)"
      "posix_written (tb_file r) = table_bytes Options_new [([1], [7])]" by auto
  have "new_cache (Some (NewLRUCache 32))" by (auto simp: new_cache_def intro!: exI [of _ 32])
  moreover have "unat (pm_length (mapped (posix_written (tb_file r)))) = length (pm_base (mapped (posix_written (tb_file r))))"
    using small_table r(2) by (simp add: mapped_def)
  ultimately obtain t it where
    "Table_Open PosixMmapReadableFile_ops ShardedLRUCache_ops Options_new (Some (NewLRUCache 32)) (mapped (posix_written (tb_file r)))
        (TableBuilder_FileSize r) = Some (Status_OK, Inr t)"
    "Table_NewIterator PosixMmapReadableFile_ops ShardedLRUCache_ops t ReadOptions_new = Some it"
    "scan_all table_iter_ops (length [([1 :: byte], [7 :: byte])] + 1) it = Some [([1], [7])]"
    using table_roundtrip [OF opts sorted small_table ready r(1), of "mapped (posix_written (tb_file r))" "Some (NewLRUCache 32)" ReadOptions_new]
    by (auto simp: mapped_def)
  then show ?thesis using r(1) by (auto simp: numeral_2_eq_2)
qed






end
