(* ===== verification/LDB_Version_Edit.thy ===== *)
theory LDB_Version_Edit
  imports LDB_Dbformat "HOL-Library.Product_Lexorder"
begin

text \<open>
  \<^verbatim>\<open>db/version_edit.h\<close> and \<^verbatim>\<open>db/version_edit.cc\<close> of \<^verbatim>\<open>src/MovieDBApp/Pods/leveldb-library\<close>: the
  changes from a version of the database to the next, as they are recorded in the
  descriptor file.

  The set of deleted files is the list of its elements in their order. Encoding an edit and
  decoding it gives the edit back; decoding ends on arbitrary bytes.
\<close>

section \<open>Edits\<close>

record FileMetaData =
  fm_refs :: int
  fm_allowed_seeks :: int
  fm_number :: u64
  fm_file_size :: u64
  fm_smallest :: "byte list"
  fm_largest :: "byte list"

definition FileMetaData_new :: FileMetaData where
  "FileMetaData_new =
     \<lparr>fm_refs = 0, fm_allowed_seeks = 2 ^ 30, fm_number = 0, fm_file_size = 0, fm_smallest = [], fm_largest = []\<rparr>"

record VersionEdit =
  ve_comparator :: "byte list"
  ve_log_number :: u64
  ve_prev_log_number :: u64
  ve_next_file_number :: u64
  ve_last_sequence :: SequenceNumber
  ve_has_comparator :: bool
  ve_has_log_number :: bool
  ve_has_prev_log_number :: bool
  ve_has_next_file_number :: bool
  ve_has_last_sequence :: bool
  ve_compact_pointers :: "(int \<times> byte list) list"
  ve_deleted_files :: "(int \<times> u64) list"
  ve_new_files :: "(int \<times> FileMetaData) list"

definition kComparator :: u32 where "kComparator = 1"
definition kLogNumber :: u32 where "kLogNumber = 2"
definition kNextFileNumber :: u32 where "kNextFileNumber = 3"
definition kLastSequence :: u32 where "kLastSequence = 4"
definition kCompactPointer :: u32 where "kCompactPointer = 5"
definition kDeletedFile :: u32 where "kDeletedFile = 6"
definition kNewFile :: u32 where "kNewFile = 7"
definition kPrevLogNumber :: u32 where "kPrevLogNumber = 9"

lemmas tag_defs = kComparator_def kLogNumber_def kNextFileNumber_def kLastSequence_def kCompactPointer_def kDeletedFile_def
  kNewFile_def kPrevLogNumber_def

text \<open>The compaction pointers stay.\<close>

definition VersionEdit_Clear :: "VersionEdit \<Rightarrow> VersionEdit" where
  "VersionEdit_Clear e =
     e\<lparr>ve_comparator := [], ve_log_number := 0, ve_prev_log_number := 0, ve_last_sequence := 0, ve_next_file_number := 0,
       ve_has_comparator := False, ve_has_log_number := False, ve_has_prev_log_number := False,
       ve_has_next_file_number := False, ve_has_last_sequence := False, ve_deleted_files := [], ve_new_files := []\<rparr>"

definition VersionEdit_new :: VersionEdit where
  "VersionEdit_new =
     \<lparr>ve_comparator = [], ve_log_number = 0, ve_prev_log_number = 0, ve_next_file_number = 0, ve_last_sequence = 0,
      ve_has_comparator = False, ve_has_log_number = False, ve_has_prev_log_number = False,
      ve_has_next_file_number = False, ve_has_last_sequence = False, ve_compact_pointers = [], ve_deleted_files = [],
      ve_new_files = []\<rparr>"

definition SetComparatorName :: "VersionEdit \<Rightarrow> byte list \<Rightarrow> VersionEdit" where
  "SetComparatorName e name = e\<lparr>ve_has_comparator := True, ve_comparator := name\<rparr>"

definition SetLogNumber :: "VersionEdit \<Rightarrow> u64 \<Rightarrow> VersionEdit" where
  "SetLogNumber e num = e\<lparr>ve_has_log_number := True, ve_log_number := num\<rparr>"

definition SetPrevLogNumber :: "VersionEdit \<Rightarrow> u64 \<Rightarrow> VersionEdit" where
  "SetPrevLogNumber e num = e\<lparr>ve_has_prev_log_number := True, ve_prev_log_number := num\<rparr>"

definition SetNextFile :: "VersionEdit \<Rightarrow> u64 \<Rightarrow> VersionEdit" where
  "SetNextFile e num = e\<lparr>ve_has_next_file_number := True, ve_next_file_number := num\<rparr>"

definition SetLastSequence :: "VersionEdit \<Rightarrow> SequenceNumber \<Rightarrow> VersionEdit" where
  "SetLastSequence e s = e\<lparr>ve_has_last_sequence := True, ve_last_sequence := s\<rparr>"

definition SetCompactPointer :: "VersionEdit \<Rightarrow> int \<Rightarrow> byte list \<Rightarrow> VersionEdit" where
  "SetCompactPointer e level key = e\<lparr>ve_compact_pointers := ve_compact_pointers e @ [(level, key)]\<rparr>"

definition AddFile :: "VersionEdit \<Rightarrow> int \<Rightarrow> u64 \<Rightarrow> u64 \<Rightarrow> byte list \<Rightarrow> byte list \<Rightarrow> VersionEdit" where
  "AddFile e level file file_size smallest largest =
     e\<lparr>ve_new_files := ve_new_files e @ [(level, FileMetaData_new\<lparr>fm_number := file, fm_file_size := file_size,
         fm_smallest := smallest, fm_largest := largest\<rparr>)]\<rparr>"

definition VersionEdit_DeleteFile :: "VersionEdit \<Rightarrow> int \<Rightarrow> u64 \<Rightarrow> VersionEdit" where
  "VersionEdit_DeleteFile e level file = e\<lparr>ve_deleted_files := insort_insert (level, file) (ve_deleted_files e)\<rparr>"

section \<open>Encoding\<close>

text \<open>\<^verbatim>\<open>Encode\<close> of a key asserts that it is not empty.\<close>

definition put_compact_pointer :: "int \<times> byte list \<Rightarrow> byte list \<Rightarrow> byte list option" where
  "put_compact_pointer cp dst =
     (case cp of (level, key) \<Rightarrow> do {
        k \<leftarrow> InternalKey_Encode key;
        Some (PutLengthPrefixedSlice (PutVarint32 (PutVarint32 dst kCompactPointer) (of_int level)) k)
      })"

definition put_deleted_file :: "int \<times> u64 \<Rightarrow> byte list \<Rightarrow> byte list option" where
  "put_deleted_file df dst =
     (case df of (level, file) \<Rightarrow> Some (PutVarint64 (PutVarint32 (PutVarint32 dst kDeletedFile) (of_int level)) file))"

definition put_new_file :: "int \<times> FileMetaData \<Rightarrow> byte list \<Rightarrow> byte list option" where
  "put_new_file nf dst =
     (case nf of (level, f) \<Rightarrow> do {
        let dst = PutVarint32 (PutVarint32 dst kNewFile) (of_int level);
        let dst = PutVarint64 (PutVarint64 dst (fm_number f)) (fm_file_size f);
        s \<leftarrow> InternalKey_Encode (fm_smallest f);
        l \<leftarrow> InternalKey_Encode (fm_largest f);
        Some (PutLengthPrefixedSlice (PutLengthPrefixedSlice dst s) l)
      })"

fun put_all :: "('a \<Rightarrow> byte list \<Rightarrow> byte list option) \<Rightarrow> 'a list \<Rightarrow> byte list \<Rightarrow> byte list option" where
  "put_all put [] dst = Some dst"
| "put_all put (x # xs) dst = do { dst \<leftarrow> put x dst; put_all put xs dst }"

definition put_number :: "bool \<Rightarrow> u32 \<Rightarrow> u64 \<Rightarrow> byte list \<Rightarrow> byte list" where
  "put_number has tag num dst = (if has then PutVarint64 (PutVarint32 dst tag) num else dst)"

definition VersionEdit_EncodeTo :: "VersionEdit \<Rightarrow> byte list \<Rightarrow> byte list option" where
  "VersionEdit_EncodeTo e dst = do {
     let dst = (if ve_has_comparator e then PutLengthPrefixedSlice (PutVarint32 dst kComparator) (ve_comparator e) else dst);
     let dst = put_number (ve_has_log_number e) kLogNumber (ve_log_number e) dst;
     let dst = put_number (ve_has_prev_log_number e) kPrevLogNumber (ve_prev_log_number e) dst;
     let dst = put_number (ve_has_next_file_number e) kNextFileNumber (ve_next_file_number e) dst;
     let dst = put_number (ve_has_last_sequence e) kLastSequence (ve_last_sequence e) dst;
     dst \<leftarrow> put_all put_compact_pointer (ve_compact_pointers e) dst;
     dst \<leftarrow> put_all put_deleted_file (ve_deleted_files e) dst;
     put_all put_new_file (ve_new_files e) dst
   }"

section \<open>Decoding\<close>

text \<open>The value, if it was there, and the input afterwards.\<close>

definition GetInternalKey :: "byte list \<Rightarrow> byte list option \<times> byte list" where
  "GetInternalKey input = GetLengthPrefixedSlice input"

definition GetLevel :: "byte list \<Rightarrow> int option \<times> byte list" where
  "GetLevel input =
     (case GetVarint32 input of
        (Some v, input) \<Rightarrow> (if unat v < kNumLevels then Some (uint v) else None, input)
      | (None, input) \<Rightarrow> (None, input))"

text \<open>Short-circuiting sequences of readers.\<close>

definition then_get :: "'a option \<times> byte list \<Rightarrow> ('a \<Rightarrow> byte list \<Rightarrow> 'b option \<times> byte list) \<Rightarrow> 'b option \<times> byte list" where
  "then_get r f = (case r of (Some x, input) \<Rightarrow> f x input | (None, input) \<Rightarrow> (None, input))"

definition read_level_key :: "byte list \<Rightarrow> (int \<times> byte list) option \<times> byte list" where
  "read_level_key input = then_get (GetLevel input) (\<lambda>level input. then_get (GetInternalKey input) (\<lambda>key input. (Some (level, key), input)))"

definition read_level_number :: "byte list \<Rightarrow> (int \<times> u64) option \<times> byte list" where
  "read_level_number input = then_get (GetLevel input) (\<lambda>level input. then_get (GetVarint64 input) (\<lambda>number input. (Some (level, number), input)))"

definition read_level_file :: "byte list \<Rightarrow> (int \<times> u64 \<times> u64 \<times> byte list \<times> byte list) option \<times> byte list" where
  "read_level_file input =
     then_get (GetLevel input) (\<lambda>level input. then_get (GetVarint64 input) (\<lambda>number input.
     then_get (GetVarint64 input) (\<lambda>file_size input. then_get (GetInternalKey input) (\<lambda>smallest input.
     then_get (GetInternalKey input) (\<lambda>largest input. (Some (level, number, file_size, smallest, largest), input))))))"

definition get_number ::
  "(u64 \<Rightarrow> VersionEdit \<Rightarrow> VersionEdit) \<Rightarrow> string \<Rightarrow> VersionEdit \<Rightarrow> byte list \<Rightarrow> byte list option \<times> VersionEdit \<times> byte list" where
  "get_number upd msg e input =
     (case GetVarint64 input of
        (Some num, input) \<Rightarrow> (None, upd num e, input)
      | (None, input) \<Rightarrow> (Some (cstr msg), e, input))"

text \<open>The \<^verbatim>\<open>switch\<close>: the message, if there is an error, the edit and the input.\<close>

definition DecodeFrom_field :: "u32 \<Rightarrow> VersionEdit \<Rightarrow> byte list \<Rightarrow> byte list option \<times> VersionEdit \<times> byte list" where
  "DecodeFrom_field tag e input =
     (if tag = kComparator then
        (case GetLengthPrefixedSlice input of
           (Some str, input) \<Rightarrow> (None, SetComparatorName e str, input)
         | (None, input) \<Rightarrow> (Some (cstr ''comparator name''), e, input))
      else if tag = kLogNumber then get_number (\<lambda>n e. SetLogNumber e n) ''log number'' e input
      else if tag = kPrevLogNumber then get_number (\<lambda>n e. SetPrevLogNumber e n) ''previous log number'' e input
      else if tag = kNextFileNumber then get_number (\<lambda>n e. SetNextFile e n) ''next file number'' e input
      else if tag = kLastSequence then get_number (\<lambda>n e. SetLastSequence e n) ''last sequence number'' e input
      else if tag = kCompactPointer then
        (case read_level_key input of
           (Some (level, key), input) \<Rightarrow> (None, SetCompactPointer e level key, input)
         | (None, input) \<Rightarrow> (Some (cstr ''compaction pointer''), e, input))
      else if tag = kDeletedFile then
        (case read_level_number input of
           (Some (level, number), input) \<Rightarrow> (None, VersionEdit_DeleteFile e level number, input)
         | (None, input) \<Rightarrow> (Some (cstr ''deleted file''), e, input))
      else if tag = kNewFile then
        (case read_level_file input of
           (Some (level, number, file_size, smallest, largest), input) \<Rightarrow>
             (None, AddFile e level number file_size smallest largest, input)
         | (None, input) \<Rightarrow> (Some (cstr ''new-file entry''), e, input))
      else (Some (cstr ''unknown tag''), e, input))"

lemma GetLevel_le: "length (snd (GetLevel input)) \<le> length input"
  using GetVarint32_le [of input] by (cases "GetVarint32 input") (auto simp: GetLevel_def split: option.splits)

lemma then_get_le:
  "length (snd r) \<le> n \<Longrightarrow> (\<And>x input. length input \<le> n \<Longrightarrow> length (snd (f x input)) \<le> n) \<Longrightarrow> length (snd (then_get r f)) \<le> n"
  by (cases r) (auto simp: then_get_def split: option.splits)

lemmas edit_readers_le = readers_le GetLevel_le

lemma read_level_le:
  "length (snd (read_level_key input)) \<le> length input"
  "length (snd (read_level_number input)) \<le> length input"
  "length (snd (read_level_file input)) \<le> length input"
  unfolding read_level_key_def read_level_number_def read_level_file_def GetInternalKey_def
  by (rule then_get_le, rule GetLevel_le, simp add: then_get_le le_trans [OF GetVarint64_le] le_trans [OF GetLengthPrefixedSlice_le])+

lemma field_le:
  "length (snd r) \<le> n \<Longrightarrow> (\<And>x i. snd (snd (f x i)) = i) \<Longrightarrow> (\<And>i. snd (snd (g i)) = i) \<Longrightarrow>
     length (snd (snd (case r of (Some x, i) \<Rightarrow> f x i | (None, i) \<Rightarrow> g i))) \<le> n"
  by (cases r) (auto split: option.splits)

lemma DecodeFrom_field_le: "length (snd (snd (DecodeFrom_field tag e input))) \<le> length input"
proof -
  have "length (snd (snd (if c then a else b))) \<le> n" if "length (snd (snd a)) \<le> n" "length (snd (snd b)) \<le> n" for c n and a b :: "'a \<times> 'b \<times> 'c list"
    using that by simp
  note if_le = this
  show ?thesis
    unfolding DecodeFrom_field_def get_number_def
    by (intro if_le field_le edit_readers_le read_level_le) (simp_all split: prod.splits)
qed

lemma DecodeFrom_field_le_eq: "DecodeFrom_field tag e input = (msg, e', rest) \<Longrightarrow> length rest \<le> length input"
  using DecodeFrom_field_le [of tag e input] by simp

text \<open>The \<^verbatim>\<open>while\<close> loop.\<close>

function DecodeFrom_loop :: "VersionEdit \<Rightarrow> byte list \<Rightarrow> byte list option \<times> VersionEdit \<times> byte list" where
  "DecodeFrom_loop e input =
     (case GetVarint32 input of
        (None, input) \<Rightarrow> (None, e, input)
      | (Some tag, input) \<Rightarrow>
          (case DecodeFrom_field tag e input of
             (None, e, input) \<Rightarrow> DecodeFrom_loop e input
           | (Some msg, e, input) \<Rightarrow> (Some msg, e, input)))"
  by auto
termination
  by (relation "measure (\<lambda>(_, input). length input)")
    (auto dest!: GetVarint32_shorter [OF sym] DecodeFrom_field_le_eq [OF sym])

definition VersionEdit_DecodeFrom :: "VersionEdit \<Rightarrow> byte list \<Rightarrow> Status \<times> VersionEdit" where
  "VersionEdit_DecodeFrom e src =
     (case DecodeFrom_loop (VersionEdit_Clear e) src of
        (msg, e, input) \<Rightarrow>
          (case (if msg = None \<and> input \<noteq> [] then Some (cstr ''invalid tag'') else msg) of
             Some msg \<Rightarrow> (Corruption (cstr ''VersionEdit'') msg, e)
           | None \<Rightarrow> (Status_OK, e)))"

declare DecodeFrom_loop.simps [simp del]

section \<open>In text\<close>

definition debug_number :: "bool \<Rightarrow> string \<Rightarrow> u64 \<Rightarrow> byte list \<Rightarrow> byte list" where
  "debug_number has name num r = (if has then AppendNumberTo (r @ cstr (CHR 0x0A # name)) num else r)"

definition debug_compact_pointer :: "int \<times> byte list \<Rightarrow> byte list \<Rightarrow> byte list" where
  "debug_compact_pointer cp r =
     (case cp of (level, key) \<Rightarrow>
        AppendNumberTo (r @ cstr (CHR 0x0A # ''  CompactPointer: '')) (of_int level) @ cstr '' '' @ InternalKey_DebugString key)"

definition debug_deleted_file :: "int \<times> u64 \<Rightarrow> byte list \<Rightarrow> byte list" where
  "debug_deleted_file df r =
     (case df of (level, number) \<Rightarrow>
        AppendNumberTo (AppendNumberTo (r @ cstr (CHR 0x0A # ''  DeleteFile: '')) (of_int level) @ cstr '' '') number)"

definition debug_new_file :: "int \<times> FileMetaData \<Rightarrow> byte list \<Rightarrow> byte list" where
  "debug_new_file nf r =
     (case nf of (level, f) \<Rightarrow>
        let r = AppendNumberTo (r @ cstr (CHR 0x0A # ''  AddFile: '')) (of_int level) @ cstr '' '';
            r = AppendNumberTo r (fm_number f) @ cstr '' '';
            r = AppendNumberTo r (fm_file_size f) @ cstr '' ''
        in r @ InternalKey_DebugString (fm_smallest f) @ cstr '' .. '' @ InternalKey_DebugString (fm_largest f))"

definition VersionEdit_DebugString :: "VersionEdit \<Rightarrow> byte list" where
  "VersionEdit_DebugString e =
     (let r = cstr ''VersionEdit {'';
          r = (if ve_has_comparator e then r @ cstr (CHR 0x0A # ''  Comparator: '') @ ve_comparator e else r);
          r = debug_number (ve_has_log_number e) ''  LogNumber: '' (ve_log_number e) r;
          r = debug_number (ve_has_prev_log_number e) ''  PrevLogNumber: '' (ve_prev_log_number e) r;
          r = debug_number (ve_has_next_file_number e) ''  NextFile: '' (ve_next_file_number e) r;
          r = debug_number (ve_has_last_sequence e) ''  LastSeq: '' (ve_last_sequence e) r;
          r = fold debug_compact_pointer (ve_compact_pointers e) r;
          r = fold debug_deleted_file (ve_deleted_files e) r;
          r = fold debug_new_file (ve_new_files e) r
      in r @ cstr [CHR 0x0A, CHR 0x7D, CHR 0x0A])"

section \<open>What is written is read back\<close>

text \<open>
  A step of the encoder appends bytes, and from any edit the decoder goes over them with the
  change they record.
\<close>

definition records :: "(byte list \<Rightarrow> byte list option) \<Rightarrow> (VersionEdit \<Rightarrow> VersionEdit) \<Rightarrow> bool" where
  "records put f \<longleftrightarrow>
     (\<exists>bs. (\<forall>dst. put dst = Some (dst @ bs)) \<and> (\<forall>e rest. DecodeFrom_loop e (bs @ rest) = DecodeFrom_loop (f e) rest))"

lemma records_none: "records (\<lambda>dst. Some dst) (\<lambda>e. e)"
  unfolding records_def by (rule exI [of _ "[]"]) simp

lemma records_then: "records p f \<Longrightarrow> records q g \<Longrightarrow> records (\<lambda>dst. do { dst \<leftarrow> p dst; q dst }) (g \<circ> f)"
  unfolding records_def by (elim exE conjE) (rule_tac x = "bs @ bsa" in exI, simp)

lemma records_tag:
  assumes "\<And>dst. put dst = Some (PutVarint32 dst tag @ bs)"
    and "\<And>e rest. DecodeFrom_field tag e (bs @ rest) = (None, f e, rest)"
  shows "records put f"
  unfolding records_def
proof (intro exI conjI allI)
  show "put dst = Some (dst @ varint (unat tag) @ bs)" for dst
    using assms(1) by (simp add: PutVarint32_def)
  show "DecodeFrom_loop e ((varint (unat tag) @ bs) @ rest) = DecodeFrom_loop (f e) rest" for e rest
    by (simp add: DecodeFrom_loop.simps [of e] assms(2))
qed

lemma records_all:
  assumes "\<And>x. x \<in> set xs \<Longrightarrow> records (put x) (f x)"
  shows "records (put_all put xs) (fold f xs)"
  using assms
proof (induction xs)
  case Nil
  show ?case using records_none by (simp add: id_def)
next
  case (Cons x xs)
  then show ?case using records_then [of "put x" "f x" "put_all put xs" "fold f xs"] by (simp add: comp_def)
qed

text \<open>The members of an edit that the encoder can write; a number that is not set is zero.\<close>

definition key_ok :: "byte list \<Rightarrow> bool" where
  "key_ok key \<longleftrightarrow> key \<noteq> [] \<and> length key < 2 ^ 32"

definition level_ok :: "int \<Rightarrow> bool" where
  "level_ok level \<longleftrightarrow> 0 \<le> level \<and> level < int kNumLevels"

definition file_ok :: "FileMetaData \<Rightarrow> bool" where
  "file_ok f \<longleftrightarrow> key_ok (fm_smallest f) \<and> key_ok (fm_largest f) \<and> fm_refs f = 0 \<and> fm_allowed_seeks f = 2 ^ 30"

definition edit_ok :: "VersionEdit \<Rightarrow> bool" where
  "edit_ok e \<longleftrightarrow>
     length (ve_comparator e) < 2 ^ 32 \<and> (ve_has_comparator e \<or> ve_comparator e = []) \<and>
     (ve_has_log_number e \<or> ve_log_number e = 0) \<and> (ve_has_prev_log_number e \<or> ve_prev_log_number e = 0) \<and>
     (ve_has_next_file_number e \<or> ve_next_file_number e = 0) \<and> (ve_has_last_sequence e \<or> ve_last_sequence e = 0) \<and>
     list_all (\<lambda>(level, key). level_ok level \<and> key_ok key) (ve_compact_pointers e) \<and>
     list_all (\<lambda>(level, file). level_ok level) (ve_deleted_files e) \<and> sorted (ve_deleted_files e) \<and> distinct (ve_deleted_files e) \<and>
     list_all (\<lambda>(level, f). level_ok level \<and> file_ok f) (ve_new_files e)"

lemma GetLevel_varint: "level_ok level \<Longrightarrow> GetLevel (varint (unat (of_int level :: u32)) @ rest) = (Some level, rest)"
proof -
  assume "level_ok level"
  then have "uint (of_int level :: u32) = level"
    by (simp add: level_ok_def kNumLevels_def uint_word_of_int)
  then show ?thesis
    using \<open>level_ok level\<close> GetVarint32_varint [of "of_int level" rest]
    by (simp add: GetLevel_def level_ok_def kNumLevels_def unat_eq_nat_uint nat_less_iff)
qed

lemmas written = PutVarint32_def PutVarint64_def PutLengthPrefixedSlice_eq InternalKey_Encode_def

lemmas read_back = DecodeFrom_field_def tag_defs get_number_def read_level_key_def read_level_number_def read_level_file_def
  then_get_def GetInternalKey_def GetLevel_varint

lemma records_compact_pointer:
  "level_ok level \<Longrightarrow> key_ok key \<Longrightarrow> records (put_compact_pointer (level, key)) (\<lambda>e. SetCompactPointer e level key)"
  by (rule records_tag [where tag = kCompactPointer and bs = "varint (unat (of_int level :: u32)) @ varint (length key) @ key"])
    (simp_all add: put_compact_pointer_def written read_back key_ok_def)

lemma records_deleted_file:
  "level_ok level \<Longrightarrow> records (put_deleted_file (level, number)) (\<lambda>e. VersionEdit_DeleteFile e level number)"
  by (rule records_tag [where tag = kDeletedFile and bs = "varint (unat (of_int level :: u32)) @ varint (unat number)"])
    (simp_all add: put_deleted_file_def written read_back)

lemma records_new_file:
  "level_ok level \<Longrightarrow> file_ok f \<Longrightarrow>
     records (put_new_file (level, f)) (\<lambda>e. AddFile e level (fm_number f) (fm_file_size f) (fm_smallest f) (fm_largest f))"
  by (rule records_tag [where tag = kNewFile and bs = "varint (unat (of_int level :: u32)) @ varint (unat (fm_number f))
      @ varint (unat (fm_file_size f)) @ varint (length (fm_smallest f)) @ fm_smallest f @ varint (length (fm_largest f)) @ fm_largest f"])
    (simp_all add: put_new_file_def written read_back file_ok_def key_ok_def)

definition set_if :: "bool \<Rightarrow> ('a \<Rightarrow> 'a) \<Rightarrow> 'a \<Rightarrow> 'a" where
  "set_if has f = (\<lambda>r. if has then f r else r)"

lemma records_number:
  assumes "\<And>e rest. DecodeFrom_field tag e (varint (unat num) @ rest) = (None, upd num e, rest)"
  shows "records (\<lambda>dst. Some (put_number has tag num dst)) (set_if has (upd num))"
proof (cases has)
  case True
  then show ?thesis
    using records_tag [where tag = tag and bs = "varint (unat num)" and f = "upd num", OF _ assms] by (simp add: put_number_def written set_if_def)
qed (simp add: put_number_def records_none set_if_def)

lemma records_comparator:
  assumes "length name < 2 ^ 32"
  shows "records (\<lambda>dst. Some (if has then PutLengthPrefixedSlice (PutVarint32 dst kComparator) name else dst))
           (set_if has (\<lambda>e. SetComparatorName e name))"
proof (cases has)
  case True
  then show ?thesis
    using records_tag [of "\<lambda>dst. Some (PutLengthPrefixedSlice (PutVarint32 dst kComparator) name)" kComparator
        "varint (length name) @ name" "\<lambda>e. SetComparatorName e name"] assms
    by (simp add: written read_back set_if_def)
qed (simp add: records_none set_if_def)

text \<open>What the bytes of an edit do to another.\<close>

definition apply_edit :: "VersionEdit \<Rightarrow> VersionEdit \<Rightarrow> VersionEdit" where
  "apply_edit e =
     fold (\<lambda>(level, f) r. AddFile r level (fm_number f) (fm_file_size f) (fm_smallest f) (fm_largest f)) (ve_new_files e)
     \<circ> fold (\<lambda>(level, number) r. VersionEdit_DeleteFile r level number) (ve_deleted_files e)
     \<circ> fold (\<lambda>(level, key) r. SetCompactPointer r level key) (ve_compact_pointers e)
     \<circ> set_if (ve_has_last_sequence e) (\<lambda>r. SetLastSequence r (ve_last_sequence e))
     \<circ> set_if (ve_has_next_file_number e) (\<lambda>r. SetNextFile r (ve_next_file_number e))
     \<circ> set_if (ve_has_prev_log_number e) (\<lambda>r. SetPrevLogNumber r (ve_prev_log_number e))
     \<circ> set_if (ve_has_log_number e) (\<lambda>r. SetLogNumber r (ve_log_number e))
     \<circ> set_if (ve_has_comparator e) (\<lambda>r. SetComparatorName r (ve_comparator e))"

lemma records_EncodeTo:
  assumes "edit_ok e"
  shows "records (VersionEdit_EncodeTo e) (apply_edit e)"
proof -
  have "VersionEdit_EncodeTo e = (\<lambda>dst. do {
     dst \<leftarrow> Some (if ve_has_comparator e then PutLengthPrefixedSlice (PutVarint32 dst kComparator) (ve_comparator e) else dst);
     dst \<leftarrow> Some (put_number (ve_has_log_number e) kLogNumber (ve_log_number e) dst);
     dst \<leftarrow> Some (put_number (ve_has_prev_log_number e) kPrevLogNumber (ve_prev_log_number e) dst);
     dst \<leftarrow> Some (put_number (ve_has_next_file_number e) kNextFileNumber (ve_next_file_number e) dst);
     dst \<leftarrow> Some (put_number (ve_has_last_sequence e) kLastSequence (ve_last_sequence e) dst);
     dst \<leftarrow> put_all put_compact_pointer (ve_compact_pointers e) dst;
     dst \<leftarrow> put_all put_deleted_file (ve_deleted_files e) dst;
     put_all put_new_file (ve_new_files e) dst })"
    by (simp add: VersionEdit_EncodeTo_def fun_eq_iff)
  moreover have "records (put_all put_compact_pointer (ve_compact_pointers e))
      (fold (\<lambda>(level, key) r. SetCompactPointer r level key) (ve_compact_pointers e))"
    using assms by (intro records_all) (auto simp: edit_ok_def list_all_iff intro: records_compact_pointer)
  moreover have "records (put_all put_deleted_file (ve_deleted_files e))
      (fold (\<lambda>(level, number) r. VersionEdit_DeleteFile r level number) (ve_deleted_files e))"
    using assms by (intro records_all) (auto simp: edit_ok_def list_all_iff intro: records_deleted_file)
  moreover have "records (put_all put_new_file (ve_new_files e))
      (fold (\<lambda>(level, f) r. AddFile r level (fm_number f) (fm_file_size f) (fm_smallest f) (fm_largest f)) (ve_new_files e))"
    using assms by (intro records_all) (auto simp: edit_ok_def list_all_iff intro: records_new_file)
  moreover have "length (ve_comparator e) < 2 ^ 32"
    using assms by (simp add: edit_ok_def)
  moreover note records_number [where upd = "\<lambda>n r. SetLogNumber r n" and tag = kLogNumber]
    records_number [where upd = "\<lambda>n r. SetPrevLogNumber r n" and tag = kPrevLogNumber]
    records_number [where upd = "\<lambda>n r. SetNextFile r n" and tag = kNextFileNumber]
    records_number [where upd = "\<lambda>n r. SetLastSequence r n" and tag = kLastSequence]
  ultimately show ?thesis
    by (simp only: apply_edit_def) (intro records_then records_comparator; simp add: read_back)
qed

text \<open>The edit that comes back.\<close>

lemma fold_SetCompactPointer: "fold (\<lambda>(level, key) r. SetCompactPointer r level key) cs r = r\<lparr>ve_compact_pointers := ve_compact_pointers r @ cs\<rparr>"
  by (induction cs arbitrary: r) (auto simp: SetCompactPointer_def)

lemma fold_DeleteFile: "fold (\<lambda>(level, number) r. VersionEdit_DeleteFile r level number) ds r
    = r\<lparr>ve_deleted_files := fold insort_insert ds (ve_deleted_files r)\<rparr>"
  by (induction ds arbitrary: r) (auto simp: VersionEdit_DeleteFile_def)

lemma fold_insort: "sorted (xs @ ds) \<Longrightarrow> distinct (xs @ ds) \<Longrightarrow> fold insort_insert ds xs = xs @ (ds :: 'a :: linorder list)"
proof (induction ds arbitrary: xs)
  case (Cons d ds)
  then have "insort_insert d xs = xs @ [d]"
    by (auto simp: insort_insert_insort sorted_append intro: sorted_insort_is_snoc)
  then show ?case using Cons.IH [of "xs @ [d]"] Cons.prems by simp
qed simp

lemma fold_AddFile:
  "list_all (\<lambda>(level, f). file_ok f) fs \<Longrightarrow>
     fold (\<lambda>(level, f) r. AddFile r level (fm_number f) (fm_file_size f) (fm_smallest f) (fm_largest f)) fs r
       = r\<lparr>ve_new_files := ve_new_files r @ fs\<rparr>"
  by (induction fs arbitrary: r) (auto simp: AddFile_def FileMetaData_new_def file_ok_def)

lemma set_if_simps:
  "set_if h (\<lambda>r. SetComparatorName r name) r = r\<lparr>ve_has_comparator := h \<or> ve_has_comparator r, ve_comparator := if h then name else ve_comparator r\<rparr>"
  "set_if h (\<lambda>r. SetLogNumber r n) r = r\<lparr>ve_has_log_number := h \<or> ve_has_log_number r, ve_log_number := if h then n else ve_log_number r\<rparr>"
  "set_if h (\<lambda>r. SetPrevLogNumber r n) r
     = r\<lparr>ve_has_prev_log_number := h \<or> ve_has_prev_log_number r, ve_prev_log_number := if h then n else ve_prev_log_number r\<rparr>"
  "set_if h (\<lambda>r. SetNextFile r n) r
     = r\<lparr>ve_has_next_file_number := h \<or> ve_has_next_file_number r, ve_next_file_number := if h then n else ve_next_file_number r\<rparr>"
  "set_if h (\<lambda>r. SetLastSequence r n) r
     = r\<lparr>ve_has_last_sequence := h \<or> ve_has_last_sequence r, ve_last_sequence := if h then n else ve_last_sequence r\<rparr>"
  by (cases r; simp add: set_if_def SetComparatorName_def SetLogNumber_def SetPrevLogNumber_def SetNextFile_def SetLastSequence_def)+

lemma apply_edit_Clear:
  assumes "edit_ok e"
  shows "apply_edit e (VersionEdit_Clear r) = e\<lparr>ve_compact_pointers := ve_compact_pointers r @ ve_compact_pointers e\<rparr>"
proof -
  have "list_all (\<lambda>(level, f). file_ok f) (ve_new_files e)" "fold insort_insert (ve_deleted_files e) [] = ve_deleted_files e"
    using assms fold_insort [of "[]" "ve_deleted_files e"] by (auto simp: edit_ok_def list_all_iff)
  then show ?thesis
    using assms
    by (cases e) (auto simp: apply_edit_def fold_SetCompactPointer fold_DeleteFile fold_AddFile VersionEdit_Clear_def
        set_if_simps edit_ok_def)
qed

text \<open>
  C28. The bytes of an edit, appended to whatever was there, are decoded to the edit with status
  OK, whatever edit receives it: but its old compaction pointers stay in front.
\<close>

theorem version_edit_roundtrip:
  assumes "edit_ok e"
  shows "\<exists>bs. (\<forall>dst. VersionEdit_EncodeTo e dst = Some (dst @ bs)) \<and>
    (\<forall>r. VersionEdit_DecodeFrom r bs = (Status_OK, e\<lparr>ve_compact_pointers := ve_compact_pointers r @ ve_compact_pointers e\<rparr>))"
proof -
  obtain bs where bs: "\<And>dst. VersionEdit_EncodeTo e dst = Some (dst @ bs)"
    "\<And>r rest. DecodeFrom_loop r (bs @ rest) = DecodeFrom_loop (apply_edit e r) rest"
    using records_EncodeTo [OF assms] unfolding records_def by blast
  have "DecodeFrom_loop r [] = (None, r, [])" for r
    by (simp add: DecodeFrom_loop.simps GetVarint32_def GetVarint32Ptr_eq GetVarint32PtrFallback_spec)
  then have "VersionEdit_DecodeFrom r bs = (Status_OK, apply_edit e (VersionEdit_Clear r))" for r
    using bs(2) [of "VersionEdit_Clear r" "[]"] by (simp add: VersionEdit_DecodeFrom_def)
  then show ?thesis using bs(1) apply_edit_Clear [OF assms] by (intro exI [of _ bs]) simp
qed

theorem version_edit_roundtrip_witness:
  "\<exists>bs. (\<forall>dst. VersionEdit_EncodeTo
      (AddFile (VersionEdit_DeleteFile (SetCompactPointer (SetLastSequence VersionEdit_new 9) 1 [7]) 2 3) 0 5 100 [1] [2]) dst = Some (dst @ bs)) \<and>
    (\<forall>r. VersionEdit_DecodeFrom r bs =
      (Status_OK, (AddFile (VersionEdit_DeleteFile (SetCompactPointer (SetLastSequence VersionEdit_new 9) 1 [7]) 2 3) 0 5 100 [1] [2])
         \<lparr>ve_compact_pointers := ve_compact_pointers r @ [(1, [7])]\<rparr>))"
proof -
  define e where "e = AddFile (VersionEdit_DeleteFile (SetCompactPointer (SetLastSequence VersionEdit_new 9) 1 [7]) 2 3) 0 5 100 [1] [2]"
  note e = e_def AddFile_def VersionEdit_DeleteFile_def SetCompactPointer_def SetLastSequence_def VersionEdit_new_def FileMetaData_new_def
  have "edit_ok e" "ve_compact_pointers e = [(1, [7])]"
    by (simp_all add: e insort_insert_key_def edit_ok_def level_ok_def key_ok_def file_ok_def kNumLevels_def)
  then show ?thesis
    using version_edit_roundtrip [of e] by (simp add: e_def)
qed

end
