(* ===== verification/LDB_Arena.thy ===== *)
theory LDB_Arena
  imports LDB_Slice
begin

text \<open>
  \<^verbatim>\<open>util/random.h\<close>, \<^verbatim>\<open>util/arena.h\<close> and \<^verbatim>\<open>util/arena.cc\<close> of
  \<^verbatim>\<open>src/MovieDBApp/Pods/leveldb-library\<close>: the pseudo-random numbers and the memory of the
  skip list.

  The address of the block that \<^verbatim>\<open>new char[]\<close> returns when the arena has \<open>i\<close> blocks is
  the parameter \<open>new_char i\<close>; the operating system keeps the size of each block, for
  \<^verbatim>\<open>delete[]\<close>. Whatever is allocated lies in a block and apart from everything allocated
  before.
\<close>

section \<open>Random numbers\<close>

definition Random_new :: "u32 \<Rightarrow> u32" where
  "Random_new s = (let seed = s AND 0x7fffffff in if seed = 0 \<or> seed = 2147483647 then 1 else seed)"

text \<open>The value is the new seed.\<close>

definition Random_Next :: "u32 \<Rightarrow> u32" where
  "Random_Next seed =
     (let M = 2147483647; product = ucast seed * 16807 :: u64;
          seed = ucast (drop_bit 31 product + (product AND ucast M)) :: u32
      in if seed > M then seed - M else seed)"

text \<open>Division by zero and shifts by more than the width are undefined.\<close>

definition Random_Uniform :: "int \<Rightarrow> u32 \<Rightarrow> (u32 \<times> u32) option" where
  "Random_Uniform n seed =
     (let seed = Random_Next seed in if (of_int n :: u32) = 0 then None else Some (seed mod of_int n, seed))"

definition Random_OneIn :: "int \<Rightarrow> u32 \<Rightarrow> (bool \<times> u32) option" where
  "Random_OneIn n seed =
     (let seed = Random_Next seed in if (of_int n :: u32) = 0 then None else Some (seed mod of_int n = 0, seed))"

definition Random_Skewed :: "int \<Rightarrow> u32 \<Rightarrow> (u32 \<times> u32) option" where
  "Random_Skewed max_log seed =
     (case Random_Uniform (max_log + 1) seed of
        None \<Rightarrow> None
      | Some (base, seed) \<Rightarrow> if base < 31 then Random_Uniform (2 ^ unat base) seed else None)"

text \<open>The shifts and the subtraction compute the product modulo $2^{31} - 1$.\<close>

lemma Random_Next_mod:
  assumes "0 < unat seed" and "unat seed < 2 ^ 31 - 1"
  shows "unat (Random_Next seed) = unat seed * 16807 mod (2 ^ 31 - 1)"
    and "0 < unat (Random_Next seed)" and "unat (Random_Next seed) < 2 ^ 31 - 1"
proof -
  define p where "p = unat seed * 16807"
  define q r where "q = p div 2 ^ 31" and "r = p mod 2 ^ 31"
  have p: "p < 2 ^ 46" "p = q * 2 ^ 31 + r" "r < 2 ^ 31" using assms by (auto simp: p_def q_def r_def)
  have q: "q < 2 ^ 15" using p(1) by (simp add: q_def)
  have product: "unat (ucast seed * 16807 :: u64) = p"
    using p(1) by (simp add: p_def unat_word_ariths unat_ucast_32_64)
  have d: "unat (drop_bit 31 (ucast seed * 16807 :: u64)) = q"
    by (simp only: unat_drop_bit_div product q_def)
  have M: "w AND 2147483647 = take_bit 31 w" for w :: u64
    by (simp add: take_bit_eq_mask mask_eq_exp_minus_1)
  have m: "unat ((ucast seed * 16807 :: u64) AND 2147483647) = r"
    by (subst M) (simp only: unat_take_bit_mod product r_def)
  have small: "q + r < 18446744073709551616" using p(3) q by simp
  have sum: "unat (drop_bit 31 (ucast seed * 16807 :: u64) + ((ucast seed * 16807 :: u64) AND 2147483647)) = q + r"
    using small by (subst unat_add_no_overflow) (simp_all only: d m)
  have M_gt: "q + r < 2 ^ 31 + 2 ^ 15" using p(3) q by simp
  have next_eq: "unat (Random_Next seed) = (if q + r > 2147483647 then q + r - 2147483647 else q + r)"
  proof -
    have s: "unat (ucast (drop_bit 31 (ucast seed * 16807 :: u64) + ((ucast seed * 16807 :: u64) AND 2147483647)) :: u32) = q + r"
      using M_gt by (simp add: unsigned_ucast_eq sum take_bit_nat_eq_self_iff)
    then show ?thesis
      by (simp add: Random_Next_def Let_def word_less_nat_alt unat_sub_if_size word_size word_le_nat_alt)
  qed
  have "p mod 2147483647 = (q + r) mod 2147483647"
  proof -
    have "p = q * 2147483647 + (q + r)" using p(2) by simp
    then show ?thesis by (metis mod_mult_self3)
  qed
  moreover have "p mod 2147483647 \<noteq> 0"
  proof
    assume "p mod 2147483647 = 0"
    then have "2147483647 dvd unat seed * 16807" by (simp add: p_def mod_eq_0_iff_dvd)
    moreover have "coprime (2147483647 :: nat) 16807" by (simp add: coprime_iff_gcd_eq_1 gcd_non_0_nat)
    ultimately have "2147483647 dvd unat seed" by (simp add: coprime_dvd_mult_left_iff)
    then show False using assms by (auto dest: dvd_imp_le)
  qed
  moreover have "q + r < 2 * 2147483647" using M_gt by simp
  ultimately show "unat (Random_Next seed) = unat seed * 16807 mod (2 ^ 31 - 1)"
    and "0 < unat (Random_Next seed)" and "unat (Random_Next seed) < 2 ^ 31 - 1"
    unfolding next_eq p_def [symmetric]
    by (auto simp: mod_if split: if_splits)
qed

section \<open>The arena\<close>

definition kArenaBlockSize :: int where "kArenaBlockSize = 4096"

record Arena =
  ar_alloc_ptr :: u64
  ar_alloc_bytes_remaining :: u64
  ar_blocks :: "(u64 \<times> u64) list"
  ar_memory_usage :: u64

definition Arena_new :: Arena where
  "Arena_new = \<lparr>ar_alloc_ptr = 0, ar_alloc_bytes_remaining = 0, ar_blocks = [], ar_memory_usage = 0\<rparr>"

definition Arena_AllocateNewBlock :: "(nat \<Rightarrow> u64) \<Rightarrow> u64 \<Rightarrow> Arena \<Rightarrow> u64 \<times> Arena" where
  "Arena_AllocateNewBlock new_char block_bytes ar =
     (let result = new_char (length (ar_blocks ar)) in
      (result, ar\<lparr>ar_blocks := ar_blocks ar @ [(result, block_bytes)],
                 ar_memory_usage := ar_memory_usage ar + (block_bytes + 8)\<rparr>))"

text \<open>Both take the bytes from the current block.\<close>

definition Arena_advance :: "u64 \<Rightarrow> Arena \<Rightarrow> Arena" where
  "Arena_advance bytes ar =
     ar\<lparr>ar_alloc_ptr := ar_alloc_ptr ar + bytes, ar_alloc_bytes_remaining := ar_alloc_bytes_remaining ar - bytes\<rparr>"

definition Arena_AllocateFallback :: "(nat \<Rightarrow> u64) \<Rightarrow> u64 \<Rightarrow> Arena \<Rightarrow> u64 \<times> Arena" where
  "Arena_AllocateFallback new_char bytes ar =
     (if bytes > of_int (kArenaBlockSize div 4) then Arena_AllocateNewBlock new_char bytes ar
      else let (result, ar) = Arena_AllocateNewBlock new_char (of_int kArenaBlockSize) ar;
               ar = ar\<lparr>ar_alloc_ptr := result, ar_alloc_bytes_remaining := of_int kArenaBlockSize\<rparr>
           in (ar_alloc_ptr ar, Arena_advance bytes ar))"

text \<open>\<^const>\<open>None\<close> for a failed assertion.\<close>

definition Arena_Allocate :: "(nat \<Rightarrow> u64) \<Rightarrow> u64 \<Rightarrow> Arena \<Rightarrow> (u64 \<times> Arena) option" where
  "Arena_Allocate new_char bytes ar =
     (if bytes = 0 then None
      else if bytes \<le> ar_alloc_bytes_remaining ar then Some (ar_alloc_ptr ar, Arena_advance bytes ar)
      else Some (Arena_AllocateFallback new_char bytes ar))"

definition Arena_AllocateAligned :: "(nat \<Rightarrow> u64) \<Rightarrow> u64 \<Rightarrow> Arena \<Rightarrow> (u64 \<times> Arena) option" where
  "Arena_AllocateAligned new_char bytes ar =
     (let current_mod = ar_alloc_ptr ar AND 7;
          slop = (if current_mod = 0 then 0 else 8 - current_mod);
          needed = bytes + slop;
          (result, ar) =
            (if needed \<le> ar_alloc_bytes_remaining ar then (ar_alloc_ptr ar + slop, Arena_advance needed ar)
             else Arena_AllocateFallback new_char bytes ar)
      in if result AND 7 = 0 then Some (result, ar) else None)"

definition Arena_MemoryUsage :: "Arena \<Rightarrow> u64" where
  "Arena_MemoryUsage ar = ar_memory_usage ar"

section \<open>Allocations are apart\<close>

text \<open>\<^verbatim>\<open>new char[]\<close> returns memory that is aligned for every type.\<close>

definition aligned_blocks :: "(nat \<Rightarrow> u64) \<Rightarrow> bool" where
  "aligned_blocks new_char \<longleftrightarrow> (\<forall>i. new_char i AND 7 = 0)"

type_synonym region = "u64 \<times> u64"

definition apart :: "region \<Rightarrow> region \<Rightarrow> bool" where
  "apart r q \<longleftrightarrow> unat (fst r) + unat (snd r) \<le> unat (fst q) \<or> unat (fst q) + unat (snd q) \<le> unat (fst r)"

definition inside :: "region \<Rightarrow> region \<Rightarrow> bool" where
  "inside r b \<longleftrightarrow> unat (fst b) \<le> unat (fst r) \<and> unat (fst r) + unat (snd r) \<le> unat (fst b) + unat (snd b)"

text \<open>What \<^verbatim>\<open>new char[]\<close> promises of the blocks it returned.\<close>

definition blocks_ok :: "region list \<Rightarrow> bool" where
  "blocks_ok bs \<longleftrightarrow> sorted_wrt apart bs \<and> (\<forall>b\<in>set bs. unat (fst b) + unat (snd b) < 2 ^ 64)"

text \<open>The unused end of the current block; of what is allocated nothing overlaps it.\<close>

definition arena_ok :: "Arena \<Rightarrow> region list \<Rightarrow> bool" where
  "arena_ok ar rs \<longleftrightarrow>
     sorted_wrt apart rs \<and> (\<forall>r\<in>set rs. \<exists>b\<in>set (ar_blocks ar). inside r b) \<and>
     (ar_alloc_bytes_remaining ar = 0 \<or>
       (\<exists>b\<in>set (ar_blocks ar). inside (ar_alloc_ptr ar, ar_alloc_bytes_remaining ar) b) \<and>
       (\<forall>r\<in>set rs. apart r (ar_alloc_ptr ar, ar_alloc_bytes_remaining ar)))"

lemma apart_inside: "apart b c \<Longrightarrow> inside r b \<Longrightarrow> inside q c \<Longrightarrow> apart r q"
  by (auto simp: apart_def inside_def)

lemma arena_new_ok: "arena_ok Arena_new []"
  by (simp add: arena_ok_def Arena_new_def)

lemma advance_ok:
  assumes "arena_ok ar rs" and "slop + bytes \<le> ar_alloc_bytes_remaining ar" and "unat slop + unat bytes < 2 ^ 64" and "bytes \<noteq> 0"
    and "blocks_ok (ar_blocks ar)"
  shows "arena_ok (Arena_advance (slop + bytes) ar) (rs @ [(ar_alloc_ptr ar + slop, bytes)])"
proof -
  let ?p = "ar_alloc_ptr ar" and ?n = "ar_alloc_bytes_remaining ar"
  have sum: "unat (slop + bytes) = unat slop + unat bytes" using assms(3) by (intro unat_add_no_overflow) simp
  have le: "unat slop + unat bytes \<le> unat ?n" using assms(2) by (simp add: word_le_nat_alt sum)
  have "?n \<noteq> 0" using le assms(4) by (auto simp: unat_eq_0)
  then obtain b where b: "b \<in> set (ar_blocks ar)" "inside (?p, ?n) b" "\<And>r. r \<in> set rs \<Longrightarrow> apart r (?p, ?n)"
    using assms(1) by (auto simp: arena_ok_def)
  have top: "unat ?p + unat ?n < 2 ^ 64" using b(1,2) assms(5) by (force simp: blocks_ok_def inside_def)
  have e: "unat (?p + slop) = unat ?p + unat slop" "unat (?p + (slop + bytes)) = unat ?p + unat slop + unat bytes"
    "unat (?n - (slop + bytes)) = unat ?n - (unat slop + unat bytes)"
    using top le assms(2) by (simp_all add: unat_add_no_overflow sum unat_diff_le)
  show ?thesis
    using assms(1) b le e by (auto simp: arena_ok_def Arena_advance_def sorted_wrt_append inside_def apart_def) force+
qed

lemma apart_sym: "apart r q \<longleftrightarrow> apart q r"
  by (auto simp: apart_def)

lemma new_block_ok:
  assumes "arena_ok ar rs" and "Arena_AllocateNewBlock new_char n ar = (a, ar')" and "blocks_ok (ar_blocks ar')"
  shows "arena_ok ar' (rs @ [(a, n)])" and "arena_ok (ar'\<lparr>ar_alloc_ptr := a, ar_alloc_bytes_remaining := n\<rparr>) rs"
proof -
  have ar': "ar_blocks ar' = ar_blocks ar @ [(a, n)]" "ar_alloc_ptr ar' = ar_alloc_ptr ar"
    "ar_alloc_bytes_remaining ar' = ar_alloc_bytes_remaining ar"
    using assms(2) by (auto simp: Arena_AllocateNewBlock_def Let_def)
  have new: "apart b (a, n)" if "b \<in> set (ar_blocks ar)" for b
    using assms(3) that by (auto simp: blocks_ok_def ar' sorted_wrt_append)
  have self: "inside r r" for r by (simp add: inside_def)
  have rs: "apart r (a, n)" if "r \<in> set rs" for r
    using assms(1) that new apart_inside [OF _ _ self] unfolding arena_ok_def by blast
  show "arena_ok ar' (rs @ [(a, n)])"
    using assms(1) rs self new apart_inside [OF _ _ self]
    by (fastforce simp: arena_ok_def ar' sorted_wrt_append apart_sym [of "(a, n)"])
  show "arena_ok (ar'\<lparr>ar_alloc_ptr := a, ar_alloc_bytes_remaining := n\<rparr>) rs"
    using assms(1) rs self by (fastforce simp: arena_ok_def ar')
qed

lemma AllocateFallback_ok:
  assumes "arena_ok ar rs" and "Arena_AllocateFallback new_char n ar = (a, ar')" and "blocks_ok (ar_blocks ar')" and "n \<noteq> 0"
  shows "arena_ok ar' (rs @ [(a, n)])" and "a = new_char (length (ar_blocks ar))"
proof -
  have k: "of_int (kArenaBlockSize div 4) = (1024 :: u64)" "of_int kArenaBlockSize = (4096 :: u64)" by (simp_all add: kArenaBlockSize_def)
  obtain b br where new: "Arena_AllocateNewBlock new_char (if n > 1024 then n else 4096) ar = (b, br)" by fastforce
  have b: "b = new_char (length (ar_blocks ar))" using new by (auto simp: Arena_AllocateNewBlock_def Let_def)
  show "a = new_char (length (ar_blocks ar))"
    using assms(2) new b by (auto simp: Arena_AllocateFallback_def k Let_def split: if_splits)
  show "arena_ok ar' (rs @ [(a, n)])"
  proof (cases "n > 1024")
    case True
    then show ?thesis using new_block_ok(1) [OF assms(1) new] assms(2,3) new by (simp add: Arena_AllocateFallback_def k)
  next
    case False
    then have le: "n \<le> 4096" by (simp add: word_le_nat_alt word_less_nat_alt)
    have ar': "a = b" "ar' = Arena_advance n (br\<lparr>ar_alloc_ptr := b, ar_alloc_bytes_remaining := 4096\<rparr>)"
      using False assms(2) new by (auto simp: Arena_AllocateFallback_def k Let_def)
    moreover have "ar_blocks ar' = ar_blocks br" by (simp add: ar' Arena_advance_def)
    ultimately show ?thesis
      using new_block_ok(2) [OF assms(1) new] advance_ok [of "br\<lparr>ar_alloc_ptr := b, ar_alloc_bytes_remaining := 4096\<rparr>" rs 0 n]
        False le assms(3,4) by simp
  qed
qed

text \<open>Requests for memory, aligned or not, and the pointers they are given.\<close>

datatype request = Bytes u64 | Aligned u64

fun arena_run :: "(nat \<Rightarrow> u64) \<Rightarrow> request list \<Rightarrow> Arena \<Rightarrow> (region list \<times> Arena) option" where
  "arena_run new_char [] ar = Some ([], ar)"
| "arena_run new_char (q # qs) ar =
     (case q of
        Bytes n \<Rightarrow>
          (case Arena_Allocate new_char n ar of
             None \<Rightarrow> None | Some (a, ar) \<Rightarrow> map_option (\<lambda>(rs, ar). ((a, n) # rs, ar)) (arena_run new_char qs ar))
      | Aligned n \<Rightarrow>
          (case Arena_AllocateAligned new_char n ar of
             None \<Rightarrow> None | Some (a, ar) \<Rightarrow> map_option (\<lambda>(rs, ar). ((a, n) # rs, ar)) (arena_run new_char qs ar)))"

lemma aligned_slop: "(w + (if w AND 7 = 0 then 0 else 8 - (w AND 7))) AND 7 = 0" for w :: u64
proof -
  have t: "v AND 7 = take_bit 3 v" "unat (v AND 7) = unat v mod 8" for v :: u64
    by (simp_all add: take_bit_eq_mask mask_eq_exp_minus_1 unat_take_bit_mod [of 3, symmetric, simplified])
  show ?thesis
  proof (cases "w AND 7 = 0")
    case False
    let ?s = "8 - (w AND 7)"
    have m: "unat w mod 8 < 8" by simp
    have "unat ?s = 8 - unat w mod 8"
      using m by (subst unat_diff_le) (simp_all add: word_le_nat_alt t(2))
    then have "unat (w + ?s) mod 8 = (unat w + (8 - unat w mod 8)) mod 8"
      by (simp add: unat_word_ariths mod_mod_cancel)
    also have "\<dots> = 0"
      using m by presburger
    finally show ?thesis using False t(2) [of "w + ?s"] by (simp add: unat_eq_0)
  qed simp
qed

lemma Allocate_ok:
  assumes "arena_ok ar rs" and "Arena_Allocate new_char n ar = Some (a, ar')" and "blocks_ok (ar_blocks ar')"
  shows "arena_ok ar' (rs @ [(a, n)])"
  using assms advance_ok [of ar rs 0 n] AllocateFallback_ok(1) [of ar rs new_char n a ar']
  by (auto simp: Arena_Allocate_def Arena_advance_def split: if_splits)

lemma AllocateAligned_ok:
  assumes "arena_ok ar rs" and "Arena_AllocateAligned new_char n ar = Some (a, ar')" and "blocks_ok (ar_blocks ar')"
    and "0 < n" and "n < 2 ^ 63"
  shows "arena_ok ar' (rs @ [(a, n)])" and "a AND 7 = 0"
proof -
  define slop where "slop = (if ar_alloc_ptr ar AND 7 = 0 then 0 else 8 - (ar_alloc_ptr ar AND 7))"
  have "unat slop \<le> 8"
  proof -
    have "ar_alloc_ptr ar AND 7 \<le> 7" by (rule word_and_le1)
    then show ?thesis by (auto simp: slop_def word_le_nat_alt unat_sub_if_size)
  qed
  then have fits: "unat slop + unat n < 2 ^ 64" using assms(5) by (simp add: word_less_nat_alt)
  show "a AND 7 = 0" using assms(2) by (auto simp: Arena_AllocateAligned_def Let_def split: if_splits prod.splits)
  show "arena_ok ar' (rs @ [(a, n)])"
    using assms(2) advance_ok [OF assms(1) _ fits] AllocateFallback_ok(1) [OF assms(1) _ assms(3)] assms(3,4)
    by (auto simp: Arena_AllocateAligned_def Let_def slop_def [symmetric] add.commute [of n] Arena_advance_def split: if_splits prod.splits)
qed

lemma blocks_grow:
  "Arena_Allocate new_char n ar = Some (a, ar') \<Longrightarrow> \<exists>bs. ar_blocks ar' = ar_blocks ar @ bs"
  "Arena_AllocateAligned new_char n ar = Some (a, ar') \<Longrightarrow> \<exists>bs. ar_blocks ar' = ar_blocks ar @ bs"
  by (auto simp: Arena_Allocate_def Arena_AllocateAligned_def Arena_AllocateFallback_def Arena_AllocateNewBlock_def
      Arena_advance_def Let_def split: if_splits prod.splits)

lemma arena_run_blocks: "arena_run new_char qs ar = Some (rs, ar') \<Longrightarrow> \<exists>bs. ar_blocks ar' = ar_blocks ar @ bs"
proof (induction qs arbitrary: ar rs)
  case (Cons q qs)
  then show ?case
    by (auto split: request.splits option.splits) (metis append.assoc blocks_grow)+
qed simp

lemma blocks_ok_prefix: "blocks_ok (bs @ cs) \<Longrightarrow> blocks_ok bs"
  by (auto simp: blocks_ok_def sorted_wrt_append)

fun request_ok :: "request \<Rightarrow> bool" where
  "request_ok (Bytes n) \<longleftrightarrow> 0 < n"
| "request_ok (Aligned n) \<longleftrightarrow> 0 < n \<and> n < 2 ^ 63"

lemma arena_run_ok:
  assumes "arena_run new_char qs ar = Some (rs, ar')" and "arena_ok ar us" and "blocks_ok (ar_blocks ar')"
    and "list_all request_ok qs"
  shows "arena_ok ar' (us @ rs)"
  using assms
proof (induction qs arbitrary: ar us rs)
  case (Cons q qs)
  from Cons.prems(1) obtain n a ar1 rs1 where q: "q = Bytes n \<and> Arena_Allocate new_char n ar = Some (a, ar1)
      \<or> q = Aligned n \<and> Arena_AllocateAligned new_char n ar = Some (a, ar1)"
    and run: "arena_run new_char qs ar1 = Some (rs1, ar')" and rs: "rs = (a, n) # rs1"
    by (auto split: request.splits option.splits)
  have "blocks_ok (ar_blocks ar1)"
    using arena_run_blocks [OF run] Cons.prems(3) blocks_ok_prefix by metis
  then have "arena_ok ar1 (us @ [(a, n)])"
    using q Allocate_ok [OF Cons.prems(2)] AllocateAligned_ok(1) [OF Cons.prems(2)] Cons.prems(4) by auto
  from Cons.IH [OF run this Cons.prems(3)] Cons.prems(4) show ?case by (simp add: rs)
qed simp

lemma allocations_total:
  assumes "aligned_blocks new_char"
  shows "\<exists>a ar'. Arena_AllocateAligned new_char n ar = Some (a, ar')" and "0 < n \<Longrightarrow> \<exists>a ar'. Arena_Allocate new_char n ar = Some (a, ar')"
proof -
  have "fst (Arena_AllocateFallback new_char n ar) = new_char (length (ar_blocks ar))"
    by (auto simp: Arena_AllocateFallback_def Arena_AllocateNewBlock_def Let_def)
  then show "\<exists>a ar'. Arena_AllocateAligned new_char n ar = Some (a, ar')"
    using assms [unfolded aligned_blocks_def] aligned_slop [of "ar_alloc_ptr ar"]
    by (cases "Arena_AllocateFallback new_char n ar") (auto simp: Arena_AllocateAligned_def Let_def)
qed (cases "Arena_AllocateFallback new_char n ar"; auto simp: Arena_Allocate_def)

lemma arena_run_total:
  assumes "aligned_blocks new_char" and "list_all request_ok qs"
  shows "\<exists>rs ar'. arena_run new_char qs ar = Some (rs, ar')"
  using assms(2)
proof (induction qs arbitrary: ar)
  case (Cons q qs)
  note allocations_total [OF assms(1)]
  then show ?case
    using Cons by (cases q) (fastforce split: option.splits)+
qed simp

text \<open>
  C29. If \<^verbatim>\<open>new char[]\<close> returns aligned blocks, every sequence of requests is served, and as
  long as the blocks do not overlap what is handed out lies in the blocks and no two
  allocations overlap; what was asked to be aligned is.
\<close>

theorem arena_allocations_apart:
  assumes "aligned_blocks new_char" and "list_all request_ok qs"
  shows "\<exists>rs ar. arena_run new_char qs Arena_new = Some (rs, ar) \<and> length rs = length qs \<and>
    (blocks_ok (ar_blocks ar) \<longrightarrow>
      sorted_wrt apart rs \<and> (\<forall>r\<in>set rs. \<exists>b\<in>set (ar_blocks ar). inside r b))"
proof -
  obtain rs ar where run: "arena_run new_char qs Arena_new = Some (rs, ar)"
    using arena_run_total [OF assms] by blast
  have "length rs = length qs" if "arena_run new_char qs ar0 = Some (rs, ar)" for ar0
    using that by (induction qs arbitrary: rs ar0) (auto split: request.splits option.splits)
  then show ?thesis
    using run arena_run_ok [OF run arena_new_ok _ assms(2)] by (auto simp: arena_ok_def)
qed

theorem arena_allocations_apart_witness:
  "\<exists>rs ar. arena_run (\<lambda>_. 0x10000) [Bytes 10, Aligned 16] Arena_new = Some (rs, ar) \<and> sorted_wrt apart rs"
proof -
  obtain rs ar where ar: "arena_run (\<lambda>_. 0x10000) [Bytes 10, Aligned 16] Arena_new = Some (rs, ar)"
    "blocks_ok (ar_blocks ar) \<Longrightarrow> sorted_wrt apart rs"
    using arena_allocations_apart [of "\<lambda>_. 0x10000" "[Bytes 10, Aligned 16]"] by (auto simp: aligned_blocks_def)
  then have "ar_blocks ar = [(0x10000, 4096)]"
    by (auto simp: Arena_new_def Arena_Allocate_def Arena_AllocateAligned_def Arena_AllocateFallback_def
        Arena_AllocateNewBlock_def Arena_advance_def kArenaBlockSize_def Let_def split: if_splits)
  then show ?thesis using ar by (auto simp: blocks_ok_def)
qed

end
