(* ===== verification/LDB_Skiplist.thy ===== *)
theory LDB_Skiplist
  imports LDB_Arena "HOL-Library.Monad_Syntax"
begin

text \<open>
  \<^verbatim>\<open>db/skiplist.h\<close> of \<^verbatim>\<open>src/MovieDBApp/Pods/leveldb-library\<close>: the ordered set of the
  memtable, a list whose nodes carry pointers to later nodes on up to twelve levels.

  A pointer to a node is its place in the order of creation, the head being \<open>0\<close>;
  \<^const>\<open>None\<close> inside a node is the null pointer. The memory of the nodes comes from the
  arena. Outside, \<^const>\<open>None\<close> is a failed assertion, a read past the pointers of a node or a
  loop that does not end. One thread at a time: the atomic accesses are plain ones.
\<close>

section \<open>Nodes\<close>

record 'k Node =
  nd_key :: 'k
  nd_next :: "nat option list"

record 'k SkipList =
  sl_nodes :: "'k Node list"
  sl_max_height :: nat
  sl_rnd :: u32

definition kMaxHeight :: nat where "kMaxHeight = 12"

text \<open>The outer option is for reads out of bounds.\<close>

definition Node_Next :: "'k SkipList \<Rightarrow> nat \<Rightarrow> nat \<Rightarrow> nat option option" where
  "Node_Next sl x n =
     (if x < length (sl_nodes sl) \<and> n < length (nd_next (sl_nodes sl ! x)) then Some (nd_next (sl_nodes sl ! x) ! n) else None)"

definition Node_SetNext :: "'k SkipList \<Rightarrow> nat \<Rightarrow> nat \<Rightarrow> nat option \<Rightarrow> 'k SkipList option" where
  "Node_SetNext sl x n y =
     (if x < length (sl_nodes sl) \<and> n < length (nd_next (sl_nodes sl ! x))
      then Some (sl\<lparr>sl_nodes := (sl_nodes sl)[x := (sl_nodes sl ! x)\<lparr>nd_next := (nd_next (sl_nodes sl ! x))[n := y]\<rparr>]\<rparr>)
      else None)"

definition node_key :: "'k SkipList \<Rightarrow> nat \<Rightarrow> 'k" where
  "node_key sl x = nd_key (sl_nodes sl ! x)"

text \<open>The pointers of a new node are not initialised; here they are null.\<close>

definition NewNode :: "(nat \<Rightarrow> u64) \<Rightarrow> 'k \<Rightarrow> nat \<Rightarrow> 'k SkipList \<Rightarrow> Arena \<Rightarrow> (nat \<times> 'k SkipList \<times> Arena) option" where
  "NewNode new_char key height sl ar = do {
     (_, ar) \<leftarrow> Arena_AllocateAligned new_char (16 + 8 * (of_nat height - 1)) ar;
     Some (length (sl_nodes sl), sl\<lparr>sl_nodes := sl_nodes sl @ [\<lparr>nd_key = key, nd_next = replicate height None\<rparr>]\<rparr>, ar)
   }"

fun set_all_null :: "nat \<Rightarrow> 'k SkipList \<Rightarrow> 'k SkipList option" where
  "set_all_null 0 sl = Some sl"
| "set_all_null (Suc i) sl = do { sl \<leftarrow> set_all_null i sl; Node_SetNext sl 0 i None }"

definition SkipList_new :: "(nat \<Rightarrow> u64) \<Rightarrow> 'k \<Rightarrow> Arena \<Rightarrow> ('k SkipList \<times> Arena) option" where
  "SkipList_new new_char any_key ar = do {
     (_, sl, ar) \<leftarrow> NewNode new_char any_key kMaxHeight \<lparr>sl_nodes = [], sl_max_height = 1, sl_rnd = Random_new 0xdeadbeef\<rparr> ar;
     sl \<leftarrow> set_all_null kMaxHeight sl;
     Some (sl, ar)
   }"

function random_height_loop :: "nat \<Rightarrow> u32 \<Rightarrow> nat \<times> u32" where
  "random_height_loop height rnd =
     (if height < kMaxHeight
      then let rnd = Random_Next rnd in if rnd mod 4 = 0 then random_height_loop (height + 1) rnd else (height, rnd)
      else (height, rnd))"
  by auto
termination by (relation "measure (\<lambda>(height, _). kMaxHeight - height)") auto

definition RandomHeight :: "u32 \<Rightarrow> nat \<times> u32" where
  "RandomHeight rnd = random_height_loop 1 rnd"

section \<open>Searching\<close>

type_synonym 'k compare = "'k \<Rightarrow> 'k \<Rightarrow> int option"

definition KeyIsAfterNode :: "'k compare \<Rightarrow> 'k SkipList \<Rightarrow> 'k \<Rightarrow> nat option \<Rightarrow> bool option" where
  "KeyIsAfterNode compare sl key n =
     (case n of None \<Rightarrow> Some False | Some n \<Rightarrow> do { r \<leftarrow> compare (node_key sl n) key; Some (r < 0) })"

text \<open>The array \<open>prev\<close>; the empty list is the null pointer, where nothing is stored.\<close>

partial_function (option) FindGreaterOrEqual_loop ::
  "'k compare \<Rightarrow> 'k SkipList \<Rightarrow> 'k \<Rightarrow> nat \<Rightarrow> nat \<Rightarrow> nat list \<Rightarrow> (nat option \<times> nat list) option" where
  "FindGreaterOrEqual_loop compare sl key x level prev = do {
     next \<leftarrow> Node_Next sl x level;
     after \<leftarrow> KeyIsAfterNode compare sl key next;
     if after then FindGreaterOrEqual_loop compare sl key (the next) level prev
     else let prev = prev[level := x] in
       if level = 0 then Some (next, prev) else FindGreaterOrEqual_loop compare sl key x (level - 1) prev
   }"

definition FindGreaterOrEqual :: "'k compare \<Rightarrow> 'k SkipList \<Rightarrow> 'k \<Rightarrow> nat list \<Rightarrow> (nat option \<times> nat list) option" where
  "FindGreaterOrEqual compare sl key prev = FindGreaterOrEqual_loop compare sl key 0 (sl_max_height sl - 1) prev"

partial_function (option) FindLessThan_loop :: "'k compare \<Rightarrow> 'k SkipList \<Rightarrow> 'k \<Rightarrow> nat \<Rightarrow> nat \<Rightarrow> nat option" where
  "FindLessThan_loop compare sl key x level = do {
     less \<leftarrow> (if x = 0 then Some True else do { r \<leftarrow> compare (node_key sl x) key; Some (r < 0) });
     next \<leftarrow> (if less then Node_Next sl x level else None);
     stop \<leftarrow> (case next of None \<Rightarrow> Some True | Some n \<Rightarrow> do { r \<leftarrow> compare (node_key sl n) key; Some (r \<ge> 0) });
     if stop then if level = 0 then Some x else FindLessThan_loop compare sl key x (level - 1)
     else FindLessThan_loop compare sl key (the next) level
   }"

definition FindLessThan :: "'k compare \<Rightarrow> 'k SkipList \<Rightarrow> 'k \<Rightarrow> nat option" where
  "FindLessThan compare sl key = FindLessThan_loop compare sl key 0 (sl_max_height sl - 1)"

partial_function (option) FindLast_loop :: "'k SkipList \<Rightarrow> nat \<Rightarrow> nat \<Rightarrow> nat option" where
  "FindLast_loop sl x level = do {
     next \<leftarrow> Node_Next sl x level;
     case next of
       None \<Rightarrow> if level = 0 then Some x else FindLast_loop sl x (level - 1)
     | Some next \<Rightarrow> FindLast_loop sl next level
   }"

definition FindLast :: "'k SkipList \<Rightarrow> nat option" where
  "FindLast sl = FindLast_loop sl 0 (sl_max_height sl - 1)"

section \<open>Inserting\<close>

text \<open>\<^verbatim>\<open>for (int i = GetMaxHeight(); i < height; i++) prev[i] = head_;\<close>\<close>

definition raise_prev :: "nat \<Rightarrow> nat \<Rightarrow> nat list \<Rightarrow> nat list" where
  "raise_prev from height prev = fold (\<lambda>i prev. prev[i := 0]) [from..<height] prev"

fun link_levels :: "nat \<Rightarrow> nat list \<Rightarrow> nat list \<Rightarrow> 'k SkipList \<Rightarrow> 'k SkipList option" where
  "link_levels x prev [] sl = Some sl"
| "link_levels x prev (i # is) sl = do {
     next \<leftarrow> Node_Next sl (prev ! i) i;
     sl \<leftarrow> Node_SetNext sl x i next;
     sl \<leftarrow> Node_SetNext sl (prev ! i) i (Some x);
     link_levels x prev is sl
   }"

definition SkipList_Equal :: "'k compare \<Rightarrow> 'k \<Rightarrow> 'k \<Rightarrow> bool option" where
  "SkipList_Equal compare a b = do { r \<leftarrow> compare a b; Some (r = 0) }"

definition SkipList_Insert ::
  "'k compare \<Rightarrow> (nat \<Rightarrow> u64) \<Rightarrow> 'k \<Rightarrow> 'k SkipList \<Rightarrow> Arena \<Rightarrow> ('k SkipList \<times> Arena) option" where
  "SkipList_Insert compare new_char key sl ar = do {
     (x, prev) \<leftarrow> FindGreaterOrEqual compare sl key (replicate kMaxHeight 0);
     duplicate \<leftarrow> (case x of None \<Rightarrow> Some False | Some x \<Rightarrow> SkipList_Equal compare key (node_key sl x));
     if duplicate then None
     else do {
       let (height, rnd) = RandomHeight (sl_rnd sl);
       let sl = sl\<lparr>sl_rnd := rnd\<rparr>;
       let (prev, sl) =
         (if height > sl_max_height sl
          then (raise_prev (sl_max_height sl) height prev, sl\<lparr>sl_max_height := height\<rparr>) else (prev, sl));
       (x, sl, ar) \<leftarrow> NewNode new_char key height sl ar;
       sl \<leftarrow> link_levels x prev [0..<height] sl;
       Some (sl, ar)
     }
   }"

definition SkipList_Contains :: "'k compare \<Rightarrow> 'k SkipList \<Rightarrow> 'k \<Rightarrow> bool option" where
  "SkipList_Contains compare sl key = do {
     (x, _) \<leftarrow> FindGreaterOrEqual compare sl key [];
     case x of None \<Rightarrow> Some False | Some x \<Rightarrow> SkipList_Equal compare key (node_key sl x)
   }"

section \<open>Iterators\<close>

text \<open>The state of an iterator is its node.\<close>

definition sli_Valid :: "nat option \<Rightarrow> bool" where
  "sli_Valid node = (node \<noteq> None)"

definition sli_key :: "'k SkipList \<Rightarrow> nat option \<Rightarrow> 'k option" where
  "sli_key sl node = map_option (node_key sl) node"

definition sli_Next :: "'k SkipList \<Rightarrow> nat option \<Rightarrow> nat option option" where
  "sli_Next sl node = do { x \<leftarrow> node; Node_Next sl x 0 }"

text \<open>The head is not a position.\<close>

definition unless_head :: "nat \<Rightarrow> nat option" where
  "unless_head x = (if x = 0 then None else Some x)"

definition sli_Prev :: "'k compare \<Rightarrow> 'k SkipList \<Rightarrow> nat option \<Rightarrow> nat option option" where
  "sli_Prev compare sl node = do { x \<leftarrow> node; map_option unless_head (FindLessThan compare sl (node_key sl x)) }"

definition sli_Seek :: "'k compare \<Rightarrow> 'k SkipList \<Rightarrow> 'k \<Rightarrow> nat option \<Rightarrow> nat option option" where
  "sli_Seek compare sl target node = map_option fst (FindGreaterOrEqual compare sl target [])"

definition sli_SeekToFirst :: "'k SkipList \<Rightarrow> nat option \<Rightarrow> nat option option" where
  "sli_SeekToFirst sl node = Node_Next sl 0 0"

definition sli_SeekToLast :: "'k SkipList \<Rightarrow> nat option \<Rightarrow> nat option option" where
  "sli_SeekToLast sl node = map_option unless_head (FindLast sl)"

end
