(* ===== verification/LDB_Skiplist_Props.thy ===== *)
theory LDB_Skiplist_Props
  imports LDB_Skiplist
begin

text \<open>
  The skip list of \<^verbatim>\<open>db/skiplist.h\<close> implements a sorted list.

  \<open>list_ok sl ns\<close> says that the nodes are \<open>ns\<close> in the order of their keys and that the
  pointers of level \<open>l\<close> run through those of them that are higher than \<open>l\<close>. Searches end
  where the list says, from any state that satisfies it; an insertion keeps it, whatever
  height the new node gets.
\<close>

section \<open>The invariant\<close>

definition height_of :: "'k SkipList \<Rightarrow> nat \<Rightarrow> nat" where
  "height_of sl n = length (nd_next (sl_nodes sl ! n))"

definition tall :: "'k SkipList \<Rightarrow> nat \<Rightarrow> nat list \<Rightarrow> nat list" where
  "tall sl l ns = List.filter (\<lambda>n. l < height_of sl n) ns"

fun linked :: "'k SkipList \<Rightarrow> nat \<Rightarrow> nat \<Rightarrow> nat list \<Rightarrow> bool" where
  "linked sl l x [] \<longleftrightarrow> Node_Next sl x l = Some None"
| "linked sl l x (y # ys) \<longleftrightarrow> Node_Next sl x l = Some (Some y) \<and> linked sl l y ys"

definition first :: "nat list \<Rightarrow> nat option" where
  "first xs = (case xs of [] \<Rightarrow> None | x # _ \<Rightarrow> Some x)"

definition list_ok :: "('k \<Rightarrow> bool) \<Rightarrow> ('k \<Rightarrow> 'k \<Rightarrow> bool) \<Rightarrow> 'k SkipList \<Rightarrow> nat list \<Rightarrow> bool" where
  "list_ok key_ok lt sl ns \<longleftrightarrow>
     distinct ns \<and> set ns = {1..<length (sl_nodes sl)} \<and> sl_nodes sl \<noteq> [] \<and>
     height_of sl 0 = kMaxHeight \<and> 1 \<le> sl_max_height sl \<and> sl_max_height sl \<le> kMaxHeight \<and>
     (\<forall>n\<in>set ns. 1 \<le> height_of sl n \<and> height_of sl n \<le> sl_max_height sl \<and> key_ok (node_key sl n)) \<and>
     sorted_wrt lt (map (node_key sl) ns) \<and>
     (\<forall>l<kMaxHeight. linked sl l 0 (tall sl l ns))"

lemma tall_append [simp]: "tall sl l (as @ bs) = tall sl l as @ tall sl l bs"
  by (simp add: tall_def)

lemma linked_drop: "linked sl l x (as @ bs) \<Longrightarrow> linked sl l (last (x # as)) bs"
  by (induction as arbitrary: x) auto

lemma linked_first: "linked sl l x ys \<Longrightarrow> Node_Next sl x l = Some (first ys)"
  by (cases ys) (auto simp: first_def)

section \<open>Walking\<close>

text \<open>
  The searches share one shape: along a level while the next node is among \<open>A\<close>, the front of
  the list, then down. \<open>pred l\<close> is where level \<open>l\<close> is left.
\<close>

definition pred :: "'k SkipList \<Rightarrow> nat list \<Rightarrow> nat \<Rightarrow> nat" where
  "pred sl A l = last (0 # tall sl l A)"

fun preds :: "'k SkipList \<Rightarrow> nat list \<Rightarrow> nat \<Rightarrow> nat list \<Rightarrow> nat list" where
  "preds sl A 0 p = p[0 := pred sl A 0]"
| "preds sl A (Suc l) p = preds sl A l (p[Suc l := pred sl A (Suc l)])"

lemma length_preds [simp]: "length (preds sl A l p) = length p"
  by (induction l arbitrary: p) auto

lemma preds_nth: "i < length p \<Longrightarrow> preds sl A l p ! i = (if i \<le> l then pred sl A i else p ! i)"
  by (induction l arbitrary: p) (auto simp: nth_list_update le_Suc_eq)

lemma walk_level:
  assumes along: "\<And>x y. x \<in> insert 0 (set A) \<Longrightarrow> y \<in> set A \<Longrightarrow> Node_Next sl x l = Some (Some y) \<Longrightarrow> F x = F y"
    and "linked sl l x (bs @ tall sl l B)" and "x \<in> insert 0 (set A)" and "set bs \<subseteq> set A"
  shows "F x = F (last (x # bs))"
  using assms(2-4)
proof (induction bs arbitrary: x)
  case (Cons b bs)
  then have "F x = F b" "F b = F (last (b # bs))" using along [of x b] by auto
  then show ?case by simp
qed simp

lemma walk:
  assumes along: "\<And>x l p y. x \<in> insert 0 (set A) \<Longrightarrow> y \<in> set A \<Longrightarrow> Node_Next sl x l = Some (Some y) \<Longrightarrow> F x l p = F y l p"
    and down: "\<And>x l p n. x \<in> insert 0 (set A) \<Longrightarrow> Node_Next sl x (Suc l) = Some n \<Longrightarrow> n \<in> insert None (Some ` set B) \<Longrightarrow>
      F x (Suc l) p = F x l (p[Suc l := x])"
    and stop: "\<And>x p n. x \<in> insert 0 (set A) \<Longrightarrow> Node_Next sl x 0 = Some n \<Longrightarrow> n \<in> insert None (Some ` set B) \<Longrightarrow>
      F x 0 p = R x n (p[0 := x])"
    and links: "\<And>l. l < kMaxHeight \<Longrightarrow> linked sl l 0 (tall sl l A @ tall sl l B)"
    and "l < kMaxHeight" and "x \<in> set (0 # tall sl l A)"
  shows "F x l p = R (pred sl A 0) (first (tall sl 0 B)) (preds sl A l p)"
  using assms(5,6)
proof (induction l arbitrary: x p)
  have level: "F x l p = F (pred sl A l) l p \<and> pred sl A l \<in> insert 0 (set A) \<and> Node_Next sl (pred sl A l) l = Some (first (tall sl l B))
      \<and> first (tall sl l B) \<in> insert None (Some ` set B)" if l: "l < kMaxHeight" and x: "x \<in> set (0 # tall sl l A)" for l x p
  proof -
    have sub: "set (tall sl l A) \<subseteq> set A" "set (tall sl l B) \<subseteq> set B" by (auto simp: tall_def)
    obtain as bs where s: "0 # tall sl l A = as @ x # bs" using x by (meson split_list)
    then have last: "last (x # bs) = pred sl A l" unfolding pred_def by simp
    have "linked sl l x (bs @ tall sl l B)"
    proof (cases as)
      case Nil
      then show ?thesis using s links [OF l] by simp
    next
      case (Cons a as')
      then have "tall sl l A @ tall sl l B = (as' @ [x]) @ bs @ tall sl l B" using s by simp
      then show ?thesis using linked_drop [of sl l 0 "as' @ [x]" "bs @ tall sl l B"] links [OF l] by simp
    qed
    moreover have "set bs \<subseteq> set A" using s sub(1) by (cases as) auto
    ultimately have "F x l p = F (pred sl A l) l p"
      using walk_level [of A sl l "\<lambda>x. F x l p" x bs B] along x sub(1) unfolding last by auto
    moreover have "Node_Next sl (pred sl A l) l = Some (first (tall sl l B))"
      unfolding pred_def by (rule linked_first, rule linked_drop, rule links [OF l])
    moreover have "pred sl A l \<in> insert 0 (set A)" using sub(1) last_in_set [of "tall sl l A"] by (auto simp: pred_def simp del: last_in_set)
    moreover have "first (tall sl l B) \<in> insert None (Some ` set B)"
      using sub(2) by (auto simp: first_def split: list.splits)
    ultimately show ?thesis by blast
  qed
  {
    case 0
    then show ?case using level [of 0 x] stop [of "pred sl A 0"] by simp
  next
    case (Suc l)
    have "pred sl A (Suc l) \<in> set (0 # tall sl l A)"
      using last_in_set [of "0 # tall sl (Suc l) A"] by (auto simp: pred_def tall_def)
    then show ?case
      using level [OF Suc.prems, of p] down [of "pred sl A (Suc l)" l] Suc.IH [of "pred sl A (Suc l)"] Suc.prems(1) by simp
  }
qed

text \<open>The node at a position; behind the last there is none.\<close>

definition node_at :: "nat list \<Rightarrow> nat \<Rightarrow> nat option" where
  "node_at ns p = (if p < length ns then Some (ns ! p) else None)"

lemma first_drop: "first (drop p ns) = node_at ns p"
proof -
  have "first xs = (if xs = [] then None else Some (hd xs))" for xs by (cases xs) (simp_all add: first_def)
  then show ?thesis by (simp add: node_at_def hd_drop_conv_nth)
qed

section \<open>Searching\<close>

text \<open>
  What the skip list asks of its comparator: a strict order of the keys; keys that compare
  equal need not be the same.
\<close>

locale skip_order =
  fixes compare :: "'k compare" and key_ok :: "'k \<Rightarrow> bool" and lt :: "'k \<Rightarrow> 'k \<Rightarrow> bool"
  assumes compare_total: "key_ok a \<Longrightarrow> key_ok b \<Longrightarrow> \<exists>r. compare a b = Some r \<and> (r < 0 \<longleftrightarrow> lt a b) \<and> (r > 0 \<longleftrightarrow> lt b a)"
    and less_trans: "key_ok a \<Longrightarrow> key_ok b \<Longrightarrow> key_ok c \<Longrightarrow> lt a b \<Longrightarrow> lt b c \<Longrightarrow> lt a c"
    and le_trans: "key_ok a \<Longrightarrow> key_ok b \<Longrightarrow> key_ok c \<Longrightarrow> \<not> lt b a \<Longrightarrow> \<not> lt c b \<Longrightarrow> \<not> lt c a"
begin

abbreviation ok_list :: "'k SkipList \<Rightarrow> nat list \<Rightarrow> bool" where
  "ok_list \<equiv> list_ok key_ok lt"

lemma less_irrefl: "key_ok a \<Longrightarrow> \<not> lt a a"
  using compare_total [of a a] by auto

lemma less_asym: "key_ok a \<Longrightarrow> key_ok b \<Longrightarrow> lt a b \<Longrightarrow> \<not> lt b a"
  using compare_total [of a b] by auto

text \<open>The nodes before a key and the others.\<close>

definition front :: "'k SkipList \<Rightarrow> 'k \<Rightarrow> nat list \<Rightarrow> nat list" where
  "front sl key ns = takeWhile (\<lambda>n. lt (node_key sl n) key) ns"

definition later :: "'k SkipList \<Rightarrow> 'k \<Rightarrow> nat list \<Rightarrow> nat list" where
  "later sl key ns = dropWhile (\<lambda>n. lt (node_key sl n) key) ns"

lemma front_later [simp]: "front sl key ns @ later sl key ns = ns"
  by (simp add: front_def later_def)

lemma front_less: "n \<in> set (front sl key ns) \<Longrightarrow> lt (node_key sl n) key"
  by (auto simp: front_def dest: set_takeWhileD)

lemma list_okD:
  assumes "ok_list sl ns"
  shows "l < kMaxHeight \<Longrightarrow> linked sl l 0 (tall sl l ns)" and "n \<in> set ns \<Longrightarrow> key_ok (node_key sl n)"
    and "n \<in> set ns \<Longrightarrow> n \<noteq> 0" and "sl_max_height sl - 1 < kMaxHeight" and "n \<in> set ns \<Longrightarrow> 0 < height_of sl n"
    and "sorted_wrt lt (map (node_key sl) ns)"
proof -
  have n: "\<forall>n\<in>set ns. 1 \<le> height_of sl n \<and> height_of sl n \<le> sl_max_height sl \<and> key_ok (node_key sl n)"
    using assms unfolding list_ok_def by blast
  show "n \<in> set ns \<Longrightarrow> key_ok (node_key sl n)" "n \<in> set ns \<Longrightarrow> 0 < height_of sl n"
    using n by force+
qed (use assms in \<open>auto simp: list_ok_def kMaxHeight_def\<close>)

lemma front_in: "n \<in> set (front sl key ns) \<Longrightarrow> n \<in> set ns" and later_in: "n \<in> set (later sl key ns) \<Longrightarrow> n \<in> set ns"
  by (auto simp: front_def later_def dest: set_takeWhileD set_dropWhileD)

lemma later_not_less:
  assumes "ok_list sl ns" and "key_ok key" and "n \<in> set (later sl key ns)"
  shows "\<not> lt (node_key sl n) key"
proof
  assume less: "lt (node_key sl n) key"
  obtain m ms where b: "later sl key ns = m # ms" using assms(3) by (cases "later sl key ns") auto
  have m: "\<not> lt (node_key sl m) key" using b hd_dropWhile [of "\<lambda>n. lt (node_key sl n) key" ns] by (auto simp: later_def)
  have sorted: "sorted_wrt lt (map (node_key sl) (front sl key ns @ m # ms))"
    using list_okD(6) [OF assms(1)] front_later [of sl key ns] unfolding b by simp
  have ok: "key_ok (node_key sl m)" "key_ok (node_key sl n)"
    using list_okD(2) [OF assms(1)] later_in [of _ sl key ns] assms(3) b by auto
  have "n \<in> set ms" using assms(3) b m less by auto
  then have "lt (node_key sl m) (node_key sl n)" using sorted by (auto simp: sorted_wrt_append)
  then have "lt (node_key sl m) key" using less_trans [OF ok assms(2) _ less] by simp
  then show False using m by simp
qed

lemma tall_0: "ok_list sl ns \<Longrightarrow> set ms \<subseteq> set ns \<Longrightarrow> tall sl 0 ms = ms"
  unfolding tall_def by (rule filter_True) (blast intro: list_okD(5))

lemma KeyIsAfterNode_works:
  assumes "ok_list sl ns" and "key_ok key"
  shows "y \<in> set (front sl key ns) \<Longrightarrow> KeyIsAfterNode compare sl key (Some y) = Some True"
    and "n \<in> insert None (Some ` set (later sl key ns)) \<Longrightarrow> KeyIsAfterNode compare sl key n = Some False"
proof -
  have ok: "key_ok (node_key sl n)" if "n \<in> set (front sl key ns) \<or> n \<in> set (later sl key ns)" for n
    using that list_okD(2) [OF assms(1)] front_in later_in by metis
  show "KeyIsAfterNode compare sl key (Some y) = Some True" if "y \<in> set (front sl key ns)"
    using compare_total [OF ok assms(2), of y] that front_less [OF that] by (auto simp: KeyIsAfterNode_def)
  show "KeyIsAfterNode compare sl key n = Some False" if "n \<in> insert None (Some ` set (later sl key ns))"
    using compare_total [OF ok assms(2)] that later_not_less [OF assms] by (fastforce simp: KeyIsAfterNode_def)
qed

lemma FindGreaterOrEqual_works:
  assumes "ok_list sl ns" and "key_ok key"
  shows "FindGreaterOrEqual compare sl key prev
    = Some (first (later sl key ns), preds sl (front sl key ns) (sl_max_height sl - 1) prev)"
proof -
  let ?A = "front sl key ns" and ?B = "later sl key ns"
  have "FindGreaterOrEqual_loop compare sl key 0 (sl_max_height sl - 1) prev
    = Some (first (tall sl 0 ?B), preds sl ?A (sl_max_height sl - 1) prev)"
  proof (rule walk [where F = "FindGreaterOrEqual_loop compare sl key" and R = "\<lambda>x n p. Some (n, p)" and A = ?A and B = ?B])
    show "linked sl l 0 (tall sl l ?A @ tall sl l ?B)" if "l < kMaxHeight" for l
      using list_okD(1) [OF assms(1) that] by (metis front_later tall_append)
    show "FindGreaterOrEqual_loop compare sl key x l p = FindGreaterOrEqual_loop compare sl key y l p"
      if "y \<in> set ?A" "Node_Next sl x l = Some (Some y)" for x l p y
      using that by (subst FindGreaterOrEqual_loop.simps) (simp add: KeyIsAfterNode_works(1) [OF assms])
    show "FindGreaterOrEqual_loop compare sl key x (Suc l) p = FindGreaterOrEqual_loop compare sl key x l (p[Suc l := x])"
      if "Node_Next sl x (Suc l) = Some n" "n \<in> insert None (Some ` set ?B)" for x l p n
      using that(1) KeyIsAfterNode_works(2) [OF assms that(2)] by (subst FindGreaterOrEqual_loop.simps) simp
    show "FindGreaterOrEqual_loop compare sl key x 0 p = Some (n, p[0 := x])"
      if "Node_Next sl x 0 = Some n" "n \<in> insert None (Some ` set ?B)" for x p n
      using that(1) KeyIsAfterNode_works(2) [OF assms that(2)] by (subst FindGreaterOrEqual_loop.simps) simp
  qed (use list_okD(4) [OF assms(1)] in simp_all)
  moreover have "tall sl 0 ?B = ?B" using later_in by (intro tall_0 [OF assms(1)]) blast
  ultimately show ?thesis by (simp add: FindGreaterOrEqual_def)
qed

lemma FindLessThan_works:
  assumes "ok_list sl ns" and "key_ok key"
  shows "FindLessThan compare sl key = Some (last (0 # front sl key ns))"
proof -
  let ?A = "front sl key ns" and ?B = "later sl key ns"
  have ok: "key_ok (node_key sl n)" if "n \<in> set ?A \<or> n \<in> set ?B" for n
    using that list_okD(2) [OF assms(1)] front_in later_in by metis
  have less: "\<exists>r. compare (node_key sl n) key = Some r \<and> r < 0" if "n \<in> set ?A" for n
    using compare_total [OF ok assms(2), of n] front_less [OF that] that by auto
  have not_less: "\<exists>r. compare (node_key sl n) key = Some r \<and> \<not> r < 0" if "n \<in> set ?B" for n
    using compare_total [OF ok assms(2), of n] later_not_less [OF assms that] that by auto
  have here: "(if x = 0 then Some True else do { r \<leftarrow> compare (node_key sl x) key; Some (r < 0) }) = Some True"
    if "x \<in> insert 0 (set ?A)" for x
    using that less [of x] by auto
  have "(\<lambda>x l (p :: nat list). FindLessThan_loop compare sl key x l) 0 (sl_max_height sl - 1) [] = Some (pred sl ?A 0)"
  proof (rule walk [where R = "\<lambda>x n p. Some x" and A = ?A and B = ?B])
    show "linked sl l 0 (tall sl l ?A @ tall sl l ?B)" if "l < kMaxHeight" for l
      using list_okD(1) [OF assms(1) that] by (metis front_later tall_append)
    show "FindLessThan_loop compare sl key x l = FindLessThan_loop compare sl key y l"
      if "x \<in> insert 0 (set ?A)" "y \<in> set ?A" "Node_Next sl x l = Some (Some y)" for x l y
      using that(3) here [OF that(1)] less [OF that(2)] by (subst FindLessThan_loop.simps) (auto simp del: insert_iff)
    show "FindLessThan_loop compare sl key x (Suc l) = FindLessThan_loop compare sl key x l"
      if "x \<in> insert 0 (set ?A)" "Node_Next sl x (Suc l) = Some n" "n \<in> insert None (Some ` set ?B)" for x l n
      using that(2,3) here [OF that(1)] not_less by (subst FindLessThan_loop.simps) fastforce
    show "FindLessThan_loop compare sl key x 0 = Some x"
      if "x \<in> insert 0 (set ?A)" "Node_Next sl x 0 = Some n" "n \<in> insert None (Some ` set ?B)" for x n
      using that(2,3) here [OF that(1)] not_less by (subst FindLessThan_loop.simps) fastforce
  qed (use list_okD(4) [OF assms(1)] in simp_all)
  moreover have "tall sl 0 ?A = ?A" using front_in by (intro tall_0 [OF assms(1)]) blast
  ultimately show ?thesis by (simp add: FindLessThan_def pred_def)
qed

lemma FindLast_works:
  assumes "ok_list sl ns"
  shows "FindLast sl = Some (last (0 # ns))"
proof -
  have "(\<lambda>x l (p :: nat list). FindLast_loop sl x l) 0 (sl_max_height sl - 1) [] = Some (pred sl ns 0)"
  proof (rule walk [where R = "\<lambda>x n p. Some x" and A = ns and B = "[]"])
    show "linked sl l 0 (tall sl l ns @ tall sl l [])" if "l < kMaxHeight" for l
      using list_okD(1) [OF assms that] by (simp add: tall_def)
  qed (use list_okD(4) [OF assms] in \<open>simp_all add: FindLast_loop.simps [of sl x l for x l]\<close>)
  then show ?thesis by (simp add: FindLast_def pred_def tall_0 [OF assms])
qed

end

section \<open>Linking a node\<close>

text \<open>The same nodes with the same keys and heights.\<close>

definition same_nodes :: "'k SkipList \<Rightarrow> 'k SkipList \<Rightarrow> bool" where
  "same_nodes sl sl' \<longleftrightarrow>
     length (sl_nodes sl') = length (sl_nodes sl) \<and> sl_max_height sl' = sl_max_height sl \<and>
     (\<forall>n<length (sl_nodes sl). node_key sl' n = node_key sl n \<and> height_of sl' n = height_of sl n)"

lemma same_nodes_refl: "same_nodes sl sl"
  by (simp add: same_nodes_def)

lemma same_nodes_trans: "same_nodes sl sl1 \<Longrightarrow> same_nodes sl1 sl2 \<Longrightarrow> same_nodes sl sl2"
  by (simp add: same_nodes_def)

lemma Node_Next_Some: "n < length (sl_nodes sl) \<Longrightarrow> l < height_of sl n \<Longrightarrow> \<exists>y. Node_Next sl n l = Some y"
  by (simp add: Node_Next_def height_of_def)

lemma Node_SetNext_works:
  assumes "x < length (sl_nodes sl)" and "n < height_of sl x"
  shows "\<exists>sl'. Node_SetNext sl x n y = Some sl' \<and> same_nodes sl sl' \<and>
    (\<forall>a b. Node_Next sl' a b = (if a = x \<and> b = n then Some y else Node_Next sl a b))"
  using assms by (auto simp: Node_SetNext_def Node_Next_def same_nodes_def height_of_def node_key_def nth_list_update)

lemma link_levels_works:
  assumes "x < length (sl_nodes sl)" and "distinct is"
    and "\<And>i. i \<in> set is \<Longrightarrow> i < height_of sl x \<and> prev ! i < length (sl_nodes sl) \<and> i < height_of sl (prev ! i) \<and> prev ! i \<noteq> x"
  shows "\<exists>sl'. link_levels x prev is sl = Some sl' \<and> same_nodes sl sl' \<and>
    (\<forall>a l. Node_Next sl' a l =
      (if l \<in> set is then if a = x then Node_Next sl (prev ! l) l else if a = prev ! l then Some (Some x) else Node_Next sl a l
       else Node_Next sl a l))"
  using assms
proof (induction "is" arbitrary: sl)
  case (Cons i "is")
  have i: "i < height_of sl x" "prev ! i < length (sl_nodes sl)" "i < height_of sl (prev ! i)" "prev ! i \<noteq> x" "i \<notin> set is"
    using Cons.prems(2,3) by auto
  obtain next1 where n: "Node_Next sl (prev ! i) i = Some next1" using Node_Next_Some [OF i(2,3)] by blast
  obtain sl1 where s1: "Node_SetNext sl x i next1 = Some sl1" "same_nodes sl sl1"
    "\<And>a b. Node_Next sl1 a b = (if a = x \<and> b = i then Some next1 else Node_Next sl a b)"
    using Node_SetNext_works [OF Cons.prems(1) i(1)] by metis
  have i1: "prev ! i < length (sl_nodes sl1)" "i < height_of sl1 (prev ! i)" using i s1(2) by (auto simp: same_nodes_def)
  obtain sl2 where s2: "Node_SetNext sl1 (prev ! i) i (Some x) = Some sl2" "same_nodes sl1 sl2"
    "\<And>a b. Node_Next sl2 a b = (if a = prev ! i \<and> b = i then Some (Some x) else Node_Next sl1 a b)"
    using Node_SetNext_works [OF i1] by metis
  have same: "same_nodes sl sl2" using s1(2) s2(2) by (rule same_nodes_trans)
  have pre: "x < length (sl_nodes sl2)" "distinct is"
    "\<And>j. j \<in> set is \<Longrightarrow> j < height_of sl2 x \<and> prev ! j < length (sl_nodes sl2) \<and> j < height_of sl2 (prev ! j) \<and> prev ! j \<noteq> x"
    using same Cons.prems by (auto simp: same_nodes_def)
  obtain sl' where s': "link_levels x prev is sl2 = Some sl'" "same_nodes sl2 sl'"
    "\<And>a l. Node_Next sl' a l =
      (if l \<in> set is then if a = x then Node_Next sl2 (prev ! l) l else if a = prev ! l then Some (Some x) else Node_Next sl2 a l
       else Node_Next sl2 a l)"
    using Cons.IH [OF pre] by metis
  have "link_levels x prev (i # is) sl = Some sl'" by (simp add: n s1(1) s2(1) s'(1))
  moreover have "Node_Next sl' a l = (if l \<in> set (i # is) then if a = x then Node_Next sl (prev ! l) l
      else if a = prev ! l then Some (Some x) else Node_Next sl a l else Node_Next sl a l)" for a l
    using i(4,5) Cons.prems(3) by (auto simp: s'(3) s2(3) s1(3) n)
  ultimately show ?case using same_nodes_trans [OF same s'(2)] by blast
qed (simp add: same_nodes_refl)

lemma linked_cong:
  "(\<And>y. y \<in> set (x # ys) \<Longrightarrow> Node_Next sl' y l = Node_Next sl y l) \<Longrightarrow> linked sl' l x ys \<longleftrightarrow> linked sl l x ys"
  by (induction ys arbitrary: x) auto

lemma linked_splice:
  assumes "linked sl l z (as @ bs)" and "distinct (z # as @ bs)" and "x \<notin> set (z # as @ bs)"
    and "Node_Next sl' x l = Node_Next sl (last (z # as)) l" and "Node_Next sl' (last (z # as)) l = Some (Some x)"
    and "\<And>y. y \<in> set (z # as @ bs) \<Longrightarrow> y \<noteq> last (z # as) \<Longrightarrow> Node_Next sl' y l = Node_Next sl y l"
  shows "linked sl' l z (as @ x # bs)"
  using assms
proof (induction as arbitrary: z)
  case Nil
  have "linked sl' l x bs"
  proof (cases bs)
    case Nil
    then show ?thesis using Nil.prems(1,4) by simp
  next
    case (Cons b bs')
    have "linked sl' l b bs' \<longleftrightarrow> linked sl l b bs'"
      using Nil.prems(2,6) Cons by (intro linked_cong) auto
    then show ?thesis using Nil.prems(1,4) Cons by simp
  qed
  then show ?case using Nil.prems(5) by simp
next
  case (Cons a as)
  have "last (a # as) \<in> set (a # as)" by (rule last_in_set) simp
  then have "z \<noteq> last (a # as)" using Cons.prems(2) by auto
  then show ?case using Cons.IH [of a] Cons.prems by auto
qed

section \<open>Inserting\<close>

declare random_height_loop.simps [simp del]

lemma RandomHeight_bounds: "RandomHeight rnd = (h, rnd') \<Longrightarrow> 1 \<le> h \<and> h \<le> kMaxHeight"
proof -
  have "n \<le> kMaxHeight \<Longrightarrow> n \<le> fst (random_height_loop n rnd) \<and> fst (random_height_loop n rnd) \<le> kMaxHeight" for n
    by (induction n rnd rule: random_height_loop.induct) (subst (1 2) random_height_loop.simps, fastforce simp: Let_def)
  from this [of 1] show "RandomHeight rnd = (h, rnd') \<Longrightarrow> 1 \<le> h \<and> h \<le> kMaxHeight"
    by (simp add: RandomHeight_def kMaxHeight_def)
qed

lemma raise_prev_nth:
  "i < length p \<Longrightarrow> raise_prev from h p ! i = (if from \<le> i \<and> i < h then 0 else p ! i)"
  "length (raise_prev from h p) = length p"
  by (induction h) (auto simp: raise_prev_def nth_list_update less_Suc_eq)

lemma pred_in: "pred sl A l \<in> insert 0 (set (tall sl l A))"
  using last_in_set [of "tall sl l A"] by (auto simp: pred_def simp del: last_in_set)

lemma tall_same:
  "(\<And>n. n \<in> set ns \<Longrightarrow> height_of sl' n = height_of sl n) \<Longrightarrow> tall sl' l ns = tall sl l ns"
  unfolding tall_def by (rule filter_cong) auto

text \<open>A list with one more node, linked behind \<open>pred\<close> on the levels below its height.\<close>

lemma insert_node_ok:
  assumes ok: "list_ok key_ok lt sl (A @ B)" and key: "key_ok (node_key sl' x)"
    and x: "x = length (sl_nodes sl)" "length (sl_nodes sl') = Suc x" "height_of sl' x = h" "1 \<le> h" "h \<le> kMaxHeight"
    and same: "\<And>n. n < x \<Longrightarrow> node_key sl' n = node_key sl n \<and> height_of sl' n = height_of sl n"
    and max: "sl_max_height sl' = max (sl_max_height sl) h"
    and sorted: "\<And>n. n \<in> set A \<Longrightarrow> lt (node_key sl n) (node_key sl' x)" "\<And>n. n \<in> set B \<Longrightarrow> lt (node_key sl' x) (node_key sl n)"
    and next': "\<And>a l. a \<le> x \<Longrightarrow> l < kMaxHeight \<Longrightarrow> Node_Next sl' a l =
      (if l < h then if a = x then Node_Next sl (pred sl A l) l else if a = pred sl A l then Some (Some x) else Node_Next sl a l
       else if a = x then None else Node_Next sl a l)"
  shows "list_ok key_ok lt sl' (A @ x # B)"
proof -
  have nodes: "set (A @ B) = {1..<x}" "distinct (A @ B)" "0 < x" using ok x(1) by (auto simp: list_ok_def)
  have lt_x: "n < x" "n \<noteq> 0" if "n \<in> set A \<or> n \<in> set B" for n
  proof -
    have "n \<in> set (A @ B)" using that by auto
    then have "n \<in> {1..<x}" by (simp only: nodes(1))
    then show "n < x" "n \<noteq> 0" by auto
  qed
  have tall': "tall sl' l A = tall sl l A" "tall sl' l B = tall sl l B" for l
    by (rule tall_same, use same lt_x in auto)+
  have "linked sl' l 0 (tall sl' l (A @ x # B))" if l: "l < kMaxHeight" for l
  proof -
    have old: "linked sl l 0 (tall sl l A @ tall sl l B)" using ok l by (simp add: list_ok_def)
    have sub: "set (0 # tall sl l A @ tall sl l B) \<subseteq> {..<x}" using lt_x nodes(3) by (auto simp: tall_def)
    show ?thesis
    proof (cases "l < h")
      case True
      have "linked sl' l 0 (tall sl l A @ x # tall sl l B)"
      proof (rule linked_splice [OF old])
        show "distinct (0 # tall sl l A @ tall sl l B)" using nodes(2) lt_x by (auto simp: tall_def)
        show "x \<notin> set (0 # tall sl l A @ tall sl l B)" using sub by auto
        have p: "last (0 # tall sl l A) = pred sl A l" by (simp add: pred_def)
        have "pred sl A l < x" using pred_in [of sl A l] sub by auto
        then show "Node_Next sl' x l = Node_Next sl (last (0 # tall sl l A)) l" "Node_Next sl' (last (0 # tall sl l A)) l = Some (Some x)"
          using next' [of x l] next' [of "pred sl A l" l] True l unfolding p by auto
        show "Node_Next sl' y l = Node_Next sl y l" if "y \<in> set (0 # tall sl l A @ tall sl l B)" "y \<noteq> last (0 # tall sl l A)" for y
        proof -
          have "y < x" using that(1) sub by blast
          then show ?thesis using next' [of y l] True l that(2) unfolding p by simp
        qed
      qed
      then show ?thesis using True x(3) tall' by (simp add: tall_def)
    next
      case False
      have "linked sl' l 0 (tall sl l A @ tall sl l B) \<longleftrightarrow> linked sl l 0 (tall sl l A @ tall sl l B)"
      proof (rule linked_cong)
        fix y
        assume "y \<in> set (0 # tall sl l A @ tall sl l B)"
        then have "y < x" using sub by blast
        then show "Node_Next sl' y l = Node_Next sl y l" using next' [of y l] False l by simp
      qed
      then show ?thesis using False x(3) tall' old by (simp add: tall_def)
    qed
  qed
  moreover have "sorted_wrt lt (map (node_key sl') (A @ x # B))"
  proof -
    have e: "map (node_key sl') (A @ x # B) = map (node_key sl) A @ node_key sl' x # map (node_key sl) B" using same lt_x by auto
    have "sorted_wrt lt (map (node_key sl) A @ map (node_key sl) B)" using ok by (simp add: list_ok_def)
    then show ?thesis using sorted unfolding e by (auto simp: sorted_wrt_append)
  qed
  moreover have "\<forall>n\<in>set (A @ x # B). 1 \<le> height_of sl' n \<and> height_of sl' n \<le> sl_max_height sl' \<and> key_ok (node_key sl' n)"
  proof -
    have "\<forall>n\<in>set (A @ B). 1 \<le> height_of sl n \<and> height_of sl n \<le> sl_max_height sl \<and> key_ok (node_key sl n)"
      using ok unfolding list_ok_def by blast
    then show ?thesis using same lt_x x(3,4) key by (auto simp: max intro: max.coboundedI1)
  qed
  moreover have "set (A @ x # B) = {1..<length (sl_nodes sl')}" using nodes(1,3) x(2) by auto
  moreover have "distinct (A @ x # B)" using nodes(2) lt_x by auto
  moreover have "height_of sl' 0 = kMaxHeight" "sl_nodes sl' \<noteq> []" "1 \<le> sl_max_height sl'" "sl_max_height sl' \<le> kMaxHeight"
    using ok x(2,4,5) same [OF nodes(3)] by (auto simp: list_ok_def max)
  ultimately show ?thesis unfolding list_ok_def by blast
qed

context skip_order begin

lemma SkipList_Insert_works:
  assumes ok: "ok_list sl ns" and key: "key_ok key" and new: "\<forall>n\<in>set ns. lt (node_key sl n) key \<or> lt key (node_key sl n)"
    and memory: "aligned_blocks new_char"
  shows "\<exists>sl' ar'. SkipList_Insert compare new_char key sl ar = Some (sl', ar')
    \<and> ok_list sl' (front sl key ns @ length (sl_nodes sl) # later sl key ns)
    \<and> length (sl_nodes sl') = Suc (length (sl_nodes sl)) \<and> node_key sl' (length (sl_nodes sl)) = key
    \<and> (\<forall>n<length (sl_nodes sl). node_key sl' n = node_key sl n)"
proof -
  let ?A = "front sl key ns" and ?B = "later sl key ns" and ?x = "length (sl_nodes sl)" and ?m = "sl_max_height sl"
  obtain h rnd where h: "RandomHeight (sl_rnd sl) = (h, rnd)" by fastforce
  have h_le: "1 \<le> h" "h \<le> kMaxHeight" using RandomHeight_bounds [OF h] by auto
  have m: "1 \<le> ?m" "?m \<le> kMaxHeight" and heights: "\<And>n. n \<in> set ns \<Longrightarrow> height_of sl n \<le> ?m"
    and nodes: "set ns = {1..<?x}" "height_of sl 0 = kMaxHeight" "0 < ?x"
    using ok unfolding list_ok_def by auto
  define prev where "prev = (if h > ?m then raise_prev ?m h (preds sl ?A (?m - 1) (replicate kMaxHeight 0))
      else preds sl ?A (?m - 1) (replicate kMaxHeight 0))"
  have prev: "prev ! i = pred sl ?A i" if "i < h" for i
  proof -
    have "tall sl i ?A = []" if "?m \<le> i"
    proof -
      have "\<not> i < height_of sl n" if "n \<in> set ?A" for n using heights [OF front_in [OF that]] \<open>?m \<le> i\<close> by simp
      then show ?thesis unfolding tall_def by (intro filter_False) blast
    qed
    then show ?thesis
      using that h_le(2) m by (auto simp: prev_def raise_prev_nth preds_nth pred_def not_less)
  qed
  define sl0 where "sl0 = sl\<lparr>sl_rnd := rnd, sl_max_height := max ?m h\<rparr>"
  have sl0: "h > ?m \<Longrightarrow> sl\<lparr>sl_rnd := rnd, sl_max_height := h\<rparr> = sl0" "\<not> h > ?m \<Longrightarrow> sl\<lparr>sl_rnd := rnd\<rparr> = sl0"
    by (cases sl, simp add: sl0_def max_def)+
  obtain ar' where ar': "NewNode new_char key h sl0 ar
      = Some (?x, sl0\<lparr>sl_nodes := sl_nodes sl0 @ [\<lparr>nd_key = key, nd_next = replicate h None\<rparr>]\<rparr>, ar')"
    using allocations_total(1) [OF memory, of "16 + 8 * (of_nat h - 1)" ar] by (auto simp: NewNode_def sl0_def)
  define sl1 where "sl1 = sl0\<lparr>sl_nodes := sl_nodes sl0 @ [\<lparr>nd_key = key, nd_next = replicate h None\<rparr>]\<rparr>"
  have sl1: "length (sl_nodes sl1) = Suc ?x" "height_of sl1 ?x = h" "node_key sl1 ?x = key" "sl_max_height sl1 = max ?m h"
    "\<And>n. n < ?x \<Longrightarrow> node_key sl1 n = node_key sl n \<and> height_of sl1 n = height_of sl n"
    "\<And>a l. a \<le> ?x \<Longrightarrow> Node_Next sl1 a l = (if a = ?x then if l < h then Some None else None else Node_Next sl a l)"
    by (auto simp: sl1_def sl0_def height_of_def node_key_def Node_Next_def nth_append)
  have links: "i < height_of sl1 ?x \<and> prev ! i < length (sl_nodes sl1) \<and> i < height_of sl1 (prev ! i) \<and> prev ! i \<noteq> ?x"
    if "i \<in> set [0..<h]" for i
  proof -
    have i: "i < h" using that by simp
    have "pred sl ?A i < ?x \<and> i < height_of sl (pred sl ?A i)"
    proof (cases "pred sl ?A i = 0")
      case True
      then show ?thesis using nodes(2,3) i h_le(2) by simp
    next
      case False
      then have "pred sl ?A i \<in> set (tall sl i ?A)" using pred_in [of sl ?A i] by simp
      then show ?thesis using front_in [of "pred sl ?A i" sl key ns] nodes(1) by (auto simp: tall_def)
    qed
    then show ?thesis using sl1 i prev [OF i] by auto
  qed
  obtain sl' where sl': "link_levels ?x prev [0..<h] sl1 = Some sl'" "same_nodes sl1 sl'"
    "\<And>a l. Node_Next sl' a l = (if l \<in> set [0..<h] then if a = ?x then Node_Next sl1 (prev ! l) l
        else if a = prev ! l then Some (Some ?x) else Node_Next sl1 a l else Node_Next sl1 a l)"
    using link_levels_works [of ?x sl1 "[0..<h]" prev, OF _ _ links] sl1(1) by (metis distinct_upt lessI)
  have keys: "node_key sl' ?x = key" "length (sl_nodes sl') = Suc ?x" "\<forall>n<?x. node_key sl' n = node_key sl n"
    using sl'(2) sl1 by (auto simp: same_nodes_def)
  have "ok_list sl' (?A @ ?x # ?B)"
  proof (rule insert_node_ok [where h = h])
    show "ok_list sl (?A @ ?B)" using ok by simp
    show "lt (node_key sl n) (node_key sl' ?x)" if "n \<in> set ?A" for n using front_less [OF that] keys(1) by simp
    show "lt (node_key sl' ?x) (node_key sl n)" if "n \<in> set ?B" for n
      using bspec [OF new later_in [OF that]] later_not_less [OF ok key that] keys(1) by simp
    show "Node_Next sl' a l = (if l < h then if a = ?x then Node_Next sl (pred sl ?A l) l
        else if a = pred sl ?A l then Some (Some ?x) else Node_Next sl a l else if a = ?x then None else Node_Next sl a l)"
      if "a \<le> ?x" for a l
    proof (cases "l < h")
      case True
      have "prev ! l < ?x" using links [of l] sl1(1) True by auto
      then show ?thesis using True that by (simp add: sl'(3) prev sl1(6))
    next
      case False
      then show ?thesis using that by (simp add: sl'(3) sl1(6))
    qed
  qed (use sl'(2) sl1 h_le key keys in \<open>auto simp: same_nodes_def\<close>)
  moreover have "SkipList_Insert compare new_char key sl ar = Some (sl', ar')"
  proof -
    have "(case first ?B of None \<Rightarrow> Some False | Some x \<Rightarrow> SkipList_Equal compare key (node_key sl x)) = Some False"
    proof (cases ?B)
      case (Cons y ys)
      then have y: "y \<in> set ns" using later_in [of y sl key ns] by simp
      show ?thesis
        using compare_total [OF key list_okD(2) [OF ok y]] bspec [OF new y] Cons by (auto simp: first_def SkipList_Equal_def)
    qed (simp add: first_def)
    then show ?thesis
      using ar' sl'(1) unfolding sl1_def [symmetric]
      by (cases "h > ?m") (simp_all add: SkipList_Insert_def FindGreaterOrEqual_works [OF ok key] h Let_def sl0 prev_def)
  qed
  ultimately show ?thesis using keys by blast
qed

lemma SkipList_Contains_works:
  assumes "ok_list sl ns" and "key_ok key"
  shows "SkipList_Contains compare sl key
    = Some (\<exists>n\<in>set ns. \<not> lt (node_key sl n) key \<and> \<not> lt key (node_key sl n))"
proof -
  have front: "lt (node_key sl n) key" if "n \<in> set (front sl key ns)" for n by (rule front_less [OF that])
  have all: "set ns = set (front sl key ns) \<union> set (later sl key ns)" by (metis front_later set_append)
  show ?thesis
  proof (cases "later sl key ns")
    case Nil
    then show ?thesis
      using all front by (auto simp: SkipList_Contains_def FindGreaterOrEqual_works [OF assms] first_def)
  next
    case (Cons y ys)
    have y: "y \<in> set ns" "\<not> lt (node_key sl y) key" using all Cons later_not_less [OF assms] by auto
    have rest: "lt key (node_key sl n)" if "n \<in> set ys" "lt key (node_key sl y)" for n
    proof -
      have "sorted_wrt lt (map (node_key sl) (front sl key ns @ y # ys))"
        using list_okD(6) [OF assms(1)] front_later [of sl key ns] unfolding Cons by simp
      then have "lt (node_key sl y) (node_key sl n)" using that(1) by (auto simp: sorted_wrt_append)
      moreover have "n \<in> set ns" using all Cons that(1) by auto
      ultimately show ?thesis
        using less_trans [OF assms(2) list_okD(2) [OF assms(1) y(1)] list_okD(2) [OF assms(1), of n] that(2)] by simp
    qed
    have below: "lt (node_key sl y) (node_key sl n) \<Longrightarrow> \<not> lt (node_key sl n) key" if "n \<in> set ys" for n
      using later_not_less [OF assms, of n] Cons that by simp
    obtain r where r: "compare key (node_key sl y) = Some r" "(r < 0) = lt key (node_key sl y)" "(r > 0) = lt (node_key sl y) key"
      using compare_total [OF assms(2) list_okD(2) [OF assms(1) y(1)]] by blast
    have "r = 0 \<longleftrightarrow> \<not> lt key (node_key sl y)" using r y(2) by auto
    moreover have "(\<exists>n\<in>set ns. \<not> lt (node_key sl n) key \<and> \<not> lt key (node_key sl n)) \<longleftrightarrow> \<not> lt key (node_key sl y)"
      using y rest front all Cons by (auto simp del: front_later)
    ultimately show ?thesis
      using r(1) by (simp add: SkipList_Contains_def FindGreaterOrEqual_works [OF assms] first_def Cons SkipList_Equal_def)
  qed
qed

section \<open>Iterating\<close>

lemma level_0:
  assumes "ok_list sl ns"
  shows "linked sl 0 0 ns"
  using list_okD(1) [OF assms, of 0] tall_0 [OF assms] by (simp add: kMaxHeight_def)

lemma sli_SeekToFirst_works: "ok_list sl ns \<Longrightarrow> sli_SeekToFirst sl it = Some (node_at ns 0)"
  using linked_first [OF level_0] first_drop [of 0 ns] by (simp add: sli_SeekToFirst_def)

lemma sli_Next_works:
  assumes "ok_list sl ns" and "p < length ns"
  shows "sli_Next sl (node_at ns p) = Some (node_at ns (Suc p))"
proof -
  have "linked sl 0 (last (0 # take (Suc p) ns)) (drop (Suc p) ns)"
    using level_0 [OF assms(1)] by (intro linked_drop) simp
  moreover have "last (0 # take (Suc p) ns) = ns ! p" using assms(2) by (simp add: take_Suc_conv_app_nth)
  ultimately show ?thesis
    using linked_first [of sl 0 "ns ! p"] first_drop [of "Suc p" ns] assms(2) by (simp add: sli_Next_def node_at_def)
qed

lemma unless_head_last:
  assumes "ok_list sl ns" and "p \<le> length ns"
  shows "unless_head (last (0 # take p ns)) = (if p = 0 then None else node_at ns (p - 1))"
proof (cases p)
  case (Suc q)
  then show ?thesis
    using assms(2) list_okD(3) [OF assms(1), of "ns ! q"] by (simp add: take_Suc_conv_app_nth unless_head_def node_at_def)
qed (simp add: unless_head_def)

lemma sli_SeekToLast_works: "ok_list sl ns \<Longrightarrow> sli_SeekToLast sl it = Some (node_at ns (length ns - 1))"
  using unless_head_last [of sl ns "length ns"] by (cases ns) (auto simp: sli_SeekToLast_def FindLast_works node_at_def)

lemma front_take: "front sl key ns = take (length (front sl key ns)) ns"
  by (simp add: front_def takeWhile_eq_take [symmetric])

lemma later_drop: "later sl key ns = drop (length (front sl key ns)) ns"
  by (simp add: front_def later_def dropWhile_eq_drop)

lemma front_at:
  assumes "ok_list sl ns" and "p < length ns"
  shows "length (front sl (node_key sl (ns ! p)) ns) = p"
proof -
  have sorted: "sorted_wrt lt (map (node_key sl) ns)" by (rule list_okD(6) [OF assms(1)])
  have "takeWhile (\<lambda>n. lt (node_key sl n) (node_key sl (ns ! p))) ns = take p ns"
  proof (rule takeWhile_eq_take_P_nth)
    show "lt (node_key sl (ns ! i)) (node_key sl (ns ! p))" if "i < p" "i < length ns" for i
      using sorted_wrt_nth_less [OF sorted that(1)] assms(2) that(2) by simp
    show "\<not> lt (node_key sl (ns ! p)) (node_key sl (ns ! p))" if "p < length ns"
      using less_irrefl list_okD(2) [OF assms(1)] that by simp
  qed
  then show ?thesis using assms(2) by (simp add: front_def)
qed

lemma sli_Prev_works:
  assumes "ok_list sl ns" and "p < length ns"
  shows "sli_Prev compare sl (node_at ns p) = Some (if p = 0 then None else node_at ns (p - 1))"
proof -
  have "front sl (node_key sl (ns ! p)) ns = take p ns"
    using front_take [of sl "node_key sl (ns ! p)" ns] by (simp only: front_at [OF assms])
  then have "FindLessThan compare sl (node_key sl (ns ! p)) = Some (last (0 # take p ns))"
    using FindLessThan_works [OF assms(1) list_okD(2) [OF assms(1)], of "ns ! p"] assms(2) by simp
  then have "sli_Prev compare sl (node_at ns p) = Some (unless_head (last (0 # take p ns)))"
    using assms(2) by (simp add: sli_Prev_def node_at_def del: last.simps)
  then show ?thesis by (simp only: unless_head_last [OF assms(1) less_imp_le [OF assms(2)]])
qed

lemma sli_Seek_works:
  assumes "ok_list sl ns" and "key_ok target"
  shows "sli_Seek compare sl target it = Some (node_at ns (length (front sl target ns)))"
  by (simp add: sli_Seek_def FindGreaterOrEqual_works [OF assms] later_drop first_drop)

end

section \<open>The empty list\<close>

lemma set_all_null_works: "n \<le> height_of sl 0 \<Longrightarrow> sl_nodes sl \<noteq> [] \<Longrightarrow>
  \<exists>sl'. set_all_null n sl = Some sl' \<and> same_nodes sl sl' \<and> (\<forall>l<n. Node_Next sl' 0 l = Some None)"
proof (induction n)
  case (Suc n)
  then obtain sl1 where s1: "set_all_null n sl = Some sl1" "same_nodes sl sl1" "\<forall>l<n. Node_Next sl1 0 l = Some None" by auto
  have "0 < length (sl_nodes sl1)" "n < height_of sl1 0" using s1(2) Suc.prems by (auto simp: same_nodes_def)
  from Node_SetNext_works [OF this, of None] obtain sl' where s': "Node_SetNext sl1 0 n None = Some sl'" "same_nodes sl1 sl'"
    "\<forall>a b. Node_Next sl' a b = (if a = 0 \<and> b = n then Some None else Node_Next sl1 a b)" by blast
  then show ?case using s1 same_nodes_trans [OF s1(2) s'(2)] by (auto simp: less_Suc_eq)
qed (simp add: same_nodes_refl)

lemma SkipList_new_works:
  assumes "aligned_blocks new_char"
  shows "\<exists>sl ar'. SkipList_new new_char k ar = Some (sl, ar') \<and> list_ok key_ok lt sl [] \<and> length (sl_nodes sl) = 1"
proof -
  define sl0 where "sl0 = \<lparr>sl_nodes = [\<lparr>nd_key = k, nd_next = replicate kMaxHeight None\<rparr>], sl_max_height = 1, sl_rnd = Random_new 0xdeadbeef\<rparr>"
  obtain ar' where "NewNode new_char k kMaxHeight \<lparr>sl_nodes = [], sl_max_height = 1, sl_rnd = Random_new 0xdeadbeef\<rparr> ar = Some (0, sl0, ar')"
    using allocations_total(1) [OF assms, of "16 + 8 * (of_nat kMaxHeight - 1)" ar] by (auto simp: NewNode_def sl0_def)
  moreover have "height_of sl0 0 = kMaxHeight" "sl_nodes sl0 \<noteq> []" by (simp_all add: sl0_def height_of_def)
  with set_all_null_works [of kMaxHeight sl0] obtain sl where sl: "set_all_null kMaxHeight sl0 = Some sl" "same_nodes sl0 sl"
    "\<forall>l<kMaxHeight. Node_Next sl 0 l = Some None" by auto
  moreover have "list_ok key_ok lt sl []" "length (sl_nodes sl) = 1"
    using sl(2,3) by (auto simp: list_ok_def same_nodes_def sl0_def height_of_def tall_def kMaxHeight_def)
  ultimately show ?thesis by (auto simp: SkipList_new_def)
qed

end
