(* ===== verification/LDB_Memtable.thy ===== *)
theory LDB_Memtable
  imports LDB_Skiplist_Props LDB_Iterator LDB_Dbformat
begin

text \<open>
  \<^verbatim>\<open>db/memtable.h\<close> and \<^verbatim>\<open>db/memtable.cc\<close> of \<^verbatim>\<open>src/MovieDBApp/Pods/leveldb-library\<close>: the
  writes that are not in a table yet, in a skip list.

  The keys of the skip list point to entries in the arena that never change; a key is the
  bytes from there on. \<^const>\<open>None\<close> is a failed assertion or undefined behaviour.
\<close>

section \<open>Entries\<close>

text \<open>\<^verbatim>\<open>GetLengthPrefixedSlice\<close> of \<^verbatim>\<open>memtable.cc\<close>: the slice and what follows it.\<close>

definition mem_slice :: "byte list \<Rightarrow> (byte list \<times> byte list) option" where
  "mem_slice data = do {
     (len, p) \<leftarrow> GetVarint32Ptr data;
     if unat len \<le> length p then Some (take (unat len) p, drop (unat len) p) else None
   }"

definition MemTable_compare :: "Comparator \<Rightarrow> byte list \<Rightarrow> byte list \<Rightarrow> int option" where
  "MemTable_compare user_comparator aptr bptr = do {
     (a, _) \<leftarrow> mem_slice aptr;
     (b, _) \<leftarrow> mem_slice bptr;
     cmp_Compare (InternalKeyComparator user_comparator) a b
   }"

definition EncodeKey :: "byte list \<Rightarrow> byte list" where
  "EncodeKey target = PutVarint32 [] (of_nat (length target)) @ target"

section \<open>The table\<close>

record MemTable =
  mt_user_comparator :: Comparator
  mt_refs :: int
  mt_arena :: Arena
  mt_table :: "byte list SkipList"

definition MemTable_new :: "(nat \<Rightarrow> u64) \<Rightarrow> Comparator \<Rightarrow> MemTable option" where
  "MemTable_new new_char user_comparator = do {
     (table, ar) \<leftarrow> SkipList_new new_char [] Arena_new;
     Some \<lparr>mt_user_comparator = user_comparator, mt_refs = 0, mt_arena = ar, mt_table = table\<rparr>
   }"

definition MemTable_Ref :: "MemTable \<Rightarrow> MemTable" where
  "MemTable_Ref mt = mt\<lparr>mt_refs := mt_refs mt + 1\<rparr>"

text \<open>The inner \<^const>\<open>None\<close> is a deleted table.\<close>

definition MemTable_Unref :: "MemTable \<Rightarrow> MemTable option option" where
  "MemTable_Unref mt =
     (let mt = mt\<lparr>mt_refs := mt_refs mt - 1\<rparr> in
      if mt_refs mt < 0 then None else if mt_refs mt \<le> 0 then Some None else Some (Some mt))"

definition MemTable_ApproximateMemoryUsage :: "MemTable \<Rightarrow> u64" where
  "MemTable_ApproximateMemoryUsage mt = Arena_MemoryUsage (mt_arena mt)"

text \<open>The assertion compares the pointer behind the entry with the end of the memory.\<close>

definition MemTable_Add ::
  "(nat \<Rightarrow> u64) \<Rightarrow> MemTable \<Rightarrow> SequenceNumber \<Rightarrow> ValueType \<Rightarrow> byte list \<Rightarrow> byte list \<Rightarrow> MemTable option" where
  "MemTable_Add new_char mt s type key value =
     (let key_size = of_nat (length key) :: u64; val_size = of_nat (length value) :: u64;
          internal_key_size = key_size + 8;
          encoded_len = of_int (VarintLength internal_key_size) + internal_key_size + of_int (VarintLength val_size) + val_size
      in do {
        (_, ar) \<leftarrow> Arena_Allocate new_char encoded_len (mt_arena mt);
        let buf = EncodeVarint32 (ucast internal_key_size) @ key @ EncodeFixed64 (push_bit 8 s OR ucast type)
          @ EncodeVarint32 (ucast val_size) @ value;
        if of_nat (length buf) = encoded_len then do {
          (table, ar) \<leftarrow> SkipList_Insert (MemTable_compare (mt_user_comparator mt)) new_char buf (mt_table mt) ar;
          Some (mt\<lparr>mt_arena := ar, mt_table := table\<rparr>)
        }
        else None
      })"

text \<open>The result, the value and the status.\<close>

definition MemTable_Get :: "MemTable \<Rightarrow> LookupKey \<Rightarrow> byte list \<Rightarrow> Status \<Rightarrow> (bool \<times> byte list \<times> Status) option" where
  "MemTable_Get mt key value s = do {
     iter \<leftarrow> sli_Seek (MemTable_compare (mt_user_comparator mt)) (mt_table mt) (memtable_key key) None;
     if sli_Valid iter then do {
       entry \<leftarrow> sli_key (mt_table mt) iter;
       (key_length, key_ptr) \<leftarrow> GetVarint32Ptr entry;
       let n = unat (key_length - 8);
       r \<leftarrow> (if n \<le> length key_ptr then cmp_Compare (mt_user_comparator mt) (take n key_ptr) (user_key key) else None);
       if r = 0 then do {
         tag \<leftarrow> DecodeFixed64 (drop n key_ptr);
         let type = (ucast (tag AND 0xff) :: ValueType);
         if type = kTypeValue then do {
           (v, _) \<leftarrow> mem_slice (drop (unat key_length) key_ptr);
           Some (True, v, s)
         }
         else if type = kTypeDeletion then Some (True, value, NotFound [] [])
         else Some (False, value, s)
       }
       else Some (False, value, s)
     }
     else Some (False, value, s)
   }"

section \<open>Its iterator\<close>

definition mem_key :: "MemTable \<Rightarrow> nat option \<Rightarrow> byte list option" where
  "mem_key mt iter = do { entry \<leftarrow> sli_key (mt_table mt) iter; map_option fst (mem_slice entry) }"

definition mem_value :: "MemTable \<Rightarrow> nat option \<Rightarrow> byte list option" where
  "mem_value mt iter = do {
     entry \<leftarrow> sli_key (mt_table mt) iter;
     (_, rest) \<leftarrow> mem_slice entry;
     map_option fst (mem_slice rest)
   }"

definition MemTableIterator_ops :: "MemTable \<Rightarrow> nat option Iterator" where
  "MemTableIterator_ops mt =
     \<lparr>i_Valid = sli_Valid, i_SeekToFirst = sli_SeekToFirst (mt_table mt), i_SeekToLast = sli_SeekToLast (mt_table mt),
      i_Seek = (\<lambda>iter k. sli_Seek (MemTable_compare (mt_user_comparator mt)) (mt_table mt) (EncodeKey k) iter),
      i_Next = sli_Next (mt_table mt), i_Prev = sli_Prev (MemTable_compare (mt_user_comparator mt)) (mt_table mt),
      i_key = mem_key mt, i_value = mem_value mt, i_status = (\<lambda>_. Status_OK)\<rparr>"

definition MemTable_NewIterator :: "nat option" where
  "MemTable_NewIterator = None"

section \<open>The order of entries\<close>

definition mem_entry :: "entry \<Rightarrow> byte list" where
  "mem_entry e = varint (length (fst e)) @ fst e @ varint (length (snd e)) @ snd e"

definition fits :: "byte list \<Rightarrow> bool" where
  "fits s \<longleftrightarrow> length s < 2 ^ 32"

text \<open>Bytes that start with a length-prefixed internal key, and that key.\<close>

definition mem_slice_key :: "byte list \<Rightarrow> byte list" where
  "mem_slice_key data = fst (the (mem_slice data))"

definition mem_ok :: "(byte list \<Rightarrow> bool) \<Rightarrow> byte list \<Rightarrow> bool" where
  "mem_ok key_ok data \<longleftrightarrow> mem_slice data \<noteq> None \<and> internal_ok key_ok (mem_slice_key data)"

definition mem_less :: "(byte list \<Rightarrow> byte list \<Rightarrow> bool) \<Rightarrow> byte list \<Rightarrow> byte list \<Rightarrow> bool" where
  "mem_less lt a b \<longleftrightarrow> internal_less lt (mem_slice_key a) (mem_slice_key b)"

lemma mem_slice_append [simp]: "fits s \<Longrightarrow> mem_slice (varint (length s) @ s @ rest) = Some (s, rest)"
  by (simp add: mem_slice_def fits_def GetVarint32_length)

lemma mem_slice_self [simp]: "fits s \<Longrightarrow> mem_slice (varint (length s) @ s) = Some (s, [])"
  using mem_slice_append [of s "[]"] by simp

lemma mem_slice_entry [simp]: "fits (fst e) \<Longrightarrow> mem_slice_key (mem_entry e) = fst e"
  by (simp add: mem_slice_key_def mem_entry_def)

lemma EncodeKey_eq: "fits k \<Longrightarrow> EncodeKey k = varint (length k) @ k"
  by (simp add: EncodeKey_def PutVarint32_def fits_def)

context comparator begin

lemma mem_skip_order: "skip_order (MemTable_compare cmp) (mem_ok key_ok) (mem_less lt)"
proof
  note internal = internal_comparator
  fix a b c
  assume a: "mem_ok key_ok a" and b: "mem_ok key_ok b"
  then obtain ka ra kb rb where s: "mem_slice a = Some (ka, ra)" "mem_slice b = Some (kb, rb)"
    and ok: "internal_ok key_ok ka" "internal_ok key_ok kb"
    by (auto simp: mem_ok_def mem_slice_key_def)
  then show "\<exists>r. MemTable_compare cmp a b = Some r \<and> (r < 0 \<longleftrightarrow> mem_less lt a b) \<and> (r > 0 \<longleftrightarrow> mem_less lt b a)"
    using comparator.Compare_total [OF internal ok] by (auto simp: MemTable_compare_def mem_less_def mem_slice_key_def)
  assume "mem_ok key_ok c"
  then have okc: "internal_ok key_ok (mem_slice_key c)" by (simp add: mem_ok_def)
  have oks: "internal_ok key_ok (mem_slice_key a)" "internal_ok key_ok (mem_slice_key b)" using a b by (simp_all add: mem_ok_def)
  show "mem_less lt a b \<Longrightarrow> mem_less lt b c \<Longrightarrow> mem_less lt a c"
    using comparator.less_trans [OF internal oks okc] by (simp add: mem_less_def)
  show "\<not> mem_less lt b a \<Longrightarrow> \<not> mem_less lt c b \<Longrightarrow> \<not> mem_less lt c a"
    using comparator.less_le_trans [OF internal okc oks] comparator.less_linear [OF internal] oks okc
    unfolding mem_less_def by (metis comparator.le_less_trans [OF internal])
qed

end

end
