(* ===== verification/LDB_Memtable_Props.thy ===== *)
theory LDB_Memtable_Props
  imports LDB_Memtable
begin

text \<open>
  The memtable of \<^verbatim>\<open>db/memtable.cc\<close> holds the entries that were added, sorted: its iterator
  keeps the contract of iterators and a lookup finds the newest write of a key that its
  sequence number may see.
\<close>

section \<open>What a memtable holds\<close>

definition entries_ok :: "(byte list \<Rightarrow> bool) \<Rightarrow> entry list \<Rightarrow> bool" where
  "entries_ok key_ok es \<longleftrightarrow> (\<forall>e\<in>set es. internal_ok key_ok (fst e) \<and> fits (fst e) \<and> fits (snd e))"

definition mem_holds :: "Comparator \<Rightarrow> (byte list \<Rightarrow> bool) \<Rightarrow> (byte list \<Rightarrow> byte list \<Rightarrow> bool) \<Rightarrow> MemTable \<Rightarrow> entry list \<Rightarrow> nat list \<Rightarrow> bool" where
  "mem_holds c key_ok lt mt es ns \<longleftrightarrow>
     mt_user_comparator mt = c \<and> list_ok (mem_ok key_ok) (mem_less lt) (mt_table mt) ns \<and>
     map (node_key (mt_table mt)) ns = map mem_entry es \<and> entries_ok key_ok es"

lemma mem_entry_slices:
  assumes "fits (fst e)" and "fits (snd e)"
  shows "mem_slice (mem_entry e) = Some (fst e, varint (length (snd e)) @ snd e)"
  using assms by (simp add: mem_entry_def)

lemma mem_entry_ok: "fits (fst e) \<Longrightarrow> fits (snd e) \<Longrightarrow> mem_ok key_ok (mem_entry e) \<longleftrightarrow> internal_ok key_ok (fst e)"
  by (simp add: mem_ok_def mem_entry_slices mem_slice_key_def)

lemma mem_holdsD:
  assumes "mem_holds c key_ok lt mt es ns"
  shows "length ns = length es" and "p < length es \<Longrightarrow> node_key (mt_table mt) (ns ! p) = mem_entry (es ! p)"
    and "e \<in> set es \<Longrightarrow> fits (fst e)" and "e \<in> set es \<Longrightarrow> fits (snd e)" and "e \<in> set es \<Longrightarrow> internal_ok key_ok (fst e)"
    and "sorted_wrt (internal_less lt) (map fst es)"
proof -
  have keys: "map (node_key (mt_table mt)) ns = map mem_entry es" and ok: "entries_ok key_ok es"
    and sorted: "sorted_wrt (mem_less lt) (map (node_key (mt_table mt)) ns)"
    using assms by (auto simp: mem_holds_def list_ok_def)
  show len: "length ns = length es" using arg_cong [OF keys, of length] by simp
  show "node_key (mt_table mt) (ns ! p) = mem_entry (es ! p)" if "p < length es"
    using arg_cong [OF keys, of "\<lambda>xs. xs ! p"] that len by simp
  show "e \<in> set es \<Longrightarrow> fits (fst e)" "e \<in> set es \<Longrightarrow> fits (snd e)" "e \<in> set es \<Longrightarrow> internal_ok key_ok (fst e)"
    using ok by (auto simp: entries_ok_def)
  have "sorted_wrt (\<lambda>a b. mem_less lt (mem_entry a) (mem_entry b)) es" using sorted by (simp add: keys sorted_wrt_map)
  then have "sorted_wrt (\<lambda>a b. internal_less lt (fst a) (fst b)) es"
    by (rule sorted_wrt_mono_rel [rotated]) (use ok in \<open>auto simp: mem_less_def entries_ok_def\<close>)
  then show "sorted_wrt (internal_less lt) (map fst es)" by (simp add: sorted_wrt_map)
qed

context comparator begin

abbreviation holds :: "MemTable \<Rightarrow> entry list \<Rightarrow> nat list \<Rightarrow> bool" where
  "holds \<equiv> mem_holds cmp key_ok lt"

text \<open>Where the skip list ends a search.\<close>

lemma front_first_ge:
  assumes "holds mt es ns"
  shows "length (takeWhile (\<lambda>n. mem_less lt (node_key (mt_table mt) n) data) ns) = first_ge (internal_less lt) (mem_slice_key data) es"
proof -
  have "length (takeWhile (\<lambda>n. mem_less lt (node_key (mt_table mt) n) data) ns)
      = length (takeWhile (\<lambda>d. mem_less lt d data) (map (node_key (mt_table mt)) ns))"
    by (simp add: takeWhile_map comp_def)
  also have "\<dots> = length (takeWhile (\<lambda>d. mem_less lt d data) (map mem_entry es))" using assms by (simp add: mem_holds_def)
  also have "\<dots> = length (takeWhile (\<lambda>e. internal_less lt (fst e) (mem_slice_key data)) es)"
  proof -
    have "takeWhile (\<lambda>e. mem_less lt (mem_entry e) data) es = takeWhile (\<lambda>e. internal_less lt (fst e) (mem_slice_key data)) es"
      by (rule takeWhile_cong) (use mem_holdsD(3) [OF assms] in \<open>auto simp: mem_less_def\<close>)
    then show ?thesis by (simp add: takeWhile_map comp_def)
  qed
  finally show ?thesis by (simp add: first_ge_def)
qed

lemma holds_seek:
  assumes "holds mt es ns" and "mem_ok key_ok data"
  shows "sli_Seek (MemTable_compare cmp) (mt_table mt) data it = Some (node_at ns (first_ge (internal_less lt) (mem_slice_key data) es))"
proof -
  have "list_ok (mem_ok key_ok) (mem_less lt) (mt_table mt) ns" using assms(1) by (simp add: mem_holds_def)
  from skip_order.sli_Seek_works [OF mem_skip_order this assms(2)] show ?thesis
    using front_first_ge [OF assms(1), of data] by (simp add: skip_order.front_def [OF mem_skip_order])
qed

lemma holds_key:
  assumes "holds mt es ns" and "p < length es"
  shows "sli_key (mt_table mt) (node_at ns p) = Some (mem_entry (es ! p))"
  using mem_holdsD(1,2) [OF assms(1)] assms(2) by (simp add: sli_key_def node_at_def)

lemma memtable_iterator:
  assumes "holds mt es ns"
  shows "iterator (MemTableIterator_ops mt) es (\<lambda>it p. it = node_at ns p \<and> p \<le> length es)
    (\<lambda>k. internal_ok key_ok k \<and> fits k) (internal_less lt)"
proof -
  have ok: "list_ok (mem_ok key_ok) (mem_less lt) (mt_table mt) ns" and c: "mt_user_comparator mt = cmp"
    using assms by (auto simp: mem_holds_def)
  note len = mem_holdsD(1) [OF assms]
  note moves = skip_order.sli_SeekToFirst_works [OF mem_skip_order ok] skip_order.sli_SeekToLast_works [OF mem_skip_order ok]
    skip_order.sli_Next_works [OF mem_skip_order ok] skip_order.sli_Prev_works [OF mem_skip_order ok]
  have slices: "mem_slice (mem_entry (es ! p)) = Some (fst (es ! p), varint (length (snd (es ! p))) @ snd (es ! p))"
    "mem_slice (varint (length (snd (es ! p))) @ snd (es ! p)) = Some (snd (es ! p), [])" if "p < length es" for p
    using that mem_holdsD(3,4) [OF assms, of "es ! p"] by (simp_all add: mem_entry_slices)
  have at: "mem_key mt (node_at ns p) = Some (fst (es ! p))" "mem_value mt (node_at ns p) = Some (snd (es ! p))" if "p < length es" for p
    using that by (simp_all add: mem_key_def mem_value_def holds_key [OF assms] slices)
  have valid: "sli_Valid (node_at ns p) \<longleftrightarrow> p < length es" for p by (simp add: sli_Valid_def node_at_def len)
  show ?thesis
  proof (unfold_locales, goal_cases)
    case (7 it p target)
    then have "mem_ok key_ok (EncodeKey target)" "mem_slice_key (EncodeKey target) = target"
      by (auto simp: EncodeKey_eq mem_ok_def mem_slice_key_def)
    then show ?case
      using holds_seek [OF assms, of "EncodeKey target" it]
      by (auto simp: MemTableIterator_ops_def c first_ge_def intro: length_takeWhile_le)
  next
    case (9 it p)
    then show ?case
      using moves(4) [of p] by (auto simp: MemTableIterator_ops_def c len node_at_def intro: exI [of _ "length es"])
  qed (use moves len in \<open>auto simp: MemTableIterator_ops_def valid at\<close>)
qed

section \<open>Adding\<close>

lemma add_bytes:
  assumes "length key < 2 ^ 32 - 8" and "fits value"
  defines "n \<equiv> of_int (VarintLength (of_nat (length key) + 8)) + (of_nat (length key) + 8)
      + of_int (VarintLength (of_nat (length value))) + (of_nat (length value) :: u64)"
  shows "EncodeVarint32 (ucast (of_nat (length key) + 8 :: u64)) @ key @ EncodeFixed64 (push_bit 8 s OR ucast type)
      @ EncodeVarint32 (ucast (of_nat (length value) :: u64)) @ value = mem_entry (InternalKey_new key s type, value)"
    and "n = of_nat (length (mem_entry (InternalKey_new key s type, value)))" and "n \<noteq> 0"
proof -
  have eq: "of_nat (length key) + 8 = (of_nat (length key + 8) :: u64)" by simp
  have k: "unat (of_nat (length key + 8) :: u64) = length key + 8" "unat (ucast (of_nat (length key + 8) :: u64) :: u32) = length key + 8"
    using assms(1) by (simp_all add: unat_of_nat_64 ucast_of_nat_64_32 unat_of_nat_32 del: of_nat_add)
  have v: "unat (of_nat (length value) :: u64) = length value" "unat (ucast (of_nat (length value) :: u64) :: u32) = length value"
    using assms(2) by (simp_all add: fits_def unat_of_nat_64 ucast_of_nat_64_32 unat_of_nat_32)
  show "EncodeVarint32 (ucast (of_nat (length key) + 8 :: u64)) @ key @ EncodeFixed64 (push_bit 8 s OR ucast type)
      @ EncodeVarint32 (ucast (of_nat (length value) :: u64)) @ value = mem_entry (InternalKey_new key s type, value)"
    unfolding eq by (simp add: k v mem_entry_def InternalKey_new_eq PackSequenceAndType_def del: of_nat_add)
  show n: "n = of_nat (length (mem_entry (InternalKey_new key s type, value)))"
    unfolding n_def eq VarintLength_eq k v by (simp add: mem_entry_def InternalKey_new_eq)
  have "length (varint m) \<le> 5" if "m < 2 ^ 32" for m
    using length_varint_u32 [of "of_nat m"] unat_of_nat_32 [of m] that by simp
  from this [of "length key + 8"] this [of "length value"]
  have "length (mem_entry (InternalKey_new key s type, value)) < 2 ^ 64"
    using assms(1,2) by (simp add: mem_entry_def InternalKey_new_eq fits_def)
  moreover have "0 < length (mem_entry (InternalKey_new key s type, value))" by (simp add: mem_entry_def InternalKey_new_eq)
  ultimately have "unat n \<noteq> 0" unfolding n by (subst unat_of_nat_64) auto
  then show "n \<noteq> 0" by auto
qed

lemma MemTable_Add_works:
  assumes "holds mt es ns" and "aligned_blocks new_char" and "key_ok key" and "length key < 2 ^ 32 - 8" and "fits value"
    and new: "\<And>e. e \<in> set es \<Longrightarrow> fst e \<noteq> InternalKey_new key s type"
  shows "\<exists>mt' es' ns'. MemTable_Add new_char mt s type key value = Some mt' \<and> holds mt' es' ns'
    \<and> set es' = insert (InternalKey_new key s type, value) (set es)"
proof -
  let ?e = "(InternalKey_new key s type, value)"
  let ?data = "mem_entry ?e"
  have e: "internal_ok key_ok (fst ?e)" "fits (fst ?e)" "fits (snd ?e)"
    using assms(3-5) by (simp_all add: internal_ok_def InternalKey_new_eq fits_def)
  have data: "mem_ok key_ok ?data" "mem_slice_key ?data = fst ?e" using e mem_entry_ok by auto
  have ok: "list_ok (mem_ok key_ok) (mem_less lt) (mt_table mt) ns" and c: "mt_user_comparator mt = cmp"
    and keys: "map (node_key (mt_table mt)) ns = map mem_entry es"
    using assms(1) by (auto simp: mem_holds_def)
  obtain a ar where ar: "Arena_Allocate new_char (of_nat (length ?data)) (mt_arena mt) = Some (a, ar)"
    using allocations_total(2) [OF assms(2), of "of_nat (length ?data)"] add_bytes(2,3) [OF assms(4,5)]
    by (metis word_gt_0)
  have "mem_less lt (node_key (mt_table mt) n) ?data \<or> mem_less lt ?data (node_key (mt_table mt) n)" if "n \<in> set ns" for n
  proof -
    have "node_key (mt_table mt) n \<in> set (map mem_entry es)" unfolding keys [symmetric] using that by simp
    then obtain e' where e': "e' \<in> set es" "node_key (mt_table mt) n = mem_entry e'" by auto
    then have "internal_less lt (fst e') (fst ?e) \<or> internal_less lt (fst ?e) (fst e')"
      using comparator.less_linear [OF internal_comparator mem_holdsD(5) [OF assms(1) e'(1)] e(1)] new [OF e'(1)] by auto
    then show ?thesis using mem_holdsD(3) [OF assms(1) e'(1)] e(2) by (simp add: mem_less_def e'(2))
  qed
  then have "\<forall>n\<in>set ns. mem_less lt (node_key (mt_table mt) n) ?data \<or> mem_less lt ?data (node_key (mt_table mt) n)" by blast
  from skip_order.SkipList_Insert_works [OF mem_skip_order ok data(1) this assms(2)]
  obtain sl ar' where sl: "SkipList_Insert (MemTable_compare cmp) new_char ?data (mt_table mt) ar = Some (sl, ar')"
    "list_ok (mem_ok key_ok) (mem_less lt) sl (skip_order.front (mem_less lt) (mt_table mt) ?data ns @ length (sl_nodes (mt_table mt))
        # skip_order.later (mem_less lt) (mt_table mt) ?data ns)"
    "node_key sl (length (sl_nodes (mt_table mt))) = ?data"
    "\<forall>n<length (sl_nodes (mt_table mt)). node_key sl n = node_key (mt_table mt) n"
    by blast
  define p where "p = first_ge (internal_less lt) (fst ?e) es"
  have front: "skip_order.front (mem_less lt) (mt_table mt) ?data ns = take p ns" "skip_order.later (mem_less lt) (mt_table mt) ?data ns = drop p ns"
    using skip_order.front_take [OF mem_skip_order] skip_order.later_drop [OF mem_skip_order] front_first_ge [OF assms(1), of ?data] data(2)
    by (metis p_def skip_order.front_def [OF mem_skip_order])+
  define mt' where "mt' = mt\<lparr>mt_arena := ar', mt_table := sl\<rparr>"
  have in_range: "n < length (sl_nodes (mt_table mt))" if "n \<in> set ns" for n
    using ok that unfolding list_ok_def by auto
  have "map (node_key sl) ns = map mem_entry es"
    unfolding keys [symmetric] using in_range sl(4) by simp
  then have "map (node_key sl) (take p ns) = map mem_entry (take p es)" "map (node_key sl) (drop p ns) = map mem_entry (drop p es)"
    by (simp_all flip: take_map drop_map)
  then have "holds mt' (take p es @ ?e # drop p es) (take p ns @ length (sl_nodes (mt_table mt)) # drop p ns)"
    using sl(2,3) e assms(1) c unfolding front mem_holds_def entries_ok_def
    by (auto simp: mt'_def dest: in_set_takeD in_set_dropD)
  moreover have "MemTable_Add new_char mt s type key value = Some mt'"
    unfolding MemTable_Add_def Let_def add_bytes(1) [OF assms(4,5)] add_bytes(2) [OF assms(4,5), of s type]
    by (simp add: ar sl(1) c mt'_def)
  moreover have "set (take p es @ ?e # drop p es) = insert ?e (set es)"
    by (metis append_take_drop_id set_append Un_insert_right list.simps(15))
  ultimately show ?thesis by blast
qed

lemma MemTable_new_works:
  assumes "aligned_blocks new_char"
  shows "\<exists>mt. MemTable_new new_char cmp = Some mt \<and> holds mt [] []"
  using SkipList_new_works [OF assms, of "[]" Arena_new "mem_ok key_ok" "mem_less lt"]
  by (auto simp: MemTable_new_def mem_holds_def entries_ok_def)

section \<open>Looking up\<close>

text \<open>What a lookup makes of the entry the search ends at.\<close>

definition get_at :: "byte list \<Rightarrow> byte list \<Rightarrow> Status \<Rightarrow> entry list \<Rightarrow> nat \<Rightarrow> bool \<times> byte list \<times> Status" where
  "get_at u value st es p =
     (if p < length es \<and> key_user (fst (es ! p)) = u then
        let type = (ucast (key_tag (fst (es ! p)) AND 0xff) :: ValueType) in
        if type = kTypeValue then (True, snd (es ! p), st) else if type = kTypeDeletion then (True, value, NotFound [] [])
        else (False, value, st)
      else (False, value, st))"

lemma MemTable_Get_at:
  assumes "holds mt es ns" and "key_ok u" and "length u < 2 ^ 32 - 8" and "LookupKey_new u snap = Some lk"
  shows "MemTable_Get mt lk value st
    = Some (get_at u value st es (first_ge (internal_less lt) (InternalKey_new u snap kValueTypeForSeek) es))"
proof -
  let ?L = "InternalKey_new u snap kValueTypeForSeek"
  let ?p = "first_ge (internal_less lt) ?L es"
  have lk: "memtable_key lk = PutLengthPrefixedSlice [] ?L" "user_key lk = u"
    using lookup_key_fits [OF assms(3), of snap] assms(4) by auto
  have L: "fits ?L" "internal_ok key_ok ?L" using assms(2,3) by (simp_all add: fits_def InternalKey_new_eq internal_ok_def)
  then have m: "memtable_key lk = varint (length ?L) @ ?L" by (simp add: lk(1) PutLengthPrefixedSlice_eq fits_def)
  have "mem_ok key_ok (memtable_key lk)" "mem_slice_key (memtable_key lk) = ?L"
    using L by (simp_all add: m mem_ok_def mem_slice_key_def)
  then have seek: "sli_Seek (MemTable_compare cmp) (mt_table mt) (memtable_key lk) None = Some (node_at ns ?p)"
    using holds_seek [OF assms(1)] by simp
  have c: "mt_user_comparator mt = cmp" using assms(1) by (simp add: mem_holds_def)
  have valid: "sli_Valid (node_at ns ?p) \<longleftrightarrow> ?p < length es"
    using mem_holdsD(1) [OF assms(1)] by (simp add: sli_Valid_def node_at_def)
  show ?thesis
  proof (cases "?p < length es")
    case True
    define k v where "k = fst (es ! ?p)" and "v = snd (es ! ?p)"
    have e: "fits k" "fits v" "internal_ok key_ok k"
      using mem_holdsD(3-5) [OF assms(1), of "es ! ?p"] True by (simp_all add: k_def v_def)
    then have k8: "8 \<le> length k" "key_ok (key_user k)" by (simp_all add: internal_ok_def)
    have entry: "mem_entry (es ! ?p) = varint (length k) @ k @ varint (length v) @ v" by (simp add: mem_entry_def k_def v_def)
    have n: "unat (of_nat (length k) :: u32) = length k" "unat (of_nat (length k) - 8 :: u32) = length k - 8"
    proof -
      show u: "unat (of_nat (length k) :: u32) = length k" using e(1) by (intro unat_of_nat_32) (simp add: fits_def)
      have "(8 :: u32) \<le> of_nat (length k)" using k8(1) by (simp add: word_le_nat_alt u)
      then show "unat (of_nat (length k) - 8 :: u32) = length k - 8" by (simp add: unat_sub u)
    qed
    have get: "GetVarint32Ptr (mem_entry (es ! ?p)) = Some (of_nat (length k), k @ varint (length v) @ v)"
      using e(1) by (simp add: entry GetVarint32_length fits_def)
    have tag: "DecodeFixed64 (drop (length k - 8) (k @ varint (length v) @ v)) = Some (key_tag k)"
    proof -
      have "drop (length k - 8) (k @ varint (length v) @ v) = drop (length k - 8) k @ varint (length v) @ v" by simp
      moreover have "drop (length k - 8) k = le_bytes 8 (key_tag k)" using key_parts [OF k8(1)] k8(1)
        by (metis append_eq_conv_conj key_user_def length_take min.absorb2 diff_le_self)
      ultimately show ?thesis by (simp only: DecodeFixed64_le_bytes)
    qed
    obtain r where r: "cmp_Compare cmp (key_user k) u = Some r" "r = 0 \<longleftrightarrow> key_user k = u"
      using Compare_total [OF k8(2) assms(2)] by blast
    have parts: "take (length k - 8) (k @ varint (length v) @ v) = key_user k" "drop (length k) (k @ varint (length v) @ v) = varint (length v) @ v"
      "length k - 8 \<le> length (k @ varint (length v) @ v)"
      by (simp_all add: key_user_def)
    have "MemTable_Get mt lk value st = do {
        r \<leftarrow> cmp_Compare cmp (key_user k) u;
        if r = 0 then do {
          let type = (ucast (key_tag k AND 0xff) :: ValueType);
          if type = kTypeValue then Some (True, v, st) else if type = kTypeDeletion then Some (True, value, NotFound [] [])
          else Some (False, value, st)
        }
        else Some (False, value, st) }"
      unfolding MemTable_Get_def seek c lk(2) Option.bind.bind_lunit holds_key [OF assms(1) True] get n Let_def prod.case parts tag
      using True parts(3) mem_slice_self [OF e(2)]
      by (simp only: valid if_True refl Option.bind.bind_lunit prod.case)
    then show ?thesis
      using True r by (simp add: get_at_def Let_def k_def [symmetric] v_def [symmetric])
  qed (simp add: MemTable_Get_def seek c valid get_at_def)
qed

end

section \<open>Histories of writes\<close>

text \<open>A write: its sequence number, kind, key and value.\<close>

type_synonym mem_write = "SequenceNumber \<times> ValueType \<times> byte list \<times> byte list"

fun mem_adds :: "(nat \<Rightarrow> u64) \<Rightarrow> mem_write list \<Rightarrow> MemTable \<Rightarrow> MemTable option" where
  "mem_adds new_char [] mt = Some mt"
| "mem_adds new_char ((s, type, key, value) # ws) mt = do { mt \<leftarrow> MemTable_Add new_char mt s type key value; mem_adds new_char ws mt }"

definition write_entry :: "mem_write \<Rightarrow> entry" where
  "write_entry w = (case w of (s, type, key, value) \<Rightarrow> (InternalKey_new key s type, value))"

definition write_ok :: "(byte list \<Rightarrow> bool) \<Rightarrow> mem_write \<Rightarrow> bool" where
  "write_ok key_ok w \<longleftrightarrow>
     (case w of (s, type, key, value) \<Rightarrow>
        s \<le> kMaxSequenceNumber \<and> type \<le> kTypeValue \<and> key_ok key \<and> length key < 2 ^ 32 - 8 \<and> fits value)"

text \<open>The writes to a key that a snapshot sees, and what reading it gives: the last of them counts.\<close>

definition seen :: "mem_write list \<Rightarrow> byte list \<Rightarrow> SequenceNumber \<Rightarrow> mem_write list" where
  "seen ws u snap = List.filter (\<lambda>(s, type, key, value). key = u \<and> s \<le> snap) ws"

definition read_at :: "mem_write list \<Rightarrow> byte list \<Rightarrow> SequenceNumber \<Rightarrow> byte list \<Rightarrow> Status \<Rightarrow> bool \<times> byte list \<times> Status" where
  "read_at ws u snap value st =
     (if seen ws u snap = [] then (False, value, st)
      else case last (seen ws u snap) of
        (s, type, key, v) \<Rightarrow> if type = kTypeValue then (True, v, st) else (True, value, NotFound [] []))"

lemma unat_pack:
  assumes "s \<le> kMaxSequenceNumber"
  shows "unat (PackSequenceAndType s t) = unat s * 256 + unat t"
proof -
  have s: "unat s < 2 ^ 56" using assms by (simp add: kMaxSequenceNumber_def word_le_nat_alt)
  have "push_bit 8 s AND ucast t = 0" by (rule bit_word_eqI) (auto simp: bit_simps dest: bit_imp_le_length)
  then have "PackSequenceAndType s t = push_bit 8 s + ucast t" by (simp add: PackSequenceAndType_def or_disjoint_add)
  moreover have "unat (push_bit 8 s) = unat s * 256" using s by (simp add: push_bit_eq_mult unat_word_ariths)
  moreover have "unat (ucast t :: u64) = unat t" by (simp add: unsigned_ucast_eq take_bit_nat_eq_self_iff order.strict_trans [OF unat_lt_8])
  ultimately show ?thesis using s unat_lt_8 [of t] by (subst \<open>PackSequenceAndType s t = _\<close>, subst unat_add_no_overflow) auto
qed

lemma pack_le_iff:
  assumes "s \<le> kMaxSequenceNumber" and "s' \<le> kMaxSequenceNumber" and "t \<le> kTypeValue"
  shows "PackSequenceAndType s t \<le> PackSequenceAndType s' kTypeValue \<longleftrightarrow> s \<le> s'"
proof -
  have "unat t \<le> 1" using assms(3) by (simp add: kTypeValue_def word_le_nat_alt)
  moreover have "a * 256 + b \<le> a' * 256 + 1 \<longleftrightarrow> a \<le> a'" if "b \<le> 1" for a a' b :: nat using that by linarith
  ultimately show ?thesis using assms(1,2) by (simp add: word_le_nat_alt unat_pack kTypeValue_def)
qed

lemma pack_less:
  assumes "s < s'" and "s' \<le> kMaxSequenceNumber" and "t \<le> kTypeValue"
  shows "PackSequenceAndType s t < PackSequenceAndType s' t'"
proof -
  have "unat t \<le> 1" using assms(3) by (simp add: kTypeValue_def word_le_nat_alt)
  moreover have "s \<le> kMaxSequenceNumber" using assms by simp
  ultimately show ?thesis using assms by (simp add: word_less_nat_alt unat_pack)
qed

context comparator begin

lemma mem_adds_works:
  assumes "holds mt es ns" and "aligned_blocks new_char" and "set es = set (map write_entry us)"
    and "list_all (write_ok key_ok) (us @ ws)" and "sorted_wrt (<) (map fst (us @ ws))"
  shows "\<exists>mt' es' ns'. mem_adds new_char ws mt = Some mt' \<and> holds mt' es' ns' \<and> set es' = set (map write_entry (us @ ws))"
  using assms
proof (induction ws arbitrary: mt es ns us)
  case (Cons w ws)
  obtain s t k v where w: "w = (s, t, k, v)" by (cases w)
  have ok: "s \<le> kMaxSequenceNumber" "t \<le> kTypeValue" "key_ok k" "length k < 2 ^ 32 - 8" "fits v"
    using Cons.prems(4) by (auto simp: w write_ok_def)
  have "fst e \<noteq> InternalKey_new k s t" if "e \<in> set es" for e
  proof -
    have "e \<in> write_entry ` set us" using that Cons.prems(3) by simp
    then obtain w' where w': "e = write_entry w'" "w' \<in> set us" by (rule imageE)
    obtain s' t' k' v' where e: "e = write_entry (s', t', k', v')" "(s', t', k', v') \<in> set us"
      using w' by (cases w') auto
    then have "s' < s" "t' \<le> kTypeValue"
      using Cons.prems(4,5) e(2) by (fastforce simp: w sorted_wrt_append list_all_iff write_ok_def)+
    then have "PackSequenceAndType s' t' \<noteq> PackSequenceAndType s t" using pack_less [of s' s t' t] ok(1) by simp
    moreover have "key_tag (fst e) = PackSequenceAndType s' t'" by (simp add: e(1) write_entry_def InternalKey_new_eq)
    ultimately show ?thesis by (metis InternalKey_new_eq key_parts_append(2))
  qed
  from MemTable_Add_works [OF Cons.prems(1,2) ok(3-5) this]
  obtain mt1 es1 ns1 where m: "MemTable_Add new_char mt s t k v = Some mt1" "holds mt1 es1 ns1"
    "set es1 = insert (InternalKey_new k s t, v) (set es)"
    by blast
  have "set es1 = set (map write_entry (us @ [w]))" using m(3) Cons.prems(3) by (auto simp: w write_entry_def)
  from Cons.IH [OF m(2) Cons.prems(2) this] Cons.prems(4,5) show ?case by (simp add: w m(1))
qed auto

text \<open>The search ends at the newest write that is seen.\<close>

lemma get_at_newest:
  assumes "holds mt es ns" and "set es = set (map write_entry ws)" and "list_all (write_ok key_ok) ws"
    and "sorted_wrt (<) (map fst ws)" and "key_ok u" and "snap \<le> kMaxSequenceNumber"
  shows "get_at u value st es (first_ge (internal_less lt) (InternalKey_new u snap kValueTypeForSeek) es) = read_at ws u snap value st"
proof -
  let ?less = "internal_less lt" and ?L = "InternalKey_new u snap kValueTypeForSeek"
  let ?p = "first_ge ?less ?L es"
  have L: "key_user ?L = u" "key_tag ?L = PackSequenceAndType snap kTypeValue" "internal_ok key_ok ?L"
    using assms(5) by (simp_all add: InternalKey_new_eq kValueTypeForSeek_def internal_ok_def)
  have sorted: "sorted_wrt ?less (map fst es)" by (rule mem_holdsD(6) [OF assms(1)])
  have p: "\<not> ?less (fst (es ! ?p)) ?L" if "?p < length es"
    using that nth_length_takeWhile [of "\<lambda>e. ?less (fst e) ?L" es] by (simp add: first_ge_def)
  have before: "?less (fst (es ! i)) ?L" if "i < ?p" for i
    using that set_takeWhileD [of "takeWhile (\<lambda>e. ?less (fst e) ?L) es ! i"] takeWhile_nth [of i "\<lambda>e. ?less (fst e) ?L" es]
    by (metis first_ge_def nth_mem set_takeWhileD)
  have entry: "\<exists>s t v. (s, t, u, v) \<in> set ws \<and> e = (InternalKey_new u s t, v) \<and> s \<le> snap"
    if e: "e \<in> set es" "key_user (fst e) = u" "\<not> ?less (fst e) ?L" for e
  proof -
    obtain s t k v where w: "(s, t, k, v) \<in> set ws" "e = (InternalKey_new k s t, v)"
      using e(1) assms(2) by (auto simp: write_entry_def)
    then have "k = u" "key_tag (fst e) = PackSequenceAndType s t" using e(2) by (auto simp: InternalKey_new_eq)
    moreover have "s \<le> kMaxSequenceNumber" "t \<le> kTypeValue" using assms(3) w(1) by (auto simp: list_all_iff write_ok_def)
    ultimately have "s \<le> snap"
      using e(2,3) L pack_le_iff [of s snap t] assms(6) by (auto simp: internal_less_def not_less)
    then show ?thesis using w \<open>k = u\<close> by blast
  qed
  show ?thesis
  proof (cases "seen ws u snap = []")
    case True
    have "\<not> (?p < length es \<and> key_user (fst (es ! ?p)) = u)"
    proof
      assume h: "?p < length es \<and> key_user (fst (es ! ?p)) = u"
      then obtain s t v where "(s, t, u, v) \<in> set ws" "s \<le> snap" using entry [of "es ! ?p"] p by auto
      then show False using True by (auto simp: seen_def filter_empty_conv)
    qed
    then show ?thesis by (auto simp: get_at_def read_at_def True)
  next
    case False
    obtain s t k v where last: "last (seen ws u snap) = (s, t, k, v)" by (cases "last (seen ws u snap)")
    have "(s, t, k, v) \<in> set (seen ws u snap)" using last_in_set [OF False] last by simp
    then have w: "(s, t, u, v) \<in> set ws" "k = u" "s \<le> snap" by (auto simp: seen_def)
    then have ok: "s \<le> kMaxSequenceNumber" "t \<le> kTypeValue" using assms(3) by (auto simp: list_all_iff write_ok_def)
    have newest: "s' \<le> s" if "(s', t', u, v') \<in> set ws" "s' \<le> snap" for s' t' v'
    proof -
      have "sorted_wrt (<) (map fst (seen ws u snap))" using assms(4) unfolding seen_def by (simp add: sorted_wrt_map sorted_wrt_filter)
      moreover have "(s', t', u, v') \<in> set (seen ws u snap)" using that by (simp add: seen_def)
      moreover obtain xs where "seen ws u snap = xs @ [(s, t, k, v)]" using False last by (metis append_butlast_last_id)
      ultimately show ?thesis by (fastforce simp: sorted_wrt_append)
    qed
    let ?e = "(InternalKey_new u s t, v)"
    have e: "?e \<in> set es" using assms(2) w(1) by (force simp: write_entry_def)
    then obtain i where i: "i < length es" "es ! i = ?e" by (metis in_set_conv_nth)
    have ge: "\<not> ?less (fst ?e) ?L"
      using less_irrefl [OF assms(5)] pack_le_iff [OF ok(1) assms(6) ok(2)] w(3) L by (auto simp: internal_less_def InternalKey_new_eq)
    then have "?p \<le> i" using before [of i] i(2) by (metis not_less)
    moreover have "\<not> ?p < i"
    proof
      assume less: "?p < i"
      define q where "q = es ! ?p"
      have q: "q \<in> set es" "\<not> ?less (fst q) ?L" "?less (fst q) (fst ?e)"
        using less i sorted_wrt_nth_less [OF sorted less] p by (auto simp: q_def)
      have "key_ok (key_user (fst q))" using mem_holdsD(5) [OF assms(1) q(1)] by (simp add: internal_ok_def)
      then have "key_user (fst q) = u"
        using q(2,3) L by (auto simp: internal_less_def InternalKey_new_eq)
      from entry [OF q(1) this q(2)] obtain s' t' v' where q': "(s', t', u, v') \<in> set ws" "q = (InternalKey_new u s' t', v')" "s' \<le> snap" by blast
      have later: "PackSequenceAndType s t < PackSequenceAndType s' t'"
        using q(3) less_irrefl [OF assms(5)] by (auto simp: q'(2) internal_less_def InternalKey_new_eq)
      have "s' \<le> s" using newest q' by blast
      moreover have "s' \<noteq> s"
      proof
        assume "s' = s"
        moreover have "distinct (map fst ws)" using assms(4) by (simp add: strict_sorted_iff)
        ultimately have "(t', u, v') = (t, u, v)" using q'(1) w(1) by (metis eq_key_imp_eq_value)
        then show False using later \<open>s' = s\<close> by simp
      qed
      moreover have "t' \<le> kTypeValue" using assms(3) q'(1) by (auto simp: list_all_iff write_ok_def)
      ultimately show False using later pack_less [of s' s t' t] ok(1) by (auto simp: order_le_less)
    qed
    ultimately have "es ! ?p = ?e" "?p < length es" using i by auto
    moreover have "t = kTypeValue \<or> t = kTypeDeletion"
      using ok(2) word_unat_eq_iff [of t] by (auto simp: kTypeValue_def kTypeDeletion_def word_le_nat_alt le_Suc_eq)
    ultimately show ?thesis
      using False by (auto simp: get_at_def read_at_def last InternalKey_new_eq pack_parts kTypeValue_def kTypeDeletion_def)
  qed
qed

end

lemma history_holds:
  assumes "comparator c key_ok lt" and "aligned_blocks new_char"
    and "list_all (write_ok key_ok) ws" and "sorted_wrt (<) (map fst ws)"
  obtains mt mt' es ns where "MemTable_new new_char c = Some mt" and "mem_adds new_char ws mt = Some mt'"
    and "mem_holds c key_ok lt mt' es ns" and "set es = set (map write_entry ws)"
proof -
  obtain mt where mt: "MemTable_new new_char c = Some mt" "mem_holds c key_ok lt mt [] []"
    using comparator.MemTable_new_works [OF assms(1,2)] by blast
  show ?thesis
    using comparator.mem_adds_works [OF assms(1) mt(2) assms(2), of "[]" ws] assms(3,4) mt(1) that by auto
qed

lemma history_get:
  assumes "comparator c key_ok lt" and "mem_holds c key_ok lt mt es ns" and "set es = set (map write_entry ws)"
    and "list_all (write_ok key_ok) ws" and "sorted_wrt (<) (map fst ws)"
    and "key_ok u" and "length u < 2 ^ 32 - 8" and "snap \<le> kMaxSequenceNumber" and "LookupKey_new u snap = Some lk"
  shows "MemTable_Get mt lk old st = Some (read_at ws u snap old st)"
  using comparator.MemTable_Get_at [OF assms(1,2,6,7,9), of old st] comparator.get_at_newest [OF assms(1-6,8)] by simp

text \<open>
  C27. Reading a memtable gives what the newest of the writes gives that the sequence number
  sees: its value, a not-found status for a deletion, and nothing if there is none; for
  every user comparator that keeps the contract, every history of writes with ascending
  sequence numbers and whatever heights the skip list chose. The iterator runs over all
  the entries in the order of internal keys.
\<close>

theorem memtable_reads_newest:
  assumes "comparator c key_ok lt" and "aligned_blocks new_char"
    and "list_all (write_ok key_ok) ws" and "sorted_wrt (<) (map fst ws)"
  shows "\<exists>mt mt' es stands. MemTable_new new_char c = Some mt \<and> mem_adds new_char ws mt = Some mt' \<and>
    (\<forall>u snap lk value st. key_ok u \<and> length u < 2 ^ 32 - 8 \<and> snap \<le> kMaxSequenceNumber \<and> LookupKey_new u snap = Some lk \<longrightarrow>
      MemTable_Get mt' lk value st = Some (read_at ws u snap value st)) \<and>
    set es = set (map write_entry ws) \<and> sorted_wrt (internal_less lt) (map fst es) \<and> stands MemTable_NewIterator (length es) \<and>
    iterator (MemTableIterator_ops mt') es stands (\<lambda>k. internal_ok key_ok k \<and> fits k) (internal_less lt)"
proof -
  obtain mt mt' es ns where mt: "MemTable_new new_char c = Some mt" and mt': "mem_adds new_char ws mt = Some mt'"
    "mem_holds c key_ok lt mt' es ns" "set es = set (map write_entry ws)"
    by (rule history_holds [OF assms])
  have "MemTable_NewIterator = node_at ns (length es)" using mem_holdsD(1) [OF mt'(2)] by (simp add: MemTable_NewIterator_def node_at_def)
  then show ?thesis
    using mt mt'(1,3) comparator.memtable_iterator [OF assms(1) mt'(2)] mem_holdsD(6) [OF mt'(2)]
      history_get [OF assms(1) mt'(2,3) assms(3,4)]
    by - (rule exI [of _ mt], rule exI [of _ mt'], rule exI [of _ es],
        rule exI [of _ "\<lambda>it p. it = node_at ns p \<and> p \<le> length es"], auto)
qed

text \<open>Three writes to two keys, read at a snapshot between the last two.\<close>

theorem memtable_reads_newest_witness:
  "\<exists>mt mt' lk. MemTable_new (\<lambda>_. 0x10000) BytewiseComparator = Some mt \<and>
    mem_adds (\<lambda>_. 0x10000) [(1, kTypeValue, [5], [7]), (2, kTypeValue, [6], [8]), (3, kTypeDeletion, [5], [])] mt = Some mt' \<and>
    LookupKey_new [5] 2 = Some lk \<and> MemTable_Get mt' lk [] Status_OK = Some (True, [7], Status_OK)"
proof -
  let ?ws = "[(1, kTypeValue, [5], [7]), (2, kTypeValue, [6], [8]), (3, kTypeDeletion, [5], [])] :: mem_write list"
  have "list_all (write_ok (\<lambda>_. True)) ?ws" "sorted_wrt (<) (map fst ?ws)" "aligned_blocks (\<lambda>_. 0x10000)"
    by (simp_all add: write_ok_def kMaxSequenceNumber_def kTypeValue_def kTypeDeletion_def fits_def aligned_blocks_def)
  from memtable_reads_newest [OF bytewise.comparator_axioms this(3,1,2)] obtain mt mt' where
    m: "MemTable_new (\<lambda>_. 0x10000) BytewiseComparator = Some mt" "mem_adds (\<lambda>_. 0x10000) ?ws mt = Some mt'"
    and get: "\<And>u snap lk old st. length u < 2 ^ 32 - 8 \<Longrightarrow> snap \<le> kMaxSequenceNumber \<Longrightarrow> LookupKey_new u snap = Some lk \<Longrightarrow>
      MemTable_Get mt' lk old st = Some (read_at ?ws u snap old st)"
    by (elim exE conjE) (erule that, assumption, simp)
  obtain lk where lk: "LookupKey_new [5] 2 = Some lk" using lookup_key_fits [of "[5]" 2] by auto
  have "read_at ?ws [5] 2 [] Status_OK = (True, [7], Status_OK)" by (simp add: read_at_def seen_def)
  moreover have "(2 :: u64) \<le> kMaxSequenceNumber" by (simp add: kMaxSequenceNumber_def)
  ultimately show ?thesis using m lk get [of "[5]" 2 lk "[]" Status_OK] by auto
qed

interpretation bytewise_memtable: skip_order "MemTable_compare BytewiseComparator" "mem_ok (\<lambda>_. True)" "mem_less bytes_less"
  by (rule bytewise.mem_skip_order)

end
