(* ===== verification/LDB_Write_Batch.thy ===== *)
theory LDB_Write_Batch
  imports LDB_Memtable_Props
begin

text \<open>
  \<^verbatim>\<open>db/write_batch.cc\<close>, \<^verbatim>\<open>db/write_batch_internal.h\<close> and \<^verbatim>\<open>include/leveldb/write_batch.h\<close> of
  \<^verbatim>\<open>src/MovieDBApp/Pods/leveldb-library\<close>: the updates that are applied together.

  A batch is the string \<^verbatim>\<open>rep_\<close>; \<^const>\<open>None\<close> is a failed assertion, an access outside the
  string or an overflow of an \<^verbatim>\<open>int\<close>. A handler is the record of its virtual functions on its
  state.
\<close>

section \<open>Batches\<close>

definition kHeader :: nat where "kHeader = 12"

definition WriteBatch_Clear :: "byte list \<Rightarrow> byte list" where
  "WriteBatch_Clear rep = replicate kHeader 0"

definition WriteBatch_new :: "byte list" where
  "WriteBatch_new = WriteBatch_Clear []"

definition WriteBatch_ApproximateSize :: "byte list \<Rightarrow> nat" where
  "WriteBatch_ApproximateSize rep = length rep"

definition WriteBatch_Count :: "byte list \<Rightarrow> int option" where
  "WriteBatch_Count rep = map_option sint (DecodeFixed32 (drop 8 rep))"

definition WriteBatch_SetCount :: "byte list \<Rightarrow> int \<Rightarrow> byte list option" where
  "WriteBatch_SetCount rep n =
     (if length rep < 12 then None else Some (take 8 rep @ EncodeFixed32 (of_int n) @ drop 12 rep))"

definition WriteBatch_Sequence :: "byte list \<Rightarrow> SequenceNumber option" where
  "WriteBatch_Sequence rep = DecodeFixed64 rep"

definition WriteBatch_SetSequence :: "byte list \<Rightarrow> SequenceNumber \<Rightarrow> byte list option" where
  "WriteBatch_SetSequence rep s = (if length rep < 8 then None else Some (EncodeFixed64 s @ drop 8 rep))"

definition WriteBatch_Contents :: "byte list \<Rightarrow> byte list" where
  "WriteBatch_Contents rep = rep"

definition WriteBatch_ByteSize :: "byte list \<Rightarrow> nat" where
  "WriteBatch_ByteSize rep = length rep"

definition WriteBatch_SetContents :: "byte list \<Rightarrow> byte list \<Rightarrow> byte list option" where
  "WriteBatch_SetContents rep contents = (if length contents \<ge> kHeader then Some contents else None)"

text \<open>A sum of \<^verbatim>\<open>int\<close>s.\<close>

definition int_add :: "int \<Rightarrow> int \<Rightarrow> int option" where
  "int_add a b = (if a + b < 2 ^ 31 \<and> - (2 ^ 31) \<le> a + b then Some (a + b) else None)"

definition WriteBatch_Put :: "byte list \<Rightarrow> byte list \<Rightarrow> byte list \<Rightarrow> byte list option" where
  "WriteBatch_Put rep key value = do {
     count \<leftarrow> WriteBatch_Count rep;
     n \<leftarrow> int_add count 1;
     rep \<leftarrow> WriteBatch_SetCount rep n;
     let rep = rep @ [kTypeValue];
     let rep = PutLengthPrefixedSlice rep key;
     Some (PutLengthPrefixedSlice rep value)
   }"

definition WriteBatch_Delete :: "byte list \<Rightarrow> byte list \<Rightarrow> byte list option" where
  "WriteBatch_Delete rep key = do {
     count \<leftarrow> WriteBatch_Count rep;
     n \<leftarrow> int_add count 1;
     rep \<leftarrow> WriteBatch_SetCount rep n;
     Some (PutLengthPrefixedSlice (rep @ [kTypeDeletion]) key)
   }"

definition WriteBatchInternal_Append :: "byte list \<Rightarrow> byte list \<Rightarrow> byte list option" where
  "WriteBatchInternal_Append dst src = do {
     m \<leftarrow> WriteBatch_Count dst;
     n \<leftarrow> WriteBatch_Count src;
     k \<leftarrow> int_add m n;
     dst \<leftarrow> WriteBatch_SetCount dst k;
     if length src \<ge> kHeader then Some (dst @ drop kHeader src) else None
   }"

definition WriteBatch_Append :: "byte list \<Rightarrow> byte list \<Rightarrow> byte list option" where
  "WriteBatch_Append rep source = WriteBatchInternal_Append rep source"

section \<open>Iterating\<close>

record 'h Handler =
  h_Put :: "'h \<Rightarrow> byte list \<Rightarrow> byte list \<Rightarrow> 'h option"
  h_Delete :: "'h \<Rightarrow> byte list \<Rightarrow> 'h option"

lemma prefixed_rest: "(r, rest) = GetLengthPrefixedSlice input \<Longrightarrow> length rest \<le> length input"
  using GetLengthPrefixedSlice_le [of input] by (cases "GetLengthPrefixedSlice input") auto

text \<open>The \<^verbatim>\<open>while\<close> loop: an early return or the number of records found.\<close>

function iterate_loop :: "'h Handler \<Rightarrow> byte list \<Rightarrow> int \<Rightarrow> 'h \<Rightarrow> ((Status + int) \<times> 'h) option" where
  "iterate_loop handler [] found h = Some (Inr found, h)"
| "iterate_loop handler (tag # input) found h =
     (if tag = kTypeValue then
        (case GetLengthPrefixedSlice input of
           (None, _) \<Rightarrow> Some (Inl (Corruption (cstr ''bad WriteBatch Put'') []), h)
         | (Some key, input) \<Rightarrow>
             (case GetLengthPrefixedSlice input of
                (None, _) \<Rightarrow> Some (Inl (Corruption (cstr ''bad WriteBatch Put'') []), h)
              | (Some value, input) \<Rightarrow>
                  (case h_Put handler h key value of
                     None \<Rightarrow> None
                   | Some h \<Rightarrow> iterate_loop handler input (found + 1) h)))
      else if tag = kTypeDeletion then
        (case GetLengthPrefixedSlice input of
           (None, _) \<Rightarrow> Some (Inl (Corruption (cstr ''bad WriteBatch Delete'') []), h)
         | (Some key, input) \<Rightarrow>
             (case h_Delete handler h key of
                None \<Rightarrow> None
              | Some h \<Rightarrow> iterate_loop handler input (found + 1) h))
      else Some (Inl (Corruption (cstr ''unknown WriteBatch tag'') []), h))"
  by pat_completeness auto
termination
  by (relation "measure (\<lambda>(_, input, _, _). length input)")
    (auto dest!: prefixed_rest)

definition WriteBatch_Iterate :: "'h Handler \<Rightarrow> byte list \<Rightarrow> 'h \<Rightarrow> (Status \<times> 'h) option" where
  "WriteBatch_Iterate handler rep h =
     (if length rep < kHeader then Some (Corruption (cstr ''malformed WriteBatch (too small)'') [], h)
      else do {
        (r, h) \<leftarrow> iterate_loop handler (drop kHeader rep) 0 h;
        case r of
          Inl s \<Rightarrow> Some (s, h)
        | Inr found \<Rightarrow> do {
            count \<leftarrow> WriteBatch_Count rep;
            if found \<noteq> count then Some (Corruption (cstr ''WriteBatch has wrong count'') [], h)
            else Some (Status_OK, h)
          }
      })"

section \<open>Inserting into a memtable\<close>

record MemTableInserter =
  ins_sequence :: SequenceNumber
  ins_mem :: MemTable

definition MemTableInserter_Put ::
  "(nat \<Rightarrow> u64) \<Rightarrow> MemTableInserter \<Rightarrow> byte list \<Rightarrow> byte list \<Rightarrow> MemTableInserter option" where
  "MemTableInserter_Put new_char ins key value = do {
     mem \<leftarrow> MemTable_Add new_char (ins_mem ins) (ins_sequence ins) kTypeValue key value;
     Some (ins\<lparr>ins_mem := mem, ins_sequence := ins_sequence ins + 1\<rparr>)
   }"

definition MemTableInserter_Delete :: "(nat \<Rightarrow> u64) \<Rightarrow> MemTableInserter \<Rightarrow> byte list \<Rightarrow> MemTableInserter option" where
  "MemTableInserter_Delete new_char ins key = do {
     mem \<leftarrow> MemTable_Add new_char (ins_mem ins) (ins_sequence ins) kTypeDeletion key [];
     Some (ins\<lparr>ins_mem := mem, ins_sequence := ins_sequence ins + 1\<rparr>)
   }"

definition MemTableInserter_ops :: "(nat \<Rightarrow> u64) \<Rightarrow> MemTableInserter Handler" where
  "MemTableInserter_ops new_char = \<lparr>h_Put = MemTableInserter_Put new_char, h_Delete = MemTableInserter_Delete new_char\<rparr>"

definition WriteBatch_InsertInto :: "(nat \<Rightarrow> u64) \<Rightarrow> byte list \<Rightarrow> MemTable \<Rightarrow> (Status \<times> MemTable) option" where
  "WriteBatch_InsertInto new_char rep memtable = do {
     s \<leftarrow> WriteBatch_Sequence rep;
     (st, ins) \<leftarrow> WriteBatch_Iterate (MemTableInserter_ops new_char) rep \<lparr>ins_sequence = s, ins_mem = memtable\<rparr>;
     Some (st, ins_mem ins)
   }"

section \<open>What a batch holds\<close>

datatype batch_op = Put_op "byte list" "byte list" | Delete_op "byte list"

fun op_bytes :: "batch_op \<Rightarrow> byte list" where
  "op_bytes (Put_op key value) = kTypeValue # varint (length key) @ key @ varint (length value) @ value"
| "op_bytes (Delete_op key) = kTypeDeletion # varint (length key) @ key"

definition batch_bytes :: "SequenceNumber \<Rightarrow> batch_op list \<Rightarrow> byte list" where
  "batch_bytes s ops = le_bytes 8 s @ le_bytes 4 (of_nat (length ops) :: u32) @ concat (map op_bytes ops)"

fun op_fits :: "batch_op \<Rightarrow> bool" where
  "op_fits (Put_op key value) \<longleftrightarrow> fits key \<and> fits value"
| "op_fits (Delete_op key) \<longleftrightarrow> fits key"

text \<open>The calls that make a batch.\<close>

fun add_op :: "batch_op \<Rightarrow> byte list \<Rightarrow> byte list option" where
  "add_op (Put_op key value) rep = WriteBatch_Put rep key value"
| "add_op (Delete_op key) rep = WriteBatch_Delete rep key"

fun add_ops :: "batch_op list \<Rightarrow> byte list \<Rightarrow> byte list option" where
  "add_ops [] rep = Some rep"
| "add_ops (q # qs) rep = do { rep \<leftarrow> add_op q rep; add_ops qs rep }"

lemma length_batch: "12 \<le> length (batch_bytes s ops)"
  by (simp add: batch_bytes_def)

lemma batch_count:
  assumes "length ops < 2 ^ 31"
  shows "WriteBatch_Count (batch_bytes s ops) = Some (int (length ops))"
proof -
  have "sint (of_nat (length ops) :: u32) = int (length ops)"
    using assms by (simp add: sint_sbintrunc' signed_take_bit_int_eq_self signed_of_nat)
  then show ?thesis by (simp add: WriteBatch_Count_def batch_bytes_def)
qed

lemma batch_SetCount: "WriteBatch_SetCount (batch_bytes s ops) (int n) = Some (le_bytes 8 s @ le_bytes 4 (of_nat n :: u32) @ concat (map op_bytes ops))"
  using length_batch [of s ops] by (simp add: WriteBatch_SetCount_def batch_bytes_def)

lemma batch_SetSequence: "WriteBatch_SetSequence (batch_bytes s ops) s' = Some (batch_bytes s' ops)"
  by (simp add: WriteBatch_SetSequence_def batch_bytes_def)

lemma batch_Sequence: "WriteBatch_Sequence (batch_bytes s ops) = Some s"
  by (simp add: WriteBatch_Sequence_def batch_bytes_def)

lemma WriteBatch_new_eq: "WriteBatch_new = batch_bytes 0 []"
  by (simp add: WriteBatch_new_def WriteBatch_Clear_def kHeader_def batch_bytes_def le_bytes_4 le_bytes_8 eval_nat_numeral)

lemma add_op_works:
  assumes "op_fits q" and "length ops + 1 < 2 ^ 31"
  shows "add_op q (batch_bytes s ops) = Some (batch_bytes s (ops @ [q]))"
proof -
  have "int_add (int (length ops)) 1 = Some (int (length ops + 1))" using assms(2) by (simp add: int_add_def)
  moreover have "length ops < 2 ^ 31" using assms(2) by simp
  ultimately show ?thesis
    using assms batch_SetCount [of s ops "length ops + 1"]
    by (cases q) (simp_all add: WriteBatch_Put_def WriteBatch_Delete_def batch_count PutLengthPrefixedSlice_eq fits_def
        batch_bytes_def [of s "ops @ [_]"] add.commute)
qed

lemma add_ops_works:
  assumes "list_all op_fits qs" and "length (ops @ qs) < 2 ^ 31"
  shows "add_ops qs (batch_bytes s ops) = Some (batch_bytes s (ops @ qs))"
  using assms by (induction qs arbitrary: ops) (simp_all add: add_op_works)

lemma batch_Append_works:
  assumes "length ops + length qs < 2 ^ 31"
  shows "WriteBatch_Append (batch_bytes s ops) (batch_bytes t qs) = Some (batch_bytes s (ops @ qs))"
proof -
  have "int_add (int (length ops)) (int (length qs)) = Some (int (length ops + length qs))" using assms by (simp add: int_add_def)
  moreover have "drop 12 (batch_bytes t qs) = concat (map op_bytes qs)" by (simp add: batch_bytes_def)
  ultimately show ?thesis
    using assms batch_SetCount [of s ops "length ops + length qs"] length_batch [of t qs]
    by (simp add: WriteBatch_Append_def WriteBatchInternal_Append_def batch_count kHeader_def batch_bytes_def [of s "ops @ qs"])
qed

text \<open>What a handler does with the records.\<close>

fun handle_ops :: "'h Handler \<Rightarrow> batch_op list \<Rightarrow> 'h \<Rightarrow> 'h option" where
  "handle_ops handler [] h = Some h"
| "handle_ops handler (q # qs) h = do {
     h \<leftarrow> (case q of Put_op key value \<Rightarrow> h_Put handler h key value | Delete_op key \<Rightarrow> h_Delete handler h key);
     handle_ops handler qs h
   }"

lemma iterate_loop_works:
  assumes "list_all op_fits ops"
  shows "iterate_loop handler (concat (map op_bytes ops)) found h
    = map_option (\<lambda>h. (Inr (found + int (length ops)), h)) (handle_ops handler ops h)"
  using assms
proof (induction ops arbitrary: found h)
  case (Cons q ops)
  then show ?case
    by (cases q) (auto simp: kTypeValue_def kTypeDeletion_def fits_def add.assoc split: option.splits)
qed simp

lemma Iterate_works:
  assumes "list_all op_fits ops" and "length ops < 2 ^ 31"
  shows "WriteBatch_Iterate handler (batch_bytes s ops) h = map_option (\<lambda>h. (Status_OK, h)) (handle_ops handler ops h)"
proof -
  have "drop 12 (batch_bytes s ops) = concat (map op_bytes ops)" by (simp add: batch_bytes_def)
  moreover have "\<not> length (batch_bytes s ops) < 12" using length_batch [of s ops] by simp
  ultimately show ?thesis
    using iterate_loop_works [OF assms(1), of handler 0 h]
    by (cases "handle_ops handler ops h") (simp_all add: WriteBatch_Iterate_def kHeader_def batch_count [OF assms(2)])
qed

text \<open>
  A batch hands its records to a handler in the order they were put in, all of them, and
  reports success, whatever the handler does; batches that were appended hand over the
  records of both. The sequence number does not matter.
\<close>

lemma write_batch_iterates:
  assumes "list_all op_fits (ops @ qs)" and "length (ops @ qs) < 2 ^ 31"
  shows "\<exists>rep rep' both. add_ops ops WriteBatch_new = Some rep \<and> add_ops qs WriteBatch_new = Some rep' \<and>
    WriteBatch_Append rep rep' = Some both \<and> WriteBatch_Count both = Some (int (length ops + length qs)) \<and>
    (\<forall>handler h. WriteBatch_Iterate handler both h = map_option (\<lambda>h. (Status_OK, h)) (handle_ops handler (ops @ qs) h))"
proof -
  have "add_ops ops WriteBatch_new = Some (batch_bytes 0 ops)" "add_ops qs WriteBatch_new = Some (batch_bytes 0 qs)"
    "WriteBatch_Append (batch_bytes 0 ops) (batch_bytes 0 qs) = Some (batch_bytes 0 (ops @ qs))"
    using assms add_ops_works [of ops "[]" 0] add_ops_works [of qs "[]" 0] batch_Append_works [of ops qs 0 0] by (auto simp: WriteBatch_new_eq)
  moreover note Iterate_works [OF assms]
  ultimately show ?thesis using batch_count [of "ops @ qs" 0] assms by auto
qed

section \<open>Batches and memtables\<close>

text \<open>The writes of a batch: consecutive sequence numbers from that of the batch.\<close>

fun numbered :: "SequenceNumber \<Rightarrow> batch_op list \<Rightarrow> mem_write list" where
  "numbered s [] = []"
| "numbered s (Put_op key value # qs) = (s, kTypeValue, key, value) # numbered (s + 1) qs"
| "numbered s (Delete_op key # qs) = (s, kTypeDeletion, key, []) # numbered (s + 1) qs"

lemma handle_inserter:
  "handle_ops (MemTableInserter_ops new_char) ops \<lparr>ins_sequence = s, ins_mem = mt\<rparr>
    = map_option (\<lambda>mt. \<lparr>ins_sequence = s + of_nat (length ops), ins_mem = mt\<rparr>) (mem_adds new_char (numbered s ops) mt)"
proof (induction ops arbitrary: s mt)
  case (Cons q ops)
  note ops = MemTableInserter_ops_def MemTableInserter_Put_def MemTableInserter_Delete_def
  show ?case
  proof (cases q)
    case (Put_op key v)
    then show ?thesis
      using Cons.IH [of "s + 1"] by (cases "MemTable_Add new_char mt s kTypeValue key v") (simp_all add: ops algebra_simps)
  next
    case (Delete_op key)
    then show ?thesis
      using Cons.IH [of "s + 1"] by (cases "MemTable_Add new_char mt s kTypeDeletion key []") (simp_all add: ops algebra_simps)
  qed
qed simp

lemma InsertInto_adds:
  assumes "list_all op_fits ops" and "length ops < 2 ^ 31"
  shows "WriteBatch_InsertInto new_char (batch_bytes s ops) mt = map_option (\<lambda>mt. (Status_OK, mt)) (mem_adds new_char (numbered s ops) mt)"
  by (cases "mem_adds new_char (numbered s ops) mt")
    (simp_all add: WriteBatch_InsertInto_def batch_Sequence Iterate_works [OF assms] handle_inserter)

lemma mem_adds_append: "mem_adds new_char (ws @ vs) mt = mem_adds new_char ws mt \<bind> mem_adds new_char vs"
proof (induction ws arbitrary: mt)
  case (Cons w ws)
  then show ?case by (cases w) (auto split: bind_splits)
qed simp

text \<open>
  C26. A batch that is given a sequence number above those of the writes before and inserted
  into a memtable succeeds, and from then on a lookup finds what the newest write gives,
  among the records of the batch and the writes before: of the records of a batch to the
  same key the last one wins, and a snapshot before the batch does not see it.
\<close>

theorem batch_then_lookup:
  assumes "comparator c key_ok lt" and "aligned_blocks new_char" and "list_all op_fits ops" and "length ops < 2 ^ 31"
    and "list_all (write_ok key_ok) (ws @ numbered s ops)" and "sorted_wrt (<) (map fst (ws @ numbered s ops))"
  shows "\<exists>mt mt1 rep rep' mt2. MemTable_new new_char c = Some mt \<and> mem_adds new_char ws mt = Some mt1 \<and>
    add_ops ops WriteBatch_new = Some rep \<and> WriteBatch_SetSequence rep s = Some rep' \<and>
    WriteBatch_InsertInto new_char rep' mt1 = Some (Status_OK, mt2) \<and>
    (\<forall>u snap lk value st. key_ok u \<and> length u < 2 ^ 32 - 8 \<and> snap \<le> kMaxSequenceNumber \<and> LookupKey_new u snap = Some lk \<longrightarrow>
      MemTable_Get mt2 lk value st = Some (read_at (ws @ numbered s ops) u snap value st))"
proof -
  obtain mt mt2 es ns where mt: "MemTable_new new_char c = Some mt" "mem_adds new_char (ws @ numbered s ops) mt = Some mt2"
    and holds: "mem_holds c key_ok lt mt2 es ns" "set es = set (map write_entry (ws @ numbered s ops))"
    by (rule history_holds [OF assms(1,2,5,6)])
  then obtain mt1 where mt1: "mem_adds new_char ws mt = Some mt1" "mem_adds new_char (numbered s ops) mt1 = Some mt2"
    by (auto simp: mem_adds_append split: bind_splits)
  moreover have "add_ops ops WriteBatch_new = Some (batch_bytes 0 ops)"
    using add_ops_works [of ops "[]" 0] assms(3,4) by (simp add: WriteBatch_new_eq)
  ultimately show ?thesis
    using mt(1) batch_SetSequence [of 0 ops s] InsertInto_adds [OF assms(3,4), of new_char s mt1] history_get [OF assms(1) holds assms(5,6)]
    by fastforce
qed

theorem batch_then_lookup_witness:
  "\<exists>mt1 rep rep' mt2 lk. add_ops [Put_op [5] [7], Delete_op [5], Put_op [5] [9]] WriteBatch_new = Some rep \<and>
    WriteBatch_SetSequence rep 2 = Some rep' \<and> WriteBatch_InsertInto (\<lambda>_. 0x10000) rep' mt1 = Some (Status_OK, mt2) \<and>
    LookupKey_new [5] 4 = Some lk \<and> MemTable_Get mt2 lk [] Status_OK = Some (True, [9], Status_OK)"
proof -
  let ?ops = "[Put_op [5] [7], Delete_op [5], Put_op [5] [9]]" and ?ws = "[(1, kTypeValue, [5], [3])] :: mem_write list"
  have "list_all op_fits ?ops" "length ?ops < 2 ^ 31" "list_all (write_ok (\<lambda>_. True)) (?ws @ numbered 2 ?ops)"
    "sorted_wrt (<) (map fst (?ws @ numbered 2 ?ops))" "aligned_blocks (\<lambda>_. 0x10000)"
    by (simp_all add: write_ok_def kMaxSequenceNumber_def kTypeValue_def kTypeDeletion_def fits_def aligned_blocks_def)
  from batch_then_lookup [OF bytewise.comparator_axioms this(5,1-4)] obtain rep rep' mt1 mt2 where
    m: "add_ops ?ops WriteBatch_new = Some rep" "WriteBatch_SetSequence rep 2 = Some rep'"
      "WriteBatch_InsertInto (\<lambda>_. 0x10000) rep' mt1 = Some (Status_OK, mt2)"
    and get: "\<And>u snap lk old st. length u < 2 ^ 32 - 8 \<Longrightarrow> snap \<le> kMaxSequenceNumber \<Longrightarrow> LookupKey_new u snap = Some lk \<Longrightarrow>
      MemTable_Get mt2 lk old st = Some (read_at (?ws @ numbered 2 ?ops) u snap old st)"
    by (elim exE conjE) (erule that, assumption+, simp)
  obtain lk where lk: "LookupKey_new [5] 4 = Some lk" using lookup_key_fits [of "[5]" 4] by auto
  have "read_at (?ws @ numbered 2 ?ops) [5] 4 [] Status_OK = (True, [9], Status_OK)" by (simp add: read_at_def seen_def)
  moreover have "(4 :: u64) \<le> kMaxSequenceNumber" by (simp add: kMaxSequenceNumber_def)
  ultimately show ?thesis using m lk get [of "[5]" 4 lk "[]" Status_OK] by auto
qed

end
