(* ===== verification/Spec2Isabelle.thy ===== *)
theory Spec2Isabelle
  imports PB_Safety_Props PB_Value_Props PB_Decode Proto_Check FBase64 LDB_Filename LDB_Table_System LDB_Version_Edit LDB_Write_Batch
begin

text \<open>
  The C code of the MovieDBApp repository under \<^verbatim>\<open>src/MovieDBApp/Pods\<close>.

  The application itself is a Swift view layer over a JSON service; the C code it carries is
  that of its libraries. Modelled here are nanopb (\<^verbatim>\<open>nanopb/pb.h\<close>, \<^verbatim>\<open>pb_common.c\<close>,
  \<^verbatim>\<open>pb_encode.c\<close>, \<^verbatim>\<open>pb_decode.c\<close>: an encoder and a decoder of Protocol Buffers that
  walk over a table of field descriptors), the two sets of generated tables that use it
  (\<^verbatim>\<open>cct.nanopb\<close>, the messages of the Google data transport, and \<^verbatim>\<open>firebasecore.nanopb\<close>),
  the Base64 codec of the web socket (\<^verbatim>\<open>fbase64.c\<close>), and LevelDB, the key-value store below
  the Firebase database (\<^verbatim>\<open>leveldb-library\<close>): its log files, its sorted tables with
  everything that writes and reads them, its block cache, its memtable and write batches.

  \<^bold>\<open>Memory.\<close> \<^verbatim>\<open>Memory\<close> is the flat byte memory of a 64-bit little-endian target with the
  heap blocks of \<^verbatim>\<open>realloc\<close> and \<^verbatim>\<open>free\<close>; undefined behaviour (a read or write outside live
  bytes, a bad \<^verbatim>\<open>free\<close>) is the result \<^const>\<open>None\<close> everywhere. \<^verbatim>\<open>Mem_Frame\<close> says what it
  means that only a region is written.

  \<^bold>\<open>Descriptors.\<close> \<^verbatim>\<open>PB_Types\<close> has the types and constants of \<^verbatim>\<open>pb.h\<close>, the sizes and
  offsets of C structures and the macros that build tables; \<^verbatim>\<open>PB_Common\<close> the field iterator;
  \<^verbatim>\<open>PB_Layout\<close> a decidable condition that a table fits the structure it describes;
  \<^verbatim>\<open>Proto_CCT\<close> and \<^verbatim>\<open>Proto_Core\<close> the generated structures, enumerations, initialisers and
  tables, and \<^verbatim>\<open>Proto_Check\<close> the properties of them: each table fits its structure, the
  iterator visits every member at its address, the default values are those of the
  initialisers.

  \<^bold>\<open>Encoder.\<close> \<^verbatim>\<open>PB_Ostream\<close> holds streams, varints and keys, \<^verbatim>\<open>PB_Encode\<close> the encoder of
  messages: one definition per C function, submessages, extensions and arrays included, the
  recursion over submessages bounded by a nesting depth \<open>n\<close> (\<^const>\<open>None\<close> when it is
  used up; the theorems hold for every \<open>n\<close> for which the reference has a value).
  \<^verbatim>\<open>PB_Wire\<close> is the wire format as a datatype with its serialisation, \<^verbatim>\<open>PB_Encode_Spec\<close>
  the message a structure in memory stands for, \<^verbatim>\<open>PB_Sink\<close> the contract of an output
  callback (a locale, interpreted on the buffer and on the sizing stream), and
  \<^verbatim>\<open>PB_Encode_Refine\<close> the proof that the encoder writes the serialisation of that message,
  or fails without leaving the buffer.

  \<^bold>\<open>Decoder.\<close> \<^verbatim>\<open>PB_Istream\<close> holds input streams and the readers of values,
  \<^verbatim>\<open>PB_Decode_Mem\<close> default values and release, \<^verbatim>\<open>PB_Decode\<close> the decoder of messages.
  \<^verbatim>\<open>PB_Source\<close> is the contract of an input callback (a locale, interpreted on the buffer),
  \<^verbatim>\<open>PB_Varint\<close> and \<^verbatim>\<open>PB_Values\<close> what the readers do for every such source, and
  \<^verbatim>\<open>PB_Value_Props\<close> the properties on a buffer: round trips with the encoder, agreement with
  a reference decoder on arbitrary bytes, bounds. \<^verbatim>\<open>PB_Static\<close> characterises the messages
  that live in one structure, \<^verbatim>\<open>PB_Safety\<close> shows that decoding one is defined on every
  input and writes nothing else, \<^verbatim>\<open>PB_Safety_Props\<close> says so for the buffer.
  Loops over input run on a bound of \<open>unat (is_bytes_left s)\<close> rounds, which is enough since
  every round that goes on has read a byte.

  \<^bold>\<open>Base64.\<close> \<^verbatim>\<open>FBase64\<close> has both directions of the codec with every store into the target
  checked, the encoding as a function on lists, and their round trip.

  \<^bold>\<open>LevelDB, the basis.\<close> \<^verbatim>\<open>Bytes\<close> has fixed-width and variable-length integers as byte
  lists, for nanopb and LevelDB. \<^verbatim>\<open>LDB_Coding\<close> is \<^verbatim>\<open>util/coding\<close>, \<^verbatim>\<open>LDB_Slice\<close> slices and
  statuses, \<^verbatim>\<open>LDB_CRC\<close> (with its tables in \<^verbatim>\<open>LDB_CRC_Tables\<close>) \<^verbatim>\<open>util/crc32c\<close>, \<^verbatim>\<open>LDB_Logging\<close> the
  numbers in text of \<^verbatim>\<open>util/logging\<close>, \<^verbatim>\<open>LDB_Filename\<close> the file names of \<^verbatim>\<open>db/filename\<close>,
  \<^verbatim>\<open>LDB_Comparator\<close> comparators (a locale, interpreted on the bytewise one), \<^verbatim>\<open>LDB_Dbformat\<close>
  internal keys and their comparator (interpreted again), \<^verbatim>\<open>LDB_Filter_Policy\<close> the contract
  of filter policies and \<^verbatim>\<open>LDB_Bloom\<close> the Bloom filter that keeps it, \<^verbatim>\<open>LDB_Options\<close> the options.

  \<^bold>\<open>LevelDB, files and logs.\<close> \<^verbatim>\<open>LDB_Env\<close> has the interfaces of writable, sequential and
  random access files as records of functions, with a locale each for what a client relies
  on; \<^verbatim>\<open>LDB_Posix\<close> the classes of \<^verbatim>\<open>util/env_posix.cc\<close> over system calls that are parameters,
  and the interpretations for systems that may write short and may be interrupted finitely
  often. \<^verbatim>\<open>LDB_Log\<close> and \<^verbatim>\<open>LDB_Log_Reader\<close> are \<^verbatim>\<open>db/log_writer\<close> and \<^verbatim>\<open>db/log_reader\<close>,
  \<^verbatim>\<open>LDB_Log_Props\<close> their round trip, and that reading ends on arbitrary bytes.

  \<^bold>\<open>LevelDB, tables.\<close> \<^verbatim>\<open>LDB_Iterator\<close> is the interface of iterators; its locale says what it
  is to iterate over a list of entries. \<^verbatim>\<open>LDB_Block\<close> has the builder and the iterator of
  data blocks, \<^verbatim>\<open>LDB_Block_Layout\<close> their bytes, and \<^verbatim>\<open>LDB_Block_Props\<close> the proof that the
  iterator keeps the contract. \<^verbatim>\<open>LDB_Filter_Block\<close> is \<^verbatim>\<open>table/filter_block\<close>, \<^verbatim>\<open>LDB_Format\<close>
  \<^verbatim>\<open>table/format\<close>, \<^verbatim>\<open>LDB_Two_Level\<close> \<^verbatim>\<open>table/two_level_iterator\<close> with the iterator wrapper;
  \<^verbatim>\<open>LDB_Two_Level_Props\<close> shows, in a locale over any index and data iterators that keep
  the contract, that the two levels keep it over the concatenation of the blocks.
  \<^verbatim>\<open>LDB_Table_Builder\<close> and \<^verbatim>\<open>LDB_Table\<close> are \<^verbatim>\<open>table/table_builder.cc\<close> and \<^verbatim>\<open>table/table.cc\<close>;
  \<^verbatim>\<open>LDB_Table_Layout\<close> specifies the bytes of a table and proves that the builder writes them,
  \<^verbatim>\<open>LDB_Table_Props\<close> that the reader of these bytes iterates over the entries and finds every
  key, for every file and block cache that keep their contracts (a locale), and
  \<^verbatim>\<open>LDB_Table_System\<close> puts the parts together: POSIX files, the LRU cache, builder and reader.
  The bounds are those of the code: a table below \<open>2 ^ 32\<close> bytes, for offsets in a block have
  32 bits.

  \<^bold>\<open>LevelDB, the cache.\<close> \<^verbatim>\<open>LDB_Cache\<close> is the interface of caches and its contract,
  \<^verbatim>\<open>LDB_LRU_Cache\<close> the code of \<^verbatim>\<open>util/cache.cc\<close> with its pointers: two circular lists and a hash
  table of chained entries per shard. \<^verbatim>\<open>LDB_LRU_Lists\<close> and \<^verbatim>\<open>LDB_LRU_Table\<close> relate the pointers
  to sequences of nodes, \<^verbatim>\<open>LDB_LRU_Shard\<close> has the invariant of a shard, \<^verbatim>\<open>LDB_LRU_Ops\<close> shows
  that the operations keep it, and \<^verbatim>\<open>LDB_LRU_Props\<close> that the sharded cache keeps the contract,
  with the reachable states as an inductive predicate. At most \<open>2 ^ 30\<close> handles may be held
  and the capacity is at most \<open>2 ^ 34\<close>, so that no count of 32 bits wraps around.

  \<^bold>\<open>LevelDB, the memtable.\<close> \<^verbatim>\<open>LDB_Arena\<close> has the random numbers and the arena, with the
  proof that allocations do not overlap; \<^verbatim>\<open>LDB_Skiplist\<close> the skip list with the pointers of
  all levels, and \<^verbatim>\<open>LDB_Skiplist_Props\<close> shows, for any order of keys (a locale), that
  searches and insertions are those of a sorted list. \<^verbatim>\<open>LDB_Memtable\<close> is \<^verbatim>\<open>db/memtable\<close>,
  \<^verbatim>\<open>LDB_Memtable_Props\<close> its refinement of histories of writes, \<^verbatim>\<open>LDB_Write_Batch\<close> the batches and
  how they get into a memtable, \<^verbatim>\<open>LDB_Version_Edit\<close> the records of the descriptor file.
  Searches of the skip list are partial functions: that they end is part of what is shown.
  Threads that read while one writes are not modelled.

  \<^bold>\<open>Not modelled.\<close> The database layer of LevelDB (\<^verbatim>\<open>db_impl\<close>, \<^verbatim>\<open>version_set\<close>, recovery and
  compaction: threads, locks and a file system in every operation), the rest of its
  environment, mutexes (an operation of a shard is one step) and Snappy, which this build does
  not link. The Swift application and the Objective-C libraries (another language,
  user interface and network I/O), the variants of nanopb that this build does not compile
  (\<^verbatim>\<open>PB_WITHOUT_64BIT\<close>, old callback style), and user callbacks and extension handlers, which
  are parameters.
\<close>

end
